(* ===== verification/Prelude.thy ===== *)
theory Prelude
  imports Main "HOL-Library.Word"
begin

text \<open>
  Shared vocabulary of the development: Go's fixed-width unsigned integers as words, the
  little- and big-endian layouts of the package \<^verbatim>\<open>encoding/binary\<close>, the list and word
  facts that the components share, and the collections of theorems that their proofs pass
  to the simplifier.
\<close>

unbundle bit_operations_syntax

named_theorems layout \<open>lengths and inverses of the byte layouts\<close>
named_theorems ops \<open>unfolding equations of the modelled operations\<close>

type_synonym byte = "8 word"
type_synonym u8 = "8 word"
type_synonym u16 = "16 word"
type_synonym u32 = "32 word"
type_synonym u64 = "64 word"
type_synonym bytes = "byte list"

section \<open>Little-endian and big-endian layouts\<close>

text \<open>
  The first \<open>n\<close> bytes of a word, least significant first: what
  \<^verbatim>\<open>binary.LittleEndian.AppendUint16/32/64\<close> and the loop \<^verbatim>\<open>byte(v>>(8*i))\<close> append.
\<close>

fun le_bytes :: "nat \<Rightarrow> 'a::len word \<Rightarrow> bytes" where
  "le_bytes 0 v = []"
| "le_bytes (Suc n) v = ucast v # le_bytes n (drop_bit 8 v)"

text \<open>The word of a little-endian byte string: the loop \<^verbatim>\<open>v |= uint64(b[i]) << (8*i)\<close>.\<close>

fun le_word :: "bytes \<Rightarrow> 'a::len word" where
  "le_word [] = 0"
| "le_word (b # bs) = ucast b OR push_bit 8 (le_word bs)"

text \<open>Big-endian layouts of the same bytes.\<close>

definition be_bytes :: "nat \<Rightarrow> 'a::len word \<Rightarrow> bytes" where
  "be_bytes n v = rev (le_bytes n v)"

definition be_word :: "bytes \<Rightarrow> 'a::len word" where
  "be_word bs = le_word (rev bs)"

lemma length_le_bytes [simp, layout]: "length (le_bytes n v) = n"
  by (induction n v rule: le_bytes.induct) auto

lemma length_be_bytes [simp, layout]: "length (be_bytes n v) = n"
  by (simp add: be_bytes_def)

lemma nth_le_bytes: "i < n \<Longrightarrow> le_bytes n v ! i = ucast (drop_bit (8 * i) v)"
proof (induction n v arbitrary: i rule: le_bytes.induct)
  case (2 n v)
  then show ?case by (cases i) (simp_all add: add.commute)
qed simp

lemma bit_ucast_byte:
  "bit (ucast (ucast v :: byte) :: 'a::len word) k \<longleftrightarrow> k < 8 \<and> bit (v :: 'a word) k"
proof -
  have "bit v k \<Longrightarrow> k < LENGTH('a)" by (rule bit_imp_le_length)
  then show ?thesis by (auto simp: bit_ucast_iff)
qed

lemma le_word_le_bytes [layout]:
  "le_word (le_bytes n v) = take_bit (8 * n) (v :: 'a::len word)"
proof (induction n arbitrary: v)
  case (Suc n)
  have "ucast (ucast v :: byte) OR push_bit 8 (take_bit (8 * n) (drop_bit 8 v))
      = take_bit (8 * Suc n) v"
    by (rule bit_eqI)
      (auto simp: bit_or_iff bit_push_bit_iff bit_take_bit_iff bit_drop_bit_eq bit_ucast_byte)
  with Suc.IH show ?case by simp
qed simp

lemma le_word_le_bytes_full:
  "LENGTH('a) \<le> 8 * n \<Longrightarrow> le_word (le_bytes n v) = (v :: 'a::len word)"
  by (simp add: le_word_le_bytes take_bit_word_eq_self)

lemma le_word_le_bytes_u16 [simp, layout]: "le_word (le_bytes 2 v) = (v :: u16)"
  by (rule le_word_le_bytes_full) simp

lemma le_bytes_two: obtains a b where "le_bytes 2 (v :: u16) = [a, b]" "le_word [a, b] = v"
proof -
  have "length (le_bytes 2 v) = 2" by simp
  then obtain a b where "le_bytes 2 v = [a, b]" by (auto simp: numeral_eq_Suc length_Suc_conv)
  with le_word_le_bytes_u16 [of v] show ?thesis using that by simp
qed

lemma le_word_le_bytes_u32 [simp, layout]: "le_word (le_bytes 4 v) = (v :: u32)"
  by (rule le_word_le_bytes_full) simp

lemma le_word_le_bytes_u64 [simp, layout]: "le_word (le_bytes 8 v) = (v :: u64)"
  by (rule le_word_le_bytes_full) simp

lemma bit_le_word: "bit (le_word bs :: 'a::len word) k \<Longrightarrow> k < 8 * length bs"
proof (induction bs arbitrary: k)
  case (Cons c cs)
  show ?case
  proof (cases "k < 8")
    case False
    with Cons.prems have "bit (le_word cs :: 'a word) (k - 8)"
      by (auto simp: bit_or_iff bit_push_bit_iff bit_ucast_iff dest: bit_imp_le_length)
    from Cons.IH [OF this] False show ?thesis by simp
  qed simp
qed simp

lemma le_bytes_le_word:
  "8 * length bs \<le> LENGTH('a) \<Longrightarrow> le_bytes (length bs) (le_word bs :: 'a::len word) = bs"
proof (induction bs)
  case (Cons b bs)
  let ?w = "le_word bs :: 'a word"
  have len: "8 * length bs + 8 \<le> LENGTH('a)"
    using Cons.prems by simp
  have hd: "ucast (ucast b OR push_bit 8 ?w :: 'a word) = b"
    using len by (intro bit_eqI) (auto simp: bit_ucast_iff bit_or_iff bit_push_bit_iff)
  have tl: "drop_bit 8 (ucast b OR push_bit 8 ?w :: 'a word) = ?w"
  proof (rule bit_eqI)
    fix k
    show "bit (drop_bit 8 (ucast b OR push_bit 8 ?w)) k = bit ?w k"
      using bit_le_word [of bs k, where 'a = 'a] len
      by (auto simp: bit_drop_bit_eq bit_or_iff bit_push_bit_iff bit_ucast_iff
          dest: bit_imp_le_length)
  qed
  show ?case using Cons hd tl by simp
qed simp

lemma be_word_be_bytes_u16 [simp, layout]: "be_word (be_bytes 2 v) = (v :: u16)"
  by (simp add: be_word_def be_bytes_def)

text \<open>Zero-extension of a narrower little-endian field.\<close>

lemma le_word_ucast:
  assumes "8 * length bs \<le> LENGTH('b)" "LENGTH('b) \<le> LENGTH('a)"
  shows "(le_word bs :: 'a::len word) = ucast (le_word bs :: 'b::len word)"
  using assms(1)
proof (induction bs)
  case (Cons b bs)
  then have IH: "(le_word bs :: 'a word) = ucast (le_word bs :: 'b word)" by simp
  have shift: "n < LENGTH('b)" if "bit (le_word bs :: 'b word) (n - 8)" for n
    using bit_le_word [OF that] Cons.prems by simp
  have low: "n < LENGTH('b)" if "bit b n" for n
    using bit_imp_le_length [OF that] Cons.prems by simp
  show ?case
    unfolding le_word.simps IH using assms(2)
    by (intro bit_eqI)
      (auto simp: bit_ucast_iff bit_or_iff bit_push_bit_iff dest: shift low)
qed simp

section \<open>Lists and words\<close>

lemma drop_append_exact [simp]: "length xs = n \<Longrightarrow> drop n (xs @ ys) = ys"
  by simp

lemma take_append_exact [simp]: "length xs = n \<Longrightarrow> take n (xs @ ys) = xs"
  by simp

lemma drop_eq_ConsD:
  assumes "drop n xs = y # ys"
  shows "n < length xs" and "xs ! n = y" and "drop (Suc n) xs = ys"
proof -
  show n: "n < length xs"
    using assms by (metis drop_all list.distinct(1) not_le)
  with assms show "xs ! n = y" by (metis Cons_nth_drop_Suc list.inject)
  from n assms show "drop (Suc n) xs = ys" by (metis Cons_nth_drop_Suc list.inject)
qed

lemma drop_eq_appendD:
  assumes "drop n xs = ys @ zs"
  shows "length ys \<le> length xs - n" and "take (length ys) (drop n xs) = ys"
    and "drop (n + length ys) xs = zs"
proof -
  have "length (drop n xs) = length ys + length zs" using assms by simp
  then show "length ys \<le> length xs - n" by simp
  show "take (length ys) (drop n xs) = ys" using assms by simp
  have "drop (length ys) (drop n xs) = zs" using assms by simp
  then show "drop (n + length ys) xs = zs" by (simp add: add.commute)
qed

lemma uint_less_power: "(v :: 'a::len word) < 2 ^ n \<Longrightarrow> uint v < 2 ^ n"
proof -
  assume "v < 2 ^ n"
  then have "uint v < uint (2 ^ n :: 'a word)" by (simp add: word_less_def)
  also have "uint (2 ^ n :: 'a word) \<le> 2 ^ n"
    by transfer (simp add: take_bit_int_less_eq_self_iff)
  finally show ?thesis .
qed

lemma bit_word_less:
  assumes "bit (v :: 'a::len word) k" and "v < 2 ^ n"
  shows "k < n"
proof (rule ccontr)
  assume "\<not> k < n"
  then have "uint v < 2 ^ k"
    using uint_less_power [OF assms(2)]
    by (smt (verit) not_less one_le_numeral power_increasing)
  then have "\<not> bit (uint v) k"
    by (simp add: bit_iff_odd)
  with assms(1) show False by (simp add: bit_uint_iff bit_imp_le_length)
qed

lemma word_le_mask_take_bit:
  "v < 2 ^ n \<Longrightarrow> take_bit n (v :: 'a::len word) = v"
  by (rule bit_eqI) (auto simp: bit_take_bit_iff not_less dest: bit_word_less)

lemma word_of_unat: "unat (k :: 'a::len word) = n \<Longrightarrow> k = of_nat n"
  by auto

lemma xor_cancel: "(a :: 'a::len word) XOR c = b XOR c \<longleftrightarrow> a = b" "c XOR a = c XOR b \<longleftrightarrow> a = b"
proof -
  have "(x XOR c) XOR c = x" for x by (simp add: xor.assoc)
  then show "a XOR c = b XOR c \<longleftrightarrow> a = b" by metis
  then show "c XOR a = c XOR b \<longleftrightarrow> a = b" by (simp add: xor.commute)
qed

text \<open>Widening a field to \<^verbatim>\<open>uint64\<close> and truncating it again gives the field back.\<close>

lemma ucast_ucast_narrow:
  "LENGTH('a) \<le> LENGTH('b) \<Longrightarrow> ucast (ucast (x :: 'a::len word) :: 'b::len word) = x"
  by (intro bit_eqI) (auto simp: bit_ucast_iff dest: bit_imp_le_length)

lemma ucast_u64_roundtrip [simp, layout]:
  "ucast (ucast (x :: u8) :: u64) = x" "ucast (ucast (y :: u16) :: u64) = y"
  "ucast (ucast (z :: u32) :: u64) = z"
  by (simp_all add: ucast_ucast_narrow)

section \<open>Results\<close>

text \<open>\<^verbatim>\<open>v, _ := f()\<close>: the value, or the zero value that comes with an error.\<close>

fun value_or :: "'a \<Rightarrow> 'e + 'a \<Rightarrow> 'a" where
  "value_or z (Inl e) = z"
| "value_or z (Inr v) = v"

end
