(* ===== verification/Tlv_Writer.thy ===== *)
theory Tlv_Writer
  imports Prelude
begin

text \<open>
  The streaming TLV encoder of \<^verbatim>\<open>go-matter/tlv\<close>: tags (\<^verbatim>\<open>tag.go\<close>) and the
  \<^verbatim>\<open>Writer\<close> (\<^verbatim>\<open>writer.go\<close>). A Go method \<^verbatim>\<open>(w *Writer) M\<close> is \<open>Writer_M\<close>, a function
  on the record \<open>writer\<close> that returns the updated record. Floating-point values are
  represented by their IEEE bit patterns, as \<^verbatim>\<open>math.Float32bits\<close> and
  \<^verbatim>\<open>math.Float64bits\<close> give them.
\<close>

section \<open>Tags\<close>

text \<open>
  \<^verbatim>\<open>TagKind\<close> is a \<^verbatim>\<open>uint8\<close> with five named values; \<open>KindUnknown\<close> stands for the others.
\<close>

datatype tag_kind =
    KindAnonymous
  | KindContext
  | KindCommonProfile
  | KindImplicitProfile
  | KindFullyQualified
  | KindUnknown u8

record tag =
  Kind :: tag_kind
  Vendor :: u16
  Profile :: u16
  Num :: u32

definition Anonymous :: tag where
  "Anonymous = \<lparr>Kind = KindAnonymous, Vendor = 0, Profile = 0, Num = 0\<rparr>"

definition Context :: "u8 \<Rightarrow> tag" where
  "Context n = \<lparr>Kind = KindContext, Vendor = 0, Profile = 0, Num = ucast n\<rparr>"

definition CommonProfile :: "u32 \<Rightarrow> tag" where
  "CommonProfile n = \<lparr>Kind = KindCommonProfile, Vendor = 0, Profile = 0, Num = n\<rparr>"

definition Implicit :: "u32 \<Rightarrow> tag" where
  "Implicit n = \<lparr>Kind = KindImplicitProfile, Vendor = 0, Profile = 0, Num = n\<rparr>"

definition FullyQualified :: "u16 \<Rightarrow> u16 \<Rightarrow> u32 \<Rightarrow> tag" where
  "FullyQualified v p n = \<lparr>Kind = KindFullyQualified, Vendor = v, Profile = p, Num = n\<rparr>"

lemmas tag_ctor_defs [ops] =
  Anonymous_def Context_def CommonProfile_def Implicit_def FullyQualified_def

text \<open>Tag-control values, the top three bits of the control byte.\<close>

abbreviation tagCtlAnonymous :: byte where "tagCtlAnonymous \<equiv> 0x00"
abbreviation tagCtlContext :: byte where "tagCtlContext \<equiv> 0x20"
abbreviation tagCtlCommon2 :: byte where "tagCtlCommon2 \<equiv> 0x40"
abbreviation tagCtlCommon4 :: byte where "tagCtlCommon4 \<equiv> 0x60"
abbreviation tagCtlImplicit2 :: byte where "tagCtlImplicit2 \<equiv> 0x80"
abbreviation tagCtlImplicit4 :: byte where "tagCtlImplicit4 \<equiv> 0xA0"
abbreviation tagCtlFull6 :: byte where "tagCtlFull6 \<equiv> 0xC0"
abbreviation tagCtlFull8 :: byte where "tagCtlFull8 \<equiv> 0xE0"

text \<open>Element-type values, the low five bits of the control byte.\<close>

abbreviation etInt8 :: byte where "etInt8 \<equiv> 0x00"
abbreviation etUint8 :: byte where "etUint8 \<equiv> 0x04"
abbreviation etBoolFalse :: byte where "etBoolFalse \<equiv> 0x08"
abbreviation etBoolTrue :: byte where "etBoolTrue \<equiv> 0x09"
abbreviation etFloat32 :: byte where "etFloat32 \<equiv> 0x0A"
abbreviation etFloat64 :: byte where "etFloat64 \<equiv> 0x0B"
abbreviation etUTF8Len1 :: byte where "etUTF8Len1 \<equiv> 0x0C"
abbreviation etBytesLen1 :: byte where "etBytesLen1 \<equiv> 0x10"
abbreviation etNull :: byte where "etNull \<equiv> 0x14"
abbreviation etStructure :: byte where "etStructure \<equiv> 0x15"
abbreviation etArray :: byte where "etArray \<equiv> 0x16"
abbreviation etList :: byte where "etList \<equiv> 0x17"
abbreviation etEndOfCont :: byte where "etEndOfCont \<equiv> 0x18"

section \<open>Errors and element types\<close>

text \<open>
  The errors of the package, one constructor per message; a reader error carries the offset
  the message prints. \<open>tlv_type\<close> is the type \<^verbatim>\<open>Type\<close> of \<^verbatim>\<open>reader.go\<close>, which error
  messages name.
\<close>

datatype tlv_type =
    TypeInvalid | TypeInt | TypeUint | TypeBool | TypeFloat | TypeString | TypeBytes
  | TypeNull | TypeStructure | TypeArray | TypeList

datatype tlv_error =
    ContextTagOutOfRange u32
  | UnknownTagKind u8
  | EndContainerWithoutOpen
  | ContainersLeftOpen nat
  | InputEndedInContainer nat
  | EndOfContainerAtTop nat
  | TruncatedTag nat
  | TruncatedValue nat
  | LengthExceedsInput u64 nat
  | ReservedElementType byte nat
  | NestingTooDeep nat
  | NotAContainer
  | TypeMismatch tlv_type tlv_type

section \<open>The writer\<close>

record writer =
  w_buf :: bytes
  w_depth :: nat
  w_err :: "tlv_error option"

definition NewWriter :: writer where
  "NewWriter = \<lparr>w_buf = [], w_depth = 0, w_err = None\<rparr>"

definition w_append :: "writer \<Rightarrow> bytes \<Rightarrow> writer" where
  "w_append w bs = w\<lparr>w_buf := w_buf w @ bs\<rparr>"

definition Writer_fail :: "writer \<Rightarrow> tlv_error \<Rightarrow> writer" where
  "Writer_fail w e = (if w_err w = None then w\<lparr>w_err := Some e\<rparr> else w)"

definition Writer_control :: "writer \<Rightarrow> tag \<Rightarrow> byte \<Rightarrow> writer" where
  "Writer_control w t et =
     (if w_err w \<noteq> None then w
      else case Kind t of
        KindAnonymous \<Rightarrow> w_append w [tagCtlAnonymous OR et]
      | KindContext \<Rightarrow>
          if Num t > 0xFF then Writer_fail w (ContextTagOutOfRange (Num t))
          else w_append w [tagCtlContext OR et, ucast (Num t)]
      | KindCommonProfile \<Rightarrow>
          if Num t \<le> 0xFFFF
          then w_append w ([tagCtlCommon2 OR et] @ le_bytes 2 (ucast (Num t) :: u16))
          else w_append w ([tagCtlCommon4 OR et] @ le_bytes 4 (Num t))
      | KindImplicitProfile \<Rightarrow>
          if Num t \<le> 0xFFFF
          then w_append w ([tagCtlImplicit2 OR et] @ le_bytes 2 (ucast (Num t) :: u16))
          else w_append w ([tagCtlImplicit4 OR et] @ le_bytes 4 (Num t))
      | KindFullyQualified \<Rightarrow>
          if Num t \<le> 0xFFFF
          then w_append w ([tagCtlFull6 OR et] @ le_bytes 2 (Vendor t) @ le_bytes 2 (Profile t)
                 @ le_bytes 2 (ucast (Num t) :: u16))
          else w_append w ([tagCtlFull8 OR et] @ le_bytes 2 (Vendor t) @ le_bytes 2 (Profile t)
                 @ le_bytes 4 (Num t))
      | KindUnknown k \<Rightarrow> Writer_fail w (UnknownTagKind k))"

text \<open>\<^verbatim>\<open>appendLE\<close> appends whether or not an earlier call failed.\<close>

definition Writer_appendLE :: "writer \<Rightarrow> u64 \<Rightarrow> nat \<Rightarrow> writer" where
  "Writer_appendLE w v width = w_append w (le_bytes width v)"

definition Writer_PutUint :: "writer \<Rightarrow> tag \<Rightarrow> u64 \<Rightarrow> writer" where
  "Writer_PutUint w t v =
     (let (et, width) =
        (if v \<le> 0xFF then (etUint8, 1)
         else if v \<le> 0xFFFF then (etUint8 + 1, 2)
         else if v \<le> 0xFFFFFFFF then (etUint8 + 2, 4)
         else (etUint8 + 3, 8))
      in Writer_appendLE (Writer_control w t et) v width)"

text \<open>An \<^verbatim>\<open>int64\<close> is a 64-bit word read by \<open>sint\<close>.\<close>

definition Writer_PutInt :: "writer \<Rightarrow> tag \<Rightarrow> u64 \<Rightarrow> writer" where
  "Writer_PutInt w t v =
     (let (et, width) =
        (if -128 \<le> sint v \<and> sint v \<le> 127 then (etInt8, 1)
         else if -32768 \<le> sint v \<and> sint v \<le> 32767 then (etInt8 + 1, 2)
         else if -2147483648 \<le> sint v \<and> sint v \<le> 2147483647 then (etInt8 + 2, 4)
         else (etInt8 + 3, 8))
      in Writer_appendLE (Writer_control w t et) v width)"

definition Writer_PutBool :: "writer \<Rightarrow> tag \<Rightarrow> bool \<Rightarrow> writer" where
  "Writer_PutBool w t v = Writer_control w t (if v then etBoolTrue else etBoolFalse)"

definition Writer_PutFloat32 :: "writer \<Rightarrow> tag \<Rightarrow> u32 \<Rightarrow> writer" where
  "Writer_PutFloat32 w t bits = Writer_appendLE (Writer_control w t etFloat32) (ucast bits) 4"

definition Writer_PutFloat64 :: "writer \<Rightarrow> tag \<Rightarrow> u64 \<Rightarrow> writer" where
  "Writer_PutFloat64 w t bits = Writer_appendLE (Writer_control w t etFloat64) bits 8"

definition Writer_putBlob :: "writer \<Rightarrow> tag \<Rightarrow> byte \<Rightarrow> bytes \<Rightarrow> writer" where
  "Writer_putBlob w t baseType b =
     (let n = (of_nat (length b) :: u64);
          (et, lenWidth) =
            (if n \<le> 0xFF then (baseType, 1)
             else if n \<le> 0xFFFF then (baseType + 1, 2)
             else if n \<le> 0xFFFFFFFF then (baseType + 2, 4)
             else (baseType + 3, 8))
      in w_append (Writer_appendLE (Writer_control w t et) n lenWidth) b)"

definition Writer_PutString :: "writer \<Rightarrow> tag \<Rightarrow> bytes \<Rightarrow> writer" where
  "Writer_PutString w t s = Writer_putBlob w t etUTF8Len1 s"

definition Writer_PutBytes :: "writer \<Rightarrow> tag \<Rightarrow> bytes \<Rightarrow> writer" where
  "Writer_PutBytes w t b = Writer_putBlob w t etBytesLen1 b"

definition Writer_PutNull :: "writer \<Rightarrow> tag \<Rightarrow> writer" where
  "Writer_PutNull w t = Writer_control w t etNull"

definition Writer_StartStructure :: "writer \<Rightarrow> tag \<Rightarrow> writer" where
  "Writer_StartStructure w t = (let w' = Writer_control w t etStructure in w'\<lparr>w_depth := Suc (w_depth w')\<rparr>)"

definition Writer_StartArray :: "writer \<Rightarrow> tag \<Rightarrow> writer" where
  "Writer_StartArray w t = (let w' = Writer_control w t etArray in w'\<lparr>w_depth := Suc (w_depth w')\<rparr>)"

definition Writer_StartList :: "writer \<Rightarrow> tag \<Rightarrow> writer" where
  "Writer_StartList w t = (let w' = Writer_control w t etList in w'\<lparr>w_depth := Suc (w_depth w')\<rparr>)"

definition Writer_EndContainer :: "writer \<Rightarrow> writer" where
  "Writer_EndContainer w =
     (if w_err w \<noteq> None then w
      else if w_depth w = 0 then Writer_fail w EndContainerWithoutOpen
      else (w_append w [etEndOfCont])\<lparr>w_depth := w_depth w - 1\<rparr>)"

definition Writer_Raw :: "writer \<Rightarrow> bytes \<Rightarrow> writer" where
  "Writer_Raw w b = (if w_err w = None then w_append w b else w)"

definition Writer_Bytes :: "writer \<Rightarrow> tlv_error + bytes" where
  "Writer_Bytes w =
     (case w_err w of
        Some e \<Rightarrow> Inl e
      | None \<Rightarrow> if w_depth w \<noteq> 0 then Inl (ContainersLeftOpen (w_depth w)) else Inr (w_buf w))"

lemmas writer_put_defs [ops] =
  Writer_PutUint_def Writer_PutInt_def Writer_PutBool_def Writer_PutFloat32_def
  Writer_PutFloat64_def Writer_putBlob_def Writer_PutString_def Writer_PutBytes_def
  Writer_PutNull_def Writer_StartStructure_def Writer_StartArray_def Writer_StartList_def
  Writer_EndContainer_def Writer_Raw_def Writer_appendLE_def

section \<open>A failure is never lost\<close>

text \<open>
  Once a call has failed, no later call clears or replaces the error: \<^verbatim>\<open>Bytes\<close> reports the
  first failure of the chain.
\<close>

lemma Writer_control_err: "w_err w = Some e \<Longrightarrow> Writer_control w t et = w"
  by (simp add: Writer_control_def)

datatype writer_op =
    OpUint tag u64 | OpInt tag u64 | OpBool tag bool | OpFloat32 tag u32 | OpFloat64 tag u64
  | OpString tag bytes | OpBytes tag bytes | OpNull tag
  | OpStructure tag | OpArray tag | OpList tag | OpEnd | OpRaw bytes

text \<open>One call of an exported method, and a chain of them.\<close>

fun writer_step :: "writer \<Rightarrow> writer_op \<Rightarrow> writer" where
  "writer_step w (OpUint t v) = Writer_PutUint w t v"
| "writer_step w (OpInt t v) = Writer_PutInt w t v"
| "writer_step w (OpBool t v) = Writer_PutBool w t v"
| "writer_step w (OpFloat32 t v) = Writer_PutFloat32 w t v"
| "writer_step w (OpFloat64 t v) = Writer_PutFloat64 w t v"
| "writer_step w (OpString t b) = Writer_PutString w t b"
| "writer_step w (OpBytes t b) = Writer_PutBytes w t b"
| "writer_step w (OpNull t) = Writer_PutNull w t"
| "writer_step w (OpStructure t) = Writer_StartStructure w t"
| "writer_step w (OpArray t) = Writer_StartArray w t"
| "writer_step w (OpList t) = Writer_StartList w t"
| "writer_step w OpEnd = Writer_EndContainer w"
| "writer_step w (OpRaw b) = Writer_Raw w b"

lemma writer_step_err: "w_err w = Some e \<Longrightarrow> w_err (writer_step w a) = Some e"
  by (cases a) (simp_all add: ops w_append_def Writer_control_err Let_def)

lemma writer_ops_err: "w_err w = Some e \<Longrightarrow> w_err (foldl writer_step w as) = Some e"
  by (induction as arbitrary: w) (simp_all add: writer_step_err)

end
