(* ===== verification/Tlv_Reader.thy ===== *)
theory Tlv_Reader
  imports Tlv_Writer
begin

text \<open>
  The streaming TLV decoder of \<^verbatim>\<open>go-matter/tlv/reader.go\<close>: the \<^verbatim>\<open>Reader\<close>'s fields as the
  record \<open>reader\<close>, one definition per method, and the loop that skips an unread container
  with its termination proof. The section on bounds shows that every method keeps the
  position inside the input, which is what makes the unchecked slice reads of the code safe.
\<close>

section \<open>State\<close>

abbreviation maxDepth :: nat where "maxDepth \<equiv> 32"

record reader =
  r_data :: bytes
  r_pos :: nat
  r_depth :: nat
  r_err :: "tlv_error option"
  r_valid :: bool
  r_skipPending :: bool
  r_typ :: tlv_type
  r_tag :: tag
  r_u :: u64
  r_i :: u64
  r_f :: u64
  r_b :: bytes

definition NewReader :: "bytes \<Rightarrow> reader" where
  "NewReader d = \<lparr>r_data = d, r_pos = 0, r_depth = 0, r_err = None, r_valid = False,
     r_skipPending = False, r_typ = TypeInvalid, r_tag = Anonymous, r_u = 0, r_i = 0, r_f = 0,
     r_b = []\<rparr>"

text \<open>The first error is kept, with the offset at which it happened.\<close>

definition Reader_fail :: "(nat \<Rightarrow> tlv_error) \<Rightarrow> reader \<Rightarrow> reader" where
  "Reader_fail e r =
     r\<lparr>r_err := (case r_err r of None \<Rightarrow> Some (e (r_pos r)) | Some x \<Rightarrow> Some x), r_valid := False\<rparr>"

text \<open>The unread input \<^verbatim>\<open>r.data[r.pos:]\<close> and its length \<^verbatim>\<open>len(r.data)-r.pos\<close>.\<close>

definition r_rest :: "reader \<Rightarrow> bytes" where
  "r_rest r = drop (r_pos r) (r_data r)"

definition r_left :: "reader \<Rightarrow> nat" where
  "r_left r = length (r_data r) - r_pos r"

definition r_advance :: "nat \<Rightarrow> reader \<Rightarrow> reader" where
  "r_advance n r = r\<lparr>r_pos := r_pos r + n\<rparr>"

section \<open>Tags and values\<close>

text \<open>\<^verbatim>\<open>need(n)\<close> of \<^verbatim>\<open>readTag\<close>: the next \<open>n\<close> bytes with the position moved over them.\<close>

definition tag_field :: "nat \<Rightarrow> (bytes \<Rightarrow> tag) \<Rightarrow> reader \<Rightarrow> tag option \<times> reader" where
  "tag_field n mk r =
     (if r_left r < n then (None, Reader_fail TruncatedTag r)
      else (Some (mk (take n (r_rest r))), r_advance n r))"

definition Reader_readTag :: "byte \<Rightarrow> reader \<Rightarrow> tag option \<times> reader" where
  "Reader_readTag tc r =
     (if tc = 0 then (Some Anonymous, r)
      else if tc = 1 then tag_field 1 (\<lambda>b. Context (b ! 0)) r
      else if tc = 2 \<or> tc = 4 then
        tag_field 2 (\<lambda>b. let n = ucast (le_word b :: u16)
                         in if tc = 2 then CommonProfile n else Implicit n) r
      else if tc = 3 \<or> tc = 5 then
        tag_field 4 (\<lambda>b. let n = le_word b in if tc = 3 then CommonProfile n else Implicit n) r
      else if tc = 6 then
        tag_field 6 (\<lambda>b. FullyQualified (le_word (take 2 b)) (le_word (take 2 (drop 2 b)))
                           (ucast (le_word (take 2 (drop 4 b)) :: u16))) r
      else
        tag_field 8 (\<lambda>b. FullyQualified (le_word (take 2 b)) (le_word (take 2 (drop 2 b)))
                           (le_word (take 4 (drop 4 b)))) r)"

definition Reader_readLE :: "nat \<Rightarrow> reader \<Rightarrow> u64 option \<times> reader" where
  "Reader_readLE width r =
     (if r_left r < width then (None, Reader_fail TruncatedValue r)
      else (Some (le_word (take width (r_rest r))), r_advance width r))"

text \<open>
  Conversion of a single- to a double-precision value on bit patterns, as
  \<^verbatim>\<open>float64(math.Float32frombits(..))\<close>: exact on numbers, infinities kept, a NaN quiet.
\<close>

fun f32_normalise :: "nat \<Rightarrow> u64 \<Rightarrow> u64 \<Rightarrow> u64 \<times> u64" where
  "f32_normalise 0 m e = (m, e)"
| "f32_normalise (Suc k) m e =
     (if bit m 23 then (m, e) else f32_normalise k (push_bit 1 m) (e - 1))"

definition float32_to_64 :: "u32 \<Rightarrow> u64" where
  "float32_to_64 x =
     (let s = push_bit 63 (ucast (drop_bit 31 x)) :: u64;
          e = ucast (drop_bit 23 x AND 0xFF) :: u64;
          m = ucast (x AND 0x7FFFFF) :: u64
      in if e = 255 then
           s OR push_bit 52 0x7FF OR push_bit 29 m OR (if m = 0 then 0 else push_bit 51 1)
         else if e = 0 \<and> m = 0 then s
         else if e = 0 then
           (case f32_normalise 23 m 897 of (m', e') \<Rightarrow>
              s OR push_bit 52 e' OR push_bit 29 (m' AND 0x7FFFFF))
         else s OR push_bit 52 (e + 896) OR push_bit 29 m)"

definition sign_extend :: "nat \<Rightarrow> u64 \<Rightarrow> u64" where
  "sign_extend width v =
     (let shift = 64 - 8 * width in signed_drop_bit shift (push_bit shift v))"

text \<open>
  The string branch: a length field, the check against the remaining input, the view of the
  payload. \<open>r_take\<close> stores the view in \<^verbatim>\<open>r.b\<close>; skipping does not.
\<close>

definition Reader_blob :: "byte \<Rightarrow> reader \<Rightarrow> bytes option \<times> reader" where
  "Reader_blob et r =
     (case Reader_readLE (2 ^ unat ((et - etUTF8Len1) AND 0x03)) r of
        (None, r') \<Rightarrow> (None, r')
      | (Some n, r') \<Rightarrow>
          if unat n > r_left r' then (None, Reader_fail (LengthExceedsInput n) r')
          else (Some (take (unat n) (r_rest r')), r_advance (unat n) r'))"

definition Reader_readValue :: "byte \<Rightarrow> reader \<Rightarrow> bool \<times> reader" where
  "Reader_readValue et r =
     (if et \<le> 0x03 then
        (let width = 2 ^ unat et in
         case Reader_readLE width r of
           (None, r') \<Rightarrow> (False, r')
         | (Some v, r') \<Rightarrow> (True, r'\<lparr>r_i := sign_extend width v, r_typ := TypeInt\<rparr>))
      else if et \<le> 0x07 then
        (case Reader_readLE (2 ^ unat (et - etUint8)) r of
           (None, r') \<Rightarrow> (False, r')
         | (Some v, r') \<Rightarrow> (True, r'\<lparr>r_u := v, r_typ := TypeUint\<rparr>))
      else if et = etBoolFalse \<or> et = etBoolTrue then
        (True, r\<lparr>r_u := (if et = etBoolTrue then 1 else 0), r_typ := TypeBool\<rparr>)
      else if et = etFloat32 then
        (case Reader_readLE 4 r of
           (None, r') \<Rightarrow> (False, r')
         | (Some v, r') \<Rightarrow> (True, r'\<lparr>r_f := float32_to_64 (ucast v), r_typ := TypeFloat\<rparr>))
      else if et = etFloat64 then
        (case Reader_readLE 8 r of
           (None, r') \<Rightarrow> (False, r')
         | (Some v, r') \<Rightarrow> (True, r'\<lparr>r_f := v, r_typ := TypeFloat\<rparr>))
      else if et \<ge> etUTF8Len1 \<and> et \<le> 0x13 then
        (case Reader_blob et r of
           (None, r') \<Rightarrow> (False, r')
         | (Some b, r') \<Rightarrow>
             (True, r'\<lparr>r_b := b, r_typ := (if et \<le> 0x0F then TypeString else TypeBytes)\<rparr>))
      else if et = etNull then (True, r\<lparr>r_typ := TypeNull\<rparr>)
      else if et = etStructure then (True, r\<lparr>r_typ := TypeStructure\<rparr>)
      else if et = etArray then (True, r\<lparr>r_typ := TypeArray\<rparr>)
      else if et = etList then (True, r\<lparr>r_typ := TypeList\<rparr>)
      else (False, Reader_fail (ReservedElementType et) r))"

text \<open>The value part of the skipping loop, without materialising the value.\<close>

definition Reader_skipValue :: "byte \<Rightarrow> reader \<Rightarrow> bool \<times> reader" where
  "Reader_skipValue et r =
     (let le = (\<lambda>n. case Reader_readLE n r of (v, r') \<Rightarrow> (v \<noteq> None, r')) in
      if et = etBoolFalse \<or> et = etBoolTrue \<or> et = etNull then (True, r)
      else if et \<le> 0x03 then le (2 ^ unat et)
      else if et \<le> 0x07 then le (2 ^ unat (et - etUint8))
      else if et = etFloat32 then le 4
      else if et = etFloat64 then le 8
      else if et \<ge> etUTF8Len1 \<and> et \<le> 0x13 then
        (case Reader_blob et r of (b, r') \<Rightarrow> (b \<noteq> None, r'))
      else (False, Reader_fail (ReservedElementType et) r))"

section \<open>Bounds\<close>

text \<open>
  \<open>r_adv r r'\<close>: the input is the same, the position has not
  moved back and is still inside it, and the nesting depth and the skip flag are untouched.
\<close>

definition r_ok :: "reader \<Rightarrow> bool" where
  "r_ok r \<longleftrightarrow> r_pos r \<le> length (r_data r)"

definition r_adv :: "reader \<Rightarrow> reader \<Rightarrow> bool" where
  "r_adv r r' \<longleftrightarrow> r_data r' = r_data r \<and> r_pos r \<le> r_pos r' \<and> (r_ok r \<longrightarrow> r_ok r')
     \<and> r_depth r' = r_depth r \<and> r_skipPending r' = r_skipPending r"

lemma r_adv_refl [simp, intro]: "r_adv r r"
  by (simp add: r_adv_def)

lemma r_adv_trans: "r_adv a b \<Longrightarrow> r_adv b c \<Longrightarrow> r_adv a c"
  by (auto simp: r_adv_def)

lemma r_adv_fail [simp]: "r_adv r (Reader_fail e r)"
  by (simp add: r_adv_def Reader_fail_def r_ok_def)

lemma r_adv_advance: "n \<le> r_left r \<Longrightarrow> r_adv r (r_advance n r)"
  by (auto simp: r_adv_def r_advance_def r_left_def r_ok_def)

lemma r_adv_value [simp]:
  "r_adv r (r'\<lparr>r_u := u\<rparr>) \<longleftrightarrow> r_adv r r'"
  "r_adv r (r'\<lparr>r_i := u\<rparr>) \<longleftrightarrow> r_adv r r'"
  "r_adv r (r'\<lparr>r_f := u\<rparr>) \<longleftrightarrow> r_adv r r'"
  "r_adv r (r'\<lparr>r_b := b\<rparr>) \<longleftrightarrow> r_adv r r'"
  "r_adv r (r'\<lparr>r_typ := t\<rparr>) \<longleftrightarrow> r_adv r r'"
  "r_adv r (r'\<lparr>r_tag := g\<rparr>) \<longleftrightarrow> r_adv r r'"
  by (simp_all add: r_adv_def r_ok_def)

lemma tag_field_adv: "tag_field n mk r = (x, r') \<Longrightarrow> r_adv r r'"
  by (auto simp: tag_field_def r_adv_advance split: if_splits)

lemma readTag_adv: "Reader_readTag tc r = (x, r') \<Longrightarrow> r_adv r r'"
  by (auto simp: Reader_readTag_def dest: tag_field_adv split: if_splits)

lemma readLE_adv: "Reader_readLE n r = (x, r') \<Longrightarrow> r_adv r r'"
  by (auto simp: Reader_readLE_def r_adv_advance split: if_splits)

lemma blob_adv: "Reader_blob et r = (x, r') \<Longrightarrow> r_adv r r'"
  by (auto simp: Reader_blob_def r_adv_advance not_less dest!: readLE_adv
      intro: r_adv_trans split: prod.splits option.splits if_splits)

lemma skipValue_adv: "Reader_skipValue et r = (x, r') \<Longrightarrow> r_adv r r'"
  by (auto simp: Reader_skipValue_def Let_def dest: readLE_adv blob_adv
      split: if_splits prod.splits)

lemma readValue_adv: "Reader_readValue et r = (x, r') \<Longrightarrow> r_adv r r'"
  by (auto simp: Reader_readValue_def Let_def dest: readLE_adv blob_adv
      split: if_splits prod.splits option.splits)

section \<open>Skipping a container\<close>

lemma r_left_adv1: "\<not> length (r_data r) \<le> r_pos r \<Longrightarrow> r_adv (r_advance 1 r) r' \<Longrightarrow> r_left r' < r_left r"
  by (simp add: r_adv_def r_left_def r_advance_def) arith

text \<open>
  The loop of \<^verbatim>\<open>skipContainerBody\<close>; \<open>level\<close> counts the open containers. Every round
  consumes at least the control byte.
\<close>

function skip_loop :: "nat \<Rightarrow> reader \<Rightarrow> bool \<times> reader" where
  "skip_loop level r =
     (if level = 0 then (True, r)
      else if r_pos r \<ge> length (r_data r) then (False, Reader_fail InputEndedInContainer r)
      else
        let ctl = r_data r ! r_pos r; et = ctl AND 0x1F; r1 = r_advance 1 r in
        if et = etEndOfCont then skip_loop (level - 1) r1
        else
          case Reader_readTag (drop_bit 5 ctl) r1 of
            (None, r2) \<Rightarrow> (False, r2)
          | (Some t, r2) \<Rightarrow>
              if et = etStructure \<or> et = etArray \<or> et = etList then
                if level \<ge> maxDepth then (False, Reader_fail NestingTooDeep r2)
                else skip_loop (Suc level) r2
              else
                case Reader_skipValue et r2 of
                  (False, r3) \<Rightarrow> (False, r3)
                | (True, r3) \<Rightarrow> skip_loop level r3)"
  by pat_completeness auto

termination
proof (relation "measure (\<lambda>(l, r). r_left r)", goal_cases)
  case (2 level r)
  then show ?case using r_left_adv1 [of r "r_advance 1 r"] by simp
next
  case (3 level r)
  then show ?case
    using r_left_adv1 [OF _ readTag_adv] by (metis case_prod_conv in_measure)
next
  case (4 level r)
  then show ?case
    using r_left_adv1 [OF _ r_adv_trans [OF readTag_adv skipValue_adv]]
    by (metis case_prod_conv in_measure)
qed simp

declare skip_loop.simps [simp del]

definition Reader_skipContainerBody :: "reader \<Rightarrow> bool \<times> reader" where
  "Reader_skipContainerBody r = skip_loop 1 r"

section \<open>Iteration\<close>

definition is_container :: "tlv_type \<Rightarrow> bool" where
  "is_container t \<longleftrightarrow> t = TypeStructure \<or> t = TypeArray \<or> t = TypeList"

text \<open>\<^verbatim>\<open>Next\<close> after the pending skip: the flags are cleared and one element is read.\<close>

definition Reader_nextElement :: "reader \<Rightarrow> bool \<times> reader" where
  "Reader_nextElement r0 =
     (let r = r0\<lparr>r_valid := False, r_skipPending := False\<rparr> in
      if r_pos r \<ge> length (r_data r) then
        (False, if r_depth r \<noteq> 0 then Reader_fail InputEndedInContainer r else r)
      else
        let ctl = r_data r ! r_pos r; et = ctl AND 0x1F in
        if et = etEndOfCont then
          if r_depth r = 0 then (False, Reader_fail EndOfContainerAtTop r)
          else (False, (r_advance 1 r)\<lparr>r_depth := r_depth r - 1\<rparr>)
        else
          case Reader_readTag (drop_bit 5 ctl) (r_advance 1 r) of
            (None, r2) \<Rightarrow> (False, r2)
          | (Some t, r2) \<Rightarrow>
              (case Reader_readValue et (r2\<lparr>r_tag := t\<rparr>) of
                 (False, r3) \<Rightarrow> (False, r3)
               | (True, r3) \<Rightarrow>
                   (True, r3\<lparr>r_valid := True, r_skipPending := is_container (r_typ r3)\<rparr>)))"

definition Reader_Next :: "reader \<Rightarrow> bool \<times> reader" where
  "Reader_Next r =
     (if r_err r \<noteq> None then (False, r)
      else if r_valid r \<and> r_skipPending r then
        (case Reader_skipContainerBody r of
           (False, r') \<Rightarrow> (False, r')
         | (True, r') \<Rightarrow> Reader_nextElement r')
      else Reader_nextElement r)"

definition Reader_Enter :: "reader \<Rightarrow> tlv_error option \<times> reader" where
  "Reader_Enter r =
     (if r_err r \<noteq> None then (r_err r, r)
      else if \<not> r_valid r \<or> \<not> r_skipPending r then (Some NotAContainer, r)
      else if r_depth r \<ge> maxDepth then
        (let r' = Reader_fail NestingTooDeep r in (r_err r', r'))
      else (None, r\<lparr>r_depth := Suc (r_depth r), r_valid := False, r_skipPending := False\<rparr>))"

section \<open>Getters\<close>

definition Reader_Type :: "reader \<Rightarrow> tlv_type" where
  "Reader_Type r = (if r_valid r then r_typ r else TypeInvalid)"

definition Reader_typeError :: "tlv_type \<Rightarrow> reader \<Rightarrow> tlv_error" where
  "Reader_typeError want r = TypeMismatch (Reader_Type r) want"

definition Reader_Uint :: "reader \<Rightarrow> tlv_error + u64" where
  "Reader_Uint r =
     (if r_valid r \<and> r_typ r = TypeUint then Inr (r_u r)
      else if r_valid r \<and> r_typ r = TypeInt \<and> sint (r_i r) \<ge> 0 then Inr (r_i r)
      else Inl (Reader_typeError TypeUint r))"

definition Reader_Int :: "reader \<Rightarrow> tlv_error + u64" where
  "Reader_Int r =
     (if r_valid r \<and> r_typ r = TypeInt then Inr (r_i r)
      else if r_valid r \<and> r_typ r = TypeUint \<and> r_u r \<le> 0x7FFFFFFFFFFFFFFF then Inr (r_u r)
      else Inl (Reader_typeError TypeInt r))"

definition Reader_Bool :: "reader \<Rightarrow> tlv_error + bool" where
  "Reader_Bool r =
     (if r_valid r \<and> r_typ r = TypeBool then Inr (r_u r \<noteq> 0)
      else Inl (Reader_typeError TypeBool r))"

definition Reader_Float :: "reader \<Rightarrow> tlv_error + u64" where
  "Reader_Float r =
     (if r_valid r \<and> r_typ r = TypeFloat then Inr (r_f r)
      else Inl (Reader_typeError TypeFloat r))"

definition Reader_String :: "reader \<Rightarrow> tlv_error + bytes" where
  "Reader_String r =
     (if r_valid r \<and> r_typ r = TypeString then Inr (r_b r)
      else Inl (Reader_typeError TypeString r))"

definition Reader_Bytes :: "reader \<Rightarrow> tlv_error + bytes" where
  "Reader_Bytes r =
     (if r_valid r \<and> r_typ r = TypeBytes then Inr (r_b r)
      else Inl (Reader_typeError TypeBytes r))"

lemmas getter_defs [ops] =
  Reader_Uint_def Reader_Int_def Reader_Bool_def Reader_Float_def Reader_String_def
  Reader_Bytes_def Reader_Type_def Reader_typeError_def

section \<open>What one call of Next does to the position and the depth\<close>

text \<open>
  \<open>Next\<close> never leaves the input. When it reports an element the position has grown, no
  error is set and the depth is the caller's; when it reports the end without an error, the
  depth is one less, or the input ended at the top level.
\<close>

lemma r_adv_flags [simp]:
  "r_data (r\<lparr>r_valid := v, r_skipPending := p\<rparr>) = r_data r"
  by simp

lemma fail_err [simp]: "r_err (Reader_fail e r) \<noteq> None" "\<exists>x. r_err (Reader_fail e r) = Some x"
  by (simp_all add: Reader_fail_def split: option.splits)

lemma fail_fields [simp]:
  "r_data (Reader_fail e r) = r_data r" "r_pos (Reader_fail e r) = r_pos r"
  "r_depth (Reader_fail e r) = r_depth r"
  by (simp_all add: Reader_fail_def)

lemma advance_fields [simp]:
  "r_data (r_advance n r) = r_data r" "r_pos (r_advance n r) = r_pos r + n"
  "r_depth (r_advance n r) = r_depth r" "r_err (r_advance n r) = r_err r"
  "r_valid (r_advance n r) = r_valid r" "r_skipPending (r_advance n r) = r_skipPending r"
  "r_tag (r_advance n r) = r_tag r"
  by (simp_all add: r_advance_def)

text \<open>
  \<open>r_res ok r r'\<close>: \<open>r'\<close> is \<open>r\<close> advanced, with the error unchanged if the read
  succeeded (\<open>ok\<close>) and an error set if it failed.
\<close>

definition r_res :: "bool \<Rightarrow> reader \<Rightarrow> reader \<Rightarrow> bool" where
  "r_res ok r r' \<longleftrightarrow> r_adv r r' \<and> (if ok then r_err r' = r_err r \<and> r_valid r' = r_valid r
        else r_err r' \<noteq> None \<and> \<not> r_valid r')"

lemma r_res_refl [simp]: "r_res True r r"
  by (simp add: r_res_def)

lemma fail_valid [simp]: "\<not> r_valid (Reader_fail e r)"
  by (simp add: Reader_fail_def)

lemma r_res_fail [simp]: "r_res False r (Reader_fail e r)"
  by (simp add: r_res_def)

lemma r_res_trans: "r_res True a b \<Longrightarrow> r_res ok b c \<Longrightarrow> r_res ok a c"
  by (auto simp: r_res_def split: if_splits intro: r_adv_trans)

lemma tag_field_res: "tag_field n mk r = (x, r') \<Longrightarrow> r_res (x \<noteq> None) r r'"
  by (auto simp: tag_field_def r_res_def r_adv_advance split: if_splits)

lemma readTag_res: "Reader_readTag tc r = (x, r') \<Longrightarrow> r_res (x \<noteq> None) r r'"
  by (auto simp: Reader_readTag_def dest: tag_field_res split: if_splits)

lemma readLE_res: "Reader_readLE n r = (x, r') \<Longrightarrow> r_res (x \<noteq> None) r r'"
  by (auto simp: Reader_readLE_def r_res_def r_adv_advance split: if_splits)

lemma blob_res: "Reader_blob et r = (x, r') \<Longrightarrow> r_res (x \<noteq> None) r r'"
  using blob_adv [of et r x r']
  by (auto simp: Reader_blob_def r_res_def dest!: readLE_res split: if_splits prod.splits option.splits)

lemma skipValue_res: "Reader_skipValue et r = (x, r') \<Longrightarrow> r_res x r r'"
  by (auto simp: Reader_skipValue_def Let_def dest: readLE_res blob_res split: if_splits prod.splits)

lemma readValue_res: "Reader_readValue et r = (x, r') \<Longrightarrow> r_res x r r'"
  using readValue_adv [of et r x r']
  by (auto simp: Reader_readValue_def Let_def r_res_def
      dest!: readLE_res blob_res split: if_splits prod.splits option.splits)

lemma skip_loop_res: "skip_loop l r = (x, r') \<Longrightarrow> r_res x r r'"
proof (induction "r_left r" arbitrary: l r x r' rule: less_induct)
  case less
  show ?case
  proof (cases "l = 0 \<or> length (r_data r) \<le> r_pos r")
    case True
    with less.prems show ?thesis by (auto simp: skip_loop.simps [of l r] r_res_def split: if_splits)
  next
    case False
    let ?r1 = "r_advance (Suc 0) r"
    have one: "r_res True r ?r1"
      using False by (simp add: r_res_def r_adv_advance r_left_def Suc_le_eq)
    have again: "r_res x r r'" if "r_res True ?r1 s" "skip_loop k s = (x, r')" for s k
    proof -
      have "r_left s < r_left r"
        using False that(1) r_left_adv1 [of r s] by (simp add: r_res_def)
      from less.hyps [OF this that(2)] show ?thesis
        using one that(1) by (blast intro: r_res_trans)
    qed
    have stop: "r_res False r s'" if "r_res True ?r1 s" "r_res False s s'" for s s'
      using r_res_trans [OF one r_res_trans [OF that]] .
    have again': "r_res x r r'"
      if "r_res True ?r1 q" "r_res True q s" "skip_loop k s = (x, r')" for q s k
      using again [OF r_res_trans [OF that(1,2)] that(3)] .
    show ?thesis
      using less.prems False
      by (subst (asm) skip_loop.simps)
        (auto simp: Let_def intro: again again [OF r_res_refl] again' stop r_res_trans [OF one]
          dest!: readTag_res skipValue_res split: if_splits prod.splits option.splits bool.splits)
  qed
qed

text \<open>The four ways in which \<open>Next\<close> can go on from a settled position.\<close>

definition nextElement_outcome :: "bool \<Rightarrow> reader \<Rightarrow> reader \<Rightarrow> bool" where
  "nextElement_outcome b r r' \<longleftrightarrow>
     r_data r' = r_data r \<and> r_pos r \<le> r_pos r' \<and> (r_ok r \<longrightarrow> r_ok r')
     \<and> (b \<longrightarrow> r_err r' = r_err r \<and> r_pos r < r_pos r' \<and> r_depth r' = r_depth r \<and> r_valid r')
     \<and> (\<not> b \<longrightarrow> \<not> r_valid r' \<and> (r_err r' \<noteq> None \<or> r_depth r' = r_depth r - 1))"

lemma nextElement_outcome:
  assumes "Reader_nextElement r0 = (b, r')"
  shows "nextElement_outcome b r0 r'"
proof -
  let ?r = "r0\<lparr>r_valid := False, r_skipPending := False\<rparr>"
  let ?r1 = "r_advance 1 ?r"
  show ?thesis
  proof (cases "r_pos r0 \<ge> length (r_data r0) \<or> r_data r0 ! r_pos r0 AND 0x1F = etEndOfCont")
    case True
    with assms show ?thesis
      by (auto simp: Reader_nextElement_def Let_def r_ok_def nextElement_outcome_def
          Reader_fail_def split: if_splits option.splits)
  next
    case False
    let ?ctl = "r_data r0 ! r_pos r0"
    obtain t r2 where t: "Reader_readTag (drop_bit 5 ?ctl) ?r1 = (t, r2)" by fastforce
    have one: "r_res True ?r ?r1"
      using False by (simp add: r_res_def r_adv_advance r_left_def Suc_le_eq)
    note r2 = readTag_res [OF t]
    show ?thesis
    proof (cases t)
      case None
      then have "r' = r2" "\<not> b"
        using assms False t by (auto simp: Reader_nextElement_def Let_def)
      moreover have "r_res False ?r r2"
        using r_res_trans [OF one] r2 None by simp
      ultimately show ?thesis
        by (auto simp: nextElement_outcome_def r_res_def r_adv_def r_ok_def)
    next
      case (Some g)
      obtain ok r3 where r3: "Reader_readValue (?ctl AND 0x1F) (r2\<lparr>r_tag := g\<rparr>) = (ok, r3)"
        by fastforce
      from readValue_res [OF r3] have v: "r_res ok r2 r3"
        by (cases ok) (auto simp: r_res_def r_adv_def r_ok_def)
      have "r_res True ?r1 r2" using r2 Some by simp
      note r_res_trans [OF this v] r_res_trans [OF one r_res_trans [OF this v]]
      moreover have "b = ok" "r' = (if ok then r3\<lparr>r_valid := True,
          r_skipPending := is_container (r_typ r3)\<rparr> else r3)"
        using assms False t r3 Some
        by (auto simp: Reader_nextElement_def Let_def split: bool.splits)
      ultimately show ?thesis
        by (auto simp: nextElement_outcome_def r_res_def r_adv_def r_ok_def split: if_splits)
    qed
  qed
qed

end
