(* ===== verification/Tlv_Decode.thy ===== *)
theory Tlv_Decode
  imports Tlv_Reader
begin

text \<open>
  The shape of every TLV decoder of the repository: \<^verbatim>\<open>for r.Next() { switch r.Tag().Num ... }\<close>
  over a reader, stopped by the first error. A decoder is a function of the reader; its
  result is \<open>None\<close> if it does not return within its fuel, an error, or a value with the
  reader after it. The predicate \<open>returns\<close> says that a decoder always returns and leaves
  the reader inside its input; it is closed under the combinators, so that the termination of
  every decoder follows from its text.
\<close>

section \<open>Decoders\<close>

text \<open>An error of a decoder: one of the reader's, or a message of \<^verbatim>\<open>fmt.Errorf\<close>.\<close>

datatype derror = TlvErr tlv_error | Msg string

type_synonym 'a dec = "reader \<Rightarrow> (derror + 'a \<times> reader) option"

definition dec_return :: "'a \<Rightarrow> 'a dec" where
  "dec_return a r = Some (Inr (a, r))"

definition dec_fail :: "derror \<Rightarrow> 'a dec" where
  "dec_fail e r = Some (Inl e)"

definition dec_bind :: "'a dec \<Rightarrow> ('a \<Rightarrow> 'b dec) \<Rightarrow> 'b dec" where
  "dec_bind m f r =
     (case m r of
        None \<Rightarrow> None
      | Some (Inl e) \<Rightarrow> Some (Inl e)
      | Some (Inr (a, r')) \<Rightarrow> f a r')"

text \<open>A getter with its error returned, and \<^verbatim>\<open>Enter\<close> with its error returned.\<close>

definition dec_get :: "(reader \<Rightarrow> tlv_error + 'a) \<Rightarrow> 'a dec" where
  "dec_get get r = (case get r of Inl e \<Rightarrow> Some (Inl (TlvErr e)) | Inr v \<Rightarrow> Some (Inr (v, r)))"

definition dec_enter :: "unit dec" where
  "dec_enter r =
     (case Reader_Enter r of
        (Some e, r') \<Rightarrow> Some (Inl (TlvErr e))
      | (None, r') \<Rightarrow> Some (Inr ((), r')))"

text \<open>\<^verbatim>\<open>return v, r.Err()\<close>\<close>

definition dec_checked :: "'a \<Rightarrow> 'a dec" where
  "dec_checked a r = (case r_err r of Some e \<Rightarrow> Some (Inl (TlvErr e)) | None \<Rightarrow> Some (Inr (a, r)))"

fun for_next_fuel :: "nat \<Rightarrow> ('s \<Rightarrow> 's dec) \<Rightarrow> 's \<Rightarrow> 's dec" where
  "for_next_fuel 0 body s r = None"
| "for_next_fuel (Suc n) body s r =
     (case Reader_Next r of
        (False, r') \<Rightarrow> Some (Inr (s, r'))
      | (True, r') \<Rightarrow>
          (case body s r' of
             None \<Rightarrow> None
           | Some (Inl e) \<Rightarrow> Some (Inl e)
           | Some (Inr (s', r'')) \<Rightarrow> for_next_fuel n body s' r''))"

text \<open>Each round consumes a byte, so one unit of fuel per unread byte and one more is enough.\<close>

definition for_next :: "('s \<Rightarrow> 's dec) \<Rightarrow> 's \<Rightarrow> 's dec" where
  "for_next body s r = for_next_fuel (Suc (r_left r)) body s r"

text \<open>\<^verbatim>\<open>if err := r.Enter(); err != nil { return err }; for r.Next() { body }\<close>\<close>

definition each_member :: "('s \<Rightarrow> 's dec) \<Rightarrow> 's \<Rightarrow> 's dec" where
  "each_member body s = dec_bind dec_enter (\<lambda>_. for_next body s)"

text \<open>
  A decoder run on a fresh reader: \<^verbatim>\<open>r := tlv.NewReader(b)\<close>, the test that the first element
  is a structure, and the body on that element. The result forgets the reader.
\<close>

definition dec_result :: "(derror + 'a \<times> reader) option \<Rightarrow> (derror + 'a) option" where
  "dec_result x = map_option (map_sum id fst) x"

definition dec_top :: "string \<Rightarrow> 'a dec \<Rightarrow> bytes \<Rightarrow> (derror + 'a) option" where
  "dec_top msg m b =
     (case Reader_Next (NewReader b) of
        (ok, r) \<Rightarrow>
          if \<not> ok \<or> Reader_Type r \<noteq> TypeStructure then Some (Inl (Msg msg)) else dec_result (m r))"

lemmas dec_defs =
  dec_return_def dec_fail_def dec_bind_def dec_get_def dec_enter_def dec_checked_def

section \<open>Next and Enter, from outside\<close>

definition next_outcome :: "bool \<Rightarrow> reader \<Rightarrow> reader \<Rightarrow> bool" where
  "next_outcome b r r' \<longleftrightarrow>
     r_data r' = r_data r \<and> r_pos r \<le> r_pos r' \<and> (r_ok r \<longrightarrow> r_ok r')
     \<and> (b \<longrightarrow> r_err r = None \<and> r_err r' = None \<and> r_pos r < r_pos r' \<and> r_depth r' = r_depth r)
     \<and> (\<not> b \<longrightarrow> r_err r' \<noteq> None \<or> r_depth r' = r_depth r - 1)"

lemma Next_outcome: "Reader_Next r = (b, r') \<Longrightarrow> next_outcome b r r'"
proof (cases "r_err r = None \<and> r_valid r \<and> r_skipPending r")
  case True
  assume n: "Reader_Next r = (b, r')"
  obtain ok s where s: "skip_loop 1 r = (ok, s)" by fastforce
  have res: "r_res ok r s" by (rule skip_loop_res [OF s])
  show ?thesis
  proof (cases ok)
    case True
    then have "nextElement_outcome b s r'"
      using n s \<open>r_err r = None \<and> _\<close>
      by (intro nextElement_outcome) (simp add: Reader_Next_def Reader_skipContainerBody_def)
    with res True \<open>r_err r = None \<and> _\<close> show ?thesis
      by (auto simp: next_outcome_def nextElement_outcome_def r_res_def r_adv_def)
  next
    case False
    then have "r' = s" "\<not> b"
      using n s \<open>r_err r = None \<and> _\<close>
      by (auto simp: Reader_Next_def Reader_skipContainerBody_def)
    with res False show ?thesis
      by (auto simp: next_outcome_def r_res_def r_adv_def)
  qed
next
  case False
  assume n: "Reader_Next r = (b, r')"
  then have "r_err r \<noteq> None \<and> \<not> b \<and> r' = r \<or> r_err r = None \<and> Reader_nextElement r = (b, r')"
    using False by (auto simp: Reader_Next_def split: if_splits)
  then show ?thesis
    using nextElement_outcome [of r b r'] by (auto simp: next_outcome_def nextElement_outcome_def)
qed

section \<open>Decoders return\<close>

text \<open>
  The relation of a decoder's result to its start: same input, no step back, and, unless
  reading failed, the depth of the start.
\<close>

definition kept :: "reader \<Rightarrow> reader \<Rightarrow> bool" where
  "kept r r' \<longleftrightarrow> r_data r' = r_data r \<and> r_pos r \<le> r_pos r' \<and> (r_ok r \<longrightarrow> r_ok r')
     \<and> (r_err r' = None \<longrightarrow> r_err r = None \<and> r_depth r' = r_depth r)"

definition returns_on :: "(reader \<Rightarrow> bool) \<Rightarrow> 'a dec \<Rightarrow> bool" where
  "returns_on P m \<longleftrightarrow> (\<forall>r. r_ok r \<longrightarrow> P r \<longrightarrow>
     (case m r of None \<Rightarrow> False | Some (Inl e) \<Rightarrow> True | Some (Inr (a, r')) \<Rightarrow> kept r r'))"

abbreviation returns :: "'a dec \<Rightarrow> bool" where
  "returns \<equiv> returns_on (\<lambda>_. True)"

named_theorems returns_intros \<open>closure of returns under the combinators\<close>

lemma kept_refl [simp]: "kept r r"
  by (simp add: kept_def)

lemma kept_trans: "kept a b \<Longrightarrow> kept b c \<Longrightarrow> kept a c"
  by (auto simp: kept_def)

lemma kept_ok: "kept r r' \<Longrightarrow> r_ok r \<Longrightarrow> r_ok r'"
  by (simp add: kept_def)

lemma returns_onE:
  assumes "returns_on P m" "r_ok r" "P r"
  obtains (err) e where "m r = Some (Inl e)" | (ok) a r' where "m r = Some (Inr (a, r'))" "kept r r'"
proof -
  from assms have "case m r of None \<Rightarrow> False | Some (Inl e) \<Rightarrow> True
      | Some (Inr (a, r')) \<Rightarrow> kept r r'"
    by (simp add: returns_on_def)
  then show ?thesis by (cases "m r") (auto intro: that split: sum.splits)
qed

lemma returns_onI:
  assumes "\<And>r. r_ok r \<Longrightarrow> P r \<Longrightarrow>
    (\<exists>e. m r = Some (Inl e)) \<or> (\<exists>a r'. m r = Some (Inr (a, r')) \<and> kept r r')"
  shows "returns_on P m"
  unfolding returns_on_def using assms by fastforce

lemma returns_return [returns_intros]: "returns_on P (dec_return a)"
  by (simp add: returns_on_def dec_return_def)

lemma returns_fail [returns_intros]: "returns_on P (dec_fail e)"
  by (simp add: returns_on_def dec_fail_def)

lemma returns_get [returns_intros]: "returns_on P (dec_get g)"
  by (simp add: returns_on_def dec_get_def split: sum.splits)

lemma returns_checked [returns_intros]: "returns_on P (dec_checked a)"
  by (simp add: returns_on_def dec_checked_def split: option.splits)

lemma returns_bind [returns_intros]:
  assumes "returns_on P m" "\<And>a. returns (f a)"
  shows "returns_on P (dec_bind m f)"
proof (rule returns_onI)
  fix r assume r: "r_ok r" "P r"
  show "(\<exists>e. dec_bind m f r = Some (Inl e)) \<or> (\<exists>a r'. dec_bind m f r = Some (Inr (a, r')) \<and> kept r r')"
  proof (cases rule: returns_onE [OF assms(1) r])
    case (2 a r')
    show ?thesis
      by (cases rule: returns_onE [OF assms(2) [of a] kept_ok [OF 2(2) r(1)]])
        (use 2 in \<open>auto simp: dec_bind_def intro: kept_trans\<close>)
  qed (simp add: dec_bind_def)
qed

lemma returns_if [returns_intros]:
  "returns_on P m \<Longrightarrow> returns_on P n \<Longrightarrow> returns_on P (\<lambda>r. if Q r then m r else n r)"
  by (simp add: returns_on_def)

lemma for_next_fuel_kept:
  assumes body: "\<And>s. returns_on (\<lambda>r. r_err r = None \<and> r_depth r = d) (body s)"
    and "r_ok r" "r_left r < n" "r_err r = None \<Longrightarrow> r_depth r = d"
  shows "(\<exists>e. for_next_fuel n body s r = Some (Inl e)) \<or>
    (\<exists>s' r'. for_next_fuel n body s r = Some (Inr (s', r')) \<and> r_data r' = r_data r
        \<and> r_pos r \<le> r_pos r' \<and> r_ok r'
        \<and> (r_err r' = None \<longrightarrow> r_depth r' = d - 1 \<and> r_err r = None))"
  using assms(2-)
proof (induction n arbitrary: s r)
  case (Suc n)
  obtain b r' where n: "Reader_Next r = (b, r')" by fastforce
  note out = Next_outcome [OF n]
  have err: "r_err r = None" if "r_err r' = None"
    using n that by (cases "r_err r") (auto simp: Reader_Next_def)
  show ?case
  proof (cases b)
    case True
    with out Suc.prems have r': "r_ok r'" "r_left r' < n" "r_err r' = None \<and> r_depth r' = d"
      by (auto simp: next_outcome_def r_left_def r_ok_def)
    show ?thesis
    proof (cases rule: returns_onE [OF body [of s] r'(1,3)])
      case (2 s' r'')
      then have "r_ok r''" "r_left r'' < n" "r_err r'' = None \<Longrightarrow> r_depth r'' = d"
        using r' by (auto simp: kept_def r_left_def)
      from Suc.IH [OF this, of s'] 2 n True out show ?thesis
        by (auto simp: next_outcome_def kept_def)
    qed (use n True in simp)
  next
    case False
    with n out err Suc.prems show ?thesis by (auto simp: next_outcome_def)
  qed
qed simp

lemma returns_each_member_at:
  assumes "\<And>s. returns_on (\<lambda>r. r_err r = None \<and> r_depth r = Suc d) (body s)"
  shows "returns_on (\<lambda>r. r_depth r = d) (each_member body s)"
proof (rule returns_onI)
  fix r assume r: "r_ok r" "r_depth r = d"
  obtain e r1 where e: "Reader_Enter r = (e, r1)" by fastforce
  show "(\<exists>e. each_member body s r = Some (Inl e)) \<or>
      (\<exists>a r'. each_member body s r = Some (Inr (a, r')) \<and> kept r r')"
  proof (cases e)
    case None
    with e have r1: "r1 = r\<lparr>r_depth := Suc (r_depth r), r_valid := False, r_skipPending := False\<rparr>"
      and "r_err r = None"
      by (auto simp: Reader_Enter_def Let_def split: if_splits)
    with r have "r_ok r1" "r_depth r1 = Suc d" by (simp_all add: r_ok_def)
    from for_next_fuel_kept [where body = body, OF assms this(1), of "Suc (r_left r1)" s] this(2) r1 r
    show ?thesis
      by (auto simp: each_member_def dec_bind_def dec_enter_def e None for_next_def kept_def
          \<open>r_err r = None\<close>)
  qed (simp add: each_member_def dec_bind_def dec_enter_def e)
qed

lemma returns_each_member [returns_intros]:
  assumes "\<And>s. returns_on (\<lambda>r. r_err r = None) (body s)"
  shows "returns_on P (each_member body s)"
proof -
  have "returns_on (\<lambda>r. r_depth r = d) (each_member body s)" for d
    by (rule returns_each_member_at) (use assms in \<open>simp add: returns_on_def\<close>)
  then show ?thesis by (simp add: returns_on_def)
qed

lemma NewReader_ok [simp]: "r_ok (NewReader b)"
  by (simp add: r_ok_def NewReader_def)

lemma NewReader_depth [simp]: "r_depth (NewReader b) = 0"
  by (simp add: NewReader_def)

lemma dec_top_returns:
  assumes "returns m"
  shows "\<exists>y. dec_top msg m b = Some y"
proof -
  obtain ok r where n: "Reader_Next (NewReader b) = (ok, r)" by fastforce
  have "r_ok r" using Next_outcome [OF n] by (simp add: next_outcome_def)
  with assms show ?thesis
    by (cases rule: returns_onE) (auto simp: dec_top_def n dec_result_def)
qed

end
