(* ===== verification/Tlv_Codec.thy ===== *)
theory Tlv_Codec
  imports Tlv_Decode
begin

text \<open>
  The abstract specification of \<^verbatim>\<open>go-matter/tlv\<close>: TLV elements as trees, their encoding
  as one function, and the two refinement statements of the package. The writer appends the
  encoding of the element each call stands for; the reader, standing before the encoding of an
  element, reports that element, enters it, or skips it, and then stands behind it.
\<close>

section \<open>Elements and their encoding\<close>

datatype prim =
    PInt u64 | PUint u64 | PBool bool | PFloat32 u32 | PFloat64 u64
  | PString bytes | PBytes bytes | PNull

datatype ckind = CStructure | CArray | CList

datatype elem = Prim tag prim | Cont tag ckind "elem list"

definition uint_width :: "u64 \<Rightarrow> nat" where
  "uint_width v = (if v \<le> 0xFF then 0 else if v \<le> 0xFFFF then 1 else if v \<le> 0xFFFFFFFF then 2 else 3)"

definition int_width :: "u64 \<Rightarrow> nat" where
  "int_width v =
     (if -128 \<le> sint v \<and> sint v \<le> 127 then 0
      else if -32768 \<le> sint v \<and> sint v \<le> 32767 then 1
      else if -2147483648 \<le> sint v \<and> sint v \<le> 2147483647 then 2
      else 3)"

definition enc_ctl :: "tag \<Rightarrow> byte \<Rightarrow> bytes" where
  "enc_ctl t et = w_buf (Writer_control NewWriter t et)"

fun prim_et :: "prim \<Rightarrow> byte" where
  "prim_et (PInt v) = of_nat (int_width v)"
| "prim_et (PUint v) = 4 + of_nat (uint_width v)"
| "prim_et (PBool b) = (if b then 9 else 8)"
| "prim_et (PFloat32 _) = 10"
| "prim_et (PFloat64 _) = 11"
| "prim_et (PString b) = 12 + of_nat (uint_width (of_nat (length b)))"
| "prim_et (PBytes b) = 16 + of_nat (uint_width (of_nat (length b)))"
| "prim_et PNull = 20"

definition enc_blob :: "bytes \<Rightarrow> bytes" where
  "enc_blob b = (let n = of_nat (length b) :: u64 in le_bytes (2 ^ uint_width n) n @ b)"

fun prim_payload :: "prim \<Rightarrow> bytes" where
  "prim_payload (PInt v) = le_bytes (2 ^ int_width v) v"
| "prim_payload (PUint v) = le_bytes (2 ^ uint_width v) v"
| "prim_payload (PBool _) = []"
| "prim_payload (PFloat32 v) = le_bytes 4 v"
| "prim_payload (PFloat64 v) = le_bytes 8 v"
| "prim_payload (PString b) = enc_blob b"
| "prim_payload (PBytes b) = enc_blob b"
| "prim_payload PNull = []"

fun ckind_et :: "ckind \<Rightarrow> byte" where
  "ckind_et CStructure = 0x15"
| "ckind_et CArray = 0x16"
| "ckind_et CList = 0x17"

fun ckind_typ :: "ckind \<Rightarrow> tlv_type" where
  "ckind_typ CStructure = TypeStructure"
| "ckind_typ CArray = TypeArray"
| "ckind_typ CList = TypeList"

fun enc :: "elem \<Rightarrow> bytes" where
  "enc (Prim t p) = enc_ctl t (prim_et p) @ prim_payload p"
| "enc (Cont t k es) = enc_ctl t (ckind_et k) @ concat (map enc es) @ [etEndOfCont]"

abbreviation encs :: "elem list \<Rightarrow> bytes" where
  "encs es \<equiv> concat (map enc es)"

text \<open>
  Tags the writer accepts, and tags in the form the reader returns them: the fields that a
  kind does not use are zero.
\<close>

definition tag_ok :: "tag \<Rightarrow> bool" where
  "tag_ok t \<longleftrightarrow>
     (case Kind t of KindUnknown _ \<Rightarrow> False | KindContext \<Rightarrow> Num t \<le> 0xFF | _ \<Rightarrow> True)"

definition tag_canon :: "tag \<Rightarrow> bool" where
  "tag_canon t \<longleftrightarrow>
     (case Kind t of
        KindAnonymous \<Rightarrow> t = Anonymous
      | KindContext \<Rightarrow> Num t \<le> 0xFF \<and> Vendor t = 0 \<and> Profile t = 0
      | KindCommonProfile \<Rightarrow> Vendor t = 0 \<and> Profile t = 0
      | KindImplicitProfile \<Rightarrow> Vendor t = 0 \<and> Profile t = 0
      | KindFullyQualified \<Rightarrow> True
      | KindUnknown _ \<Rightarrow> False)"

fun prim_ok :: "prim \<Rightarrow> bool" where
  "prim_ok (PString b) \<longleftrightarrow> length b < 2 ^ 64"
| "prim_ok (PBytes b) \<longleftrightarrow> length b < 2 ^ 64"
| "prim_ok _ \<longleftrightarrow> True"

text \<open>Well-formed elements with containers nested at most \<open>n\<close> deep.\<close>

fun wf_elem :: "nat \<Rightarrow> elem \<Rightarrow> bool" where
  "wf_elem n (Prim t p) \<longleftrightarrow> tag_canon t \<and> prim_ok p"
| "wf_elem 0 (Cont t k es) \<longleftrightarrow> False"
| "wf_elem (Suc n) (Cont t k es) \<longleftrightarrow> tag_canon t \<and> list_all (wf_elem n) es"

lemma tag_canon_ok: "tag_canon t \<Longrightarrow> tag_ok t"
  by (auto simp: tag_canon_def tag_ok_def split: tag_kind.splits)

lemma ucast_byte_le [simp]: "(ucast (n :: u8) :: u32) \<le> 0xFF"
  using unsigned_less [of n, where 'a = int] by (simp add: word_le_def uint_up_ucast is_up)

lemma tag_canon_simps [simp]:
  "tag_canon Anonymous" "tag_canon (Context n)" "tag_canon (CommonProfile m)"
  "tag_canon (Implicit m)" "tag_canon (FullyQualified v p m)"
  by (simp_all add: tag_canon_def tag_ctor_defs)

lemma tag_ok_simps [simp]: "tag_ok Anonymous" "tag_ok (Context n)"
  by (simp_all add: tag_canon_ok)

lemma wf_elem_mono: "wf_elem n e \<Longrightarrow> n \<le> m \<Longrightarrow> wf_elem m e"
proof (induction n e arbitrary: m rule: wf_elem.induct)
  case (3 n t k es)
  then obtain m' where "m = Suc m'" by (cases m) auto
  with 3 show ?case by (auto simp: list_all_iff)
qed auto

section \<open>The writer appends encodings\<close>

text \<open>A writer without error, after \<open>b\<close> and inside \<open>d\<close> containers.\<close>

definition WS :: "bytes \<Rightarrow> nat \<Rightarrow> writer" where
  "WS b d = \<lparr>w_buf = b, w_depth = d, w_err = None\<rparr>"

lemma WS_fields [simp]: "w_buf (WS b d) = b" "w_depth (WS b d) = d" "w_err (WS b d) = None"
  by (simp_all add: WS_def)

lemma NewWriter_WS: "NewWriter = WS [] 0"
  by (simp add: NewWriter_def WS_def)

lemma Writer_control_WS: "tag_ok t \<Longrightarrow> Writer_control (WS b d) t et = WS (b @ enc_ctl t et) d"
  by (auto simp: Writer_control_def tag_ok_def enc_ctl_def NewWriter_def WS_def w_append_def
      not_less split: tag_kind.splits)

lemma w_append_WS [simp]: "w_append (WS b d) x = WS (b @ x) d"
  by (simp add: w_append_def WS_def)

lemma WS_depth [simp]: "(WS b d)\<lparr>w_depth := n\<rparr> = WS b n"
  by (simp add: WS_def)

lemma le_bytes_4_ucast: "le_bytes 4 (ucast (v :: u32) :: u64) = le_bytes 4 v"
proof -
  have "ucast (drop_bit k (ucast v :: u64)) = (ucast (drop_bit k v) :: byte)" for k
    by (rule bit_eqI) (auto simp: bit_ucast_iff bit_drop_bit_eq dest: bit_imp_le_length)
  from this [of 0] this [of 8] this [of 16] this [of 24] show ?thesis
    by (simp add: numeral_eq_Suc drop_bit_drop_bit add.commute)
qed

lemma writer_WS:
  assumes "tag_ok t"
  shows "Writer_PutUint (WS b d) t v = WS (b @ enc (Prim t (PUint v))) d"
    and "Writer_PutInt (WS b d) t v = WS (b @ enc (Prim t (PInt v))) d"
    and "Writer_PutBool (WS b d) t y = WS (b @ enc (Prim t (PBool y))) d"
    and "Writer_PutFloat32 (WS b d) t f = WS (b @ enc (Prim t (PFloat32 f))) d"
    and "Writer_PutFloat64 (WS b d) t v = WS (b @ enc (Prim t (PFloat64 v))) d"
    and "Writer_PutString (WS b d) t x = WS (b @ enc (Prim t (PString x))) d"
    and "Writer_PutBytes (WS b d) t x = WS (b @ enc (Prim t (PBytes x))) d"
    and "Writer_PutNull (WS b d) t = WS (b @ enc (Prim t PNull)) d"
    and "Writer_StartStructure (WS b d) t = WS (b @ enc_ctl t (ckind_et CStructure)) (Suc d)"
    and "Writer_StartArray (WS b d) t = WS (b @ enc_ctl t (ckind_et CArray)) (Suc d)"
    and "Writer_StartList (WS b d) t = WS (b @ enc_ctl t (ckind_et CList)) (Suc d)"
  using assms
  by (simp_all add: writer_put_defs Writer_control_WS uint_width_def
      int_width_def enc_blob_def Let_def le_bytes_4_ucast)

lemma writer_close_WS [simp]:
  "Writer_EndContainer (WS b (Suc d)) = WS (b @ [etEndOfCont]) d"
  "Writer_Raw (WS b d) x = WS (b @ x) d"
  "Writer_Bytes (WS b 0) = Inr b"
  by (simp_all add: Writer_EndContainer_def Writer_Raw_def Writer_Bytes_def)

text \<open>The calls that write one element, and that a chain of them writes its encoding.\<close>

fun write_prim :: "tag \<Rightarrow> prim \<Rightarrow> writer_op" where
  "write_prim t (PInt v) = OpInt t v"
| "write_prim t (PUint v) = OpUint t v"
| "write_prim t (PBool v) = OpBool t v"
| "write_prim t (PFloat32 v) = OpFloat32 t v"
| "write_prim t (PFloat64 v) = OpFloat64 t v"
| "write_prim t (PString v) = OpString t v"
| "write_prim t (PBytes v) = OpBytes t v"
| "write_prim t PNull = OpNull t"

fun write_ops :: "elem \<Rightarrow> writer_op list" where
  "write_ops (Prim t p) = [write_prim t p]"
| "write_ops (Cont t k es) =
     (case k of CStructure \<Rightarrow> OpStructure t | CArray \<Rightarrow> OpArray t | CList \<Rightarrow> OpList t)
       # concat (map write_ops es) @ [OpEnd]"

fun tags_ok :: "elem \<Rightarrow> bool" where
  "tags_ok (Prim t p) \<longleftrightarrow> tag_ok t"
| "tags_ok (Cont t k es) \<longleftrightarrow> tag_ok t \<and> list_all tags_ok es"

lemma write_ops_WS:
  "tags_ok e \<Longrightarrow> foldl writer_step (WS b d) (write_ops e) = WS (b @ enc e) d"
proof (induction e arbitrary: b d)
  case (Prim t p)
  then show ?case by (cases p) (simp_all add: writer_WS)
next
  case (Cont t k es)
  have body: "foldl writer_step (WS c (Suc d)) (concat (map write_ops es)) = WS (c @ encs es) (Suc d)" for c
    using Cont by (induction es arbitrary: c) auto
  from Cont.prems show ?case by (cases k) (simp_all add: writer_WS body)
qed

end
