(* ===== verification/Tlv_Laws.thy ===== *)
theory Tlv_Laws
  imports Tlv_Codec
begin

text \<open>
  The reader on encoded input: reading a tag or a value inverts its encoding, an unread
  container is skipped to its end, and the laws of \<^verbatim>\<open>Next\<close> and \<^verbatim>\<open>Enter\<close> in terms of
  \<open>at r bs d\<close> (the reader stands, after any pending skip, before the input \<open>bs\<close> at depth
  \<open>d\<close>) and \<open>cur r e bs d\<close> (its current element is \<open>e\<close>).
\<close>

section \<open>Control byte and tag\<close>

lemma or_ctl:
  assumes "et < 32" "c AND 31 = (0 :: byte)"
  shows "(c OR et) AND 31 = et" and "drop_bit 5 (c OR et) = drop_bit 5 c"
proof -
  have et: "take_bit 5 et = et"
    using assms(1) word_le_mask_take_bit [of et 5] by simp
  have c: "take_bit 5 c = 0"
    using assms(2) by (simp add: take_bit_eq_mask mask_eq_exp_minus_1)
  have "take_bit 5 (c OR et) = et" using et c by simp
  then show "(c OR et) AND 31 = et" by (simp add: take_bit_eq_mask mask_eq_exp_minus_1)
  have "drop_bit 5 et = 0" using et by (simp add: take_bit_eq_self_iff_drop_bit_eq_0)
  then show "drop_bit 5 (c OR et) = drop_bit 5 c" by simp
qed

lemma tag_field_rest:
  "r_rest r = x @ tail \<Longrightarrow> length x = n \<Longrightarrow> tag_field n mk r = (Some (mk x), r_advance n r)"
proof -
  assume "r_rest r = x @ tail" "length x = n"
  then have "n \<le> r_left r" and "take n (r_rest r) = x"
    by (auto simp: r_rest_def r_left_def dest: drop_eq_appendD)
  then show ?thesis by (simp add: tag_field_def)
qed

lemma readLE_rest:
  "r_rest r = x @ tail \<Longrightarrow> length x = n \<Longrightarrow> Reader_readLE n r = (Some (le_word x), r_advance n r)"
proof -
  assume "r_rest r = x @ tail" "length x = n"
  then have "n \<le> r_left r" and "take n (r_rest r) = x"
    by (auto simp: r_rest_def r_left_def dest: drop_eq_appendD)
  then show ?thesis by (simp add: Reader_readLE_def)
qed

lemma r_rest_advance: "r_rest r = x @ tail \<Longrightarrow> length x = n \<Longrightarrow> r_rest (r_advance n r) = tail"
  by (auto simp: r_rest_def add.commute dest: drop_eq_appendD)

lemma ucast_u16_u32:
  "n \<le> 0xFFFF \<Longrightarrow> (ucast (ucast (n :: u32) :: u16) :: u32) = n"
proof -
  assume "n \<le> 0xFFFF"
  then have "n < 2 ^ 16" by (simp add: word_le_def word_less_def)
  then have "k < 16" if "bit n k" for k using bit_word_less that by blast
  then show ?thesis
    by (intro bit_eqI) (auto simp: bit_ucast_iff dest: bit_imp_le_length)
qed

lemma ucast_u8_u32: "n \<le> 0xFF \<Longrightarrow> (ucast (ucast (n :: u32) :: u8) :: u32) = n"
proof -
  assume "n \<le> 0xFF"
  then have "n < 2 ^ 8" by (simp add: word_le_def word_less_def)
  then have "k < 8" if "bit n k" for k using bit_word_less that by blast
  then show ?thesis
    by (intro bit_eqI) (auto simp: bit_ucast_iff dest: bit_imp_le_length)
qed

text \<open>Reading the tag bytes after the control byte gives the tag back.\<close>

lemma readTag_enc:
  assumes "tag_canon t" "et < 32"
  obtains c tb where "enc_ctl t et = c # tb" "c AND 31 = et"
    "\<And>r tail. r_rest r = tb @ tail \<Longrightarrow> Reader_readTag (drop_bit 5 c) r = (Some t, r_advance (length tb) r)"
proof (cases "Kind t")
  case KindAnonymous
  with assms have t: "t = Anonymous" by (simp add: tag_canon_def)
  show ?thesis
  proof (rule that [of "0 OR et" "[]"])
    show "enc_ctl t et = (0 OR et) # []"
      by (simp add: enc_ctl_def Writer_control_def NewWriter_def w_append_def t Anonymous_def)
  qed (use or_ctl [OF assms(2), of 0] in \<open>auto simp: Reader_readTag_def t r_advance_def\<close>)
next
  case KindContext
  with assms have t: "Num t \<le> 0xFF" "t = Context (ucast (Num t))"
    by (auto simp: tag_canon_def Context_def ucast_u8_u32)
  show ?thesis
  proof (rule that [of "0x20 OR et" "[ucast (Num t)]"])
    show "enc_ctl t et = (0x20 OR et) # [ucast (Num t)]"
      using KindContext t(1)
      by (auto simp: enc_ctl_def Writer_control_def NewWriter_def w_append_def not_less)
  qed (use or_ctl [OF assms(2), of "0x20"] t(2) in
      \<open>auto simp: Reader_readTag_def tag_field_rest [of _ "[ucast (Num t)]"]\<close>)
next
  case KindCommonProfile
  with assms have t: "t = CommonProfile (Num t)" by (simp add: tag_canon_def CommonProfile_def)
  show ?thesis
  proof (cases "Num t \<le> 0xFFFF")
    case True
    show ?thesis
    proof (rule that [of "0x40 OR et" "le_bytes 2 (ucast (Num t) :: u16)"])
      show "enc_ctl t et = (0x40 OR et) # le_bytes 2 (ucast (Num t) :: u16)"
        using KindCommonProfile True
        by (simp add: enc_ctl_def Writer_control_def NewWriter_def w_append_def)
    qed (use or_ctl [OF assms(2), of "0x40"] t ucast_u16_u32 [OF True] in
        \<open>auto simp: Reader_readTag_def tag_field_rest\<close>)
  next
    case False
    show ?thesis
    proof (rule that [of "0x60 OR et" "le_bytes 4 (Num t)"])
      show "enc_ctl t et = (0x60 OR et) # le_bytes 4 (Num t)"
        using KindCommonProfile False
        by (simp add: enc_ctl_def Writer_control_def NewWriter_def w_append_def)
    qed (use or_ctl [OF assms(2), of "0x60"] t in \<open>auto simp: Reader_readTag_def tag_field_rest\<close>)
  qed
next
  case KindImplicitProfile
  with assms have t: "t = Implicit (Num t)" by (simp add: tag_canon_def Implicit_def)
  show ?thesis
  proof (cases "Num t \<le> 0xFFFF")
    case True
    show ?thesis
    proof (rule that [of "0x80 OR et" "le_bytes 2 (ucast (Num t) :: u16)"])
      show "enc_ctl t et = (0x80 OR et) # le_bytes 2 (ucast (Num t) :: u16)"
        using KindImplicitProfile True
        by (simp add: enc_ctl_def Writer_control_def NewWriter_def w_append_def)
    qed (use or_ctl [OF assms(2), of "0x80"] t ucast_u16_u32 [OF True] in
        \<open>auto simp: Reader_readTag_def tag_field_rest\<close>)
  next
    case False
    show ?thesis
    proof (rule that [of "0xA0 OR et" "le_bytes 4 (Num t)"])
      show "enc_ctl t et = (0xA0 OR et) # le_bytes 4 (Num t)"
        using KindImplicitProfile False
        by (simp add: enc_ctl_def Writer_control_def NewWriter_def w_append_def)
    qed (use or_ctl [OF assms(2), of "0xA0"] t in \<open>auto simp: Reader_readTag_def tag_field_rest\<close>)
  qed
next
  case KindFullyQualified
  then have t: "t = FullyQualified (Vendor t) (Profile t) (Num t)"
    by (simp add: FullyQualified_def)
  show ?thesis
  proof (cases "Num t \<le> 0xFFFF")
    case True
    let ?tb = "le_bytes 2 (Vendor t) @ le_bytes 2 (Profile t) @ le_bytes 2 (ucast (Num t) :: u16)"
    show ?thesis
    proof (rule that [of "0xC0 OR et" ?tb])
      show "enc_ctl t et = (0xC0 OR et) # ?tb"
        using KindFullyQualified True
        by (simp add: enc_ctl_def Writer_control_def NewWriter_def w_append_def)
    qed (use or_ctl [OF assms(2), of "0xC0"] t ucast_u16_u32 [OF True] in
        \<open>auto simp: Reader_readTag_def tag_field_rest [where x = ?tb, simplified]\<close>)
  next
    case False
    let ?tb = "le_bytes 2 (Vendor t) @ le_bytes 2 (Profile t) @ le_bytes 4 (Num t)"
    show ?thesis
    proof (rule that [of "0xE0 OR et" ?tb])
      show "enc_ctl t et = (0xE0 OR et) # ?tb"
        using KindFullyQualified False
        by (simp add: enc_ctl_def Writer_control_def NewWriter_def w_append_def)
    qed (use or_ctl [OF assms(2), of "0xE0"] t in
        \<open>auto simp: Reader_readTag_def tag_field_rest [where x = ?tb, simplified]\<close>)
  qed
next
  case (KindUnknown x)
  with assms show ?thesis by (simp add: tag_canon_def)
qed

section \<open>Values\<close>

lemma uint_width_cases:
  obtains "uint_width v = 0" | "uint_width v = 1" | "uint_width v = 2" | "uint_width v = 3"
proof -
  have "uint_width v \<in> {0, 1, 2, 3}" by (simp add: uint_width_def)
  then show ?thesis using that by blast
qed

lemma int_width_cases:
  obtains "int_width v = 0" | "int_width v = 1" | "int_width v = 2" | "int_width v = 3"
proof -
  have "int_width v \<in> {0, 1, 2, 3}" by (simp add: int_width_def)
  then show ?thesis using that by blast
qed

lemma uint_width_take: "take_bit (8 * 2 ^ uint_width v) v = v"
proof -
  have "take_bit 64 v = v" by (rule take_bit_word_eq_self) simp
  moreover have "take_bit 8 v = v" if "v \<le> 0xFF"
    using that by (intro word_le_mask_take_bit) (simp add: word_le_def word_less_def)
  moreover have "take_bit 16 v = v" if "v \<le> 0xFFFF"
    using that by (intro word_le_mask_take_bit) (simp add: word_le_def word_less_def)
  moreover have "take_bit 32 v = v" if "v \<le> 0xFFFFFFFF"
    using that by (intro word_le_mask_take_bit) (simp add: word_le_def word_less_def)
  ultimately show ?thesis by (simp add: uint_width_def)
qed

text \<open>A value in the signed range of \<open>n\<close> bits is its own sign extension from \<open>n\<close> bits.\<close>

lemma sign_extend_take:
  assumes "0 < w" "w \<le> 8" and "- (2 ^ (8 * w - 1)) \<le> sint v" "sint v < 2 ^ (8 * w - 1)"
  shows "sign_extend w (take_bit (8 * w) v) = v"
proof (rule bit_eqI)
  fix k assume "possible_bit TYPE(64 word) k"
  then have k: "k < 64" by simp
  let ?n = "8 * w"
  have n: "0 < ?n" "?n \<le> 64" using assms by auto
  have "signed_take_bit (?n - 1) (sint v) = sint v"
    using assms by (simp add: signed_take_bit_int_eq_self_iff)
  then have top: "bit v k = bit v (min k (?n - 1))"
    using k n bit_signed_take_bit_iff [of "?n - 1" "sint v" k]
    by (auto simp: bit_sint_iff min_def split: if_splits)
  have "bit (sign_extend w (take_bit ?n v)) k = bit v (min k (?n - 1))"
  proof (cases "k < ?n")
    case True
    then show ?thesis
      using k n by (simp add: sign_extend_def Let_def bit_signed_drop_bit_iff bit_push_bit_iff
          bit_take_bit_iff min_def) arith
  next
    case False
    then have "min k (?n - 1) = ?n - 1" "64 - ?n \<le> 63" using n by auto
    with False show ?thesis
      using k n by (simp add: sign_extend_def Let_def bit_signed_drop_bit_iff bit_push_bit_iff
          bit_take_bit_iff)
  qed
  with top show "bit (sign_extend w (take_bit ?n v)) k = bit v k" by simp
qed

lemma int_width_extend: "sign_extend (2 ^ int_width v) (take_bit (8 * 2 ^ int_width v) v) = v"
proof -
  have "sint v < 2 ^ 63" "- (2 ^ 63) \<le> sint v"
    using sint_lt [of v] sint_ge [of v] by simp_all
  then show ?thesis
    by (intro sign_extend_take) (auto simp: int_width_def)
qed

fun cur_val :: "prim \<Rightarrow> reader \<Rightarrow> bool" where
  "cur_val (PInt v) r \<longleftrightarrow> r_typ r = TypeInt \<and> r_i r = v"
| "cur_val (PUint v) r \<longleftrightarrow> r_typ r = TypeUint \<and> r_u r = v"
| "cur_val (PBool b) r \<longleftrightarrow> r_typ r = TypeBool \<and> r_u r = (if b then 1 else 0)"
| "cur_val (PFloat32 v) r \<longleftrightarrow> r_typ r = TypeFloat \<and> r_f r = float32_to_64 v"
| "cur_val (PFloat64 v) r \<longleftrightarrow> r_typ r = TypeFloat \<and> r_f r = v"
| "cur_val (PString b) r \<longleftrightarrow> r_typ r = TypeString \<and> r_b r = b"
| "cur_val (PBytes b) r \<longleftrightarrow> r_typ r = TypeBytes \<and> r_b r = b"
| "cur_val PNull r \<longleftrightarrow> r_typ r = TypeNull"

lemma cur_val_prim_typ: "cur_val p r \<Longrightarrow> \<not> is_container (r_typ r)"
  by (cases p) (auto simp: is_container_def)

text \<open>The blob law: length field and payload are consumed and the payload is returned.\<close>

lemma blob_rest:
  assumes "r_rest r = enc_blob b @ tail" "length b < 2 ^ 64"
    and "et = base + of_nat (uint_width (of_nat (length b)))" "base = etUTF8Len1 \<or> base = etBytesLen1"
  shows "\<exists>r'. Reader_blob et r = (Some b, r') \<and> r_rest r' = tail"
proof -
  let ?n = "of_nat (length b) :: u64"
  let ?k = "uint_width ?n"
  let ?r = "r_advance (2 ^ ?k) r"
  have et: "(et - etUTF8Len1) AND 0x03 = of_nat ?k"
    using assms(3,4) by (cases rule: uint_width_cases [of ?n]) auto
  have w: "2 ^ unat ((et - etUTF8Len1) AND 0x03) = (2 ^ ?k :: nat)"
    unfolding et by (cases rule: uint_width_cases [of ?n]) auto
  have n: "unat ?n = length b" using assms(2) by (simp add: unat_of_nat)
  have le: "Reader_readLE (2 ^ ?k) r = (Some ?n, ?r)"
    using readLE_rest [of r "le_bytes (2 ^ ?k) ?n" "b @ tail"] assms(1)
    by (simp add: enc_blob_def Let_def le_word_le_bytes uint_width_take)
  have rest: "r_rest ?r = b @ tail"
    using assms(1)
    by (intro r_rest_advance [where x = "le_bytes (2 ^ ?k) ?n"]) (simp_all add: enc_blob_def Let_def)
  then have len: "length b \<le> r_left ?r" by (auto simp: r_rest_def r_left_def dest: drop_eq_appendD)
  with le show ?thesis
    unfolding Reader_blob_def w using rest
    by (auto simp: n intro: r_rest_advance)
qed

lemma prim_et_small: "prim_et p < 32" "prim_et p \<noteq> etEndOfCont"
proof -
  have "prim_et p < 32 \<and> prim_et p \<noteq> etEndOfCont"
  proof (cases p)
    case (PInt v) then show ?thesis by (cases rule: int_width_cases [of v]) auto
  next
    case (PUint v) then show ?thesis by (cases rule: uint_width_cases [of v]) auto
  next
    case (PString b) then show ?thesis
      by (cases rule: uint_width_cases [of "of_nat (length b)"]) auto
  next
    case (PBytes b) then show ?thesis
      by (cases rule: uint_width_cases [of "of_nat (length b)"]) auto
  qed auto
  then show "prim_et p < 32" "prim_et p \<noteq> etEndOfCont" by blast+
qed

lemma ckind_et_small: "ckind_et k < 32" "ckind_et k \<noteq> etEndOfCont"
  by (cases k; simp)+

lemma r_rest_upd [simp]:
  "r_rest (r\<lparr>r_u := u\<rparr>) = r_rest r" "r_rest (r\<lparr>r_i := u\<rparr>) = r_rest r"
  "r_rest (r\<lparr>r_f := u\<rparr>) = r_rest r" "r_rest (r\<lparr>r_b := b\<rparr>) = r_rest r"
  "r_rest (r\<lparr>r_typ := t\<rparr>) = r_rest r" "r_rest (r\<lparr>r_tag := g\<rparr>) = r_rest r"
  "r_rest (r\<lparr>r_valid := v\<rparr>) = r_rest r" "r_rest (r\<lparr>r_skipPending := v\<rparr>) = r_rest r"
  "r_rest (r\<lparr>r_depth := d\<rparr>) = r_rest r"
  by (simp_all add: r_rest_def)

lemma readLE_word:
  assumes "r_rest r = le_bytes n (v :: 'a::len word) @ tail" "8 * n \<le> 64"
  shows "Reader_readLE n r = (Some (le_word (le_bytes n v)), r_advance n r)"
    and "r_rest (r_advance n r) = tail"
  using assms readLE_rest [of r "le_bytes n v" tail n]
  by (auto intro: r_rest_advance [of r "le_bytes n v" tail n])

lemma readValue_enc:
  assumes "r_rest r = prim_payload p @ tail" "prim_ok p"
  shows "\<exists>r'. Reader_readValue (prim_et p) r = (True, r') \<and> cur_val p r' \<and> r_rest r' = tail"
proof (cases p)
  case (PInt v)
  then have r: "r_rest r = le_bytes (2 ^ int_width v) v @ tail" using assms by simp
  have "8 * 2 ^ int_width v \<le> (64 :: nat)" by (cases rule: int_width_cases [of v]) auto
  note le = readLE_word [OF r this, unfolded le_word_le_bytes] and ext = int_width_extend [of v]
  show ?thesis
    using le ext unfolding PInt
    by (cases rule: int_width_cases [of v]) (auto simp: Reader_readValue_def)
next
  case (PUint v)
  then have r: "r_rest r = le_bytes (2 ^ uint_width v) v @ tail" using assms by simp
  have "8 * 2 ^ uint_width v \<le> (64 :: nat)" by (cases rule: uint_width_cases [of v]) auto
  note le = readLE_word [OF r this, unfolded le_word_le_bytes] and ext = uint_width_take [of v]
  show ?thesis
    using le ext unfolding PUint
    by (cases rule: uint_width_cases [of v]) (auto simp: Reader_readValue_def)
next
  case (PFloat32 v)
  have "ucast (le_word (le_bytes 4 v) :: u64) = v"
    using le_word_ucast [of "le_bytes 4 v", where 'a = 64 and 'b = 32]
    by (intro bit_eqI) (auto simp: bit_ucast_iff)
  with assms readLE_word [of r 4 v tail] show ?thesis
    unfolding PFloat32 by (auto simp: Reader_readValue_def)
next
  case (PFloat64 v)
  with assms readLE_word [of r 8 v tail] show ?thesis by (auto simp: Reader_readValue_def)
next
  case (PString b)
  let ?k = "uint_width (of_nat (length b))"
  obtain r' where "Reader_blob (12 + of_nat ?k) r = (Some b, r')" "r_rest r' = tail"
    using blob_rest [of r b tail "12 + of_nat ?k" etUTF8Len1] assms PString by auto
  then show ?thesis
    unfolding PString
    by (cases rule: uint_width_cases [of "of_nat (length b)"]) (auto simp: Reader_readValue_def)
next
  case (PBytes b)
  let ?k = "uint_width (of_nat (length b))"
  obtain r' where "Reader_blob (16 + of_nat ?k) r = (Some b, r')" "r_rest r' = tail"
    using blob_rest [of r b tail "16 + of_nat ?k" etBytesLen1] assms PBytes by auto
  then show ?thesis
    unfolding PBytes
    by (cases rule: uint_width_cases [of "of_nat (length b)"]) (auto simp: Reader_readValue_def)
qed (use assms in \<open>auto simp: Reader_readValue_def\<close>)

text \<open>Skipping a value consumes the same bytes as reading it.\<close>

lemma skipValue_readValue:
  assumes "Reader_readValue et r = (True, r')" "et \<notin> {etStructure, etArray, etList}"
  shows "\<exists>s. Reader_skipValue et r = (True, s) \<and> r_rest s = r_rest r'"
  using assms
  by (auto simp: Reader_readValue_def Reader_skipValue_def Let_def
      split: if_splits prod.splits option.splits)

lemma prim_et_not_container: "prim_et p \<notin> {etStructure, etArray, etList}"
proof (cases p)
  case (PInt v) then show ?thesis by (cases rule: int_width_cases [of v]) auto
next
  case (PUint v) then show ?thesis by (cases rule: uint_width_cases [of v]) auto
next
  case (PString b) then show ?thesis
    by (cases rule: uint_width_cases [of "of_nat (length b)"]) auto
next
  case (PBytes b) then show ?thesis
    by (cases rule: uint_width_cases [of "of_nat (length b)"]) auto
qed auto

lemma skipValue_enc:
  assumes "r_rest r = prim_payload p @ tail" "prim_ok p"
  shows "\<exists>s. Reader_skipValue (prim_et p) r = (True, s) \<and> r_rest s = tail"
  using readValue_enc [OF assms] skipValue_readValue [OF _ prim_et_not_container] by metis

section \<open>Skipping an encoded container\<close>

text \<open>The loop on the encoding of an element moves over the element, at the same level.\<close>

lemma skip_step:
  assumes "r_rest r = enc_ctl t et @ x" "tag_canon t" "et < 32" "et \<noteq> etEndOfCont" "0 < l"
  shows "\<exists>s. r_rest s = x \<and>
    skip_loop l r =
      (if et = etStructure \<or> et = etArray \<or> et = etList then
         if l \<ge> maxDepth then (False, Reader_fail NestingTooDeep s) else skip_loop (Suc l) s
       else case Reader_skipValue et s of
          (False, r3) \<Rightarrow> (False, r3) | (True, r3) \<Rightarrow> skip_loop l r3)"
proof -
  obtain c tb where c: "enc_ctl t et = c # tb" "c AND 31 = et"
    and tag: "\<And>r tail. r_rest r = tb @ tail \<Longrightarrow>
      Reader_readTag (drop_bit 5 c) r = (Some t, r_advance (length tb) r)"
    using readTag_enc [OF assms(2,3)] by blast
  have d: "drop (r_pos r) (r_data r) = c # tb @ x" using assms(1) c by (simp add: r_rest_def)
  note pos = drop_eq_ConsD [OF d]
  have rest1: "r_rest (r_advance 1 r) = tb @ x" using pos(3) by (simp add: r_rest_def)
  note t = tag [OF rest1]
  have "r_rest (r_advance (length tb) (r_advance 1 r)) = x"
    by (rule r_rest_advance [OF rest1]) simp
  with assms(4,5) pos(1,2) t c(2) show ?thesis
    by (intro exI [of _ "r_advance (length tb) (r_advance 1 r)"])
      (subst skip_loop.simps, simp add: Let_def)
qed

lemma skip_end:
  assumes "r_rest r = etEndOfCont # x" "0 < l"
  shows "\<exists>s. r_rest s = x \<and> skip_loop l r = skip_loop (l - 1) s"
proof -
  have d: "drop (r_pos r) (r_data r) = etEndOfCont # x" using assms(1) by (simp add: r_rest_def)
  note pos = drop_eq_ConsD [OF d]
  have "r_rest (r_advance 1 r) = x" using pos(3) by (simp add: r_rest_def)
  with assms(2) pos(1,2) show ?thesis
    by (intro exI [of _ "r_advance 1 r"]) (subst skip_loop.simps, simp add: Let_def)
qed

lemma ckind_et_container:
  "ckind_et k = etStructure \<or> ckind_et k = etArray \<or> ckind_et k = etList"
  by (cases k) auto

lemma skip_list:
  assumes "\<And>e r tail. e \<in> set es \<Longrightarrow> r_rest r = enc e @ tail \<Longrightarrow>
      \<exists>s. r_rest s = tail \<and> skip_loop l r = skip_loop l s"
    and "r_rest r = encs es @ tail"
  shows "\<exists>s. r_rest s = tail \<and> skip_loop l r = skip_loop l s"
  using assms
proof (induction es arbitrary: r)
  case (Cons e es)
  obtain s where s: "r_rest s = encs es @ tail" "skip_loop l r = skip_loop l s"
    using Cons.prems(1) [of e r "encs es @ tail"] Cons.prems(2) by auto
  have "\<exists>s'. r_rest s' = tail \<and> skip_loop l s = skip_loop l s'"
    by (rule Cons.IH [OF Cons.prems(1) s(1)]) auto
  with s(2) show ?case by auto
qed auto

lemma skip_elem:
  assumes "wf_elem n e" "r_rest r = enc e @ tail" "0 < l" "l + n \<le> maxDepth"
  shows "\<exists>s. r_rest s = tail \<and> skip_loop l r = skip_loop l s"
  using assms
proof (induction n e arbitrary: r tail l rule: wf_elem.induct)
  case (1 n t p)
  then obtain s where s: "r_rest s = prim_payload p @ tail"
    "skip_loop l r = (case Reader_skipValue (prim_et p) s of
          (False, r3) \<Rightarrow> (False, r3) | (True, r3) \<Rightarrow> skip_loop l r3)"
    using skip_step [of r t "prim_et p" "prim_payload p @ tail" l] prim_et_small [of p]
      prim_et_not_container [of p] by auto
  with skipValue_enc [OF s(1)] 1 show ?case by auto
next
  case (3 n t k es)
  then obtain s where s: "r_rest s = encs es @ etEndOfCont # tail"
    "skip_loop l r = skip_loop (Suc l) s"
    using skip_step [of r t "ckind_et k" "encs es @ etEndOfCont # tail" l] ckind_et_small [of k]
      ckind_et_container [of k] by auto
  have "\<exists>s'. r_rest s' = etEndOfCont # tail \<and> skip_loop (Suc l) s = skip_loop (Suc l) s'"
    by (rule skip_list [OF _ s(1)]) (use 3 in \<open>auto simp: list_all_iff\<close>)
  with s(2) skip_end show ?case by fastforce
qed simp

lemma skip_elems:
  assumes "list_all (wf_elem n) es" "r_rest r = encs es @ etEndOfCont # tail" "Suc n \<le> maxDepth"
  shows "\<exists>s. skip_loop 1 r = (True, s) \<and> r_rest s = tail"
proof -
  have "\<exists>s. r_rest s = etEndOfCont # tail \<and> skip_loop 1 r = skip_loop 1 s"
    by (rule skip_list [OF _ assms(2)])
      (use assms skip_elem [of n _ _ _ 1] in \<open>auto simp: list_all_iff\<close>)
  then obtain s where "r_rest s = etEndOfCont # tail" "skip_loop 1 r = skip_loop 1 s" by blast
  with skip_end [of s tail 1] show ?thesis by (auto simp: skip_loop.simps [of 0])
qed

section \<open>The laws of Next and Enter\<close>

definition r_at :: "reader \<Rightarrow> bytes \<Rightarrow> nat \<Rightarrow> bool" where
  "r_at r bs d \<longleftrightarrow> r_err r = None \<and> r_depth r = d
     \<and> (if r_valid r \<and> r_skipPending r then \<exists>s. skip_loop 1 r = (True, s) \<and> r_rest s = bs
        else r_rest r = bs)"

definition cur :: "reader \<Rightarrow> elem \<Rightarrow> bytes \<Rightarrow> nat \<Rightarrow> bool" where
  "cur r e bs d \<longleftrightarrow> r_at r bs d \<and> r_valid r
     \<and> (case e of
          Prim t p \<Rightarrow> r_tag r = t \<and> cur_val p r
        | Cont t k es \<Rightarrow> r_tag r = t \<and> r_typ r = ckind_typ k \<and> r_skipPending r
            \<and> r_rest r = encs es @ etEndOfCont # bs)"

lemma r_at_Next:
  assumes "r_at r bs d"
  shows "\<exists>s. Reader_Next r = Reader_nextElement s \<and> r_rest s = bs \<and> r_err s = None \<and> r_depth s = d"
proof (cases "r_valid r \<and> r_skipPending r")
  case True
  with assms obtain s where s: "skip_loop 1 r = (True, s)" "r_rest s = bs" by (auto simp: r_at_def)
  with skip_loop_res [OF s(1)] assms True show ?thesis
    by (auto simp: r_at_def Reader_Next_def Reader_skipContainerBody_def r_res_def r_adv_def)
qed (use assms in \<open>auto simp: r_at_def Reader_Next_def\<close>)

text \<open>The common part of reading any element: control byte and tag.\<close>

lemma nextElement_ctl:
  assumes "r_rest r = enc_ctl t et @ x" "tag_canon t" "et < 32" "et \<noteq> etEndOfCont"
    and "r_err r = None" "r_depth r = d"
  shows "\<exists>s. r_rest s = x \<and> r_err s = None \<and> r_depth s = d \<and> r_tag s = t \<and>
    Reader_nextElement r =
      (case Reader_readValue et s of
         (False, r3) \<Rightarrow> (False, r3)
       | (True, r3) \<Rightarrow> (True, r3\<lparr>r_valid := True, r_skipPending := is_container (r_typ r3)\<rparr>))"
proof -
  let ?r = "r\<lparr>r_valid := False, r_skipPending := False\<rparr>"
  obtain c tb where c: "enc_ctl t et = c # tb" "c AND 31 = et"
    and tag: "\<And>r tail. r_rest r = tb @ tail \<Longrightarrow>
      Reader_readTag (drop_bit 5 c) r = (Some t, r_advance (length tb) r)"
    using readTag_enc [OF assms(2,3)] by blast
  have d: "drop (r_pos r) (r_data r) = c # tb @ x" using assms(1) c by (simp add: r_rest_def)
  note pos = drop_eq_ConsD [OF d]
  have rest1: "r_rest (r_advance 1 ?r) = tb @ x" using pos(3) by (simp add: r_rest_def)
  note t = tag [OF rest1]
  let ?s = "(r_advance (length tb) (r_advance 1 ?r))\<lparr>r_tag := t\<rparr>"
  have "r_rest ?s = x" using r_rest_advance [OF rest1, of "length tb"] by simp
  with assms pos(1,2) t c(2) show ?thesis
    by (intro exI [of _ ?s]) (simp add: Reader_nextElement_def Let_def)
qed

lemma readValue_keeps:
  assumes "Reader_readValue et s = (True, r')"
  shows "r_err r' = r_err s" "r_depth r' = r_depth s" "r_tag r' = r_tag s"
proof -
  show "r_err r' = r_err s" "r_depth r' = r_depth s"
    using readValue_res [OF assms] by (auto simp: r_res_def r_adv_def)
  have le: "r_tag q' = r_tag q" if "Reader_readLE n q = (Some v, q')" for n q v q'
    using that by (auto simp: Reader_readLE_def split: if_splits)
  have blob: "r_tag q' = r_tag q" if "Reader_blob n q = (Some v, q')" for n q v q'
    using that by (auto simp: Reader_blob_def dest: le split: prod.splits option.splits if_splits)
  show "r_tag r' = r_tag s"
    using assms
    by (auto simp: Reader_readValue_def Let_def dest: le blob
        split: if_splits prod.splits option.splits)
qed

lemma readValue_container:
  "Reader_readValue (ckind_et k) s = (True, s\<lparr>r_typ := ckind_typ k\<rparr>)"
  by (cases k) (simp_all add: Reader_readValue_def)

lemma is_container_ckind [simp]: "is_container (ckind_typ k)"
  by (cases k) (simp_all add: is_container_def)

lemma Next_elem:
  assumes "r_at r (enc e @ tail) d" "wf_elem maxDepth e"
  shows "\<exists>r'. Reader_Next r = (True, r') \<and> cur r' e tail d"
proof -
  obtain s where s: "Reader_Next r = Reader_nextElement s" "r_rest s = enc e @ tail"
      "r_err s = None" "r_depth s = d"
    using r_at_Next [OF assms(1)] by blast
  show ?thesis
  proof (cases e)
    case (Prim t p)
    with assms(2) have ok: "tag_canon t" "prim_ok p" by auto
    obtain s' where s': "r_rest s' = prim_payload p @ tail" "r_err s' = None" "r_depth s' = d"
        "r_tag s' = t" and n: "Reader_nextElement s = (case Reader_readValue (prim_et p) s' of
         (False, r3) \<Rightarrow> (False, r3)
       | (True, r3) \<Rightarrow> (True, r3\<lparr>r_valid := True, r_skipPending := is_container (r_typ r3)\<rparr>))"
      using nextElement_ctl [of s t "prim_et p" "prim_payload p @ tail" d] s(2-4) ok(1)
        prim_et_small [of p] Prim by auto
    obtain r' where r': "Reader_readValue (prim_et p) s' = (True, r')" "cur_val p r'"
        "r_rest r' = tail"
      using readValue_enc [OF s'(1) ok(2)] by blast
    have "cur_val p (r'\<lparr>r_valid := True, r_skipPending := False\<rparr>)"
      using r'(2) by (cases p) auto
    with r' n s s' Prim readValue_keeps [OF r'(1)] cur_val_prim_typ [OF r'(2)] show ?thesis
      by (auto simp: cur_def r_at_def)
  next
    case (Cont t k es)
    with assms(2) have ok: "tag_canon t" and es: "list_all (wf_elem 31) es"
      by (auto simp: numeral_eq_Suc)
    obtain s' where s': "r_rest s' = encs es @ etEndOfCont # tail" "r_err s' = None"
        "r_depth s' = d" "r_tag s' = t"
      and n: "Reader_nextElement s = (case Reader_readValue (ckind_et k) s' of
         (False, r3) \<Rightarrow> (False, r3)
       | (True, r3) \<Rightarrow> (True, r3\<lparr>r_valid := True, r_skipPending := is_container (r_typ r3)\<rparr>))"
      using nextElement_ctl [of s t "ckind_et k" "encs es @ etEndOfCont # tail" d] s(2-4) ok
        ckind_et_small [of k] Cont by auto
    let ?r = "s'\<lparr>r_typ := ckind_typ k, r_valid := True, r_skipPending := True\<rparr>"
    have rest: "r_rest ?r = encs es @ etEndOfCont # tail" using s'(1) by simp
    have "\<exists>q. skip_loop 1 ?r = (True, q) \<and> r_rest q = tail"
      by (rule skip_elems [OF es rest]) simp
    with rest n s s' Cont show ?thesis
      by (auto simp: cur_def r_at_def readValue_container)
  qed
qed

lemma Next_end:
  assumes "r_at r (etEndOfCont # tail) (Suc d)"
  shows "\<exists>r'. Reader_Next r = (False, r') \<and> r_at r' tail d"
proof -
  obtain s where s: "Reader_Next r = Reader_nextElement s" "r_rest s = etEndOfCont # tail"
      "r_err s = None" "r_depth s = Suc d"
    using r_at_Next [OF assms] by blast
  have d: "drop (r_pos s) (r_data s) = etEndOfCont # tail" using s(2) by (simp add: r_rest_def)
  from drop_eq_ConsD [OF d] s show ?thesis
    by (auto simp: Reader_nextElement_def Let_def r_at_def r_rest_def)
qed

lemma Next_eof:
  assumes "r_at r [] 0"
  shows "\<exists>r'. Reader_Next r = (False, r') \<and> r_at r' [] 0"
proof -
  obtain s where s: "Reader_Next r = Reader_nextElement s" "r_rest s = []"
      "r_err s = None" "r_depth s = 0"
    using r_at_Next [OF assms] by blast
  then show ?thesis by (auto simp: Reader_nextElement_def Let_def r_at_def r_rest_def)
qed

lemma NewReader_at: "r_at (NewReader b) b 0"
  by (simp add: r_at_def NewReader_def r_rest_def)

lemma cur_at: "cur r e bs d \<Longrightarrow> r_at r bs d"
  by (simp add: cur_def)

lemma Enter_cur:
  assumes "cur r (Cont t k es) bs d" "d < maxDepth"
  shows "\<exists>r'. Reader_Enter r = (None, r') \<and> r_at r' (encs es @ etEndOfCont # bs) (Suc d)"
  using assms by (auto simp: cur_def r_at_def Reader_Enter_def)

end
