(* ===== verification/Tlv_Members.thy ===== *)
theory Tlv_Members
  imports Tlv_Laws
begin

text \<open>
  Reasoning about decoders on encoded input. \<open>decodes m d e v\<close> says that on the current
  element \<open>e\<close> at depth \<open>d\<close> the decoder \<open>m\<close> returns \<open>v\<close> and leaves the reader behind the
  element; \<open>runs body d es s s'\<close> that the loop body, on the members \<open>es\<close> in turn, takes the
  state \<open>s\<close> to \<open>s'\<close>. The rules follow the combinators, so a round trip is proved by applying
  them along the decoder's text.
\<close>

definition decodes :: "'a dec \<Rightarrow> nat \<Rightarrow> elem \<Rightarrow> 'a \<Rightarrow> bool" where
  "decodes m d e v \<longleftrightarrow>
     (\<forall>r bs. cur r e bs d \<longrightarrow> (\<exists>r'. m r = Some (Inr (v, r')) \<and> r_at r' bs d))"

inductive runs :: "('s \<Rightarrow> 's dec) \<Rightarrow> nat \<Rightarrow> elem list \<Rightarrow> 's \<Rightarrow> 's \<Rightarrow> bool" for body d where
  Nil: "runs body d [] s s"
| Cons: "decodes (body s) d e s1 \<Longrightarrow> wf_elem maxDepth e \<Longrightarrow> runs body d es s1 s' \<Longrightarrow>
    runs body d (e # es) s s'"

inductive_cases runs_ConsE: "runs body d (e # es) s s'"
inductive_simps runs_Nil [simp]: "runs body d [] s s'"

lemma runs_wf: "runs body d es s s' \<Longrightarrow> e \<in> set es \<Longrightarrow> wf_elem maxDepth e"
  by (induction rule: runs.induct) auto

lemma runs_map:
  assumes "\<And>c s. c \<in> set cs \<Longrightarrow> decodes (body s) d (el c) (g c s)"
    and "\<And>c. c \<in> set cs \<Longrightarrow> wf_elem maxDepth (el c)"
  shows "runs body d (map el cs) s (fold g cs s)"
  using assms
proof (induction cs arbitrary: s)
  case (Cons c cs)
  have "runs body d (map el cs) (g c s) (fold g cs (g c s))" by (rule Cons.IH) (use Cons.prems in auto)
  moreover have "decodes (body s) d (el c) (g c s)" "wf_elem maxDepth (el c)"
    using Cons.prems by auto
  ultimately show ?case by (simp add: runs.Cons)
qed simp

lemma runs_append: "runs body d es s s1 \<Longrightarrow> runs body d es' s1 s' \<Longrightarrow> runs body d (es @ es') s s'"
  by (induction rule: runs.induct) (auto intro: runs.intros)

section \<open>The loop\<close>

lemma for_next_fuel_runs:
  assumes "runs body (Suc d) es s s'"
    and "r_at r (encs es @ etEndOfCont # tail) (Suc d)" and "length es < n"
  shows "\<exists>r'. for_next_fuel n body s r = Some (Inr (s', r')) \<and> r_at r' tail d"
  using assms
proof (induction arbitrary: r n rule: runs.induct)
  case (Nil s)
  then obtain m where "n = Suc m" by (cases n) auto
  with Next_end [of r tail d] Nil show ?case by auto
next
  case (Cons s e s1 es s')
  then obtain m where n: "n = Suc m" by (cases n) auto
  obtain r1 where r1: "Reader_Next r = (True, r1)"
    "cur r1 e (encs es @ etEndOfCont # tail) (Suc d)"
    using Next_elem [OF _ Cons.hyps(2)] Cons.prems(1) by fastforce
  obtain r2 where r2: "body s r1 = Some (Inr (s1, r2))"
    "r_at r2 (encs es @ etEndOfCont # tail) (Suc d)"
    using Cons.hyps(1) r1(2) unfolding decodes_def by blast
  from Cons.IH [OF r2(2), of m] Cons.prems n r1 r2 show ?case by auto
qed

lemma r_at_left: "r_at r bs d \<Longrightarrow> length bs \<le> r_left r"
  by (auto simp: r_at_def r_rest_def r_left_def r_res_def r_adv_def
      dest!: skip_loop_res split: if_splits)

lemma enc_nonempty: "wf_elem n e \<Longrightarrow> 0 < length (enc e)"
proof (induction n e rule: wf_elem.induct)
  case (1 n t p)
  then show ?case using readTag_enc [of t "prim_et p"] prim_et_small [of p] by fastforce
qed auto

lemma length_encs: "(\<And>e. e \<in> set es \<Longrightarrow> wf_elem n e) \<Longrightarrow> length es \<le> length (encs es)"
proof (induction es)
  case (Cons e es)
  then have "0 < length (enc e)" "length es \<le> length (encs es)"
    using enc_nonempty [of n e] by auto
  then show ?case by (simp del: length_greater_0_conv)
qed simp

lemma decodes_each_member:
  assumes "runs body (Suc d) es s s'" "d < maxDepth"
  shows "decodes (each_member body s) d (Cont t k es) s'"
  unfolding decodes_def
proof (intro allI impI)
  fix r bs assume c: "cur r (Cont t k es) bs d"
  obtain r1 where r1: "Reader_Enter r = (None, r1)" "r_at r1 (encs es @ etEndOfCont # bs) (Suc d)"
    using Enter_cur [OF c assms(2)] by blast
  have "length es < Suc (r_left r1)"
    using r_at_left [OF r1(2)] length_encs [of es maxDepth] runs_wf [OF assms(1)] by fastforce
  from for_next_fuel_runs [OF assms(1) r1(2) this]
  show "\<exists>r'. each_member body s r = Some (Inr (s', r')) \<and> r_at r' bs d"
    by (simp add: each_member_def dec_bind_def dec_enter_def r1 for_next_def)
qed

section \<open>The other combinators\<close>

fun elem_tag :: "elem \<Rightarrow> tag" where
  "elem_tag (Prim t p) = t"
| "elem_tag (Cont t k es) = t"

fun prim_typ :: "prim \<Rightarrow> tlv_type" where
  "prim_typ (PInt _) = TypeInt"
| "prim_typ (PUint _) = TypeUint"
| "prim_typ (PBool _) = TypeBool"
| "prim_typ (PFloat32 _) = TypeFloat"
| "prim_typ (PFloat64 _) = TypeFloat"
| "prim_typ (PString _) = TypeString"
| "prim_typ (PBytes _) = TypeBytes"
| "prim_typ PNull = TypeNull"

fun elem_typ :: "elem \<Rightarrow> tlv_type" where
  "elem_typ (Prim t p) = prim_typ p"
| "elem_typ (Cont t k es) = ckind_typ k"

lemma cur_tag: "cur r e bs d \<Longrightarrow> r_tag r = elem_tag e"
  by (cases e) (auto simp: cur_def)

lemma cur_type: "cur r e bs d \<Longrightarrow> Reader_Type r = elem_typ e"
proof (cases e)
  case (Prim t p)
  assume "cur r e bs d"
  with Prim show ?thesis by (cases p) (auto simp: cur_def Reader_Type_def)
qed (auto simp: cur_def Reader_Type_def)

lemma cur_get:
  "cur r (Prim t (PUint v)) bs d \<Longrightarrow> Reader_Uint r = Inr v"
  "cur r (Prim t (PInt v)) bs d \<Longrightarrow> Reader_Int r = Inr v"
  "cur r (Prim t (PBool b)) bs d \<Longrightarrow> Reader_Bool r = Inr b"
  "cur r (Prim t (PFloat64 v)) bs d \<Longrightarrow> Reader_Float r = Inr v"
  "cur r (Prim t (PFloat32 f)) bs d \<Longrightarrow> Reader_Float r = Inr (float32_to_64 f)"
  "cur r (Prim t (PString x)) bs d \<Longrightarrow> Reader_String r = Inr x"
  "cur r (Prim t (PBytes x)) bs d \<Longrightarrow> Reader_Bytes r = Inr x"
  by (auto simp: cur_def getter_defs)

lemma Context_Num [simp]: "Num (Context n) = ucast n"
  by (simp add: Context_def)

named_theorems decodes_intros \<open>rules for decodes, along the combinators\<close>

lemma decodes_return [decodes_intros]: "decodes (dec_return v) d e v"
  by (auto simp: decodes_def dec_return_def cur_at)

lemma decodes_get:
  assumes "\<And>r bs. cur r e bs d \<Longrightarrow> g r = Inr v" "decodes (f v) d e w"
  shows "decodes (dec_bind (dec_get g) f) d e w"
  using assms by (simp add: decodes_def dec_bind_def dec_get_def)

lemma decodes_gets [decodes_intros]:
  "decodes (f v) d (Prim t (PUint v)) w \<Longrightarrow>
     decodes (dec_bind (dec_get Reader_Uint) f) d (Prim t (PUint v)) w"
  "decodes (g v) d (Prim t (PInt v)) w \<Longrightarrow>
     decodes (dec_bind (dec_get Reader_Int) g) d (Prim t (PInt v)) w"
  "decodes (h b) d (Prim t (PBool b)) w \<Longrightarrow>
     decodes (dec_bind (dec_get Reader_Bool) h) d (Prim t (PBool b)) w"
  "decodes (k v) d (Prim t (PFloat64 v)) w \<Longrightarrow>
     decodes (dec_bind (dec_get Reader_Float) k) d (Prim t (PFloat64 v)) w"
  "decodes (l x) d (Prim t (PString x)) w \<Longrightarrow>
     decodes (dec_bind (dec_get Reader_String) l) d (Prim t (PString x)) w"
  "decodes (m x) d (Prim t (PBytes x)) w \<Longrightarrow>
     decodes (dec_bind (dec_get Reader_Bytes) m) d (Prim t (PBytes x)) w"
  by (auto intro: decodes_get dest: cur_get)

text \<open>A continuation that only looks at the error field.\<close>

lemma decodes_bind:
  assumes "decodes m d e v" "\<And>r. r_err r = None \<Longrightarrow> f v r = Some (Inr (w, r))"
  shows "decodes (dec_bind m f) d e w"
  unfolding decodes_def
proof (intro allI impI)
  fix r bs assume "cur r e bs d"
  then obtain r' where r': "m r = Some (Inr (v, r'))" "r_at r' bs d"
    using assms(1) unfolding decodes_def by blast
  then have "r_err r' = None" by (simp add: r_at_def)
  with r' assms(2) show "\<exists>r'. dec_bind m f r = Some (Inr (w, r')) \<and> r_at r' bs d"
    by (auto simp: dec_bind_def)
qed

lemma decodes_checked: "decodes m d e v \<Longrightarrow> decodes (dec_bind m dec_checked) d e v"
  by (rule decodes_bind) (simp_all add: dec_checked_def)

lemma decodes_map [decodes_intros]:
  "decodes m d e v \<Longrightarrow> g v = w \<Longrightarrow> decodes (dec_bind m (\<lambda>x. dec_return (g x))) d e w"
  by (rule decodes_bind) (simp_all add: dec_return_def)

text \<open>The switch on the tag number, and the test of the type.\<close>

lemma decodes_tag [decodes_intros]:
  assumes "Num (elem_tag e) = k \<Longrightarrow> decodes m d e v"
    and "Num (elem_tag e) \<noteq> k \<Longrightarrow> decodes n d e v"
  shows "decodes (\<lambda>r. if Num (r_tag r) = k then m r else n r) d e v"
  using assms by (auto simp: decodes_def cur_tag)

lemma decodes_typ:
  assumes "elem_typ e = t" "decodes n d e v"
  shows "decodes (\<lambda>r. if Reader_Type r \<noteq> t then m r else n r) d e v"
  using assms by (auto simp: decodes_def cur_type)

section \<open>The top of a decoder\<close>

lemma dec_top_enc:
  assumes "wf_elem maxDepth (Cont t CStructure es)" "decodes m 0 (Cont t CStructure es) v"
  shows "dec_top msg m (enc (Cont t CStructure es)) = Some (Inr v)"
proof -
  have "r_at (NewReader (enc (Cont t CStructure es))) (enc (Cont t CStructure es) @ []) 0"
    using NewReader_at by simp
  from Next_elem [OF this assms(1)] obtain r where
    r: "Reader_Next (NewReader (enc (Cont t CStructure es))) = (True, r)"
      "cur r (Cont t CStructure es) [] 0" by blast
  with assms(2) show ?thesis
    by (fastforce simp: dec_top_def cur_type dec_result_def decodes_def)
qed

end
