(* ===== verification/Im.thy ===== *)
theory Im
  imports Tlv_Members
begin

text \<open>
  The Interaction Model of \<^verbatim>\<open>go-matter/im\<close>: the messages of \<^verbatim>\<open>invoke.go\<close>,
  \<^verbatim>\<open>response.go\<close>, \<^verbatim>\<open>read.go\<close> and \<^verbatim>\<open>transcode.go\<close>, their encoders over the writer and
  their decoders over the reader. A Go pointer that may be nil and a byte slice that the code
  compares with nil are options; a \<^verbatim>\<open>Writer\<close>'s buffer is nil exactly when nothing was
  written to it.
\<close>

section \<open>Data\<close>

abbreviation InteractionModelRevision :: u64 where "InteractionModelRevision \<equiv> 11"

record CommandPath =
  cp_Endpoint :: u16
  cp_Cluster :: u32
  cp_Command :: u32

record InvokeCommand =
  ic_Path :: CommandPath
  ic_Fields :: "bytes option"

record CommandStatus =
  cs_Path :: CommandPath
  cs_Status :: u8

record InvokeResult =
  ir_Command :: "InvokeCommand option"
  ir_Status :: "CommandStatus option"

record AttributePath =
  ap_Endpoint :: u16
  ap_Cluster :: u32
  ap_Attribute :: u32

record AttributeReport =
  rep_Path :: AttributePath
  rep_DataVersion :: u32
  rep_Data :: bytes
  rep_Status :: "u8 option"

definition zeroCommandPath :: CommandPath where
  "zeroCommandPath = \<lparr>cp_Endpoint = 0, cp_Cluster = 0, cp_Command = 0\<rparr>"

definition zeroInvokeCommand :: InvokeCommand where
  "zeroInvokeCommand = \<lparr>ic_Path = zeroCommandPath, ic_Fields = None\<rparr>"

definition zeroCommandStatus :: CommandStatus where
  "zeroCommandStatus = \<lparr>cs_Path = zeroCommandPath, cs_Status = 0\<rparr>"

definition zeroInvokeResult :: InvokeResult where
  "zeroInvokeResult = \<lparr>ir_Command = None, ir_Status = None\<rparr>"

definition zeroAttributePath :: AttributePath where
  "zeroAttributePath = \<lparr>ap_Endpoint = 0, ap_Cluster = 0, ap_Attribute = 0\<rparr>"

definition zeroAttributeReport :: AttributeReport where
  "zeroAttributeReport =
     \<lparr>rep_Path = zeroAttributePath, rep_DataVersion = 0, rep_Data = [], rep_Status = None\<rparr>"

section \<open>Invoke requests\<close>

definition encodePath :: "u8 \<Rightarrow> CommandPath \<Rightarrow> writer \<Rightarrow> writer" where
  "encodePath tag p w0 =
     (let w = Writer_StartList w0 (Context tag);
          w = Writer_PutUint w (Context 0) (ucast (cp_Endpoint p));
          w = Writer_PutUint w (Context 1) (ucast (cp_Cluster p));
          w = Writer_PutUint w (Context 2) (ucast (cp_Command p))
      in Writer_EndContainer w)"

definition encodeCommandData :: "tag \<Rightarrow> InvokeCommand \<Rightarrow> writer \<Rightarrow> writer" where
  "encodeCommandData tag c w0 =
     (let w = Writer_StartStructure w0 tag;
          w = encodePath 0 (ic_Path c) w;
          w = (case ic_Fields c of
                 None \<Rightarrow> w
               | Some f \<Rightarrow> Writer_EndContainer (Writer_Raw (Writer_StartStructure w (Context 1)) f))
      in Writer_EndContainer w)"

definition EncodeInvokeRequest :: "InvokeCommand list \<Rightarrow> bool \<Rightarrow> bool \<Rightarrow> tlv_error + bytes" where
  "EncodeInvokeRequest commands suppressResponse timedRequest =
     (let w = Writer_StartStructure NewWriter Anonymous;
          w = Writer_PutBool w (Context 0) suppressResponse;
          w = Writer_PutBool w (Context 1) timedRequest;
          w = Writer_StartArray w (Context 2);
          w = fold (encodeCommandData Anonymous) commands w;
          w = Writer_EndContainer w;
          w = Writer_PutUint w (Context 255) InteractionModelRevision
      in Writer_Bytes (Writer_EndContainer w))"

definition decodePathBody :: "CommandPath \<Rightarrow> CommandPath dec" where
  "decodePathBody p =
     (\<lambda>r. if Num (r_tag r) = 0 then
            dec_bind (dec_get Reader_Uint) (\<lambda>v. dec_return (p\<lparr>cp_Endpoint := ucast v\<rparr>)) r
          else if Num (r_tag r) = 1 then
            dec_bind (dec_get Reader_Uint) (\<lambda>v. dec_return (p\<lparr>cp_Cluster := ucast v\<rparr>)) r
          else if Num (r_tag r) = 2 then
            dec_bind (dec_get Reader_Uint) (\<lambda>v. dec_return (p\<lparr>cp_Command := ucast v\<rparr>)) r
          else dec_return p r)"

definition decodePath :: "CommandPath dec" where
  "decodePath =
     (\<lambda>r. if Reader_Type r \<noteq> TypeList then dec_fail (Msg ''im: command path is not a list'') r
          else dec_bind (each_member decodePathBody zeroCommandPath) dec_checked r)"

text \<open>\<^verbatim>\<open>transcodeFlatStruct\<close>: nested containers, floats and nulls are rejected.\<close>

definition flatBody :: "writer \<Rightarrow> writer dec" where
  "flatBody w r =
     (let tag = r_tag r in
      case Reader_Type r of
        TypeUint \<Rightarrow> dec_return (Writer_PutUint w tag (value_or 0 (Reader_Uint r))) r
      | TypeInt \<Rightarrow> dec_return (Writer_PutInt w tag (value_or 0 (Reader_Int r))) r
      | TypeBool \<Rightarrow> dec_return (Writer_PutBool w tag (value_or False (Reader_Bool r))) r
      | TypeBytes \<Rightarrow> dec_return (Writer_PutBytes w tag (value_or [] (Reader_Bytes r))) r
      | TypeString \<Rightarrow> dec_return (Writer_PutString w tag (value_or [] (Reader_String r))) r
      | _ \<Rightarrow> dec_fail (Msg ''im: unsupported command-field type'') r)"

text \<open>\<^verbatim>\<open>return w.Bytes()\<close>\<close>

definition dec_bytes :: "writer \<Rightarrow> bytes dec" where
  "dec_bytes w r =
     (case Writer_Bytes w of Inl e \<Rightarrow> Some (Inl (TlvErr e)) | Inr b \<Rightarrow> Some (Inr (b, r)))"

definition transcodeFlatStruct :: "bytes dec" where
  "transcodeFlatStruct = dec_bind (dec_bind (each_member flatBody NewWriter) dec_checked) dec_bytes"

definition nil_if_empty :: "bytes \<Rightarrow> bytes option" where
  "nil_if_empty b = (if b = [] then None else Some b)"

definition decodeCommandDataBody :: "InvokeCommand \<Rightarrow> InvokeCommand dec" where
  "decodeCommandDataBody c =
     (\<lambda>r. if Num (r_tag r) = 0 then
            dec_bind decodePath (\<lambda>p. dec_return (c\<lparr>ic_Path := p\<rparr>)) r
          else if Num (r_tag r) = 1 then
            dec_bind transcodeFlatStruct (\<lambda>f. dec_return (c\<lparr>ic_Fields := nil_if_empty f\<rparr>)) r
          else dec_return c r)"

definition decodeCommandData :: "InvokeCommand dec" where
  "decodeCommandData = each_member decodeCommandDataBody zeroInvokeCommand"

text \<open>\<^verbatim>\<open>for r.Next() { x, err := decode(r); ...; xs = append(xs, x) }\<close>\<close>

definition appendBody :: "'a dec \<Rightarrow> 'a list \<Rightarrow> 'a list dec" where
  "appendBody m xs = dec_bind m (\<lambda>x. dec_return (xs @ [x]))"

definition DecodeInvokeRequestBody ::
    "InvokeCommand list \<times> bool \<times> bool \<Rightarrow> (InvokeCommand list \<times> bool \<times> bool) dec" where
  "DecodeInvokeRequestBody = (\<lambda>(commands, suppressResponse, timedRequest).
     (\<lambda>r. if Num (r_tag r) = 0 then
            dec_bind (dec_get Reader_Bool) (\<lambda>b. dec_return (commands, b, timedRequest)) r
          else if Num (r_tag r) = 1 then
            dec_bind (dec_get Reader_Bool) (\<lambda>b. dec_return (commands, suppressResponse, b)) r
          else if Num (r_tag r) = 2 then
            dec_bind (each_member (appendBody decodeCommandData) commands)
              (\<lambda>cs. dec_return (cs, suppressResponse, timedRequest)) r
          else dec_return (commands, suppressResponse, timedRequest) r))"

definition DecodeInvokeRequest :: "bytes \<Rightarrow> (derror + InvokeCommand list \<times> bool \<times> bool) option" where
  "DecodeInvokeRequest =
     dec_top ''im: expected top-level structure''
       (dec_bind (each_member DecodeInvokeRequestBody ([], False, False)) dec_checked)"

section \<open>Invoke responses and status responses\<close>

definition EncodeStatusResponse :: "u8 \<Rightarrow> tlv_error + bytes" where
  "EncodeStatusResponse status =
     (let w = Writer_StartStructure NewWriter Anonymous;
          w = Writer_PutUint w (Context 0) (ucast status);
          w = Writer_PutUint w (Context 255) InteractionModelRevision
      in Writer_Bytes (Writer_EndContainer w))"

definition DecodeStatusResponse :: "bytes \<Rightarrow> (derror + u8) option" where
  "DecodeStatusResponse =
     dec_top ''im: expected structure''
       (dec_bind (each_member (\<lambda>status.
          (\<lambda>r. if Num (r_tag r) = 0 then
                 dec_bind (dec_get Reader_Uint) (\<lambda>v. dec_return (ucast v)) r
               else dec_return status r)) 0) dec_checked)"

text \<open>One entry of the response; \<^verbatim>\<open>None\<close> is the error for an entry with neither part.\<close>

definition encodeInvokeResult :: "InvokeResult \<Rightarrow> writer \<Rightarrow> writer option" where
  "encodeInvokeResult res w0 =
     (let w = Writer_StartStructure w0 Anonymous in
      case (ir_Command res, ir_Status res) of
        (Some c, _) \<Rightarrow> Some (Writer_EndContainer (encodeCommandData (Context 0) c w))
      | (None, Some st) \<Rightarrow>
          (let w = Writer_StartStructure w (Context 1);
               w = encodePath 0 (cs_Path st) w;
               w = Writer_StartStructure w (Context 1);
               w = Writer_PutUint w (Context 0) (ucast (cs_Status st));
               w = Writer_EndContainer w;
               w = Writer_EndContainer w
           in Some (Writer_EndContainer w))
      | (None, None) \<Rightarrow> None)"

fun encodeInvokeResults :: "InvokeResult list \<Rightarrow> writer \<Rightarrow> writer option" where
  "encodeInvokeResults [] w = Some w"
| "encodeInvokeResults (res # rs) w =
     (case encodeInvokeResult res w of None \<Rightarrow> None | Some w' \<Rightarrow> encodeInvokeResults rs w')"

definition EncodeInvokeResponse :: "InvokeResult list \<Rightarrow> bool \<Rightarrow> derror + bytes" where
  "EncodeInvokeResponse results suppressResponse =
     (let w = Writer_StartStructure NewWriter Anonymous;
          w = Writer_PutBool w (Context 0) suppressResponse;
          w = Writer_StartArray w (Context 1)
      in case encodeInvokeResults results w of
           None \<Rightarrow> Inl (Msg ''im: invoke result has neither command nor status'')
         | Some w \<Rightarrow>
             (let w = Writer_EndContainer w;
                  w = Writer_PutUint w (Context 255) InteractionModelRevision
              in map_sum TlvErr id (Writer_Bytes (Writer_EndContainer w))))"

definition decodeStatusIB :: "u8 \<Rightarrow> u8 dec" where
  "decodeStatusIB = each_member (\<lambda>st.
     (\<lambda>r. if Num (r_tag r) = 0 then
            dec_bind (dec_get Reader_Uint) (\<lambda>v. dec_return (ucast v)) r
          else dec_return st r))"

definition decodeCommandStatusBody :: "CommandStatus \<Rightarrow> CommandStatus dec" where
  "decodeCommandStatusBody cs =
     (\<lambda>r. if Num (r_tag r) = 0 then
            dec_bind decodePath (\<lambda>p. dec_return (cs\<lparr>cs_Path := p\<rparr>)) r
          else if Num (r_tag r) = 1 then
            dec_bind (decodeStatusIB (cs_Status cs)) (\<lambda>st. dec_return (cs\<lparr>cs_Status := st\<rparr>)) r
          else dec_return cs r)"

definition decodeCommandStatus :: "CommandStatus dec" where
  "decodeCommandStatus = each_member decodeCommandStatusBody zeroCommandStatus"

definition decodeResponseIBBody :: "InvokeResult \<Rightarrow> InvokeResult dec" where
  "decodeResponseIBBody res =
     (\<lambda>r. if Num (r_tag r) = 0 then
            dec_bind decodeCommandData (\<lambda>c. dec_return (res\<lparr>ir_Command := Some c\<rparr>)) r
          else if Num (r_tag r) = 1 then
            dec_bind decodeCommandStatus (\<lambda>cs. dec_return (res\<lparr>ir_Status := Some cs\<rparr>)) r
          else dec_return res r)"

definition decodeResponseIB :: "InvokeResult dec" where
  "decodeResponseIB = each_member decodeResponseIBBody zeroInvokeResult"

definition DecodeInvokeResponse :: "bytes \<Rightarrow> (derror + InvokeResult list) option" where
  "DecodeInvokeResponse =
     dec_top ''im: expected top-level structure''
       (dec_bind (each_member (\<lambda>results.
          (\<lambda>r. if Num (r_tag r) = 1 then each_member (appendBody decodeResponseIB) results r
               else dec_return results r)) []) dec_checked)"

section \<open>Read, subscribe and report messages\<close>

definition encodeAttrPath :: "tag \<Rightarrow> AttributePath \<Rightarrow> writer \<Rightarrow> writer" where
  "encodeAttrPath tag p w0 =
     (let w = Writer_StartList w0 tag;
          w = Writer_PutUint w (Context 2) (ucast (ap_Endpoint p));
          w = Writer_PutUint w (Context 3) (ucast (ap_Cluster p));
          w = Writer_PutUint w (Context 4) (ucast (ap_Attribute p))
      in Writer_EndContainer w)"

definition decodeAttrPathBody :: "AttributePath \<Rightarrow> AttributePath dec" where
  "decodeAttrPathBody p =
     (\<lambda>r. if Num (r_tag r) = 2 then
            dec_bind (dec_get Reader_Uint) (\<lambda>v. dec_return (p\<lparr>ap_Endpoint := ucast v\<rparr>)) r
          else if Num (r_tag r) = 3 then
            dec_bind (dec_get Reader_Uint) (\<lambda>v. dec_return (p\<lparr>ap_Cluster := ucast v\<rparr>)) r
          else if Num (r_tag r) = 4 then
            dec_bind (dec_get Reader_Uint) (\<lambda>v. dec_return (p\<lparr>ap_Attribute := ucast v\<rparr>)) r
          else dec_return p r)"

definition decodeAttrPath :: "AttributePath dec" where
  "decodeAttrPath =
     (\<lambda>r. if Reader_Type r \<noteq> TypeList then dec_fail (Msg ''im: attribute path is not a list'') r
          else dec_bind (each_member decodeAttrPathBody zeroAttributePath) dec_checked r)"

definition EncodeReadRequest :: "AttributePath list \<Rightarrow> bool \<Rightarrow> tlv_error + bytes" where
  "EncodeReadRequest paths fabricFiltered =
     (let w = Writer_StartStructure NewWriter Anonymous;
          w = Writer_StartArray w (Context 0);
          w = fold (encodeAttrPath Anonymous) paths w;
          w = Writer_EndContainer w;
          w = Writer_PutBool w (Context 3) fabricFiltered;
          w = Writer_PutUint w (Context 255) InteractionModelRevision
      in Writer_Bytes (Writer_EndContainer w))"

definition EncodeSubscribeRequest ::
    "AttributePath list \<Rightarrow> u16 \<Rightarrow> u16 \<Rightarrow> bool \<Rightarrow> bool \<Rightarrow> tlv_error + bytes" where
  "EncodeSubscribeRequest paths minFloorSec maxCeilingSec keepSubscriptions fabricFiltered =
     (let w = Writer_StartStructure NewWriter Anonymous;
          w = Writer_PutBool w (Context 0) keepSubscriptions;
          w = Writer_PutUint w (Context 1) (ucast minFloorSec);
          w = Writer_PutUint w (Context 2) (ucast maxCeilingSec);
          w = Writer_StartArray w (Context 3);
          w = fold (encodeAttrPath Anonymous) paths w;
          w = Writer_EndContainer w;
          w = Writer_PutBool w (Context 7) fabricFiltered;
          w = Writer_PutUint w (Context 255) InteractionModelRevision
      in Writer_Bytes (Writer_EndContainer w))"

text \<open>Every member must read as an unsigned integer, known or not.\<close>

definition DecodeSubscribeResponse :: "bytes \<Rightarrow> (derror + u32 \<times> u16) option" where
  "DecodeSubscribeResponse =
     dec_top ''im: expected structure''
       (dec_bind (each_member (\<lambda>(subscriptionID, maxIntervalSec).
          dec_bind (dec_get Reader_Uint) (\<lambda>v.
            (\<lambda>r. if Num (r_tag r) = 0 then dec_return (ucast v, maxIntervalSec) r
                 else if Num (r_tag r) = 2 then dec_return (subscriptionID, ucast v) r
                 else dec_return (subscriptionID, maxIntervalSec) r))) (0, 0)) dec_checked)"

definition EncodeSubscribeResponse :: "u32 \<Rightarrow> u16 \<Rightarrow> tlv_error + bytes" where
  "EncodeSubscribeResponse subscriptionID maxIntervalSec =
     (let w = Writer_StartStructure NewWriter Anonymous;
          w = Writer_PutUint w (Context 0) (ucast subscriptionID);
          w = Writer_PutUint w (Context 2) (ucast maxIntervalSec);
          w = Writer_PutUint w (Context 255) InteractionModelRevision
      in Writer_Bytes (Writer_EndContainer w))"

definition DecodeReadRequest :: "bytes \<Rightarrow> (derror + AttributePath list \<times> bool) option" where
  "DecodeReadRequest =
     dec_top ''im: expected structure''
       (dec_bind (each_member (\<lambda>(paths, fabricFiltered).
          (\<lambda>r. if Num (r_tag r) = 0 then
                 dec_bind (each_member (appendBody decodeAttrPath) paths)
                   (\<lambda>ps. dec_return (ps, fabricFiltered)) r
               else if Num (r_tag r) = 3 then
                 dec_bind (dec_get Reader_Bool) (\<lambda>b. dec_return (paths, b)) r
               else dec_return (paths, fabricFiltered) r)) ([], False)) dec_checked)"

section \<open>Copying elements\<close>

text \<open>
  \<^verbatim>\<open>writeElement\<close> recurses on containers, and \<^verbatim>\<open>Enter\<close> refuses to nest deeper than
  \<open>maxDepth\<close>, so \<open>maxDepth + 1\<close> levels of recursion are enough from the top of an input.
\<close>

fun writeElement_fuel :: "nat \<Rightarrow> tag \<Rightarrow> writer \<Rightarrow> writer dec" where
  "writeElement_fuel 0 tag w r = None"
| "writeElement_fuel (Suc n) tag w r =
     (let members = (\<lambda>w0. dec_bind
            (each_member (\<lambda>w r'. writeElement_fuel n (r_tag r') w r') w0)
            (\<lambda>w'. dec_return (Writer_EndContainer w')) r)
      in case Reader_Type r of
        TypeUint \<Rightarrow> dec_bind (dec_get Reader_Uint) (\<lambda>v. dec_return (Writer_PutUint w tag v)) r
      | TypeInt \<Rightarrow> dec_bind (dec_get Reader_Int) (\<lambda>v. dec_return (Writer_PutInt w tag v)) r
      | TypeBool \<Rightarrow> dec_bind (dec_get Reader_Bool) (\<lambda>v. dec_return (Writer_PutBool w tag v)) r
      | TypeFloat \<Rightarrow> dec_bind (dec_get Reader_Float) (\<lambda>v. dec_return (Writer_PutFloat64 w tag v)) r
      | TypeString \<Rightarrow> dec_bind (dec_get Reader_String) (\<lambda>v. dec_return (Writer_PutString w tag v)) r
      | TypeBytes \<Rightarrow> dec_bind (dec_get Reader_Bytes) (\<lambda>v. dec_return (Writer_PutBytes w tag v)) r
      | TypeNull \<Rightarrow> dec_return (Writer_PutNull w tag) r
      | TypeStructure \<Rightarrow> members (Writer_StartStructure w tag)
      | TypeArray \<Rightarrow> members (Writer_StartArray w tag)
      | TypeList \<Rightarrow> members (Writer_StartList w tag)
      | TypeInvalid \<Rightarrow> dec_fail (Msg ''im: cannot transcode element type'') r)"

definition writeElement :: "tag \<Rightarrow> writer \<Rightarrow> writer dec" where
  "writeElement = writeElement_fuel (Suc maxDepth)"

definition captureAnon :: "bytes dec" where
  "captureAnon = dec_bind (writeElement Anonymous NewWriter) dec_bytes"

text \<open>
  One report of \<^verbatim>\<open>EncodeReportData\<close>. The value bytes are re-read by a reader of their own;
  if there is no first element the data member is left out.
\<close>

definition encodeReport :: "AttributeReport \<Rightarrow> writer \<Rightarrow> (derror + writer) option" where
  "encodeReport rep w0 =
     (let w = Writer_StartStructure w0 Anonymous in
      case rep_Status rep of
        Some st \<Rightarrow>
          (let w = Writer_StartStructure w (Context 0);
               w = encodeAttrPath (Context 0) (rep_Path rep) w;
               w = Writer_StartStructure w (Context 1);
               w = Writer_PutUint w (Context 0) (ucast st);
               w = Writer_EndContainer w;
               w = Writer_EndContainer w
           in Some (Inr (Writer_EndContainer w)))
      | None \<Rightarrow>
          (let w = Writer_StartStructure w (Context 1);
               w = Writer_PutUint w (Context 0) (ucast (rep_DataVersion rep));
               w = encodeAttrPath (Context 1) (rep_Path rep) w
           in case Reader_Next (NewReader (rep_Data rep)) of
                (False, _) \<Rightarrow> Some (Inr (Writer_EndContainer (Writer_EndContainer w)))
              | (True, dr) \<Rightarrow>
                  (case writeElement (Context 2) w dr of
                     None \<Rightarrow> None
                   | Some (Inl e) \<Rightarrow> Some (Inl e)
                   | Some (Inr (w, _)) \<Rightarrow>
                       Some (Inr (Writer_EndContainer (Writer_EndContainer w))))))"

fun encodeReports :: "AttributeReport list \<Rightarrow> writer \<Rightarrow> (derror + writer) option" where
  "encodeReports [] w = Some (Inr w)"
| "encodeReports (rep # rs) w =
     (case encodeReport rep w of
        None \<Rightarrow> None
      | Some (Inl e) \<Rightarrow> Some (Inl e)
      | Some (Inr w') \<Rightarrow> encodeReports rs w')"

definition EncodeReportData ::
    "u32 \<Rightarrow> AttributeReport list \<Rightarrow> bool \<Rightarrow> (derror + bytes) option" where
  "EncodeReportData subscriptionID reports suppressResponse =
     (let w = Writer_StartStructure NewWriter Anonymous;
          w = (if subscriptionID \<noteq> 0 then Writer_PutUint w (Context 0) (ucast subscriptionID) else w);
          w = Writer_StartArray w (Context 1)
      in case encodeReports reports w of
           None \<Rightarrow> None
         | Some (Inl e) \<Rightarrow> Some (Inl e)
         | Some (Inr w) \<Rightarrow>
             (let w = Writer_EndContainer w;
                  w = (if suppressResponse then Writer_PutBool w (Context 4) True else w);
                  w = Writer_PutUint w (Context 255) InteractionModelRevision
              in Some (map_sum TlvErr id (Writer_Bytes (Writer_EndContainer w)))))"

text \<open>\<^verbatim>\<open>AttributeStatusIB\<close> and \<^verbatim>\<open>AttributeDataIB\<close>, then the report and the message.\<close>

definition decodeAttrStatusBody :: "AttributeReport \<Rightarrow> AttributeReport dec" where
  "decodeAttrStatusBody rep =
     (\<lambda>r. if Num (r_tag r) = 0 then
            dec_bind decodeAttrPath (\<lambda>p. dec_return (rep\<lparr>rep_Path := p\<rparr>)) r
          else if Num (r_tag r) = 1 then
            each_member (\<lambda>rep.
              (\<lambda>r. if Num (r_tag r) = 0 then
                     dec_bind (dec_get Reader_Uint)
                       (\<lambda>v. dec_return (rep\<lparr>rep_Status := Some (ucast v)\<rparr>)) r
                   else dec_return rep r)) rep r
          else dec_return rep r)"

definition decodeAttrDataBody :: "AttributeReport \<Rightarrow> AttributeReport dec" where
  "decodeAttrDataBody rep =
     (\<lambda>r. if Num (r_tag r) = 0 then
            dec_bind (dec_get Reader_Uint) (\<lambda>v. dec_return (rep\<lparr>rep_DataVersion := ucast v\<rparr>)) r
          else if Num (r_tag r) = 1 then
            dec_bind decodeAttrPath (\<lambda>p. dec_return (rep\<lparr>rep_Path := p\<rparr>)) r
          else if Num (r_tag r) = 2 then
            dec_bind captureAnon (\<lambda>d. dec_return (rep\<lparr>rep_Data := d\<rparr>)) r
          else dec_return rep r)"

definition decodeAttrReportIBBody :: "AttributeReport \<Rightarrow> AttributeReport dec" where
  "decodeAttrReportIBBody rep =
     (\<lambda>r. if Num (r_tag r) = 0 then each_member decodeAttrStatusBody rep r
          else if Num (r_tag r) = 1 then each_member decodeAttrDataBody rep r
          else dec_return rep r)"

definition decodeAttrReportIB :: "AttributeReport dec" where
  "decodeAttrReportIB = each_member decodeAttrReportIBBody zeroAttributeReport"

definition DecodeReportData :: "bytes \<Rightarrow> (derror + u32 \<times> AttributeReport list) option" where
  "DecodeReportData =
     dec_top ''im: expected structure''
       (dec_bind (each_member (\<lambda>(subscriptionID, reports).
          (\<lambda>r. if Num (r_tag r) = 0 then
                 dec_bind (dec_get Reader_Uint) (\<lambda>v. dec_return (ucast v, reports)) r
               else if Num (r_tag r) = 1 then
                 dec_bind (each_member (appendBody decodeAttrReportIB) reports)
                   (\<lambda>rs. dec_return (subscriptionID, rs)) r
               else dec_return (subscriptionID, reports) r)) (0, [])) dec_checked)"

definition DecodeUint :: "bytes \<Rightarrow> derror + u64" where
  "DecodeUint data =
     (case Reader_Next (NewReader data) of
        (False, _) \<Rightarrow> Inl (Msg ''im: empty attribute data'')
      | (True, r) \<Rightarrow> map_sum TlvErr id (Reader_Uint r))"

end
