(* ===== verification/Im_Correct.thy ===== *)
theory Im_Correct
  imports Im
begin

text \<open>
  Correctness of the Interaction Model messages: every decoder returns on every input, every
  encoder produces the encoding of the message's element tree, and decoding an encoded
  message gives the message back.
\<close>

section \<open>The decoders return\<close>

lemma returns_dec_bytes [returns_intros]: "returns_on P (dec_bytes w)"
  by (simp add: returns_on_def dec_bytes_def split: sum.splits)

lemma returns_flatBody [returns_intros]: "returns_on P (flatBody w)"
proof -
  have "flatBody w r = dec_fail (Msg ''im: unsupported command-field type'') r \<or>
      (\<exists>w'. flatBody w r = dec_return w' r)" for r
    by (auto simp: flatBody_def Let_def split: tlv_type.split)
  then show ?thesis
    by (intro returns_onI) (metis dec_fail_def dec_return_def kept_refl)
qed

lemma returns_appendBody [returns_intros]: "returns m \<Longrightarrow> returns_on P (appendBody m xs)"
  unfolding appendBody_def by (intro returns_intros) (simp_all add: returns_on_def)

lemma returns_decodePath [returns_intros]: "returns_on P decodePath"
  unfolding decodePath_def decodePathBody_def by (intro returns_intros)

lemma returns_transcodeFlatStruct [returns_intros]: "returns_on P transcodeFlatStruct"
  unfolding transcodeFlatStruct_def by (intro returns_intros)

lemma returns_decodeCommandData [returns_intros]: "returns_on P decodeCommandData"
  unfolding decodeCommandData_def decodeCommandDataBody_def
  by (intro returns_intros)

lemma returns_decodeStatusIB [returns_intros]: "returns_on P (decodeStatusIB st)"
  unfolding decodeStatusIB_def by (intro returns_intros)

lemma returns_decodeCommandStatus [returns_intros]: "returns_on P decodeCommandStatus"
  unfolding decodeCommandStatus_def decodeCommandStatusBody_def
  by (intro returns_intros)

lemma returns_decodeResponseIB [returns_intros]: "returns_on P decodeResponseIB"
  unfolding decodeResponseIB_def decodeResponseIBBody_def
  by (intro returns_intros)

lemma returns_decodeAttrPath [returns_intros]: "returns_on P decodeAttrPath"
  unfolding decodeAttrPath_def decodeAttrPathBody_def by (intro returns_intros)

lemma returns_typ_case:
  assumes "returns_on P m0" "returns_on P m1" "returns_on P m2" "returns_on P m3"
    "returns_on P m4" "returns_on P m5" "returns_on P m6" "returns_on P m7" "returns_on P m8"
    "returns_on P m9" "returns_on P m10"
  shows "returns_on P (\<lambda>r. case Reader_Type r of TypeInvalid \<Rightarrow> m0 r | TypeInt \<Rightarrow> m1 r
    | TypeUint \<Rightarrow> m2 r | TypeBool \<Rightarrow> m3 r | TypeFloat \<Rightarrow> m4 r | TypeString \<Rightarrow> m5 r
    | TypeBytes \<Rightarrow> m6 r | TypeNull \<Rightarrow> m7 r | TypeStructure \<Rightarrow> m8 r | TypeArray \<Rightarrow> m9 r
    | TypeList \<Rightarrow> m10 r)"
  using assms unfolding returns_on_def by (auto split: tlv_type.split)

text \<open>
  Copying an element needs one level of fuel per level of nesting that \<^verbatim>\<open>Enter\<close> still
  allows.
\<close>

lemma returns_writeElement_fuel:
  "maxDepth - d < n \<Longrightarrow> returns_on (\<lambda>r. r_err r = None \<and> r_depth r = d) (writeElement_fuel n t w)"
proof (induction n arbitrary: d t w)
  case (Suc n)
  have members: "returns_on (\<lambda>r. r_depth r = d)
      (dec_bind (each_member (\<lambda>w r'. writeElement_fuel n (r_tag r') w r') w0)
        (\<lambda>w'. dec_return (Writer_EndContainer w')))" for w0
  proof (cases "d < maxDepth")
    case True
    have "returns_on (\<lambda>r. r_err r = None \<and> r_depth r = Suc d)
        (\<lambda>r'. writeElement_fuel n (r_tag r') w r')" for w
      using Suc.IH [of "Suc d"] Suc.prems True by (fastforce simp: returns_on_def)
    then show ?thesis by (intro returns_intros returns_each_member_at)
  next
    case False
    then show ?thesis
      by (auto simp: returns_on_def dec_bind_def each_member_def dec_enter_def Reader_Enter_def
          Let_def split: option.splits)
  qed
  have strong: "returns_on (\<lambda>r. r_err r = None \<and> r_depth r = d) m"
    if "returns_on (\<lambda>r. r_depth r = d) m" for m :: "writer dec"
    using that by (simp add: returns_on_def)
  show ?case
    unfolding writeElement_fuel.simps Let_def
    by (intro returns_typ_case returns_intros strong [OF members])
qed simp

lemma returns_captureAnon: "returns_on (\<lambda>r. r_err r = None) captureAnon"
proof -
  have "returns_on (\<lambda>r. r_err r = None \<and> r_depth r = d) (writeElement t w)" for d t w
    unfolding writeElement_def by (rule returns_writeElement_fuel) simp
  then have "returns_on (\<lambda>r. r_err r = None) (writeElement t w)" for t w
    by (simp add: returns_on_def)
  then show ?thesis unfolding captureAnon_def by (intro returns_intros)
qed

lemma returns_decodeAttrReportIB [returns_intros]: "returns_on P decodeAttrReportIB"
  unfolding decodeAttrReportIB_def decodeAttrReportIBBody_def decodeAttrStatusBody_def
    decodeAttrDataBody_def
  by (intro returns_intros returns_captureAnon)

text \<open>The pairs and triples that loops carry.\<close>

lemma returns_prod_case [returns_intros]:
  "(\<And>a b. returns_on P (f a b)) \<Longrightarrow> returns_on P (case x of (a, b) \<Rightarrow> f a b)"
  by (cases x) simp

section \<open>Termination of the message decoders\<close>

lemma Decode_returns:
  "\<exists>y. DecodeInvokeRequest b = Some y" "\<exists>y. DecodeInvokeResponse b = Some y"
  "\<exists>y. DecodeStatusResponse b = Some y" "\<exists>y. DecodeSubscribeResponse b = Some y"
  "\<exists>y. DecodeReadRequest b = Some y" "\<exists>y. DecodeReportData b = Some y"
  unfolding DecodeInvokeRequest_def DecodeInvokeRequestBody_def DecodeInvokeResponse_def
    DecodeStatusResponse_def DecodeSubscribeResponse_def DecodeReadRequest_def DecodeReportData_def
  by (intro dec_top_returns returns_intros)+

section \<open>The element trees of the messages\<close>

abbreviation ctx_uint :: "u8 \<Rightarrow> u64 \<Rightarrow> elem" where
  "ctx_uint n v \<equiv> Prim (Context n) (PUint v)"

definition cpath_elem :: "tag \<Rightarrow> CommandPath \<Rightarrow> elem" where
  "cpath_elem t p = Cont t CList
     [ctx_uint 0 (ucast (cp_Endpoint p)), ctx_uint 1 (ucast (cp_Cluster p)),
      ctx_uint 2 (ucast (cp_Command p))]"

definition apath_elem :: "tag \<Rightarrow> AttributePath \<Rightarrow> elem" where
  "apath_elem t p = Cont t CList
     [ctx_uint 2 (ucast (ap_Endpoint p)), ctx_uint 3 (ucast (ap_Cluster p)),
      ctx_uint 4 (ucast (ap_Attribute p))]"

text \<open>
  \<open>flat_fields fs f\<close>: the fields bytes \<open>f\<close> are the encoding of the flat members \<open>fs\<close>, of the
  types that the code transcodes; nil stands for no members.
\<close>

fun flat_elem :: "elem \<Rightarrow> bool" where
  "flat_elem (Prim t p) \<longleftrightarrow> tag_canon t \<and> prim_ok p
     \<and> prim_typ p \<in> {TypeUint, TypeInt, TypeBool, TypeBytes, TypeString}"
| "flat_elem (Cont t k es) \<longleftrightarrow> False"

definition flat_fields :: "elem list \<Rightarrow> bytes option \<Rightarrow> bool" where
  "flat_fields fs f \<longleftrightarrow> list_all flat_elem fs \<and> f = nil_if_empty (encs fs)"

definition cmd_elem :: "elem list \<Rightarrow> tag \<Rightarrow> InvokeCommand \<Rightarrow> elem" where
  "cmd_elem fs t c = Cont t CStructure
     (cpath_elem (Context 0) (ic_Path c)
       # (case ic_Fields c of None \<Rightarrow> [] | Some _ \<Rightarrow> [Cont (Context 1) CStructure fs]))"

lemma wf_path_elem [simp]:
  "tag_canon t \<Longrightarrow> wf_elem (Suc n) (cpath_elem t p)"
  "tag_canon t \<Longrightarrow> wf_elem (Suc n) (apath_elem t q)"
  by (simp_all add: cpath_elem_def apath_elem_def)

lemma elem_tag_path [simp]:
  "elem_tag (cpath_elem t p) = t" "elem_tag (apath_elem t q) = t" "elem_tag (cmd_elem fs t c) = t"
  by (simp_all add: cpath_elem_def apath_elem_def cmd_elem_def)

section \<open>Paths and commands\<close>

lemma encodePath_WS [simp]:
  "encodePath n p (WS b d) = WS (b @ enc (cpath_elem (Context n) p)) d"
  by (simp add: encodePath_def cpath_elem_def Let_def writer_WS)

lemma encodeAttrPath_WS [simp]:
  "tag_ok t \<Longrightarrow> encodeAttrPath t p (WS b d) = WS (b @ enc (apath_elem t p)) d"
  by (simp add: encodeAttrPath_def apath_elem_def Let_def writer_WS)

lemma decodes_eq: "decodes m d e v' \<Longrightarrow> v' = v \<Longrightarrow> decodes m d e v"
  by simp

text \<open>A member by member run over a literal list.\<close>

lemmas runs_intros = runs.Nil runs.Cons

lemma decodes_decodePath [decodes_intros]:
  assumes "d < maxDepth"
  shows "decodes decodePath d (cpath_elem t p) p"
proof -
  have "runs decodePathBody (Suc d)
     [ctx_uint 0 (ucast (cp_Endpoint p)), ctx_uint 1 (ucast (cp_Cluster p)),
      ctx_uint 2 (ucast (cp_Command p))] zeroCommandPath
     (zeroCommandPath\<lparr>cp_Endpoint := cp_Endpoint p, cp_Cluster := cp_Cluster p,
        cp_Command := cp_Command p\<rparr>)"
    unfolding decodePathBody_def
    by (rule runs_intros, (rule decodes_intros; simp?)+, simp)+ (rule runs_intros)
  moreover have "zeroCommandPath\<lparr>cp_Endpoint := cp_Endpoint p, cp_Cluster := cp_Cluster p, cp_Command := cp_Command p\<rparr> = p"
    by (cases p) (simp add: zeroCommandPath_def)
  ultimately show ?thesis
    unfolding decodePath_def cpath_elem_def
    by (intro decodes_typ decodes_checked decodes_each_member) (simp_all add: assms)
qed

lemma decodes_decodeAttrPath [decodes_intros]:
  assumes "d < maxDepth"
  shows "decodes decodeAttrPath d (apath_elem t p) p"
proof -
  have "runs decodeAttrPathBody (Suc d)
     [ctx_uint 2 (ucast (ap_Endpoint p)), ctx_uint 3 (ucast (ap_Cluster p)),
      ctx_uint 4 (ucast (ap_Attribute p))] zeroAttributePath
     (zeroAttributePath\<lparr>ap_Endpoint := ap_Endpoint p, ap_Cluster := ap_Cluster p,
        ap_Attribute := ap_Attribute p\<rparr>)"
    unfolding decodeAttrPathBody_def
    by (rule runs_intros, (rule decodes_intros; simp?)+, simp)+ (rule runs_intros)
  moreover have "zeroAttributePath\<lparr>ap_Endpoint := ap_Endpoint p, ap_Cluster := ap_Cluster p, ap_Attribute := ap_Attribute p\<rparr> = p"
    by (cases p) (simp add: zeroAttributePath_def)
  ultimately show ?thesis
    unfolding decodeAttrPath_def apath_elem_def
    by (intro decodes_typ decodes_checked decodes_each_member) (simp_all add: assms)
qed

text \<open>The writer state after writing a member of a type that is transcoded.\<close>

lemma decodes_flatBody:
  assumes "flat_elem e"
  shows "decodes (flatBody (WS b k)) d e (WS (b @ enc e) k)"
proof (cases e)
  case (Prim t p)
  with assms have "tag_ok t" by (simp add: tag_canon_ok)
  note w = writer_WS [OF this]
  have "flatBody (WS b k) r = dec_return (WS (b @ enc e) k) r" if "cur r e bs d" for r bs
    using that assms Prim w cur_tag [OF that] cur_type [OF that]
    by (cases p) (auto simp: flatBody_def Let_def cur_get)
  then show ?thesis
    by (auto simp: decodes_def dec_return_def cur_at)
qed (use assms in simp)

lemma flat_elem_wf: "flat_elem e \<Longrightarrow> wf_elem n e"
  by (cases e) auto

lemma runs_flatBody:
  "list_all flat_elem fs \<Longrightarrow> runs flatBody d fs (WS b k) (WS (b @ encs fs) k)"
proof (induction fs arbitrary: b)
  case (Cons e fs)
  have "runs flatBody d fs (WS (b @ enc e) k) (WS ((b @ enc e) @ encs fs) k)"
    by (rule Cons.IH) (use Cons.prems in simp)
  with Cons.prems decodes_flatBody [of e b k d] flat_elem_wf [of e] show ?case
    by (auto intro: runs.Cons)
qed (simp add: runs.Nil)

lemma dec_bytes_WS [simp]: "dec_bytes (WS b 0) r = Some (Inr (b, r))"
  by (simp add: dec_bytes_def)

lemma decodes_transcodeFlatStruct [decodes_intros]:
  assumes "list_all flat_elem fs" "d < maxDepth"
  shows "decodes transcodeFlatStruct d (Cont t k fs) (encs fs)"
proof -
  have "runs flatBody (Suc d) fs NewWriter (WS (encs fs) 0)"
    using runs_flatBody [OF assms(1), of "Suc d" "[]" 0] by (simp add: NewWriter_WS)
  from decodes_checked [OF decodes_each_member [OF this assms(2)]] show ?thesis
    unfolding transcodeFlatStruct_def by (rule decodes_bind) simp
qed

lemma encodeCommandData_WS:
  assumes "tag_ok t" "flat_fields fs (ic_Fields c)"
  shows "encodeCommandData t c (WS b d) = WS (b @ enc (cmd_elem fs t c)) d"
  using assms
  by (auto simp: encodeCommandData_def cmd_elem_def Let_def writer_WS flat_fields_def
      nil_if_empty_def split: option.splits)

lemma wf_cmd_elem:
  assumes "tag_canon t" "flat_fields fs (ic_Fields c)"
  shows "wf_elem (Suc (Suc n)) (cmd_elem fs t c)"
  using assms flat_elem_wf
  by (auto simp: cmd_elem_def flat_fields_def list_all_iff split: option.splits)

lemma decodes_decodeCommandData [decodes_intros]:
  assumes "flat_fields fs (ic_Fields c)" "Suc d < maxDepth"
  shows "decodes decodeCommandData d (cmd_elem fs t c) c"
proof -
  let ?es = "case ic_Fields c of None \<Rightarrow> [] | Some _ \<Rightarrow> [Cont (Context 1) CStructure fs]"
  let ?c0 = "zeroInvokeCommand\<lparr>ic_Path := ic_Path c\<rparr>"
  have fs: "list_all flat_elem fs" using assms by (simp add: flat_fields_def)
  have wf: "wf_elem maxDepth (Cont (Context 1) CStructure fs)"
    using fs flat_elem_wf by (auto simp: numeral_eq_Suc list_all_iff)
  have wfp: "wf_elem maxDepth (cpath_elem (Context 0) (ic_Path c))"
    using wf_path_elem(1) [of "Context 0" 31] by (simp add: numeral_eq_Suc)
  have "runs decodeCommandDataBody (Suc d) ?es ?c0 c"
  proof (cases "ic_Fields c")
    case None
    then have "?c0 = c" by (cases c) (simp add: zeroInvokeCommand_def)
    with None show ?thesis by (simp add: runs.Nil)
  next
    case (Some f)
    then have f: "nil_if_empty (encs fs) = Some f" using assms by (simp add: flat_fields_def)
    have "decodes (decodeCommandDataBody ?c0) (Suc d) (Cont (Context 1) CStructure fs)
        (?c0\<lparr>ic_Fields := nil_if_empty (encs fs)\<rparr>)"
      unfolding decodeCommandDataBody_def
      by (rule decodes_intros; simp?)+ (use fs assms in auto)
    moreover have "?c0\<lparr>ic_Fields := nil_if_empty (encs fs)\<rparr> = c"
      using f Some by (cases c) simp
    ultimately show ?thesis using Some wf by (auto intro: runs_intros)
  qed
  moreover have "decodes (decodeCommandDataBody zeroInvokeCommand) (Suc d)
      (cpath_elem (Context 0) (ic_Path c)) ?c0"
    unfolding decodeCommandDataBody_def
    by (rule decodes_intros; simp?)+ (use assms in auto)
  ultimately have "runs decodeCommandDataBody (Suc d)
      (cpath_elem (Context 0) (ic_Path c) # ?es) zeroInvokeCommand c"
    using wfp by (rule_tac runs.Cons)
  then show ?thesis
    unfolding decodeCommandData_def cmd_elem_def
    by (rule decodes_each_member) (use assms in simp)
qed

section \<open>Copying an element\<close>

fun retag :: "tag \<Rightarrow> elem \<Rightarrow> elem" where
  "retag t (Prim t' p) = Prim t p"
| "retag t (Cont t' k es) = Cont t k es"

text \<open>A single-precision float is copied as a double, so only elements without one are kept.\<close>

fun no_float32 :: "elem \<Rightarrow> bool" where
  "no_float32 (Prim t (PFloat32 _)) \<longleftrightarrow> False"
| "no_float32 (Prim t p) \<longleftrightarrow> True"
| "no_float32 (Cont t k es) \<longleftrightarrow> list_all no_float32 es"

lemma retag_self [simp]: "retag (elem_tag e) e = e"
  by (cases e) auto

lemma retag_props [simp]:
  "wf_elem n (retag t e) \<longleftrightarrow> (case e of Prim t' p \<Rightarrow> tag_canon t \<and> prim_ok p
     | Cont t' k es \<Rightarrow> (case n of 0 \<Rightarrow> False | Suc m \<Rightarrow> tag_canon t \<and> list_all (wf_elem m) es))"
  by (cases e; cases n) auto

lemma wf_elem_tag: "wf_elem n e \<Longrightarrow> tag_canon (elem_tag e)"
  by (cases e; cases n) auto

lemma decodes_cong:
  assumes "decodes m d e v" "\<And>r bs. cur r e bs d \<Longrightarrow> m' r = m r"
  shows "decodes m' d e v"
  using assms by (auto simp: decodes_def)

lemma decodes_writeElement_fuel:
  assumes "wf_elem h e" "no_float32 e" "tag_ok t" "h < n" "d + h \<le> maxDepth"
  shows "decodes (writeElement_fuel n t (WS b k)) d e (WS (b @ enc (retag t e)) k)"
  using assms
proof (induction h e arbitrary: n t b k d rule: wf_elem.induct)
  case (1 h t' p)
  then obtain m where n: "n = Suc m" by (cases n) auto
  note w = writer_WS [OF 1(3)]
  have "writeElement_fuel n t (WS b k) r = dec_return (WS (b @ enc (retag t (Prim t' p))) k) r"
    if "cur r (Prim t' p) bs d" for r bs
    using that 1 n w cur_type [OF that]
    by (cases p) (auto simp: Let_def cur_get dec_bind_def dec_get_def dec_return_def)
  then show ?case by (auto simp: decodes_def dec_return_def cur_at)
next
  case (3 h t' ck es)
  then obtain m where n: "n = Suc m" by (cases n) auto
  let ?body = "\<lambda>w r'. writeElement_fuel m (r_tag r') w r'"
  have mem: "decodes (?body (WS c (Suc k))) (Suc d) e (WS (c @ enc e) (Suc k))"
    if "e \<in> set es" for e c
  proof (rule decodes_cong)
    have "tag_ok (elem_tag e)"
      using 3 that wf_elem_tag by (auto simp: list_all_iff intro!: tag_canon_ok)
    then have "decodes (writeElement_fuel m (elem_tag e) (WS c (Suc k))) (Suc d) e
        (WS (c @ enc (retag (elem_tag e) e)) (Suc k))"
      by (intro "3.IH") (use "3.prems" that n in \<open>auto simp: list_all_iff\<close>)
    then show "decodes (writeElement_fuel m (elem_tag e) (WS c (Suc k))) (Suc d) e
        (WS (c @ enc e) (Suc k))" by simp
  qed (simp add: cur_tag)
  have wf: "wf_elem maxDepth e" if "e \<in> set es" for e
    using 3 that by (auto simp: list_all_iff intro: wf_elem_mono)
  have run: "runs ?body (Suc d) es (WS c (Suc k)) (WS (c @ encs es) (Suc k))" for c
    using mem wf
  proof (induction es arbitrary: c)
    case (Cons e es)
    have "runs ?body (Suc d) es (WS (c @ enc e) (Suc k)) (WS ((c @ enc e) @ encs es) (Suc k))"
      by (rule Cons.IH) (use Cons.prems in auto)
    with Cons.prems show ?case by (auto intro!: runs.Cons)
  qed (simp add: runs.Nil)
  let ?open = "b @ enc_ctl t (ckind_et ck)"
  have "decodes (dec_bind (each_member ?body (WS ?open (Suc k)))
      (\<lambda>w'. dec_return (Writer_EndContainer w'))) d (Cont t' ck es)
      (WS (b @ enc (retag t (Cont t' ck es))) k)"
    by (rule decodes_map [OF decodes_each_member [OF run]]) (use 3 in simp_all)
  then show ?case
  proof (rule decodes_cong)
    fix r bs assume "cur r (Cont t' ck es) bs d"
    from cur_type [OF this] show "writeElement_fuel n t (WS b k) r =
      dec_bind (each_member ?body (WS ?open (Suc k))) (\<lambda>w'. dec_return (Writer_EndContainer w')) r"
      using writer_WS [OF "3.prems"(3)] n by (cases ck) (simp_all add: Let_def)
  qed
qed simp

text \<open>The captured value of an attribute is the element itself, made anonymous.\<close>

lemma decodes_captureAnon [decodes_intros]:
  assumes "wf_elem h e" "no_float32 e" "d + h \<le> maxDepth"
  shows "decodes captureAnon d e (enc (retag Anonymous e))"
proof -
  have "decodes (writeElement_fuel (Suc maxDepth) Anonymous (WS [] 0)) d e
      (WS ([] @ enc (retag Anonymous e)) 0)"
    by (rule decodes_writeElement_fuel [OF assms(1,2)]) (use assms(3) in simp_all)
  then show ?thesis
    unfolding captureAnon_def writeElement_def NewWriter_WS by (rule decodes_bind) simp
qed

section \<open>Lists of parts\<close>

lemma fold_encode_WS:
  assumes "\<And>x b d. x \<in> set xs \<Longrightarrow> f x (WS b d) = WS (b @ enc (el x)) d"
  shows "fold f xs (WS b d) = WS (b @ encs (map el xs)) d"
  using assms by (induction xs arbitrary: b) auto

lemma decodes_appendBody:
  "decodes m d e x \<Longrightarrow> decodes (appendBody m xs) d e (xs @ [x])"
  unfolding appendBody_def by (rule decodes_map) simp_all

lemma fold_snoc: "fold (\<lambda>x ys. ys @ [x]) xs ys = ys @ xs"
  by (induction xs arbitrary: ys) auto

lemma runs_appendBody:
  assumes "\<And>x. x \<in> set xs \<Longrightarrow> decodes m d (el x) x \<and> wf_elem maxDepth (el x)"
  shows "runs (appendBody m) d (map el xs) ys (ys @ xs)"
  using runs_map [of xs "appendBody m" d el "\<lambda>x ys. ys @ [x]" ys] assms decodes_appendBody
  by (fastforce simp: fold_snoc)

lemma decodes_each_append:
  assumes "\<And>x. x \<in> set xs \<Longrightarrow> decodes m (Suc d) (el x) x \<and> wf_elem maxDepth (el x)"
    and "d < maxDepth" "zs = ys @ xs"
  shows "decodes (each_member (appendBody m) ys) d (Cont t k (map el xs)) zs"
  unfolding assms(3) by (rule decodes_each_member [OF runs_appendBody [OF assms(1)] assms(2)])

lemma wf_array:
  "(\<And>x. x \<in> set xs \<Longrightarrow> wf_elem n (el x)) \<Longrightarrow> tag_canon t \<Longrightarrow>
     wf_elem (Suc n) (Cont t k (map el xs))"
  by (auto simp: list_all_iff)

lemma maxDepth_Suc: "maxDepth = Suc (Suc (Suc (Suc (Suc (Suc (Suc 25))))))"
  by simp

section \<open>Invoke requests\<close>

definition invoke_request_elem ::
    "(InvokeCommand \<Rightarrow> elem list) \<Rightarrow> InvokeCommand list \<Rightarrow> bool \<Rightarrow> bool \<Rightarrow> elem" where
  "invoke_request_elem g cs s t = Cont Anonymous CStructure
     [Prim (Context 0) (PBool s), Prim (Context 1) (PBool t),
      Cont (Context 2) CArray (map (\<lambda>c. cmd_elem (g c) Anonymous c) cs),
      ctx_uint 255 InteractionModelRevision]"

text \<open>The rewriting that runs an encoder.\<close>

lemmas encode_rules = NewWriter_WS Let_def writer_WS tag_ok_simps writer_close_WS

lemma EncodeInvokeRequest_elem:
  assumes "\<And>c. c \<in> set cs \<Longrightarrow> flat_fields (g c) (ic_Fields c)"
  shows "EncodeInvokeRequest cs s t = Inr (enc (invoke_request_elem g cs s t))"
proof -
  have f: "fold (encodeCommandData Anonymous) cs (WS b d)
      = WS (b @ encs (map (\<lambda>c. cmd_elem (g c) Anonymous c) cs)) d" for b d
    by (rule fold_encode_WS) (use assms in \<open>simp add: encodeCommandData_WS\<close>)
  show ?thesis
    by (simp only: EncodeInvokeRequest_def encode_rules f) (simp add: invoke_request_elem_def)
qed

lemma wf_cmds:
  assumes "\<And>c. c \<in> set cs \<Longrightarrow> flat_fields (g c) (ic_Fields c)" "tag_canon t"
  shows "wf_elem (Suc (Suc (Suc n))) (Cont t k (map (\<lambda>c. cmd_elem (g c) Anonymous c) cs))"
  using assms by (auto simp: list_all_iff intro!: wf_cmd_elem)

lemma decodes_invoke_request:
  assumes "\<And>c. c \<in> set cs \<Longrightarrow> flat_fields (g c) (ic_Fields c)"
  shows "decodes (each_member DecodeInvokeRequestBody ([], False, False)) 0
     (invoke_request_elem g cs s t) (cs, s, t)"
  unfolding invoke_request_elem_def
proof (rule decodes_each_member)
  let ?el = "\<lambda>c. cmd_elem (g c) Anonymous c"
  let ?arr = "Cont (Context 2) CArray (map ?el cs)"
  have wf: "wf_elem maxDepth ?arr"
    unfolding maxDepth_Suc by (rule wf_cmds) (use assms in simp_all)
  have c: "decodes decodeCommandData (Suc (Suc 0)) (?el c) c \<and> wf_elem maxDepth (?el c)"
    if "c \<in> set cs" for c
    unfolding maxDepth_Suc
    by (intro conjI decodes_decodeCommandData wf_cmd_elem assms that) simp_all
  have cmds: "decodes (each_member (appendBody decodeCommandData) []) (Suc 0) ?arr cs"
    by (rule decodes_each_append [OF c]) simp_all
  show "runs DecodeInvokeRequestBody (Suc 0)
     [Prim (Context 0) (PBool s), Prim (Context 1) (PBool t), ?arr,
      ctx_uint 255 InteractionModelRevision] ([], False, False) (cs, s, t)"
    unfolding DecodeInvokeRequestBody_def
    by (rule runs_intros, simp only: prod.case, (rule cmds decodes_intros; simp?)+, simp add: wf)+
      (rule runs_intros)
qed simp

section \<open>Invoke responses\<close>

definition status_elem :: "tag \<Rightarrow> u8 \<Rightarrow> elem" where
  "status_elem t st = Cont t CStructure [ctx_uint 0 (ucast st)]"

definition command_status_elem :: "tag \<Rightarrow> CommandStatus \<Rightarrow> elem" where
  "command_status_elem t cs = Cont t CStructure
     [cpath_elem (Context 0) (cs_Path cs), status_elem (Context 1) (cs_Status cs)]"

text \<open>Exactly one of the two parts is present, as the comment on \<^verbatim>\<open>InvokeResult\<close> asks.\<close>

definition result_ok :: "(InvokeCommand \<Rightarrow> elem list) \<Rightarrow> InvokeResult \<Rightarrow> bool" where
  "result_ok g res \<longleftrightarrow>
     (case (ir_Command res, ir_Status res) of
        (Some c, None) \<Rightarrow> flat_fields (g c) (ic_Fields c)
      | (None, Some _) \<Rightarrow> True
      | _ \<Rightarrow> False)"

definition result_elem :: "(InvokeCommand \<Rightarrow> elem list) \<Rightarrow> InvokeResult \<Rightarrow> elem" where
  "result_elem g res = Cont Anonymous CStructure
     (case (ir_Command res, ir_Status res) of
        (Some c, _) \<Rightarrow> [cmd_elem (g c) (Context 0) c]
      | (None, Some st) \<Rightarrow> [command_status_elem (Context 1) st]
      | (None, None) \<Rightarrow> [])"

lemma elem_tag_status [simp]:
  "elem_tag (status_elem t st) = t" "elem_tag (command_status_elem t cs) = t"
  by (simp_all add: status_elem_def command_status_elem_def)

lemma wf_status_elem [simp]:
  "tag_canon t \<Longrightarrow> wf_elem (Suc n) (status_elem t st)"
  "tag_canon t \<Longrightarrow> wf_elem (Suc (Suc n)) (command_status_elem t cs)"
  by (simp_all add: status_elem_def command_status_elem_def)

lemma wf_max [simp]:
  assumes "tag_canon t"
  shows "wf_elem maxDepth (cpath_elem t p)" "wf_elem maxDepth (apath_elem t q)"
    "wf_elem maxDepth (status_elem t st)" "wf_elem maxDepth (command_status_elem t cs)"
    "flat_fields fs (ic_Fields c) \<Longrightarrow> wf_elem maxDepth (cmd_elem fs t c)"
  using assms by (simp_all only: maxDepth_Suc wf_path_elem wf_status_elem wf_cmd_elem)

lemma wf_result_elem: "result_ok g res \<Longrightarrow> wf_elem (Suc (Suc (Suc n))) (result_elem g res)"
  by (auto simp: result_ok_def result_elem_def wf_cmd_elem split: option.splits)

lemma encodeInvokeResult_WS:
  assumes "result_ok g res"
  shows "encodeInvokeResult res (WS b d) = Some (WS (b @ enc (result_elem g res)) d)"
proof (cases "ir_Command res")
  case None
  with assms obtain st where st: "ir_Status res = Some st" by (auto simp: result_ok_def split: option.splits)
  show ?thesis
    by (simp only: encodeInvokeResult_def None st encode_rules encodePath_WS prod.case option.case)
      (simp add: result_elem_def None st command_status_elem_def status_elem_def)
next
  case (Some c)
  with assms have "flat_fields (g c) (ic_Fields c)" "ir_Status res = None"
    by (auto simp: result_ok_def split: option.splits)
  note cd = encodeCommandData_WS [OF tag_ok_simps(2) this(1)]
  show ?thesis
    by (simp only: encodeInvokeResult_def Some encode_rules cd prod.case option.case)
      (simp add: result_elem_def Some)
qed

lemma encodeInvokeResults_WS:
  "list_all (result_ok g) rs \<Longrightarrow>
     encodeInvokeResults rs (WS b d) = Some (WS (b @ encs (map (result_elem g) rs)) d)"
  by (induction rs arbitrary: b) (auto simp: encodeInvokeResult_WS)

definition invoke_response_elem ::
    "(InvokeCommand \<Rightarrow> elem list) \<Rightarrow> InvokeResult list \<Rightarrow> bool \<Rightarrow> elem" where
  "invoke_response_elem g rs s = Cont Anonymous CStructure
     [Prim (Context 0) (PBool s), Cont (Context 1) CArray (map (result_elem g) rs),
      ctx_uint 255 InteractionModelRevision]"

lemma EncodeInvokeResponse_elem:
  assumes "list_all (result_ok g) rs"
  shows "EncodeInvokeResponse rs s = Inr (enc (invoke_response_elem g rs s))"
  by (simp only: EncodeInvokeResponse_def encode_rules encodeInvokeResults_WS [OF assms] option.case
      map_sum.simps id_apply)
    (simp add: invoke_response_elem_def)

lemma decodes_decodeStatusIB [decodes_intros]:
  assumes "d < maxDepth"
  shows "decodes (decodeStatusIB st0) d (status_elem t st) st"
  unfolding status_elem_def decodeStatusIB_def
proof (rule decodes_each_member [OF _ assms])
  show "runs (\<lambda>st r. if Num (r_tag r) = 0 then
            dec_bind (dec_get Reader_Uint) (\<lambda>v. dec_return (ucast v)) r
          else dec_return st r) (Suc d) [ctx_uint 0 (ucast st)] st0 st"
    by (rule runs.Cons, (rule decodes_intros; simp?)+, simp, rule runs.Nil)
qed

lemma decodes_decodeCommandStatus [decodes_intros]:
  assumes "Suc d < maxDepth"
  shows "decodes decodeCommandStatus d (command_status_elem t cs) cs"
  unfolding command_status_elem_def decodeCommandStatus_def
proof (rule decodes_each_member)
  have "runs decodeCommandStatusBody (Suc d)
     [cpath_elem (Context 0) (cs_Path cs), status_elem (Context 1) (cs_Status cs)] zeroCommandStatus
     (zeroCommandStatus\<lparr>cs_Path := cs_Path cs, cs_Status := cs_Status cs\<rparr>)"
    unfolding decodeCommandStatusBody_def
    by (rule runs_intros, (rule refl decodes_intros; (simp add: assms [simplified])?)+, simp)+ (rule runs_intros)
  moreover have "zeroCommandStatus\<lparr>cs_Path := cs_Path cs, cs_Status := cs_Status cs\<rparr> = cs"
    by (cases cs) (simp add: zeroCommandStatus_def)
  ultimately show "runs decodeCommandStatusBody (Suc d)
     [cpath_elem (Context 0) (cs_Path cs), status_elem (Context 1) (cs_Status cs)]
     zeroCommandStatus cs" by simp
qed (use assms in simp)

lemma decodes_decodeResponseIB:
  assumes "result_ok g res" "Suc (Suc d) < maxDepth"
  shows "decodes decodeResponseIB d (result_elem g res) res"
  unfolding result_elem_def decodeResponseIB_def
proof (rule decodes_each_member)
  let ?es = "case (ir_Command res, ir_Status res) of
      (Some c, _) \<Rightarrow> [cmd_elem (g c) (Context 0) c]
    | (None, Some st) \<Rightarrow> [command_status_elem (Context 1) st]
    | (None, None) \<Rightarrow> []"
  show "runs decodeResponseIBBody (Suc d) ?es zeroInvokeResult res"
  proof (cases "ir_Command res")
    case None
    with assms obtain st where st: "ir_Status res = Some st" by (auto simp: result_ok_def split: option.splits)
    have "runs decodeResponseIBBody (Suc d) [command_status_elem (Context 1) st] zeroInvokeResult
       (zeroInvokeResult\<lparr>ir_Status := Some st\<rparr>)"
      unfolding decodeResponseIBBody_def
      by (rule runs_intros, (rule refl decodes_intros; (simp add: assms(2) [simplified])?)+, simp)
        (rule runs_intros)
    moreover have "zeroInvokeResult\<lparr>ir_Status := Some st\<rparr> = res"
      using None st by (cases res) (simp add: zeroInvokeResult_def)
    ultimately show ?thesis using None st by simp
  next
    case (Some c)
    with assms have f: "flat_fields (g c) (ic_Fields c)" and n: "ir_Status res = None"
      by (auto simp: result_ok_def split: option.splits)
    have "runs decodeResponseIBBody (Suc d) [cmd_elem (g c) (Context 0) c] zeroInvokeResult
       (zeroInvokeResult\<lparr>ir_Command := Some c\<rparr>)"
      unfolding decodeResponseIBBody_def
      by (rule runs_intros, (rule refl f decodes_intros; (simp add: assms(2) [simplified])?)+, simp add: f)
        (rule runs_intros)
    moreover have "zeroInvokeResult\<lparr>ir_Command := Some c\<rparr> = res"
      using Some n by (cases res) (simp add: zeroInvokeResult_def)
    ultimately show ?thesis using Some by simp
  qed
qed (use assms in simp)

lemma decodes_invoke_response:
  assumes "list_all (result_ok g) rs"
  shows "decodes (each_member (\<lambda>results r.
       if Num (r_tag r) = 1 then each_member (appendBody decodeResponseIB) results r
       else dec_return results r) []) 0 (invoke_response_elem g rs s) rs"
  unfolding invoke_response_elem_def
proof (rule decodes_each_member)
  let ?arr = "Cont (Context 1) CArray (map (result_elem g) rs)"
  have wf: "wf_elem maxDepth ?arr"
    unfolding maxDepth_Suc
    by (intro wf_array wf_result_elem) (use assms in \<open>auto simp: list_all_iff\<close>)
  have r: "decodes decodeResponseIB (Suc (Suc 0)) (result_elem g res) res
      \<and> wf_elem maxDepth (result_elem g res)" if "res \<in> set rs" for res
    unfolding maxDepth_Suc using assms that
    by (intro conjI decodes_decodeResponseIB wf_result_elem) (auto simp: list_all_iff)
  have arr: "decodes (each_member (appendBody decodeResponseIB) []) (Suc 0) ?arr rs"
    by (rule decodes_each_append [OF r]) simp_all
  show "runs (\<lambda>results r.
       if Num (r_tag r) = 1 then each_member (appendBody decodeResponseIB) results r
       else dec_return results r) (Suc 0)
     [Prim (Context 0) (PBool s), ?arr, ctx_uint 255 InteractionModelRevision] [] rs"
    by (rule runs_intros, (rule arr decodes_intros; simp?)+, simp add: wf)+ (rule runs_intros)
qed simp

section \<open>Short messages\<close>

definition status_response_elem :: "u8 \<Rightarrow> elem" where
  "status_response_elem st = Cont Anonymous CStructure
     [ctx_uint 0 (ucast st), ctx_uint 255 InteractionModelRevision]"

definition subscribe_response_elem :: "u32 \<Rightarrow> u16 \<Rightarrow> elem" where
  "subscribe_response_elem i m = Cont Anonymous CStructure
     [ctx_uint 0 (ucast i), ctx_uint 2 (ucast m), ctx_uint 255 InteractionModelRevision]"

definition read_request_elem :: "AttributePath list \<Rightarrow> bool \<Rightarrow> elem" where
  "read_request_elem ps f = Cont Anonymous CStructure
     [Cont (Context 0) CArray (map (apath_elem Anonymous) ps), Prim (Context 3) (PBool f),
      ctx_uint 255 InteractionModelRevision]"

lemma EncodeStatusResponse_elem: "EncodeStatusResponse st = Inr (enc (status_response_elem st))"
  by (simp only: EncodeStatusResponse_def encode_rules) (simp add: status_response_elem_def)

lemma EncodeSubscribeResponse_elem:
  "EncodeSubscribeResponse i m = Inr (enc (subscribe_response_elem i m))"
  by (simp only: EncodeSubscribeResponse_def encode_rules) (simp add: subscribe_response_elem_def)

lemma EncodeReadRequest_elem: "EncodeReadRequest ps f = Inr (enc (read_request_elem ps f))"
proof -
  have e: "fold (encodeAttrPath Anonymous) ps (WS b d) = WS (b @ encs (map (apath_elem Anonymous) ps)) d" for b d
    by (rule fold_encode_WS) simp
  show ?thesis
    by (simp only: EncodeReadRequest_def encode_rules e) (simp add: read_request_elem_def)
qed

lemma decodes_status_response:
  "decodes (each_member (\<lambda>status r.
       if Num (r_tag r) = 0 then dec_bind (dec_get Reader_Uint) (\<lambda>v. dec_return (ucast v)) r
       else dec_return status r) 0) 0 (status_response_elem st) st"
  unfolding status_response_elem_def
  by (rule decodes_each_member, (rule runs_intros, (rule decodes_intros; simp?)+, simp)+)
    (rule runs_intros, simp)

lemma decodes_subscribe_response:
  "decodes (each_member (\<lambda>(subscriptionID, maxIntervalSec).
       dec_bind (dec_get Reader_Uint) (\<lambda>v r.
         if Num (r_tag r) = 0 then dec_return (ucast v, maxIntervalSec) r
         else if Num (r_tag r) = 2 then dec_return (subscriptionID, ucast v) r
         else dec_return (subscriptionID, maxIntervalSec) r)) (0, 0)) 0
     (subscribe_response_elem i m) (i, m)"
  unfolding subscribe_response_elem_def
  by (rule decodes_each_member,
      (rule runs_intros, simp only: prod.case, (rule decodes_intros; simp?)+, simp)+)
    (rule runs_intros, simp)

lemma decodes_read_request:
  "decodes (each_member (\<lambda>(paths, fabricFiltered) r.
       if Num (r_tag r) = 0 then
         dec_bind (each_member (appendBody decodeAttrPath) paths) (\<lambda>ps. dec_return (ps, fabricFiltered)) r
       else if Num (r_tag r) = 3 then
         dec_bind (dec_get Reader_Bool) (\<lambda>b. dec_return (paths, b)) r
       else dec_return (paths, fabricFiltered) r) ([], False)) 0 (read_request_elem ps f) (ps, f)"
  unfolding read_request_elem_def
proof (rule decodes_each_member)
  let ?arr = "Cont (Context 0) CArray (map (apath_elem Anonymous) ps)"
  have wf: "wf_elem maxDepth ?arr"
    unfolding maxDepth_Suc by (intro wf_array wf_path_elem) simp_all
  have arr: "decodes (each_member (appendBody decodeAttrPath) []) (Suc 0) ?arr ps"
    by (rule decodes_each_append) (simp_all add: decodes_decodeAttrPath)
  show "runs (\<lambda>(paths, fabricFiltered) r.
       if Num (r_tag r) = 0 then
         dec_bind (each_member (appendBody decodeAttrPath) paths) (\<lambda>ps. dec_return (ps, fabricFiltered)) r
       else if Num (r_tag r) = 3 then
         dec_bind (dec_get Reader_Bool) (\<lambda>b. dec_return (paths, b)) r
       else dec_return (paths, fabricFiltered) r) (Suc 0)
     [?arr, Prim (Context 3) (PBool f), ctx_uint 255 InteractionModelRevision] ([], False) (ps, f)"
    by (rule runs_intros, simp only: prod.case, (rule arr decodes_intros; simp?)+, simp add: wf)+
      (rule runs_intros)
qed simp

section \<open>Reports\<close>

text \<open>
  The value of a data report is one anonymous element without single-precision floats, nested
  at most 28 deep: the message puts it inside four containers.
\<close>

definition report_ok :: "(AttributeReport \<Rightarrow> elem) \<Rightarrow> AttributeReport \<Rightarrow> bool" where
  "report_ok g rep \<longleftrightarrow>
     (case rep_Status rep of
        Some _ \<Rightarrow> rep_DataVersion rep = 0 \<and> rep_Data rep = []
      | None \<Rightarrow> rep_Data rep = enc (g rep) \<and> wf_elem 28 (g rep) \<and> no_float32 (g rep)
          \<and> elem_tag (g rep) = Anonymous)"

definition report_part :: "(AttributeReport \<Rightarrow> elem) \<Rightarrow> AttributeReport \<Rightarrow> elem" where
  "report_part g rep =
     (case rep_Status rep of
        Some st \<Rightarrow> Cont (Context 0) CStructure
          [apath_elem (Context 0) (rep_Path rep), status_elem (Context 1) st]
      | None \<Rightarrow> Cont (Context 1) CStructure
          [ctx_uint 0 (ucast (rep_DataVersion rep)), apath_elem (Context 1) (rep_Path rep),
           retag (Context 2) (g rep)])"

definition report_elem :: "(AttributeReport \<Rightarrow> elem) \<Rightarrow> AttributeReport \<Rightarrow> elem" where
  "report_elem g rep = Cont Anonymous CStructure [report_part g rep]"

lemma retag_facts [simp]:
  "elem_tag (retag t e) = t" "retag t (retag t' e) = retag t e" "no_float32 (retag t e) = no_float32 e"
  by (cases e; simp; rename_tac p; case_tac p; simp)+

lemma wf_elem_numeral [simp]:
  "wf_elem (numeral m) (Cont t k es) \<longleftrightarrow> tag_canon t \<and> list_all (wf_elem (pred_numeral m)) es"
  by (simp add: numeral_eq_Suc)

lemma wf_retag: "wf_elem n e \<Longrightarrow> tag_canon t \<Longrightarrow> wf_elem n (retag t e)"
  by (cases e; cases n) auto

lemma wf_report_elem:
  assumes "report_ok g rep"
  shows "wf_elem 30 (report_elem g rep)"
proof -
  have n: "(28 :: nat) = Suc 27" by simp
  have "wf_elem 28 (apath_elem (Context k) p)" "wf_elem 28 (status_elem (Context k) st)" for k p st
    unfolding n by (simp_all only: wf_path_elem wf_status_elem tag_canon_simps)
  then show ?thesis
    using assms
    by (auto simp: report_elem_def report_part_def report_ok_def wf_retag simp del: retag_props
        split: option.splits)
qed

lemma encodeReport_WS:
  assumes "report_ok g rep"
  shows "encodeReport rep (WS b d) = Some (Inr (WS (b @ enc (report_elem g rep)) d))"
proof (cases "rep_Status rep")
  case (Some st)
  show ?thesis
    by (simp only: encodeReport_def Some encode_rules encodeAttrPath_WS option.case)
      (simp add: report_elem_def report_part_def Some status_elem_def)
next
  case None
  with assms have g: "rep_Data rep = enc (g rep)" "wf_elem 28 (g rep)" "no_float32 (g rep)"
    by (simp_all add: report_ok_def)
  have "r_at (NewReader (rep_Data rep)) (enc (g rep) @ []) 0"
    using NewReader_at g(1) by simp
  from Next_elem [OF this wf_elem_mono [OF g(2)]] obtain dr where
    dr: "Reader_Next (NewReader (rep_Data rep)) = (True, dr)" "cur dr (g rep) [] 0" by auto
  have "decodes (writeElement_fuel (Suc maxDepth) (Context 2) (WS c k)) 0 (g rep)
      (WS (c @ enc (retag (Context 2) (g rep))) k)" for c k
    by (rule decodes_writeElement_fuel [OF g(2,3)]) simp_all
  with dr(2) have w: "\<exists>r'. writeElement (Context 2) (WS c k) dr
      = Some (Inr (WS (c @ enc (retag (Context 2) (g rep))) k, r'))" for c k
    unfolding writeElement_def decodes_def by blast
  let ?c = "((b @ enc_ctl Anonymous (ckind_et CStructure)) @ enc_ctl (Context 1) (ckind_et CStructure))
      @ enc (ctx_uint 0 (ucast (rep_DataVersion rep)))"
  obtain r' where "writeElement (Context 2)
      (WS (?c @ enc (apath_elem (Context 1) (rep_Path rep))) (Suc (Suc d))) dr
    = Some (Inr (WS ((?c @ enc (apath_elem (Context 1) (rep_Path rep)))
        @ enc (retag (Context 2) (g rep))) (Suc (Suc d)), r'))"
    using w by blast
  note w1 = this
  show ?thesis
    by (simp only: encodeReport_def None encode_rules encodeAttrPath_WS option.case dr(1) prod.case
        bool.case w1 sum.case)
      (simp add: report_elem_def report_part_def None)
qed

lemma encodeReports_WS:
  "list_all (report_ok g) rs \<Longrightarrow>
     encodeReports rs (WS b d) = Some (Inr (WS (b @ encs (map (report_elem g) rs)) d))"
  by (induction rs arbitrary: b) (auto simp: encodeReport_WS)

lemma decodes_decodeAttrReportIB:
  assumes ok: "report_ok g rep"
  shows "decodes decodeAttrReportIB 2 (report_elem g rep) rep"
  unfolding report_elem_def decodeAttrReportIB_def
proof (rule decodes_each_member)
  let ?z = "zeroAttributeReport\<lparr>rep_Path := rep_Path rep\<rparr>"
  have "decodes (decodeAttrReportIBBody zeroAttributeReport) 3 (report_part g rep) rep"
  proof (cases "rep_Status rep")
    case (Some st)
    let ?es = "[apath_elem (Context 0) (rep_Path rep), status_elem (Context 1) st]"
    have "decodes (each_member (\<lambda>rep r. if Num (r_tag r) = 0
            then dec_bind (dec_get Reader_Uint) (\<lambda>v. dec_return (rep\<lparr>rep_Status := Some (ucast v)\<rparr>)) r
            else dec_return rep r) ?z) 4 (status_elem (Context 1) st) (?z\<lparr>rep_Status := Some st\<rparr>)"
      unfolding status_elem_def
      by (rule decodes_each_member, rule runs_intros, (rule decodes_intros; simp?)+, simp, rule runs_intros)
        simp
    note st = this
    have "runs decodeAttrStatusBody 4 ?es zeroAttributeReport (?z\<lparr>rep_Status := Some st\<rparr>)"
      unfolding decodeAttrStatusBody_def
      by (rule runs_intros, (rule refl st decodes_intros; simp?)+, simp)+ (rule runs_intros)
    moreover have "?z\<lparr>rep_Status := Some st\<rparr> = rep"
      using ok Some by (cases rep) (simp add: zeroAttributeReport_def report_ok_def)
    ultimately have "decodes (each_member decodeAttrStatusBody zeroAttributeReport) 3
        (Cont (Context 0) CStructure ?es) rep"
      by (intro decodes_each_member) simp_all
    then show ?thesis
      unfolding decodeAttrReportIBBody_def report_part_def Some option.case
      by (intro decodes_tag) simp_all
  next
    case None
    with ok have g: "rep_Data rep = enc (g rep)" "wf_elem 28 (g rep)" "no_float32 (g rep)"
      "elem_tag (g rep) = Anonymous"
      by (simp_all add: report_ok_def)
    let ?e = "retag (Context 2) (g rep)"
    let ?es = "[ctx_uint 0 (ucast (rep_DataVersion rep)), apath_elem (Context 1) (rep_Path rep), ?e]"
    have wf: "wf_elem 28 ?e" using g by (intro wf_retag) simp_all
    have "retag Anonymous (g rep) = g rep" using retag_self [of "g rep"] g(4) by simp
    then have cap: "decodes captureAnon 4 ?e (rep_Data rep)"
      using decodes_captureAnon [OF wf, of 4] g by simp
    have wfm: "wf_elem maxDepth ?e" by (rule wf_elem_mono [OF wf]) simp
    have "runs decodeAttrDataBody 4 ?es zeroAttributeReport
      (zeroAttributeReport\<lparr>rep_DataVersion := rep_DataVersion rep, rep_Path := rep_Path rep,
         rep_Data := rep_Data rep\<rparr>)"
      unfolding decodeAttrDataBody_def
      by (rule runs_intros, (rule refl cap decodes_intros; simp?)+, simp add: wfm del: retag_props)+
        (rule runs_intros)
    moreover have "zeroAttributeReport\<lparr>rep_DataVersion := rep_DataVersion rep,
        rep_Path := rep_Path rep, rep_Data := rep_Data rep\<rparr> = rep"
      using None by (cases rep) (simp add: zeroAttributeReport_def)
    ultimately have "decodes (each_member decodeAttrDataBody zeroAttributeReport) 3
        (Cont (Context 1) CStructure ?es) rep"
      by (intro decodes_each_member) simp_all
    then show ?thesis
      unfolding decodeAttrReportIBBody_def report_part_def None option.case
      by (intro decodes_tag) simp_all
  qed
  then show "runs decodeAttrReportIBBody (Suc 2) [report_part g rep] zeroAttributeReport rep"
    using wf_report_elem [OF ok] wf_elem_mono [of 29 "report_part g rep" maxDepth]
    by (auto simp: report_elem_def intro!: runs_intros)
qed simp

definition report_data_elem ::
    "(AttributeReport \<Rightarrow> elem) \<Rightarrow> u32 \<Rightarrow> AttributeReport list \<Rightarrow> bool \<Rightarrow> elem" where
  "report_data_elem g i rs s = Cont Anonymous CStructure
     ((if i \<noteq> 0 then [ctx_uint 0 (ucast i)] else [])
      @ [Cont (Context 1) CArray (map (report_elem g) rs)]
      @ (if s then [Prim (Context 4) (PBool True)] else [])
      @ [ctx_uint 255 InteractionModelRevision])"

lemma EncodeReportData_elem:
  assumes "list_all (report_ok g) rs"
  shows "EncodeReportData i rs s = Some (Inr (enc (report_data_elem g i rs s)))"
  by (cases "i = 0"; cases s;
      simp only: EncodeReportData_def encode_rules encodeReports_WS [OF assms] option.case sum.case
        map_sum.simps id_apply if_True if_False simp_thms;
      simp add: report_data_elem_def)

lemma decodes_report_data:
  assumes "list_all (report_ok g) rs"
  shows "decodes (each_member (\<lambda>(subscriptionID, reports) r.
       if Num (r_tag r) = 0 then
         dec_bind (dec_get Reader_Uint) (\<lambda>v. dec_return (ucast v, reports)) r
       else if Num (r_tag r) = 1 then
         dec_bind (each_member (appendBody decodeAttrReportIB) reports)
           (\<lambda>rs. dec_return (subscriptionID, rs)) r
       else dec_return (subscriptionID, reports) r) (0, [])) 0 (report_data_elem g i rs s) (i, rs)"
    (is "decodes (each_member ?body _) _ _ _")
  unfolding report_data_elem_def
proof (rule decodes_each_member)
  let ?arr = "Cont (Context 1) CArray (map (report_elem g) rs)"
  have ok: "report_ok g rep" if "rep \<in> set rs" for rep using assms that by (simp add: list_all_iff)
  have wf: "wf_elem maxDepth ?arr"
    using wf_elem_mono [OF wf_report_elem [OF ok]] by (simp add: list_all_iff)
  have arr: "decodes (each_member (appendBody decodeAttrReportIB) []) (Suc 0) ?arr rs"
    using decodes_decodeAttrReportIB [OF ok] wf_elem_mono [OF wf_report_elem [OF ok], of _ maxDepth]
    by (intro decodes_each_append) (simp_all add: numeral_2_eq_2)
  have i: "runs ?body (Suc 0) (if i \<noteq> 0 then [ctx_uint 0 (ucast i)] else []) (0, []) (i, [])"
  proof (cases "i = 0")
    case False
    have "runs ?body (Suc 0) [ctx_uint 0 (ucast i)] (0, []) (i, [])"
      by (rule runs.Cons, simp only: prod.case, (rule decodes_intros; simp?)+, simp, rule runs.Nil)
    with False show ?thesis by simp
  qed (simp add: runs.Nil)
  have "decodes (dec_bind (each_member (appendBody decodeAttrReportIB) [])
      (\<lambda>rs. dec_return (i, rs))) (Suc 0) ?arr (i, rs)"
    by (rule decodes_map [OF arr refl])
  then have "decodes (?body (i, [])) (Suc 0) ?arr (i, rs)"
    unfolding prod.case by (intro decodes_tag) simp_all
  then have a: "runs ?body (Suc 0) [?arr] (i, []) (i, rs)"
    by (rule runs.Cons [OF _ wf runs.Nil])
  have t: "runs ?body (Suc 0) [Prim (Context 4) (PBool True)] (i, rs) (i, rs)"
      "runs ?body (Suc 0) [ctx_uint 255 InteractionModelRevision] (i, rs) (i, rs)"
    by (rule runs.Cons, simp only: prod.case, (rule decodes_intros; simp?)+, simp, rule runs.Nil)+
  then have "runs ?body (Suc 0) (if s then [Prim (Context 4) (PBool True)] else []) (i, rs) (i, rs)"
    by (simp add: runs.Nil)
  from runs_append [OF i runs_append [OF a runs_append [OF this t(2)]]]
  show "runs ?body (Suc 0) ((if i \<noteq> 0 then [ctx_uint 0 (ucast i)] else []) @ [?arr]
      @ (if s then [Prim (Context 4) (PBool True)] else [])
      @ [ctx_uint 255 InteractionModelRevision]) (0, []) (i, rs)" .
qed simp

section \<open>Well-formedness of the messages\<close>

lemma wf_messages:
  "(\<And>c. c \<in> set cs \<Longrightarrow> flat_fields (h c) (ic_Fields c)) \<Longrightarrow> wf_elem maxDepth (invoke_request_elem h cs b b')"
  "list_all (result_ok h) rs \<Longrightarrow> wf_elem maxDepth (invoke_response_elem h rs b)"
  "wf_elem maxDepth (status_response_elem st)"
  "wf_elem maxDepth (subscribe_response_elem i m)"
  "wf_elem maxDepth (read_request_elem ps b)"
  "list_all (report_ok g) reps \<Longrightarrow> wf_elem maxDepth (report_data_elem g i reps b)"
proof -
  have n: "wf_elem 29 e" if "wf_elem (Suc (Suc 0)) e \<or> wf_elem (Suc (Suc (Suc 0))) e" for e
    using that wf_elem_mono [of _ e 29] by auto
  show "(\<And>c. c \<in> set cs \<Longrightarrow> flat_fields (h c) (ic_Fields c)) \<Longrightarrow>
      wf_elem maxDepth (invoke_request_elem h cs b b')"
    using wf_cmd_elem [of Anonymous _ _ 0]
    by (auto simp: invoke_request_elem_def list_all_iff intro!: wf_elem_mono [of "Suc (Suc 0)" _ 30])
  show "list_all (result_ok h) rs \<Longrightarrow> wf_elem maxDepth (invoke_response_elem h rs b)"
    using wf_result_elem [of h _ 0]
    by (auto simp: invoke_response_elem_def list_all_iff
        intro!: wf_elem_mono [of "Suc (Suc (Suc 0))" _ 30])
  show "wf_elem maxDepth (status_response_elem st)" "wf_elem maxDepth (subscribe_response_elem i m)"
    by (simp_all add: status_response_elem_def subscribe_response_elem_def)
  show "wf_elem maxDepth (read_request_elem ps b)"
    using wf_path_elem(2) [of Anonymous 0]
    by (auto simp: read_request_elem_def list_all_iff intro!: wf_elem_mono [of "Suc 0" _ 30])
  show "list_all (report_ok g) reps \<Longrightarrow> wf_elem maxDepth (report_data_elem g i reps b)"
    using wf_report_elem [of g] by (auto simp: report_data_elem_def list_all_iff)
qed

end
