(* ===== verification/Im_Properties.thy ===== *)
theory Im_Properties
  imports Im_Correct
begin

text \<open>
  What the interaction-model codec promises: every decoder returns on every input, and on the
  bytes of its encoder it returns what was encoded. The hypotheses say what the encoder expects
  of raw bytes it is handed: command fields are the encoding of a flat list of elements, the
  data of a report is the encoding of one anonymous element.
\<close>

section \<open>What the encoders expect of raw bytes\<close>

definition fields_encoded :: "bytes option \<Rightarrow> bool" where
  "fields_encoded f \<longleftrightarrow> (\<exists>fs. flat_fields fs f)"

definition result_encoded :: "InvokeResult \<Rightarrow> bool" where
  "result_encoded res \<longleftrightarrow>
     (case (ir_Command res, ir_Status res) of
        (Some c, None) \<Rightarrow> fields_encoded (ic_Fields c)
      | (None, Some _) \<Rightarrow> True
      | _ \<Rightarrow> False)"

definition data_encoded :: "bytes \<Rightarrow> bool" where
  "data_encoded b \<longleftrightarrow>
     (\<exists>e. b = enc e \<and> wf_elem 28 e \<and> no_float32 e \<and> elem_tag e = Anonymous)"

definition report_encoded :: "AttributeReport \<Rightarrow> bool" where
  "report_encoded rep \<longleftrightarrow>
     (case rep_Status rep of
        Some _ \<Rightarrow> rep_DataVersion rep = 0 \<and> rep_Data rep = []
      | None \<Rightarrow> data_encoded (rep_Data rep))"

lemma fields_choice:
  "\<exists>h. \<forall>c :: InvokeCommand. fields_encoded (ic_Fields c) \<longrightarrow> flat_fields (h c) (ic_Fields c)"
  by (rule choice) (auto simp: fields_encoded_def)

lemma results_choice:
  assumes "list_all result_encoded rs" obtains h where "list_all (result_ok h) rs"
proof -
  obtain h where h: "\<forall>c :: InvokeCommand. fields_encoded (ic_Fields c) \<longrightarrow> flat_fields (h c) (ic_Fields c)"
    using fields_choice by blast
  have "list_all (result_ok h) rs"
    using assms h by (auto simp: list_all_iff result_encoded_def result_ok_def split: option.splits)
  then show ?thesis by (rule that)
qed

lemma reports_choice:
  assumes "list_all report_encoded reps" obtains g where "list_all (report_ok g) reps"
proof -
  have "\<exists>g. \<forall>rep :: AttributeReport. data_encoded (rep_Data rep) \<longrightarrow> rep_Data rep = enc (g rep)
      \<and> wf_elem 28 (g rep) \<and> no_float32 (g rep) \<and> elem_tag (g rep) = Anonymous"
    by (rule choice) (auto simp: data_encoded_def)
  then obtain g where "\<forall>rep :: AttributeReport. data_encoded (rep_Data rep) \<longrightarrow>
      rep_Data rep = enc (g rep) \<and> wf_elem 28 (g rep) \<and> no_float32 (g rep)
      \<and> elem_tag (g rep) = Anonymous" by blast
  then have "list_all (report_ok g) reps"
    using assms by (auto simp: list_all_iff report_encoded_def report_ok_def split: option.splits)
  then show ?thesis by (rule that)
qed

lemma dec_top_message:
  assumes "wf_elem maxDepth e" "elem_typ e = TypeStructure" "decodes m 0 e v"
  shows "dec_top msg (dec_bind m dec_checked) (enc e) = Some (Inr v)"
proof (cases e)
  case (Cont t k es)
  with assms(2) have "k = CStructure" by (cases k) auto
  with dec_top_enc [of t es "dec_bind m dec_checked" v msg] decodes_checked [OF assms(3)] assms(1) Cont
  show ?thesis by simp
next
  case (Prim t p)
  with assms(2) show ?thesis by (cases p) auto
qed

lemma message_typ [simp]:
  "elem_typ (invoke_request_elem h cs s t) = TypeStructure"
  "elem_typ (invoke_response_elem h rs s) = TypeStructure"
  "elem_typ (status_response_elem st) = TypeStructure"
  "elem_typ (subscribe_response_elem i m) = TypeStructure"
  "elem_typ (read_request_elem ps f) = TypeStructure"
  "elem_typ (report_data_elem g i reps s) = TypeStructure"
  by (simp_all add: invoke_request_elem_def invoke_response_elem_def status_response_elem_def
      subscribe_response_elem_def read_request_elem_def report_data_elem_def)

section \<open>Termination\<close>

text \<open>C10: The six interaction-model decoders return, with a result or an error, on every byte
  string, well-formed or not: their loops over members and the recursion of \<^verbatim>\<open>writeElement\<close> end.\<close>

theorem im_decoders_return:
  "(\<exists>y. DecodeInvokeRequest b = Some y) \<and> (\<exists>y. DecodeInvokeResponse b = Some y)
   \<and> (\<exists>y. DecodeStatusResponse b = Some y) \<and> (\<exists>y. DecodeSubscribeResponse b = Some y)
   \<and> (\<exists>y. DecodeReadRequest b = Some y) \<and> (\<exists>y. DecodeReportData b = Some y)"
  by (intro conjI Decode_returns)

section \<open>Round trips\<close>

lemma invoke_request_decodes:
  assumes "\<forall>c\<in>set cs. fields_encoded (ic_Fields c)"
  shows "\<exists>b. EncodeInvokeRequest cs s t = Inr b \<and> DecodeInvokeRequest b = Some (Inr (cs, s, t))"
proof -
  obtain h where "\<forall>c :: InvokeCommand. fields_encoded (ic_Fields c) \<longrightarrow> flat_fields (h c) (ic_Fields c)"
    using fields_choice by blast
  then have f: "\<And>c. c \<in> set cs \<Longrightarrow> flat_fields (h c) (ic_Fields c)" using assms by blast
  have "EncodeInvokeRequest cs s t = Inr (enc (invoke_request_elem h cs s t))"
    by (rule EncodeInvokeRequest_elem [OF f])
  moreover have "DecodeInvokeRequest (enc (invoke_request_elem h cs s t)) = Some (Inr (cs, s, t))"
    unfolding DecodeInvokeRequest_def
    by (rule dec_top_message [OF wf_messages(1) message_typ(1) decodes_invoke_request]) (fact f)+
  ultimately show ?thesis by blast
qed

text \<open>C8: A device that decodes an encoded invoke request gets back its commands, in order, and
  both flags, whatever the paths are, provided the fields of each command are the encoding of a
  flat list of elements.\<close>

theorem invoke_request_roundtrip:
  assumes "\<forall>c\<in>set cs. fields_encoded (ic_Fields c)"
  shows "\<exists>b. EncodeInvokeRequest cs s t = Inr b \<and> DecodeInvokeRequest b = Some (Inr (cs, s, t))"
  by (rule invoke_request_decodes [OF assms])

text \<open>A level-control command whose fields hold one integer.\<close>

definition example_command :: InvokeCommand where
  "example_command =
     \<lparr>ic_Path = \<lparr>cp_Endpoint = 1, cp_Cluster = 8, cp_Command = 0\<rparr>, ic_Fields = Some [0x24, 0, 0x80]\<rparr>"

lemma example_fields: "fields_encoded (ic_Fields example_command)"
proof -
  have "flat_fields [ctx_uint 0 0x80] (ic_Fields example_command)" by code_simp
  then show ?thesis unfolding fields_encoded_def by blast
qed

theorem invoke_request_roundtrip_witness:
  "\<exists>b. EncodeInvokeRequest [example_command] False True = Inr b
     \<and> DecodeInvokeRequest b = Some (Inr ([example_command], False, True))"
  by (rule invoke_request_roundtrip) (simp add: example_fields)

lemma invoke_response_decodes:
  assumes "list_all result_encoded rs"
  shows "\<exists>b. EncodeInvokeResponse rs s = Inr b \<and> DecodeInvokeResponse b = Some (Inr rs)"
proof -
  obtain h where h: "list_all (result_ok h) rs" using results_choice [OF assms] .
  show ?thesis
    unfolding DecodeInvokeResponse_def EncodeInvokeResponse_elem [OF h]
    using dec_top_message [OF wf_messages(2) [OF h] message_typ(2) decodes_invoke_response [OF h]]
    by blast
qed

lemma report_data_decodes:
  assumes "list_all report_encoded reps"
  shows "\<exists>b. EncodeReportData i reps s = Some (Inr b) \<and> DecodeReportData b = Some (Inr (i, reps))"
proof -
  obtain g where g: "list_all (report_ok g) reps" using reports_choice [OF assms] .
  show ?thesis
    unfolding DecodeReportData_def EncodeReportData_elem [OF g]
    using dec_top_message [OF wf_messages(6) [OF g] message_typ(6) decodes_report_data [OF g]]
    by blast
qed

text \<open>A controller that decodes an encoded invoke response gets back its results, commands
  and statuses in order.\<close>

theorem invoke_response_roundtrip:
  assumes "list_all result_encoded rs"
  shows "\<exists>b. EncodeInvokeResponse rs s = Inr b \<and> DecodeInvokeResponse b = Some (Inr rs)"
  by (rule invoke_response_decodes [OF assms])

theorem invoke_response_roundtrip_witness:
  "\<exists>b. EncodeInvokeResponse
         [\<lparr>ir_Command = Some example_command, ir_Status = None\<rparr>,
          \<lparr>ir_Command = None, ir_Status = Some \<lparr>cs_Path = ic_Path example_command, cs_Status = 0x81\<rparr>\<rparr>]
         False = Inr b
     \<and> DecodeInvokeResponse b = Some (Inr
         [\<lparr>ir_Command = Some example_command, ir_Status = None\<rparr>,
          \<lparr>ir_Command = None, ir_Status = Some \<lparr>cs_Path = ic_Path example_command, cs_Status = 0x81\<rparr>\<rparr>])"
  by (rule invoke_response_roundtrip) (simp add: result_encoded_def example_fields)

text \<open>The short interaction-model messages survive encoding: the status of a status response,
  the subscription id and interval of a subscribe response, the paths and the filter flag of a
  read request.\<close>

theorem short_messages_roundtrip:
  "(\<exists>b. EncodeStatusResponse st = Inr b \<and> DecodeStatusResponse b = Some (Inr st))
   \<and> (\<exists>b. EncodeSubscribeResponse i m = Inr b \<and> DecodeSubscribeResponse b = Some (Inr (i, m)))
   \<and> (\<exists>b. EncodeReadRequest ps f = Inr b \<and> DecodeReadRequest b = Some (Inr (ps, f)))"
  unfolding DecodeStatusResponse_def DecodeSubscribeResponse_def DecodeReadRequest_def
    EncodeStatusResponse_elem EncodeSubscribeResponse_elem EncodeReadRequest_elem
  using dec_top_message [OF wf_messages(3) message_typ(3) decodes_status_response]
    dec_top_message [OF wf_messages(4) message_typ(4) decodes_subscribe_response]
    dec_top_message [OF wf_messages(5) message_typ(5) decodes_read_request]
  by simp

text \<open>C9: Report data survives encoding: the subscription id and every report, in order, with its
  path, data version and the bytes of its value (re-encoded element by element through
  \<^verbatim>\<open>writeElement\<close> and \<^verbatim>\<open>captureAnon\<close>), or its path and status.\<close>

theorem report_data_roundtrip:
  assumes "list_all report_encoded reps"
  shows "\<exists>b. EncodeReportData i reps s = Some (Inr b) \<and> DecodeReportData b = Some (Inr (i, reps))"
  by (rule report_data_decodes [OF assms])

definition example_report :: AttributeReport where
  "example_report =
     \<lparr>rep_Path = \<lparr>ap_Endpoint = 1, ap_Cluster = 6, ap_Attribute = 0\<rparr>, rep_DataVersion = 7,
      rep_Data = [0x16, 0x09, 0x04, 0x05, 0x18], rep_Status = None\<rparr>"

lemma example_report_encoded: "report_encoded example_report"
proof -
  have "let e = Cont Anonymous CArray [Prim Anonymous (PBool True), Prim Anonymous (PUint 5)]
    in rep_Data example_report = enc e \<and> wf_elem 28 e \<and> no_float32 e \<and> elem_tag e = Anonymous"
    by code_simp
  then have "data_encoded (rep_Data example_report)" unfolding data_encoded_def Let_def by blast
  then show ?thesis by (simp add: report_encoded_def example_report_def)
qed

theorem report_data_roundtrip_witness:
  "\<exists>b. EncodeReportData 9 [example_report] True = Some (Inr b)
     \<and> DecodeReportData b = Some (Inr (9, [example_report]))"
  by (rule report_data_roundtrip) (simp add: example_report_encoded)

end
