(* ===== verification/Tlv_Properties.thy ===== *)
theory Tlv_Properties
  imports Im_Properties
begin

text \<open>
  What \<^verbatim>\<open>go-matter/tlv\<close> promises its callers: written elements read back, errors of the writer
  stay, the reader stays inside its input, and elements can be skipped or copied.
\<close>

section \<open>The writer's errors\<close>

text \<open>The first error of a chain of writer calls is kept: whatever is called after it, \<^verbatim>\<open>Bytes\<close>
  reports that error and never hands out a truncated buffer.\<close>

theorem writer_first_error:
  assumes "w_err w = Some e"
  shows "Writer_Bytes (foldl writer_step w as) = Inl e"
  using writer_ops_err [OF assms] by (simp add: Writer_Bytes_def)

theorem writer_first_error_witness:
  "Writer_Bytes (foldl writer_step (Writer_EndContainer NewWriter) [OpStructure Anonymous, OpEnd])
     = Inl EndContainerWithoutOpen"
  by (rule writer_first_error) (simp add: NewWriter_def ops Writer_fail_def)

section \<open>Reading what was written\<close>

text \<open>The value of the current element through its getter.\<close>

fun getter_reads :: "prim \<Rightarrow> reader \<Rightarrow> bool" where
  "getter_reads (PInt v) r \<longleftrightarrow> Reader_Int r = Inr v"
| "getter_reads (PUint v) r \<longleftrightarrow> Reader_Uint r = Inr v"
| "getter_reads (PBool b) r \<longleftrightarrow> Reader_Bool r = Inr b"
| "getter_reads (PFloat32 v) r \<longleftrightarrow> Reader_Float r = Inr (float32_to_64 v)"
| "getter_reads (PFloat64 v) r \<longleftrightarrow> Reader_Float r = Inr v"
| "getter_reads (PString b) r \<longleftrightarrow> Reader_String r = Inr b"
| "getter_reads (PBytes b) r \<longleftrightarrow> Reader_Bytes r = Inr b"
| "getter_reads PNull r \<longleftrightarrow> Reader_Type r = TypeNull"

lemma cur_getter: "cur r (Prim t p) bs d \<Longrightarrow> getter_reads p r"
  by (cases p) (auto simp: cur_get cur_type)

text \<open>C1: An element written with one call of the writer reads back through \<^verbatim>\<open>Next\<close> with its tag,
  its type and, through the getter of the type, its value, for every tag form and every value
  width; then the input is at its end without an error.\<close>

theorem tlv_value_roundtrip:
  assumes "tag_canon t" "prim_ok p"
  shows "\<exists>b r r'. Writer_Bytes (writer_step NewWriter (write_prim t p)) = Inr b
    \<and> Reader_Next (NewReader b) = (True, r) \<and> r_tag r = t \<and> Reader_Type r = prim_typ p
    \<and> getter_reads p r \<and> Reader_Next r = (False, r') \<and> r_err r' = None"
proof -
  have w: "Writer_Bytes (writer_step NewWriter (write_prim t p)) = Inr (enc (Prim t p))"
    using write_ops_WS [of "Prim t p" "[]" 0] assms(1) tag_canon_ok by (simp add: NewWriter_WS)
  have "r_at (NewReader (enc (Prim t p))) (enc (Prim t p) @ []) 0" using NewReader_at by simp
  from Next_elem [OF this] assms obtain r where r: "Reader_Next (NewReader (enc (Prim t p))) = (True, r)"
    "cur r (Prim t p) [] 0" by auto
  obtain r' where "Reader_Next r = (False, r')" "r_at r' [] 0"
    using Next_eof [OF cur_at [OF r(2)]] by blast
  then show ?thesis using w r cur_getter [OF r(2)] cur_tag [OF r(2)] cur_type [OF r(2)]
    by (auto simp: r_at_def)
qed

theorem tlv_value_roundtrip_witness:
  "\<exists>b r r'. Writer_Bytes (writer_step NewWriter (write_prim (FullyQualified 0xFFF1 2 0x12345) (PInt (- 300)))) = Inr b
    \<and> Reader_Next (NewReader b) = (True, r) \<and> r_tag r = FullyQualified 0xFFF1 2 0x12345
    \<and> Reader_Type r = prim_typ (PInt (- 300)) \<and> getter_reads (PInt (- 300)) r
    \<and> Reader_Next r = (False, r') \<and> r_err r' = None"
  by (rule tlv_value_roundtrip) simp_all

text \<open>Writing any tree of elements and copying it with \<^verbatim>\<open>captureAnon\<close> gives the bytes of the
  same tree under the anonymous tag: reading enters and leaves every container, sees every
  member in order and consumes the input exactly, up to the reader's depth limit.\<close>

theorem tlv_tree_copy:
  assumes "wf_elem maxDepth e" "no_float32 e" "tags_ok e"
  shows "\<exists>b r r' r''. Writer_Bytes (foldl writer_step NewWriter (write_ops e)) = Inr b
    \<and> Reader_Next (NewReader b) = (True, r)
    \<and> captureAnon r = Some (Inr (enc (retag Anonymous e), r'))
    \<and> Reader_Next r' = (False, r'') \<and> r_err r'' = None"
proof -
  have w: "Writer_Bytes (foldl writer_step NewWriter (write_ops e)) = Inr (enc e)"
    using write_ops_WS [OF assms(3), of "[]" 0] by (simp add: NewWriter_WS)
  have "r_at (NewReader (enc e)) (enc e @ []) 0" using NewReader_at by simp
  from Next_elem [OF this assms(1)] obtain r where r: "Reader_Next (NewReader (enc e)) = (True, r)"
    "cur r e [] 0" by auto
  obtain r' where r': "captureAnon r = Some (Inr (enc (retag Anonymous e), r'))" "r_at r' [] 0"
    using decodes_captureAnon [OF assms(1,2), of 0] r(2) unfolding decodes_def by auto
  obtain r'' where "Reader_Next r' = (False, r'')" "r_at r'' [] 0"
    using Next_eof [OF r'(2)] by blast
  with w r r' show ?thesis by (auto simp: r_at_def)
qed

theorem tlv_tree_copy_witness:
  "\<exists>b r r' r''. Writer_Bytes (foldl writer_step NewWriter (write_ops
        (Cont (Context 2) CStructure [Cont (Context 1) CList [], Prim (Context 0) (PBytes [1, 2])]))) = Inr b
    \<and> Reader_Next (NewReader b) = (True, r)
    \<and> captureAnon r = Some (Inr (enc (retag Anonymous
        (Cont (Context 2) CStructure [Cont (Context 1) CList [], Prim (Context 0) (PBytes [1, 2])])), r'))
    \<and> Reader_Next r' = (False, r'') \<and> r_err r'' = None"
  by (rule tlv_tree_copy) simp_all

text \<open>A caller that does not enter a container can go on: \<^verbatim>\<open>Next\<close> skips the rest of the current
  element, whatever it nests, and delivers the element written after it.\<close>

theorem tlv_next_skips:
  assumes "wf_elem maxDepth e" "wf_elem maxDepth f"
  shows "\<exists>r r'. Reader_Next (NewReader (enc e @ enc f)) = (True, r) \<and> r_tag r = elem_tag e
    \<and> Reader_Next r = (True, r') \<and> r_tag r' = elem_tag f \<and> Reader_Type r' = elem_typ f"
proof -
  have "r_at (NewReader (enc e @ enc f)) (enc e @ enc f) 0" by (rule NewReader_at)
  from Next_elem [OF this assms(1)] obtain r where
    r: "Reader_Next (NewReader (enc e @ enc f)) = (True, r)" "cur r e (enc f) 0" by blast
  have "r_at r (enc f @ []) 0" using cur_at [OF r(2)] by simp
  from Next_elem [OF this assms(2)] obtain r' where
    "Reader_Next r = (True, r')" "cur r' f [] 0" by blast
  with r show ?thesis by (auto simp: cur_tag cur_type)
qed

theorem tlv_next_skips_witness:
  "\<exists>r r'. Reader_Next (NewReader (enc (Cont (Context 1) CArray [Cont Anonymous CStructure []])
        @ enc (Prim (Context 2) PNull))) = (True, r)
    \<and> r_tag r = elem_tag (Cont (Context 1) CArray [Cont Anonymous CStructure []])
    \<and> Reader_Next r = (True, r') \<and> r_tag r' = elem_tag (Prim (Context 2) PNull)
    \<and> Reader_Type r' = elem_typ (Prim (Context 2) PNull)"
  by (rule tlv_next_skips) simp_all

section \<open>The reader on any input\<close>

text \<open>C11: On any bytes, \<^verbatim>\<open>Next\<close> stays inside the input and never moves back. If it delivers an
  element, it has consumed at least one byte, at an unchanged depth, with no error set; so a
  caller's loop over \<^verbatim>\<open>Next\<close> ends.\<close>

theorem reader_next_safe:
  assumes "r_pos r \<le> length (r_data r)" "Reader_Next r = (b, r')"
  shows "r_data r' = r_data r \<and> r_pos r \<le> r_pos r' \<and> r_pos r' \<le> length (r_data r)
    \<and> (b \<longrightarrow> r_pos r < r_pos r' \<and> r_depth r' = r_depth r \<and> r_err r' = None)"
  using Next_outcome [OF assms(2)] assms(1) by (auto simp: next_outcome_def r_ok_def)

theorem reader_next_safe_witness:
  "r_pos (snd (Reader_Next (NewReader [0x2C, 0x01, 0x05, 0x61]))) \<le> 4"
proof -
  have "Reader_Next (NewReader [0x2C, 0x01, 0x05, 0x61])
      = (False, snd (Reader_Next (NewReader [0x2C, 0x01, 0x05, 0x61])))"
    by code_simp
  from reader_next_safe [OF _ this] show ?thesis by (simp add: NewReader_def)
qed

end
