(* ===== verification/Message.thy ===== *)
theory Message
  imports Prelude
begin

text \<open>
  The message frame of \<^verbatim>\<open>go-matter/message\<close>: the plaintext message header (\<^verbatim>\<open>header.go\<close>), the
  protocol header (\<^verbatim>\<open>proto.go\<close>) and the status report (\<^verbatim>\<open>status.go\<close>). The interface
  \<open>prefix_codec\<close> is what a layer of the frame promises to the layer that decodes the bytes
  behind it; both headers provide it.
\<close>

section \<open>Prefix codecs\<close>

text \<open>
  \<open>enc\<close> writes a value that is \<open>ok\<close>; \<open>dec\<close> reads it from the front of any input and hands on
  the rest.
\<close>

locale prefix_codec =
  fixes ok :: "'a \<Rightarrow> bool"
    and enc :: "'a \<Rightarrow> bytes"
    and dec :: "bytes \<Rightarrow> 'e + 'a \<times> bytes"
  assumes dec_enc: "ok x \<Longrightarrow> dec (enc x @ rest) = Inr (x, rest)"
    and dec_rest: "dec bs = Inr (x, rest) \<Longrightarrow> \<exists>p. bs = p @ rest"
begin

text \<open>No encoding is a prefix of another, so a frame is read in only one way.\<close>

lemma enc_unique: "ok x \<Longrightarrow> ok y \<Longrightarrow> enc x @ r = enc y @ s \<Longrightarrow> x = y \<and> r = s"
proof -
  assume ok: "ok x" "ok y" and eq: "enc x @ r = enc y @ s"
  have "Inr (x, r) = dec (enc x @ r)" by (rule dec_enc [OF ok(1), symmetric])
  also have "\<dots> = Inr (y, s)" unfolding eq by (rule dec_enc [OF ok(2)])
  finally show ?thesis by simp
qed

lemma rest_length: "dec bs = Inr (x, rest) \<Longrightarrow> length rest \<le> length bs"
  by (drule dec_rest) auto

text \<open>The bytes in front of the rest, as \<^verbatim>\<open>data[:len(data)-len(rest)]\<close>, and the split they make.\<close>

lemma front_rest:
  assumes "dec bs = Inr (x, rest)"
  shows "take (length bs - length rest) bs @ rest = bs"
proof -
  obtain p where "bs = p @ rest" using dec_rest [OF assms] by blast
  then show ?thesis by simp
qed

lemma front_enc: "take (length (enc x @ rest) - length rest) (enc x @ rest) = enc x"
  by simp

end

section \<open>Fixed little-endian fields\<close>

lemma le_bytes_four:
  obtains a b c d where "le_bytes 4 (v :: u32) = [a, b, c, d]" "le_word [a, b, c, d] = v"
proof -
  have "length (le_bytes 4 v) = 4" by simp
  then obtain a b c d where "le_bytes 4 v = [a, b, c, d]"
    by (auto simp: numeral_eq_Suc length_Suc_conv)
  with le_word_le_bytes_u32 [of v] show ?thesis using that by simp
qed

lemma le_bytes_back:
  "le_bytes 2 (le_word [a, b] :: u16) = [a, b]"
  "le_bytes 4 (le_word [a, b, c, d] :: u32) = [a, b, c, d]"
  using le_bytes_le_word [of "[a, b]", where 'a = 16] le_bytes_le_word [of "[a, b, c, d]", where 'a = 32]
  by (simp_all del: le_word.simps le_bytes.simps add: numeral_eq_Suc)

lemma take_exact: "n \<le> length xs \<Longrightarrow> \<exists>p r. xs = p @ r \<and> length p = n"
  by (intro exI [of _ "take n xs"] exI [of _ "drop n xs"]) simp

lemma length_eq_2: "length p = 2 \<Longrightarrow> \<exists>a b. p = [a, b]"
  by (auto simp: numeral_eq_Suc length_Suc_conv)

section \<open>The message header\<close>

datatype msg_error = ErrShortHeader | UnsupportedVersion byte | InvalidDestKind u8
  | ExtensionsNotSupported | ReservedDSIZ | ProtoTruncated | VendorTruncated | AckTruncated
  | SecuredExtNotSupported | StatusTruncated

abbreviation Unicast :: u8 where "Unicast \<equiv> 0"
abbreviation DestNone :: u8 where "DestNone \<equiv> 0"
abbreviation DestNode :: u8 where "DestNode \<equiv> 1"
abbreviation DestGroup :: u8 where "DestGroup \<equiv> 2"

record Header =
  h_SessionID :: u16
  h_SessionType :: u8
  h_Privacy :: bool
  h_Control :: bool
  h_Counter :: u32
  h_SourceNodeID :: u64
  h_SourcePresent :: bool
  h_DestNodeID :: u64
  h_DestGroupID :: u16
  h_DestKind :: u8

definition zeroHeader :: Header where
  "zeroHeader = \<lparr>h_SessionID = 0, h_SessionType = 0, h_Privacy = False, h_Control = False,
     h_Counter = 0, h_SourceNodeID = 0, h_SourcePresent = False, h_DestNodeID = 0,
     h_DestGroupID = 0, h_DestKind = 0\<rparr>"

abbreviation flagVersionMask :: byte where "flagVersionMask \<equiv> 0xF0"
abbreviation flagSource :: byte where "flagSource \<equiv> 4"
abbreviation flagDSIZMask :: byte where "flagDSIZMask \<equiv> 3"
abbreviation secPrivacy :: byte where "secPrivacy \<equiv> 0x80"
abbreviation secControl :: byte where "secControl \<equiv> 0x40"
abbreviation secExtensions :: byte where "secExtensions \<equiv> 0x20"
abbreviation secSessionTypeMask :: byte where "secSessionTypeMask \<equiv> 3"

definition msgFlags :: "Header \<Rightarrow> byte" where
  "msgFlags h = (if h_SourcePresent h then flagSource else 0) OR (h_DestKind h AND flagDSIZMask)"

definition secFlags :: "Header \<Rightarrow> byte" where
  "secFlags h = (h_SessionType h AND secSessionTypeMask)
     OR (if h_Privacy h then secPrivacy else 0) OR (if h_Control h then secControl else 0)"

definition Header_Encode :: "Header \<Rightarrow> msg_error + bytes" where
  "Header_Encode h =
     (if h_DestKind h > DestGroup then Inl (InvalidDestKind (h_DestKind h))
      else Inr ([msgFlags h] @ le_bytes 2 (h_SessionID h) @ [secFlags h]
        @ le_bytes 4 (h_Counter h)
        @ (if h_SourcePresent h then le_bytes 8 (h_SourceNodeID h) else [])
        @ (if h_DestKind h = DestNode then le_bytes 8 (h_DestNodeID h)
           else if h_DestKind h = DestGroup then le_bytes 2 (h_DestGroupID h)
           else [])))"

text \<open>The destination field: the last step of \<^verbatim>\<open>Decode\<close>, on the bytes from \<^verbatim>\<open>pos\<close> on.\<close>

definition decodeDest :: "byte \<Rightarrow> Header \<Rightarrow> bytes \<Rightarrow> msg_error + Header \<times> bytes" where
  "decodeDest kind h bs =
     (if kind = DestNone then Inr (h, bs)
      else if kind = DestNode then
        (if length bs < 8 then Inl ErrShortHeader
         else Inr (h\<lparr>h_DestNodeID := le_word (take 8 bs), h_DestKind := DestNode\<rparr>, drop 8 bs))
      else if kind = DestGroup then
        (if length bs < 2 then Inl ErrShortHeader
         else Inr (h\<lparr>h_DestGroupID := le_word (take 2 bs), h_DestKind := DestGroup\<rparr>, drop 2 bs))
      else Inl ReservedDSIZ)"

definition decodeSource :: "byte \<Rightarrow> Header \<Rightarrow> bytes \<Rightarrow> msg_error + Header \<times> bytes" where
  "decodeSource flags h bs =
     (if flags AND flagSource \<noteq> 0 then
        (if length bs < 8 then Inl ErrShortHeader
         else Inr (h\<lparr>h_SourceNodeID := le_word (take 8 bs), h_SourcePresent := True\<rparr>, drop 8 bs))
      else Inr (h, bs))"

definition Header_Decode :: "bytes \<Rightarrow> msg_error + Header \<times> bytes" where
  "Header_Decode data =
     (if length data < 8 then Inl ErrShortHeader
      else
        let mf = data ! 0; v = drop_bit 4 (mf AND flagVersionMask); sf = data ! 3 in
        if v \<noteq> 0 then Inl (UnsupportedVersion v)
        else if sf AND secExtensions \<noteq> 0 then Inl ExtensionsNotSupported
        else
          let h = zeroHeader\<lparr>h_SessionID := le_word (take 2 (drop 1 data)),
                h_Counter := le_word (take 4 (drop 4 data)),
                h_SessionType := sf AND secSessionTypeMask,
                h_Privacy := sf AND secPrivacy \<noteq> 0, h_Control := sf AND secControl \<noteq> 0\<rparr>
          in case decodeSource mf h (drop 8 data) of
               Inl e \<Rightarrow> Inl e
             | Inr (h, bs) \<Rightarrow> decodeDest (mf AND flagDSIZMask) h bs)"

text \<open>A header in the form \<^verbatim>\<open>Decode\<close> returns: absent fields are zero.\<close>

definition header_ok :: "Header \<Rightarrow> bool" where
  "header_ok h \<longleftrightarrow> h_SessionType h < 4 \<and> h_DestKind h \<le> DestGroup
     \<and> (\<not> h_SourcePresent h \<longrightarrow> h_SourceNodeID h = 0)
     \<and> (h_DestKind h \<noteq> DestNode \<longrightarrow> h_DestNodeID h = 0)
     \<and> (h_DestKind h \<noteq> DestGroup \<longrightarrow> h_DestGroupID h = 0)"

definition header_bytes :: "Header \<Rightarrow> bytes" where
  "header_bytes h = (case Header_Encode h of Inl _ \<Rightarrow> [] | Inr b \<Rightarrow> b)"

lemma byte_le_2: "(k :: u8) \<le> 2 \<Longrightarrow> k = 0 \<or> k = 1 \<or> k = 2"
proof -
  assume "k \<le> 2"
  then have "unat k \<le> 2" by (simp add: word_le_nat_alt)
  then have "unat k = 0 \<or> unat k = 1 \<or> unat k = 2" by arith
  then show ?thesis using word_of_unat [of k] by fastforce
qed

lemma byte_less_4: "(k :: u8) < 4 \<Longrightarrow> k = 0 \<or> k = 1 \<or> k = 2 \<or> k = 3"
proof -
  assume "k < 4"
  then have "unat k < 4" by (simp add: word_less_nat_alt)
  then have "unat k = 0 \<or> unat k = 1 \<or> unat k = 2 \<or> unat k = 3" by arith
  then show ?thesis using word_of_unat [of k] by fastforce
qed

lemma msgFlags_fields:
  assumes "h_DestKind h \<le> DestGroup"
  shows "drop_bit 4 (msgFlags h AND flagVersionMask) = 0" "msgFlags h AND flagDSIZMask = h_DestKind h"
    "msgFlags h AND flagSource \<noteq> 0 \<longleftrightarrow> h_SourcePresent h"
  using byte_le_2 [OF assms] by (auto simp: msgFlags_def)

lemma secFlags_fields:
  assumes "h_SessionType h < 4"
  shows "secFlags h AND secExtensions = 0" "secFlags h AND secSessionTypeMask = h_SessionType h"
    "secFlags h AND secPrivacy \<noteq> 0 \<longleftrightarrow> h_Privacy h"
    "secFlags h AND secControl \<noteq> 0 \<longleftrightarrow> h_Control h"
  using byte_less_4 [OF assms] by (auto simp: secFlags_def)

lemma Header_Decode_Encode:
  assumes "header_ok h"
  shows "Header_Decode (header_bytes h @ rest) = Inr (h, rest)"
proof -
  have ok: "h_SessionType h < 4" "h_DestKind h \<le> DestGroup" using assms by (simp_all add: header_ok_def)
  obtain a b where sid: "le_bytes 2 (h_SessionID h) = [a, b]" "le_word [a, b] = h_SessionID h"
    by (rule le_bytes_two)
  obtain c d e f where ctr: "le_bytes 4 (h_Counter h) = [c, d, e, f]"
      "le_word [c, d, e, f] = h_Counter h"
    by (rule le_bytes_four)
  obtain s where s: "s = header_bytes h @ rest" by simp
  let ?src = "if h_SourcePresent h then le_bytes 8 (h_SourceNodeID h) else []"
  let ?dst = "if h_DestKind h = DestNode then le_bytes 8 (h_DestNodeID h)
      else if h_DestKind h = DestGroup then le_bytes 2 (h_DestGroupID h) else []"
  let ?tail = "?src @ ?dst @ rest"
  have data: "header_bytes h @ rest = [msgFlags h, a, b, secFlags h, c, d, e, f] @ ?tail"
    using ok by (simp add: header_bytes_def Header_Encode_def sid ctr not_less)
  let ?h = "zeroHeader\<lparr>h_SessionID := h_SessionID h, h_Counter := h_Counter h,
      h_SessionType := h_SessionType h, h_Privacy := h_Privacy h, h_Control := h_Control h\<rparr>"
  have "Header_Decode (header_bytes h @ rest) =
    (case decodeSource (msgFlags h) ?h ?tail of
       Inl e \<Rightarrow> Inl e | Inr (h', bs) \<Rightarrow> decodeDest (msgFlags h AND flagDSIZMask) h' bs)"
    unfolding data Header_Decode_def Let_def append.simps nth_Cons_0 msgFlags_fields [OF ok(2)]
    by (simp add: msgFlags_fields [OF ok(2)] secFlags_fields [OF ok(1)]
        sid(2) ctr(2) del: le_word.simps)
  also have "decodeSource (msgFlags h) ?h ?tail
      = Inr (?h\<lparr>h_SourceNodeID := h_SourceNodeID h, h_SourcePresent := h_SourcePresent h\<rparr>, ?dst @ rest)"
    using assms msgFlags_fields(3) [OF ok(2)]
    by (auto simp: decodeSource_def header_ok_def zeroHeader_def)
  also have "(case Inr (?h\<lparr>h_SourceNodeID := h_SourceNodeID h, h_SourcePresent := h_SourcePresent h\<rparr>,
        ?dst @ rest) of Inl e \<Rightarrow> Inl e | Inr (h', bs) \<Rightarrow> decodeDest (msgFlags h AND flagDSIZMask) h' bs)
      = Inr (h, rest)"
    using assms byte_le_2 [OF ok(2)]
    by (auto simp: decodeDest_def msgFlags_fields [OF ok(2)] header_ok_def zeroHeader_def
        intro!: Header.equality)
  finally show ?thesis .
qed

lemma decodeSource_rest: "decodeSource f h bs = Inr (h', r) \<Longrightarrow> \<exists>p. bs = p @ r"
  by (auto simp: decodeSource_def split: if_splits intro: append_take_drop_id [symmetric])

lemma decodeDest_rest: "decodeDest k h bs = Inr (h', r) \<Longrightarrow> \<exists>p. bs = p @ r"
  by (auto simp: decodeDest_def split: if_splits intro: append_take_drop_id [symmetric])

lemma Header_Decode_rest: "Header_Decode bs = Inr (h, rest) \<Longrightarrow> \<exists>p. bs = p @ rest"
proof -
  assume d: "Header_Decode bs = Inr (h, rest)"
  then obtain f h0 k h1 r1 where s: "decodeSource f h0 (drop 8 bs) = Inr (h1, r1)"
      and t: "decodeDest k h1 r1 = Inr (h, rest)"
    by (auto simp: Header_Decode_def Let_def split: if_splits sum.splits)
  obtain p q where "drop 8 bs = p @ r1" "r1 = q @ rest"
    using decodeSource_rest [OF s] decodeDest_rest [OF t] by blast
  then have "bs = (take 8 bs @ p @ q) @ rest" by (metis append.assoc append_take_drop_id)
  then show ?thesis by blast
qed

interpretation hdr: prefix_codec header_ok header_bytes Header_Decode
  by unfold_locales (fact Header_Decode_Encode, fact Header_Decode_rest)

section \<open>The protocol header\<close>

record ProtoHeader =
  p_Initiator :: bool
  p_Reliable :: bool
  p_Opcode :: byte
  p_ExchangeID :: u16
  p_ProtocolID :: u16
  p_VendorID :: u16
  p_VendorPresent :: bool
  p_AckCounter :: u32
  p_AckPresent :: bool

abbreviation exFlagInitiator :: byte where "exFlagInitiator \<equiv> 1"
abbreviation exFlagAck :: byte where "exFlagAck \<equiv> 2"
abbreviation exFlagReliable :: byte where "exFlagReliable \<equiv> 4"
abbreviation exFlagSecuredExt :: byte where "exFlagSecuredExt \<equiv> 8"
abbreviation exFlagVendor :: byte where "exFlagVendor \<equiv> 16"

definition exFlags :: "ProtoHeader \<Rightarrow> byte" where
  "exFlags p = (if p_Initiator p then exFlagInitiator else 0)
     OR (if p_AckPresent p then exFlagAck else 0)
     OR (if p_Reliable p then exFlagReliable else 0)
     OR (if p_VendorPresent p then exFlagVendor else 0)"

definition ProtoHeader_Encode :: "ProtoHeader \<Rightarrow> bytes" where
  "ProtoHeader_Encode p =
     [exFlags p, p_Opcode p] @ le_bytes 2 (p_ExchangeID p) @ le_bytes 2 (p_ProtocolID p)
     @ (if p_VendorPresent p then le_bytes 2 (p_VendorID p) else [])
     @ (if p_AckPresent p then le_bytes 4 (p_AckCounter p) else [])"

definition decodeVendor :: "byte \<Rightarrow> ProtoHeader \<Rightarrow> bytes \<Rightarrow> msg_error + ProtoHeader \<times> bytes" where
  "decodeVendor flags p bs =
     (if flags AND exFlagVendor \<noteq> 0 then
        (if length bs < 2 then Inl VendorTruncated
         else Inr (p\<lparr>p_VendorID := le_word (take 2 bs), p_VendorPresent := True\<rparr>, drop 2 bs))
      else Inr (p, bs))"

definition decodeAck :: "byte \<Rightarrow> ProtoHeader \<Rightarrow> bytes \<Rightarrow> msg_error + ProtoHeader \<times> bytes" where
  "decodeAck flags p bs =
     (if flags AND exFlagAck \<noteq> 0 then
        (if length bs < 4 then Inl AckTruncated
         else Inr (p\<lparr>p_AckCounter := le_word (take 4 bs), p_AckPresent := True\<rparr>, drop 4 bs))
      else Inr (p, bs))"

definition DecodeProto :: "bytes \<Rightarrow> msg_error + ProtoHeader \<times> bytes" where
  "DecodeProto data =
     (if length data < 6 then Inl ProtoTruncated
      else
        let flags = data ! 0;
            p = \<lparr>p_Initiator = (flags AND exFlagInitiator \<noteq> 0),
                 p_Reliable = (flags AND exFlagReliable \<noteq> 0), p_Opcode = data ! 1,
                 p_ExchangeID = le_word (take 2 (drop 2 data)),
                 p_ProtocolID = le_word (take 2 (drop 4 data)),
                 p_VendorID = 0, p_VendorPresent = False, p_AckCounter = 0, p_AckPresent = False\<rparr>
        in case decodeVendor flags p (drop 6 data) of
             Inl e \<Rightarrow> Inl e
           | Inr (p, bs) \<Rightarrow>
               (case decodeAck flags p bs of
                  Inl e \<Rightarrow> Inl e
                | Inr (p, bs) \<Rightarrow>
                    if flags AND exFlagSecuredExt \<noteq> 0 then Inl SecuredExtNotSupported
                    else Inr (p, bs)))"

definition proto_ok :: "ProtoHeader \<Rightarrow> bool" where
  "proto_ok p \<longleftrightarrow> (\<not> p_VendorPresent p \<longrightarrow> p_VendorID p = 0)
     \<and> (\<not> p_AckPresent p \<longrightarrow> p_AckCounter p = 0)"

lemma exFlags_fields:
  "exFlags p AND exFlagInitiator \<noteq> 0 \<longleftrightarrow> p_Initiator p"
  "exFlags p AND exFlagReliable \<noteq> 0 \<longleftrightarrow> p_Reliable p"
  "exFlags p AND exFlagAck \<noteq> 0 \<longleftrightarrow> p_AckPresent p"
  "exFlags p AND exFlagVendor \<noteq> 0 \<longleftrightarrow> p_VendorPresent p"
  "exFlags p AND exFlagSecuredExt = 0"
  by (auto simp: exFlags_def)

lemma DecodeProto_Encode:
  assumes "proto_ok p"
  shows "DecodeProto (ProtoHeader_Encode p @ rest) = Inr (p, rest)"
proof -
  obtain a b where ex: "le_bytes 2 (p_ExchangeID p) = [a, b]" "le_word [a, b] = p_ExchangeID p"
    by (rule le_bytes_two)
  obtain c d where pr: "le_bytes 2 (p_ProtocolID p) = [c, d]" "le_word [c, d] = p_ProtocolID p"
    by (rule le_bytes_two)
  let ?ack = "if p_AckPresent p then le_bytes 4 (p_AckCounter p) else []"
  let ?tail = "(if p_VendorPresent p then le_bytes 2 (p_VendorID p) else []) @ ?ack @ rest"
  have data: "ProtoHeader_Encode p @ rest = [exFlags p, p_Opcode p, a, b, c, d] @ ?tail"
    by (simp add: ProtoHeader_Encode_def ex pr)
  let ?p = "\<lparr>p_Initiator = p_Initiator p, p_Reliable = p_Reliable p, p_Opcode = p_Opcode p,
     p_ExchangeID = p_ExchangeID p, p_ProtocolID = p_ProtocolID p,
     p_VendorID = 0, p_VendorPresent = False, p_AckCounter = 0, p_AckPresent = False\<rparr>"
  let ?q = "?p\<lparr>p_VendorID := p_VendorID p, p_VendorPresent := p_VendorPresent p\<rparr>"
  have v: "decodeVendor (exFlags p) ?p ?tail = Inr (?q, ?ack @ rest)"
    using assms exFlags_fields(4) [of p] by (auto simp: decodeVendor_def proto_ok_def)
  have "decodeAck (exFlags p) ?q (?ack @ rest) = Inr (p, rest)"
    using assms exFlags_fields(3) [of p] by (auto simp: decodeAck_def proto_ok_def)
  with v show ?thesis
    unfolding data DecodeProto_def Let_def append.simps nth_Cons_0 exFlags_fields
    by (simp add: exFlags_fields ex(2) pr(2) del: le_word.simps)
qed

lemma decodeVendor_rest: "decodeVendor f p bs = Inr (p', r) \<Longrightarrow> \<exists>x. bs = x @ r"
  by (auto simp: decodeVendor_def split: if_splits intro: append_take_drop_id [symmetric])

lemma decodeAck_rest: "decodeAck f p bs = Inr (p', r) \<Longrightarrow> \<exists>x. bs = x @ r"
  by (auto simp: decodeAck_def split: if_splits intro: append_take_drop_id [symmetric])

lemma DecodeProto_rest: "DecodeProto bs = Inr (p, rest) \<Longrightarrow> \<exists>x. bs = x @ rest"
proof -
  assume "DecodeProto bs = Inr (p, rest)"
  then obtain f p0 p1 r1 where v: "decodeVendor f p0 (drop 6 bs) = Inr (p1, r1)"
      and a: "decodeAck f p1 r1 = Inr (p, rest)"
    by (auto simp: DecodeProto_def Let_def split: if_splits sum.splits)
  obtain x y where "drop 6 bs = x @ r1" "r1 = y @ rest"
    using decodeVendor_rest [OF v] decodeAck_rest [OF a] by blast
  then have "bs = (take 6 bs @ x @ y) @ rest" by (metis append.assoc append_take_drop_id)
  then show ?thesis by blast
qed

interpretation prt: prefix_codec proto_ok ProtoHeader_Encode DecodeProto
  by unfold_locales (fact DecodeProto_Encode, fact DecodeProto_rest)

section \<open>Status reports\<close>

record StatusReport =
  sr_GeneralCode :: u16
  sr_ProtocolID :: u32
  sr_ProtocolCode :: u16

definition StatusReport_Encode :: "StatusReport \<Rightarrow> bytes" where
  "StatusReport_Encode s =
     le_bytes 2 (sr_GeneralCode s) @ le_bytes 4 (sr_ProtocolID s) @ le_bytes 2 (sr_ProtocolCode s)"

definition DecodeStatusReport :: "bytes \<Rightarrow> msg_error + StatusReport" where
  "DecodeStatusReport b =
     (if length b < 8 then Inl StatusTruncated
      else Inr \<lparr>sr_GeneralCode = le_word (take 2 b), sr_ProtocolID = le_word (take 4 (drop 2 b)),
             sr_ProtocolCode = le_word (take 2 (drop 6 b))\<rparr>)"

definition StatusReport_IsSuccess :: "StatusReport \<Rightarrow> bool" where
  "StatusReport_IsSuccess s \<longleftrightarrow> sr_GeneralCode s = 0"

lemma DecodeStatusReport_Encode: "DecodeStatusReport (StatusReport_Encode s @ rest) = Inr s"
proof -
  obtain a b where g: "le_bytes 2 (sr_GeneralCode s) = [a, b]" "le_word [a, b] = sr_GeneralCode s"
    by (rule le_bytes_two)
  obtain c d e f where i: "le_bytes 4 (sr_ProtocolID s) = [c, d, e, f]"
      "le_word [c, d, e, f] = sr_ProtocolID s"
    by (rule le_bytes_four)
  show ?thesis
    by (simp add: DecodeStatusReport_def StatusReport_Encode_def g i del: le_word.simps)
qed

section \<open>Layout\<close>

text \<open>A fact about a byte, by going through its 256 values.\<close>

lemma all_bytes: "list_all P (map word_of_nat [0..<256]) \<Longrightarrow> P (m :: byte)"
proof -
  assume "list_all P (map word_of_nat [0..<256])"
  then have "\<forall>n<256. P (word_of_nat n)" by (auto simp: list_all_iff)
  moreover have "unat m < 256" using unsigned_less [of m, where 'a = nat] by simp
  ultimately have "P (word_of_nat (unat m))" by blast
  then show ?thesis by simp
qed

lemma msgFlags_back:
  "drop_bit 4 (m AND flagVersionMask) = 0 \<longrightarrow> m AND 8 = 0 \<longrightarrow>
     (if m AND flagSource \<noteq> 0 then flagSource else 0) OR (m AND flagDSIZMask) = m"
  by (rule all_bytes [of _ m]) code_simp

lemma secFlags_back:
  "s AND secExtensions = 0 \<longrightarrow> s AND 0x1C = 0 \<longrightarrow>
     (s AND secSessionTypeMask) OR (if s AND secPrivacy \<noteq> 0 then secPrivacy else 0)
       OR (if s AND secControl \<noteq> 0 then secControl else 0) = s"
  by (rule all_bytes [of _ s]) code_simp

lemma le_bytes_take:
  "n \<le> length bs \<Longrightarrow> 8 * n \<le> LENGTH('a) \<Longrightarrow> le_bytes n (le_word (take n bs) :: 'a::len word) = take n bs"
  using le_bytes_le_word [of "take n bs", where 'a = 'a] by simp

lemma decodeSource_bytes:
  assumes "decodeSource f h bs = Inr (h', r)" "\<not> h_SourcePresent h"
  shows "\<exists>v. h' = h\<lparr>h_SourceNodeID := v, h_SourcePresent := (f AND flagSource \<noteq> 0)\<rparr>
     \<and> bs = (if f AND flagSource \<noteq> 0 then le_bytes 8 v else []) @ r"
proof (cases "f AND flagSource = 0")
  case False
  with assms have "8 \<le> length bs"
    "h' = h\<lparr>h_SourceNodeID := le_word (take 8 bs), h_SourcePresent := True\<rparr>" "r = drop 8 bs"
    by (auto simp: decodeSource_def split: if_splits)
  with False show ?thesis
    using le_bytes_take [of 8 bs, where 'a = 64]
    by (intro exI [of _ "le_word (take 8 bs)"]) simp
next
  case True
  with assms show ?thesis
    by (intro exI [of _ "h_SourceNodeID h"]) (simp add: decodeSource_def)
qed

lemma decodeDest_bytes:
  assumes "decodeDest k h bs = Inr (h', r)" "h_DestKind h = DestNone"
  shows "\<exists>n g. h' = h\<lparr>h_DestNodeID := n, h_DestGroupID := g, h_DestKind := k\<rparr> \<and> k \<le> DestGroup
     \<and> bs = (if k = DestNode then le_bytes 8 n else if k = DestGroup then le_bytes 2 g else []) @ r"
proof -
  consider "k = DestNone" | "k = DestNode" | "k = DestGroup"
    using assms(1) by (auto simp: decodeDest_def split: if_splits)
  then show ?thesis
  proof cases
    case 1
    with assms show ?thesis
      by (intro exI [of _ "h_DestNodeID h"] exI [of _ "h_DestGroupID h"]) (simp add: decodeDest_def)
  next
    case 2
    with assms have "8 \<le> length bs" "r = drop 8 bs"
        "h' = h\<lparr>h_DestNodeID := le_word (take 8 bs), h_DestKind := DestNode\<rparr>"
      by (auto simp: decodeDest_def split: if_splits)
    with 2 show ?thesis
      using le_bytes_take [of 8 bs, where 'a = 64]
      by (intro exI [of _ "le_word (take 8 bs)"] exI [of _ "h_DestGroupID h"]) simp
  next
    case 3
    with assms have "2 \<le> length bs" "r = drop 2 bs"
        "h' = h\<lparr>h_DestGroupID := le_word (take 2 bs), h_DestKind := DestGroup\<rparr>"
      by (auto simp: decodeDest_def split: if_splits)
    with 3 show ?thesis
      using le_bytes_take [of 2 bs, where 'a = 16]
      by (intro exI [of _ "h_DestNodeID h"] exI [of _ "le_word (take 2 bs)"]) simp
  qed
qed

lemma list_8: "8 \<le> length bs \<Longrightarrow> \<exists>m a b s c d e f t. bs = m # a # b # s # c # d # e # f # t"
  by (auto simp: numeral_eq_Suc Suc_le_length_iff)

lemma Header_Encode_Decode:
  assumes d: "Header_Decode bs = Inr (h, rest)" and res: "bs ! 0 AND 8 = 0" "bs ! 3 AND 0x1C = 0"
  shows "\<exists>p. bs = p @ rest \<and> Header_Encode h = Inr p"
proof -
  have "8 \<le> length bs" using d by (auto simp: Header_Decode_def split: if_splits)
  from list_8 [OF this] obtain m a b s c d' e f t where bs: "bs = m # a # b # s # c # d' # e # f # t"
    by blast
  let ?h = "zeroHeader\<lparr>h_SessionID := le_word [a, b], h_Counter := le_word [c, d', e, f],
      h_SessionType := s AND secSessionTypeMask,
      h_Privacy := s AND secPrivacy \<noteq> 0, h_Control := s AND secControl \<noteq> 0\<rparr>"
  obtain h1 r1 where v: "drop_bit 4 (m AND flagVersionMask) = 0" "s AND secExtensions = 0"
      and src: "decodeSource m ?h t = Inr (h1, r1)"
      and dst: "decodeDest (m AND flagDSIZMask) h1 r1 = Inr (h, rest)"
    using d unfolding bs Header_Decode_def Let_def nth_Cons_0
    by (auto simp del: le_word.simps split: if_splits sum.splits)
  have mf: "(if m AND flagSource \<noteq> 0 then flagSource else 0) OR (m AND flagDSIZMask) = m"
    using msgFlags_back [of m] v(1) res(1) bs by simp
  have sf: "(s AND secSessionTypeMask) OR (if s AND secPrivacy \<noteq> 0 then secPrivacy else 0)
       OR (if s AND secControl \<noteq> 0 then secControl else 0) = s"
    using secFlags_back [of s] v(2) res(2) bs by simp
  have "\<not> h_SourcePresent ?h" by (simp add: zeroHeader_def)
  from decodeSource_bytes [OF src this] obtain i where
    h1: "h1 = ?h\<lparr>h_SourceNodeID := i, h_SourcePresent := (m AND flagSource \<noteq> 0)\<rparr>"
    and t: "t = (if m AND flagSource \<noteq> 0 then le_bytes 8 i else []) @ r1" by blast
  have "h_DestKind h1 = DestNone" by (simp add: h1 zeroHeader_def)
  from decodeDest_bytes [OF dst this] obtain n g where
    h: "h = h1\<lparr>h_DestNodeID := n, h_DestGroupID := g, h_DestKind := m AND flagDSIZMask\<rparr>"
    and k: "m AND flagDSIZMask \<le> DestGroup"
    and r1: "r1 = (if m AND flagDSIZMask = DestNode then le_bytes 8 n
        else if m AND flagDSIZMask = DestGroup then le_bytes 2 g else []) @ rest" by blast
  have mf': "msgFlags h = m"
    unfolding msgFlags_def h h1 by (simp add: mf and.assoc)
  have sf': "secFlags h = s"
    unfolding secFlags_def h h1 by (simp add: sf and.assoc)
  show ?thesis
    unfolding Header_Encode_def mf' sf' bs t r1
    using k by (simp add: h h1 le_bytes_back not_less del: le_word.simps)
qed

section \<open>Properties\<close>

lemma Header_Encode_ok: "header_ok h \<Longrightarrow> Header_Encode h = Inr (header_bytes h)"
  by (simp add: header_ok_def header_bytes_def Header_Encode_def not_less)

text \<open>C12: A frame, the encoded message header, the encoded protocol header and a payload, is taken
  apart again by \<^verbatim>\<open>Decode\<close> and \<^verbatim>\<open>DecodeProto\<close>, for every combination of the optional fields:
  both headers come back, and so does the payload, byte for byte.\<close>

theorem frame_roundtrip:
  assumes "header_ok h" "proto_ok p"
  shows "\<exists>b. Header_Encode h = Inr b
    \<and> Header_Decode (b @ ProtoHeader_Encode p @ payload) = Inr (h, ProtoHeader_Encode p @ payload)
    \<and> DecodeProto (ProtoHeader_Encode p @ payload) = Inr (p, payload)"
  using Header_Encode_ok [OF assms(1)] hdr.dec_enc [OF assms(1)] prt.dec_enc [OF assms(2)] by blast

definition example_header :: Header where
  "example_header = zeroHeader\<lparr>h_SessionID := 0x1234, h_Counter := 77, h_Control := True,
     h_SourceNodeID := 0x1122334455667788, h_SourcePresent := True, h_DestGroupID := 9,
     h_DestKind := DestGroup\<rparr>"

definition example_proto :: ProtoHeader where
  "example_proto = \<lparr>p_Initiator = True, p_Reliable = True, p_Opcode = 8, p_ExchangeID = 5,
     p_ProtocolID = 1, p_VendorID = 0, p_VendorPresent = False, p_AckCounter = 76, p_AckPresent = True\<rparr>"

theorem frame_roundtrip_witness:
  "\<exists>b. Header_Encode example_header = Inr b
    \<and> Header_Decode (b @ ProtoHeader_Encode example_proto @ [1, 2, 3])
        = Inr (example_header, ProtoHeader_Encode example_proto @ [1, 2, 3])
    \<and> DecodeProto (ProtoHeader_Encode example_proto @ [1, 2, 3]) = Inr (example_proto, [1, 2, 3])"
  by (rule frame_roundtrip) code_simp+

text \<open>The layout of a received header is kept: if the reserved flag bits, which \<^verbatim>\<open>Decode\<close>
  ignores, are zero, re-encoding the decoded header gives exactly the bytes in front of the rest,
  so either can serve as the AEAD's additional data.\<close>

theorem header_layout_kept:
  assumes "Header_Decode bs = Inr (h, rest)" "bs ! 0 AND 8 = 0" "bs ! 3 AND 0x1C = 0"
  shows "Header_Encode h = Inr (take (length bs - length rest) bs)"
  using Header_Encode_Decode [OF assms] by auto

theorem header_layout_kept_witness:
  "Header_Encode (fst (projr (Header_Decode [0, 1, 2, 0x40, 3, 4, 5, 6, 7])))
     = Inr [0, 1, 2, 0x40, 3, 4, 5, 6]"
proof -
  have "Header_Decode [0, 1, 2, 0x40, 3, 4, 5, 6, 7]
      = Inr (fst (projr (Header_Decode [0, 1, 2, 0x40, 3, 4, 5, 6, 7])), [7])" by code_simp
  from header_layout_kept [OF this] show ?thesis by simp
qed

text \<open>With a reserved bit set the layout is not kept: \<^verbatim>\<open>Decode\<close> accepts the header, and
  re-encoding it clears the bit. (The comment on \<^verbatim>\<open>Header\<close> says the exact layout is preserved;
  \<^verbatim>\<open>DecryptMsg\<close> uses the received bytes and does not depend on it.)\<close>

theorem header_reserved_bits_lost:
  "\<exists>h. Header_Decode [8, 1, 2, 0x1C, 3, 4, 5, 6] = Inr (h, [])
     \<and> Header_Encode h = Inr [0, 1, 2, 0, 3, 4, 5, 6]"
  by (rule exI [of _ "fst (projr (Header_Decode [8, 1, 2, 0x1C, 3, 4, 5, 6]))"]) code_simp

text \<open>A status report survives encoding, also when bytes follow it.\<close>

theorem status_report_roundtrip: "DecodeStatusReport (StatusReport_Encode s @ rest) = Inr s"
  by (rule DecodeStatusReport_Encode)

end
