(* ===== verification/Ccm.thy ===== *)
theory Ccm
  imports Prelude
begin

text \<open>
  AES-CCM, \<^verbatim>\<open>go-matter/crypto/ccm.go\<close>. The block cipher is a parameter: the record holds the
  function that \<^verbatim>\<open>cipher.Block.Encrypt\<close> computes under the session's key. Its result is stored
  into an array of 16 bytes, which \<open>blockEncrypt\<close> writes out by cutting or padding to 16, so
  no assumption on the parameter is needed. A panic is an error value.

  The interface \<open>aead\<close> is what a session relies on; the CCM with Matter's parameters provides it.
\<close>

section \<open>Authenticated encryption\<close>

locale aead =
  fixes seal :: "bytes \<Rightarrow> bytes \<Rightarrow> bytes \<Rightarrow> 'e + bytes"
    and unseal :: "bytes \<Rightarrow> bytes \<Rightarrow> bytes \<Rightarrow> 'e + bytes"
    and nonce_ok :: "bytes \<Rightarrow> bool" and max_plain :: nat and max_aad :: nat and overhead :: nat
  assumes seal_returns:
      "nonce_ok n \<Longrightarrow> length p \<le> max_plain \<Longrightarrow> length a \<le> max_aad \<Longrightarrow> \<exists>c. seal n p a = Inr c"
    and seal_length: "seal n p a = Inr c \<Longrightarrow> length c = length p + overhead"
    and unseal_seal: "seal n p a = Inr c \<Longrightarrow> unseal n c a = Inr p"
    and unseal_only: "unseal n c a = Inr p \<Longrightarrow> length p \<le> max_plain \<Longrightarrow> seal n p a = Inr c"
begin

lemma seal_inj: "seal n p a = Inr c \<Longrightarrow> seal n q a = Inr c \<Longrightarrow> p = q"
  using unseal_seal [of n p a c] unseal_seal [of n q a c] by simp

text \<open>Of all ciphertexts, exactly one decrypts to a given plaintext.\<close>

lemma unseal_unique:
  "unseal n c a = Inr p \<Longrightarrow> unseal n d a = Inr p \<Longrightarrow> length p \<le> max_plain \<Longrightarrow> c = d"
  using unseal_only [of n c a p] unseal_only [of n d a p] by simp

end

section \<open>The cipher\<close>

abbreviation CCMNonceSize :: nat where "CCMNonceSize \<equiv> 13"
abbreviation CCMTagSize :: nat where "CCMTagSize \<equiv> 16"

record ccm =
  c_block :: "bytes \<Rightarrow> bytes"
  c_nonceLen :: nat
  c_tagLen :: nat

datatype ccm_error = KeyLength nat | NonceLengthRange nat | TagLengthInvalid nat
  | IncorrectNonceLength | AadTooLarge | PlaintextTooLarge | CiphertextTooShort | AuthFailed

text \<open>\<^verbatim>\<open>newCCM\<close>; \<open>aes\<close> stands for \<^verbatim>\<open>aes.NewCipher\<close>, which accepts every key of 16 bytes.\<close>

definition newCCM :: "(bytes \<Rightarrow> bytes \<Rightarrow> bytes) \<Rightarrow> bytes \<Rightarrow> nat \<Rightarrow> nat \<Rightarrow> ccm_error + ccm" where
  "newCCM aes key nonceLen tagLen =
     (if length key \<noteq> 16 then Inl (KeyLength (length key))
      else if nonceLen < 7 \<or> nonceLen > 13 then Inl (NonceLengthRange nonceLen)
      else if tagLen < 4 \<or> tagLen > 16 \<or> tagLen mod 2 \<noteq> 0 then Inl (TagLengthInvalid tagLen)
      else Inr \<lparr>c_block = aes key, c_nonceLen = nonceLen, c_tagLen = tagLen\<rparr>)"

definition NewCCM :: "(bytes \<Rightarrow> bytes \<Rightarrow> bytes) \<Rightarrow> bytes \<Rightarrow> ccm_error + ccm" where
  "NewCCM aes key = newCCM aes key CCMNonceSize CCMTagSize"

definition ccm_ok :: "ccm \<Rightarrow> bool" where
  "ccm_ok c \<longleftrightarrow> 7 \<le> c_nonceLen c \<and> c_nonceLen c \<le> 13
     \<and> 4 \<le> c_tagLen c \<and> c_tagLen c \<le> 16 \<and> even (c_tagLen c)"

lemma newCCM_ok: "newCCM aes key n t = Inr c \<Longrightarrow> ccm_ok c"
  by (auto simp: newCCM_def ccm_ok_def even_iff_mod_2_eq_zero split: if_splits)

text \<open>\<^verbatim>\<open>var blk [16]byte; copy(blk[:], b)\<close>\<close>

definition block16 :: "bytes \<Rightarrow> bytes" where
  "block16 b = take 16 (b @ replicate 16 0)"

lemma length_block16 [simp]: "length (block16 b) = 16"
  by (simp add: block16_def)

lemma block16_id [simp]: "length b = 16 \<Longrightarrow> block16 b = b"
  by (simp add: block16_def)

definition blockEncrypt :: "ccm \<Rightarrow> bytes \<Rightarrow> bytes" where
  "blockEncrypt c b = block16 (c_block c b)"

definition xor_bytes :: "bytes \<Rightarrow> bytes \<Rightarrow> bytes" where
  "xor_bytes x y = map2 (XOR) x y"

lemma length_xor_bytes [simp]: "length (xor_bytes x y) = min (length x) (length y)"
  by (simp add: xor_bytes_def)

lemma xor_bytes_twice: "length x \<le> length y \<Longrightarrow> xor_bytes (xor_bytes x y) y = x"
  by (rule nth_equalityI) (simp_all add: xor_bytes_def xor.assoc)

definition lenField :: "ccm \<Rightarrow> nat" where
  "lenField c = 15 - c_nonceLen c"

definition maxPayload :: "ccm \<Rightarrow> nat" where
  "maxPayload c = (if lenField c < 8 then 2 ^ (8 * lenField c) - 1 else 2 ^ 64 - 1)"

text \<open>\<^verbatim>\<open>putBE\<close>: the destinations in this file are \<open>n\<close> bytes long.\<close>

definition putBE :: "u64 \<Rightarrow> nat \<Rightarrow> bytes" where
  "putBE v n = be_bytes n v"

definition macBlock :: "ccm \<Rightarrow> bytes \<Rightarrow> bytes \<Rightarrow> bytes" where
  "macBlock c x blk = blockEncrypt c (xor_bytes x blk)"

function macRegion :: "ccm \<Rightarrow> bytes \<Rightarrow> bytes \<Rightarrow> bytes" where
  "macRegion c x buf =
     (if buf = [] then x else macRegion c (macBlock c x (block16 buf)) (drop 16 buf))"
  by pat_completeness auto
termination by (relation "measure (\<lambda>(c, x, buf). length buf)") auto

declare macRegion.simps [simp del]

definition macFlags :: "ccm \<Rightarrow> bytes \<Rightarrow> byte" where
  "macFlags c aad =
     (of_nat (lenField c - 1) OR push_bit 3 (of_nat ((c_tagLen c - 2) div 2)))
       OR (if aad \<noteq> [] then 0x40 else 0)"

definition macStart :: "ccm \<Rightarrow> bytes \<Rightarrow> bytes \<Rightarrow> nat \<Rightarrow> bytes" where
  "macStart c nonce aad n = macFlags c aad # nonce @ putBE (of_nat n) (lenField c)"

definition mac :: "ccm \<Rightarrow> bytes \<Rightarrow> bytes \<Rightarrow> bytes \<Rightarrow> bytes" where
  "mac c nonce aad plaintext =
     (let x = macBlock c (replicate 16 0) (macStart c nonce aad (length plaintext));
          x = (if aad \<noteq> [] then macRegion c x (be_bytes 2 (of_nat (length aad) :: u16) @ aad) else x);
          x = macRegion c x plaintext
      in take (c_tagLen c) x)"

definition ctrBlock :: "ccm \<Rightarrow> bytes \<Rightarrow> u64 \<Rightarrow> bytes" where
  "ctrBlock c nonce counter = of_nat (lenField c - 1) # nonce @ putBE counter (lenField c)"

function ctr :: "ccm \<Rightarrow> bytes \<Rightarrow> u64 \<Rightarrow> bytes \<Rightarrow> bytes" where
  "ctr c nonce counter src =
     (if src = [] then []
      else xor_bytes (take 16 src) (blockEncrypt c (ctrBlock c nonce counter))
        @ ctr c nonce (counter + 1) (drop 16 src))"
  by pat_completeness auto
termination by (relation "measure (\<lambda>(c, n, i, src). length src)") auto

declare ctr.simps [simp del]

definition keystream0 :: "ccm \<Rightarrow> bytes \<Rightarrow> bytes" where
  "keystream0 c nonce = blockEncrypt c (ctrBlock c nonce 0)"

definition Ccm_Seal :: "ccm \<Rightarrow> bytes \<Rightarrow> bytes \<Rightarrow> bytes \<Rightarrow> bytes \<Rightarrow> ccm_error + bytes" where
  "Ccm_Seal c dst nonce plaintext aad =
     (if length nonce \<noteq> c_nonceLen c then Inl IncorrectNonceLength
      else if length aad \<ge> 0xFF00 then Inl AadTooLarge
      else if length plaintext > maxPayload c then Inl PlaintextTooLarge
      else Inr (dst @ ctr c nonce 1 plaintext
             @ xor_bytes (mac c nonce aad plaintext) (keystream0 c nonce)))"

definition Ccm_Open :: "ccm \<Rightarrow> bytes \<Rightarrow> bytes \<Rightarrow> bytes \<Rightarrow> bytes \<Rightarrow> ccm_error + bytes" where
  "Ccm_Open c dst nonce ciphertext aad =
     (if length nonce \<noteq> c_nonceLen c then Inl IncorrectNonceLength
      else if length ciphertext < c_tagLen c then Inl CiphertextTooShort
      else if length aad \<ge> 0xFF00 then Inl AadTooLarge
      else
        let ctLen = length ciphertext - c_tagLen c;
            plaintext = ctr c nonce 1 (take ctLen ciphertext);
            tag = xor_bytes (mac c nonce aad plaintext) (keystream0 c nonce)
        in if tag \<noteq> drop ctLen ciphertext then Inl AuthFailed else Inr (dst @ plaintext))"

section \<open>Counter mode and lengths\<close>

lemma length_blockEncrypt [simp]: "length (blockEncrypt c b) = 16"
  by (simp add: blockEncrypt_def)

lemma ctr_Nil [simp]: "ctr c nonce i [] = []"
  by (subst ctr.simps) simp

lemma length_ctr [simp]: "length (ctr c nonce i src) = length src"
  by (induction c nonce i src rule: ctr.induct) (subst ctr.simps, simp add: min_def)

lemma ctr_ctr [simp]: "ctr c nonce i (ctr c nonce i src) = src"
proof (induction c nonce i src rule: ctr.induct)
  case (1 c nonce i src)
  show ?case
  proof (cases "src = []")
    case False
    let ?k = "blockEncrypt c (ctrBlock c nonce i)"
    let ?x = "xor_bytes (take 16 src) ?k" and ?y = "ctr c nonce (i + 1) (drop 16 src)"
    have e: "ctr c nonce i src = ?x @ ?y" using False by (subst ctr.simps) simp
    have "0 < length ?x" using False by simp
    then have x: "?x \<noteq> []" by (simp only: length_greater_0_conv simp_thms)
    have "length ?x = 16 \<or> ?y = []" "length ?x \<le> 16"
      by (cases "16 \<le> length src"; simp)+
    then have td: "take 16 (?x @ ?y) = ?x" "drop 16 (?x @ ?y) = ?y" by auto
    have "ctr c nonce i (?x @ ?y) = xor_bytes ?x ?k @ ctr c nonce (i + 1) ?y"
      using x by (subst ctr.simps) (simp add: td del: take_append drop_append)
    also have "\<dots> = take 16 src @ drop 16 src"
      using 1 [OF False] by (simp add: xor_bytes_twice)
    finally show ?thesis by (simp add: e)
  qed (simp add: ctr.simps)
qed

lemma length_macRegion [simp]: "length x = 16 \<Longrightarrow> length (macRegion c x buf) = 16"
  by (induction c x buf rule: macRegion.induct) (subst macRegion.simps, simp add: macBlock_def)

lemma length_mac [simp]: "c_tagLen c \<le> 16 \<Longrightarrow> length (mac c nonce aad p) = c_tagLen c"
  by (simp add: mac_def Let_def macBlock_def)

section \<open>Seal and Open are inverse\<close>

lemma Seal_length:
  assumes "c_tagLen c \<le> 16" "Ccm_Seal c dst nonce p aad = Inr ct"
  shows "length ct = length dst + length p + c_tagLen c"
  using assms by (auto simp: Ccm_Seal_def keystream0_def split: if_splits)

lemma Open_Seal:
  assumes "c_tagLen c \<le> 16" "Ccm_Seal c [] nonce p aad = Inr ct"
  shows "Ccm_Open c [] nonce ct aad = Inr p"
  using assms by (auto simp: Ccm_Seal_def Ccm_Open_def keystream0_def Let_def split: if_splits)

lemma Seal_Open:
  assumes "Ccm_Open c [] nonce ct aad = Inr p" "length p \<le> maxPayload c"
  shows "Ccm_Seal c [] nonce p aad = Inr ct"
proof -
  let ?n = "length ct - c_tagLen c"
  have p: "p = ctr c nonce 1 (take ?n ct)"
    and tag: "xor_bytes (mac c nonce aad p) (keystream0 c nonce) = drop ?n ct"
    and ok: "length nonce = c_nonceLen c" "length aad < 0xFF00"
    using assms(1) by (auto simp: Ccm_Open_def Let_def split: if_splits)
  have "ctr c nonce 1 p = take ?n ct" by (simp add: p)
  with tag ok assms(2) show ?thesis by (simp add: Ccm_Seal_def)
qed

text \<open>The AEAD that \<^verbatim>\<open>NewCCM\<close> makes.\<close>

definition matter_ccm :: "(bytes \<Rightarrow> bytes) \<Rightarrow> ccm" where
  "matter_ccm E = \<lparr>c_block = E, c_nonceLen = CCMNonceSize, c_tagLen = CCMTagSize\<rparr>"

lemma NewCCM_matter: "NewCCM aes key = Inr c \<Longrightarrow> c = matter_ccm (aes key)"
  by (auto simp: NewCCM_def newCCM_def matter_ccm_def split: if_splits)

lemma matter_ccm_simps [simp]:
  "c_nonceLen (matter_ccm E) = 13" "c_tagLen (matter_ccm E) = 16" "maxPayload (matter_ccm E) = 65535"
  by (simp_all add: matter_ccm_def maxPayload_def lenField_def)

interpretation ccm_aead: aead "Ccm_Seal (matter_ccm E) []" "Ccm_Open (matter_ccm E) []"
    "\<lambda>n. length n = 13" 65535 "0xFEFF" 16 for E
proof unfold_locales
  show "Ccm_Open (matter_ccm E) [] n c a = Inr p"
    if "Ccm_Seal (matter_ccm E) [] n p a = Inr c" for n p a c
    using Open_Seal [OF _ that] by simp
  show "Ccm_Seal (matter_ccm E) [] n p a = Inr c"
    if "Ccm_Open (matter_ccm E) [] n c a = Inr p" "length p \<le> 65535" for n c a p
    using Seal_Open [OF that(1)] that(2) by simp
  show "length c = length p + 16" if "Ccm_Seal (matter_ccm E) [] n p a = Inr c" for n p a c
    using Seal_length [OF _ that] by simp
qed (simp add: Ccm_Seal_def)

section \<open>The authenticated blocks\<close>

text \<open>
  The nonce, the additional data and the payload as the code feeds them to the cipher, one string of
  16-byte blocks of which the tag is the CBC-MAC. The string determines all three, so two different
  messages are never authenticated by the same blocks.
\<close>

definition pad16 :: "bytes \<Rightarrow> bytes" where
  "pad16 b = b @ replicate ((16 - length b mod 16) mod 16) 0"

definition ccm_format :: "ccm \<Rightarrow> bytes \<Rightarrow> bytes \<Rightarrow> bytes \<Rightarrow> bytes" where
  "ccm_format c nonce aad p =
     macStart c nonce aad (length p)
     @ (if aad = [] then [] else pad16 (be_bytes 2 (of_nat (length aad) :: u16) @ aad))
     @ pad16 p"

function cbc_mac :: "ccm \<Rightarrow> bytes \<Rightarrow> bytes \<Rightarrow> bytes" where
  "cbc_mac c x s =
     (if s = [] then x else cbc_mac c (blockEncrypt c (xor_bytes x (take 16 s))) (drop 16 s))"
  by pat_completeness auto
termination by (relation "measure (\<lambda>(c, x, s). length s)") auto

declare cbc_mac.simps [simp del]

lemma cbc_mac_Nil [simp]: "cbc_mac c x [] = x"
  by (subst cbc_mac.simps) simp

lemma length_pad16_mod: "length (pad16 b) mod 16 = 0"
proof -
  let ?n = "length b" and ?r = "length b mod 16"
  have "?r + (16 - ?r) = 16" by simp
  then have "16 * (?n div 16) + ?r + (16 - ?r) = 16 * (?n div 16 + 1)" by (simp only: add.assoc) simp
  then have "?n + (16 - ?r) = 16 * (?n div 16 + 1)" by (simp only: mult_div_mod_eq)
  then have "(?n + (16 - ?n mod 16)) mod 16 = 0" by (simp only: mod_mult_self1_is_0)
  then show ?thesis by (simp only: pad16_def length_append length_replicate mod_add_right_eq)
qed

lemma cbc_mac_append:
  "length s mod 16 = 0 \<Longrightarrow> cbc_mac c x (s @ t) = cbc_mac c (cbc_mac c x s) t"
proof (induction c x s rule: cbc_mac.induct)
  case (1 c x s)
  obtain k where k: "length s = 16 * k" using "1.prems" by (auto simp: mod_eq_0_iff_dvd)
  show ?case
  proof (cases "s = []")
    case False
    with k obtain j where j: "k = Suc j" by (cases k) auto
    then have l: "16 \<le> length s" and m: "length (drop 16 s) mod 16 = 0" using k by simp_all
    have "cbc_mac c x (s @ t) = cbc_mac c (blockEncrypt c (xor_bytes x (take 16 s))) (drop 16 s @ t)"
      using False l by (subst cbc_mac.simps) simp
    also have "\<dots> = cbc_mac c (cbc_mac c (blockEncrypt c (xor_bytes x (take 16 s))) (drop 16 s)) t"
      by (rule "1.IH" [OF False m])
    also have "cbc_mac c (blockEncrypt c (xor_bytes x (take 16 s))) (drop 16 s) = cbc_mac c x s"
      using False by (subst (2) cbc_mac.simps) simp
    finally show ?thesis .
  qed (simp add: cbc_mac.simps)
qed

lemma pad16_long: "16 \<le> length b \<Longrightarrow> pad16 b = take 16 b @ pad16 (drop 16 b)"
  by (simp add: pad16_def le_mod_geq)

lemma pad16_short: "b \<noteq> [] \<Longrightarrow> length b < 16 \<Longrightarrow> pad16 b = block16 b"
  by (simp add: pad16_def block16_def)

lemma pad16_Nil [simp]: "pad16 [] = []"
  by (simp add: pad16_def)

lemma macRegion_cbc: "macRegion c x buf = cbc_mac c x (pad16 buf)"
proof (induction c x buf rule: macRegion.induct)
  case (1 c x buf)
  consider "buf = []" | "buf \<noteq> []" "length buf < 16" | "16 \<le> length buf" by fastforce
  then show ?case
  proof cases
    case 1
    then show ?thesis by (simp add: macRegion.simps cbc_mac.simps)
  next
    case 2
    have "macRegion c x buf = cbc_mac c (macBlock c x (block16 buf)) []"
      using "1.IH" [OF 2(1)] 2 by (subst macRegion.simps) simp
    also have "\<dots> = cbc_mac c x (block16 buf)"
    proof -
      have "block16 buf \<noteq> []" by (simp add: block16_def)
      then show ?thesis by (subst (2) cbc_mac.simps) (simp add: macBlock_def)
    qed
    finally show ?thesis using 2 by (simp add: pad16_short)
  next
    case 3
    then have ne: "buf \<noteq> []" by auto
    have "block16 buf = take 16 buf" using 3 by (simp add: block16_def)
    then have "macRegion c x buf
        = cbc_mac c (blockEncrypt c (xor_bytes x (take 16 buf))) (pad16 (drop 16 buf))"
      using "1.IH" [OF ne] ne by (subst macRegion.simps) (simp add: macBlock_def)
    also have "\<dots> = cbc_mac c x (take 16 buf @ pad16 (drop 16 buf))"
      using 3 ne by (subst (2) cbc_mac.simps) (simp add: min_def)
    finally show ?thesis using 3 by (simp add: pad16_long)
  qed
qed

lemma length_putBE [simp]: "length (putBE v n) = n"
  by (simp add: putBE_def)

lemma length_macStart:
  "ccm_ok c \<Longrightarrow> length nonce = c_nonceLen c \<Longrightarrow> length (macStart c nonce aad n) = 16"
  by (simp add: macStart_def lenField_def ccm_ok_def)

lemma mac_cbc:
  assumes "ccm_ok c" "length nonce = c_nonceLen c"
  shows "mac c nonce aad p = take (c_tagLen c) (cbc_mac c (replicate 16 0) (ccm_format c nonce aad p))"
proof -
  let ?b0 = "macStart c nonce aad (length p)" and ?z = "replicate 16 0 :: bytes"
  have l: "length ?b0 = 16" by (rule length_macStart [OF assms])
  then have "?b0 \<noteq> []" by auto
  then have "cbc_mac c ?z ?b0 = macBlock c ?z ?b0"
    using l by (subst cbc_mac.simps) (simp add: macBlock_def cbc_mac.simps)
  then have "cbc_mac c ?z (?b0 @ t) = cbc_mac c (macBlock c ?z ?b0) t" for t
    using cbc_mac_append [of ?b0 c ?z t] l by simp
  then show ?thesis
    by (auto simp: mac_def Let_def ccm_format_def macRegion_cbc cbc_mac_append length_pad16_mod)
qed

lemma be_bytes_inj:
  assumes "be_bytes n (of_nat i :: 'a::len word) = be_bytes n (of_nat j :: 'a word)"
    and "i < 2 ^ (8 * n)" "j < 2 ^ (8 * n)" "i < 2 ^ LENGTH('a)" "j < 2 ^ LENGTH('a)"
  shows "i = j"
proof -
  have "le_word (le_bytes n (of_nat i :: 'a word)) = (le_word (le_bytes n (of_nat j :: 'a word)) :: 'a word)"
    using assms(1) by (simp add: be_bytes_def)
  then have "of_nat (take_bit (8 * n) i) = (of_nat (take_bit (8 * n) j) :: 'a word)"
    by (simp add: le_word_le_bytes take_bit_of_nat)
  then have "of_nat i = (of_nat j :: 'a word)" using assms by (simp add: take_bit_nat_eq_self)
  then have "unat (of_nat i :: 'a word) = unat (of_nat j :: 'a word)" by simp
  then show ?thesis using assms by (simp add: unsigned_of_nat take_bit_nat_eq_self)
qed

lemma macFlags_adata:
  assumes "ccm_ok c" shows "bit (macFlags c aad) 6 \<longleftrightarrow> aad \<noteq> []"
proof -
  have "lenField c - 1 < 8" "(c_tagLen c - 2) div 2 < 8"
    using assms by (auto simp: ccm_ok_def lenField_def)
  then have "\<not> bit (of_nat (lenField c - 1) :: byte) 6" "\<not> bit (of_nat ((c_tagLen c - 2) div 2) :: byte) 3"
    by (simp_all only: bit_of_nat_iff) (simp_all add: bit_iff_odd)
  moreover have "bit (0x40 :: byte) 6" by simp
  ultimately show ?thesis by (simp add: macFlags_def bit_or_iff bit_push_bit_iff)
qed

lemma pad16_inj: "pad16 a = pad16 b \<Longrightarrow> length a = length b \<Longrightarrow> a = b"
  by (simp add: pad16_def)

lemma length_pad16_cong: "length a = length b \<Longrightarrow> length (pad16 a) = length (pad16 b)"
  by (simp add: pad16_def)

lemma ccm_format_inj:
  assumes ok: "ccm_ok c" and n: "length n = c_nonceLen c" "length n' = c_nonceLen c"
    and a: "length a < 0xFF00" "length a' < 0xFF00"
    and p: "length p \<le> maxPayload c" "length p' \<le> maxPayload c"
    and eq: "ccm_format c n a p = ccm_format c n' a' p'"
  shows "n = n' \<and> a = a' \<and> p = p'"
proof -
  let ?s = "\<lambda>a :: bytes. if a = [] then [] else pad16 (be_bytes 2 (of_nat (length a) :: u16) @ a)"
  have 0: "macStart c n a (length p) = macStart c n' a' (length p')"
    and t: "?s a @ pad16 p = ?s a' @ pad16 p'"
    using eq length_macStart [OF ok n(1)] length_macStart [OF ok n(2)]
    by (auto simp: ccm_format_def)
  from 0 n have fl: "macFlags c a = macFlags c a'" and nn: "n = n'"
    and len: "putBE (of_nat (length p)) (lenField c) = putBE (of_nat (length p')) (lenField c)"
    by (auto simp: macStart_def)
  have empty: "a = [] \<longleftrightarrow> a' = []" using macFlags_adata [OF ok] fl by metis
  have max: "m < 2 ^ (8 * lenField c) \<and> m < 2 ^ 64" if "m \<le> maxPayload c" for m
  proof (cases "lenField c < 8")
    case True
    have "(2 :: nat) ^ (8 * lenField c) \<le> 2 ^ 64" by (rule power_increasing) (use True in auto)
    moreover have "0 < (2 :: nat) ^ (8 * lenField c)" by simp
    moreover have "m \<le> 2 ^ (8 * lenField c) - 1" using that True by (simp add: maxPayload_def)
    ultimately have "(2 :: nat) ^ (8 * lenField c) \<le> 2 ^ 64" "m < 2 ^ (8 * lenField c)" by linarith+
    then show ?thesis by simp
  next
    case False
    have "(2 :: nat) ^ 64 \<le> 2 ^ (8 * lenField c)" by (rule power_increasing) (use False in auto)
    moreover have "m < 2 ^ 64" using that False by (simp add: maxPayload_def)
    ultimately show ?thesis by simp
  qed
  have lp: "length p = length p'"
    using be_bytes_inj [OF len [unfolded putBE_def]] max [OF p(1)] max [OF p(2)] by simp
  then have "?s a = ?s a'" "pad16 p = pad16 p'"
    using t length_pad16_cong [OF lp] by (auto simp: append_eq_append_conv)
  then have pp: "p = p'" using pad16_inj lp by blast
  have "a = a'"
  proof (cases "a = []")
    case False
    let ?l = "\<lambda>a :: bytes. be_bytes 2 (of_nat (length a) :: u16)"
    have "pad16 (?l a @ a) = pad16 (?l a' @ a')" using \<open>?s a = ?s a'\<close> False empty by simp
    then have q: "take 2 (pad16 (?l a @ a)) = take 2 (pad16 (?l a' @ a'))"
      and r: "pad16 (?l a @ a) = pad16 (?l a' @ a')" by simp_all
    have "?l a = ?l a'" using q by (simp add: pad16_def)
    then have "length a = length a'" using a by (intro be_bytes_inj) auto
    then show ?thesis using pad16_inj [OF r] by simp
  qed (use empty in simp)
  with nn pp show ?thesis by simp
qed

section \<open>Properties\<close>

text \<open>C6: For every key and every admissible choice of nonce and tag length, and whatever the block
  cipher computes: what \<^verbatim>\<open>Seal\<close> returns is the plaintext's length plus the tag's, \<^verbatim>\<open>Open\<close> under the
  same nonce and additional data gives the plaintext back, and \<^verbatim>\<open>Open\<close> accepts nothing else: a
  ciphertext that opens to a plaintext of admissible length is the one \<^verbatim>\<open>Seal\<close> makes of it.\<close>

theorem ccm_seal_open:
  assumes "newCCM aes key n t = Inr c"
  shows "(Ccm_Seal c [] nonce p aad = Inr ct \<longrightarrow>
      length ct = length p + t \<and> Ccm_Open c [] nonce ct aad = Inr p)
    \<and> (Ccm_Open c [] nonce ct aad = Inr p \<longrightarrow> length p \<le> maxPayload c \<longrightarrow>
      Ccm_Seal c [] nonce p aad = Inr ct)"
proof -
  have t: "c_tagLen c = t" using assms by (auto simp: newCCM_def split: if_splits)
  have le: "c_tagLen c \<le> 16" using newCCM_ok [OF assms] by (simp add: ccm_ok_def)
  show ?thesis
  proof (intro conjI impI)
    assume s: "Ccm_Seal c [] nonce p aad = Inr ct"
    show "length ct = length p + t" using Seal_length [OF le s] t by simp
    show "Ccm_Open c [] nonce ct aad = Inr p" by (rule Open_Seal [OF le s])
  qed (rule Seal_Open)
qed

theorem ccm_seal_open_witness:
  "let c = \<lparr>c_block = map (\<lambda>b. b + 1), c_nonceLen = 13, c_tagLen = 16\<rparr>;
       ct = projr (Ccm_Seal c [] (replicate 13 7) [10, 20, 30] [1])
   in length ct = 19 \<and> Ccm_Open c [] (replicate 13 7) ct [1] = Inr [10, 20, 30]"
proof -
  let ?c = "\<lparr>c_block = map (\<lambda>b :: byte. b + 1), c_nonceLen = 13, c_tagLen = 16\<rparr>"
  have "newCCM (\<lambda>key. map (\<lambda>b. b + 1)) (replicate 16 0) 13 16 = Inr ?c"
    by (simp add: newCCM_def)
  from ccm_seal_open [OF this, of "replicate 13 7" "[10, 20, 30]" "[1]"
      "projr (Ccm_Seal ?c [] (replicate 13 7) [10, 20, 30] [1])"]
  show ?thesis by (simp add: Ccm_Seal_def maxPayload_def lenField_def)
qed

text \<open>
  The formatting function of NIST SP 800-38C, appendix A.2, written down from the standard over
  numbers and octet strings: the flags octet is \<open>64 \<sqdot> Adata + 8 \<sqdot> (t - 2)/2 + (q - 1)\<close> for a tag of \<open>t\<close>
  octets and a length field of \<open>q = 15 - n\<close> octets behind a nonce of \<open>n\<close>; the nonce and the payload's
  length in \<open>q\<close> octets, most significant first, complete the first block; the additional data follow
  their length (two octets below \<open>2^16 - 2^8\<close>, then \<open>FF FE\<close> and four, then \<open>FF FF\<close> and eight), and
  they and the payload are padded with zeros to whole blocks.
\<close>

definition octets :: "nat \<Rightarrow> nat \<Rightarrow> bytes" where
  "octets q n = map (\<lambda>i. of_nat (n div 256 ^ (q - 1 - i))) [0..<q]"

definition sp_flags :: "nat \<Rightarrow> nat \<Rightarrow> bool \<Rightarrow> nat" where
  "sp_flags t q adata = 64 * (if adata then 1 else 0) + 8 * ((t - 2) div 2) + (q - 1)"

definition sp_adata :: "bytes \<Rightarrow> bytes" where
  "sp_adata a =
     (if length a = 0 then []
      else if length a < 2 ^ 16 - 2 ^ 8 then octets 2 (length a) @ a
      else if length a < 2 ^ 32 then [0xFF, 0xFE] @ octets 4 (length a) @ a
      else [0xFF, 0xFF] @ octets 8 (length a) @ a)"

definition sp800_38c_format :: "nat \<Rightarrow> bytes \<Rightarrow> bytes \<Rightarrow> bytes \<Rightarrow> bytes" where
  "sp800_38c_format t nonce a p =
     (let q = 15 - length nonce
      in [of_nat (sp_flags t q (length a > 0))] @ nonce @ octets q (length p)
         @ pad16 (sp_adata a) @ pad16 p)"

lemma octets_be_bytes:
  assumes "q * 8 \<le> LENGTH('a::len)"
  shows "octets q n = be_bytes q (of_nat n :: 'a word)"
proof (rule nth_equalityI)
  fix i assume "i < length (octets q n)"
  then have i: "i < q" by (simp add: octets_def)
  have "bit (octets q n ! i) k = bit (be_bytes q (of_nat n :: 'a word) ! i) k" if "k < 8" for k
  proof -
    have "8 * (q - 1 - i) + k < LENGTH('a)" using assms i that by linarith
    moreover have "n div 256 ^ (q - 1 - i) = drop_bit (8 * (q - 1 - i)) n"
      by (simp add: drop_bit_eq_div power_mult)
    ultimately show ?thesis
      using i that
      by (simp add: octets_def be_bytes_def rev_nth nth_le_bytes bit_of_nat_iff bit_drop_bit_eq bit_simps
        add.commute)
  qed
  then show "octets q n ! i = be_bytes q (of_nat n :: 'a word) ! i"
    by (intro bit_word_eqI) simp
qed (simp add: octets_def)

lemma macFlags_sp:
  assumes "ccm_ok c"
  shows "macFlags c aad = of_nat (sp_flags (c_tagLen c) (lenField c) (length aad > 0))"
proof -
  have "c_tagLen c \<in> {4, 6, 8, 10, 12, 14, 16}"
    using assms unfolding ccm_ok_def by simp presburger
  moreover have "lenField c \<in> {2, 3, 4, 5, 6, 7, 8}"
    using assms by (auto simp: ccm_ok_def lenField_def)
  ultimately show ?thesis
    unfolding macFlags_def sp_flags_def by (cases "aad = []") auto
qed

lemma ccm_format_sp:
  assumes "ccm_ok c" "length nonce = c_nonceLen c" "length aad < 0xFF00"
  shows "ccm_format c nonce aad p = sp800_38c_format (c_tagLen c) nonce aad p"
proof -
  have "lenField c * 8 \<le> LENGTH(64)"
    using assms(1) by (simp add: ccm_ok_def lenField_def) linarith
  then have "putBE (of_nat (length p)) (lenField c) = octets (lenField c) (length p)"
    using octets_be_bytes [of "lenField c" "length p", where 'a = 64] by (simp add: putBE_def)
  moreover have "be_bytes 2 (of_nat (length aad) :: u16) = octets 2 (length aad)"
    using octets_be_bytes [of 2 "length aad", where 'a = 16] by simp
  moreover have "pad16 [] = []" by simp
  moreover have "15 - length nonce = lenField c" using assms(2) by (simp add: lenField_def)
  ultimately show ?thesis
    using assms by (simp add: ccm_format_def macStart_def macFlags_sp sp800_38c_format_def sp_adata_def Let_def)
qed

text \<open>C13: The tag computation of the code, region by region with its own padding, is the CBC-MAC of
  the message formatted as NIST SP 800-38C prescribes: flags, nonce and payload length in the first
  block, the additional data behind their length, the payload, each padded with zeros to whole
  blocks. The formatting function is written from the standard and shares nothing with the code.\<close>

theorem ccm_mac_is_cbc_mac:
  assumes "ccm_ok c" "length nonce = c_nonceLen c" "length aad < 0xFF00"
  shows "mac c nonce aad p
    = take (c_tagLen c)
        (cbc_mac c (replicate 16 0) (sp800_38c_format (c_tagLen c) nonce aad p))"
  using mac_cbc [OF assms(1,2)] ccm_format_sp [OF assms] by simp

theorem ccm_mac_is_cbc_mac_witness:
  "let c = matter_ccm rev in
   mac c (replicate 13 1) [2] [3, 4]
     = take 16 (cbc_mac c (replicate 16 0)
         ([0x79] @ replicate 13 1 @ [0, 2] @ [0, 1, 2] @ replicate 13 0 @ [3, 4] @ replicate 14 0))"
proof -
  have "sp800_38c_format 16 (replicate 13 1) [2] [3, 4]
      = [0x79] @ replicate 13 1 @ [0, 2] @ [0, 1, 2] @ replicate 13 0 @ [3, 4] @ replicate 14 0"
    by (simp add: sp800_38c_format_def sp_flags_def sp_adata_def octets_def pad16_def upt_rec)
  moreover have "ccm_ok (matter_ccm rev)" by (simp add: ccm_ok_def)
  ultimately show ?thesis
    using ccm_mac_is_cbc_mac [of "matter_ccm rev" "replicate 13 1" "[2]" "[3, 4]"]
    by (simp only: Let_def matter_ccm_simps length_replicate) simp
qed

text \<open>The formatted message determines the nonce, the additional data and the payload, up to the
  sizes \<^verbatim>\<open>Seal\<close> admits: two different messages are never authenticated by the same blocks.\<close>

theorem ccm_format_injective:
  assumes "ccm_ok c" "length n = c_nonceLen c" "length n' = c_nonceLen c"
    and "length a < 0xFF00" "length a' < 0xFF00"
    and "length p \<le> maxPayload c" "length p' \<le> maxPayload c"
    and "(n, a, p) \<noteq> (n', a', p')"
  shows "ccm_format c n a p \<noteq> ccm_format c n' a' p'"
  using ccm_format_inj [OF assms(1-7)] assms(8) by blast

theorem ccm_format_injective_witness:
  "ccm_format (matter_ccm id) (replicate 13 9) [0, 1, 0] [] \<noteq> ccm_format (matter_ccm id) (replicate 13 9) [] [0, 1, 0]"
  by (rule ccm_format_injective) (simp_all add: ccm_ok_def)

end
