(* ===== verification/Session.thy ===== *)
theory Session
  imports Message Ccm
begin

text \<open>
  Secure sessions, \<^verbatim>\<open>go-matter/session\<close>: the replay window (\<^verbatim>\<open>replay.go\<close>), a keyed session and its
  encryption of messages (\<^verbatim>\<open>session.go\<close>) and the table of sessions (\<^verbatim>\<open>table.go\<close>). A method that
  changes its receiver returns the new receiver beside its results.
\<close>

section \<open>The replay window\<close>

record replayWindow =
  rw_max :: u32
  rw_bitmap :: u32
  rw_init :: bool

definition zeroWindow :: replayWindow where
  "zeroWindow = \<lparr>rw_max = 0, rw_bitmap = 0, rw_init = False\<rparr>"

text \<open>\<^verbatim>\<open>accept\<close>; \<open>False\<close> is \<^verbatim>\<open>ErrReplay\<close>.\<close>

definition accept :: "replayWindow \<Rightarrow> u32 \<Rightarrow> bool \<times> replayWindow" where
  "accept w c =
     (if \<not> rw_init w then (True, w\<lparr>rw_init := True, rw_max := c\<rparr>)
      else if c > rw_max w then
        let shift = c - rw_max w;
            bm = (if shift < 32 then push_bit (unat shift) (rw_bitmap w) OR push_bit (unat (shift - 1)) 1
                  else 0)
        in (True, w\<lparr>rw_bitmap := bm, rw_max := c\<rparr>)
      else if c = rw_max w then (False, w)
      else
        let diff = rw_max w - c in
        if diff > 32 then (False, w)
        else
          let b = push_bit (unat (diff - 1)) 1 in
          if rw_bitmap w AND b \<noteq> 0 then (False, w)
          else (True, w\<lparr>rw_bitmap := rw_bitmap w OR b\<rparr>))"

text \<open>The counters that a window accepts when it is fed one after the other.\<close>

fun accepted :: "replayWindow \<Rightarrow> u32 list \<Rightarrow> u32 list" where
  "accepted w [] = []"
| "accepted w (c # cs) =
     (let (ok, w') = accept w c in if ok then c # accepted w' cs else accepted w' cs)"

text \<open>
  The specification remembers the set of all accepted counters: a counter is fresh if it is new
  and at most 32 below the highest one.
\<close>

definition fresh :: "nat set \<Rightarrow> nat \<Rightarrow> bool" where
  "fresh S c \<longleftrightarrow> S = {} \<or> c > Max S \<or> c \<notin> S \<and> Max S - c \<le> 32"

definition window_rel :: "replayWindow \<Rightarrow> nat set \<Rightarrow> bool" where
  "window_rel w S \<longleftrightarrow>
     (if rw_init w then unat (rw_max w) \<in> S \<and> (\<forall>s\<in>S. s \<le> unat (rw_max w))
        \<and> (\<forall>d. 1 \<le> d \<and> d \<le> 32 \<longrightarrow>
             (bit (rw_bitmap w) (d - 1) \<longleftrightarrow> d \<le> unat (rw_max w) \<and> unat (rw_max w) - d \<in> S))
      else S = {} \<and> rw_bitmap w = 0)"

lemma window_rel_Max: "window_rel w S \<Longrightarrow> rw_init w \<Longrightarrow> Max S = unat (rw_max w) \<and> S \<noteq> {}"
proof -
  assume r: "window_rel w S" "rw_init w"
  then have "finite S" by (auto simp: window_rel_def intro: finite_subset [of S "{..unat (rw_max w)}"])
  with r show ?thesis by (auto simp: window_rel_def intro!: Max_eqI)
qed

lemma unat_diff: "(b :: u32) \<le> a \<Longrightarrow> unat (a - b) = unat a - unat b"
  by (simp add: unat_sub)

lemma u32_less: "(a :: u32) < b \<longleftrightarrow> unat a < unat b"
  by (simp add: word_less_nat_alt)

lemma unat_small: "unat (v :: u32) < 2 ^ 32"
  using unsigned_less [of v, where 'a = nat] by simp

text \<open>The highest counter moves up, by anything but 32.\<close>

lemma window_rel_advance:
  assumes r: "window_rel w S" "rw_init w" and c: "c > rw_max w" and k: "c - rw_max w \<noteq> 32"
  shows "window_rel (snd (accept w c)) (insert (unat c) S)"
proof -
  let ?m = "unat (rw_max w)" and ?k = "unat (c - rw_max w)"
  have km: "unat c = ?m + ?k" "0 < ?k" using c by (simp_all add: unat_sub word_less_nat_alt less_imp_le)
  have k32: "?k \<noteq> 32" using k word_of_unat [of "c - rw_max w" 32] by auto
  have small: "c - rw_max w < 32 \<longleftrightarrow> ?k < 32" by (simp add: word_less_nat_alt)
  have k1: "unat (c - rw_max w - 1) = ?k - 1" using km(2) by (simp add: unat_sub word_le_nat_alt)
  let ?bm = "rw_bitmap (snd (accept w c))"
  have bm: "?bm = (if ?k < 32 then push_bit ?k (rw_bitmap w) OR push_bit (?k - 1) 1 else 0)"
    using r(2) c by (simp add: accept_def Let_def small k1)
  have "bit ?bm (d - 1) \<longleftrightarrow> d \<le> unat c \<and> unat c - d \<in> insert (unat c) S" if d: "1 \<le> d" "d \<le> 32" for d
  proof -
    have inS: "x \<le> ?m" if "x \<in> S" for x using r that by (simp add: window_rel_def)
    consider "d < ?k" | "d = ?k" | "d > ?k" by linarith
    then show ?thesis
    proof cases
      case 1
      have "unat c - d \<notin> S" using inS [of "unat c - d"] 1 km by auto
      with 1 d km show ?thesis by (auto simp: bm bit_or_iff bit_push_bit_iff bit_1_iff bit_exp_iff)
    next
      case 2
      then have "?k < 32" using d k32 by simp
      with 2 r km d show ?thesis
        by (auto simp: bm bit_or_iff bit_push_bit_iff bit_1_iff bit_exp_iff window_rel_def)
    next
      case 3
      then have "bit ?bm (d - 1) \<longleftrightarrow> bit (rw_bitmap w) (d - ?k - 1)"
        using d km by (auto simp: bm bit_or_iff bit_push_bit_iff bit_1_iff bit_exp_iff diff_commute)
      also have "\<dots> \<longleftrightarrow> d - ?k \<le> ?m \<and> ?m - (d - ?k) \<in> S"
      proof -
        have "1 \<le> d - ?k" "d - ?k \<le> 32" using 3 d by auto
        then show ?thesis using r unfolding window_rel_def by (auto simp del: One_nat_def)
      qed
      also have "\<dots> \<longleftrightarrow> d \<le> unat c \<and> unat c - d \<in> insert (unat c) S"
        using km 3 d by auto
      finally show ?thesis .
    qed
  qed
  moreover have "rw_max (snd (accept w c)) = c" "rw_init (snd (accept w c))"
    using r(2) c by (simp_all add: accept_def Let_def)
  ultimately show ?thesis
    using r km by (auto simp: window_rel_def)
qed

text \<open>A counter below the highest one, in or out of the window.\<close>

lemma accept_below:
  assumes "rw_init w" "c < rw_max w"
  shows "accept w c =
    (if unat (rw_max w - c) > 32 \<or> bit (rw_bitmap w) (unat (rw_max w - c) - 1) then (False, w)
     else (True, w\<lparr>rw_bitmap := rw_bitmap w OR push_bit (unat (rw_max w - c) - 1) 1\<rparr>))"
proof -
  have d: "1 \<le> unat (rw_max w - c)" using assms(2) by (simp add: unat_sub word_less_nat_alt less_imp_le)
  have "rw_max w - c > 32 \<longleftrightarrow> unat (rw_max w - c) > 32" by (simp add: word_less_nat_alt)
  moreover have "unat (rw_max w - c - 1) = unat (rw_max w - c) - 1"
    using d by (simp add: unat_sub word_le_nat_alt)
  ultimately show ?thesis
    using assms by (auto simp: accept_def Let_def and_exp_eq_0_iff_not_bit)
qed

lemma window_rel_below:
  assumes r: "window_rel w S" "rw_init w" and c: "c < rw_max w"
  shows "fst (accept w c) \<longleftrightarrow> fresh S (unat c)"
    and "fst (accept w c) \<Longrightarrow> window_rel (snd (accept w c)) (insert (unat c) S)"
    and "\<not> fst (accept w c) \<Longrightarrow> snd (accept w c) = w"
proof -
  let ?m = "unat (rw_max w)" and ?d = "unat (rw_max w - c)"
  have dm: "unat c = ?m - ?d" "?d \<le> ?m" "1 \<le> ?d"
    using c by (simp_all add: unat_sub word_less_nat_alt less_imp_le)
  have a: "accept w c = (if ?d > 32 \<or> bit (rw_bitmap w) (?d - 1) then (False, w)
      else (True, w\<lparr>rw_bitmap := rw_bitmap w OR push_bit (?d - 1) 1\<rparr>))"
    by (rule accept_below [OF r(2) c])
  have inS: "bit (rw_bitmap w) (?d - 1) \<longleftrightarrow> unat c \<in> S" if "?d \<le> 32"
    using r dm that by (simp add: window_rel_def)
  have M: "Max S = ?m" "S \<noteq> {}" using window_rel_Max [OF r] by auto
  show "fst (accept w c) \<longleftrightarrow> fresh S (unat c)"
    using inS dm M by (auto simp: a fresh_def)
  show "\<not> fst (accept w c) \<Longrightarrow> snd (accept w c) = w" by (auto simp: a split: if_splits)
  assume ok: "fst (accept w c)"
  then have d32: "?d \<le> 32" by (simp add: a split: if_splits)
  have w': "snd (accept w c) = w\<lparr>rw_bitmap := rw_bitmap w OR push_bit (?d - 1) 1\<rparr>"
    using ok by (simp add: a split: if_splits)
  have "bit (rw_bitmap w OR push_bit (?d - 1) 1) (e - 1) \<longleftrightarrow> e \<le> ?m \<and> ?m - e \<in> insert (unat c) S"
    if "1 \<le> e" "e \<le> 32" for e
    using r that dm by (auto simp: bit_or_iff bit_push_bit_iff bit_1_iff bit_exp_iff window_rel_def)
  then show "window_rel (snd (accept w c)) (insert (unat c) S)"
    using r dm by (auto simp: w' window_rel_def)
qed

text \<open>The step of the window that loses a counter: up by exactly 32.\<close>

definition loses :: "replayWindow \<Rightarrow> u32 \<Rightarrow> bool" where
  "loses w c \<longleftrightarrow> rw_init w \<and> c > rw_max w \<and> c - rw_max w = 32"

lemma accept_refines:
  assumes "window_rel w S" "\<not> loses w c"
  shows "fst (accept w c) \<longleftrightarrow> fresh S (unat c)"
    and "window_rel (snd (accept w c)) (if fst (accept w c) then insert (unat c) S else S)"
proof -
  consider "\<not> rw_init w" | "rw_init w" "c > rw_max w" | "rw_init w" "c = rw_max w"
    | "rw_init w" "c < rw_max w" by (metis linorder_neqE)
  then have "(fst (accept w c) \<longleftrightarrow> fresh S (unat c))
      \<and> window_rel (snd (accept w c)) (if fst (accept w c) then insert (unat c) S else S)"
  proof cases
    case 1
    with assms show ?thesis by (auto simp: accept_def window_rel_def fresh_def)
  next
    case 2
    then have "fst (accept w c)" "fresh S (unat c)"
      using window_rel_Max [OF assms(1) 2(1)] by (simp_all add: accept_def Let_def fresh_def u32_less)
    then show ?thesis using window_rel_advance [OF assms(1) 2] assms(2) 2 by (simp add: loses_def)
  next
    case 3
    then have "accept w c = (False, w)" by (simp add: accept_def)
    then show ?thesis
      using window_rel_Max [OF assms(1) 3(1)] assms(1) 3 by (auto simp: fresh_def window_rel_def)
  next
    case 4
    show ?thesis using window_rel_below [OF assms(1) 4] assms(1) by (cases "fst (accept w c)") auto
  qed
  then show "fst (accept w c) \<longleftrightarrow> fresh S (unat c)"
    "window_rel (snd (accept w c)) (if fst (accept w c) then insert (unat c) S else S)" by auto
qed

fun never_loses :: "replayWindow \<Rightarrow> u32 list \<Rightarrow> bool" where
  "never_loses w [] \<longleftrightarrow> True"
| "never_loses w (c # cs) \<longleftrightarrow> \<not> loses w c \<and> never_loses (snd (accept w c)) cs"

lemma fresh_new: "window_rel w S \<Longrightarrow> fresh S c \<Longrightarrow> c \<notin> S"
proof -
  assume r: "window_rel w S" and f: "fresh S c"
  have "c \<le> Max S" if "c \<in> S"
  proof -
    have "rw_init w" using r that by (auto simp: window_rel_def split: if_splits)
    with window_rel_Max [OF r this] r that show ?thesis by (auto simp: window_rel_def)
  qed
  with f show ?thesis by (auto simp: fresh_def)
qed

text \<open>What goes wrong there: the bitmap is cleared although the old highest counter is still inside
  the window, and it is accepted once more.\<close>

lemma accept_gap:
  assumes "rw_init w" "unat (rw_max w) + 32 < 2 ^ 32"
  shows "\<not> fst (accept w (rw_max w))" "accepted w [rw_max w + 32, rw_max w] = [rw_max w + 32, rw_max w]"
proof -
  let ?m = "rw_max w"
  have gt: "?m < ?m + 32" using assms(2) by (simp add: word_less_nat_alt unat_word_ariths)
  have "accept w (?m + 32) = (True, w\<lparr>rw_bitmap := 0, rw_max := ?m + 32\<rparr>)"
    using assms(1) gt by (simp add: accept_def Let_def)
  moreover have "fst (accept (w\<lparr>rw_bitmap := 0, rw_max := ?m + 32\<rparr>) ?m)"
    using assms(1) gt by (simp add: accept_def Let_def)
  ultimately show "accepted w [?m + 32, ?m] = [?m + 32, ?m]" by (auto simp: Let_def case_prod_unfold)
  show "\<not> fst (accept w ?m)" using assms(1) by (simp add: accept_def)
qed

lemma accepted_distinct:
  "window_rel w S \<Longrightarrow> never_loses w cs \<Longrightarrow>
     distinct (accepted w cs) \<and> (\<forall>c\<in>set (accepted w cs). unat c \<notin> S)"
proof (induction cs arbitrary: w S)
  case (Cons c cs)
  let ?w = "snd (accept w c)"
  from Cons.prems have l: "\<not> loses w c" "never_loses ?w cs" by auto
  note ref = accept_refines [OF Cons.prems(1) l(1)]
  show ?case
  proof (cases "fst (accept w c)")
    case True
    with ref have r: "window_rel ?w (insert (unat c) S)" and new: "unat c \<notin> S"
      using fresh_new [OF Cons.prems(1)] by auto
    from Cons.IH [OF r l(2)] new True show ?thesis by (auto simp: Let_def split: prod.splits)
  next
    case False
    with ref have "window_rel ?w S" by simp
    from Cons.IH [OF this l(2)] False show ?thesis by (auto simp: Let_def split: prod.splits)
  qed
qed simp

lemma window_rel_zero: "window_rel zeroWindow {}"
  by (simp add: window_rel_def zeroWindow_def)

section \<open>A secure session\<close>

definition nonce :: "byte \<Rightarrow> u32 \<Rightarrow> u64 \<Rightarrow> bytes" where
  "nonce securityFlags counter sourceNodeID =
     securityFlags # le_bytes 4 counter @ le_bytes 8 sourceNodeID"

record Secure =
  LocalSessionID :: u16
  PeerSessionID :: u16
  LocalNodeID :: u64
  PeerNodeID :: u64
  send :: ccm
  recv :: ccm
  txCounter :: u32
  rx :: replayWindow

datatype session_error = SendKey ccm_error | RecvKey ccm_error | CounterExhausted
  | HeaderError msg_error | SealPanic ccm_error | WrongSession u16 u16 | OpenError ccm_error | Replay

definition NewSecure ::
    "(bytes \<Rightarrow> bytes \<Rightarrow> bytes) \<Rightarrow> u16 \<Rightarrow> u16 \<Rightarrow> u64 \<Rightarrow> u64 \<Rightarrow> bytes \<Rightarrow> bytes \<Rightarrow> u32 \<Rightarrow> session_error + Secure"
  where
  "NewSecure aes localID peerID localNode peerNode sendKey recvKey txStart =
     (case NewCCM aes sendKey of
        Inl e \<Rightarrow> Inl (SendKey e)
      | Inr sendc \<Rightarrow>
          (case NewCCM aes recvKey of
             Inl e \<Rightarrow> Inl (RecvKey e)
           | Inr recvc \<Rightarrow>
               Inr \<lparr>LocalSessionID = localID, PeerSessionID = peerID, LocalNodeID = localNode,
                    PeerNodeID = peerNode, send = sendc, recv = recvc, txCounter = txStart,
                    rx = zeroWindow\<rparr>))"

definition encrypt_header :: "Secure \<Rightarrow> Header" where
  "encrypt_header s =
     (let hdr = zeroHeader\<lparr>h_SessionID := PeerSessionID s, h_SessionType := Unicast,
            h_Counter := txCounter s\<rparr>
      in if LocalNodeID s \<noteq> 0 then hdr\<lparr>h_SourceNodeID := LocalNodeID s, h_SourcePresent := True\<rparr>
         else hdr)"

definition Secure_Encrypt :: "Secure \<Rightarrow> bytes \<Rightarrow> (session_error + bytes) \<times> Secure" where
  "Secure_Encrypt s payload =
     (if txCounter s = NOT 0 then (Inl CounterExhausted, s)
      else
        let counter = txCounter s; s' = s\<lparr>txCounter := counter + 1\<rparr> in
        case Header_Encode (encrypt_header s) of
          Inl e \<Rightarrow> (Inl (HeaderError e), s')
        | Inr aad \<Rightarrow>
            (case Ccm_Seal (send s) [] (nonce (aad ! 3) counter (LocalNodeID s)) payload aad of
               Inl e \<Rightarrow> (Inl (SealPanic e), s')
             | Inr ct \<Rightarrow> (Inr (aad @ ct), s')))"

text \<open>
  The results of \<^verbatim>\<open>DecryptMsg\<close>: counter, payload and error. With \<open>Replay\<close> the counter and the
  payload are those of the authenticated duplicate.
\<close>

definition Secure_DecryptMsg :: "Secure \<Rightarrow> bytes \<Rightarrow> (u32 \<times> bytes \<times> session_error option) \<times> Secure" where
  "Secure_DecryptMsg s frame =
     (case Header_Decode frame of
        Inl e \<Rightarrow> ((0, [], Some (HeaderError e)), s)
      | Inr (hdr, rest) \<Rightarrow>
          if h_SessionID hdr \<noteq> LocalSessionID s then
            ((0, [], Some (WrongSession (h_SessionID hdr) (LocalSessionID s))), s)
          else
            let aad = take (length frame - length rest) frame in
            case Ccm_Open (recv s) [] (nonce (aad ! 3) (h_Counter hdr) (PeerNodeID s)) rest aad of
              Inl e \<Rightarrow> ((0, [], Some (OpenError e)), s)
            | Inr pt \<Rightarrow>
                (case accept (rx s) (h_Counter hdr) of
                   (False, w) \<Rightarrow> ((h_Counter hdr, pt, Some Replay), s\<lparr>rx := w\<rparr>)
                 | (True, w) \<Rightarrow> ((h_Counter hdr, pt, None), s\<lparr>rx := w\<rparr>)))"

definition Secure_Decrypt :: "Secure \<Rightarrow> bytes \<Rightarrow> (bytes \<times> session_error option) \<times> Secure" where
  "Secure_Decrypt s frame = (let ((_, pt, err), s') = Secure_DecryptMsg s frame in ((pt, err), s'))"

text \<open>A session keyed by \<^verbatim>\<open>NewSecure\<close>, and the two ends of one.\<close>

definition keyed :: "Secure \<Rightarrow> bool" where
  "keyed s \<longleftrightarrow> c_nonceLen (send s) = 13 \<and> c_tagLen (send s) = 16
     \<and> c_nonceLen (recv s) = 13 \<and> c_tagLen (recv s) = 16"

definition paired :: "Secure \<Rightarrow> Secure \<Rightarrow> bool" where
  "paired s r \<longleftrightarrow> send s = recv r \<and> PeerSessionID s = LocalSessionID r \<and> LocalNodeID s = PeerNodeID r"

lemma NewSecure_keyed: "NewSecure aes l p ln pn sk rk tx = Inr s \<Longrightarrow> keyed s"
  by (auto simp: NewSecure_def keyed_def NewCCM_def newCCM_def split: sum.splits if_splits)

lemma keyed_ccm:
  assumes "keyed s" shows "send s = matter_ccm (c_block (send s))" "recv s = matter_ccm (c_block (recv s))"
  using assms by (simp_all add: keyed_def matter_ccm_def)

section \<open>Encryption and decryption\<close>

lemma encrypt_header_ok [simp]: "header_ok (encrypt_header s)"
  by (simp add: header_ok_def encrypt_header_def zeroHeader_def Let_def)

lemma encrypt_header_fields [simp]:
  "h_SessionID (encrypt_header s) = PeerSessionID s" "h_Counter (encrypt_header s) = txCounter s"
  by (simp_all add: encrypt_header_def Let_def)

lemma length_nonce [simp]: "length (nonce f c n) = 13"
  by (simp add: nonce_def)

lemma length_header_bytes: "length (header_bytes h) \<le> 24"
  by (simp add: header_bytes_def Header_Encode_def)

lemma Encrypt_cases:
  assumes "Secure_Encrypt s p = (Inr f, s')"
  obtains aad ct where "aad = header_bytes (encrypt_header s)" "f = aad @ ct"
    "Ccm_Seal (send s) [] (nonce (aad ! 3) (txCounter s) (LocalNodeID s)) p aad = Inr ct"
    "txCounter s \<noteq> NOT 0" "s' = s\<lparr>txCounter := txCounter s + 1\<rparr>"
  using assms by (auto simp: Secure_Encrypt_def Let_def Header_Encode_ok split: sum.splits if_splits)

lemma DecryptMsg_Encrypt:
  assumes k: "keyed s" "keyed r" "paired s r" and e: "Secure_Encrypt s p = (Inr f, s')"
  shows "Secure_DecryptMsg r f =
    ((txCounter s, p, if fst (accept (rx r) (txCounter s)) then None else Some Replay),
     r\<lparr>rx := snd (accept (rx r) (txCounter s))\<rparr>)"
proof -
  obtain aad ct where aad: "aad = header_bytes (encrypt_header s)" and f: "f = aad @ ct"
    and ct: "Ccm_Seal (send s) [] (nonce (aad ! 3) (txCounter s) (LocalNodeID s)) p aad = Inr ct"
    using Encrypt_cases [OF e] .
  have dec: "Header_Decode f = Inr (encrypt_header s, ct)"
    unfolding f aad by (rule hdr.dec_enc) simp
  have "Ccm_Open (recv r) [] (nonce (aad ! 3) (txCounter s) (PeerNodeID r)) ct aad = Inr p"
    using ccm_aead.unseal_seal [of "c_block (send s)"] ct keyed_ccm(1) [OF k(1)] k(3)
    by (simp add: paired_def)
  then show ?thesis
    using k(3) by (auto simp: Secure_DecryptMsg_def f dec [unfolded f] Let_def paired_def split: prod.splits bool.splits)
qed

text \<open>A counter that has just been offered is not accepted again.\<close>

lemma accept_again: "\<not> fst (accept (snd (accept w c)) c)"
proof -
  consider "\<not> rw_init w" | "rw_init w" "c > rw_max w" | "rw_init w" "c = rw_max w"
    | "rw_init w" "c < rw_max w" by (metis linorder_neqE)
  then show ?thesis
  proof cases
    case 4
    note a = accept_below [OF 4]
    show ?thesis
    proof (cases "unat (rw_max w - c) > 32 \<or> bit (rw_bitmap w) (unat (rw_max w - c) - 1)")
      case False
      then have "snd (accept w c)
          = w\<lparr>rw_bitmap := rw_bitmap w OR push_bit (unat (rw_max w - c) - 1) 1\<rparr>"
        by (simp add: a)
      moreover have "unat (rw_max w - c) - 1 < 32" using False by linarith
      then have "bit (rw_bitmap w OR push_bit (unat (rw_max w - c) - 1) 1) (unat (rw_max w - c) - 1)"
        by (simp add: bit_or_iff bit_exp_iff)
      ultimately show ?thesis
        using 4 accept_below [of "snd (accept w c)" c] by simp
    qed (simp add: a)
  qed (auto simp: accept_def Let_def)
qed

text \<open>What an accepted frame is: the header and a sealed message under the session's key.\<close>

lemma DecryptMsg_cases:
  assumes "Secure_DecryptMsg r f = ((c, p, err), r')" "err = None \<or> err = Some Replay"
  obtains hdr aad ct where "Header_Decode f = Inr (hdr, ct)" "f = aad @ ct" "h_Counter hdr = c"
    "h_SessionID hdr = LocalSessionID r"
    "Ccm_Open (recv r) [] (nonce (aad ! 3) c (PeerNodeID r)) ct aad = Inr p"
    "r' = r\<lparr>rx := snd (accept (rx r) c)\<rparr>" "err = None \<longleftrightarrow> fst (accept (rx r) c)"
proof -
  obtain hdr ct where h: "Header_Decode f = Inr (hdr, ct)"
    using assms by (auto simp: Secure_DecryptMsg_def split: sum.splits)
  let ?aad = "take (length f - length ct) f"
  have f: "?aad @ ct = f" by (rule hdr.front_rest [OF h])
  show ?thesis
    by (rule that [OF h f [symmetric]])
      (use assms in \<open>auto simp: Secure_DecryptMsg_def h Let_def
        split: sum.splits if_splits prod.splits bool.splits\<close>)
qed

section \<open>A chain of messages\<close>

text \<open>Encrypting a list of payloads, one after the other, until one fails.\<close>

fun encrypt_all :: "Secure \<Rightarrow> bytes list \<Rightarrow> bytes list \<times> Secure" where
  "encrypt_all s [] = ([], s)"
| "encrypt_all s (p # ps) =
     (case Secure_Encrypt s p of
        (Inl e, s') \<Rightarrow> ([], s')
      | (Inr f, s') \<Rightarrow> let (fs, s'') = encrypt_all s' ps in (f # fs, s''))"

lemma less_succ: "(x :: u32) \<noteq> NOT 0 \<Longrightarrow> x < x + 1"
proof -
  assume "x \<noteq> NOT 0"
  then have "1 + x \<noteq> 0" by (metis add_eq_0_iff bit.compl_zero minus_equation_iff)
  from unatSuc [OF this] show ?thesis by (simp add: word_less_nat_alt add.commute)
qed

lemma nonce_inj: "nonce f c n = nonce f' c' n' \<Longrightarrow> f = f' \<and> c = c' \<and> n = n'"
proof -
  assume "nonce f c n = nonce f' c' n'"
  then have "f = f'" "le_bytes 4 c = le_bytes 4 c'" "le_bytes 8 n = le_bytes 8 n'"
    by (auto simp: nonce_def append_eq_append_conv)
  then show ?thesis by (metis le_word_le_bytes_u32 le_word_le_bytes_u64)
qed

lemma encrypt_header_flags [simp]: "header_bytes (encrypt_header s) ! 3 = 0"
proof -
  have l: "length (le_bytes 2 (PeerSessionID s)) = 2" by simp
  have "secFlags (encrypt_header s) = 0"
    by (simp add: secFlags_def encrypt_header_def zeroHeader_def Let_def)
  then show ?thesis
    by (simp add: header_bytes_def Header_Encode_def encrypt_header_def zeroHeader_def Let_def nth_append)
qed

text \<open>The frames of a run of \<^verbatim>\<open>Encrypt\<close> calls: frame \<open>i\<close> is a header and what \<^verbatim>\<open>Seal\<close> made of payload
  \<open>i\<close> under the nonce of counter \<open>txCounter + i\<close>, and the counter does not wrap on the way.\<close>

definition sealed_frame :: "Secure \<Rightarrow> u32 \<Rightarrow> bytes \<Rightarrow> bytes \<Rightarrow> bool" where
  "sealed_frame s c p f \<longleftrightarrow>
     (case Header_Decode f of
        Inl _ \<Rightarrow> False
      | Inr (h, ct) \<Rightarrow> h_Counter h = c \<and> h_SessionID h = PeerSessionID s
          \<and> Ccm_Seal (send s) [] (nonce 0 c (LocalNodeID s)) p (take (length f - length ct) f) = Inr ct)"

lemma sealed_frame_upd [simp]: "sealed_frame (s\<lparr>txCounter := n\<rparr>) = sealed_frame s"
  by (intro ext) (simp add: sealed_frame_def cong: sum.case_cong)

lemma Encrypt_sealed:
  assumes "Secure_Encrypt s p = (Inr f, s')"
  shows "sealed_frame s (txCounter s) p f"
proof -
  obtain aad ct where a: "aad = header_bytes (encrypt_header s)" "f = aad @ ct"
    "Ccm_Seal (send s) [] (nonce (aad ! 3) (txCounter s) (LocalNodeID s)) p aad = Inr ct"
    using Encrypt_cases [OF assms] .
  have "Header_Decode f = Inr (encrypt_header s, ct)"
    unfolding a(1,2) by (rule hdr.dec_enc) simp
  with a show ?thesis by (simp add: sealed_frame_def)
qed

lemma encrypt_all_sealed:
  assumes "encrypt_all s ps = (fs, s')"
  shows "unat (txCounter s) + length fs < 2 ^ 32 \<and> length fs \<le> length ps
    \<and> (\<forall>i < length fs. sealed_frame s (txCounter s + of_nat i) (ps ! i) (fs ! i))"
  using assms
proof (induction ps arbitrary: s fs)
  case Nil
  then show ?case using unat_small [of "txCounter s"] by simp
next
  case (Cons p ps)
  show ?case
  proof (cases "Secure_Encrypt s p")
    case (Pair res s1)
    show ?thesis
    proof (cases res)
      case (Inl e)
      with Pair Cons.prems show ?thesis using unat_small [of "txCounter s"] by simp
    next
      case (Inr f)
      with Pair have e: "Secure_Encrypt s p = (Inr f, s1)" by simp
      obtain fs1 where fs: "fs = f # fs1" "encrypt_all s1 ps = (fs1, s')"
        using Cons.prems e by (auto simp: Let_def split: prod.splits)
      have s1: "s1 = s\<lparr>txCounter := txCounter s + 1\<rparr>" and c: "txCounter s \<noteq> NOT 0"
        by (rule Encrypt_cases [OF e], simp)+
      have "unat (1 + txCounter s) = Suc (unat (txCounter s))"
        using c by (intro unatSuc) (metis add_eq_0_iff bit.compl_zero minus_equation_iff)
      then have u: "unat (txCounter s + 1) = Suc (unat (txCounter s))" by (simp add: add.commute)
      note IH = Cons.IH [OF fs(2), unfolded s1, simplified]
      have "sealed_frame s (txCounter s + of_nat i) ((p # ps) ! i) (fs ! i)" if "i < length fs" for i
      proof (cases i)
        case 0
        then show ?thesis using Encrypt_sealed [OF e] fs(1) by simp
      next
        case (Suc j)
        then show ?thesis using IH that fs(1) by (simp add: add.assoc)
      qed
      then show ?thesis using IH u fs(1) by simp
    qed
  qed
qed

lemma counters_distinct:
  assumes "unat (c :: u32) + n \<le> 2 ^ 32"
  shows "distinct (map (\<lambda>i. nonce b (c + of_nat i) l) [0..<n])"
proof -
  have "i = j" if "nonce b (c + of_nat i) l = nonce b (c + of_nat j) l" "i < n" "j < n" for i j
  proof -
    have "of_nat i = (of_nat j :: u32)" using nonce_inj [OF that(1)] by simp
    then have "unat (of_nat i :: u32) = unat (of_nat j :: u32)" by simp
    then show ?thesis using that assms by (simp add: unsigned_of_nat take_bit_nat_eq_self)
  qed
  then show ?thesis by (auto simp: distinct_map inj_on_def)
qed

fun decrypt_all :: "Secure \<Rightarrow> bytes list \<Rightarrow> (u32 \<times> bytes \<times> session_error option) list" where
  "decrypt_all r [] = []"
| "decrypt_all r (f # fs) = (let (res, r') = Secure_DecryptMsg r f in res # decrypt_all r' fs)"

lemma accept_above:
  "rw_init w \<longrightarrow> rw_max w < c \<Longrightarrow>
     fst (accept w c) \<and> rw_init (snd (accept w c)) \<and> rw_max (snd (accept w c)) = c"
  by (auto simp: accept_def Let_def)

lemma paired_upd [simp]:
  "paired (s\<lparr>txCounter := c\<rparr>) (r\<lparr>rx := w\<rparr>) = paired s r"
  "keyed (s\<lparr>txCounter := c\<rparr>) = keyed s" "keyed (r\<lparr>rx := w\<rparr>) = keyed r"
  by (simp_all add: paired_def keyed_def)

lemma decrypt_encrypt_all:
  assumes "keyed s" "keyed r" "paired s r" "rw_init (rx r) \<longrightarrow> rw_max (rx r) < txCounter s"
    and "encrypt_all s ps = (fs, s')"
  shows "map snd (decrypt_all r fs) = map (\<lambda>p. (p, None)) (take (length fs) ps)"
  using assms
proof (induction ps arbitrary: s r fs)
  case (Cons p ps)
  obtain res s1 where e0: "Secure_Encrypt s p = (res, s1)" by fastforce
  show ?case
  proof (cases res)
    case (Inl e)
    with e0 Cons.prems(5) show ?thesis by auto
  next
    case (Inr f)
    with e0 have e: "Secure_Encrypt s p = (Inr f, s1)" by simp
    obtain fs1 where fs: "fs = f # fs1" "encrypt_all s1 ps = (fs1, s')"
      using Cons.prems(5) e by (auto simp: Let_def split: prod.splits)
    have s1: "s1 = s\<lparr>txCounter := txCounter s + 1\<rparr>" and c: "txCounter s \<noteq> NOT 0"
      by (rule Encrypt_cases [OF e], simp)+
    let ?w = "snd (accept (rx r) (txCounter s))"
    note acc = accept_above [OF Cons.prems(4)]
    have d: "Secure_DecryptMsg r f = ((txCounter s, p, None), r\<lparr>rx := ?w\<rparr>)"
      using DecryptMsg_Encrypt [OF Cons.prems(1-3) e] acc by simp
    have "map snd (decrypt_all (r\<lparr>rx := ?w\<rparr>) fs1) = map (\<lambda>p. (p, None)) (take (length fs1) ps)"
      by (rule Cons.IH [OF _ _ _ _ fs(2)])
        (use Cons.prems(1-3) acc less_succ [OF c] in \<open>simp_all add: s1\<close>)
    then show ?thesis by (simp add: fs(1) d)
  qed
qed simp

lemma Encrypt_returns:
  assumes "keyed s" "txCounter s \<noteq> NOT 0" "length p \<le> 65535"
  shows "\<exists>f. Secure_Encrypt s p = (Inr f, s\<lparr>txCounter := txCounter s + 1\<rparr>)"
proof -
  let ?h = "header_bytes (encrypt_header s)"
  have "\<exists>ct. Ccm_Seal (send s) [] (nonce (?h ! 3) (txCounter s) (LocalNodeID s)) p ?h = Inr ct"
    using ccm_aead.seal_returns [of "nonce (?h ! 3) (txCounter s) (LocalNodeID s)" p ?h "c_block (send s)"]
      keyed_ccm(1) [OF assms(1)] assms(3) length_header_bytes [of "encrypt_header s"] by simp
  then show ?thesis
    using assms(2) by (auto simp: Secure_Encrypt_def Let_def Header_Encode_ok)
qed

section \<open>The session table\<close>

type_synonym Table = "u16 \<rightharpoonup> Secure"

datatype table_error = RandError | NoFreeID

definition NewTable :: Table where "NewTable = (\<lambda>_. None)"

definition Table_Add :: "Table \<Rightarrow> Secure \<Rightarrow> Table" where
  "Table_Add t s = t(LocalSessionID s \<mapsto> s)"

definition Table_Get :: "Table \<Rightarrow> u16 \<Rightarrow> Secure option" where
  "Table_Get t localID = t localID"

definition Table_Remove :: "Table \<Rightarrow> u16 \<Rightarrow> Table" where
  "Table_Remove t localID = t(localID := None)"

definition Table_Len :: "Table \<Rightarrow> nat" where
  "Table_Len t = card (dom t)"

text \<open>The loop of \<^verbatim>\<open>AllocID\<close>; \<open>rnd i\<close> is what the \<open>i\<close>-th call of \<^verbatim>\<open>rand.Read\<close> gives.\<close>

fun alloc_loop :: "Table \<Rightarrow> (nat \<Rightarrow> bytes option) \<Rightarrow> nat \<Rightarrow> nat \<Rightarrow> table_error + u16" where
  "alloc_loop t rnd tries 0 = Inl NoFreeID"
| "alloc_loop t rnd tries (Suc n) =
     (case rnd tries of
        None \<Rightarrow> Inl RandError
      | Some b \<Rightarrow>
          let i = be_word b in
          if i = 0 then alloc_loop t rnd (Suc tries) n
          else if t i = None then Inr i
          else alloc_loop t rnd (Suc tries) n)"

definition Table_AllocID :: "Table \<Rightarrow> (nat \<Rightarrow> bytes option) \<Rightarrow> table_error + u16" where
  "Table_AllocID t rnd = alloc_loop t rnd 0 1000"

lemma alloc_loop_ok: "alloc_loop t rnd k n = Inr i \<Longrightarrow> i \<noteq> 0 \<and> t i = None"
proof (induction n arbitrary: k)
  case (Suc n)
  then obtain b where b: "rnd k = Some b" by (cases "rnd k") simp_all
  show ?case
  proof (cases "be_word b \<noteq> (0 :: u16) \<and> t (be_word b) = None")
    case False
    then have "alloc_loop t rnd (Suc k) n = Inr i" using Suc.prems b by (simp add: Let_def split: if_splits)
    then show ?thesis by (rule Suc.IH)
  next
    case True
    with Suc.prems b have "i = be_word b" by (simp add: Let_def)
    with True show ?thesis by simp
  qed
qed simp

lemma alloc_loop_finds:
  assumes "\<And>i. rnd i \<noteq> None" "rnd j = Some b" "be_word b \<noteq> (0 :: u16)" "t (be_word b) = None"
  shows "k \<le> j \<Longrightarrow> j < k + n \<Longrightarrow> \<exists>i. alloc_loop t rnd k n = Inr i"
proof (induction n arbitrary: k)
  case (Suc n)
  obtain c where c: "rnd k = Some c" using assms(1) by blast
  show ?case
  proof (cases "j = k")
    case True
    with c assms show ?thesis by (simp add: Let_def)
  next
    case False
    then have "\<exists>i. alloc_loop t rnd (Suc k) n = Inr i" using Suc.prems by (intro Suc.IH) auto
    with c show ?thesis by (simp add: Let_def)
  qed
qed simp

end
