(* ===== verification/Session_Properties.thy ===== *)
theory Session_Properties
  imports Session
begin

text \<open>
  What a secure session promises: no replays, no nonce twice, delivery of what was sent and
  nothing else, and fresh session ids.
\<close>

section \<open>Replay protection\<close>

text \<open>C4: The replay window is its specification, the set of all counters accepted so far: unless the
  highest counter moves up by exactly 32, \<^verbatim>\<open>accept\<close> says yes exactly if the counter is new and not
  more than 32 below the highest, and the window keeps standing for the set.\<close>

theorem replay_window_refines:
  assumes "window_rel w S" "\<not> loses w c"
  shows "(fst (accept w c) \<longleftrightarrow> fresh S (unat c))
    \<and> window_rel (snd (accept w c)) (if fst (accept w c) then insert (unat c) S else S)"
  using accept_refines [OF assms] by blast

theorem replay_window_refines_witness:
  "fst (accept zeroWindow 100)
    \<and> window_rel (snd (accept zeroWindow 100)) (insert (unat (100 :: u32)) {})"
  using replay_window_refines [OF window_rel_zero, of 100]
  by (simp add: loses_def zeroWindow_def accept_def)

text \<open>No counter is accepted twice, in whatever order and however often counters arrive, as long
  as the highest counter never moves up by exactly 32.\<close>

theorem replay_no_duplicates:
  assumes "never_loses zeroWindow cs"
  shows "distinct (accepted zeroWindow cs)"
  using accepted_distinct [OF window_rel_zero assms] by blast

theorem replay_no_duplicates_witness:
  "distinct (accepted zeroWindow [100, 100, 101, 90, 90, 68, 1000, 101, 133, 1001, 970])"
  by (rule replay_no_duplicates) code_simp

text \<open>C14: The case the code gets wrong, in any window that has seen a message: the highest counter
  \<open>m\<close> is refused when it comes again, as it must be, but when the counter moves up by exactly 32
  (without wrapping) the window forgets it and accepts \<open>m\<close> once more, although it lies inside the
  window and was accepted before, so the specification refuses it.\<close>

theorem replay_gap_32:
  assumes "window_rel w S" "rw_init w" "unat (rw_max w) + 32 < 2 ^ 32"
  shows "\<not> fst (accept w (rw_max w))
    \<and> accepted w [rw_max w + 32, rw_max w] = [rw_max w + 32, rw_max w]
    \<and> unat (rw_max w) \<in> S \<and> \<not> fresh (insert (unat (rw_max w + 32)) S) (unat (rw_max w))"
proof -
  let ?m = "rw_max w"
  have S: "unat ?m \<in> S" "Max S = unat ?m" "finite S"
    using assms(1,2) window_rel_Max [OF assms(1,2)]
    by (auto simp: window_rel_def intro: finite_subset [of S "{..unat ?m}"])
  moreover have "unat (?m + 32) = unat ?m + 32"
    using assms(3) by (simp add: unat_word_ariths)
  moreover have "Max (insert (unat ?m + 32) S) = unat ?m + 32"
    using S by (subst Max_insert) auto
  ultimately have "\<not> fresh (insert (unat (?m + 32)) S) (unat ?m)" by (simp add: fresh_def)
  then show ?thesis using accept_gap [OF assms(2,3)] S(1) by simp
qed

theorem replay_gap_32_witness:
  "\<not> fst (accept \<lparr>rw_max = 100, rw_bitmap = 0, rw_init = True\<rparr> 100)
   \<and> accepted \<lparr>rw_max = 100, rw_bitmap = 0, rw_init = True\<rparr> [132, 100] = [132, 100]"
proof -
  let ?w = "\<lparr>rw_max = 100, rw_bitmap = 0, rw_init = True\<rparr>"
  have "window_rel ?w {100}" by (auto simp: window_rel_def)
  from replay_gap_32 [OF this] show ?thesis by simp
qed

section \<open>Encryption\<close>

text \<open>C2: A session never gives \<^verbatim>\<open>Seal\<close> the same nonce twice. In any sequence of \<^verbatim>\<open>Encrypt\<close> calls, the
  \<open>i\<close>-th frame sent is its header, with counter \<open>txCounter + i\<close>, and the output of \<^verbatim>\<open>Seal\<close> on the \<open>i\<close>-th
  payload under the nonce of that counter, with the header as additional data; these nonces are
  pairwise distinct, because the counter stops at its maximum instead of wrapping.\<close>

theorem session_nonces_unique:
  assumes "encrypt_all s ps = (fs, s')"
    and "ns = map (\<lambda>i. nonce 0 (txCounter s + of_nat i) (LocalNodeID s)) [0..<length fs]"
  shows "distinct ns \<and> length fs \<le> length ps
    \<and> (\<forall>i < length fs. \<exists>h aad ct. fs ! i = aad @ ct \<and> Header_Decode (fs ! i) = Inr (h, ct)
         \<and> h_Counter h = txCounter s + of_nat i \<and> Ccm_Seal (send s) [] (ns ! i) (ps ! i) aad = Inr ct)"
proof -
  note all = encrypt_all_sealed [OF assms(1)]
  have "distinct ns" unfolding assms(2) by (rule counters_distinct) (use all in simp)
  moreover have "\<exists>h aad ct. fs ! i = aad @ ct \<and> Header_Decode (fs ! i) = Inr (h, ct)
      \<and> h_Counter h = txCounter s + of_nat i \<and> Ccm_Seal (send s) [] (ns ! i) (ps ! i) aad = Inr ct"
    if "i < length fs" for i
  proof -
    have n: "ns ! i = nonce 0 (txCounter s + of_nat i) (LocalNodeID s)" using that by (simp add: assms(2))
    have sf: "sealed_frame s (txCounter s + of_nat i) (ps ! i) (fs ! i)" using all that by blast
    then obtain h ct where h: "Header_Decode (fs ! i) = Inr (h, ct)"
      by (auto simp: sealed_frame_def split: sum.splits)
    from sf have "h_Counter h = txCounter s + of_nat i"
      "Ccm_Seal (send s) [] (ns ! i) (ps ! i) (take (length (fs ! i) - length ct) (fs ! i)) = Inr ct"
      by (simp_all add: sealed_frame_def h n)
    with h have h: "Header_Decode (fs ! i) = Inr (h, ct)" "h_Counter h = txCounter s + of_nat i"
      "Ccm_Seal (send s) [] (ns ! i) (ps ! i) (take (length (fs ! i) - length ct) (fs ! i)) = Inr ct"
      by simp_all
    from hdr.front_rest [OF h(1)] h show ?thesis by metis
  qed
  ultimately show ?thesis using all by blast
qed

text \<open>At the last counter value \<^verbatim>\<open>Encrypt\<close> refuses, now and for every later call, and changes
  nothing; before that it encrypts every payload up to the CCM limit and advances the counter by
  one.\<close>

theorem session_counter_exhausted:
  assumes "keyed s" "length p \<le> 65535"
  shows "(if txCounter s = 0xFFFFFFFF then Secure_Encrypt s p = (Inl CounterExhausted, s)
     else \<exists>f. Secure_Encrypt s p = (Inr f, s\<lparr>txCounter := txCounter s + 1\<rparr>))"
  using Encrypt_returns [OF assms(1) _ assms(2)] by (simp add: Secure_Encrypt_def)

definition example_session :: "u16 \<Rightarrow> u16 \<Rightarrow> u64 \<Rightarrow> u64 \<Rightarrow> Secure" where
  "example_session l p ln pn = \<lparr>LocalSessionID = l, PeerSessionID = p, LocalNodeID = ln, PeerNodeID = pn,
     send = matter_ccm rev, recv = matter_ccm rev, txCounter = 0xFFFFFFFE, rx = zeroWindow\<rparr>"

lemma example_session_keyed [simp]: "keyed (example_session l p ln pn)"
  by (simp add: keyed_def example_session_def matter_ccm_def)

lemma example_session_fields [simp]:
  "txCounter (example_session l p ln pn) = 0xFFFFFFFE" "rx (example_session l p ln pn) = zeroWindow"
  by (simp_all add: example_session_def)

lemma example_encrypt: "\<exists>f. Secure_Encrypt (example_session 1 2 100 200) [7, 8]
    = (Inr f, example_session 1 2 100 200\<lparr>txCounter := 0xFFFFFFFF\<rparr>)"
  using Encrypt_returns [of "example_session 1 2 100 200" "[7, 8]"] by simp

lemma example_session_paired [simp]: "paired (example_session l p ln pn) (example_session p l pn ln)"
  by (simp add: paired_def example_session_def)

theorem session_nonces_unique_witness:
  "\<exists>f g. encrypt_all (example_session 1 2 100 200\<lparr>txCounter := 5\<rparr>) [[7], [8]]
       = ([f, g], example_session 1 2 100 200\<lparr>txCounter := 7\<rparr>)
     \<and> (\<exists>aad ct. f = aad @ ct \<and> Ccm_Seal (matter_ccm rev) [] (nonce 0 5 100) [7] aad = Inr ct)
     \<and> (\<exists>aad ct. g = aad @ ct \<and> Ccm_Seal (matter_ccm rev) [] (nonce 0 6 100) [8] aad = Inr ct)"
proof -
  let ?s = "example_session 1 2 100 200\<lparr>txCounter := 5\<rparr>"
  obtain f where f: "Secure_Encrypt ?s [7] = (Inr f, ?s\<lparr>txCounter := 6\<rparr>)"
    using Encrypt_returns [of ?s "[7]"] by auto
  obtain g where g: "Secure_Encrypt (?s\<lparr>txCounter := 6\<rparr>) [8] = (Inr g, ?s\<lparr>txCounter := 7\<rparr>)"
    using Encrypt_returns [of "?s\<lparr>txCounter := 6\<rparr>" "[8]"] by auto
  have all: "encrypt_all ?s [[7], [8]] = ([f, g], ?s\<lparr>txCounter := 7\<rparr>)"
    using f g by (simp add: Let_def)
  note u = session_nonces_unique [OF all refl, THEN conjunct2, THEN conjunct2, rule_format]
  from u [of 0] u [of 1] show ?thesis
    using all by (auto simp: example_session_def)
qed

theorem session_counter_exhausted_witness:
  "\<exists>f. Secure_Encrypt (example_session 1 2 100 200) [1, 2]
     = (Inr f, example_session 1 2 100 200\<lparr>txCounter := 0xFFFFFFFF\<rparr>)"
  using session_counter_exhausted [of "example_session 1 2 100 200" "[1, 2]"] by simp

section \<open>Delivery\<close>

text \<open>What one end of a session encrypts, the other end decrypts: every frame gives the payload
  with its counter, for operational sessions and for PASE sessions with node id 0; the only other
  verdict on it is the replay window's, and then counter and payload are still returned.\<close>

theorem session_roundtrip:
  assumes "keyed s" "keyed r" "paired s r" "Secure_Encrypt s p = (Inr f, s')"
  shows "fst (Secure_DecryptMsg r f)
    = (txCounter s, p, if fst (accept (rx r) (txCounter s)) then None else Some Replay)"
  by (simp add: DecryptMsg_Encrypt [OF assms])

theorem session_roundtrip_witness:
  "\<exists>f. fst (Secure_Encrypt (example_session 1 2 100 200) [7, 8]) = Inr f
    \<and> fst (Secure_DecryptMsg (example_session 2 1 200 100) f) = (0xFFFFFFFE, [7, 8], None)"
proof -
  let ?s = "example_session 1 2 100 200" and ?r = "example_session 2 1 200 100"
  obtain f where f: "Secure_Encrypt ?s [7, 8] = (Inr f, ?s\<lparr>txCounter := 0xFFFFFFFF\<rparr>)"
    using example_encrypt by blast
  have "paired ?s ?r" by simp
  from session_roundtrip [OF _ _ this f]
  have "fst (Secure_DecryptMsg ?r f) = (0xFFFFFFFE, [7, 8], None)"
    by (simp add: accept_def zeroWindow_def)
  with f show ?thesis by simp
qed

text \<open>C5: A chain of messages is delivered: all frames that one end encrypts, decrypted in order by
  the other end with a fresh window, give exactly the payloads, in order and without an error.\<close>

theorem session_in_order:
  assumes "keyed s" "keyed r" "paired s r" "rx r = zeroWindow"
  shows "map snd (decrypt_all r (fst (encrypt_all s ps)))
    = map (\<lambda>p. (p, None)) (take (length (fst (encrypt_all s ps))) ps)"
  using decrypt_encrypt_all [OF assms(1-3), of ps "fst (encrypt_all s ps)" "snd (encrypt_all s ps)"]
    assms(4) by (simp add: zeroWindow_def)

theorem session_in_order_witness:
  "map snd (decrypt_all (example_session 2 1 0 0) (fst (encrypt_all (example_session 1 2 0 0) [[1], [2]])))
    = map (\<lambda>p. (p, None)) (take (length (fst (encrypt_all (example_session 1 2 0 0) [[1], [2]]))) [[1], [2]])"
  by (rule session_in_order) simp_all

text \<open>C3: \<^verbatim>\<open>DecryptMsg\<close> authenticates: a frame it returns a payload for, accepted or as a duplicate,
  is a header addressed to this session followed by exactly the ciphertext that \<^verbatim>\<open>Seal\<close> makes of the
  payload under the receive key, with the header's bytes as additional data and the nonce of the
  header's counter and the peer. A second delivery of the same frame is reported as a replay.\<close>

theorem session_authentic:
  assumes "keyed r" "Secure_DecryptMsg r f = ((c, p, err), r')" "err = None \<or> err = Some Replay"
    and "length p \<le> 65535"
  shows "(\<exists>hdr aad ct. Header_Decode f = Inr (hdr, ct) \<and> f = aad @ ct
      \<and> h_SessionID hdr = LocalSessionID r \<and> h_Counter hdr = c
      \<and> Ccm_Seal (recv r) [] (nonce (aad ! 3) c (PeerNodeID r)) p aad = Inr ct)
    \<and> fst (Secure_DecryptMsg r' f) = (c, p, Some Replay)"
proof -
  obtain hdr aad ct where h: "Header_Decode f = Inr (hdr, ct)" "f = aad @ ct" "h_Counter hdr = c"
    "h_SessionID hdr = LocalSessionID r"
    "Ccm_Open (recv r) [] (nonce (aad ! 3) c (PeerNodeID r)) ct aad = Inr p"
    "r' = r\<lparr>rx := snd (accept (rx r) c)\<rparr>"
    using DecryptMsg_cases [OF assms(2,3)] .
  have s: "Ccm_Seal (recv r) [] (nonce (aad ! 3) c (PeerNodeID r)) p aad = Inr ct"
    using ccm_aead.unseal_only [of "c_block (recv r)"] h(5) assms(4) keyed_ccm(2) [OF assms(1)] by simp
  obtain w where again: "accept (snd (accept (rx r) c)) c = (False, w)"
    using accept_again [of "rx r" c] by (cases "accept (snd (accept (rx r) c)) c") auto
  have "take (length f - length ct) f = aad" by (simp add: h(2))
  then have "fst (Secure_DecryptMsg r' f) = (c, p, Some Replay)"
    by (simp add: Secure_DecryptMsg_def h(1,3,4,5,6) again)
  with s h show ?thesis by blast
qed

theorem session_authentic_witness:
  "\<exists>f r'. Secure_DecryptMsg (example_session 2 1 200 100) f = ((0xFFFFFFFE, [7, 8], None), r')
     \<and> fst (Secure_DecryptMsg r' f) = (0xFFFFFFFE, [7, 8], Some Replay)"
proof -
  let ?s = "example_session 1 2 100 200" and ?r = "example_session 2 1 200 100"
  obtain f where f: "Secure_Encrypt ?s [7, 8] = (Inr f, ?s\<lparr>txCounter := 0xFFFFFFFF\<rparr>)"
    using example_encrypt by blast
  have "paired ?s ?r" by simp
  from DecryptMsg_Encrypt [OF _ _ this f] obtain r' where
    r': "Secure_DecryptMsg ?r f = ((0xFFFFFFFE, [7, 8], None), r')"
    by (simp add: accept_def zeroWindow_def)
  from session_authentic [OF _ r'] have "fst (Secure_DecryptMsg r' f) = (0xFFFFFFFE, [7, 8], Some Replay)"
    by simp
  with r' show ?thesis by blast
qed

section \<open>The table\<close>

text \<open>A session id that \<^verbatim>\<open>AllocID\<close> hands out is never 0 and never one in use, so adding a session
  under it removes none; and if the random source works and one of the 1000 draws is such an id,
  \<^verbatim>\<open>AllocID\<close> does not fail.\<close>

theorem alloc_id_fresh:
  assumes "LocalSessionID s = i"
  shows "(Table_AllocID t rnd = Inr i \<longrightarrow> i \<noteq> 0 \<and> Table_Get t i = None
      \<and> (\<forall>j. Table_Get (Table_Add t s) j = (if j = i then Some s else Table_Get t j)))
    \<and> ((\<forall>k. rnd k \<noteq> None) \<longrightarrow> j < 1000 \<longrightarrow> rnd j = Some b \<longrightarrow> be_word b \<noteq> (0 :: u16) \<longrightarrow>
        t (be_word b) = None \<longrightarrow> (\<exists>k. Table_AllocID t rnd = Inr k))"
  using assms alloc_loop_ok [of t rnd 0 1000 i] alloc_loop_finds [of rnd j b t 0 1000]
  by (auto simp: Table_AllocID_def Table_Get_def Table_Add_def)

theorem alloc_id_fresh_witness:
  "\<exists>k. Table_AllocID (Table_Add NewTable (example_session 1 2 0 0))
     (\<lambda>i. Some (if i < 2 then [0, of_nat i] else [3, 4])) = Inr k"
  using alloc_id_fresh [of "example_session 1 2 0 0" 1 "Table_Add NewTable (example_session 1 2 0 0)"
      "\<lambda>i. Some (if i < 2 then [0, of_nat i] else [3, 4])" 2 "[3, 4]"]
  by (simp add: example_session_def Table_Add_def NewTable_def be_word_def)

end
