(* ===== verification/Ash.thy ===== *)
theory Ash
  imports Prelude
begin

text \<open>
  The link layer of the Zigbee dongle, \<^verbatim>\<open>internal/zigbee/ezsp/ash\<close>: frames (\<^verbatim>\<open>ash.go\<close>) with CRC,
  randomization and byte stuffing, and the connection (\<^verbatim>\<open>conn.go\<close>): the framing loop of the
  reader, the dispatch of decoded frames to the bounded channels, and the host's operations.
\<close>

section \<open>Frames\<close>

abbreviation Flag :: byte where "Flag \<equiv> 0x7E"
abbreviation Escape :: byte where "Escape \<equiv> 0x7D"
abbreviation xon :: byte where "xon \<equiv> 0x11"
abbreviation xoff :: byte where "xoff \<equiv> 0x13"
abbreviation subst :: byte where "subst \<equiv> 0x18"
abbreviation cancel :: byte where "cancel \<equiv> 0x1A"

datatype ash_error = ErrShort | ErrCRC | ErrControl

datatype frame_type = DATA | ACK | NAK | RST | RSTACK | ERROR

record ash_frame =
  Type :: frame_type
  FrmNum :: u8
  AckNum :: u8
  ReTx :: bool
  Payload :: bytes
  Code :: byte

definition zeroFrame :: ash_frame where
  "zeroFrame = \<lparr>Type = DATA, FrmNum = 0, AckNum = 0, ReTx = False, Payload = [], Code = 0\<rparr>"

text \<open>One bit and one byte of the CRC.\<close>

definition crc_bit :: "u16 \<Rightarrow> u16" where
  "crc_bit crc = (if crc AND 0x8000 \<noteq> 0 then push_bit 1 crc XOR 0x1021 else push_bit 1 crc)"

definition crc_byte :: "byte \<Rightarrow> u16 \<Rightarrow> u16" where
  "crc_byte b crc = (crc_bit ^^ 8) (crc XOR push_bit 8 (ucast b))"

definition crc16 :: "bytes \<Rightarrow> u16" where
  "crc16 data = fold crc_byte data 0xFFFF"

fun randomize_from :: "byte \<Rightarrow> bytes \<Rightarrow> bytes" where
  "randomize_from r [] = []"
| "randomize_from r (b # bs) =
     (b XOR r) # randomize_from (if r AND 1 = 0 then drop_bit 1 r else drop_bit 1 r XOR 0xB8) bs"

definition randomize :: "bytes \<Rightarrow> bytes" where
  "randomize data = randomize_from 0x42 data"

definition isReserved :: "byte \<Rightarrow> bool" where
  "isReserved b \<longleftrightarrow> b = Flag \<or> b = Escape \<or> b = xon \<or> b = xoff \<or> b = subst \<or> b = cancel"

fun stuff :: "bytes \<Rightarrow> bytes" where
  "stuff [] = []"
| "stuff (b # bs) = (if isReserved b then Escape # (b XOR 0x20) # stuff bs else b # stuff bs)"

fun unstuff_from :: "bool \<Rightarrow> bytes \<Rightarrow> bytes" where
  "unstuff_from esc [] = []"
| "unstuff_from esc (b # bs) =
     (if esc then (b XOR 0x20) # unstuff_from False bs
      else if b = Escape then unstuff_from True bs
      else b # unstuff_from False bs)"

definition unstuff :: "bytes \<Rightarrow> bytes" where
  "unstuff data = unstuff_from False data"

text \<open>The body with its CRC, and the frame on the wire.\<close>

definition crc_bytes :: "bytes \<Rightarrow> bytes" where
  "crc_bytes body = [ucast (drop_bit 8 (crc16 body)), ucast (crc16 body)]"

definition with_crc :: "bytes \<Rightarrow> bytes" where
  "with_crc body = body @ crc_bytes body"

definition ash_encode :: "bytes \<Rightarrow> bytes" where
  "ash_encode body = stuff (with_crc body) @ [Flag]"

definition DataFrame :: "u8 \<Rightarrow> u8 \<Rightarrow> bytes \<Rightarrow> bytes" where
  "DataFrame frmNum ackNum ezsp =
     ash_encode ((push_bit 4 (frmNum AND 7) OR (ackNum AND 7)) # randomize ezsp)"

definition AckFrame :: "u8 \<Rightarrow> bytes" where
  "AckFrame ackNum = ash_encode [0x80 OR (ackNum AND 7)]"

definition NakFrame :: "u8 \<Rightarrow> bytes" where
  "NakFrame ackNum = ash_encode [0xA0 OR (ackNum AND 7)]"

definition RstFrame :: bytes where
  "RstFrame = ash_encode [0xC0]"

text \<open>The interpretation of the control byte, on a body whose CRC is right.\<close>

definition decode_body :: "bytes \<Rightarrow> ash_error + ash_frame" where
  "decode_body body =
     (let ctrl = body ! 0;
          code = (if length body \<ge> 3 then body ! 2 else 0) in
      if ctrl AND 0x80 = 0 then
        Inr (zeroFrame\<lparr>Type := DATA, FrmNum := drop_bit 4 ctrl AND 7, ReTx := ctrl AND 8 \<noteq> 0,
               AckNum := ctrl AND 7, Payload := randomize (tl body)\<rparr>)
      else if ctrl AND 0xE0 = 0x80 then Inr (zeroFrame\<lparr>Type := ACK, AckNum := ctrl AND 7\<rparr>)
      else if ctrl AND 0xE0 = 0xA0 then Inr (zeroFrame\<lparr>Type := NAK, AckNum := ctrl AND 7\<rparr>)
      else if ctrl = 0xC0 then Inr (zeroFrame\<lparr>Type := RST\<rparr>)
      else if ctrl = 0xC1 then Inr (zeroFrame\<lparr>Type := RSTACK, Code := code\<rparr>)
      else if ctrl = 0xC2 then Inr (zeroFrame\<lparr>Type := ERROR, Code := code\<rparr>)
      else Inl ErrControl)"

definition ash_decode :: "bytes \<Rightarrow> ash_error + ash_frame" where
  "ash_decode raw =
     (let b = unstuff raw in
      if length b < 3 then Inl ErrShort
      else
        let body = take (length b - 2) b;
            want = push_bit 8 (ucast (b ! (length b - 2))) OR ucast (b ! (length b - 1)) in
        if crc16 body \<noteq> want then Inl ErrCRC else decode_body body)"

section \<open>Stuffing and randomization\<close>

lemma randomize_from_twice: "randomize_from r (randomize_from r bs) = bs"
  by (induction r bs rule: randomize_from.induct) (simp_all add: xor.assoc)

lemma randomize_twice [simp]: "randomize (randomize bs) = bs"
  by (simp add: randomize_def randomize_from_twice)

lemma unstuff_stuff_append: "unstuff_from False (stuff bs @ rest) = bs @ unstuff_from False rest"
  by (induction bs) (auto simp: isReserved_def xor.assoc)

lemma unstuff_stuff [simp]: "unstuff (stuff bs) = bs"
  using unstuff_stuff_append [of bs "[]"] by (simp add: unstuff_def)

lemma stuff_reserved: "b \<in> set (stuff bs) \<Longrightarrow> isReserved b \<Longrightarrow> b = Escape"
proof (induction bs)
  case (Cons c cs)
  have "\<not> isReserved (c XOR 0x20)" if "isReserved c" using that by (auto simp: isReserved_def)
  with Cons show ?case by (auto split: if_splits)
qed simp

lemma crc_join: "push_bit 8 (ucast (ucast (drop_bit 8 c) :: byte)) OR ucast (ucast c :: byte) = (c :: u16)"
  by (rule bit_eqI)
    (auto simp: bit_or_iff bit_push_bit_iff bit_ucast_iff bit_drop_bit_eq dest: bit_imp_le_length)

lemma ash_decode_stuffed:
  "ash_decode (stuff (body @ [h, l])) =
     (if body = [] then Inl ErrShort
      else if crc16 body \<noteq> push_bit 8 (ucast h) OR ucast l then Inl ErrCRC
      else decode_body body)"
  unfolding ash_decode_def unstuff_stuff Let_def by (simp add: nth_append Suc_le_eq)

lemma ash_decode_encode: "body \<noteq> [] \<Longrightarrow> ash_decode (stuff (with_crc body)) = decode_body body"
  by (simp only: with_crc_def crc_bytes_def ash_decode_stuffed crc_join if_False simp_thms)

section \<open>The CRC\<close>

lemma crc_bit_xor: "crc_bit c = push_bit 1 c XOR (if bit c 15 then 0x1021 else 0)"
proof -
  have "(0x8000 :: u16) = 2 ^ 15" by simp
  then have "c AND 0x8000 \<noteq> 0 \<longleftrightarrow> bit c 15" by (simp only: and_exp_eq_0_iff_not_bit) simp
  then show ?thesis by (simp add: crc_bit_def)
qed

lemma crc_bit_inj: "inj crc_bit"
proof (rule injI)
  fix x y assume eq: "crc_bit x = crc_bit y"
  have low: "bit (crc_bit c) 0 \<longleftrightarrow> bit c 15" for c
    by (simp only: crc_bit_xor bit_xor_iff bit_push_bit_iff) simp
  have top: "bit x 15 \<longleftrightarrow> bit y 15" using eq low [of x] low [of y] by simp
  then have sh: "push_bit 1 x = push_bit 1 y"
    using eq by (simp only: crc_bit_xor xor_cancel)
  show "x = y"
  proof (rule bit_eqI)
    fix k assume "possible_bit TYPE(16 word) k"
    then consider "k = 15" | "k < 15" by (auto simp: less_Suc_eq numeral_eq_Suc)
    then show "bit x k \<longleftrightarrow> bit y k"
    proof cases
      case 2
      have "bit (push_bit 1 c) (Suc k) \<longleftrightarrow> bit c k" for c :: u16
        using 2 by (simp only: bit_push_bit_iff) simp
      from this [of x] this [of y] sh show ?thesis by simp
    qed (simp add: top)
  qed
qed

lemma crc_bits_inj: "(crc_bit ^^ 8) x = (crc_bit ^^ 8) y \<longleftrightarrow> x = y"
  using inj_fn [OF crc_bit_inj, of 8] by (auto dest: injD)

lemma crc_byte_state: "crc_byte b c = crc_byte b c' \<longleftrightarrow> c = c'"
  unfolding crc_byte_def crc_bits_inj xor_cancel ..

lemma crc_byte_byte: "crc_byte b c = crc_byte b' c \<longleftrightarrow> b = b'"
proof -
  have "push_bit 8 (ucast b :: u16) = push_bit 8 (ucast b') \<longleftrightarrow> b = b'"
  proof
    assume eq: "push_bit 8 (ucast b :: u16) = push_bit 8 (ucast b')"
    have un: "ucast (drop_bit 8 (push_bit 8 (ucast x :: u16))) = x" for x :: byte
      by (rule bit_eqI) (auto simp: bit_ucast_iff bit_drop_bit_eq bit_push_bit_iff)
    from arg_cong [OF eq, of "\<lambda>v. ucast (drop_bit 8 v) :: byte"] show "b = b'" unfolding un .
  qed simp
  then show ?thesis unfolding crc_byte_def crc_bits_inj xor_cancel .
qed

lemma crc_fold_state: "fold crc_byte bs c = fold crc_byte bs c' \<longleftrightarrow> c = c'"
  by (induction bs arbitrary: c c') (simp_all add: crc_byte_state)

text \<open>A change of one byte always changes the CRC.\<close>

lemma crc16_one_byte: "crc16 (xs @ b # ys) = crc16 (xs @ b' # ys) \<longleftrightarrow> b = b'"
  by (simp add: crc16_def crc_fold_state crc_byte_byte)

section \<open>The frames of the encoder\<close>

lemma small_all:
  assumes "list_all P (map word_of_nat [0..<8])" shows "P ((k :: byte) AND 7)"
proof -
  have "k AND 7 = take_bit 3 k" by (simp add: take_bit_eq_mask mask_eq_exp_minus_1)
  then have "unat (k AND 7) < 8" using take_bit_nat_less_exp [of 3 "unat k"] by (simp add: unsigned_take_bit_eq)
  moreover have "P (word_of_nat n)" if "n < 8" for n using assms that by (auto simp: list_all_iff)
  ultimately have "P (word_of_nat (unat (k AND 7)))" by blast
  then show ?thesis by simp
qed

lemma ctrl_data:
  fixes f a :: byte
  defines "c \<equiv> push_bit 4 (f AND 7) OR (a AND 7)"
  shows "c AND 0x80 = 0" "drop_bit 4 c AND 7 = f AND 7" "c AND 8 = 0" "c AND 7 = a AND 7"
proof -
  let ?P = "\<lambda>x y :: byte. let c = push_bit 4 x OR y in
     c AND 0x80 = 0 \<and> drop_bit 4 c AND 7 = x \<and> c AND 8 = 0 \<and> c AND 7 = y"
  have "list_all (\<lambda>x. list_all (?P x) (map word_of_nat [0..<8])) (map word_of_nat [0..<8])" by code_simp
  from small_all [OF small_all [OF this], of f a]
  show "c AND 0x80 = 0" "drop_bit 4 c AND 7 = f AND 7" "c AND 8 = 0" "c AND 7 = a AND 7"
    unfolding c_def Let_def by blast+
qed

lemma decode_data:
  "decode_body ((push_bit 4 (f AND 7) OR (a AND 7)) # randomize p)
     = Inr (zeroFrame\<lparr>Type := DATA, FrmNum := f AND 7, AckNum := a AND 7, Payload := p\<rparr>)"
  unfolding decode_body_def Let_def nth_Cons_0 ctrl_data by (simp add: zeroFrame_def)

lemma ctrl_ack:
  fixes a :: byte
  shows "(0x80 OR (a AND 7)) AND 0x80 \<noteq> 0" "(0x80 OR (a AND 7)) AND 0xE0 = 0x80"
    "(0x80 OR (a AND 7)) AND 7 = a AND 7" "(0xA0 OR (a AND 7)) AND 0x80 \<noteq> 0"
    "(0xA0 OR (a AND 7)) AND 0xE0 = 0xA0" "(0xA0 OR (a AND 7)) AND 7 = a AND 7"
proof -
  let ?P = "\<lambda>x :: byte. (0x80 OR x) AND 0x80 \<noteq> 0 \<and> (0x80 OR x) AND 0xE0 = 0x80 \<and> (0x80 OR x) AND 7 = x
     \<and> (0xA0 OR x) AND 0x80 \<noteq> 0 \<and> (0xA0 OR x) AND 0xE0 = 0xA0 \<and> (0xA0 OR x) AND 7 = x"
  have "list_all ?P (map word_of_nat [0..<8])" by code_simp
  from small_all [OF this, of a]
  show "(0x80 OR (a AND 7)) AND 0x80 \<noteq> 0" "(0x80 OR (a AND 7)) AND 0xE0 = 0x80"
    "(0x80 OR (a AND 7)) AND 7 = a AND 7" "(0xA0 OR (a AND 7)) AND 0x80 \<noteq> 0"
    "(0xA0 OR (a AND 7)) AND 0xE0 = 0xA0" "(0xA0 OR (a AND 7)) AND 7 = a AND 7"
    by blast+
qed

lemma decode_ack_nak:
  "decode_body [0x80 OR (a AND 7)] = Inr (zeroFrame\<lparr>Type := ACK, AckNum := a AND 7\<rparr>)"
  "decode_body [0xA0 OR (a AND 7)] = Inr (zeroFrame\<lparr>Type := NAK, AckNum := a AND 7\<rparr>)"
  "decode_body [0xC0] = Inr (zeroFrame\<lparr>Type := RST\<rparr>)"
  unfolding decode_body_def Let_def nth_Cons_0
  by (simp_all only: ctrl_ack if_True if_False simp_thms) simp_all

section \<open>The connection\<close>

text \<open>
  The state behind a \<^verbatim>\<open>Conn\<close>: the sequence numbers, the contents of the four bounded channels and
  the frames written to the port so far. \<open>offer n q x\<close> is a \<^verbatim>\<open>select\<close> with a send on a channel of
  capacity \<open>n\<close> and an empty \<^verbatim>\<open>default\<close>.
\<close>

datatype conn_error = PortError | NcpError byte | ResetTimeout | SendTimeout | CtxDone

record Conn =
  co_txSeq :: u8
  co_rxSeq :: u8
  co_acks :: "u8 list"
  co_rstacks :: "byte list"
  co_data :: "bytes list"
  co_errs :: "conn_error list"
  co_out :: "bytes list"

definition Open :: Conn where
  "Open = \<lparr>co_txSeq = 0, co_rxSeq = 0, co_acks = [], co_rstacks = [], co_data = [], co_errs = [], co_out = []\<rparr>"

definition offer :: "nat \<Rightarrow> 'a list \<Rightarrow> 'a \<Rightarrow> 'a list" where
  "offer n q x = (if length q < n then q @ [x] else q)"

definition dispatch :: "bytes \<Rightarrow> Conn \<Rightarrow> Conn" where
  "dispatch raw c =
     (case ash_decode raw of
        Inl _ \<Rightarrow> c
      | Inr f \<Rightarrow>
          (case Type f of
             RSTACK \<Rightarrow> c\<lparr>co_rstacks := offer 1 (co_rstacks c) (Code f)\<rparr>
           | ACK \<Rightarrow> c\<lparr>co_acks := offer 8 (co_acks c) (AckNum f)\<rparr>
           | NAK \<Rightarrow> c\<lparr>co_acks := offer 8 (co_acks c) (AckNum f)\<rparr>
           | ERROR \<Rightarrow> c\<lparr>co_errs := offer 1 (co_errs c) (NcpError (Code f))\<rparr>
           | DATA \<Rightarrow>
               (let ack = (FrmNum f + 1) AND 7 in
                c\<lparr>co_rxSeq := ack, co_out := co_out c @ [AckFrame ack],
                  co_acks := offer 8 (co_acks c) (AckNum f), co_data := offer 32 (co_data c) (Payload f)\<rparr>)
           | RST \<Rightarrow> c))"

text \<open>The loop of \<^verbatim>\<open>read\<close>, byte by byte, with the partial frame \<^verbatim>\<open>buf\<close>.\<close>

definition read_byte :: "byte \<Rightarrow> bytes \<times> Conn \<Rightarrow> bytes \<times> Conn" where
  "read_byte b = (\<lambda>(buf, c).
     if b = cancel then ([], c)
     else if b = Flag then (if buf \<noteq> [] then ([], dispatch buf c) else (buf, c))
     else (buf @ [b], c))"

definition read_bytes :: "bytes \<Rightarrow> bytes \<times> Conn \<Rightarrow> bytes \<times> Conn" where
  "read_bytes bs st = fold read_byte bs st"

text \<open>
  The writes of \<^verbatim>\<open>Reset\<close> and \<^verbatim>\<open>Send\<close>, before they wait; \<open>ok\<close> tells whether \<^verbatim>\<open>port.Write\<close> takes the
  frame. If it does not, they return its error at once: \<^verbatim>\<open>Reset\<close> has changed nothing then, \<^verbatim>\<open>Send\<close> has
  used up a sequence number.
\<close>

definition Reset_begin :: "bool \<Rightarrow> Conn \<Rightarrow> conn_error option \<times> Conn" where
  "Reset_begin ok c =
     (if \<not> ok then (Some PortError, c)
      else (None, c\<lparr>co_out := co_out c @ [cancel # RstFrame], co_txSeq := 0, co_rxSeq := 0\<rparr>))"

definition Send_begin :: "bool \<Rightarrow> bytes \<Rightarrow> Conn \<Rightarrow> conn_error option \<times> Conn" where
  "Send_begin ok ezsp c =
     (let frm = co_txSeq c; ack = co_rxSeq c; c = c\<lparr>co_txSeq := (co_txSeq c + 1) AND 7\<rparr> in
      if \<not> ok then (Some PortError, c)
      else (None, c\<lparr>co_out := co_out c @ [DataFrame frm ack ezsp]\<rparr>))"

text \<open>What the waiting \<^verbatim>\<open>select\<close> statements may do: any ready case.\<close>

inductive reset_wait :: "Conn \<Rightarrow> conn_error option \<Rightarrow> Conn \<Rightarrow> bool" where
  ctx: "reset_wait c (Some CtxDone) c"
| err: "co_errs c = e # q \<Longrightarrow> reset_wait c (Some e) (c\<lparr>co_errs := q\<rparr>)"
| code: "co_rstacks c = k # q \<Longrightarrow> reset_wait c None (c\<lparr>co_rstacks := q\<rparr>)"
| timeout: "reset_wait c (Some ResetTimeout) c"

inductive send_wait :: "Conn \<Rightarrow> conn_error option \<Rightarrow> Conn \<Rightarrow> bool" where
  ctx: "send_wait c (Some CtxDone) c"
| err: "co_errs c = e # q \<Longrightarrow> send_wait c (Some e) (c\<lparr>co_errs := q\<rparr>)"
| ack: "co_acks c = a # q \<Longrightarrow> send_wait c None (c\<lparr>co_acks := q\<rparr>)"
| timeout: "send_wait c (Some SendTimeout) c"

inductive Recv :: "Conn \<Rightarrow> conn_error + bytes \<Rightarrow> Conn \<Rightarrow> bool" where
  ctx: "Recv c (Inl CtxDone) c"
| err: "co_errs c = e # q \<Longrightarrow> Recv c (Inl e) (c\<lparr>co_errs := q\<rparr>)"
| payload: "co_data c = p # q \<Longrightarrow> Recv c (Inr p) (c\<lparr>co_data := q\<rparr>)"

text \<open>The interleaving of the reader goroutine with the host's calls.\<close>

inductive conn_step :: "bytes \<times> Conn \<Rightarrow> bytes \<times> Conn \<Rightarrow> bool" where
  rx: "conn_step st (read_byte b st)"
| rx_error: "conn_step (buf, c) (buf, c\<lparr>co_errs := offer 1 (co_errs c) PortError\<rparr>)"
| reset: "conn_step (buf, c) (buf, snd (Reset_begin ok c))"
| reset_wait: "reset_wait c e c' \<Longrightarrow> conn_step (buf, c) (buf, c')"
| send: "conn_step (buf, c) (buf, snd (Send_begin ok ezsp c))"
| send_wait: "send_wait c e c' \<Longrightarrow> conn_step (buf, c) (buf, c')"
| recv: "Recv c r c' \<Longrightarrow> conn_step (buf, c) (buf, c')"

inductive_cases reset_waitE: "reset_wait c e c'"
inductive_cases send_waitE: "send_wait c e c'"
inductive_cases RecvE: "Recv c r c'"

inductive conn_reachable :: "bytes \<times> Conn \<Rightarrow> bool" where
  start: "conn_reachable ([], Open)"
| step: "conn_reachable st \<Longrightarrow> conn_step st st' \<Longrightarrow> conn_reachable st'"

section \<open>Framing\<close>

lemma read_plain:
  "\<forall>b\<in>set raw. b \<noteq> Flag \<and> b \<noteq> cancel \<Longrightarrow> read_bytes raw (buf, c) = (buf @ raw, c)"
  by (induction raw arbitrary: buf) (simp_all add: read_bytes_def read_byte_def)

lemma read_append: "read_bytes (xs @ ys) st = read_bytes ys (read_bytes xs st)"
  by (simp add: read_bytes_def)

lemma stuff_plain: "\<forall>b\<in>set (stuff x). b \<noteq> Flag \<and> b \<noteq> cancel"
  using stuff_reserved [of Flag x] stuff_reserved [of cancel x] by (auto simp: isReserved_def)

lemma stuff_nonempty: "stuff (with_crc body) \<noteq> []"
  by (cases body) (simp_all add: with_crc_def crc_bytes_def)

lemma read_frame:
  "read_bytes (ash_encode body) ([], c) = ([], dispatch (stuff (with_crc body)) c)"
  unfolding ash_encode_def read_append read_plain [OF stuff_plain] append_Nil
  by (simp add: read_bytes_def read_byte_def stuff_nonempty)

lemma read_frames:
  "read_bytes (concat (map ash_encode bodies)) ([], c)
     = ([], fold (\<lambda>body. dispatch (stuff (with_crc body))) bodies c)"
  by (induction bodies arbitrary: c) (simp_all add: read_append read_frame, simp add: read_bytes_def)

lemma read_cancel: "fst (read_bytes (xs @ [cancel]) st) = []"
  by (simp add: read_append) (simp add: read_bytes_def read_byte_def split: prod.splits)

definition data_body :: "u8 \<times> u8 \<times> bytes \<Rightarrow> bytes" where
  "data_body = (\<lambda>(f, a, p). (push_bit 4 (f AND 7) OR (a AND 7)) # randomize p)"

lemma DataFrame_body: "DataFrame f a p = ash_encode (data_body (f, a, p))"
  by (simp add: DataFrame_def data_body_def)

lemma and_7_idem: "((f AND 7) + 1) AND 7 = (f + 1) AND (7 :: byte)"
proof -
  have "take_bit 3 (take_bit 3 f + take_bit 3 1) = take_bit 3 (f + 1)"
    by transfer (simp add: take_bit_eq_mod mod_simps)
  then show ?thesis by (simp add: take_bit_eq_mask mask_eq_exp_minus_1)
qed

lemma dispatch_data:
  "dispatch (stuff (with_crc (data_body (f, a, p)))) c =
     c\<lparr>co_rxSeq := (f + 1) AND 7, co_out := co_out c @ [AckFrame ((f + 1) AND 7)],
       co_acks := offer 8 (co_acks c) (a AND 7), co_data := offer 32 (co_data c) p\<rparr>"
proof -
  have "ash_decode (stuff (with_crc (data_body (f, a, p))))
      = Inr (zeroFrame\<lparr>Type := DATA, FrmNum := f AND 7, AckNum := a AND 7, Payload := p\<rparr>)"
    by (subst ash_decode_encode) (simp_all only: data_body_def prod.case decode_data list.distinct simp_thms)
  then show ?thesis by (simp add: dispatch_def Let_def and_7_idem)
qed

lemma fold_dispatch_data:
  assumes "length (co_data c) + length ms \<le> 32"
  shows "let c' = fold (\<lambda>m. dispatch (stuff (with_crc (data_body m)))) ms c in
     co_data c' = co_data c @ map (\<lambda>(f, a, p). p) ms
     \<and> co_out c' = co_out c @ map (\<lambda>(f, a, p). AckFrame ((f + 1) AND 7)) ms"
  using assms
proof (induction ms arbitrary: c)
  case (Cons m ms)
  obtain f a p where m: "m = (f, a, p)" by (cases m)
  let ?c = "dispatch (stuff (with_crc (data_body m))) c"
  have d: "co_data ?c = co_data c @ [p]" "co_out ?c = co_out c @ [AckFrame ((f + 1) AND 7)]"
    using Cons.prems by (simp_all add: m dispatch_data offer_def)
  then have "length (co_data ?c) + length ms \<le> 32" using Cons.prems by simp
  from Cons.IH [OF this] d show ?case by (simp add: Let_def m)
qed simp

section \<open>The invariant of the connection\<close>

definition conn_inv :: "bytes \<times> Conn \<Rightarrow> bool" where
  "conn_inv = (\<lambda>(buf, c).
     (\<forall>b\<in>set buf. b \<noteq> Flag \<and> b \<noteq> cancel)
     \<and> co_txSeq c \<le> 7 \<and> co_rxSeq c \<le> 7
     \<and> length (co_acks c) \<le> 8 \<and> length (co_rstacks c) \<le> 1
     \<and> length (co_data c) \<le> 32 \<and> length (co_errs c) \<le> 1)"

lemma and_7_le: "(k :: byte) AND 7 \<le> 7"
  by (rule small_all) code_simp

lemma length_offer: "length q \<le> n \<Longrightarrow> length (offer n q x) \<le> n"
  by (simp add: offer_def)

lemma dispatch_inv: "conn_inv (buf, c) \<Longrightarrow> conn_inv ([], dispatch raw c)"
  by (auto simp: conn_inv_def dispatch_def Let_def length_offer and_7_le
      split: sum.splits frame_type.splits)

lemma read_byte_inv: "conn_inv st \<Longrightarrow> conn_inv (read_byte b st)"
  by (cases st) (auto simp: read_byte_def dispatch_inv, auto simp: conn_inv_def)

lemma wait_inv:
  "reset_wait c e c' \<Longrightarrow> conn_inv (buf, c) \<Longrightarrow> conn_inv (buf, c')"
  "send_wait c e c' \<Longrightarrow> conn_inv (buf, c) \<Longrightarrow> conn_inv (buf, c')"
  "Recv c r c' \<Longrightarrow> conn_inv (buf, c) \<Longrightarrow> conn_inv (buf, c')"
  by (erule reset_waitE, simp_all add: conn_inv_def)
    (erule send_waitE, simp_all add: conn_inv_def, erule RecvE, simp_all add: conn_inv_def)

lemma conn_step_inv: "conn_step st st' \<Longrightarrow> conn_inv st \<Longrightarrow> conn_inv st'"
proof (induction rule: conn_step.induct)
  case (rx st b)
  then show ?case by (rule read_byte_inv)
next
  case (rx_error buf c)
  then show ?case by (simp add: conn_inv_def length_offer)
next
  case (reset buf c ok)
  then show ?case by (simp add: conn_inv_def Reset_begin_def)
next
  case (send buf c ok ezsp)
  then show ?case by (simp add: conn_inv_def Send_begin_def Let_def and_7_le)
qed (fact wait_inv)+

lemma conn_reachable_inv: "conn_reachable st \<Longrightarrow> conn_inv st"
proof (induction rule: conn_reachable.induct)
  case start
  show ?case by (simp add: conn_inv_def Open_def)
next
  case (step st st')
  from conn_step_inv [OF step.hyps(2) step.IH] show ?case .
qed

lemma encode_frame:
  "body \<noteq> [] \<Longrightarrow> decode_body body = res \<Longrightarrow> \<exists>raw. ash_encode body = raw @ [Flag] \<and> ash_decode raw = res"
  using ash_decode_encode [of body] by (auto simp: ash_encode_def)

lemma crc_split:
  "ucast (push_bit 8 (ucast h) OR ucast l :: u16) = (l :: byte)"
  "ucast (drop_bit 8 (push_bit 8 (ucast h) OR ucast l :: u16)) = (h :: byte)"
  by (rule bit_eqI, auto simp: bit_ucast_iff bit_or_iff bit_push_bit_iff bit_drop_bit_eq
      dest: bit_imp_le_length)+

section \<open>Properties\<close>

text \<open>Every frame the host builds decodes to what was put in: \<^verbatim>\<open>Decode\<close> on the bytes before the
  closing flag gives the frame type, the sequence numbers modulo 8 and, for DATA, the payload,
  de-stuffed and de-randomized, with the retransmission bit clear.\<close>

theorem ash_frames_roundtrip:
  "(\<exists>raw. DataFrame f a p = raw @ [Flag] \<and> ash_decode raw =
      Inr (zeroFrame\<lparr>Type := DATA, FrmNum := f AND 7, AckNum := a AND 7, Payload := p\<rparr>))
   \<and> (\<exists>raw. AckFrame a = raw @ [Flag] \<and> ash_decode raw = Inr (zeroFrame\<lparr>Type := ACK, AckNum := a AND 7\<rparr>))
   \<and> (\<exists>raw. NakFrame a = raw @ [Flag] \<and> ash_decode raw = Inr (zeroFrame\<lparr>Type := NAK, AckNum := a AND 7\<rparr>))
   \<and> (\<exists>raw. RstFrame = raw @ [Flag] \<and> ash_decode raw = Inr (zeroFrame\<lparr>Type := RST\<rparr>))"
  unfolding DataFrame_def AckFrame_def NakFrame_def RstFrame_def
  by (intro conjI encode_frame decode_data decode_ack_nak list.distinct)

text \<open>The wire stays in step: inside a built frame the flag byte occurs only at its end, and no
  other reserved byte (XON, XOFF, substitute, cancel) occurs at all except the escape byte.\<close>

theorem ash_frame_clean:
  "\<exists>raw. ash_encode body = raw @ [Flag] \<and> raw \<noteq> [] \<and> (\<forall>b. b \<in> set raw \<and> isReserved b \<longrightarrow> b = Escape)"
  by (rule exI [of _ "stuff (with_crc body)"]) (use stuff_reserved stuff_nonempty in \<open>auto simp: ash_encode_def\<close>)

theorem ash_frame_clean_witness:
  "\<exists>raw. ash_encode [0x7E, 0x11] = raw @ [Flag] \<and> raw \<noteq> []
     \<and> (\<forall>b. b \<in> set raw \<and> isReserved b \<longrightarrow> b = Escape)"
  by (rule ash_frame_clean)

text \<open>The CRC detects a damaged byte: if any one byte of a frame's body is changed, or its CRC
  bytes are, \<^verbatim>\<open>Decode\<close> reports \<^verbatim>\<open>ErrCRC\<close> and nothing is delivered.\<close>

theorem ash_crc_detects:
  assumes "b \<noteq> b'" "[h, l] \<noteq> crc_bytes (xs @ b # ys)"
  shows "ash_decode (stuff (xs @ b' # ys @ crc_bytes (xs @ b # ys))) = Inl ErrCRC
    \<and> ash_decode (stuff (xs @ b # ys @ [h, l])) = Inl ErrCRC"
proof
  let ?c = "crc16 (xs @ b # ys)"
  have "ash_decode (stuff ((xs @ b' # ys) @ [ucast (drop_bit 8 ?c), ucast ?c])) = Inl ErrCRC"
    unfolding ash_decode_stuffed crc_join using assms(1) crc16_one_byte [of xs b' ys b] by auto
  then show "ash_decode (stuff (xs @ b' # ys @ crc_bytes (xs @ b # ys))) = Inl ErrCRC"
    by (simp add: crc_bytes_def)
  have "push_bit 8 (ucast h) OR ucast l \<noteq> ?c"
    using assms(2) unfolding crc_bytes_def by (metis crc_split)
  then have "ash_decode (stuff ((xs @ b # ys) @ [h, l])) = Inl ErrCRC"
    unfolding ash_decode_stuffed by auto
  then show "ash_decode (stuff (xs @ b # ys @ [h, l])) = Inl ErrCRC" by simp
qed

theorem ash_crc_detects_witness:
  "ash_decode (stuff ([0x25] @ 0x01 # [0x33] @ crc_bytes ([0x25] @ 0x00 # [0x33]))) = Inl ErrCRC
    \<and> ash_decode (stuff ([0x25] @ 0x00 # [0x33] @ [0, 0])) = Inl ErrCRC"
  by (rule ash_crc_detects) code_simp+

text \<open>C7: The read loop delivers: after any noise that ends in a cancel byte, a run of DATA frames,
  cut into reads in any way, puts their payloads into the receive channel in order (while it has
  room) and writes one ACK for each, with the number after the frame's.\<close>

theorem ash_reader_delivers:
  assumes "length (co_data (snd (read_bytes noise (buf, c)))) + length ms \<le> 32"
    and "concat chunks = noise @ [cancel] @ concat (map (\<lambda>(f, a, p). DataFrame f a p) ms)"
  shows "let before = snd (read_bytes noise (buf, c));
             (buf', c') = fold read_bytes chunks (buf, c)
    in buf' = [] \<and> co_data c' = co_data before @ map (\<lambda>(f, a, p). p) ms
       \<and> co_out c' = co_out before @ map (\<lambda>(f, a, p). AckFrame ((f + 1) AND 7)) ms"
proof -
  have chunks: "fold read_bytes cs st = read_bytes (concat cs) st" for cs st
    by (induction cs arbitrary: st) (simp_all add: read_append, simp add: read_bytes_def)
  obtain b c1 where n: "read_bytes noise (buf, c) = (b, c1)" by fastforce
  have can: "read_bytes [cancel] (b, c1) = ([], c1)" by (simp add: read_bytes_def read_byte_def)
  have m: "map (\<lambda>(f, a, p). DataFrame f a p) ms = map ash_encode (map data_body ms)"
    by (auto simp: DataFrame_body)
  have "fold (\<lambda>b. dispatch (stuff (with_crc b))) (map data_body ms) c1
      = fold (\<lambda>x. dispatch (stuff (with_crc (data_body x)))) ms c1"
    by (simp add: fold_map comp_def)
  then show ?thesis
    unfolding chunks assms(2) read_append n can m read_frames
    using fold_dispatch_data [of c1 ms] assms(1) n by (simp add: Let_def)
qed

theorem ash_reader_delivers_witness:
  "let before = snd (read_bytes [0x7E, 0x55] ([1, 2], Open));
       (buf', c') = fold read_bytes [[0x7E], [0x55, cancel], DataFrame 3 1 [9, 0x7E], DataFrame 4 1 []] ([1, 2], Open)
   in buf' = [] \<and> co_data c' = co_data before @ map (\<lambda>(f :: u8, a :: u8, p). p) [(3, 1, [9, 0x7E]), (4, 1, [])]
       \<and> co_out c' = co_out before @ map (\<lambda>(f, a :: u8, p :: bytes). AckFrame ((f + 1) AND 7)) [(3, 1, [9, 0x7E]), (4, 1, [])]"
proof (rule ash_reader_delivers)
  have "length (co_data (snd (read_bytes [0x7E, 0x55] ([1, 2], Open)))) = 0" by code_simp
  then show "length (co_data (snd (read_bytes [0x7E, 0x55] ([1, 2], Open))))
      + length [(3 :: u8, 1 :: u8, [9 :: byte, 0x7E]), (4, 1, [])] \<le> 32" by simp
qed simp

text \<open>C15: In every state the connection can reach, whatever arrives on the line and in whatever order
  the host's calls interleave with the reader: the partial frame holds no flag and no cancel byte,
  both sequence numbers are below 8, and no channel holds more than its capacity.\<close>

theorem ash_conn_invariant:
  assumes "conn_reachable (buf, c)"
  shows "(\<forall>b\<in>set buf. b \<noteq> Flag \<and> b \<noteq> cancel) \<and> co_txSeq c < 8 \<and> co_rxSeq c < 8
    \<and> length (co_acks c) \<le> 8 \<and> length (co_rstacks c) \<le> 1
    \<and> length (co_data c) \<le> 32 \<and> length (co_errs c) \<le> 1"
proof -
  have "k < 8" if "k \<le> 7" for k :: u8
    using that by (simp add: word_le_nat_alt word_less_nat_alt)
  then show ?thesis using conn_reachable_inv [OF assms] by (simp add: conn_inv_def)
qed

theorem ash_conn_invariant_witness:
  "co_txSeq (snd (Send_begin True [1] Open)) < 8 \<and> conn_reachable ([], snd (Send_begin True [1] Open))"
proof -
  have r: "conn_reachable ([], snd (Send_begin True [1] Open))"
    by (rule conn_reachable.step [OF conn_reachable.start conn_step.send])
  from ash_conn_invariant [OF r] r show ?thesis by simp
qed

end
