(* ===== verification/Cluster.thy ===== *)
theory Cluster
  imports Im_Properties
begin

text \<open>
  The application clusters of \<^verbatim>\<open>go-matter/cluster\<close>: command builders and attribute decoders of
  On/Off (\<^verbatim>\<open>onoff.go\<close>), Level Control (\<^verbatim>\<open>levelcontrol.go\<close>), Window Covering
  (\<^verbatim>\<open>windowcovering.go\<close>, without the two conversions of a floating-point percentage) and the
  commissioning clusters (\<^verbatim>\<open>commissioning.go\<close>). A byte slice that the code compares with nil is an
  option.
\<close>

abbreviation ErrNull :: derror where "ErrNull \<equiv> Msg ''cluster: attribute value is null''"

abbreviation OnOffID :: u32 where "OnOffID \<equiv> 0x0006"
abbreviation LevelControlID :: u32 where "LevelControlID \<equiv> 0x0008"
abbreviation WindowCoveringID :: u32 where "WindowCoveringID \<equiv> 0x0102"
abbreviation GeneralCommissioningID :: u32 where "GeneralCommissioningID \<equiv> 0x0030"
abbreviation OperationalCredentialsID :: u32 where "OperationalCredentialsID \<equiv> 0x003E"
abbreviation commissioningEndpoint :: u16 where "commissioningEndpoint \<equiv> 0"
abbreviation MaxLevel :: u8 where "MaxLevel \<equiv> 254"

definition bare_command :: "u16 \<Rightarrow> u32 \<Rightarrow> u32 \<Rightarrow> InvokeCommand" where
  "bare_command endpoint cl cmd =
     \<lparr>ic_Path = \<lparr>cp_Endpoint = endpoint, cp_Cluster = cl, cp_Command = cmd\<rparr>, ic_Fields = None\<rparr>"

text \<open>\<^verbatim>\<open>fields, err := w.Bytes(); if err != nil { return err }; return InvokeCommand{...}\<close>\<close>

definition command_of :: "u16 \<Rightarrow> u32 \<Rightarrow> u32 \<Rightarrow> writer \<Rightarrow> derror + InvokeCommand" where
  "command_of endpoint cl cmd w =
     (case Writer_Bytes w of
        Inl e \<Rightarrow> Inl (TlvErr e)
      | Inr b \<Rightarrow> Inr ((bare_command endpoint cl cmd)\<lparr>ic_Fields := Some b\<rparr>))"

section \<open>On/Off, Level Control, Window Covering\<close>

definition OnOffOff :: "u16 \<Rightarrow> InvokeCommand" where
  "OnOffOff endpoint = bare_command endpoint OnOffID 0x00"

definition OnOffOn :: "u16 \<Rightarrow> InvokeCommand" where
  "OnOffOn endpoint = bare_command endpoint OnOffID 0x01"

definition OnOffToggle :: "u16 \<Rightarrow> InvokeCommand" where
  "OnOffToggle endpoint = bare_command endpoint OnOffID 0x02"

definition OnOffAttribute :: "u16 \<Rightarrow> AttributePath" where
  "OnOffAttribute endpoint = \<lparr>ap_Endpoint = endpoint, ap_Cluster = OnOffID, ap_Attribute = 0\<rparr>"

definition DecodeOnOff :: "bytes \<Rightarrow> derror + bool" where
  "DecodeOnOff data =
     (case Reader_Next (NewReader data) of
        (False, _) \<Rightarrow> Inl (Msg ''cluster: empty OnOff attribute data'')
      | (True, r) \<Rightarrow> map_sum TlvErr id (Reader_Bool r))"

definition MoveToLevel :: "u16 \<Rightarrow> u8 \<Rightarrow> u16 \<Rightarrow> derror + InvokeCommand" where
  "MoveToLevel endpoint level transitionTime =
     (if level > MaxLevel then Inl (Msg ''cluster: level out of range'')
      else
        let w = NewWriter;
            w = Writer_PutUint w (Context 0) (ucast level);
            w = Writer_PutUint w (Context 1) (ucast transitionTime);
            w = Writer_PutUint w (Context 2) 0;
            w = Writer_PutUint w (Context 3) 0
        in command_of endpoint LevelControlID 0x00 w)"

definition CurrentLevelAttribute :: "u16 \<Rightarrow> AttributePath" where
  "CurrentLevelAttribute endpoint =
     \<lparr>ap_Endpoint = endpoint, ap_Cluster = LevelControlID, ap_Attribute = 0\<rparr>"

text \<open>The result is a Go \<^verbatim>\<open>int\<close>, so the unsigned value is read as a signed one.\<close>

definition DecodeLevel :: "bytes \<Rightarrow> derror + int" where
  "DecodeLevel data =
     (case Reader_Next (NewReader data) of
        (False, r) \<Rightarrow>
          (case r_err r of
             Some e \<Rightarrow> Inl (TlvErr e)
           | None \<Rightarrow> Inl (Msg ''cluster: empty CurrentLevel report''))
      | (True, r) \<Rightarrow>
          if Reader_Type r = TypeNull then Inl ErrNull else map_sum TlvErr sint (Reader_Uint r))"

definition UpOrOpen :: "u16 \<Rightarrow> InvokeCommand" where
  "UpOrOpen endpoint = bare_command endpoint WindowCoveringID 0x00"

definition DownOrClose :: "u16 \<Rightarrow> InvokeCommand" where
  "DownOrClose endpoint = bare_command endpoint WindowCoveringID 0x01"

definition StopMotion :: "u16 \<Rightarrow> InvokeCommand" where
  "StopMotion endpoint = bare_command endpoint WindowCoveringID 0x02"

definition LiftPositionAttribute :: "u16 \<Rightarrow> AttributePath" where
  "LiftPositionAttribute endpoint =
     \<lparr>ap_Endpoint = endpoint, ap_Cluster = WindowCoveringID, ap_Attribute = 0x000E\<rparr>"

section \<open>Commissioning: commands\<close>

definition ArmFailSafe :: "u16 \<Rightarrow> derror + InvokeCommand" where
  "ArmFailSafe expirySeconds =
     (let w = NewWriter;
          w = Writer_PutUint w (Context 0) (ucast expirySeconds);
          w = Writer_PutUint w (Context 1) 0
      in command_of commissioningEndpoint GeneralCommissioningID 0x00 w)"

definition CommissioningComplete :: InvokeCommand where
  "CommissioningComplete = bare_command commissioningEndpoint GeneralCommissioningID 0x04"

definition CSRRequest :: "bytes \<Rightarrow> derror + InvokeCommand" where
  "CSRRequest nonce =
     (if length nonce \<noteq> 32 then Inl (Msg ''cluster: CSR nonce must be 32 bytes'')
      else command_of commissioningEndpoint OperationalCredentialsID 0x04
             (Writer_PutBytes NewWriter (Context 0) nonce))"

definition AddTrustedRootCert :: "bytes \<Rightarrow> derror + InvokeCommand" where
  "AddTrustedRootCert rcacTLV =
     command_of commissioningEndpoint OperationalCredentialsID 0x0B
       (Writer_PutBytes NewWriter (Context 0) rcacTLV)"

definition AddNOC :: "bytes \<Rightarrow> bytes \<Rightarrow> u64 \<Rightarrow> u16 \<Rightarrow> derror + InvokeCommand" where
  "AddNOC nocTLV ipk caseAdminSubject adminVendorID =
     (let w = NewWriter;
          w = Writer_PutBytes w (Context 0) nocTLV;
          w = Writer_PutBytes w (Context 2) ipk;
          w = Writer_PutUint w (Context 3) caseAdminSubject;
          w = Writer_PutUint w (Context 4) (ucast adminVendorID)
      in command_of commissioningEndpoint OperationalCredentialsID 0x06 w)"

definition EncodeNOCSRElements :: "bytes \<Rightarrow> bytes \<Rightarrow> tlv_error + bytes" where
  "EncodeNOCSRElements csrDER nonce =
     (let w = Writer_StartStructure NewWriter Anonymous;
          w = Writer_PutBytes w (Context 1) csrDER;
          w = Writer_PutBytes w (Context 2) nonce
      in Writer_Bytes (Writer_EndContainer w))"

section \<open>Commissioning: responses\<close>

text \<open>
  A loop over the fields of a command, which stand at the top of the input:
  \<^verbatim>\<open>r := tlv.NewReader(fields); for r.Next() { body }\<close>, then \<^verbatim>\<open>r.Err()\<close>.
\<close>

definition dec_fields :: "('s \<Rightarrow> 's dec) \<Rightarrow> 's \<Rightarrow> bytes \<Rightarrow> (derror + 's) option" where
  "dec_fields body s b = dec_result (dec_bind (for_next body s) dec_checked (NewReader b))"

fun commError_fuel :: "nat \<Rightarrow> reader \<Rightarrow> (derror + u8) option" where
  "commError_fuel 0 r = None"
| "commError_fuel (Suc n) r =
     (case Reader_Next r of
        (False, r') \<Rightarrow>
          (case r_err r' of
             Some e \<Rightarrow> Some (Inl (TlvErr e))
           | None \<Rightarrow> Some (Inl (Msg ''cluster: response carries no errorCode'')))
      | (True, r') \<Rightarrow>
          if Num (r_tag r') = 0 then Some (map_sum TlvErr ucast (Reader_Uint r'))
          else commError_fuel n r')"

definition DecodeCommissioningError :: "bytes \<Rightarrow> (derror + u8) option" where
  "DecodeCommissioningError b = commError_fuel (Suc (length b)) (NewReader b)"

record CSRResponseFields =
  csr_NOCSRElements :: "bytes option"
  csr_AttestationSignature :: "bytes option"

definition csrResponseBody :: "CSRResponseFields \<Rightarrow> CSRResponseFields dec" where
  "csrResponseBody out =
     (\<lambda>r. if Num (r_tag r) = 0 then
            dec_bind (dec_get Reader_Bytes) (\<lambda>b. dec_return (out\<lparr>csr_NOCSRElements := Some b\<rparr>)) r
          else if Num (r_tag r) = 1 then
            dec_bind (dec_get Reader_Bytes) (\<lambda>b. dec_return (out\<lparr>csr_AttestationSignature := Some b\<rparr>)) r
          else dec_return out r)"

definition DecodeCSRResponse :: "bytes \<Rightarrow> (derror + CSRResponseFields) option" where
  "DecodeCSRResponse b =
     (case dec_fields csrResponseBody \<lparr>csr_NOCSRElements = None, csr_AttestationSignature = None\<rparr> b of
        None \<Rightarrow> None
      | Some (Inl e) \<Rightarrow> Some (Inl e)
      | Some (Inr out) \<Rightarrow>
          if csr_NOCSRElements out = None then Some (Inl (Msg ''cluster: CSRResponse missing NOCSRElements''))
          else Some (Inr out))"

definition nocsrBody :: "bytes option \<times> bytes option \<Rightarrow> (bytes option \<times> bytes option) dec" where
  "nocsrBody = (\<lambda>(csrDER, nonce).
     (\<lambda>r. if Num (r_tag r) = 1 then dec_bind (dec_get Reader_Bytes) (\<lambda>b. dec_return (Some b, nonce)) r
          else if Num (r_tag r) = 2 then dec_bind (dec_get Reader_Bytes) (\<lambda>b. dec_return (csrDER, Some b)) r
          else dec_return (csrDER, nonce) r))"

definition ParseNOCSRElements :: "bytes \<Rightarrow> (derror + bytes \<times> bytes option) option" where
  "ParseNOCSRElements elements =
     (case dec_top ''cluster: NOCSRElements: expected structure''
             (dec_bind (each_member nocsrBody (None, None)) dec_checked) elements of
        None \<Rightarrow> None
      | Some (Inl e) \<Rightarrow> Some (Inl e)
      | Some (Inr (None, nonce)) \<Rightarrow> Some (Inl (Msg ''cluster: NOCSRElements missing CSR''))
      | Some (Inr (Some csrDER, nonce)) \<Rightarrow> Some (Inr (csrDER, nonce)))"

record NOCResponseFields =
  noc_Status :: u8
  noc_FabricIndex :: u8

definition nocResponseBody :: "NOCResponseFields \<Rightarrow> NOCResponseFields dec" where
  "nocResponseBody out =
     (\<lambda>r. if Num (r_tag r) = 0 then
            dec_bind (dec_get Reader_Uint) (\<lambda>v. dec_return (out\<lparr>noc_Status := ucast v\<rparr>)) r
          else if Num (r_tag r) = 1 then
            dec_bind (dec_get Reader_Uint) (\<lambda>v. dec_return (out\<lparr>noc_FabricIndex := ucast v\<rparr>)) r
          else dec_return out r)"

definition DecodeNOCResponse :: "bytes \<Rightarrow> (derror + NOCResponseFields) option" where
  "DecodeNOCResponse b = dec_fields nocResponseBody \<lparr>noc_Status = 0, noc_FabricIndex = 0\<rparr> b"

section \<open>The loop over fields\<close>

lemma for_next_fuel_fields:
  assumes "runs body 0 es s s'" "r_at r (encs es) 0" "length es < n"
  shows "\<exists>r'. for_next_fuel n body s r = Some (Inr (s', r')) \<and> r_at r' [] 0"
  using assms
proof (induction arbitrary: r n rule: runs.induct)
  case (Nil s)
  then obtain m where "n = Suc m" by (cases n) auto
  with Next_eof [of r] Nil show ?case by auto
next
  case (Cons s e s1 es s')
  then obtain m where n: "n = Suc m" by (cases n) auto
  obtain r1 where r1: "Reader_Next r = (True, r1)" "cur r1 e (encs es) 0"
    using Next_elem [OF _ Cons.hyps(2)] Cons.prems(1) by fastforce
  obtain r2 where r2: "body s r1 = Some (Inr (s1, r2))" "r_at r2 (encs es) 0"
    using Cons.hyps(1) r1(2) unfolding decodes_def by blast
  from Cons.IH [OF r2(2), of m] Cons.prems n r1 r2 show ?case by auto
qed

lemma dec_fields_enc:
  assumes "runs body 0 es s s'"
  shows "dec_fields body s (encs es) = Some (Inr s')"
proof -
  have at: "r_at (NewReader (encs es)) (encs es) 0" by (rule NewReader_at)
  have "length es < Suc (r_left (NewReader (encs es)))"
    using r_at_left [OF at] length_encs [of es maxDepth] runs_wf [OF assms] by fastforce
  from for_next_fuel_fields [OF assms at this] obtain r' where
    "for_next_fuel (Suc (r_left (NewReader (encs es)))) body s (NewReader (encs es)) = Some (Inr (s', r'))"
    "r_at r' [] 0" by blast
  then show ?thesis
    by (simp add: dec_fields_def for_next_def dec_bind_def dec_checked_def dec_result_def r_at_def
        del: for_next_fuel.simps)
qed

lemma dec_fields_returns:
  assumes "\<And>s. returns (body s)"
  shows "\<exists>y. dec_fields body s b = Some y"
proof -
  let ?r = "NewReader b"
  have body: "returns_on (\<lambda>r. r_err r = None \<and> r_depth r = 0) (body s)" for s
    using assms by (simp add: returns_on_def)
  from for_next_fuel_kept [where body = body and d = 0, OF body NewReader_ok, of b "Suc (r_left ?r)" s]
  show ?thesis
    by (auto simp: dec_fields_def for_next_def dec_bind_def dec_checked_def dec_result_def
        simp del: for_next_fuel.simps split: option.splits)
qed

lemma commError_returns:
  "r_ok r \<Longrightarrow> r_left r < n \<Longrightarrow> \<exists>y. commError_fuel n r = Some y"
proof (induction n arbitrary: r)
  case (Suc n)
  obtain b r' where nx: "Reader_Next r = (b, r')" by fastforce
  from Next_outcome [OF this] Suc.prems have "b \<longrightarrow> r_ok r' \<and> r_left r' < n"
    by (auto simp: next_outcome_def r_left_def r_ok_def)
  with Suc.IH [of r'] nx show ?case by (cases b) (auto split: option.splits)
qed simp

section \<open>The fields of the built commands\<close>

text \<open>What the package's builders can return.\<close>

inductive built :: "InvokeCommand \<Rightarrow> bool" where
  "built (OnOffOff e)" | "built (OnOffOn e)" | "built (OnOffToggle e)"
| "built (UpOrOpen e)" | "built (DownOrClose e)" | "built (StopMotion e)" | "built CommissioningComplete"
| "MoveToLevel e l t = Inr c \<Longrightarrow> built c"
| "ArmFailSafe x = Inr c \<Longrightarrow> built c"
| "CSRRequest n = Inr c \<Longrightarrow> built c"
| "length root < 2 ^ 64 \<Longrightarrow> AddTrustedRootCert root = Inr c \<Longrightarrow> built c"
| "length noc < 2 ^ 64 \<Longrightarrow> length ipk < 2 ^ 64 \<Longrightarrow> AddNOC noc ipk subject vendor = Inr c \<Longrightarrow> built c"

lemma command_of_WS: "command_of e cl cmd (WS b 0) = Inr ((bare_command e cl cmd)\<lparr>ic_Fields := Some b\<rparr>)"
  by (simp add: command_of_def)

lemma fields_encoded_None [simp]: "fields_encoded None"
proof -
  have "flat_fields [] None" by (simp add: flat_fields_def nil_if_empty_def)
  then show ?thesis unfolding fields_encoded_def by blast
qed

lemma fields_encoded_encs:
  assumes "list_all flat_elem (e # es)"
  shows "fields_encoded (Some (encs (e # es)))"
proof -
  have "0 < length (enc e)" using assms flat_elem_wf enc_nonempty [of 0 e] by simp
  then have "flat_fields (e # es) (Some (encs (e # es)))"
    using assms by (auto simp: flat_fields_def nil_if_empty_def)
  then show ?thesis unfolding fields_encoded_def by blast
qed

lemmas build_rules = Let_def NewWriter_WS writer_WS tag_ok_simps command_of_WS append_Nil

lemma MoveToLevel_fields:
  "l \<le> MaxLevel \<Longrightarrow> MoveToLevel e l t = Inr ((bare_command e LevelControlID 0)\<lparr>ic_Fields :=
     Some (encs [ctx_uint 0 (ucast l), ctx_uint 1 (ucast t), ctx_uint 2 0, ctx_uint 3 0])\<rparr>)"
  unfolding MoveToLevel_def not_less [symmetric]
  by (simp only: if_False build_rules) (simp only: list.map concat.simps append_assoc append_Nil2 append_Nil)

lemma builder_fields:
  "ArmFailSafe x = Inr ((bare_command commissioningEndpoint GeneralCommissioningID 0)\<lparr>ic_Fields :=
     Some (encs [ctx_uint 0 (ucast x), ctx_uint 1 0])\<rparr>)"
  "length n = 32 \<Longrightarrow> CSRRequest n = Inr ((bare_command commissioningEndpoint OperationalCredentialsID 4)\<lparr>ic_Fields :=
     Some (encs [Prim (Context 0) (PBytes n)])\<rparr>)"
  "AddTrustedRootCert root = Inr ((bare_command commissioningEndpoint OperationalCredentialsID 0x0B)\<lparr>ic_Fields :=
     Some (encs [Prim (Context 0) (PBytes root)])\<rparr>)"
  "AddNOC noc ipk subject vendor = Inr ((bare_command commissioningEndpoint OperationalCredentialsID 6)\<lparr>ic_Fields :=
     Some (encs [Prim (Context 0) (PBytes noc), Prim (Context 2) (PBytes ipk), ctx_uint 3 subject,
       ctx_uint 4 (ucast vendor)])\<rparr>)"
  by (simp_all only: ArmFailSafe_def CSRRequest_def AddTrustedRootCert_def AddNOC_def build_rules
      not_True_eq_False if_False list.map concat.simps append_assoc append_Nil2 append_Nil simp_thms)

lemma built_fields: "built c \<Longrightarrow> fields_encoded (ic_Fields c)"
proof (induction rule: built.induct)
  case (8 e l t c)
  then have "l \<le> MaxLevel" by (auto simp: MoveToLevel_def split: if_splits)
  with 8 show ?case
    using fields_encoded_encs [of "ctx_uint 0 (ucast l)" "[ctx_uint 1 (ucast t), ctx_uint 2 0, ctx_uint 3 0]"]
    by (auto simp: MoveToLevel_fields)
next
  case (9 x c)
  then show ?case
    using fields_encoded_encs [of "ctx_uint 0 (ucast x)" "[ctx_uint 1 0]"] by (auto simp: builder_fields)
next
  case (10 n c)
  then have "length n = 32" by (auto simp: CSRRequest_def split: if_splits)
  with 10 show ?case
    using fields_encoded_encs [of "Prim (Context 0) (PBytes n)" "[]"] by (auto simp: builder_fields)
next
  case (11 root c)
  then show ?case
    using fields_encoded_encs [of "Prim (Context 0) (PBytes root)" "[]"] by (auto simp: builder_fields)
next
  case (12 noc ipk subject vendor c)
  then show ?case
    using fields_encoded_encs [of "Prim (Context 0) (PBytes noc)"
        "[Prim (Context 2) (PBytes ipk), ctx_uint 3 subject, ctx_uint 4 (ucast vendor)]"]
    by (auto simp: builder_fields)
qed (simp_all add: OnOffOff_def OnOffOn_def OnOffToggle_def UpOrOpen_def DownOrClose_def StopMotion_def
    CommissioningComplete_def bare_command_def)

section \<open>Decoding\<close>

lemma commissioning_decoders_return:
  "\<exists>y. DecodeCommissioningError b = Some y" "\<exists>y. DecodeCSRResponse b = Some y"
  "\<exists>y. ParseNOCSRElements b = Some y" "\<exists>y. DecodeNOCResponse b = Some y"
proof -
  show "\<exists>y. DecodeCommissioningError b = Some y"
    unfolding DecodeCommissioningError_def
    by (rule commError_returns) (simp_all add: r_left_def NewReader_def r_ok_def)
  have "returns (nocResponseBody s)" for s
    unfolding nocResponseBody_def by (intro returns_intros)
  then show "\<exists>y. DecodeNOCResponse b = Some y"
    unfolding DecodeNOCResponse_def by (rule dec_fields_returns)
  have "returns (csrResponseBody s)" for s
    unfolding csrResponseBody_def by (intro returns_intros)
  then have "\<exists>y. dec_fields csrResponseBody \<lparr>csr_NOCSRElements = None, csr_AttestationSignature = None\<rparr> b = Some y"
    by (rule dec_fields_returns)
  then obtain y where "dec_fields csrResponseBody \<lparr>csr_NOCSRElements = None, csr_AttestationSignature = None\<rparr> b = Some y" ..
  then show "\<exists>y. DecodeCSRResponse b = Some y"
  proof (cases y)
    case (Inr out)
    with \<open>dec_fields csrResponseBody _ b = Some y\<close> show ?thesis
      by (cases "csr_NOCSRElements out") (simp_all add: DecodeCSRResponse_def)
  qed (simp add: DecodeCSRResponse_def)
  have "returns_on P (nocsrBody s)" for P s
    unfolding nocsrBody_def by (cases s) (simp only: prod.case, intro returns_intros)
  then have "returns (dec_bind (each_member nocsrBody (None, None)) dec_checked)"
    by (intro returns_intros)
  from dec_top_returns [OF this] obtain y where
    "dec_top ''cluster: NOCSRElements: expected structure''
       (dec_bind (each_member nocsrBody (None, None)) dec_checked) b = Some y" by blast
  then show "\<exists>y. ParseNOCSRElements b = Some y"
  proof (cases y)
    case (Inr p)
    obtain c n where p: "p = (c, n)" by (cases p)
    with \<open>dec_top _ _ b = Some y\<close> Inr show ?thesis by (cases c) (simp_all add: ParseNOCSRElements_def)
  qed (simp add: ParseNOCSRElements_def)
qed

lemma EncodeNOCSRElements_elem:
  "EncodeNOCSRElements csr n
    = Inr (enc (Cont Anonymous CStructure [Prim (Context 1) (PBytes csr), Prim (Context 2) (PBytes n)]))"
  by (simp only: EncodeNOCSRElements_def encode_rules) simp

lemma decodes_nocsr:
  assumes "length csr < 2 ^ 64" "length n < 2 ^ 64"
  shows "decodes (each_member nocsrBody (None, None)) 0
    (Cont Anonymous CStructure [Prim (Context 1) (PBytes csr), Prim (Context 2) (PBytes n)])
    (Some csr, Some n)"
  unfolding nocsrBody_def
  by (rule decodes_each_member,
      (rule runs_intros, simp only: prod.case, (rule decodes_intros; simp?)+, simp add: assms [simplified])+)
    (rule runs_intros, simp)

section \<open>Properties\<close>

text \<open>Whatever commands the cluster builders return, sent together in one invoke request, arrive
  at the device as they were built: endpoint, cluster, command and fields.\<close>

theorem cluster_commands_arrive:
  assumes "\<forall>c\<in>set cs. built c"
  shows "\<exists>b. EncodeInvokeRequest cs s t = Inr b \<and> DecodeInvokeRequest b = Some (Inr (cs, s, t))"
  by (rule invoke_request_decodes) (use assms built_fields in blast)

theorem cluster_commands_arrive_witness:
  "\<exists>b. EncodeInvokeRequest [OnOffToggle 1, projr (MoveToLevel 2 200 15)] False False = Inr b
     \<and> DecodeInvokeRequest b = Some (Inr ([OnOffToggle 1, projr (MoveToLevel 2 200 15)], False, False))"
proof (rule cluster_commands_arrive)
  have "built (projr (MoveToLevel 2 200 15))"
    by (rule built.intros(8) [of 2 200 15]) (simp add: MoveToLevel_fields)
  then show "\<forall>c\<in>set [OnOffToggle 1, projr (MoveToLevel 2 200 15)]. built c"
    by (simp add: built.intros)
qed

text \<open>The attestation elements of a certificate signing request survive encoding: request and
  nonce come back from \<^verbatim>\<open>ParseNOCSRElements\<close>.\<close>

theorem nocsr_roundtrip:
  assumes "length csr < 2 ^ 64" "length n < 2 ^ 64"
  shows "\<exists>b. EncodeNOCSRElements csr n = Inr b \<and> ParseNOCSRElements b = Some (Inr (csr, Some n))"
proof -
  have "wf_elem maxDepth (Cont Anonymous CStructure [Prim (Context 1) (PBytes csr), Prim (Context 2) (PBytes n)])"
    using assms by simp
  from dec_top_message [OF this _ decodes_nocsr [OF assms]] show ?thesis
    by (simp add: EncodeNOCSRElements_elem ParseNOCSRElements_def del: enc.simps wf_elem.simps)
qed

theorem nocsr_roundtrip_witness:
  "\<exists>b. EncodeNOCSRElements [0x30, 0x81] [7] = Inr b \<and> ParseNOCSRElements b = Some (Inr ([0x30, 0x81], Some [7]))"
  by (rule nocsr_roundtrip) simp_all

text \<open>A NOC response is decoded also when it carries a debug text, as devices send on failure:
  status and fabric index come back and the string is skipped.\<close>

theorem noc_response_with_text:
  assumes "length txt < 2 ^ 64"
  shows "DecodeNOCResponse (encs [ctx_uint 0 (ucast st), ctx_uint 1 (ucast i), Prim (Context 2) (PString txt)])
    = Some (Inr \<lparr>noc_Status = st, noc_FabricIndex = i\<rparr>)"
  unfolding DecodeNOCResponse_def nocResponseBody_def
proof (rule dec_fields_enc)
  let ?body = "\<lambda>out r. if Num (r_tag r) = 0 then
       dec_bind (dec_get Reader_Uint) (\<lambda>v. dec_return (out\<lparr>noc_Status := ucast v\<rparr>)) r
     else if Num (r_tag r) = 1 then
       dec_bind (dec_get Reader_Uint) (\<lambda>v. dec_return (out\<lparr>noc_FabricIndex := ucast v\<rparr>)) r
     else dec_return out r"
  have "runs ?body 0 [ctx_uint 0 (ucast st), ctx_uint 1 (ucast i), Prim (Context 2) (PString txt)]
    \<lparr>noc_Status = 0, noc_FabricIndex = 0\<rparr>
    (\<lparr>noc_Status = 0, noc_FabricIndex = 0\<rparr>\<lparr>noc_Status := ucast (ucast st :: u64),
       noc_FabricIndex := ucast (ucast i :: u64)\<rparr>)"
    by (rule runs_intros, (rule decodes_intros; simp?)+, simp add: assms [simplified])+
      simp
  then show "runs ?body 0 [ctx_uint 0 (ucast st), ctx_uint 1 (ucast i), Prim (Context 2) (PString txt)]
    \<lparr>noc_Status = 0, noc_FabricIndex = 0\<rparr> \<lparr>noc_Status = st, noc_FabricIndex = i\<rparr>" by simp
qed

theorem noc_response_with_text_witness:
  "DecodeNOCResponse (encs [ctx_uint 0 (ucast (3 :: u8)), ctx_uint 1 (ucast (1 :: u8)), Prim (Context 2) (PString [0x6E, 0x6F])])
    = Some (Inr \<lparr>noc_Status = 3, noc_FabricIndex = 1\<rparr>)"
  by (rule noc_response_with_text) simp

text \<open>The attribute decoders read what a report carries: a boolean as the on/off state, an
  unsigned value up to the level range as the level, and null as \<^verbatim>\<open>ErrNull\<close>, never as a level.\<close>

theorem cluster_attribute_values:
  "DecodeOnOff (enc (Prim Anonymous (PBool b))) = Inr b
   \<and> DecodeLevel (enc (Prim Anonymous (PUint (ucast (l :: u8))))) = Inr (uint l)
   \<and> DecodeLevel (enc (Prim Anonymous PNull)) = Inl ErrNull"
proof -
  have first: "\<exists>r. Reader_Next (NewReader (enc e)) = (True, r) \<and> cur r e [] 0"
    if "wf_elem maxDepth e" for e
    using Next_elem [of "NewReader (enc e)" e "[]" 0] NewReader_at [of "enc e"] that by simp
  have l: "sint (ucast l :: u64) = uint l"
  proof -
    have "uint l < 2 ^ 8" using unsigned_less [of l, where 'a = int] by simp
    then have "take_bit 63 (uint l) = uint l" by (simp add: take_bit_int_eq_self)
    then show ?thesis
      by (simp add: sint_uint signed_take_bit_eq_if_positive bit_ucast_iff uint_up_ucast is_up bit_uint_iff)
  qed
  show ?thesis
    using first [of "Prim Anonymous (PBool b)"] first [of "Prim Anonymous (PUint (ucast l))"]
      first [of "Prim Anonymous PNull"]
    by (auto simp: DecodeOnOff_def DecodeLevel_def cur_get cur_type l simp del: enc.simps)
qed

end
