(* ===== verification/Go_Strings.thy ===== *)
theory Go_Strings
  imports Prelude
begin

text \<open>
  What the modelled code uses of Go's string library, on strings as lists of bytes:
  \<^verbatim>\<open>strings.TrimSpace\<close>, \<^verbatim>\<open>IndexByte\<close>, \<^verbatim>\<open>Cut\<close> and \<^verbatim>\<open>CutPrefix\<close>, and \<^verbatim>\<open>strconv.Atoi\<close>
  and \<^verbatim>\<open>Itoa\<close>, with the facts that the components share.
\<close>

abbreviation ascii :: "string \<Rightarrow> bytes" where
  "ascii \<equiv> List.map of_char"

text \<open>\<^verbatim>\<open>strings.IndexByte\<close>, None for -1.\<close>

fun IndexByte :: "bytes \<Rightarrow> byte \<Rightarrow> nat option" where
  "IndexByte [] r = None"
| "IndexByte (c # cs) r = (if c = r then Some 0 else map_option Suc (IndexByte cs r))"

definition CutPrefix :: "bytes \<Rightarrow> bytes \<Rightarrow> bytes option" where
  "CutPrefix s p = (if take (length p) s = p then Some (drop (length p) s) else None)"

text \<open>The UTF-8 encodings of the characters that \<^verbatim>\<open>unicode.IsSpace\<close> accepts.\<close>

definition spaces :: "bytes list" where
  "spaces = [[0x09], [0x0A], [0x0B], [0x0C], [0x0D], [0x20], [0xC2, 0x85], [0xC2, 0xA0],
     [0xE1, 0x9A, 0x80], [0xE2, 0x80, 0xA8], [0xE2, 0x80, 0xA9], [0xE2, 0x80, 0xAF],
     [0xE2, 0x81, 0x9F], [0xE3, 0x80, 0x80]]
   @ List.map (\<lambda>k. [0xE2, 0x80, 0x80 + of_nat k]) [0..<11]"

function trim_left :: "bytes list \<Rightarrow> bytes \<Rightarrow> bytes" where
  "trim_left ws s =
     (case find (\<lambda>w. w \<noteq> [] \<and> take (length w) s = w) ws of
        None \<Rightarrow> s
      | Some w \<Rightarrow> trim_left ws (drop (length w) s))"
  by auto
termination
proof (relation "measure (\<lambda>(ws, s). length s)")
  fix ws and s w :: bytes
  assume "find (\<lambda>w. w \<noteq> [] \<and> take (length w) s = w) ws = Some w"
  then have "w \<noteq> []" "take (length w) s = w" by (auto simp: find_Some_iff)
  then have "length s - length w < length s" by (cases s) (auto simp: Suc_le_eq)
  then show "((ws, drop (length w) s), ws, s) \<in> measure (\<lambda>(ws, s). length s)" by simp
qed simp

declare trim_left.simps [simp del]

definition TrimSpace :: "bytes \<Rightarrow> bytes" where
  "TrimSpace s = rev (trim_left (List.map rev spaces) (rev (trim_left spaces s)))"

section \<open>White space\<close>

abbreviation blanks :: bytes where
  "blanks \<equiv> [0x20, 0x09, 0x0A, 0x0B, 0x0C, 0x0D]"

lemma trim_left_step:
  assumes "[x] \<in> set ws" "\<forall>w\<in>set ws. w \<noteq> [] \<and> (hd w = x \<longrightarrow> w = [x])"
  shows "trim_left ws (x # s) = trim_left ws s"
proof -
  let ?P = "\<lambda>w. w \<noteq> [] \<and> take (length w) (x # s) = w"
  have "find ?P ws \<noteq> None" using assms(1) by (auto simp: find_None_iff)
  then obtain w where w: "find ?P ws = Some w" by blast
  then have "w \<in> set ws" "?P w" by (auto simp: find_Some_iff)
  with assms(2) have "w = [x]" by (metis length_0_conv list.sel(1) neq_Nil_conv take_Cons')
  with w show ?thesis by (subst trim_left.simps) simp
qed

lemma blank_heads:
  "\<forall>x\<in>set blanks. [x] \<in> set spaces \<and> (\<forall>w\<in>set spaces. w \<noteq> [] \<and> (hd w = x \<longrightarrow> w = [x]))"
  "\<forall>x\<in>set blanks. [x] \<in> set (List.map rev spaces)
    \<and> (\<forall>w\<in>set (List.map rev spaces). w \<noteq> [] \<and> (hd w = x \<longrightarrow> w = [x]))"
  by (simp_all add: spaces_def upt_rec)

lemma trim_left_blank:
  assumes "x \<in> set blanks"
  shows "trim_left spaces (x # s) = trim_left spaces s"
    and "trim_left (List.map rev spaces) (x # s) = trim_left (List.map rev spaces) s"
  using bspec [OF blank_heads(1) assms] bspec [OF blank_heads(2) assms] by (blast intro: trim_left_step)+

lemma trim_left_blanks:
  assumes "set a \<subseteq> set blanks"
  shows "trim_left spaces (a @ s) = trim_left spaces s"
    and "trim_left (List.map rev spaces) (a @ s) = trim_left (List.map rev spaces) s"
  using assms by (induction a) (simp_all only: append_Nil append_Cons trim_left_blank list.set insert_subset)

lemma trim_left_stop:
  assumes "\<forall>w\<in>set ws. w \<noteq> [] \<and> hd w \<noteq> x"
  shows "trim_left ws (x # s) = x # s"
proof -
  have "find (\<lambda>w. w \<noteq> [] \<and> take (length w) (x # s) = w) ws = None"
    unfolding find_None_iff
  proof (rule notI, elim exE conjE)
    fix w assume "w \<in> set ws" "w \<noteq> []" "take (length w) (x # s) = w"
    with assms show False by (cases w) auto
  qed
  then show ?thesis by (subst trim_left.simps) simp
qed

lemma set_trim_left: "set (trim_left ws s) \<subseteq> set s"
proof (induction ws s rule: trim_left.induct)
  case (1 ws s)
  then show ?case
    by (subst trim_left.simps) (auto split: option.splits dest: in_set_dropD)
qed

lemma set_TrimSpace: "set (TrimSpace s) \<subseteq> set s"
  using set_trim_left [of "List.map rev spaces" "rev (trim_left spaces s)"] set_trim_left [of spaces s]
  by (auto simp: TrimSpace_def)

section \<open>Numbers\<close>

definition is_digit :: "byte \<Rightarrow> bool" where
  "is_digit b = (0x30 \<le> b \<and> b \<le> 0x39)"

text \<open>The value of a string of decimal digits, None if another byte occurs.\<close>

fun digits_value :: "nat \<Rightarrow> bytes \<Rightarrow> nat option" where
  "digits_value acc [] = Some acc"
| "digits_value acc (b # bs) =
     (if is_digit b then digits_value (10 * acc + unat (b - 0x30)) bs else None)"

text \<open>\<^verbatim>\<open>strconv.Atoi\<close> on a 64-bit platform; None for a syntax or range error.\<close>

definition Atoi :: "bytes \<Rightarrow> int option" where
  "Atoi s =
     (let neg = (s \<noteq> [] \<and> hd s = 0x2D);
          ds = (if s \<noteq> [] \<and> (hd s = 0x2D \<or> hd s = 0x2B) then tl s else s) in
      if ds = [] then None
      else case digits_value 0 ds of
        None \<Rightarrow> None
      | Some n \<Rightarrow>
          let v = (if neg then - int n else int n) in
          if v < - (2 ^ 63) \<or> 2 ^ 63 \<le> v then None else Some v)"

fun nat_digits :: "nat \<Rightarrow> bytes" where
  "nat_digits n = (if n < 10 then [0x30 + of_nat n] else nat_digits (n div 10) @ [0x30 + of_nat (n mod 10)])"

declare nat_digits.simps [simp del]

definition Itoa :: "int \<Rightarrow> bytes" where
  "Itoa v = (if v < 0 then 0x2D # nat_digits (nat (- v)) else nat_digits (nat v))"

text \<open>A number in at least \<open>w\<close> digits, padded with zeros on the left.\<close>

definition pad :: "nat \<Rightarrow> nat \<Rightarrow> bytes" where
  "pad w n = replicate (w - length (nat_digits n)) 0x30 @ nat_digits n"

lemma digit_of_nat:
  "n < 10 \<Longrightarrow> is_digit (0x30 + of_nat n) \<and> unat (of_nat n :: byte) = n"
proof -
  assume "n < 10"
  then have "n \<in> set [0, 1, 2, 3, 4, 5, 6, 7, 8, 9]" by auto
  then show ?thesis by (auto simp: is_digit_def)
qed

lemma digits_value_append:
  "digits_value acc (xs @ ys) = (case digits_value acc xs of None \<Rightarrow> None | Some v \<Rightarrow> digits_value v ys)"
  by (induction xs arbitrary: acc) auto

lemma digits_value_zeros: "digits_value 0 (replicate k 0x30 @ ds) = digits_value 0 ds"
  by (induction k) (simp_all add: is_digit_def)

lemma digits_value_nat: "digits_value 0 (nat_digits n) = Some n"
proof (induction n rule: nat_digits.induct)
  case (1 n)
  show ?case
  proof (cases "n < 10")
    case True
    with digit_of_nat show ?thesis by (simp add: nat_digits.simps [of n])
  next
    case False
    with 1 digit_of_nat [of "n mod 10"] show ?thesis
      by (simp add: nat_digits.simps [of n] digits_value_append)
  qed
qed

lemma digits_value_pad: "digits_value 0 (pad w n) = Some n"
  by (simp add: pad_def digits_value_zeros digits_value_nat)

lemma set_nat_digits: "\<forall>b\<in>set (nat_digits n). is_digit b"
proof (induction n rule: nat_digits.induct)
  case (1 n)
  show ?case
    using 1 digit_of_nat [of n] digit_of_nat [of "n mod 10"]
    by (subst nat_digits.simps) auto
qed

lemma nat_digits_nonempty [simp]: "nat_digits n \<noteq> []"
  by (subst nat_digits.simps) simp

lemma length_nat_digits: "n < 10 ^ w \<Longrightarrow> 0 < w \<Longrightarrow> length (nat_digits n) \<le> w"
proof (induction w arbitrary: n)
  case (Suc w)
  show ?case
  proof (cases "n < 10")
    case False
    with Suc.prems have "n div 10 < 10 ^ w" "0 < w" by (auto intro: gr0I)
    with Suc.IH False show ?thesis by (subst nat_digits.simps) simp
  qed (subst nat_digits.simps, simp)
qed simp

lemma length_pad: "n < 10 ^ w \<Longrightarrow> 0 < w \<Longrightarrow> length (pad w n) = w"
  using length_nat_digits by (simp add: pad_def)

lemma set_pad: "\<forall>b\<in>set (pad w n). is_digit b"
  using set_nat_digits by (auto simp: pad_def is_digit_def)

lemma Atoi_Itoa: "- (2 ^ 63) \<le> v \<Longrightarrow> v < 2 ^ 63 \<Longrightarrow> Atoi (Itoa v) = Some v"
proof -
  assume r: "- (2 ^ 63) \<le> v" "v < 2 ^ 63"
  have "is_digit (hd (nat_digits n))" for n
    using set_nat_digits hd_in_set [OF nat_digits_nonempty] by blast
  moreover have "\<not> is_digit 0x2D" "\<not> is_digit 0x2B" by (simp_all add: is_digit_def)
  ultimately have "hd (nat_digits n) \<noteq> 0x2D" "hd (nat_digits n) \<noteq> 0x2B" for n by metis+
  with r show ?thesis by (simp add: Atoi_def Itoa_def digits_value_nat Let_def)
qed

text \<open>\<^verbatim>\<open>strings.Cut\<close> at the first separator: before, after, found.\<close>

fun Cut :: "bytes \<Rightarrow> byte \<Rightarrow> bytes \<times> bytes \<times> bool" where
  "Cut [] sep = ([], [], False)"
| "Cut (b # bs) sep =
     (if b = sep then ([], bs, True) else (let (before, after, found) = Cut bs sep in (b # before, after, found)))"

lemma Cut_found: "sep \<notin> set a \<Longrightarrow> Cut (a @ sep # b) sep = (a, b, True)"
  by (induction a) auto

lemma Cut_none: "sep \<notin> set a \<Longrightarrow> Cut a sep = (a, [], False)"
  by (induction a) auto

text \<open>A string that begins and ends with a byte of no space is its own trimming.\<close>

definition tight :: "byte \<Rightarrow> bool" where
  "tight b \<longleftrightarrow> 0x20 < b \<and> b < 0x7F"

lemma tight_heads:
  "tight x \<Longrightarrow> \<forall>w\<in>set spaces. w \<noteq> [] \<and> hd w \<noteq> x"
  "tight x \<Longrightarrow> \<forall>w\<in>set (List.map rev spaces). w \<noteq> [] \<and> hd w \<noteq> x"
proof -
  have "\<forall>w\<in>set spaces. w \<noteq> [] \<and> \<not> tight (hd w)" "\<forall>w\<in>set (List.map rev spaces). w \<noteq> [] \<and> \<not> tight (hd w)"
    by (simp_all add: spaces_def upt_rec tight_def)
  then show "tight x \<Longrightarrow> \<forall>w\<in>set spaces. w \<noteq> [] \<and> hd w \<noteq> x"
    "tight x \<Longrightarrow> \<forall>w\<in>set (List.map rev spaces). w \<noteq> [] \<and> hd w \<noteq> x"
    by blast+
qed

lemma trim_left_Nil: "trim_left ws [] = []"
  by (induction ws "[] :: bytes" rule: trim_left.induct) (subst trim_left.simps, auto split: option.split simp: find_Some_iff)

lemma TrimSpace_tight:
  assumes "s = [] \<or> (tight (hd s) \<and> tight (last s))"
  shows "TrimSpace s = s"
proof (cases s)
  case Nil
  then show ?thesis by (simp add: TrimSpace_def trim_left_Nil)
next
  case (Cons x t)
  obtain r y where y: "s = r @ [y]" using Cons by (metis list.discI rev_exhaust)
  have "trim_left spaces s = s" using Cons assms trim_left_stop [OF tight_heads(1)] by simp
  moreover have "trim_left (List.map rev spaces) (rev s) = rev s"
    using y assms Cons trim_left_stop [OF tight_heads(2)] by simp
  ultimately show ?thesis by (simp add: TrimSpace_def)
qed

end
