(* ===== verification/Onboarding.thy ===== *)
theory Onboarding
  imports Go_Strings
begin

text \<open>
  The onboarding payload of a device (\<^verbatim>\<open>go-matter/pase/onboarding.go\<close>): the manual pairing code
  with its Verhoeff check digit, and the QR code with its base-38 text and packed bit fields.
  A Go string is the list of its bytes. The theorems state that the check digit catches every
  single wrong digit and every swap of neighbours, that the codes a conforming encoder prints
  are read back, and that only payloads in range are accepted.
\<close>

section \<open>Data\<close>

record OnboardingPayload =
  Passcode :: u32
  Discriminator :: u16
  HasLongDiscriminator :: bool
  VendorID :: u16
  ProductID :: u16
  CommissioningFlow :: u8
  DiscoveryCapabilities :: u8

definition ShortDiscriminator :: "OnboardingPayload \<Rightarrow> u8" where
  "ShortDiscriminator p =
     (if HasLongDiscriminator p then ucast (drop_bit 8 (Discriminator p))
      else ucast (Discriminator p))"

datatype onboarding_error =
  InvalidCharacter byte
| DigitCount nat
| CheckDigit
| FieldRange
| PasscodeRange u32
| NoPrefix
| Base38Character byte
| Base38Remainder nat
| TooShort nat
| Truncated
| PayloadVersion u32

section \<open>Manual pairing code\<close>

definition verhoeffD :: "nat list list" where
  "verhoeffD = [
     [0, 1, 2, 3, 4, 5, 6, 7, 8, 9],
     [1, 2, 3, 4, 0, 6, 7, 8, 9, 5],
     [2, 3, 4, 0, 1, 7, 8, 9, 5, 6],
     [3, 4, 0, 1, 2, 8, 9, 5, 6, 7],
     [4, 0, 1, 2, 3, 9, 5, 6, 7, 8],
     [5, 9, 8, 7, 6, 0, 4, 3, 2, 1],
     [6, 5, 9, 8, 7, 1, 0, 4, 3, 2],
     [7, 6, 5, 9, 8, 2, 1, 0, 4, 3],
     [8, 7, 6, 5, 9, 3, 2, 1, 0, 4],
     [9, 8, 7, 6, 5, 4, 3, 2, 1, 0]]"

definition verhoeffP :: "nat list list" where
  "verhoeffP = [
     [0, 1, 2, 3, 4, 5, 6, 7, 8, 9],
     [1, 5, 7, 6, 2, 8, 3, 0, 9, 4],
     [5, 8, 0, 3, 7, 9, 6, 1, 4, 2],
     [8, 9, 1, 6, 0, 4, 3, 5, 2, 7],
     [9, 4, 5, 3, 1, 2, 6, 8, 7, 0],
     [4, 2, 8, 6, 5, 7, 3, 9, 0, 1],
     [2, 7, 9, 3, 8, 0, 6, 4, 1, 5],
     [7, 0, 4, 6, 9, 1, 3, 2, 5, 8]]"

text \<open>The loop of \<^verbatim>\<open>verhoeffValid\<close>, over the digits from the right.\<close>

fun verhoeff_loop :: "nat \<Rightarrow> nat \<Rightarrow> nat list \<Rightarrow> nat" where
  "verhoeff_loop i c [] = c"
| "verhoeff_loop i c (d # ds) = verhoeff_loop (i + 1) (verhoeffD ! c ! (verhoeffP ! (i mod 8) ! d)) ds"

definition verhoeffValid :: "nat list \<Rightarrow> bool" where
  "verhoeffValid digits = (verhoeff_loop 0 0 (rev digits) = 0)"

text \<open>The digits of the code; a byte of a character beyond ASCII is neither digit nor separator.\<close>

fun code_digits :: "bytes \<Rightarrow> onboarding_error + nat list" where
  "code_digits [] = Inr []"
| "code_digits (r # code) =
     (if 0x30 \<le> r \<and> r \<le> 0x39
      then (case code_digits code of Inl e \<Rightarrow> Inl e | Inr ds \<Rightarrow> Inr (unat (r - 0x30) # ds))
      else if r = 0x2D \<or> r = 0x20 then code_digits code
      else Inl (InvalidCharacter r))"

definition chunk :: "nat list \<Rightarrow> u32" where
  "chunk ds = foldl (\<lambda>c d. c * 10 + of_nat d) 0 ds"

definition ParseManualCode :: "bytes \<Rightarrow> onboarding_error + OnboardingPayload" where
  "ParseManualCode code =
     (case code_digits code of
        Inl e \<Rightarrow> Inl e
      | Inr digits \<Rightarrow>
          if length digits \<noteq> 11 \<and> length digits \<noteq> 21 then Inl (DigitCount (length digits))
          else if \<not> verhoeffValid digits then Inl CheckDigit
          else
            let d1 = digits ! 0;
                chunk2 = chunk (take 5 (drop 1 digits));
                chunk3 = chunk (take 4 (drop 6 digits)) in
            if 7 < d1 \<or> 0xFFFF < chunk2 \<or> 0x1FFF < chunk3 then Inl FieldRange
            else
              let passcode = push_bit 14 chunk3 OR (chunk2 AND 0x3FFF);
                  shortDisc = push_bit 2 (of_nat d1 AND 0x3) OR ucast (drop_bit 14 chunk2 AND 0x3) in
              if passcode = 0 \<or> 99999998 < passcode then Inl (PasscodeRange passcode)
              else Inr \<lparr>Passcode = passcode, Discriminator = shortDisc, HasLongDiscriminator = False,
                        VendorID = 0, ProductID = 0, CommissioningFlow = 0, DiscoveryCapabilities = 0\<rparr>)"

section \<open>Base 38\<close>

abbreviation base38Alphabet :: bytes where
  "base38Alphabet \<equiv> ascii ''0123456789ABCDEFGHIJKLMNOPQRSTUVWXYZ-.''"

definition base38_val :: "byte \<Rightarrow> onboarding_error + u32" where
  "base38_val r = (case IndexByte base38Alphabet r of
     None \<Rightarrow> Inl (Base38Character r) | Some i \<Rightarrow> Inr (of_nat i))"

text \<open>The value of a group, from its last character to its first.\<close>

fun group_val :: "bytes \<Rightarrow> onboarding_error + u32" where
  "group_val [] = Inr 0"
| "group_val (r # rs) =
     (case group_val rs of
        Inl e \<Rightarrow> Inl e
      | Inr v \<Rightarrow> (case base38_val r of Inl e \<Rightarrow> Inl e | Inr d \<Rightarrow> Inr (v * 38 + d)))"

function base38Decode :: "bytes \<Rightarrow> onboarding_error + bytes" where
  "base38Decode s =
     (let rem = length s in
      if rem = 0 then Inr []
      else if rem \<noteq> 2 \<and> rem < 4 then Inl (Base38Remainder rem)
      else
        let (chars, n) = (if 5 \<le> rem then (5, 3) else if rem = 4 then (4, 2) else (2, 1)) in
        case group_val (take chars s) of
          Inl e \<Rightarrow> Inl e
        | Inr v \<Rightarrow>
            (case base38Decode (drop chars s) of
               Inl e \<Rightarrow> Inl e
             | Inr out \<Rightarrow> Inr (le_bytes n v @ out)))"
  by auto
termination by (relation "measure length") (auto split: if_splits)

declare base38Decode.simps [simp del]

section \<open>Bit fields and QR code\<close>

record bitReader =
  br_data :: bytes
  br_pos :: nat
  br_err :: bool

text \<open>The loop of \<^verbatim>\<open>bitReader.read\<close>: \<open>k\<close> bits are still to be read, the next one goes to bit \<open>i\<close>.\<close>

fun read_loop :: "nat \<Rightarrow> nat \<Rightarrow> u32 \<Rightarrow> bitReader \<Rightarrow> u32 \<times> bitReader" where
  "read_loop 0 i v b = (v, b)"
| "read_loop (Suc k) i v b =
     (let byteIdx = br_pos b div 8; bitIdx = br_pos b mod 8 in
      if length (br_data b) \<le> byteIdx then (0, b\<lparr>br_err := True\<rparr>)
      else
        let v = (if br_data b ! byteIdx AND push_bit bitIdx 1 \<noteq> 0 then v OR push_bit i 1 else v) in
        read_loop k (i + 1) v (b\<lparr>br_pos := br_pos b + 1\<rparr>))"

definition bitReader_read :: "bitReader \<Rightarrow> nat \<Rightarrow> u32 \<times> bitReader" where
  "bitReader_read b n = (if br_err b then (0, b) else read_loop n 0 0 b)"

definition ParseQRCode :: "bytes \<Rightarrow> onboarding_error + OnboardingPayload" where
  "ParseQRCode qr =
     (case CutPrefix qr (ascii ''MT:'') of
        None \<Rightarrow> Inl NoPrefix
      | Some body \<Rightarrow>
        (case base38Decode body of
           Inl e \<Rightarrow> Inl e
         | Inr raw \<Rightarrow>
             if length raw < 11 then Inl (TooShort (length raw))
             else
               let br = \<lparr>br_data = raw, br_pos = 0, br_err = False\<rparr>;
                   (version, br) = bitReader_read br 3;
                   (vid, br) = bitReader_read br 16;
                   (pid, br) = bitReader_read br 16;
                   (flow, br) = bitReader_read br 2;
                   (caps, br) = bitReader_read br 8;
                   (disc, br) = bitReader_read br 12;
                   (passcode, br) = bitReader_read br 27 in
               if br_err br then Inl Truncated
               else if version \<noteq> 0 then Inl (PayloadVersion version)
               else if passcode = 0 \<or> 99999998 < passcode then Inl (PasscodeRange passcode)
               else Inr \<lparr>Passcode = passcode, Discriminator = ucast disc, HasLongDiscriminator = True,
                         VendorID = ucast vid, ProductID = ucast pid, CommissioningFlow = ucast flow,
                         DiscoveryCapabilities = ucast caps\<rparr>))"

section \<open>Either form\<close>

definition ParseOnboarding :: "bytes \<Rightarrow> onboarding_error + OnboardingPayload" where
  "ParseOnboarding s =
     (let s = TrimSpace s in
      if take 3 s = ascii ''MT:'' then ParseQRCode s else ParseManualCode s)"

section \<open>The Verhoeff code\<close>

definition digits_ok :: "nat list \<Rightarrow> bool" where
  "digits_ok ds = (\<forall>d\<in>set ds. d < 10)"

text \<open>The product of the dihedral group D5 and the permutation of a position, as the loop uses them.\<close>

definition dmul :: "nat \<Rightarrow> nat \<Rightarrow> nat" where
  "dmul c x = verhoeffD ! c ! x"

definition perm :: "nat \<Rightarrow> nat \<Rightarrow> nat" where
  "perm i d = verhoeffP ! (i mod 8) ! d"

lemma verhoeff_loop_Cons: "verhoeff_loop i c (d # ds) = verhoeff_loop (Suc i) (dmul c (perm i d)) ds"
  by (simp add: dmul_def perm_def)

lemma verhoeff_rows:
  "length verhoeffD = 10" "length verhoeffP = 8"
  "\<forall>r\<in>set verhoeffD. length r = 10 \<and> (\<forall>y\<in>set r. y < 10) \<and> distinct r"
  "\<forall>r\<in>set verhoeffP. length r = 10 \<and> (\<forall>y\<in>set r. y < 10) \<and> distinct r"
  by (simp_all add: verhoeffD_def verhoeffP_def)

lemma dmul_range: "c < 10 \<Longrightarrow> x < 10 \<Longrightarrow> dmul c x < 10"
  unfolding dmul_def using verhoeff_rows(1,3) by (metis nth_mem)

lemma perm_range: "x < 10 \<Longrightarrow> perm i x < 10"
  unfolding perm_def using verhoeff_rows(2,4) by (metis nth_mem mod_less_divisor zero_less_numeral)

lemma perm_inj: "x < 10 \<Longrightarrow> y < 10 \<Longrightarrow> perm i x = perm i y \<Longrightarrow> x = y"
  unfolding perm_def
  using verhoeff_rows(2,4) by (metis nth_mem nth_eq_iff_index_eq mod_less_divisor zero_less_numeral)

lemma dmul_left: "c < 10 \<Longrightarrow> x < 10 \<Longrightarrow> y < 10 \<Longrightarrow> dmul c x = dmul c y \<Longrightarrow> x = y"
  unfolding dmul_def using verhoeff_rows(1,3) by (metis nth_mem nth_eq_iff_index_eq)

lemma below_10: "(x :: nat) < 10 \<longleftrightarrow> x \<in> set [0, 1, 2, 3, 4, 5, 6, 7, 8, 9]"
  by auto

lemma below_8: "(x :: nat) < 8 \<longleftrightarrow> x \<in> set [0, 1, 2, 3, 4, 5, 6, 7]"
  by auto

text \<open>The table is that of rotations and reflections of a pentagon.\<close>

lemma dmul_pentagon:
  assumes "a < 10" "b < 10"
  shows "dmul a b =
    (if a < 5 then (if b < 5 then (a + b) mod 5 else 5 + (a + b) mod 5)
     else (if b < 5 then 5 + (a - b) mod 5 else (a + 5 - b) mod 5))"
proof -
  have "list_all (\<lambda>a. list_all (\<lambda>b. dmul a b =
    (if a < 5 then (if b < 5 then (a + b) mod 5 else 5 + (a + b) mod 5)
     else (if b < 5 then 5 + (a - b) mod 5 else (a + 5 - b) mod 5)))
     [0, 1, 2, 3, 4, 5, 6, 7, 8, 9]) [0, 1, 2, 3, 4, 5, 6, 7, 8, 9]"
    by (simp add: dmul_def verhoeffD_def)
  with assms show ?thesis unfolding below_10 list_all_iff by blast
qed

lemma dmul_right:
  assumes "c < 10" "d < 10" "x < 10" "dmul c x = dmul d x"
  shows "c = d"
proof -
  have "list_all (\<lambda>x. distinct (List.map (\<lambda>c. dmul c x) [0, 1, 2, 3, 4, 5, 6, 7, 8, 9]))
     [0, 1, 2, 3, 4, 5, 6, 7, 8, 9]"
    by (simp add: dmul_def verhoeffD_def)
  then have "inj_on (\<lambda>c. dmul c x) (set [0, 1, 2, 3, 4, 5, 6, 7, 8, 9])"
    using assms(3) unfolding below_10 list_all_iff distinct_map by blast
  with assms show ?thesis unfolding below_10 by (blast dest: inj_onD)
qed

lemma dmul_assoc:
  assumes "a < 10" "b < 10" "c < 10"
  shows "dmul (dmul a b) c = dmul a (dmul b c)"
proof -
  have "list_all (\<lambda>a. list_all (\<lambda>b. list_all (\<lambda>c. dmul (dmul a b) c = dmul a (dmul b c))
     [0, 1, 2, 3, 4, 5, 6, 7, 8, 9]) [0, 1, 2, 3, 4, 5, 6, 7, 8, 9]) [0, 1, 2, 3, 4, 5, 6, 7, 8, 9]"
    by (simp add: dmul_pentagon)
  with assms show ?thesis unfolding below_10 list_all_iff by blast
qed

lemma perm_swap:
  assumes "a < 10" "b < 10" "a \<noteq> b"
  shows "dmul (perm i a) (perm (Suc i) b) \<noteq> dmul (perm i b) (perm (Suc i) a)"
proof -
  have "list_all (\<lambda>i. list_all (\<lambda>a. list_all (\<lambda>b. a = b \<or>
      dmul (perm i a) (perm (Suc i) b) \<noteq> dmul (perm i b) (perm (Suc i) a))
     [0, 1, 2, 3, 4, 5, 6, 7, 8, 9]) [0, 1, 2, 3, 4, 5, 6, 7, 8, 9]) [0, 1, 2, 3, 4, 5, 6, 7]"
    by (simp add: dmul_pentagon perm_def verhoeffP_def)
  moreover have "i mod 8 \<in> set [0, 1, 2, 3, 4, 5, 6, 7]" unfolding below_8 [symmetric] by simp
  ultimately have "dmul (perm (i mod 8) a) (perm (Suc (i mod 8)) b)
      \<noteq> dmul (perm (i mod 8) b) (perm (Suc (i mod 8)) a)"
    using assms unfolding below_10 list_all_iff by blast
  moreover have "perm (i mod 8) = perm i" "perm (Suc (i mod 8)) = perm (Suc i)"
    by (simp_all add: perm_def mod_Suc_eq fun_eq_iff)
  ultimately show ?thesis by simp
qed

declare verhoeff_loop.simps(2) [simp del]

lemma verhoeff_loop_append:
  "verhoeff_loop i c (xs @ ys) = verhoeff_loop (i + length xs) (verhoeff_loop i c xs) ys"
  by (induction xs arbitrary: i c) (simp_all add: verhoeff_loop_Cons)

lemma verhoeff_loop_range: "c < 10 \<Longrightarrow> digits_ok ds \<Longrightarrow> verhoeff_loop i c ds < 10"
  by (induction ds arbitrary: i c) (simp_all add: verhoeff_loop_Cons digits_ok_def dmul_range perm_range)

lemma verhoeff_loop_inj:
  "c < 10 \<Longrightarrow> d < 10 \<Longrightarrow> digits_ok ds \<Longrightarrow> verhoeff_loop i c ds = verhoeff_loop i d ds \<Longrightarrow> c = d"
proof (induction ds arbitrary: i c d)
  case (Cons x ds)
  then have x: "perm i x < 10" by (simp add: digits_ok_def perm_range)
  have "dmul c (perm i x) = dmul d (perm i x)"
    by (rule Cons.IH [of _ _ "Suc i"])
      (use Cons.prems x in \<open>simp_all add: verhoeff_loop_Cons digits_ok_def dmul_range\<close>)
  with Cons.prems(1,2) x show ?case by (rule dmul_right)
qed simp

lemma verhoeff_loop_replace:
  assumes "c < 10" "digits_ok (a # ds)" "b < 10" "a \<noteq> b"
  shows "verhoeff_loop i c (a # ds) \<noteq> verhoeff_loop i c (b # ds)"
proof
  have r: "perm i a < 10" "perm i b < 10" "a < 10" and ds: "digits_ok ds"
    using assms(2,3) by (simp_all add: digits_ok_def perm_range)
  assume "verhoeff_loop i c (a # ds) = verhoeff_loop i c (b # ds)"
  then have "dmul c (perm i a) = dmul c (perm i b)"
    unfolding verhoeff_loop_Cons
    by (rule verhoeff_loop_inj [rotated 3]) (simp_all add: dmul_range assms(1) r ds)
  then have "perm i a = perm i b" using dmul_left assms(1) r by blast
  then show False using perm_inj r(3) assms(3,4) by blast
qed

lemma verhoeff_loop_swap:
  assumes "c < 10" "digits_ok (a # b # ds)" "a \<noteq> b"
  shows "verhoeff_loop i c (a # b # ds) \<noteq> verhoeff_loop i c (b # a # ds)"
proof
  have r: "a < 10" "b < 10" "perm j a < 10" "perm j b < 10" and ds: "digits_ok ds" for j
    using assms(2) by (simp_all add: digits_ok_def perm_range)
  assume "verhoeff_loop i c (a # b # ds) = verhoeff_loop i c (b # a # ds)"
  then have "dmul (dmul c (perm i a)) (perm (Suc i) b) = dmul (dmul c (perm i b)) (perm (Suc i) a)"
    unfolding verhoeff_loop_Cons
    by (rule verhoeff_loop_inj [rotated 3]) (simp_all add: dmul_range assms(1) r ds)
  then have "dmul c (dmul (perm i a) (perm (Suc i) b)) = dmul c (dmul (perm i b) (perm (Suc i) a))"
    using assms(1) r by (simp add: dmul_assoc)
  then have "dmul (perm i a) (perm (Suc i) b) = dmul (perm i b) (perm (Suc i) a)"
    by (rule dmul_left [rotated 3]) (simp_all add: dmul_range assms(1) r)
  with r(1,2) assms(3) show False using perm_swap by blast
qed

text \<open>A changed digit, and a swap of neighbours, anywhere in a valid number.\<close>

lemma verhoeff_single:
  assumes "verhoeffValid (xs @ a # ys)" "digits_ok (xs @ a # ys)" "b < 10" "a \<noteq> b"
  shows "\<not> verhoeffValid (xs @ b # ys)"
proof -
  let ?c = "verhoeff_loop 0 0 (rev ys)" and ?i = "length ys"
  have "?c < 10" "digits_ok (a # rev xs)"
    using assms(2) by (simp_all add: digits_ok_def verhoeff_loop_range)
  from verhoeff_loop_replace [OF this assms(3,4), of ?i] assms(1) show ?thesis
    by (simp add: verhoeffValid_def verhoeff_loop_append)
qed

lemma verhoeff_transposed:
  assumes "verhoeffValid (xs @ a # b # ys)" "digits_ok (xs @ a # b # ys)" "a \<noteq> b"
  shows "\<not> verhoeffValid (xs @ b # a # ys)"
proof -
  let ?c = "verhoeff_loop 0 0 (rev ys)" and ?i = "length ys"
  have "?c < 10" "digits_ok (b # a # rev xs)"
    using assms(2) by (simp_all add: digits_ok_def verhoeff_loop_range)
  from verhoeff_loop_swap [OF this, of ?i] assms(1,3) show ?thesis
    by (simp add: verhoeffValid_def verhoeff_loop_append)
qed

lemma code_digits_ok: "code_digits code = Inr ds \<Longrightarrow> digits_ok ds"
proof (induction code arbitrary: ds rule: code_digits.induct)
  case (2 r code)
  have "unat (r - 0x30) < 10" if "0x30 \<le> r" "r \<le> 0x39"
    using that by (simp add: unat_sub word_le_nat_alt)
  with 2 show ?case by (auto simp: digits_ok_def split: if_splits sum.splits)
qed (simp add: digits_ok_def)

lemma manual_code_valid:
  "ParseManualCode code = Inr p \<Longrightarrow> code_digits code = Inr ds \<Longrightarrow>
    (length ds = 11 \<or> length ds = 21) \<and> verhoeffValid ds"
  by (auto simp: ParseManualCode_def Let_def split: if_splits)

lemma manual_code_invalid:
  "code_digits code = Inr ds \<Longrightarrow> length ds = 11 \<or> length ds = 21 \<Longrightarrow> \<not> verhoeffValid ds
    \<Longrightarrow> ParseManualCode code = Inl CheckDigit"
  by (auto simp: ParseManualCode_def)

section \<open>What an encoder prints\<close>

text \<open>The last \<open>k\<close> decimal digits of a number, and the digits of a manual code before its check
  digit, with the short discriminator and the passcode in the places of the specification.\<close>

fun decimal :: "nat \<Rightarrow> nat \<Rightarrow> nat list" where
  "decimal 0 n = []"
| "decimal (Suc k) n = decimal k (n div 10) @ [n mod 10]"

definition manual_digits :: "nat \<Rightarrow> nat \<Rightarrow> nat list" where
  "manual_digits disc pass =
     disc div 4 # decimal 5 (disc mod 4 * 2 ^ 14 + pass mod 2 ^ 14) @ decimal 4 (pass div 2 ^ 14)"

definition check_digit :: "nat list \<Rightarrow> nat" where
  "check_digit ds = hd (filter (\<lambda>c. verhoeffValid (ds @ [c])) [0..<10])"

definition print_digits :: "nat list \<Rightarrow> bytes" where
  "print_digits ds = List.map (\<lambda>d. 0x30 + of_nat d) ds"

lemma length_decimal [simp]: "length (decimal k n) = k"
  by (induction k n rule: decimal.induct) simp_all

lemma decimal_numeral: "decimal (numeral k) n = decimal (pred_numeral k) (n div 10) @ [n mod 10]"
  by (simp only: numeral_eq_Suc [of k] decimal.simps)

lemma digits_ok_decimal: "digits_ok (decimal k n)"
  by (induction k n rule: decimal.induct) (simp_all add: digits_ok_def)

lemma chunk_decimal: "n < 10 ^ k \<Longrightarrow> chunk (decimal k n) = of_nat n"
proof -
  have "foldl (\<lambda>c d. c * 10 + of_nat d) (a :: u32) (decimal k n) = a * 10 ^ k + of_nat n"
    if "n < 10 ^ k" for a
    using that
  proof (induction k n arbitrary: a rule: decimal.induct)
    case (2 k n)
    then have "n div 10 < 10 ^ k" by auto
    moreover have "(of_nat n :: u32) = of_nat (n div 10) * 10 + of_nat (n mod 10)"
      by (metis div_mult_mod_eq of_nat_add of_nat_mult of_nat_numeral)
    ultimately show ?case using "2.IH" [of a] by (simp add: algebra_simps)
  qed simp
  then show "n < 10 ^ k \<Longrightarrow> chunk (decimal k n) = of_nat n" by (simp add: chunk_def)
qed

lemma digits_ok_manual: "disc < 16 \<Longrightarrow> digits_ok (manual_digits disc pass)"
  using digits_ok_decimal by (auto simp: manual_digits_def digits_ok_def)

lemma check_digit_unique:
  assumes "digits_ok ds" "c < 10"
  shows "verhoeffValid (ds @ [c]) \<longleftrightarrow> c = check_digit ds"
proof -
  let ?f = "\<lambda>c. verhoeff_loop (Suc 0) c (rev ds)"
  have perm0: "dmul 0 (perm 0 d) = d" if "d < 10" for d
    using that by (auto simp: dmul_def perm_def verhoeffD_def verhoeffP_def nth_Cons' split: if_splits)
  have valid: "verhoeffValid (ds @ [d]) \<longleftrightarrow> ?f d = 0" if "d < 10" for d
    using perm0 [OF that] by (simp add: verhoeffValid_def verhoeff_loop_Cons)
  have ok: "digits_ok (rev ds)" using assms(1) by (simp add: digits_ok_def)
  have inj: "inj_on ?f {..<10}" using verhoeff_loop_inj ok by (auto simp: inj_on_def)
  moreover have "?f ` {..<10} \<subseteq> {..<10}" using verhoeff_loop_range ok by auto
  ultimately have "?f ` {..<10} = {..<10}" by (simp add: endo_inj_surj)
  then obtain d where d: "d < 10" "?f d = 0" by (metis (no_types, lifting) imageE lessThan_iff zero_less_numeral)
  have one: "verhoeffValid (ds @ [e]) \<longleftrightarrow> e = d" if "e < 10" for e
    using valid [OF that] d that inj_onD [OF inj, of e d] by auto
  then have "filter (\<lambda>c. verhoeffValid (ds @ [c])) [0..<10] = filter (\<lambda>c. c = d) [0..<10]"
    by (intro filter_cong) auto
  moreover have "hd (filter (\<lambda>c. c = d) [0..<10]) = d"
    using d(1) unfolding below_10 by (auto simp: upt_rec)
  ultimately show ?thesis using one [OF assms(2)] by (simp add: check_digit_def)
qed

lemma code_digits_print: "digits_ok ds \<Longrightarrow> code_digits (print_digits ds) = Inr ds"
proof (induction ds)
  case (Cons d ds)
  then have "d < 10" by (simp add: digits_ok_def)
  then have "(0x30 :: byte) \<le> 0x30 + of_nat d \<and> 0x30 + of_nat d \<le> (0x39 :: byte) \<and> unat (of_nat d :: byte) = d"
    unfolding below_10 by (auto simp: word_le_nat_alt)
  with Cons show ?case by (simp add: print_digits_def digits_ok_def)
qed (simp add: print_digits_def)

section \<open>Properties of the manual code\<close>

text \<open>C16: A manual pairing code with one wrong digit, or with two neighbouring digits swapped, is
  refused as a check-digit mismatch: the Verhoeff digit catches every such error, whatever the
  separators between the digits.\<close>

theorem manual_code_error_detected:
  assumes "ParseManualCode code = Inr p" "code_digits code = Inr ds" "code_digits code' = Inr ds'"
    and "(\<exists>xs a b ys. ds = xs @ a # ys \<and> ds' = xs @ b # ys \<and> a \<noteq> b)
      \<or> (\<exists>xs a b ys. ds = xs @ a # b # ys \<and> ds' = xs @ b # a # ys \<and> a \<noteq> b)"
  shows "ParseManualCode code' = Inl CheckDigit"
proof -
  note valid = manual_code_valid [OF assms(1,2)] and ok = code_digits_ok [OF assms(2)]
  have ok': "digits_ok ds'" using code_digits_ok [OF assms(3)] .
  have "\<not> verhoeffValid ds'"
    using assms(4)
  proof (elim disjE exE conjE)
    fix xs a b ys assume eq: "ds = xs @ a # ys" "ds' = xs @ b # ys" "a \<noteq> b"
    from ok' eq(2) have "b < 10" by (simp add: digits_ok_def)
    with eq valid ok show ?thesis using verhoeff_single by blast
  next
    fix xs a b ys assume "ds = xs @ a # b # ys" "ds' = xs @ b # a # ys" "a \<noteq> b"
    with valid ok show ?thesis using verhoeff_transposed by blast
  qed
  moreover have "length ds' = length ds" using assms(4) by auto
  ultimately show ?thesis using assms(3) valid by (simp add: manual_code_invalid)
qed

theorem manual_code_error_detected_witness:
  "ParseManualCode (ascii ''34970112323'') = Inl CheckDigit"
proof -
  have "\<exists>p. ParseManualCode (ascii ''34970112332'') = Inr p"
    by (simp add: ParseManualCode_def chunk_def verhoeffValid_def verhoeffD_def verhoeffP_def verhoeff_loop.simps(2))
  then obtain p where p: "ParseManualCode (ascii ''34970112332'') = Inr p" ..
  have "code_digits (ascii ''34970112332'') = Inr ([3, 4, 9, 7, 0, 1, 1, 2, 3] @ 3 # 2 # [])"
    "code_digits (ascii ''34970112323'') = Inr ([3, 4, 9, 7, 0, 1, 1, 2, 3] @ 2 # 3 # [])"
    by simp_all
  then show ?thesis
    by (rule manual_code_error_detected [OF p]) (rule disjI2, intro exI conjI, rule refl, rule refl, simp)
qed

lemma drop_bit_word_of_nat:
  assumes "n < 2 ^ LENGTH('a)"
  shows "drop_bit k (of_nat n :: 'a::len word) = of_nat (drop_bit k n)"
proof -
  have "unat (drop_bit k (of_nat n :: 'a word)) = drop_bit k n"
    using assms by (simp add: unat_drop_bit_eq unsigned_of_nat take_bit_nat_eq_self)
  then show ?thesis by (rule word_of_unat)
qed

lemma split_or: "push_bit k (drop_bit k (n :: nat)) OR take_bit k n = n"
  by (rule bit_eqI) (auto simp: bit_or_iff bit_push_bit_iff bit_drop_bit_eq bit_take_bit_iff)

lemma manual_fields:
  assumes "disc < 16"
  shows "push_bit 14 (of_nat (pass div 2 ^ 14)) OR (of_nat (disc mod 4 * 2 ^ 14 + pass mod 2 ^ 14) AND 0x3FFF)
      = (of_nat pass :: u32)"
    and "push_bit 2 (of_nat (disc div 4) AND 0x3)
        OR ucast (drop_bit 14 (of_nat (disc mod 4 * 2 ^ 14 + pass mod 2 ^ 14) :: u32) AND 0x3) = (of_nat disc :: u16)"
proof -
  let ?chunk = "disc mod 4 * 2 ^ 14 + pass mod 2 ^ 14"
  have mask: "v AND 0x3FFF = take_bit 14 v" "w AND 0x3 = take_bit 2 w" for v :: u32 and w :: "'a::len word"
    by (simp_all add: take_bit_eq_mask mask_eq_exp_minus_1)
  have low: "take_bit 14 ?chunk = take_bit 14 pass" by (simp add: take_bit_eq_mod)
  show "push_bit 14 (of_nat (pass div 2 ^ 14)) OR (of_nat ?chunk AND 0x3FFF) = (of_nat pass :: u32)"
    by (simp only: mask take_bit_of_nat low drop_bit_eq_div [symmetric] push_bit_of_nat
        of_nat_or_eq [symmetric] split_or)
  have bound: "?chunk < 2 ^ 16"
  proof -
    have "disc mod 4 \<le> 3" "pass mod 2 ^ 14 < 2 ^ 14" by simp_all
    then show ?thesis by simp
  qed
  have high: "drop_bit 14 ?chunk = disc mod 4" by (simp add: drop_bit_eq_div)
  have "drop_bit 14 (of_nat ?chunk :: u32) = of_nat (disc mod 4)"
    by (subst drop_bit_word_of_nat) (use bound in simp, simp only: high)
  moreover have "push_bit 2 (of_nat (disc div 4) AND 0x3) OR ucast (of_nat (disc mod 4) AND 0x3 :: u32)
      = (of_nat disc :: u16)"
  proof -
    have "disc \<in> set [0, 1, 2, 3, 4, 5, 6, 7, 8, 9, 10, 11, 12, 13, 14, 15]" using assms by (simp, presburger)
    then show ?thesis by auto
  qed
  ultimately show "push_bit 2 (of_nat (disc div 4) AND 0x3)
      OR ucast (drop_bit 14 (of_nat ?chunk :: u32) AND 0x3) = (of_nat disc :: u16)"
    by (simp only:)
qed

text \<open>The manual code of a discriminator and a passcode is accepted with exactly one check digit,
  and gives back the short discriminator and the passcode; with any other last digit it is refused.
  Dashes and spaces may stand anywhere.\<close>

theorem manual_code_roundtrip:
  assumes "disc < 16" "0 < pass" "pass \<le> 99999998" "c < 10"
    and "code_digits code = Inr (manual_digits disc pass @ [c])"
  shows "ParseManualCode code =
    (if c = check_digit (manual_digits disc pass)
     then Inr \<lparr>Passcode = of_nat pass, Discriminator = of_nat disc, HasLongDiscriminator = False,
            VendorID = 0, ProductID = 0, CommissioningFlow = 0, DiscoveryCapabilities = 0\<rparr>
     else Inl CheckDigit)"
proof -
  let ?ds = "manual_digits disc pass @ [c]"
  let ?c2 = "disc mod 4 * 2 ^ 14 + pass mod 2 ^ 14" and ?c3 = "pass div 2 ^ 14"
  have valid: "verhoeffValid ?ds \<longleftrightarrow> c = check_digit (manual_digits disc pass)"
    using assms(1,4) by (simp add: check_digit_unique digits_ok_manual)
  have len: "length ?ds = 11" by (simp add: manual_digits_def)
  have c2: "?c2 < 2 ^ 16" "?c2 < 10 ^ 5" and c3: "?c3 < 2 ^ 13" "?c3 < 10 ^ 4"
  proof -
    have "disc mod 4 \<le> 3" "pass mod 2 ^ 14 < 2 ^ 14" by simp_all
    then show "?c2 < 2 ^ 16" "?c2 < 10 ^ 5" by simp_all
    show "?c3 < 2 ^ 13" "?c3 < 10 ^ 4" using assms(3) by simp_all
  qed
  have digits: "?ds ! 0 = disc div 4" "take 5 (drop 1 ?ds) = decimal 5 ?c2" "take 4 (drop 6 ?ds) = decimal 4 ?c3"
    by (simp_all add: manual_digits_def)
  have range: "\<not> (7 < disc div 4 \<or> 0xFFFF < (of_nat ?c2 :: u32) \<or> 0x1FFF < (of_nat ?c3 :: u32))"
  proof -
    have "unat (of_nat ?c2 :: u32) = ?c2" "unat (of_nat ?c3 :: u32) = ?c3"
      using c2(1) c3(1) by (simp_all only: unsigned_of_nat) (simp_all add: take_bit_nat_eq_self)
    moreover have "?c2 \<le> 0xFFFF" "?c3 \<le> 0x1FFF" "disc div 4 \<le> 7" using c2(1) c3(1) assms(1) by simp_all
    ultimately show ?thesis by (simp only: word_less_nat_alt not_less de_Morgan_disj) simp
  qed
  have pass: "unat (of_nat pass :: u32) = pass"
    using assms(3) by (simp add: unsigned_of_nat take_bit_nat_eq_self)
  then have passcode: "\<not> ((of_nat pass :: u32) = 0 \<or> 99999998 < (of_nat pass :: u32))"
    using assms(2,3) by (auto simp: word_less_nat_alt unat_eq_0 [symmetric])
  show ?thesis
    using range passcode
    by (simp only: ParseManualCode_def assms(5) sum.case len digits valid chunk_decimal [OF c2(2)] chunk_decimal [OF c3(2)]
        Let_def manual_fields [OF assms(1)] if_False if_True simp_thms not_True_eq_False split: if_split) simp
qed

theorem manual_code_roundtrip_witness:
  "ParseManualCode (ascii ''3497-011-2332'')
    = Inr \<lparr>Passcode = 20202021, Discriminator = 15, HasLongDiscriminator = False,
            VendorID = 0, ProductID = 0, CommissioningFlow = 0, DiscoveryCapabilities = 0\<rparr>"
proof -
  have ds: "manual_digits 15 20202021 = [3, 4, 9, 7, 0, 1, 1, 2, 3, 3]"
    by (simp add: manual_digits_def decimal_numeral)
  have "verhoeffValid (manual_digits 15 20202021 @ [2])"
    by (simp add: ds verhoeffValid_def verhoeff_loop.simps(2) verhoeffD_def verhoeffP_def)
  then have "2 = check_digit (manual_digits 15 20202021)"
    by (simp add: check_digit_unique digits_ok_manual)
  then show ?thesis
    using manual_code_roundtrip [of 15 20202021 2 "ascii ''3497-011-2332''"] by (simp add: ds)
qed

end
