(* ===== verification/Onboarding_Properties.thy ===== *)
theory Onboarding_Properties
  imports Onboarding
begin

text \<open>
  The QR form of the onboarding payload: the base-38 text and the packed bit fields that a
  conforming encoder writes, the proof that they are read back from text with white space around
  it, and the ranges of every payload that either form can yield.
\<close>

section \<open>Base 38\<close>

fun encode_group :: "nat \<Rightarrow> nat \<Rightarrow> bytes" where
  "encode_group 0 v = []"
| "encode_group (Suc k) v = base38Alphabet ! (v mod 38) # encode_group k (v div 38)"

definition group_value :: "bytes \<Rightarrow> nat" where
  "group_value g = unat (le_word g :: u32)"

fun base38Encode :: "bytes \<Rightarrow> bytes" where
  "base38Encode (a # b # c # bs) = encode_group 5 (group_value [a, b, c]) @ base38Encode bs"
| "base38Encode [a, b] = encode_group 4 (group_value [a, b])"
| "base38Encode [a] = encode_group 2 (group_value [a])"
| "base38Encode [] = []"

lemma IndexByte_nth: "distinct xs \<Longrightarrow> i < length xs \<Longrightarrow> IndexByte xs (xs ! i) = Some i"
proof (induction xs arbitrary: i)
  case (Cons x xs)
  then show ?case by (cases i) auto
qed simp

lemma base38_val_nth: "i < 38 \<Longrightarrow> base38_val (base38Alphabet ! i) = Inr (of_nat i)"
proof -
  have "distinct base38Alphabet" "length base38Alphabet = 38" by simp_all
  then show "i < 38 \<Longrightarrow> base38_val (base38Alphabet ! i) = Inr (of_nat i)"
    unfolding base38_val_def by (simp only: IndexByte_nth option.case)
qed

lemma length_encode_group [simp]: "length (encode_group k v) = k"
  by (induction k v rule: encode_group.induct) simp_all

lemma group_val_encode: "v < 38 ^ k \<Longrightarrow> group_val (encode_group k v) = Inr (of_nat v)"
proof (induction k v rule: encode_group.induct)
  case (2 k v)
  then have "v div 38 < 38 ^ k" by auto
  with "2.IH" have "group_val (encode_group k (v div 38)) = Inr (of_nat (v div 38))" .
  moreover have "base38_val (base38Alphabet ! (v mod 38)) = Inr (of_nat (v mod 38))"
    by (rule base38_val_nth) simp
  moreover have "(of_nat (v div 38) * 38 + of_nat (v mod 38) :: u32) = of_nat v"
    by (metis div_mult_mod_eq of_nat_add of_nat_mult of_nat_numeral)
  ultimately show ?case by (simp only: encode_group.simps group_val.simps sum.case)
qed simp

lemma group_value_bound: "group_value g < 2 ^ (8 * length g)"
proof -
  have "take_bit (8 * length g) (le_word g :: u32) = le_word g"
    by (rule bit_eqI) (use bit_le_word in \<open>auto simp: bit_take_bit_iff\<close>)
  then have "take_bit (8 * length g) (group_value g) = group_value g"
    by (metis group_value_def unsigned_take_bit_eq)
  then show ?thesis by (metis take_bit_nat_less_exp)
qed

lemma base38Decode_group:
  assumes "length g = n" "group_value g < 38 ^ chars"
    and "(chars, n) = (5, 3) \<or> (rest = [] \<and> ((chars, n) = (4, 2) \<or> (chars, n) = (2, 1)))"
  shows "base38Decode (encode_group chars (group_value g) @ rest)
    = (case base38Decode rest of Inl e \<Rightarrow> Inl e | Inr out \<Rightarrow> Inr (g @ out))"
proof -
  note val = group_val_encode [OF assms(2)]
  have le: "le_bytes n (of_nat (group_value g) :: u32) = g"
    using le_bytes_le_word [of g, where 'a = 32] assms(1,3) by (auto simp: group_value_def)
  from assms(3) consider "chars = 5" "n = 3" | "rest = []" "chars = 4" "n = 2" | "rest = []" "chars = 2" "n = 1"
    by blast
  then show ?thesis
  proof cases
    case 1
    with le val show ?thesis by (subst base38Decode.simps) (simp add: Let_def cong: sum.case_cong)
  next
    case 2
    with le val show ?thesis by (subst base38Decode.simps) (simp add: Let_def cong: sum.case_cong)
  next
    case 3
    with le val show ?thesis by (subst base38Decode.simps) (simp add: Let_def cong: sum.case_cong)
  qed
qed

lemma base38_roundtrip: "base38Decode (base38Encode bs) = Inr bs"
proof (induction bs rule: base38Encode.induct)
  case (1 a b c bs)
  have "group_value [a, b, c] < 38 ^ 5" using group_value_bound [of "[a, b, c]"] by simp
  from base38Decode_group [OF refl this] 1 show ?case by simp
next
  case (2 a b)
  have "group_value [a, b] < 38 ^ 4" using group_value_bound [of "[a, b]"] by simp
  from base38Decode_group [OF refl this, of "[]"] show ?case by (simp add: base38Decode.simps)
next
  case (3 a)
  have "group_value [a] < 38 ^ 2" using group_value_bound [of "[a]"] by simp
  from base38Decode_group [OF refl this, of "[]"] show ?case by (simp add: base38Decode.simps)
qed (simp add: base38Decode.simps)

section \<open>Bit fields\<close>

text \<open>Fields with their widths, least significant first, and their layout in eleven bytes.\<close>

fun pack :: "(nat \<times> nat) list \<Rightarrow> nat" where
  "pack [] = 0"
| "pack ((n, v) # fs) = v + 2 ^ n * pack fs"

definition qr_data :: "nat \<Rightarrow> bytes" where
  "qr_data N = le_bytes 11 (of_nat N :: 88 word)"

lemma bit_word_of_nat: "bit (of_nat n :: 'a::len word) p \<longleftrightarrow> p < LENGTH('a) \<and> bit n p"
proof -
  have "bit (unat (of_nat n :: 'a word)) p \<longleftrightarrow> bit (of_nat n :: 'a word) p"
    by (simp add: bit_unsigned_iff)
  then show ?thesis by (auto simp: unsigned_of_nat bit_take_bit_iff)
qed

lemma bit_qr_data: "p < 88 \<Longrightarrow> bit (qr_data N ! (p div 8)) (p mod 8) \<longleftrightarrow> bit N p"
  by (simp add: qr_data_def nth_le_bytes bit_ucast_iff bit_drop_bit_eq bit_word_of_nat)

lemma take_bit_Suc_or: "take_bit (Suc k) (R :: nat) = push_bit 1 (take_bit k (R div 2)) OR of_bool (odd R)"
proof (rule bit_eqI)
  fix j
  have "bit R j = (if j = 0 then odd R else bit (R div 2) (j - 1))"
    by (cases j) (simp_all add: bit_0 bit_Suc)
  then show "bit (take_bit (Suc k) R) j = bit (push_bit 1 (take_bit k (R div 2)) OR of_bool (odd R)) j"
    by (simp only: bit_or_iff bit_push_bit_iff bit_take_bit_iff bit_of_bool_iff) auto
qed

lemma read_bit_step:
  "(if odd R then v OR push_bit i 1 else v) OR push_bit (Suc i) (of_nat (take_bit k (R div 2)))
    = (v OR push_bit i (of_nat (take_bit (Suc k) R)) :: u32)"
  by (simp add: take_bit_Suc_or of_nat_or_eq of_nat_push_bit push_bit_or or.assoc or.commute
      or.left_commute del: push_bit_of_1)

lemma read_loop_qr:
  assumes "br_pos b + k \<le> 88" "br_data b = qr_data N" "drop_bit (br_pos b) N = R"
  shows "read_loop k i v b = (v OR push_bit i (of_nat (take_bit k R)), b\<lparr>br_pos := br_pos b + k\<rparr>)"
  using assms
proof (induction k arbitrary: i v b R)
  case (Suc k)
  let ?p = "br_pos b"
  have in_range: "\<not> length (br_data b) \<le> ?p div 8" using Suc.prems by (simp add: qr_data_def)
  have "bit (br_data b ! (?p div 8)) (?p mod 8) \<longleftrightarrow> odd R"
    using Suc.prems bit_qr_data [of ?p N] by (simp add: bit_iff_odd drop_bit_eq_div)
  then have test: "br_data b ! (?p div 8) AND push_bit (?p mod 8) 1 \<noteq> 0 \<longleftrightarrow> odd R"
    by (simp add: push_bit_of_1 and_exp_eq_0_iff_not_bit)
  have shift: "drop_bit (Suc ?p) N = R div 2" using Suc.prems(3) by (simp only: drop_bit_eq_div power_Suc2 div_mult2_eq)
  define v' where "v' = (if odd R then v OR push_bit i 1 else v)"
  have "read_loop (Suc k) i v b = read_loop k (i + 1) v' (b\<lparr>br_pos := ?p + 1\<rparr>)"
    by (simp only: read_loop.simps Let_def in_range if_False test v'_def)
  also have "\<dots> = (v' OR push_bit (i + 1) (of_nat (take_bit k (R div 2))), b\<lparr>br_pos := ?p + 1, br_pos := ?p + 1 + k\<rparr>)"
    by (subst Suc.IH [of _ "R div 2"]) (use Suc.prems shift in simp_all)
  also have "\<dots> = (v OR push_bit i (of_nat (take_bit (Suc k) R)), b\<lparr>br_pos := ?p + Suc k\<rparr>)"
    by (simp only: v'_def Suc_eq_plus1 [symmetric] read_bit_step) simp
  finally show ?case .
qed simp

lemma read_field:
  assumes "\<not> br_err b" "br_data b = qr_data N" "br_pos b + n \<le> 88" "drop_bit (br_pos b) N = v + 2 ^ n * R" "v < 2 ^ n"
  shows "bitReader_read b n = (of_nat v, b\<lparr>br_pos := br_pos b + n\<rparr>)"
    and "drop_bit (br_pos b + n) N = R"
proof -
  have "take_bit n (v + 2 ^ n * R) = v" "(v + 2 ^ n * R) div 2 ^ n = R"
    using assms(5) by (simp_all add: take_bit_eq_mod)
  then show "bitReader_read b n = (of_nat v, b\<lparr>br_pos := br_pos b + n\<rparr>)" "drop_bit (br_pos b + n) N = R"
    using assms(1,4) read_loop_qr [OF assms(3,2,4), of 0 0]
    by (simp_all add: bitReader_read_def drop_bit_eq_div power_add div_mult2_eq)
qed

lemma bit_read_loop:
  "bit (fst (read_loop k i v b)) j \<Longrightarrow> bit v j \<or> j < i + k"
proof (induction k i v b rule: read_loop.induct)
  case (2 k i v b)
  show ?case
  proof (cases "length (br_data b) \<le> br_pos b div 8")
    case False
    with 2 show ?thesis
      by (fastforce simp: Let_def bit_or_iff bit_push_bit_iff bit_1_iff simp del: push_bit_of_1 split: if_splits)
  qed (use 2 in simp)
qed simp

lemma unat_less_bits:
  assumes "\<And>j. bit w j \<Longrightarrow> j < n"
  shows "unat (w :: 'a::len word) < 2 ^ n"
proof -
  have "take_bit n w = w" by (rule bit_eqI) (use assms in \<open>auto simp: bit_take_bit_iff\<close>)
  then have "take_bit n (unat w) = unat w" by (metis unsigned_take_bit_eq)
  then show ?thesis by (metis take_bit_nat_less_exp)
qed

lemma read_bound: "unat (fst (bitReader_read b n)) < 2 ^ n"
  by (rule unat_less_bits) (use bit_read_loop [of n 0 0 b] in \<open>auto simp: bitReader_read_def split: if_splits\<close>)

lemma space_heads:
  "x \<in> set (0x3A # base38Alphabet) \<Longrightarrow> \<forall>w\<in>set spaces. w \<noteq> [] \<and> hd w \<noteq> x"
  "x \<in> set (0x3A # base38Alphabet) \<Longrightarrow> \<forall>w\<in>set (List.map rev spaces). w \<noteq> [] \<and> hd w \<noteq> x"
proof -
  have "\<forall>x\<in>set (0x3A # base38Alphabet). \<forall>w\<in>set spaces. w \<noteq> [] \<and> hd w \<noteq> x"
    "\<forall>x\<in>set (0x3A # base38Alphabet). \<forall>w\<in>set (List.map rev spaces). w \<noteq> [] \<and> hd w \<noteq> x"
    by (simp_all add: spaces_def upt_rec)
  then show "x \<in> set (0x3A # base38Alphabet) \<Longrightarrow> \<forall>w\<in>set spaces. w \<noteq> [] \<and> hd w \<noteq> x"
    "x \<in> set (0x3A # base38Alphabet) \<Longrightarrow> \<forall>w\<in>set (List.map rev spaces). w \<noteq> [] \<and> hd w \<noteq> x"
    by blast+
qed

lemma set_encode_group: "set (encode_group k v) \<subseteq> set base38Alphabet"
proof (induction k v rule: encode_group.induct)
  case (2 k v)
  have "v mod 38 < length base38Alphabet" by simp
  then have "base38Alphabet ! (v mod 38) \<in> set base38Alphabet" by (rule nth_mem)
  with 2 show ?case by (simp only: encode_group.simps list.set insert_subset simp_thms)
qed simp

lemma set_base38Encode: "set (base38Encode bs) \<subseteq> set base38Alphabet"
  by (induction bs rule: base38Encode.induct)
    (simp_all only: base38Encode.simps set_append Un_least set_encode_group list.set empty_subsetI)

lemma TrimSpace_padded:
  assumes "set a \<subseteq> set blanks" "set b \<subseteq> set blanks" "set s \<subseteq> set (0x3A # base38Alphabet)"
  shows "TrimSpace (a @ 0x4D # s @ b) = 0x4D # s"
proof -
  obtain r x where s: "0x4D # s = r @ [x]" by (metis list.discI rev_exhaust)
  then have "x \<in> set (0x4D # s)" by simp
  then have x: "x \<in> set (0x3A # base38Alphabet)" using assms(3) by auto
  have m: "(0x4D :: byte) \<in> set (0x3A # base38Alphabet)" by simp
  have "trim_left spaces (a @ 0x4D # s @ b) = 0x4D # s @ b"
    by (simp only: trim_left_blanks(1) [OF assms(1)] trim_left_stop [OF space_heads(1) [OF m]])
  then have "TrimSpace (a @ 0x4D # s @ b) = rev (trim_left (List.map rev spaces) (rev b @ rev (0x4D # s)))"
    by (simp add: TrimSpace_def)
  also have "\<dots> = rev (trim_left (List.map rev spaces) (x # rev r))"
    using assms(2) by (simp only: trim_left_blanks(2) set_rev s rev_append) simp
  also have "\<dots> = 0x4D # s"
    by (simp only: trim_left_stop [OF space_heads(2) [OF x]] s) simp
  finally show ?thesis .
qed

lemma read_pack:
  assumes "drop_bit p N = pack ((n, v) # fs)" "v < 2 ^ n" "p + n \<le> 88"
  shows "bitReader_read \<lparr>br_data = qr_data N, br_pos = p, br_err = False\<rparr> n
      = (of_nat v, \<lparr>br_data = qr_data N, br_pos = p + n, br_err = False\<rparr>)"
    and "drop_bit (p + n) N = pack fs"
  using read_field [of "\<lparr>br_data = qr_data N, br_pos = p, br_err = False\<rparr>" N n v "pack fs"] assms by simp_all

section \<open>Properties\<close>

definition qr_code :: "(nat \<times> nat) list \<Rightarrow> bytes" where
  "qr_code fs = ascii ''MT:'' @ base38Encode (qr_data (pack fs))"

text \<open>The QR code of an onboarding payload, as a conforming encoder packs and prints it, is read
  back field by field by \<^verbatim>\<open>ParseOnboarding\<close>, with any ASCII white space around it.\<close>

theorem qr_code_roundtrip:
  assumes "vid < 2 ^ 16" "pid < 2 ^ 16" "flow < 4" "caps < 2 ^ 8" "disc < 2 ^ 12"
    and "0 < pass" "pass \<le> 99999998"
    and "set a \<subseteq> set blanks" "set b \<subseteq> set blanks"
  shows "ParseOnboarding (a @ qr_code [(3, 0), (16, vid), (16, pid), (2, flow), (8, caps), (12, disc), (27, pass)] @ b)
    = Inr \<lparr>Passcode = of_nat pass, Discriminator = of_nat disc, HasLongDiscriminator = True,
           VendorID = of_nat vid, ProductID = of_nat pid, CommissioningFlow = of_nat flow,
           DiscoveryCapabilities = of_nat caps\<rparr>"
proof -
  let ?fs = "[(3, 0), (16, vid), (16, pid), (2, flow), (8, caps), (12, disc), (27, pass)]"
  define N where "N = pack ?fs"
  have code: "qr_code ?fs = ascii ''MT:'' @ base38Encode (qr_data N)" by (simp add: qr_code_def N_def)
  have "set (ascii ''T:'') \<subseteq> set (0x3A # base38Alphabet)" by simp
  moreover have "set (base38Encode (qr_data N)) \<subseteq> set (0x3A # base38Alphabet)"
    using set_base38Encode by (rule subset_trans) (simp only: list.set subset_insertI)
  ultimately have "set (ascii ''T:'' @ base38Encode (qr_data N)) \<subseteq> set (0x3A # base38Alphabet)"
    by (simp only: set_append Un_least)
  from TrimSpace_padded [OF assms(8,9) this]
  have trim: "TrimSpace (a @ qr_code ?fs @ b) = qr_code ?fs" by (simp add: code)
  have pass27: "pass < 2 ^ 27" using assms(7) by simp
  have r0: "drop_bit 0 N = pack ?fs" by (simp add: N_def)
  let ?rd = "\<lambda>p. \<lparr>br_data = qr_data N, br_pos = p, br_err = False\<rparr>"
  have r1: "bitReader_read (?rd 0) 3 = (0, ?rd 3)" "drop_bit 3 N = pack (drop 1 ?fs)"
    using read_pack [OF r0] by (simp_all del: pack.simps)
  have r2: "bitReader_read (?rd 3) 16 = (of_nat vid, ?rd 19)" "drop_bit 19 N = pack (drop 2 ?fs)"
    using read_pack [of 3 N 16 vid] r1(2) assms(1) by (simp_all del: pack.simps)
  have r3: "bitReader_read (?rd 19) 16 = (of_nat pid, ?rd 35)" "drop_bit 35 N = pack (drop 3 ?fs)"
    using read_pack [of 19 N 16 pid] r2(2) assms(2) by (simp_all del: pack.simps)
  have r4: "bitReader_read (?rd 35) 2 = (of_nat flow, ?rd 37)" "drop_bit 37 N = pack (drop 4 ?fs)"
    using read_pack [of 35 N 2 flow] r3(2) assms(3) by (simp_all del: pack.simps)
  have r5: "bitReader_read (?rd 37) 8 = (of_nat caps, ?rd 45)" "drop_bit 45 N = pack (drop 5 ?fs)"
    using read_pack [of 37 N 8 caps] r4(2) assms(4) by (simp_all del: pack.simps)
  have r6: "bitReader_read (?rd 45) 12 = (of_nat disc, ?rd 57)" "drop_bit 57 N = pack (drop 6 ?fs)"
    using read_pack [of 45 N 12 disc] r5(2) assms(5) by (simp_all del: pack.simps)
  have r7: "bitReader_read (?rd 57) 27 = (of_nat pass, ?rd 84)"
    using read_pack [of 57 N 27 pass] r6(2) pass27 by (simp_all del: pack.simps)
  have len: "length (qr_data N) = 11" by (simp add: qr_data_def)
  have "unat (of_nat pass :: u32) = pass"
    using assms(7) by (simp add: unsigned_of_nat take_bit_nat_eq_self)
  then have passcode: "\<not> ((of_nat pass :: u32) = 0 \<or> 99999998 < (of_nat pass :: u32))"
    using assms(6,7) by (auto simp: word_less_nat_alt unat_eq_0 [symmetric])
  have narrow: "ucast (of_nat disc :: u32) = (of_nat disc :: u16)" "ucast (of_nat vid :: u32) = (of_nat vid :: u16)"
    "ucast (of_nat pid :: u32) = (of_nat pid :: u16)" "ucast (of_nat flow :: u32) = (of_nat flow :: u8)"
    "ucast (of_nat caps :: u32) = (of_nat caps :: u8)"
    by (rule bit_eqI, simp add: bit_ucast_iff bit_word_of_nat)+
  have "ParseQRCode (ascii ''MT:'' @ base38Encode (qr_data N))
      = Inr \<lparr>Passcode = of_nat pass, Discriminator = of_nat disc, HasLongDiscriminator = True,
           VendorID = of_nat vid, ProductID = of_nat pid, CommissioningFlow = of_nat flow,
           DiscoveryCapabilities = of_nat caps\<rparr>"
    using passcode
    by (simp add: ParseQRCode_def CutPrefix_def base38_roundtrip len r1(1) r2(1) r3(1) r4(1) r5(1) r6(1) r7 narrow)
  then show ?thesis using trim by (simp add: ParseOnboarding_def code)
qed

theorem qr_code_roundtrip_witness:
  "ParseOnboarding ([0x20] @ qr_code [(3, 0), (16, 0xFFF1), (16, 0x8000), (2, 0), (8, 4), (12, 3840), (27, 20202021)] @ [0x0A])
    = Inr \<lparr>Passcode = of_nat 20202021, Discriminator = of_nat 3840, HasLongDiscriminator = True,
           VendorID = of_nat 0xFFF1, ProductID = of_nat 0x8000, CommissioningFlow = of_nat 0,
           DiscoveryCapabilities = of_nat 4\<rparr>"
  by (rule qr_code_roundtrip) simp_all

definition in_range :: "OnboardingPayload \<Rightarrow> bool" where
  "in_range p \<longleftrightarrow> 1 \<le> Passcode p \<and> Passcode p \<le> 99999998 \<and> ShortDiscriminator p < 16
    \<and> Discriminator p < (if HasLongDiscriminator p then 4096 else 16) \<and> CommissioningFlow p < 4"

lemma ParseManualCode_in_range:
  assumes "ParseManualCode code = Inr p"
  shows "in_range p"
proof -
  obtain passcode d1 chunk2 where p: "p = \<lparr>Passcode = passcode,
      Discriminator = push_bit 2 (of_nat d1 AND 0x3) OR ucast (drop_bit 14 chunk2 AND (0x3 :: u32)),
      HasLongDiscriminator = False, VendorID = 0, ProductID = 0, CommissioningFlow = 0, DiscoveryCapabilities = 0\<rparr>"
    and pass: "\<not> (passcode = 0 \<or> 99999998 < passcode)"
    using assms by (auto simp: ParseManualCode_def Let_def not_less split: sum.splits if_splits)
  have mask: "v AND 0x3 = take_bit 2 v" for v :: "'a::len word"
    by (simp add: take_bit_eq_mask mask_eq_exp_minus_1)
  let ?d = "push_bit 2 (of_nat d1 AND 0x3) OR ucast (drop_bit 14 chunk2 AND 0x3) :: u16"
  have bits: "j < 4" if "bit ?d j" for j
    using that by (auto simp: mask bit_or_iff bit_push_bit_iff bit_ucast_iff bit_take_bit_iff)
  then have "unat ?d < 2 ^ 4" "unat (ucast ?d :: u8) < 2 ^ 4"
    by (intro unat_less_bits; use bits in \<open>auto simp: bit_ucast_iff\<close>)+
  with pass show ?thesis
    by (simp add: p in_range_def ShortDiscriminator_def word_less_nat_alt not_less word_le_nat_alt Suc_le_eq unat_gt_0)
qed

lemma ParseQRCode_in_range:
  assumes "ParseQRCode code = Inr p"
  shows "in_range p"
proof -
  obtain body where body: "CutPrefix code (ascii ''MT:'') = Some body"
    using assms by (cases "CutPrefix code (ascii ''MT:'')") (simp_all add: ParseQRCode_def)
  obtain raw where raw: "base38Decode body = Inr raw"
    using assms body by (cases "base38Decode body") (simp_all add: ParseQRCode_def)
  obtain v1 b1 where 1: "bitReader_read \<lparr>br_data = raw, br_pos = 0, br_err = False\<rparr> 3 = (v1, b1)" by fastforce
  obtain v2 b2 where 2: "bitReader_read b1 16 = (v2, b2)" by fastforce
  obtain v3 b3 where 3: "bitReader_read b2 16 = (v3, b3)" by fastforce
  obtain flow b4 where 4: "bitReader_read b3 2 = (flow, b4)" by fastforce
  obtain caps b5 where 5: "bitReader_read b4 8 = (caps, b5)" by fastforce
  obtain disc b6 where 6: "bitReader_read b5 12 = (disc, b6)" by fastforce
  obtain passcode b7 where 7: "bitReader_read b6 27 = (passcode, b7)" by fastforce
  have "\<not> (passcode = 0 \<or> 99999998 < passcode) \<and> p = \<lparr>Passcode = passcode, Discriminator = ucast disc,
      HasLongDiscriminator = True, VendorID = ucast v2, ProductID = ucast v3, CommissioningFlow = ucast flow,
      DiscoveryCapabilities = ucast caps\<rparr>"
    using assms by (simp add: ParseQRCode_def body [simplified] raw 1 2 3 4 5 6 7 split: if_splits)
  moreover have disc: "unat disc < 2 ^ 12" and "unat flow < 2 ^ 2"
    using read_bound [of b5 12] read_bound [of b3 2] 4 6 by simp_all
  moreover have "unat (ucast (drop_bit 8 (ucast disc :: u16)) :: u8) < 2 ^ 4"
  proof (rule unat_less_bits)
    fix j assume "bit (ucast (drop_bit 8 (ucast disc :: u16)) :: u8) j"
    then have "bit disc (8 + j)" by (simp add: bit_ucast_iff bit_drop_bit_eq)
    moreover have "disc < 2 ^ 12" using disc by (simp add: word_less_nat_alt)
    ultimately have "8 + j < 12" by (rule bit_word_less)
    then show "j < 4" by simp
  qed
  ultimately show ?thesis
    by (simp add: in_range_def ShortDiscriminator_def word_less_nat_alt not_less word_le_nat_alt Suc_le_eq
        unat_gt_0 unsigned_ucast_eq take_bit_eq_mod)
qed

text \<open>Whatever text is given, a payload that comes back is in range: the passcode is one that the
  specification allows, the discriminator fits in twelve bits (four for a manual code), the short
  discriminator in four, the commissioning flow in two.\<close>

theorem onboarding_in_range:
  assumes "ParseOnboarding s = Inr p"
  shows "1 \<le> Passcode p \<and> Passcode p \<le> 99999998 \<and> ShortDiscriminator p < 16
    \<and> Discriminator p < (if HasLongDiscriminator p then 4096 else 16) \<and> CommissioningFlow p < 4"
proof -
  have "in_range p"
    using assms ParseManualCode_in_range ParseQRCode_in_range
    unfolding ParseOnboarding_def Let_def by (cases "take 3 (TrimSpace s) = ascii ''MT:''") simp_all
  then show ?thesis unfolding in_range_def .
qed

theorem onboarding_in_range_witness:
  "\<exists>p. ParseOnboarding (ascii '' 34970112332'') = Inr p \<and> ShortDiscriminator p < 16"
proof -
  have trim: "TrimSpace (ascii '' 34970112332'') = ascii ''34970112332''"
    by (simp add: TrimSpace_def trim_left.simps spaces_def upt_rec)
  have "\<exists>p. ParseManualCode (ascii ''34970112332'') = Inr p"
    by (simp add: ParseManualCode_def chunk_def verhoeffValid_def verhoeffD_def verhoeffP_def verhoeff_loop.simps(2))
  then obtain p where "ParseOnboarding (ascii '' 34970112332'') = Inr p"
    using trim by (auto simp: ParseOnboarding_def)
  with onboarding_in_range [OF this] show ?thesis by blast
qed

end
