(* ===== verification/Hub.thy ===== *)
theory Hub
  imports Prelude
begin

text \<open>
  The hub's core (\<^verbatim>\<open>internal/domain\<close>, \<^verbatim>\<open>internal/registry\<close>, \<^verbatim>\<open>internal/bus\<close>,
  \<^verbatim>\<open>internal/automation\<close> and the wiring of \<^verbatim>\<open>cmd/hub/main.go\<close>): devices, commands and events,
  the cache of the latest states, the publish/subscribe bus with its bounded channels, the
  automation rules with the state their closures keep, and the goroutines that consume the
  channels, each handling one message at a time. Go strings that are only compared are strings,
  an optional field is an option, a \<^verbatim>\<open>float64\<close> is its 64-bit pattern.
\<close>

section \<open>Devices, commands, events (internal/domain)\<close>

type_synonym Integration = string

abbreviation Zigbee :: Integration where "Zigbee \<equiv> ''zigbee''"
abbreviation MQTT :: Integration where "MQTT \<equiv> ''mqtt''"
abbreviation Matter :: Integration where "Matter \<equiv> ''matter''"
abbreviation RF :: Integration where "RF \<equiv> ''rf''"

record Device =
  dev_ID :: string
  dev_Name :: string
  dev_Integration :: Integration
  dev_Type :: string
  dev_Addr :: string
  dev_Endpoint :: u8
  dev_Decoupled :: bool
  dev_Features :: "string list"

fun has_feature :: "string list \<Rightarrow> string \<Rightarrow> bool" where
  "has_feature [] feature = False"
| "has_feature (f # fs) feature = (if f = feature then True else has_feature fs feature)"

definition Device_Has :: "Device \<Rightarrow> string \<Rightarrow> bool" where
  "Device_Has d feature = has_feature (dev_Features d) feature"

datatype Action = ActionSetOn | ActionSetPosition | ActionSetLevel | ActionSetColorTemp
  | ActionSetColor | ActionSetDirection

text \<open>The dynamic type of a command's value.\<close>

datatype any_value = VBool bool | VInt int | VHueSat u64 u64

record Command =
  cmd_DeviceID :: string
  cmd_Action :: Action
  cmd_Value :: any_value

definition SetOn :: "string \<Rightarrow> bool \<Rightarrow> Command" where
  "SetOn i on = \<lparr>cmd_DeviceID = i, cmd_Action = ActionSetOn, cmd_Value = VBool on\<rparr>"

definition SetPosition :: "string \<Rightarrow> int \<Rightarrow> Command" where
  "SetPosition i pct = \<lparr>cmd_DeviceID = i, cmd_Action = ActionSetPosition, cmd_Value = VInt pct\<rparr>"

definition SetLevel :: "string \<Rightarrow> int \<Rightarrow> Command" where
  "SetLevel i level = \<lparr>cmd_DeviceID = i, cmd_Action = ActionSetLevel, cmd_Value = VInt level\<rparr>"

definition SetColorTemp :: "string \<Rightarrow> int \<Rightarrow> Command" where
  "SetColorTemp i mireds = \<lparr>cmd_DeviceID = i, cmd_Action = ActionSetColorTemp, cmd_Value = VInt mireds\<rparr>"

definition SetColor :: "string \<Rightarrow> u64 \<Rightarrow> u64 \<Rightarrow> Command" where
  "SetColor i hue sat = \<lparr>cmd_DeviceID = i, cmd_Action = ActionSetColor, cmd_Value = VHueSat hue sat\<rparr>"

definition SetDirection :: "string \<Rightarrow> int \<Rightarrow> Command" where
  "SetDirection i dir = \<lparr>cmd_DeviceID = i, cmd_Action = ActionSetDirection, cmd_Value = VInt dir\<rparr>"

record State =
  On :: "bool option"
  Position :: "int option"
  Level :: "int option"
  Value :: "u64 option"
  ColorTemp :: "int option"
  Hue :: "u64 option"
  Sat :: "u64 option"
  Direction :: "int option"

definition zeroState :: State where
  "zeroState = \<lparr>On = None, Position = None, Level = None, Value = None, ColorTemp = None,
     Hue = None, Sat = None, Direction = None\<rparr>"

datatype EventKind = EventStateChanged | EventDeviceOnline | EventDeviceOffline | EventButton

record Event =
  ev_DeviceID :: string
  ev_Kind :: EventKind
  ev_State :: State
  ev_Press :: string

section \<open>Registry (internal/registry)\<close>

record entry =
  ent_device :: Device
  ent_state :: State

type_synonym Registry = "string \<rightharpoonup> entry"

definition NewRegistry :: Registry where
  "NewRegistry = (\<lambda>_. None)"

definition Registry_Add :: "Registry \<Rightarrow> Device \<Rightarrow> Registry" where
  "Registry_Add r d =
     (case r (dev_ID d) of
        Some _ \<Rightarrow> r
      | None \<Rightarrow> r(dev_ID d \<mapsto> \<lparr>ent_device = d, ent_state = zeroState\<rparr>))"

definition Registry_Get :: "Registry \<Rightarrow> string \<Rightarrow> Device option" where
  "Registry_Get r i = map_option ent_device (r i)"

text \<open>The devices in the (unspecified) order in which Go walks the map: as a set.\<close>

definition Registry_List :: "Registry \<Rightarrow> Device set" where
  "Registry_List r = ent_device ` ran r"

definition Registry_SetState :: "Registry \<Rightarrow> string \<Rightarrow> State \<Rightarrow> Registry" where
  "Registry_SetState r i s =
     (case r i of
        None \<Rightarrow> r
      | Some e \<Rightarrow>
          let st = ent_state e;
              st = (case On s of None \<Rightarrow> st | Some x \<Rightarrow> st\<lparr>On := Some x\<rparr>);
              st = (case Position s of None \<Rightarrow> st | Some x \<Rightarrow> st\<lparr>Position := Some x\<rparr>);
              st = (case Level s of None \<Rightarrow> st | Some x \<Rightarrow> st\<lparr>Level := Some x\<rparr>);
              st = (case Value s of None \<Rightarrow> st | Some x \<Rightarrow> st\<lparr>Value := Some x\<rparr>) in
          r(i \<mapsto> e\<lparr>ent_state := st\<rparr>))"

definition Registry_State :: "Registry \<Rightarrow> string \<Rightarrow> State option" where
  "Registry_State r i = map_option ent_state (r i)"

section \<open>Bus (internal/bus)\<close>

text \<open>A buffered Go channel: the messages in it, oldest first. \<^verbatim>\<open>select\<close> with a default case sends
  only when the buffer has room.\<close>

definition ch_send :: "nat \<Rightarrow> 'a list \<Rightarrow> 'a \<Rightarrow> 'a list" where
  "ch_send cap ch m = (if length ch < cap then ch @ [m] else ch)"

fun ch_recv :: "'a list \<Rightarrow> ('a \<times> 'a list) option" where
  "ch_recv [] = None"
| "ch_recv (m # ch) = Some (m, ch)"

record Bus =
  cmdSubs :: "Command list list"
  evtSubs :: "Event list list"
  buffer :: nat

definition NewBus :: "int \<Rightarrow> Bus" where
  "NewBus n = \<lparr>cmdSubs = [], evtSubs = [], buffer = (if n \<le> 0 then 16 else nat n)\<rparr>"

text \<open>The returned channel is the position of the subscriber.\<close>

definition SubscribeCommands :: "Bus \<Rightarrow> nat \<times> Bus" where
  "SubscribeCommands b = (length (cmdSubs b), b\<lparr>cmdSubs := cmdSubs b @ [[]]\<rparr>)"

definition SubscribeEvents :: "Bus \<Rightarrow> nat \<times> Bus" where
  "SubscribeEvents b = (length (evtSubs b), b\<lparr>evtSubs := evtSubs b @ [[]]\<rparr>)"

definition PublishCommand :: "Bus \<Rightarrow> Command \<Rightarrow> Bus" where
  "PublishCommand b c = b\<lparr>cmdSubs := List.map (\<lambda>ch. ch_send (buffer b) ch c) (cmdSubs b)\<rparr>"

definition PublishEvent :: "Bus \<Rightarrow> Event \<Rightarrow> Bus" where
  "PublishEvent b e = b\<lparr>evtSubs := List.map (\<lambda>ch. ch_send (buffer b) ch e) (evtSubs b)\<rparr>"

section \<open>Rules (internal/automation)\<close>

text \<open>Comparison of IEEE-754 doubles on their bit patterns: a NaN compares with nothing, the two
  zeros are equal, otherwise sign and magnitude decide.\<close>

definition f64_nan :: "u64 \<Rightarrow> bool" where
  "f64_nan v = (0x7FF0000000000000 < v AND 0x7FFFFFFFFFFFFFFF)"

definition f64_key :: "u64 \<Rightarrow> int" where
  "f64_key v = (let m = uint (v AND 0x7FFFFFFFFFFFFFFF) in if bit v 63 then - m else m)"

definition f64_le :: "u64 \<Rightarrow> u64 \<Rightarrow> bool" where
  "f64_le a b = (\<not> f64_nan a \<and> \<not> f64_nan b \<and> f64_key a \<le> f64_key b)"

text \<open>A rule is what its constructor captured, with the variables of the closure.\<close>

datatype Rule =
  Mirror string string
| Button string string string string int
| Cycle string string string "int list" string nat
| Threshold string string u64 u64 bool bool

definition MirrorRule :: "string \<Rightarrow> string \<Rightarrow> Rule" where
  "MirrorRule srcID dstID = Mirror srcID dstID"

definition ButtonRule :: "string \<Rightarrow> string \<Rightarrow> string \<Rightarrow> string \<Rightarrow> int \<Rightarrow> Rule" where
  "ButtonRule srcID press dstID action v = Button srcID press dstID action v"

definition CycleRule :: "string \<Rightarrow> string \<Rightarrow> string \<Rightarrow> int list \<Rightarrow> string \<Rightarrow> Rule" where
  "CycleRule srcID press dstID states powerID = Cycle srcID press dstID states powerID 0"

definition ThresholdRule :: "string \<Rightarrow> string \<Rightarrow> u64 \<Rightarrow> u64 \<Rightarrow> Rule" where
  "ThresholdRule srcID dstID hi lo = Threshold srcID dstID hi lo False False"

definition run_mirror :: "string \<Rightarrow> string \<Rightarrow> Event \<Rightarrow> Command list" where
  "run_mirror srcID dstID e =
     (if ev_DeviceID e \<noteq> srcID \<or> ev_Kind e \<noteq> EventStateChanged then []
      else case On (ev_State e) of None \<Rightarrow> [] | Some on \<Rightarrow> [SetOn dstID on])"

definition run_button ::
  "(string \<Rightarrow> State option) \<Rightarrow> string \<Rightarrow> string \<Rightarrow> string \<Rightarrow> string \<Rightarrow> int \<Rightarrow> Event \<Rightarrow> Command list" where
  "run_button state srcID press dstID action v e =
     (if ev_DeviceID e \<noteq> srcID \<or> ev_Kind e \<noteq> EventButton \<or> ev_Press e \<noteq> press then []
      else if action = ''toggle'' then
        (let on = (case state dstID of
                     Some s \<Rightarrow> (case On s of Some x \<Rightarrow> x | None \<Rightarrow> False)
                   | None \<Rightarrow> False) in
         [SetOn dstID (\<not> on)])
      else if action = ''on'' then [SetOn dstID True]
      else if action = ''off'' then [SetOn dstID False]
      else if action = ''open'' then [SetPosition dstID 100]
      else if action = ''close'' then [SetPosition dstID 0]
      else if action = ''position'' then [SetPosition dstID v]
      else [])"

definition run_cycle ::
  "string \<Rightarrow> string \<Rightarrow> string \<Rightarrow> int list \<Rightarrow> string \<Rightarrow> nat \<Rightarrow> Event \<Rightarrow> Command list \<times> nat" where
  "run_cycle srcID press dstID states powerID idx e =
     (if powerID \<noteq> '''' \<and> ev_DeviceID e = powerID \<and> ev_Kind e = EventStateChanged
         \<and> On (ev_State e) = Some False
      then ([], 0)
      else if ev_DeviceID e \<noteq> srcID \<or> ev_Kind e \<noteq> EventButton \<or> ev_Press e \<noteq> press then ([], idx)
      else if states = [] then ([], idx)
      else
        let idx = (idx + 1) mod length states; lvl = states ! idx in
        if 0 < lvl then ([SetLevel dstID lvl], idx) else ([SetOn dstID False], idx))"

definition run_threshold ::
  "string \<Rightarrow> string \<Rightarrow> u64 \<Rightarrow> u64 \<Rightarrow> bool \<Rightarrow> bool \<Rightarrow> Event \<Rightarrow> Command list \<times> bool \<times> bool" where
  "run_threshold srcID dstID hi lo on known e =
     (if ev_DeviceID e \<noteq> srcID \<or> ev_Kind e \<noteq> EventStateChanged then ([], on, known)
      else case Value (ev_State e) of
        None \<Rightarrow> ([], on, known)
      | Some v \<Rightarrow>
          if f64_le hi v \<and> (\<not> known \<or> \<not> on) then ([SetOn dstID True], True, True)
          else if f64_le v lo \<and> (\<not> known \<or> on) then ([SetOn dstID False], False, True)
          else ([], on, known))"

fun run_rule :: "(string \<Rightarrow> State option) \<Rightarrow> Rule \<Rightarrow> Event \<Rightarrow> Command list \<times> Rule" where
  "run_rule state (Mirror src dst) e = (run_mirror src dst e, Mirror src dst)"
| "run_rule state (Button src press dst action v) e =
     (run_button state src press dst action v e, Button src press dst action v)"
| "run_rule state (Cycle src press dst states pw idx) e =
     (let (cmds, idx) = run_cycle src press dst states pw idx e in
      (cmds, Cycle src press dst states pw idx))"
| "run_rule state (Threshold src dst hi lo on known) e =
     (let (cmds, on, known) = run_threshold src dst hi lo on known e in
      (cmds, Threshold src dst hi lo on known))"

text \<open>The two nested loops of \<^verbatim>\<open>Engine.Start\<close> for one event: the commands published, in order,
  and the rules with their new state.\<close>

fun run_rules :: "(string \<Rightarrow> State option) \<Rightarrow> Rule list \<Rightarrow> Event \<Rightarrow> Command list \<times> Rule list" where
  "run_rules state [] e = ([], [])"
| "run_rules state (r # rs) e =
     (let (cmds, r) = run_rule state r e; (cmds', rs) = run_rules state rs e in
      (cmds @ cmds', r # rs))"

definition publish_all :: "Bus \<Rightarrow> Command list \<Rightarrow> Bus" where
  "publish_all b cmds = foldl PublishCommand b cmds"

section \<open>Routing (cmd/hub/main.go)\<close>

text \<open>What \<^verbatim>\<open>applyMatter\<close> calls on the driver of a Matter device.\<close>

datatype matter_call = Open | Close | SetLiftPercent int

definition applyMatter :: "Command \<Rightarrow> matter_call option" where
  "applyMatter c =
     (case cmd_Action c of
        ActionSetOn \<Rightarrow>
          (case cmd_Value c of VBool on \<Rightarrow> if on then Some Open else Some Close | _ \<Rightarrow> Some Close)
      | ActionSetPosition \<Rightarrow>
          (let p = (case cmd_Value c of VInt p \<Rightarrow> p | _ \<Rightarrow> 0) in
           if 100 \<le> p then Some Open else if p \<le> 0 then Some Close else Some (SetLiftPercent p))
      | _ \<Rightarrow> None)"

definition owner :: "Registry \<Rightarrow> string \<Rightarrow> Integration option" where
  "owner reg i =
     (case Registry_Get reg i of
        None \<Rightarrow> None
      | Some d \<Rightarrow> if dev_Integration d \<in> {Zigbee, MQTT, RF} then Some (dev_Integration d) else None)"

datatype delivery = ToAdapter Integration Command | ToMatter string "matter_call option"

text \<open>The body of the dispatch goroutine; \<open>matterIDs\<close> are the devices of the Matter registry.\<close>

definition dispatch_command :: "Registry \<Rightarrow> string set \<Rightarrow> Command \<Rightarrow> delivery list" where
  "dispatch_command reg matterIDs c =
     (case owner reg (cmd_DeviceID c) of
        Some a \<Rightarrow> [ToAdapter a c]
      | None \<Rightarrow> if cmd_DeviceID c \<in> matterIDs then [ToMatter (cmd_DeviceID c) (applyMatter c)] else [])"

end
