(* ===== verification/Config.thy ===== *)
theory Config
  imports Hub
begin

text \<open>
  The hub's configuration (\<^verbatim>\<open>internal/config/config.go\<close>): the declared devices and rules, the
  validation that \<^verbatim>\<open>Load\<close> runs on them, and the hub that \<^verbatim>\<open>main\<close> builds from a
  configuration. Reading the file and decoding YAML are outside; a Go map is a map, or the list of
  its entries where the code walks it.
\<close>

section \<open>Data\<close>

abbreviation TypeSwitch :: string where "TypeSwitch \<equiv> ''switch''"
abbreviation TypeLight :: string where "TypeLight \<equiv> ''light''"
abbreviation TypeFan :: string where "TypeFan \<equiv> ''fan''"
abbreviation TypeCover :: string where "TypeCover \<equiv> ''cover''"
abbreviation TypeSensor :: string where "TypeSensor \<equiv> ''sensor''"
abbreviation TypeHumidity :: string where "TypeHumidity \<equiv> ''humidity''"

record RFButtons =
  btn_Off :: int
  btn_Speeds :: "(int \<times> int) list"

record RFDevice =
  rf_Channel :: "int option"
  rf_Buttons :: "RFButtons option"

record GoMatterDevice =
  gm_FabricStore :: string
  gm_NodeID :: u64
  gm_Address :: string
  gm_Endpoint :: u16

record DeviceConfig =
  dc_Device :: Device
  dc_Driver :: string
  dc_Triggers :: "string \<rightharpoonup> string"
  dc_GoMatter :: "GoMatterDevice option"
  dc_RF :: "RFDevice option"

record RuleConfig =
  rc_Type :: string
  rc_Src :: string
  rc_Dst :: string
  rc_Press :: string
  rc_Action :: string
  rc_Value :: int
  rc_States :: "int list"
  rc_Power :: string
  rc_Above :: "u64 option"
  rc_Below :: "u64 option"

record ConfigFile =
  cf_Devices :: "DeviceConfig list"
  cf_Rules :: "RuleConfig list"

section \<open>Devices\<close>

text \<open>The error returns, with the identifier or rule number each message names.\<close>

datatype config_error =
  EmptyID
| DuplicateID string
| UnknownType string string
| AddrRequired string
| MatterNotCover string string
| UnknownIntegration string string
| GoMatterBlock string
| GoMatterFields string
| TriggersRequired string
| UnknownDriver string string
| RFAddr string
| RFChannelRequired string
| RFChannelRange string int
| RFButtonsRequired string
| RFOffRange string int
| RFNoSpeeds string
| RFSpeedLevel string int
| RFSpeedButton string int
| RFType string string
| RuleUnknownSrc nat string
| RuleUnknownDst nat string
| RuleSrcNotZigbee nat string
| RulePress nat string
| RulePosition nat int
| RuleAction nat string
| RuleStates nat
| RuleState nat int
| RuleUnknownPower nat string
| RuleSrcNotSensor nat string
| RuleBounds nat
| RuleHysteresis nat
| RuleType nat string

abbreviation map_get :: "(string \<rightharpoonup> string) \<Rightarrow> string \<Rightarrow> string" where
  "map_get m k \<equiv> (case m k of None \<Rightarrow> '''' | Some v \<Rightarrow> v)"

definition validTypes :: "string list" where
  "validTypes = [TypeSwitch, TypeLight, TypeFan, TypeCover, TypeSensor, TypeHumidity]"

definition validateMatterDevice :: "DeviceConfig \<Rightarrow> config_error option" where
  "validateMatterDevice d =
     (let i = dev_ID (dc_Device d) in
      if dc_Driver d = ''go-matter'' then
        (case dc_GoMatter d of
           None \<Rightarrow> Some (GoMatterBlock i)
         | Some gm \<Rightarrow> if gm_FabricStore gm = '''' \<or> gm_NodeID gm = 0 then Some (GoMatterFields i) else None)
      else if dc_Driver d = ''delegated'' \<or> dc_Driver d = '''' then
        (if map_get (dc_Triggers d) ''open'' = '''' \<or> map_get (dc_Triggers d) ''close'' = ''''
         then Some (TriggersRequired i) else None)
      else Some (UnknownDriver i (dc_Driver d)))"

fun validateSpeeds :: "string \<Rightarrow> (int \<times> int) list \<Rightarrow> config_error option" where
  "validateSpeeds i [] = None"
| "validateSpeeds i ((lvl, btn) # ss) =
     (if lvl < 1 \<or> 100 < lvl then Some (RFSpeedLevel i lvl)
      else if btn < 1 \<or> 15 < btn then Some (RFSpeedButton i btn)
      else validateSpeeds i ss)"

definition validateRFDevice :: "DeviceConfig \<Rightarrow> config_error option" where
  "validateRFDevice d =
     (let i = dev_ID (dc_Device d); addr = dev_Addr (dc_Device d); typ = dev_Type (dc_Device d) in
      if addr = '''' \<or> CHR ''/'' \<in> set addr then Some (RFAddr i)
      else if typ = TypeCover then
        (case dc_RF d of
           None \<Rightarrow> Some (RFChannelRequired i)
         | Some rf \<Rightarrow>
             (case rf_Channel rf of
                None \<Rightarrow> Some (RFChannelRequired i)
              | Some ch \<Rightarrow> if ch < 0 \<or> 15 < ch then Some (RFChannelRange i ch) else None))
      else if typ = TypeFan then
        (case dc_RF d of
           None \<Rightarrow> Some (RFButtonsRequired i)
         | Some rf \<Rightarrow>
             (case rf_Buttons rf of
                None \<Rightarrow> Some (RFButtonsRequired i)
              | Some b \<Rightarrow>
                  if btn_Off b < 1 \<or> 15 < btn_Off b then Some (RFOffRange i (btn_Off b))
                  else if btn_Speeds b = [] then Some (RFNoSpeeds i)
                  else validateSpeeds i (btn_Speeds b)))
      else Some (RFType i typ))"

definition validateDevice :: "DeviceConfig \<Rightarrow> config_error option" where
  "validateDevice d =
     (let i = dev_ID (dc_Device d); integ = dev_Integration (dc_Device d); typ = dev_Type (dc_Device d) in
      if typ \<notin> set validTypes then Some (UnknownType i typ)
      else if integ = Zigbee \<or> integ = MQTT then
        (if dev_Addr (dc_Device d) = '''' then Some (AddrRequired i) else None)
      else if integ = Matter then
        (if typ \<noteq> TypeCover then Some (MatterNotCover i typ) else validateMatterDevice d)
      else if integ = RF then validateRFDevice d
      else Some (UnknownIntegration i integ))"

text \<open>The loop of \<^verbatim>\<open>validate\<close> over the devices, with the index of the devices seen.\<close>

fun validateDevices :: "(string \<rightharpoonup> Device) \<Rightarrow> DeviceConfig list \<Rightarrow> config_error + (string \<rightharpoonup> Device)" where
  "validateDevices byID [] = Inr byID"
| "validateDevices byID (d # ds) =
     (let i = dev_ID (dc_Device d) in
      if i = '''' then Inl EmptyID
      else if byID i \<noteq> None then Inl (DuplicateID i)
      else case validateDevice d of
        Some e \<Rightarrow> Inl e
      | None \<Rightarrow> validateDevices (byID(i \<mapsto> dc_Device d)) ds)"

section \<open>Rules\<close>

fun validateStates :: "nat \<Rightarrow> int list \<Rightarrow> config_error option" where
  "validateStates i [] = None"
| "validateStates i (s # ss) = (if s < 0 \<or> 100 < s then Some (RuleState i s) else validateStates i ss)"

abbreviation press_kinds :: "string list" where
  "press_kinds \<equiv> [''single'', ''double'', ''hold'']"

definition validateRule :: "nat \<Rightarrow> RuleConfig \<Rightarrow> (string \<rightharpoonup> Device) \<Rightarrow> config_error option" where
  "validateRule i r byID =
     (case byID (rc_Src r) of
        None \<Rightarrow> Some (RuleUnknownSrc i (rc_Src r))
      | Some src \<Rightarrow>
        if byID (rc_Dst r) = None then Some (RuleUnknownDst i (rc_Dst r))
        else if rc_Type r = ''mirror'' then None
        else if rc_Type r = ''button'' then
          (if dev_Integration src \<noteq> Zigbee then Some (RuleSrcNotZigbee i (rc_Src r))
           else if rc_Press r \<notin> set press_kinds then Some (RulePress i (rc_Press r))
           else if rc_Action r \<in> {''toggle'', ''on'', ''off'', ''open'', ''close''} then None
           else if rc_Action r = ''position'' then
             (if rc_Value r < 0 \<or> 100 < rc_Value r then Some (RulePosition i (rc_Value r)) else None)
           else Some (RuleAction i (rc_Action r)))
        else if rc_Type r = ''cycle'' then
          (if dev_Integration src \<noteq> Zigbee then Some (RuleSrcNotZigbee i (rc_Src r))
           else if rc_Press r \<notin> set press_kinds then Some (RulePress i (rc_Press r))
           else if length (rc_States r) < 2 then Some (RuleStates i)
           else case validateStates i (rc_States r) of
             Some e \<Rightarrow> Some e
           | None \<Rightarrow>
               if rc_Power r \<noteq> '''' \<and> byID (rc_Power r) = None then Some (RuleUnknownPower i (rc_Power r))
               else None)
        else if rc_Type r = ''threshold'' then
          (if dev_Type src \<noteq> TypeSensor \<and> dev_Type src \<noteq> TypeHumidity then Some (RuleSrcNotSensor i (rc_Src r))
           else case (rc_Above r, rc_Below r) of
             (Some hi, Some lo) \<Rightarrow> if f64_le hi lo then Some (RuleHysteresis i) else None
           | _ \<Rightarrow> Some (RuleBounds i))
        else Some (RuleType i (rc_Type r)))"

fun validateRules :: "nat \<Rightarrow> RuleConfig list \<Rightarrow> (string \<rightharpoonup> Device) \<Rightarrow> config_error option" where
  "validateRules i [] byID = None"
| "validateRules i (r # rs) byID =
     (case validateRule i r byID of Some e \<Rightarrow> Some e | None \<Rightarrow> validateRules (i + 1) rs byID)"

definition validate :: "ConfigFile \<Rightarrow> config_error option" where
  "validate c =
     (case validateDevices (\<lambda>_. None) (cf_Devices c) of
        Inl e \<Rightarrow> Some e
      | Inr byID \<Rightarrow> validateRules 0 (cf_Rules c) byID)"

section \<open>The hub of a configuration (cmd/hub/main.go)\<close>

definition load_registry :: "DeviceConfig list \<Rightarrow> Registry" where
  "load_registry ds = foldl Registry_Add NewRegistry (List.map dc_Device ds)"

text \<open>The \<^verbatim>\<open>switch r.Type\<close> of \<^verbatim>\<open>main\<close>; the dereference of an absent bound would panic: None.\<close>

definition rule_of :: "RuleConfig \<Rightarrow> Rule list option" where
  "rule_of r =
     (if rc_Type r = ''mirror'' then Some [MirrorRule (rc_Src r) (rc_Dst r)]
      else if rc_Type r = ''button'' then
        Some [ButtonRule (rc_Src r) (rc_Press r) (rc_Dst r) (rc_Action r) (rc_Value r)]
      else if rc_Type r = ''cycle'' then
        Some [CycleRule (rc_Src r) (rc_Press r) (rc_Dst r) (rc_States r) (rc_Power r)]
      else if rc_Type r = ''threshold'' then
        (case (rc_Above r, rc_Below r) of
           (Some hi, Some lo) \<Rightarrow> Some [ThresholdRule (rc_Src r) (rc_Dst r) hi lo]
         | _ \<Rightarrow> None)
      else Some [])"

fun load_rules :: "RuleConfig list \<Rightarrow> Rule list option" where
  "load_rules [] = Some []"
| "load_rules (r # rs) =
     (case rule_of r of
        None \<Rightarrow> None
      | Some x \<Rightarrow> (case load_rules rs of None \<Rightarrow> None | Some xs \<Rightarrow> Some (x @ xs)))"

text \<open>The devices that \<^verbatim>\<open>main\<close> gives a Matter driver, native or delegated.\<close>

definition matter_ids :: "DeviceConfig list \<Rightarrow> string set" where
  "matter_ids ds =
     set (List.map (\<lambda>d. dev_ID (dc_Device d)) (filter (\<lambda>d. dev_Integration (dc_Device d) = Matter) ds))"

end
