(* ===== verification/Hub_Bus.thy ===== *)
theory Hub_Bus
  imports Hub "HOL-Library.Sublist"
begin

text \<open>
  The contract of a bounded channel, stated as an interface, its interpretation on the Go channel
  of the model, and what it gives for every subscriber of the bus; the registry as a map of the
  latest reported values.
\<close>

section \<open>Channels\<close>

datatype 'a chan_op = Send 'a | Recv

fun sent :: "'a chan_op list \<Rightarrow> 'a list" where
  "sent [] = []"
| "sent (Send m # ops) = m # sent ops"
| "sent (Recv # ops) = sent ops"

text \<open>What a sequence of sends and non-blocking receives gets, and the channel it leaves.\<close>

fun chan_run :: "('q \<Rightarrow> 'a \<Rightarrow> 'q) \<Rightarrow> ('q \<Rightarrow> ('a \<times> 'q) option) \<Rightarrow> 'q \<Rightarrow> 'a chan_op list \<Rightarrow> 'a list \<times> 'q" where
  "chan_run snd_op rcv_op q [] = ([], q)"
| "chan_run snd_op rcv_op q (Send m # ops) = chan_run snd_op rcv_op (snd_op q m) ops"
| "chan_run snd_op rcv_op q (Recv # ops) =
     (case rcv_op q of
        None \<Rightarrow> chan_run snd_op rcv_op q ops
      | Some (m, q) \<Rightarrow> (let (got, q) = chan_run snd_op rcv_op q ops in (m # got, q)))"

locale bounded_channel =
  fixes content :: "'q \<Rightarrow> 'a list"
    and snd_op :: "'q \<Rightarrow> 'a \<Rightarrow> 'q"
    and rcv_op :: "'q \<Rightarrow> ('a \<times> 'q) option"
    and cap :: nat
  assumes send_room: "length (content q) < cap \<Longrightarrow> content (snd_op q m) = content q @ [m]"
    and send_full: "\<not> length (content q) < cap \<Longrightarrow> content (snd_op q m) = content q"
    and recv_empty: "content q = [] \<Longrightarrow> rcv_op q = None"
    and recv_first: "content q = m # ms \<Longrightarrow> \<exists>q'. rcv_op q = Some (m, q') \<and> content q' = ms"
begin

lemma recv_cases:
  obtains "content q = []" "rcv_op q = None"
  | m q' where "rcv_op q = Some (m, q')" "content q = m # content q'"
proof (cases "content q")
  case Nil
  from that(1) [OF this recv_empty [OF this]] show ?thesis .
next
  case (Cons m ms)
  then obtain q' where "rcv_op q = Some (m, q')" "content q' = ms" using recv_first by blast
  with Cons that(2) [of m q'] show ?thesis by simp
qed

lemma in_order:
  "chan_run snd_op rcv_op q ops = (got, q') \<Longrightarrow> subseq (got @ content q') (content q @ sent ops)"
proof (induction ops arbitrary: q got)
  case (Cons p ops)
  show ?case
  proof (cases p)
    case (Send m)
    with Cons have "subseq (got @ content q') (content (snd_op q m) @ sent ops)" by simp
    moreover have "subseq (content (snd_op q m) @ sent ops) (content q @ m # sent ops)"
      using send_room [of q m] send_full [of q m]
      by (cases "length (content q) < cap") (auto simp: subseq_append' list_emb_Cons)
    ultimately show ?thesis using Send subseq_order.trans by simp
  next
    case Recv
    show ?thesis
    proof (cases q rule: recv_cases)
      case 1
      with Cons Recv show ?thesis by fastforce
    next
      case (2 m r)
      then obtain got' where "chan_run snd_op rcv_op r ops = (got', q')" "got = m # got'"
        using Cons.prems Recv by (auto split: prod.splits)
      with Cons.IH 2 Recv show ?thesis by simp
    qed
  qed
qed simp

lemma complete:
  "chan_run snd_op rcv_op q ops = (got, q') \<Longrightarrow> length (content q) + length (sent ops) \<le> cap
    \<Longrightarrow> got @ content q' = content q @ sent ops"
proof (induction ops arbitrary: q got)
  case (Cons p ops)
  show ?case
  proof (cases p)
    case (Send m)
    with Cons.prems have "content (snd_op q m) = content q @ [m]" by (intro send_room) simp
    with Cons Send show ?thesis by simp
  next
    case Recv
    show ?thesis
    proof (cases q rule: recv_cases)
      case 1
      with Cons Recv show ?thesis by fastforce
    next
      case (2 m r)
      then obtain got' where "chan_run snd_op rcv_op r ops = (got', q')" "got = m # got'"
        using Cons.prems Recv by (auto split: prod.splits)
      with Cons.IH [of r got'] Cons.prems(2) 2 Recv show ?thesis by simp
    qed
  qed
qed simp

lemma bounded:
  "chan_run snd_op rcv_op q ops = (got, q') \<Longrightarrow> length (content q) \<le> cap \<Longrightarrow> length (content q') \<le> cap"
proof (induction ops arbitrary: q got)
  case (Cons p ops)
  show ?case
  proof (cases p)
    case (Send m)
    have "length (content (snd_op q m)) \<le> cap"
      using send_room [of q m] send_full [of q m] Cons.prems(2) by (cases "length (content q) < cap") auto
    with Cons Send show ?thesis by simp
  next
    case Recv
    show ?thesis
    proof (cases q rule: recv_cases)
      case 1
      with Cons Recv show ?thesis by fastforce
    next
      case (2 m r)
      then obtain got' where "chan_run snd_op rcv_op r ops = (got', q')"
        using Cons.prems Recv by (auto split: prod.splits)
      with Cons 2 Recv show ?thesis by simp
    qed
  qed
qed simp

end

interpretation ch: bounded_channel "\<lambda>q. q" "ch_send cap" ch_recv cap for cap
  by unfold_locales (auto simp: ch_send_def)

section \<open>Subscribers\<close>

text \<open>Events published on the bus and received by its subscribers, in any order.\<close>

datatype bus_op = Pub Event | Take nat

fun bus_run :: "Bus \<Rightarrow> bus_op list \<Rightarrow> (nat \<times> Event) list \<times> Bus" where
  "bus_run b [] = ([], b)"
| "bus_run b (Pub e # ops) = bus_run (PublishEvent b e) ops"
| "bus_run b (Take i # ops) =
     (case ch_recv (evtSubs b ! i) of
        None \<Rightarrow> bus_run b ops
      | Some (e, ch) \<Rightarrow>
          (let (got, b) = bus_run (b\<lparr>evtSubs := (evtSubs b)[i := ch]\<rparr>) ops in ((i, e) # got, b)))"

fun published :: "bus_op list \<Rightarrow> Event list" where
  "published [] = []"
| "published (Pub e # ops) = e # published ops"
| "published (Take i # ops) = published ops"

definition received :: "nat \<Rightarrow> (nat \<times> Event) list \<Rightarrow> Event list" where
  "received i got = List.map snd (filter (\<lambda>(j, _). j = i) got)"

text \<open>The operations as one subscriber's channel sees them.\<close>

fun view :: "nat \<Rightarrow> bus_op list \<Rightarrow> Event chan_op list" where
  "view i [] = []"
| "view i (Pub e # ops) = Send e # view i ops"
| "view i (Take j # ops) = (if j = i then Recv # view i ops else view i ops)"

lemma sent_view [simp]: "sent (view i ops) = published ops"
  by (induction ops rule: published.induct) simp_all

lemma bus_run_view:
  "i < length (evtSubs b) \<Longrightarrow> \<forall>j. Take j \<in> set ops \<longrightarrow> j < length (evtSubs b) \<Longrightarrow> bus_run b ops = (got, b')
    \<Longrightarrow> chan_run (ch_send (buffer b)) ch_recv (evtSubs b ! i) (view i ops) = (received i got, evtSubs b' ! i)
      \<and> buffer b' = buffer b"
proof (induction b ops arbitrary: got rule: bus_run.induct)
  case (2 b e ops)
  then show ?case by (simp add: PublishEvent_def)
next
  case (3 b j ops)
  show ?case
  proof (cases "ch_recv (evtSubs b ! j)")
    case None
    with 3 show ?thesis by auto
  next
    case (Some r)
    then obtain e ch where r: "ch_recv (evtSubs b ! j) = Some (e, ch)" by (cases r) simp
    let ?b = "b\<lparr>evtSubs := (evtSubs b)[j := ch]\<rparr>"
    obtain got' where got': "bus_run ?b ops = (got', b')" "got = (j, e) # got'"
      using 3 r by (auto split: prod.splits)
    have "chan_run (ch_send (buffer b)) ch_recv ((evtSubs b)[j := ch] ! i) (view i ops)
        = (received i got', evtSubs b' ! i) \<and> buffer b' = buffer b"
      using "3.IH"(2) [OF r refl] 3 got' by simp
    with 3 r got' show ?thesis by (cases "i = j") (simp_all add: received_def)
  qed
qed (simp add: received_def)

text \<open>C21: Every subscriber of the bus gets the events in the order of their publication, without
  duplicates or inventions, whatever the other subscribers do; its backlog stays within the buffer,
  and nothing is dropped as long as no more events are published than its buffer has room for.\<close>

theorem bus_in_order:
  assumes "i < length (evtSubs b)" "\<forall>j. Take j \<in> set ops \<longrightarrow> j < length (evtSubs b)"
    and "length (evtSubs b ! i) \<le> buffer b" "bus_run b ops = (got, b')"
  shows "subseq (received i got @ evtSubs b' ! i) (evtSubs b ! i @ published ops)
    \<and> length (evtSubs b' ! i) \<le> buffer b
    \<and> (length (evtSubs b ! i) + length (published ops) \<le> buffer b
       \<longrightarrow> received i got @ evtSubs b' ! i = evtSubs b ! i @ published ops)"
proof -
  have "chan_run (ch_send (buffer b)) ch_recv (evtSubs b ! i) (view i ops) = (received i got, evtSubs b' ! i)"
    using bus_run_view [OF assms(1,2,4)] ..
  from ch.in_order [OF this] ch.bounded [OF this assms(3)] ch.complete [OF this] show ?thesis by simp
qed

definition example_event :: "bool \<Rightarrow> Event" where
  "example_event on = \<lparr>ev_DeviceID = ''lamp'', ev_Kind = EventStateChanged,
     ev_State = zeroState\<lparr>On := Some on\<rparr>, ev_Press = ''''\<rparr>"

theorem bus_in_order_witness:
  "\<exists>got b'. bus_run (snd (SubscribeEvents (snd (SubscribeEvents (NewBus 1)))))
       [Pub (example_event True), Take 0, Pub (example_event False), Take 1] = (got, b')
     \<and> subseq (received 1 got @ evtSubs b' ! 1) [example_event True, example_event False]"
proof -
  let ?b = "snd (SubscribeEvents (snd (SubscribeEvents (NewBus 1))))"
  let ?ops = "[Pub (example_event True), Take 0, Pub (example_event False), Take 1]"
  obtain got b' where run: "bus_run ?b ?ops = (got, b')" by fastforce
  have "1 < length (evtSubs ?b)" "\<forall>j. Take j \<in> set ?ops \<longrightarrow> j < length (evtSubs ?b)"
    "length (evtSubs ?b ! 1) \<le> buffer ?b" "evtSubs ?b ! 1 = []"
    by (simp_all add: SubscribeEvents_def NewBus_def)
  with bus_in_order [OF this(1-3) run] run show ?thesis by simp
qed

section \<open>The registry\<close>

definition report_all :: "Registry \<Rightarrow> (string \<times> State) list \<Rightarrow> Registry" where
  "report_all r reports = foldl (\<lambda>r (i, s). Registry_SetState r i s) r reports"

text \<open>The newest value of a field among the reports of a device, or the value it had.\<close>

definition newest :: "(State \<Rightarrow> 'a option) \<Rightarrow> string \<Rightarrow> (string \<times> State) list \<Rightarrow> 'a option \<Rightarrow> 'a option" where
  "newest f i reports v =
     last (v # filter (\<lambda>x. x \<noteq> None) (List.map (\<lambda>(_, s). f s) (filter (\<lambda>(j, _). j = i) reports)))"

lemma newest_simps:
  "newest f i [] v = v"
  "newest f i ((j, s) # rs) v = newest f i rs (if j = i \<and> f s \<noteq> None then f s else v)"
  by (auto simp: newest_def)

lemma SetState_other: "j \<noteq> i \<Longrightarrow> Registry_State (Registry_SetState r j s) i = Registry_State r i"
  by (simp add: Registry_SetState_def Registry_State_def Let_def split: option.split)

lemma SetState_same:
  "Registry_State r i = Some s0 \<Longrightarrow> Registry_State (Registry_SetState r i s) i = Some (s0\<lparr>
     On := if On s \<noteq> None then On s else On s0,
     Position := if Position s \<noteq> None then Position s else Position s0,
     Level := if Level s \<noteq> None then Level s else Level s0,
     Value := if Value s \<noteq> None then Value s else Value s0\<rparr>)"
  by (auto simp: Registry_SetState_def Registry_State_def Let_def split: option.splits)

text \<open>C22: The cache holds, for every device, the newest reported on/off state, position, level and
  value, whatever the other reports in between leave out. The colour temperature, hue, saturation
  and direction of a report are not kept, although adapters report them.\<close>

theorem registry_latest:
  assumes "Registry_State r i = Some s0"
  shows "Registry_State (report_all r reports) i = Some (s0\<lparr>
     On := newest On i reports (On s0), Position := newest Position i reports (Position s0),
     Level := newest Level i reports (Level s0), Value := newest Value i reports (Value s0)\<rparr>)"
  using assms
proof (induction reports arbitrary: r s0)
  case Nil
  then show ?case by (simp add: report_all_def newest_simps)
next
  case (Cons p reports)
  obtain j s where p: "p = (j, s)" by (cases p)
  have run: "report_all r (p # reports) = report_all (Registry_SetState r j s) reports"
    by (simp add: report_all_def p)
  show ?case
  proof (cases "j = i")
    case True
    show ?thesis
      unfolding run using Cons.IH [OF SetState_same [OF Cons.prems, of s]] True
      by (simp add: p newest_simps)
  next
    case False
    with Cons.IH [of "Registry_SetState r j s" s0] Cons.prems show ?thesis
      unfolding run by (simp add: p newest_simps SetState_other)
  qed
qed

theorem registry_latest_witness:
  "Registry_State (report_all (Registry_Add NewRegistry \<lparr>dev_ID = ''fan'', dev_Name = ''Fan'', dev_Integration = MQTT,
       dev_Type = ''fan'', dev_Addr = ''fan1'', dev_Endpoint = 0, dev_Decoupled = False, dev_Features = []\<rparr>)
     [(''fan'', zeroState\<lparr>On := Some True, Direction := Some 1\<rparr>), (''fan'', zeroState\<lparr>Level := Some 50\<rparr>)]) ''fan''
   = Some (zeroState\<lparr>On := Some True, Level := Some 50\<rparr>)"
  by (subst registry_latest [of _ _ zeroState])
    (simp_all add: Registry_Add_def NewRegistry_def Registry_State_def newest_simps, simp_all add: zeroState_def)

end
