(* ===== verification/Hub_Rules.thy ===== *)
theory Hub_Rules
  imports Config Hub_Bus
begin

text \<open>
  What the automation rules do over a sequence of events: hysteresis of the threshold rule, the
  order of the cycle rule, and the commands that a validated configuration can issue and where the
  dispatcher sends them.
\<close>

section \<open>Rules over a sequence of events\<close>

text \<open>Each event comes with the view of the registry that the rules have when they handle it.\<close>

type_synonym stimulus = "(string \<Rightarrow> State option) \<times> Event"

fun issue :: "Rule list \<Rightarrow> stimulus list \<Rightarrow> Command list \<times> Rule list" where
  "issue rs [] = ([], rs)"
| "issue rs ((st, e) # es) =
     (let (cmds, rs) = run_rules st rs e; (cmds', rs) = issue rs es in (cmds @ cmds', rs))"

lemma issue_append:
  "issue rs es = (cmds, rs') \<Longrightarrow> issue rs (es @ fs) = (cmds @ fst (issue rs' fs), snd (issue rs' fs))"
proof (induction es arbitrary: rs cmds rs')
  case (Cons x es)
  obtain st e where x: "x = (st, e)" by (cases x)
  obtain c1 rs1 where 1: "run_rules st rs e = (c1, rs1)" by fastforce
  obtain c2 rs2 where 2: "issue rs1 es = (c2, rs2)" by fastforce
  from Cons.IH [OF 2] Cons.prems 1 2 show ?case by (simp add: x)
qed simp

section \<open>Hysteresis\<close>

lemma f64_le_trans: "f64_le a b \<Longrightarrow> f64_le b c \<Longrightarrow> f64_le a c"
  by (auto simp: f64_le_def)

text \<open>The reading that a stimulus carries for a sensor, and the switch position that hysteresis
  between two bounds asks for after a sequence of readings.\<close>

definition reading :: "string \<Rightarrow> stimulus \<Rightarrow> u64 option" where
  "reading src x =
     (if ev_DeviceID (snd x) = src \<and> ev_Kind (snd x) = EventStateChanged then Value (ev_State (snd x)) else None)"

definition hysteresis :: "u64 \<Rightarrow> u64 \<Rightarrow> bool option \<Rightarrow> u64 \<Rightarrow> bool option" where
  "hysteresis hi lo want v = (if f64_le hi v then Some True else if f64_le v lo then Some False else want)"

fun signal :: "u64 \<Rightarrow> u64 \<Rightarrow> bool option \<Rightarrow> u64 list \<Rightarrow> bool option list" where
  "signal hi lo want [] = []"
| "signal hi lo want (v # vs) = hysteresis hi lo want v # signal hi lo (hysteresis hi lo want v) vs"

text \<open>The values at which a signal changes.\<close>

fun changes :: "bool option \<Rightarrow> bool option list \<Rightarrow> bool list" where
  "changes cur [] = []"
| "changes cur (w # ws) =
     (case w of
        None \<Rightarrow> changes cur ws
      | Some b \<Rightarrow> if cur = Some b then changes cur ws else b # changes (Some b) ws)"

abbreviation status :: "bool \<Rightarrow> bool \<Rightarrow> bool option" where
  "status on known \<equiv> (if known then Some on else None)"

lemma changes_distinct: "distinct_adj (changes cur ws) \<and> (changes cur ws \<noteq> [] \<longrightarrow> cur \<noteq> Some (hd (changes cur ws)))"
  by (induction cur ws rule: changes.induct) (auto simp: distinct_adj_Cons split: option.split)

lemma threshold_step:
  assumes "\<not> f64_le hi lo" "reading src (st, e) = Some v" "\<not> known \<longrightarrow> \<not> on"
  obtains on' known' where
    "run_threshold src dst hi lo on known e
      = (List.map (SetOn dst) (changes (status on known) [hysteresis hi lo (status on known) v]), on', known')"
    "status on' known' = hysteresis hi lo (status on known) v" "\<not> known' \<longrightarrow> \<not> on'"
proof -
  have e: "ev_DeviceID e = src" "ev_Kind e = EventStateChanged" "Value (ev_State e) = Some v"
    using assms(2) by (simp_all add: reading_def split: if_splits)
  have excl: "\<not> (f64_le hi v \<and> f64_le v lo)" using assms(1) f64_le_trans by blast
  have "\<exists>on' known'. run_threshold src dst hi lo on known e
      = (List.map (SetOn dst) (changes (status on known) [hysteresis hi lo (status on known) v]), on', known')
    \<and> status on' known' = hysteresis hi lo (status on known) v \<and> (\<not> known' \<longrightarrow> \<not> on')"
    using e excl assms(3) by (cases known; cases on) (auto simp: run_threshold_def hysteresis_def)
  with that show thesis by blast
qed

lemma threshold_issue:
  assumes "\<not> f64_le hi lo" "\<not> known \<longrightarrow> \<not> on"
  shows "fst (issue [Threshold src dst hi lo on known] es)
    = List.map (SetOn dst) (changes (status on known) (signal hi lo (status on known) (List.map_filter (reading src) es)))"
  using assms(2)
proof (induction es arbitrary: on known)
  case (Cons x es)
  obtain st e where x: "x = (st, e)" by (cases x)
  show ?case
  proof (cases "reading src x")
    case None
    then have "run_threshold src dst hi lo on known e = ([], on, known)"
      by (auto simp: run_threshold_def reading_def x split: if_splits)
    with Cons.IH [OF Cons.prems] None show ?thesis
      by (simp add: x List.map_filter_simps split: prod.split)
  next
    case (Some v)
    let ?w = "hysteresis hi lo (status on known) v"
    obtain on' known' where run: "run_threshold src dst hi lo on known e
        = (List.map (SetOn dst) (changes (status on known) [?w]), on', known')"
      and w: "status on' known' = ?w" and ok: "\<not> known' \<longrightarrow> \<not> on'"
      using threshold_step [OF assms(1)] Some Cons.prems unfolding x by metis
    have split: "changes cur (?w # ws) = changes cur [?w] @ changes ?w ws" if "cur = status on known" for cur ws
      using that by (auto simp: hysteresis_def)
    have "fst (issue [Threshold src dst hi lo on known] (x # es))
        = List.map (SetOn dst) (changes (status on known) [?w]) @ fst (issue [Threshold src dst hi lo on' known'] es)"
      by (simp add: x run del: changes.simps split: prod.split)
    also have "\<dots> = List.map (SetOn dst) (changes (status on known) [?w]
        @ changes ?w (signal hi lo ?w (List.map_filter (reading src) es)))"
      unfolding Cons.IH [OF ok] w by simp
    finally show ?thesis
      by (simp only: split [OF refl, symmetric] Some List.map_filter_simps option.case signal.simps)
  qed
qed (simp add: List.map_filter_simps)

text \<open>C20: A threshold rule whose bounds are apart switches its device exactly when the hysteresis
  signal of the sensor's readings changes: on when a reading reaches the upper bound, off when one
  reaches the lower bound, nothing in between, never the same command twice in a row.\<close>

theorem threshold_hysteresis:
  assumes "\<not> f64_le hi lo"
  shows "fst (issue [ThresholdRule src dst hi lo] es)
      = List.map (SetOn dst) (changes None (signal hi lo None (List.map_filter (reading src) es)))
    \<and> distinct_adj (fst (issue [ThresholdRule src dst hi lo] es))"
proof -
  let ?bs = "changes None (signal hi lo None (List.map_filter (reading src) es))"
  have eq: "fst (issue [ThresholdRule src dst hi lo] es) = List.map (SetOn dst) ?bs"
    using threshold_issue [OF assms, of False False] by (simp add: ThresholdRule_def)
  have "inj (SetOn dst)" by (auto simp: inj_def SetOn_def)
  then have "distinct_adj (List.map (SetOn dst) ?bs)"
    using changes_distinct by (simp add: distinct_adj_map_iff inj_on_subset)
  with eq show ?thesis by simp
qed

definition reading_event :: "string \<Rightarrow> u64 \<Rightarrow> Event" where
  "reading_event src v = \<lparr>ev_DeviceID = src, ev_Kind = EventStateChanged,
     ev_State = zeroState\<lparr>Value := Some v\<rparr>, ev_Press = ''''\<rparr>"

theorem threshold_hysteresis_witness:
  "fst (issue [ThresholdRule ''humidity'' ''dehumidifier'' 0x4050400000000000 0x404B800000000000]
     (List.map (\<lambda>v. (\<lambda>_. None, reading_event ''humidity'' v))
       [0x404E000000000000, 0x4050800000000000, 0x4051800000000000, 0x404E000000000000, 0x404B000000000000]))
   = [SetOn ''dehumidifier'' True, SetOn ''dehumidifier'' False]"
proof -
  have "\<not> f64_le 0x4050400000000000 0x404B800000000000"
    by (simp add: f64_le_def f64_nan_def f64_key_def)
  from threshold_hysteresis [OF this, THEN conjunct1] show ?thesis
    by (simp add: f64_le_def f64_nan_def f64_key_def List.map_filter_simps reading_def reading_event_def hysteresis_def
        del: issue.simps)
qed

section \<open>Cycles\<close>

definition is_press :: "string \<Rightarrow> string \<Rightarrow> stimulus \<Rightarrow> bool" where
  "is_press src press x \<longleftrightarrow>
     ev_DeviceID (snd x) = src \<and> ev_Kind (snd x) = EventButton \<and> ev_Press (snd x) = press"

definition is_power_off :: "string \<Rightarrow> stimulus \<Rightarrow> bool" where
  "is_power_off pw x \<longleftrightarrow>
     pw \<noteq> '''' \<and> ev_DeviceID (snd x) = pw \<and> ev_Kind (snd x) = EventStateChanged \<and> On (ev_State (snd x)) = Some False"

text \<open>The number of presses since the fixture last lost power.\<close>

definition presses :: "string \<Rightarrow> string \<Rightarrow> string \<Rightarrow> stimulus list \<Rightarrow> nat" where
  "presses src press pw es = length (filter (is_press src press) (takeWhile (Not \<circ> is_power_off pw) (rev es)))"

definition level_command :: "string \<Rightarrow> int \<Rightarrow> Command" where
  "level_command dst lvl = (if 0 < lvl then SetLevel dst lvl else SetOn dst False)"

lemma presses_Nil: "presses src press pw [] = 0"
  by (simp add: presses_def)

lemma presses_snoc:
  "presses src press pw (es @ [x]) =
    (if is_power_off pw x then 0 else presses src press pw es + (if is_press src press x then 1 else 0))"
  by (cases "is_power_off pw x"; cases "is_press src press x"; simp add: presses_def)

lemmas presses_simps = presses_Nil presses_snoc

lemma not_both: "is_press src press x \<Longrightarrow> \<not> is_power_off pw x"
  by (auto simp: is_press_def is_power_off_def)

lemma run_cycle_cases:
  "run_cycle src press dst states pw idx e =
    (if is_power_off pw (st, e) then ([], 0)
     else if is_press src press (st, e) \<and> states \<noteq> []
       then ([level_command dst (states ! ((idx + 1) mod length states))], (idx + 1) mod length states)
     else ([], idx))"
  by (auto simp: run_cycle_def is_power_off_def is_press_def level_command_def Let_def)

lemma cycle_one:
  assumes "states \<noteq> []"
  shows "issue [Cycle src press dst states pw idx] [x]
    = (if is_press src press x then [level_command dst (states ! (Suc idx mod length states))] else [],
       [Cycle src press dst states pw (if is_power_off pw x then 0 else if is_press src press x
         then Suc idx mod length states else idx)])"
  using assms not_both [of src press x pw] by (cases x) (simp add: run_cycle_cases [of _ _ _ _ _ _ _ "fst x"])

lemma cycle_state:
  assumes "states \<noteq> []"
  shows "\<exists>cmds. issue [CycleRule src press dst states pw] es
    = (cmds, [Cycle src press dst states pw (presses src press pw es mod length states)])"
proof (induction es rule: rev_induct)
  case Nil
  then show ?case by (simp add: CycleRule_def presses_simps)
next
  case (snoc x es)
  from snoc obtain cmds where "issue [CycleRule src press dst states pw] es
    = (cmds, [Cycle src press dst states pw (presses src press pw es mod length states)])" by blast
  from issue_append [OF this, of "[x]"] show ?case
    by (simp add: cycle_one [OF assms] presses_simps mod_Suc_eq)
qed

text \<open>A cycle rule answers each press with the level that its place in the sequence has, counted
  from the last time the fixture lost power and wrapping at the end; other events get no answer.\<close>

theorem cycle_follows_states:
  assumes "states \<noteq> []" "issue [CycleRule src press dst states pw] es = (cmds, rs)"
  shows "fst (issue [CycleRule src press dst states pw] (es @ [x])) = cmds @
    (if is_press src press x
     then [level_command dst (states ! ((presses src press pw es + 1) mod length states))] else [])"
proof -
  from cycle_state [OF assms(1), of src press dst pw es] assms(2)
  have "rs = [Cycle src press dst states pw (presses src press pw es mod length states)]" by simp
  with issue_append [OF assms(2), of "[x]"] show ?thesis
    by (simp add: cycle_one [OF assms(1)] mod_Suc_eq del: issue.simps)
qed

definition press_event :: "string \<Rightarrow> Event" where
  "press_event src = \<lparr>ev_DeviceID = src, ev_Kind = EventButton, ev_State = zeroState, ev_Press = ''single''\<rparr>"

theorem cycle_follows_states_witness:
  "fst (issue [CycleRule ''button'' ''single'' ''fan'' [0, 50, 100] []]
     ([(\<lambda>_. None, press_event ''button''), (\<lambda>_. None, press_event ''button'')] @ [(\<lambda>_. None, press_event ''button'')]))
   = [SetLevel ''fan'' 50, SetLevel ''fan'' 100, SetOn ''fan'' False]"
proof -
  let ?p = "(\<lambda>_. None, press_event ''button'') :: stimulus"
  have "issue [CycleRule ''button'' ''single'' ''fan'' [0, 50, 100] []] [?p, ?p]
    = ([SetLevel ''fan'' 50, SetLevel ''fan'' 100], [Cycle ''button'' ''single'' ''fan'' [0, 50, 100] [] 2])"
    by (simp add: CycleRule_def run_cycle_def press_event_def)
  from cycle_follows_states [OF _ this, of ?p] show ?thesis
    by (simp add: is_press_def press_event_def presses_def is_power_off_def level_command_def del: issue.simps)
qed

end
