(* ===== verification/Hub_System.thy ===== *)
theory Hub_System
  imports Hub_Rules
begin

text \<open>
  The hub as a whole: which commands a validated configuration can issue and where they go; the
  step relation of the goroutines over the bus, with what every reachable state keeps; and the
  delivery of every waiting event's commands.
\<close>

section \<open>Validated configurations\<close>

definition device_ids :: "ConfigFile \<Rightarrow> string set" where
  "device_ids c = set (List.map (\<lambda>d. dev_ID (dc_Device d)) (cf_Devices c))"

text \<open>A command for a known device whose value has the type and range of its action.\<close>

fun value_ok :: "Action \<Rightarrow> any_value \<Rightarrow> bool" where
  "value_ok ActionSetOn (VBool on) = True"
| "value_ok ActionSetPosition (VInt p) = (0 \<le> p \<and> p \<le> 100)"
| "value_ok ActionSetLevel (VInt l) = (0 < l \<and> l \<le> 100)"
| "value_ok _ _ = False"

definition command_ok :: "string set \<Rightarrow> Command \<Rightarrow> bool" where
  "command_ok ids c \<longleftrightarrow> cmd_DeviceID c \<in> ids \<and> value_ok (cmd_Action c) (cmd_Value c)"

fun rule_ok :: "string set \<Rightarrow> Rule \<Rightarrow> bool" where
  "rule_ok ids (Mirror src dst) = (dst \<in> ids)"
| "rule_ok ids (Button src press dst action v) = (dst \<in> ids \<and> (action = ''position'' \<longrightarrow> 0 \<le> v \<and> v \<le> 100))"
| "rule_ok ids (Cycle src press dst states pw idx) =
     (dst \<in> ids \<and> idx < length states \<and> (\<forall>s\<in>set states. 0 \<le> s \<and> s \<le> 100))"
| "rule_ok ids (Threshold src dst hi lo on known) = (dst \<in> ids)"

lemmas command_defs = SetOn_def SetPosition_def SetLevel_def command_ok_def

lemma run_rule_ok:
  "rule_ok ids r \<Longrightarrow> run_rule st r e = (cmds, r') \<Longrightarrow> rule_ok ids r' \<and> (\<forall>c\<in>set cmds. command_ok ids c)"
proof (cases r)
  case (Cycle src press dst states pw idx)
  assume ok: "rule_ok ids r" "run_rule st r e = (cmds, r')"
  have "Suc idx mod length states < length states" using ok(1) Cycle by (intro mod_less_divisor) auto
  then have "states ! (Suc idx mod length states) \<in> set states" by (rule nth_mem)
  with ok Cycle show ?thesis
    by (auto simp: run_cycle_def command_defs Let_def split: if_splits)
qed (auto simp: run_mirror_def run_button_def run_threshold_def command_defs Let_def split: if_splits option.splits prod.splits)

lemma run_rules_ok:
  "\<forall>r\<in>set rs. rule_ok ids r \<Longrightarrow> run_rules st rs e = (cmds, rs')
    \<Longrightarrow> (\<forall>r\<in>set rs'. rule_ok ids r) \<and> (\<forall>c\<in>set cmds. command_ok ids c)"
proof (induction rs arbitrary: cmds rs')
  case (Cons r rs)
  obtain c1 r1 where 1: "run_rule st r e = (c1, r1)" by fastforce
  obtain c2 r2 where 2: "run_rules st rs e = (c2, r2)" by fastforce
  from Cons.IH [OF _ 2] run_rule_ok [OF _ 1] Cons.prems 1 2 show ?case by auto
qed simp

lemma issue_ok:
  "\<forall>r\<in>set rs. rule_ok ids r \<Longrightarrow> issue rs es = (cmds, rs')
    \<Longrightarrow> (\<forall>r\<in>set rs'. rule_ok ids r) \<and> (\<forall>c\<in>set cmds. command_ok ids c)"
proof (induction es arbitrary: rs cmds rs')
  case (Cons x es)
  obtain st e where x: "x = (st, e)" by (cases x)
  obtain c1 r1 where 1: "run_rules st rs e = (c1, r1)" by fastforce
  obtain c2 r2 where 2: "issue r1 es = (c2, r2)" by fastforce
  from Cons.IH [OF _ 2] run_rules_ok [OF Cons.prems(1) 1] Cons.prems(2) 1 2 show ?case by (auto simp: x)
qed simp

lemma validateStates_ok: "validateStates i ss = None \<Longrightarrow> \<forall>s\<in>set ss. 0 \<le> s \<and> s \<le> 100"
  by (induction ss) (auto split: if_splits)

lemma validateRule_ok:
  assumes "validateRule i r byID = None"
  shows "\<exists>rs. rule_of r = Some rs \<and> (\<forall>x\<in>set rs. rule_ok (dom byID) x)"
proof -
  have "rc_Dst r \<in> dom byID" using assms by (auto simp: validateRule_def split: option.splits if_splits)
  moreover have "rc_Type r = ''cycle'' \<Longrightarrow> 2 \<le> length (rc_States r) \<and> validateStates i (rc_States r) = None"
    using assms by (auto simp: validateRule_def split: option.splits if_splits)
  ultimately show ?thesis
    using assms validateStates_ok [of i "rc_States r"]
    by (auto simp: rule_of_def validateRule_def MirrorRule_def ButtonRule_def CycleRule_def ThresholdRule_def
        split: option.splits if_splits)
qed

lemma validateRules_ok:
  "validateRules i rs byID = None \<Longrightarrow> \<exists>xs. load_rules rs = Some xs \<and> (\<forall>x\<in>set xs. rule_ok (dom byID) x)"
proof (induction rs arbitrary: i)
  case (Cons r rs)
  then have r: "validateRule i r byID = None" and rs: "validateRules (i + 1) rs byID = None"
    by (auto split: option.splits)
  from validateRule_ok [OF r] Cons.IH [OF rs] show ?case by auto
qed simp

definition routed :: "string set \<Rightarrow> string \<Rightarrow> Device \<Rightarrow> bool" where
  "routed ids i d \<longleftrightarrow> dev_Integration d \<in> {Zigbee, MQTT, RF} \<or> (dev_Integration d = Matter \<and> i \<in> ids)"

lemma validateDevice_integration:
  "validateDevice d = None \<Longrightarrow> dev_Integration (dc_Device d) \<in> {Zigbee, MQTT, RF, Matter}"
  by (auto simp: validateDevice_def Let_def split: if_splits)

lemma Registry_Get_Add:
  "Registry_Get (Registry_Add r d) i = (if i = dev_ID d \<and> Registry_Get r i = None then Some d else Registry_Get r i)"
  by (auto simp: Registry_Get_def Registry_Add_def split: option.split)

lemma validateDevices_ok:
  "validateDevices m ds = Inr m' \<Longrightarrow> Registry_Get r = m \<Longrightarrow> \<forall>i d. m i = Some d \<longrightarrow> routed ids i d
    \<Longrightarrow> matter_ids ds \<subseteq> ids
    \<Longrightarrow> Registry_Get (foldl Registry_Add r (List.map dc_Device ds)) = m'
      \<and> (\<forall>i d. m' i = Some d \<longrightarrow> routed ids i d) \<and> dom m' = dom m \<union> set (List.map (\<lambda>d. dev_ID (dc_Device d)) ds)"
proof (induction ds arbitrary: m r)
  case (Cons d ds)
  let ?i = "dev_ID (dc_Device d)"
  have fresh: "m ?i = None" and d: "validateDevice d = None"
    and rest: "validateDevices (m(?i \<mapsto> dc_Device d)) ds = Inr m'"
    using Cons.prems(1) by (auto simp: Let_def split: if_splits option.splits)
  have reg: "Registry_Get (Registry_Add r (dc_Device d)) = m(?i \<mapsto> dc_Device d)"
    using Cons.prems(2) fresh by (auto simp: Registry_Get_Add fun_eq_iff)
  have "routed ids ?i (dc_Device d)"
    using validateDevice_integration [OF d] Cons.prems(4) by (auto simp: routed_def matter_ids_def)
  then have routed: "\<forall>i x. (m(?i \<mapsto> dc_Device d)) i = Some x \<longrightarrow> routed ids i x" using Cons.prems(3) by simp
  have "matter_ids ds \<subseteq> ids" using Cons.prems(4) by (auto simp: matter_ids_def)
  from Cons.IH [OF rest reg routed this] show ?case by (simp del: fun_upd_apply)
qed simp

lemma validate_ok:
  assumes "validate c = None"
  shows "\<exists>rules. load_rules (cf_Rules c) = Some rules \<and> (\<forall>r\<in>set rules. rule_ok (device_ids c) r)"
    and "i \<in> device_ids c \<Longrightarrow> \<exists>d. Registry_Get (load_registry (cf_Devices c)) i = Some d
      \<and> routed (matter_ids (cf_Devices c)) i d"
proof -
  obtain m where m: "validateDevices (\<lambda>_. None) (cf_Devices c) = Inr m" and rules: "validateRules 0 (cf_Rules c) m = None"
    using assms by (auto simp: validate_def split: sum.splits)
  have "Registry_Get NewRegistry = (\<lambda>_. None)" by (simp add: Registry_Get_def NewRegistry_def fun_eq_iff)
  from validateDevices_ok [OF m this, of "matter_ids (cf_Devices c)"]
  have reg: "Registry_Get (load_registry (cf_Devices c)) = m" and dom: "dom m = device_ids c"
    and routed: "\<forall>i d. m i = Some d \<longrightarrow> routed (matter_ids (cf_Devices c)) i d"
    by (auto simp: load_registry_def device_ids_def)
  from validateRules_ok [OF rules] dom
  show "\<exists>rules. load_rules (cf_Rules c) = Some rules \<and> (\<forall>r\<in>set rules. rule_ok (device_ids c) r)" by simp
  show "\<exists>d. Registry_Get (load_registry (cf_Devices c)) i = Some d \<and> routed (matter_ids (cf_Devices c)) i d"
    if "i \<in> device_ids c"
    using that reg dom routed by (metis domD)
qed

lemma dispatch_routed:
  assumes "Registry_Get reg (cmd_DeviceID c) = Some d" "routed ids (cmd_DeviceID c) d"
  shows "dispatch_command reg ids c =
    [if dev_Integration d = Matter then ToMatter (cmd_DeviceID c) (applyMatter c) else ToAdapter (dev_Integration d) c]"
  using assms by (auto simp: dispatch_command_def owner_def routed_def)

text \<open>C18: A configuration that passes validation gives rules without a missing bound, and whatever
  events they see, every command they issue is for a configured device, has a value of the type and
  range of its action, and is handed by the dispatcher to exactly one adapter: the one of the
  device's integration, or the device's Matter driver.\<close>

theorem config_commands_typed:
  assumes "validate c = None"
  shows "\<exists>rules. load_rules (cf_Rules c) = Some rules
    \<and> (\<forall>es. \<forall>cmd\<in>set (fst (issue rules es)). command_ok (device_ids c) cmd
        \<and> (\<exists>d. Registry_Get (load_registry (cf_Devices c)) (cmd_DeviceID cmd) = Some d
            \<and> dispatch_command (load_registry (cf_Devices c)) (matter_ids (cf_Devices c)) cmd
              = [if dev_Integration d = Matter then ToMatter (cmd_DeviceID cmd) (applyMatter cmd)
                 else ToAdapter (dev_Integration d) cmd]))"
proof -
  obtain rules where rules: "load_rules (cf_Rules c) = Some rules" "\<forall>r\<in>set rules. rule_ok (device_ids c) r"
    using validate_ok(1) [OF assms] by blast
  have "command_ok (device_ids c) cmd \<and> (\<exists>d. Registry_Get (load_registry (cf_Devices c)) (cmd_DeviceID cmd) = Some d
      \<and> dispatch_command (load_registry (cf_Devices c)) (matter_ids (cf_Devices c)) cmd
        = [if dev_Integration d = Matter then ToMatter (cmd_DeviceID cmd) (applyMatter cmd)
           else ToAdapter (dev_Integration d) cmd])"
    if "cmd \<in> set (fst (issue rules es))" for es cmd
  proof -
    have ok: "command_ok (device_ids c) cmd"
      using issue_ok [OF rules(2), of es "fst (issue rules es)"] that by (metis prod.collapse)
    then have "cmd_DeviceID cmd \<in> device_ids c" by (simp add: command_ok_def)
    from validate_ok(2) [OF assms this] ok dispatch_routed show ?thesis by blast
  qed
  with rules(1) show ?thesis by blast
qed

section \<open>The hub's goroutines\<close>

text \<open>The channels that \<^verbatim>\<open>main\<close> subscribes: the engine's and the reflecting goroutine's events,
  the dispatcher's commands. The deliveries are what the adapters and drivers were handed, in order.\<close>

record Hub =
  hub_bus :: Bus
  hub_reg :: Registry
  hub_rules :: "Rule list"
  hub_out :: "delivery list"

definition hub_init :: "ConfigFile \<Rightarrow> Rule list \<Rightarrow> int \<Rightarrow> Hub" where
  "hub_init c rules n = \<lparr>
     hub_bus = snd (SubscribeCommands (snd (SubscribeEvents (snd (SubscribeEvents (NewBus n)))))),
     hub_reg = load_registry (cf_Devices c), hub_rules = rules, hub_out = []\<rparr>"

text \<open>Adapters publish events and HomeKit publishes commands; the engine runs its rules on an event;
  the reflecting goroutine records it; the dispatcher hands a command over.\<close>

inductive env_step :: "Hub \<Rightarrow> Hub \<Rightarrow> bool" where
  event: "env_step h (h\<lparr>hub_bus := PublishEvent (hub_bus h) e\<rparr>)"
| command: "env_step h (h\<lparr>hub_bus := PublishCommand (hub_bus h) c\<rparr>)"

inductive hub_step :: "string set \<Rightarrow> Hub \<Rightarrow> Hub \<Rightarrow> bool" for ids where
  engine: "ch_recv (evtSubs (hub_bus h) ! 0) = Some (e, ch)
    \<Longrightarrow> run_rules (Registry_State (hub_reg h)) (hub_rules h) e = (cmds, rules)
    \<Longrightarrow> hub_step ids h (h\<lparr>hub_bus := publish_all ((hub_bus h)\<lparr>evtSubs := (evtSubs (hub_bus h))[0 := ch]\<rparr>) cmds,
          hub_rules := rules\<rparr>)"
| reflect: "ch_recv (evtSubs (hub_bus h) ! 1) = Some (e, ch)
    \<Longrightarrow> hub_step ids h (h\<lparr>hub_bus := (hub_bus h)\<lparr>evtSubs := (evtSubs (hub_bus h))[1 := ch]\<rparr>,
          hub_reg := Registry_SetState (hub_reg h) (ev_DeviceID e) (ev_State e)\<rparr>)"
| dispatch: "ch_recv (cmdSubs (hub_bus h) ! 0) = Some (c, ch)
    \<Longrightarrow> hub_step ids h (h\<lparr>hub_bus := (hub_bus h)\<lparr>cmdSubs := (cmdSubs (hub_bus h))[0 := ch]\<rparr>,
          hub_out := hub_out h @ dispatch_command (hub_reg h) ids c\<rparr>)"

inductive reachable :: "ConfigFile \<Rightarrow> Rule list \<Rightarrow> int \<Rightarrow> Hub \<Rightarrow> bool" for c rules n where
  init: "reachable c rules n (hub_init c rules n)"
| env: "reachable c rules n h \<Longrightarrow> env_step h h' \<Longrightarrow> reachable c rules n h'"
| step: "reachable c rules n h \<Longrightarrow> hub_step (matter_ids (cf_Devices c)) h h' \<Longrightarrow> reachable c rules n h'"

inductive_cases env_stepE: "env_step h h'"
inductive_cases hub_stepE: "hub_step ids h h'"

lemma publish_all_simps [simp]:
  "evtSubs (publish_all b cmds) = evtSubs b" "buffer (publish_all b cmds) = buffer b"
  "length (cmdSubs (publish_all b cmds)) = length (cmdSubs b)"
  by (induction cmds arbitrary: b) (simp_all add: publish_all_def PublishCommand_def)

lemma Registry_Get_SetState [simp]: "Registry_Get (Registry_SetState r i s) = Registry_Get r"
  by (auto simp: Registry_Get_def Registry_SetState_def Let_def fun_eq_iff split: option.splits)

definition channels_ok :: "nat \<Rightarrow> Bus \<Rightarrow> bool" where
  "channels_ok cap b \<longleftrightarrow> buffer b = cap \<and> length (evtSubs b) = 2 \<and> length (cmdSubs b) = 1
    \<and> (\<forall>ch\<in>set (evtSubs b). length ch \<le> cap) \<and> (\<forall>ch\<in>set (cmdSubs b). length ch \<le> cap)"

lemma ch_send_bounded: "length ch \<le> cap \<Longrightarrow> length (ch_send cap ch m) \<le> cap"
  by (simp add: ch_send_def)

lemma channels_ok_publish:
  "channels_ok cap b \<Longrightarrow> channels_ok cap (PublishEvent b e)"
  "channels_ok cap b \<Longrightarrow> channels_ok cap (PublishCommand b c)"
  by (auto simp: channels_ok_def PublishEvent_def PublishCommand_def ch_send_bounded)

lemma channels_ok_publish_all: "channels_ok cap b \<Longrightarrow> channels_ok cap (publish_all b cmds)"
  by (induction cmds arbitrary: b) (simp_all add: publish_all_def channels_ok_publish)

lemma channels_ok_recv:
  assumes "channels_ok cap b"
  shows "i < 2 \<Longrightarrow> ch_recv (evtSubs b ! i) = Some (e, ch) \<Longrightarrow> channels_ok cap (b\<lparr>evtSubs := (evtSubs b)[i := ch]\<rparr>)"
    and "ch_recv (cmdSubs b ! 0) = Some (c, ch') \<Longrightarrow> channels_ok cap (b\<lparr>cmdSubs := (cmdSubs b)[0 := ch']\<rparr>)"
proof -
  have shorter: "length r \<le> length q" if "ch_recv q = Some (m, r)" for q r :: "'z list" and m
    using that by (cases q) auto
  show "channels_ok cap (b\<lparr>evtSubs := (evtSubs b)[i := ch]\<rparr>)" if "i < 2" "ch_recv (evtSubs b ! i) = Some (e, ch)"
  proof -
    have "length (evtSubs b ! i) \<le> cap" using assms that(1) by (simp add: channels_ok_def)
    with shorter [OF that(2)] have "length ch \<le> cap" by simp
    with assms show ?thesis by (auto simp: channels_ok_def dest: set_update_subset_insert [THEN subsetD])
  qed
  show "channels_ok cap (b\<lparr>cmdSubs := (cmdSubs b)[0 := ch']\<rparr>)" if "ch_recv (cmdSubs b ! 0) = Some (c, ch')"
  proof -
    have "length (cmdSubs b ! 0) \<le> cap" using assms by (simp add: channels_ok_def)
    with shorter [OF that] have "length ch' \<le> cap" by simp
    with assms show ?thesis by (auto simp: channels_ok_def dest: set_update_subset_insert [THEN subsetD])
  qed
qed

text \<open>A delivery that reached the party responsible for the device.\<close>

fun delivery_ok :: "(string \<rightharpoonup> Device) \<Rightarrow> delivery \<Rightarrow> bool" where
  "delivery_ok devs (ToAdapter a c) = (\<exists>d. devs (cmd_DeviceID c) = Some d \<and> dev_Integration d = a)"
| "delivery_ok devs (ToMatter i call) = (\<exists>d. devs i = Some d \<and> dev_Integration d = Matter)"

lemma validateDevices_keeps:
  "validateDevices m ds = Inr m' \<Longrightarrow> m i = Some d \<Longrightarrow> m' i = Some d"
proof (induction m ds rule: validateDevices.induct)
  case (2 m x ds)
  have "dev_ID (dc_Device x) \<noteq> i" using 2 by (auto simp: Let_def split: if_splits)
  with 2 show ?case by (simp add: Let_def fun_upd_other del: fun_upd_apply split: if_splits option.splits)
qed simp

lemma validateDevices_all:
  "validateDevices m ds = Inr m' \<Longrightarrow> d \<in> set ds \<Longrightarrow> m' (dev_ID (dc_Device d)) = Some (dc_Device d)"
proof (induction ds arbitrary: m)
  case (Cons x ds)
  then have rest: "validateDevices (m(dev_ID (dc_Device x) \<mapsto> dc_Device x)) ds = Inr m'"
    by (auto simp: Let_def split: if_splits option.splits)
  show ?case
  proof (cases "d = x")
    case True
    with validateDevices_keeps [OF rest] show ?thesis by simp
  next
    case False
    with Cons.IH [OF rest] Cons.prems(2) show ?thesis by simp
  qed
qed simp

lemma matter_device:
  assumes "validate c = None" "i \<in> matter_ids (cf_Devices c)"
  shows "\<exists>d. Registry_Get (load_registry (cf_Devices c)) i = Some d \<and> dev_Integration d = Matter"
proof -
  obtain m where m: "validateDevices (\<lambda>_. None) (cf_Devices c) = Inr m"
    using assms(1) by (auto simp: validate_def split: sum.splits)
  have "Registry_Get NewRegistry = (\<lambda>_. None)" by (simp add: Registry_Get_def NewRegistry_def fun_eq_iff)
  from validateDevices_ok [OF m this, of "matter_ids (cf_Devices c)"]
  have "Registry_Get (load_registry (cf_Devices c)) = m" by (simp add: load_registry_def)
  with assms(2) validateDevices_all [OF m] show ?thesis by (auto simp: matter_ids_def)
qed

lemma dispatch_ok:
  assumes "\<forall>i\<in>ids. \<exists>d. Registry_Get reg i = Some d \<and> dev_Integration d = Matter"
    and "x \<in> set (dispatch_command reg ids c)"
  shows "delivery_ok (Registry_Get reg) x"
  using assms by (auto simp: dispatch_command_def owner_def split: option.splits if_splits)

definition hub_ok :: "ConfigFile \<Rightarrow> nat \<Rightarrow> Hub \<Rightarrow> bool" where
  "hub_ok c cap h \<longleftrightarrow> channels_ok cap (hub_bus h)
    \<and> Registry_Get (hub_reg h) = Registry_Get (load_registry (cf_Devices c))
    \<and> (\<forall>r\<in>set (hub_rules h). rule_ok (device_ids c) r)
    \<and> (\<forall>x\<in>set (hub_out h). delivery_ok (Registry_Get (load_registry (cf_Devices c))) x)"

lemma hub_ok_env: "hub_ok c cap h \<Longrightarrow> env_step h h' \<Longrightarrow> hub_ok c cap h'"
  by (auto simp: hub_ok_def channels_ok_publish elim!: env_stepE)

lemma hub_ok_step:
  assumes "validate c = None" "hub_ok c cap h" "hub_step (matter_ids (cf_Devices c)) h h'"
  shows "hub_ok c cap h'"
  using assms(3)
proof cases
  case (engine e ch cmds rules)
  have "channels_ok cap (publish_all ((hub_bus h)\<lparr>evtSubs := (evtSubs (hub_bus h))[0 := ch]\<rparr>) cmds)"
    using assms(2) engine(2) by (intro channels_ok_publish_all channels_ok_recv(1)) (auto simp: hub_ok_def)
  moreover have "\<forall>r\<in>set rules. rule_ok (device_ids c) r"
    using run_rules_ok [OF _ engine(3)] assms(2) by (auto simp: hub_ok_def)
  ultimately show ?thesis using assms(2) by (simp add: engine(1) hub_ok_def)
next
  case (reflect e ch)
  have "channels_ok cap ((hub_bus h)\<lparr>evtSubs := (evtSubs (hub_bus h))[1 := ch]\<rparr>)"
    using assms(2) reflect(2) by (intro channels_ok_recv(1)) (auto simp: hub_ok_def)
  then show ?thesis using assms(2) by (simp add: reflect(1) hub_ok_def)
next
  case (dispatch x ch)
  have reg: "Registry_Get (hub_reg h) = Registry_Get (load_registry (cf_Devices c))"
    using assms(2) by (simp add: hub_ok_def)
  have "channels_ok cap ((hub_bus h)\<lparr>cmdSubs := (cmdSubs (hub_bus h))[0 := ch]\<rparr>)"
    using assms(2) dispatch(2) by (intro channels_ok_recv(2)) (auto simp: hub_ok_def)
  moreover have "\<forall>y\<in>set (dispatch_command (hub_reg h) (matter_ids (cf_Devices c)) x).
      delivery_ok (Registry_Get (load_registry (cf_Devices c))) y"
    using dispatch_ok [of "matter_ids (cf_Devices c)" "hub_reg h"] matter_device [OF assms(1)] by (simp add: reg)
  ultimately show ?thesis using assms(2) by (auto simp: dispatch(1) hub_ok_def)
qed

lemma reachable_ok:
  assumes "validate c = None" "load_rules (cf_Rules c) = Some rules" "reachable c rules n h"
  shows "hub_ok c (buffer (NewBus n)) h"
  using assms(3)
proof induction
  case init
  have "\<forall>r\<in>set rules. rule_ok (device_ids c) r" using validate_ok(1) [OF assms(1)] assms(2) by simp
  then show ?case
    by (simp add: hub_ok_def hub_init_def channels_ok_def NewBus_def SubscribeEvents_def SubscribeCommands_def)
qed (blast intro: hub_ok_env hub_ok_step [OF assms(1)])+

text \<open>C19: In every state that a hub with a validated configuration can reach, whatever adapters and
  HomeKit publish, each channel's backlog is within its buffer, the set of devices is the configured
  one, every rule is still well-formed, and everything that was ever delivered went to the adapter of
  the addressed device's integration or to the driver of a Matter device.\<close>

theorem hub_invariant:
  assumes "validate c = None" "load_rules (cf_Rules c) = Some rules" "reachable c rules n h"
  shows "(\<forall>ch\<in>set (evtSubs (hub_bus h)). length ch \<le> buffer (NewBus n))
    \<and> (\<forall>ch\<in>set (cmdSubs (hub_bus h)). length ch \<le> buffer (NewBus n))
    \<and> Registry_Get (hub_reg h) = Registry_Get (load_registry (cf_Devices c))
    \<and> (\<forall>r\<in>set (hub_rules h). rule_ok (device_ids c) r)
    \<and> (\<forall>x\<in>set (hub_out h). delivery_ok (Registry_Get (load_registry (cf_Devices c))) x)"
  using reachable_ok [OF assms] by (auto simp: hub_ok_def channels_ok_def)

section \<open>Delivery\<close>

lemma run_rules_length:
  "run_rules st rs e = (cmds, rs') \<Longrightarrow> length cmds \<le> length rs \<and> length rs' = length rs"
proof (induction rs arbitrary: cmds rs')
  case (Cons r rs)
  obtain c1 r1 where 1: "run_rule st r e = (c1, r1)" by fastforce
  then have "length c1 \<le> 1"
    by (cases r) (auto simp: run_mirror_def run_button_def run_cycle_def run_threshold_def Let_def
        split: if_splits option.splits)
  moreover obtain c2 r2 where 2: "run_rules st rs e = (c2, r2)" by fastforce
  ultimately show ?case using Cons.IH [OF 2] Cons.prems 1 by auto
qed simp

lemma publish_all_room:
  "cmdSubs b = [q] \<Longrightarrow> length q + length cmds \<le> buffer b \<Longrightarrow> cmdSubs (publish_all b cmds) = [q @ cmds]"
proof (induction cmds arbitrary: b q)
  case (Cons c cmds)
  then have "cmdSubs (PublishCommand b c) = [q @ [c]]" by (simp add: PublishCommand_def ch_send_def)
  from Cons.IH [OF this] Cons.prems(2) show ?case by (simp add: publish_all_def PublishCommand_def)
qed (simp add: publish_all_def)

lemma drain_commands:
  "cmdSubs (hub_bus h) = [cs] \<Longrightarrow>
    (hub_step ids)\<^sup>*\<^sup>* h (h\<lparr>hub_bus := (hub_bus h)\<lparr>cmdSubs := [[]]\<rparr>,
      hub_out := hub_out h @ concat (List.map (dispatch_command (hub_reg h) ids) cs)\<rparr>)"
proof (induction cs arbitrary: h)
  case Nil
  then have "(hub_bus h)\<lparr>cmdSubs := [[]]\<rparr> = hub_bus h" by (cases "hub_bus h") simp
  then show ?case by simp
next
  case (Cons c cs)
  let ?h = "h\<lparr>hub_bus := (hub_bus h)\<lparr>cmdSubs := (cmdSubs (hub_bus h))[0 := cs]\<rparr>,
    hub_out := hub_out h @ dispatch_command (hub_reg h) ids c\<rparr>"
  have "hub_step ids h ?h" using Cons.prems by (intro hub_step.dispatch) simp
  also have "(hub_step ids)\<^sup>*\<^sup>* ?h (?h\<lparr>hub_bus := (hub_bus ?h)\<lparr>cmdSubs := [[]]\<rparr>,
      hub_out := hub_out ?h @ concat (List.map (dispatch_command (hub_reg ?h) ids) cs)\<rparr>)"
    by (rule Cons.IH) (simp add: Cons.prems)
  finally show ?case by simp
qed

lemma serve_events:
  assumes "cmdSubs (hub_bus h) = [[]]" "evtSubs (hub_bus h) = [es, rs]" "length (hub_rules h) \<le> buffer (hub_bus h)"
  shows "\<exists>h'. (hub_step ids)\<^sup>*\<^sup>* h h' \<and> evtSubs (hub_bus h') = [[], rs] \<and> cmdSubs (hub_bus h') = [[]]
    \<and> hub_out h' = hub_out h @ concat (List.map (dispatch_command (hub_reg h) ids)
        (fst (issue (hub_rules h) (List.map (\<lambda>e. (Registry_State (hub_reg h), e)) es))))"
  using assms
proof (induction es arbitrary: h)
  case (Cons e es)
  obtain cmds rules where run: "run_rules (Registry_State (hub_reg h)) (hub_rules h) e = (cmds, rules)" by fastforce
  let ?b = "publish_all ((hub_bus h)\<lparr>evtSubs := (evtSubs (hub_bus h))[0 := es]\<rparr>) cmds"
  let ?h1 = "h\<lparr>hub_bus := ?b, hub_rules := rules\<rparr>"
  have step: "hub_step ids h ?h1" using Cons.prems(2) run by (intro hub_step.engine) simp_all
  have cmds: "cmdSubs ?b = [cmds]"
    using publish_all_room [of "(hub_bus h)\<lparr>evtSubs := (evtSubs (hub_bus h))[0 := es]\<rparr>" "[]" cmds]
      run_rules_length [OF run] Cons.prems(1,3) by simp
  let ?h2 = "?h1\<lparr>hub_bus := ?b\<lparr>cmdSubs := [[]]\<rparr>,
    hub_out := hub_out h @ concat (List.map (dispatch_command (hub_reg h) ids) cmds)\<rparr>"
  have drain: "(hub_step ids)\<^sup>*\<^sup>* ?h1 ?h2" using drain_commands [of ?h1 cmds ids] cmds by simp
  have "cmdSubs (hub_bus ?h2) = [[]]" "evtSubs (hub_bus ?h2) = [es, rs]" "length (hub_rules ?h2) \<le> buffer (hub_bus ?h2)"
    using Cons.prems run_rules_length [OF run] by simp_all
  from Cons.IH [OF this] obtain h' where h': "(hub_step ids)\<^sup>*\<^sup>* ?h2 h'" "evtSubs (hub_bus h') = [[], rs]"
    "cmdSubs (hub_bus h') = [[]]"
    and out: "hub_out h' = hub_out ?h2 @ concat (List.map (dispatch_command (hub_reg h) ids)
        (fst (issue rules (List.map (\<lambda>e. (Registry_State (hub_reg h), e)) es))))" by auto
  have "(hub_step ids)\<^sup>*\<^sup>* h h'"
    using step drain h'(1) by (meson converse_rtranclp_into_rtranclp rtranclp_trans)
  moreover have "hub_out h' = hub_out h @ concat (List.map (dispatch_command (hub_reg h) ids)
      (fst (issue (hub_rules h) (List.map (\<lambda>e. (Registry_State (hub_reg h), e)) (e # es)))))"
    using out run by (simp split: prod.split)
  ultimately show ?case using h'(2,3) by blast
qed auto

text \<open>C17: As long as there are no more rules than a channel has room for, no waiting event is lost:
  from every reachable state the engine and the dispatcher can serve their channels empty, and then
  every waiting command and every command the rules issue for the waiting events, in order, has been
  delivered.\<close>

theorem hub_delivers:
  assumes "validate c = None" "load_rules (cf_Rules c) = Some rules" "reachable c rules n h"
    and "length (hub_rules h) \<le> buffer (NewBus n)"
  shows "\<exists>h'. (hub_step (matter_ids (cf_Devices c)))\<^sup>*\<^sup>* h h'
    \<and> evtSubs (hub_bus h') ! 0 = [] \<and> cmdSubs (hub_bus h') = [[]]
    \<and> hub_out h' = hub_out h @ concat (List.map (dispatch_command (hub_reg h) (matter_ids (cf_Devices c)))
        (cmdSubs (hub_bus h) ! 0
         @ fst (issue (hub_rules h) (List.map (\<lambda>e. (Registry_State (hub_reg h), e)) (evtSubs (hub_bus h) ! 0)))))"
proof -
  let ?ids = "matter_ids (cf_Devices c)"
  have ok: "channels_ok (buffer (NewBus n)) (hub_bus h)"
    using reachable_ok [OF assms(1-3)] by (simp add: hub_ok_def)
  then obtain es rs cs where q: "evtSubs (hub_bus h) = [es, rs]" "cmdSubs (hub_bus h) = [cs]"
    by (auto simp: channels_ok_def length_Suc_conv numeral_2_eq_2)
  let ?h = "h\<lparr>hub_bus := (hub_bus h)\<lparr>cmdSubs := [[]]\<rparr>,
    hub_out := hub_out h @ concat (List.map (dispatch_command (hub_reg h) ?ids) cs)\<rparr>"
  have drain: "(hub_step ?ids)\<^sup>*\<^sup>* h ?h" using drain_commands [OF q(2)] .
  have "cmdSubs (hub_bus ?h) = [[]]" "evtSubs (hub_bus ?h) = [es, rs]" "length (hub_rules ?h) \<le> buffer (hub_bus ?h)"
    using q(1) assms(4) ok by (simp_all add: channels_ok_def)
  from serve_events [OF this, of ?ids] drain show ?thesis
    by (auto simp: q intro: rtranclp_trans)
qed

section \<open>A hub\<close>

definition example_device :: "string \<Rightarrow> Integration \<Rightarrow> string \<Rightarrow> DeviceConfig" where
  "example_device i integ typ = \<lparr>dc_Device = \<lparr>dev_ID = i, dev_Name = i, dev_Integration = integ, dev_Type = typ,
     dev_Addr = ''a'', dev_Endpoint = 0, dev_Decoupled = False, dev_Features = []\<rparr>,
     dc_Driver = [], dc_Triggers = (\<lambda>_. None), dc_GoMatter = None, dc_RF = None\<rparr>"

definition example_config :: ConfigFile where
  "example_config = \<lparr>cf_Devices = [example_device ''wall'' Zigbee TypeSwitch, example_device ''fan'' MQTT TypeFan],
     cf_Rules = [\<lparr>rc_Type = ''mirror'', rc_Src = ''wall'', rc_Dst = ''fan'', rc_Press = [], rc_Action = [],
       rc_Value = 0, rc_States = [], rc_Power = [], rc_Above = None, rc_Below = None\<rparr>]\<rparr>"

definition wall_on :: Event where
  "wall_on = \<lparr>ev_DeviceID = ''wall'', ev_Kind = EventStateChanged, ev_State = zeroState\<lparr>On := Some True\<rparr>, ev_Press = []\<rparr>"

lemma example_valid: "validate example_config = None"
  by (simp add: validate_def example_config_def example_device_def validateDevice_def validTypes_def
      validateRule_def Let_def)

lemma example_rules: "load_rules (cf_Rules example_config) = Some [Mirror ''wall'' ''fan'']"
  by (simp add: example_config_def rule_of_def MirrorRule_def)

lemma example_registry:
  "Registry_Get (load_registry (cf_Devices example_config)) ''fan'' = Some (dc_Device (example_device ''fan'' MQTT TypeFan))"
  by (simp add: load_registry_def example_config_def Registry_Get_Add example_device_def)
    (simp add: Registry_Get_def NewRegistry_def)

definition example_hub :: Hub where
  "example_hub = (hub_init example_config [Mirror ''wall'' ''fan''] 64)
     \<lparr>hub_bus := PublishEvent (hub_bus (hub_init example_config [Mirror ''wall'' ''fan''] 64)) wall_on\<rparr>"

lemma example_reachable: "reachable example_config [Mirror ''wall'' ''fan''] 64 example_hub"
  unfolding example_hub_def by (rule reachable.env [OF reachable.init]) (rule env_step.event)

lemma example_issue:
  "fst (issue [Mirror ''wall'' ''fan''] [(st, wall_on)]) = [SetOn ''fan'' True]"
  by (simp add: run_mirror_def wall_on_def)

theorem config_commands_typed_witness:
  "dispatch_command (load_registry (cf_Devices example_config)) (matter_ids (cf_Devices example_config)) (SetOn ''fan'' True)
   = [ToAdapter MQTT (SetOn ''fan'' True)]"
proof -
  let ?reg = "load_registry (cf_Devices example_config)" and ?ids = "matter_ids (cf_Devices example_config)"
  have "SetOn ''fan'' True \<in> set (fst (issue [Mirror ''wall'' ''fan''] [(\<lambda>_. None, wall_on)]))"
    by (simp add: example_issue del: issue.simps)
  with config_commands_typed [OF example_valid] example_rules
  have "\<exists>d. Registry_Get ?reg (cmd_DeviceID (SetOn ''fan'' True)) = Some d
    \<and> dispatch_command ?reg ?ids (SetOn ''fan'' True) = [if dev_Integration d = Matter
        then ToMatter (cmd_DeviceID (SetOn ''fan'' True)) (applyMatter (SetOn ''fan'' True))
        else ToAdapter (dev_Integration d) (SetOn ''fan'' True)]"
    by (metis option.inject)
  with example_registry show ?thesis by (auto simp: SetOn_def example_device_def)
qed

theorem hub_invariant_witness:
  "length (evtSubs (hub_bus example_hub) ! 0) \<le> 64"
proof -
  have "evtSubs (hub_bus example_hub) ! 0 \<in> set (evtSubs (hub_bus example_hub))"
    by (rule nth_mem) (simp add: example_hub_def hub_init_def NewBus_def SubscribeEvents_def
        SubscribeCommands_def PublishEvent_def)
  then show ?thesis
    using hub_invariant [OF example_valid example_rules example_reachable] by (simp add: NewBus_def)
qed

theorem hub_delivers_witness:
  "\<exists>h'. (hub_step (matter_ids (cf_Devices example_config)))\<^sup>*\<^sup>* example_hub h'
    \<and> hub_out h' = [ToAdapter MQTT (SetOn ''fan'' True)]"
proof -
  have reg: "hub_reg example_hub = load_registry (cf_Devices example_config)"
    and rules: "hub_rules example_hub = [Mirror ''wall'' ''fan'']" and out: "hub_out example_hub = []"
    and q: "evtSubs (hub_bus example_hub) ! 0 = [wall_on]" "cmdSubs (hub_bus example_hub) ! 0 = []"
    by (simp_all add: example_hub_def hub_init_def NewBus_def SubscribeEvents_def SubscribeCommands_def
        PublishEvent_def ch_send_def)
  have "dispatch_command (hub_reg example_hub) (matter_ids (cf_Devices example_config)) (SetOn ''fan'' True)
      = [ToAdapter MQTT (SetOn ''fan'' True)]"
    unfolding reg
    by (subst dispatch_routed [of _ _ "dc_Device (example_device ''fan'' MQTT TypeFan)"])
      (simp_all add: example_registry [simplified] SetOn_def routed_def, simp_all add: example_device_def)
  moreover have "length (hub_rules example_hub) \<le> buffer (NewBus 64)" by (simp add: rules NewBus_def)
  ultimately show ?thesis
    using hub_delivers [OF example_valid example_rules example_reachable]
    by (auto simp: rules out q example_issue simp del: issue.simps)
qed

end
