(* ===== verification/Dates.thy ===== *)
theory Dates
  imports Go_Strings "HOL-Library.Product_Lexorder"
begin

text \<open>
  What the modelled code uses of Go's package \<^verbatim>\<open>time\<close> at midnight UTC: dates as year, month and
  day in the proleptic Gregorian calendar, the normalising constructor \<^verbatim>\<open>Date\<close>, \<^verbatim>\<open>AddDate\<close>,
  \<^verbatim>\<open>Weekday\<close>, and the layouts \<^verbatim>\<open>2006-01-02\<close>, \<^verbatim>\<open>01-02\<close> and \<^verbatim>\<open>2006-01-02T15:04\<close>. The order of the
  triples is the order of the dates. The lemmas tie the calendar to the count of days.
\<close>

section \<open>Calendar\<close>

type_synonym date = "int \<times> int \<times> int"

definition leap :: "int \<Rightarrow> bool" where
  "leap y = (y mod 4 = 0 \<and> (y mod 100 \<noteq> 0 \<or> y mod 400 = 0))"

definition days_in :: "int \<Rightarrow> int \<Rightarrow> int" where
  "days_in y m = (if m = 2 then (if leap y then 29 else 28) else if m \<in> {4, 6, 9, 11} then 30 else 31)"

fun valid :: "date \<Rightarrow> bool" where
  "valid (y, m, d) = (1 \<le> m \<and> m \<le> 12 \<and> 1 \<le> d \<and> d \<le> days_in y m)"

fun next_day :: "date \<Rightarrow> date" where
  "next_day (y, m, d) =
     (if d < days_in y m then (y, m, d + 1) else if m < 12 then (y, m + 1, 1) else (y + 1, 1, 1))"

fun prev_day :: "date \<Rightarrow> date" where
  "prev_day (y, m, d) =
     (if 1 < d then (y, m, d - 1) else if 1 < m then (y, m - 1, days_in y (m - 1)) else (y - 1, 12, 31))"

text \<open>\<^verbatim>\<open>time.Date\<close>: the month overflows into the year, the day into the neighbouring months.\<close>

definition time_Date :: "int \<Rightarrow> int \<Rightarrow> int \<Rightarrow> date" where
  "time_Date y m d =
     (let first = (y + (m - 1) div 12, (m - 1) mod 12 + 1, 1) in
      if 1 \<le> d then (next_day ^^ nat (d - 1)) first else (prev_day ^^ nat (1 - d)) first)"

fun AddDate :: "date \<Rightarrow> int \<Rightarrow> int \<Rightarrow> int \<Rightarrow> date" where
  "AddDate (y, m, d) years months days = time_Date (y + years) (m + months) (d + days)"

text \<open>Days since 0001-01-01, a Monday.\<close>

definition days_before_month :: "int \<Rightarrow> int \<Rightarrow> int" where
  "days_before_month y m =
     (if m \<le> 1 then 0 else if m = 2 then 31
      else (if leap y then 1 else 0) +
        (if m = 3 then 59 else if m = 4 then 90 else if m = 5 then 120 else if m = 6 then 151
         else if m = 7 then 181 else if m = 8 then 212 else if m = 9 then 243 else if m = 10 then 273
         else if m = 11 then 304 else 334))"

fun day_number :: "date \<Rightarrow> int" where
  "day_number (y, m, d) =
     365 * (y - 1) + (y - 1) div 4 - (y - 1) div 100 + (y - 1) div 400 + days_before_month y m + d - 1"

text \<open>Sunday is 0.\<close>

definition Weekday :: "date \<Rightarrow> int" where
  "Weekday t = (day_number t + 1) mod 7"

lemma days_in_range: "28 \<le> days_in y m \<and> days_in y m \<le> 31"
  by (simp add: days_in_def)

lemma valid_next: "valid t \<Longrightarrow> valid (next_day t)"
  using days_in_range by (cases t) (auto simp: order_trans [of 1 28] split: if_splits)

lemma next_greater: "valid t \<Longrightarrow> t < next_day t"
  by (cases t) auto

lemma month_cases:
  assumes "1 \<le> m" "m \<le> (12 :: int)"
  shows "m \<in> {1, 2, 3, 4, 5, 6, 7, 8, 9, 10, 11, 12}"
  using assms by (simp, presburger)

lemma div_pred:
  assumes "0 < (n :: int)"
  shows "y div n = (y - 1) div n + (if y mod n = 0 then 1 else 0)"
proof (cases "y mod n = 0")
  case True
  then have "y - 1 = n * (y div n - 1) + (n - 1)" using mult_div_mod_eq [of n y] by (simp add: algebra_simps)
  then have "(y - 1) div n = y div n - 1" by (rule int_div_pos_eq) (use assms in simp_all)
  with True show ?thesis by simp
next
  case False
  have "0 \<le> y mod n" "y mod n < n" using assms by simp_all
  with False have "0 \<le> y mod n - 1" by simp
  moreover have "y - 1 = n * (y div n) + (y mod n - 1)" using mult_div_mod_eq [of n y] by simp
  moreover have "y mod n - 1 < n" using \<open>y mod n < n\<close> by simp
  ultimately have "(y - 1) div n = y div n" using int_div_pos_eq by blast
  with False show ?thesis by simp
qed

lemma leap_days: "(y :: int) div 4 - y div 100 + y div 400
    = (y - 1) div 4 - (y - 1) div 100 + (y - 1) div 400 + (if leap y then 1 else 0)"
proof -
  have "y mod 400 mod 100 = y mod 100" "y mod 100 mod 4 = y mod 4" by (simp_all add: mod_mod_cancel)
  then have imp: "y mod 400 = 0 \<longrightarrow> y mod 100 = 0" "y mod 100 = 0 \<longrightarrow> y mod 4 = 0"
    by (metis mod_0)+
  have sum: "a - b + c = a' - b' + c' + (if P \<and> (\<not> Q \<or> R) then 1 else 0)"
    if "R \<longrightarrow> Q" "Q \<longrightarrow> P" "a = a' + (if P then 1 else 0)" "b = b' + (if Q then 1 else 0)"
      "c = c' + (if R then 1 else 0)" for a b c a' b' c' :: int and P Q R
    using that by (cases P; cases Q; cases R; simp only: simp_thms if_True if_False)
  have "y div 4 = (y - 1) div 4 + (if y mod 4 = 0 then 1 else 0)"
    "y div 100 = (y - 1) div 100 + (if y mod 100 = 0 then 1 else 0)"
    "y div 400 = (y - 1) div 400 + (if y mod 400 = 0 then 1 else 0)"
    by (rule div_pred, rule zero_less_numeral)+
  from sum [OF imp this] show ?thesis unfolding leap_def .
qed

lemma days_before_next:
  "1 \<le> m \<Longrightarrow> m < 12 \<Longrightarrow> days_before_month y (m + 1) = days_before_month y m + days_in y m"
proof -
  assume "1 \<le> m" "m < 12"
  then have "m \<in> {1, 2, 3, 4, 5, 6, 7, 8, 9, 10, 11}" by (simp, presburger)
  then show ?thesis by (auto simp: days_before_month_def days_in_def)
qed

lemma day_number_next: "valid t \<Longrightarrow> day_number (next_day t) = day_number t + 1"
proof (cases t)
  case (fields y m d)
  assume v: "valid t"
  show ?thesis
  proof (cases "d < days_in y m")
    case True
    then show ?thesis by (simp add: fields)
  next
    case False
    then have d: "d = days_in y m" using v by (simp add: fields)
    show ?thesis
    proof (cases "m < 12")
      case True
      with v days_before_next [of m y] show ?thesis by (simp add: fields d)
    next
      case False
      then have "m = 12" using v by (simp add: fields)
      with leap_days [of y] show ?thesis
        by (simp add: fields d days_before_month_def days_in_def)
    qed
  qed
qed

lemma next_day_least:
  assumes "valid t" "valid u" "t < u"
  shows "next_day t \<le> u"
proof (cases t)
  case (fields y m d)
  obtain y' m' d' where u: "u = (y', m', d')" by (cases u)
  show ?thesis
  proof (cases "y = y' \<and> m = m'")
    case True
    with assms show ?thesis by (auto simp: fields u)
  next
    case False
    with assms have "y < y' \<or> (y = y' \<and> m < m')" by (auto simp: fields u)
    with assms(1,2) show ?thesis by (auto simp: fields u)
  qed
qed

section \<open>Adding days and months\<close>

lemma next_days:
  "valid t \<Longrightarrow> valid ((next_day ^^ n) t) \<and> day_number ((next_day ^^ n) t) = day_number t + int n"
  by (induction n) (simp_all add: valid_next day_number_next del: next_day.simps valid.simps day_number.simps)

lemma next_days_greater: "valid t \<Longrightarrow> 0 < n \<Longrightarrow> t < (next_day ^^ n) t"
proof (induction n)
  case (Suc n)
  have "valid ((next_day ^^ n) t)" using next_days Suc.prems(1) by blast
  then have "(next_day ^^ n) t < next_day ((next_day ^^ n) t)" by (rule next_greater)
  with Suc show ?case by (cases n) (auto simp del: next_day.simps valid.simps intro: less_trans)
qed simp

lemma day_of_month: "1 \<le> m \<Longrightarrow> m \<le> 12 \<Longrightarrow> int k < days_in y m \<Longrightarrow> (next_day ^^ k) (y, m, 1) = (y, m, 1 + int k)"
  by (induction k) auto

lemma time_Date_valid:
  assumes "valid (y, m, d)"
  shows "time_Date y m d = (y, m, d)"
proof -
  have "(m - 1) div 12 = 0" "(m - 1) mod 12 = m - 1" using assms by (simp_all add: div_pos_pos_trivial)
  then show ?thesis using assms day_of_month [of m "nat (d - 1)" y] by (simp add: time_Date_def)
qed

lemma time_Date_month:
  "time_Date y m 1 = (y + (m - 1) div 12, (m - 1) mod 12 + 1, 1)"
  by (simp add: time_Date_def)

lemma AddDate_days: "valid t \<Longrightarrow> AddDate t 0 0 (int n) = (next_day ^^ n) t"
proof (cases t)
  case (fields y m d)
  assume v: "valid t"
  then have t: "(next_day ^^ nat (d - 1)) (y, m, 1) = t"
    using day_of_month [of m "nat (d - 1)" y] by (simp add: fields)
  have "(m - 1) div 12 = 0" "(m - 1) mod 12 = m - 1" using v by (simp_all add: fields div_pos_pos_trivial)
  moreover have "1 \<le> d" using v by (simp add: fields)
  then have "nat (d + int n - 1) = n + nat (d - 1)" by linarith
  ultimately show ?thesis
    using v t by (simp add: fields time_Date_def funpow_add del: next_day.simps)
qed

lemma last_of_month:
  assumes "1 \<le> m" "m \<le> 12"
  shows "AddDate (y, m, 1) 0 1 (- 1) = (y, m, days_in y m)"
proof (cases "m = 12")
  case True
  then show ?thesis by (simp add: time_Date_def days_in_def)
next
  case False
  with assms have "m div 12 = 0" "m mod 12 = m" by (simp_all add: div_pos_pos_trivial)
  then show ?thesis using assms by (simp add: time_Date_def)
qed

section \<open>Layouts\<close>

definition Parse_01_02 :: "bytes \<Rightarrow> (int \<times> int) option" where
  "Parse_01_02 s =
     (if length s \<noteq> 5 \<or> s ! 2 \<noteq> 0x2D then None
      else case (digits_value 0 (take 2 s), digits_value 0 (drop 3 s)) of
        (Some m, Some d) \<Rightarrow> if valid (0, int m, int d) then Some (int m, int d) else None
      | _ \<Rightarrow> None)"

definition Parse_date :: "bytes \<Rightarrow> date option" where
  "Parse_date s =
     (if length s \<noteq> 10 \<or> s ! 4 \<noteq> 0x2D \<or> s ! 7 \<noteq> 0x2D then None
      else case (digits_value 0 (take 4 s), digits_value 0 (take 2 (drop 5 s)), digits_value 0 (drop 8 s)) of
        (Some y, Some m, Some d) \<Rightarrow>
          if valid (int y, int m, int d) then Some (int y, int m, int d) else None
      | _ \<Rightarrow> None)"

text \<open>The part \<^verbatim>\<open>T15:04\<close> that follows the date in the longer layout, when all is two digits wide.\<close>

definition Parse_clock :: "bytes \<Rightarrow> (nat \<times> nat) option" where
  "Parse_clock s =
     (if length s \<noteq> 6 \<or> s ! 0 \<noteq> 0x54 \<or> s ! 3 \<noteq> 0x3A then None
      else case (digits_value 0 (take 2 (drop 1 s)), digits_value 0 (drop 4 s)) of
        (Some h, Some mi) \<Rightarrow> if h < 24 \<and> mi < 60 then Some (h, mi) else None
      | _ \<Rightarrow> None)"

fun Format_date :: "date \<Rightarrow> bytes" where
  "Format_date (y, m, d) = pad 4 (nat y) @ 0x2D # pad 2 (nat m) @ 0x2D # pad 2 (nat d)"

definition Format_01_02 :: "int \<Rightarrow> int \<Rightarrow> bytes" where
  "Format_01_02 m d = pad 2 (nat m) @ 0x2D # pad 2 (nat d)"

lemma field_lengths:
  assumes "valid (y, m, d)"
  shows "length (pad 2 (nat m)) = 2" "length (pad 2 (nat d)) = 2"
proof -
  have "m \<le> 12" "d \<le> 31" using assms days_in_range [of y m] by auto
  then have "nat m < 10 ^ 2" "nat d < 10 ^ 2" by simp_all
  then show "length (pad 2 (nat m)) = 2" "length (pad 2 (nat d)) = 2" by (simp_all only: length_pad zero_less_numeral)
qed

lemma year_length: "0 \<le> y \<Longrightarrow> y < 10000 \<Longrightarrow> length (pad 4 (nat y)) = 4"
  by (rule length_pad) simp_all

lemma length_Format: "valid (y, m, d) \<Longrightarrow> 0 \<le> y \<Longrightarrow> y < 10000 \<Longrightarrow> length (Format_date (y, m, d)) = 10"
  using field_lengths [of y m d] year_length [of y] by simp

lemma Parse_Format:
  assumes "valid (y, m, d)" "0 \<le> y" "y < 10000"
  shows "Parse_date (Format_date (y, m, d)) = Some (y, m, d)"
proof -
  have "length (pad 4 (nat y)) = 4" "length (pad 2 (nat m)) = 2" "length (pad 2 (nat d)) = 2"
    using field_lengths [OF assms(1)] year_length [OF assms(2,3)] by simp_all
  then show ?thesis
    using assms by (simp add: Parse_date_def nth_append digits_value_pad)
qed

lemma Parse_Format_01_02:
  assumes "valid (0, m, d)"
  shows "Parse_01_02 (Format_01_02 m d) = Some (m, d)"
proof -
  have "length (pad 2 (nat m)) = 2" "length (pad 2 (nat d)) = 2"
    using field_lengths [OF assms] by simp_all
  then show ?thesis
    using assms by (simp add: Parse_01_02_def Format_01_02_def nth_append digits_value_pad)
qed

lemma Parse_01_02_valid: "Parse_01_02 s = Some (m, d) \<Longrightarrow> valid (0, m, d)"
  by (auto simp: Parse_01_02_def split: if_splits option.splits prod.splits)

lemma Parse_date_valid: "Parse_date s = Some t \<Longrightarrow> valid t \<and> 0 \<le> fst t \<and> length s = 10"
  by (auto simp: Parse_date_def split: if_splits option.splits prod.splits)

end
