(* ===== verification/Recur.thy ===== *)
theory Recur
  imports Dates
begin

text \<open>
  The recurrence rules of planner cards (\<^verbatim>\<open>planner/internal/store/recur.go\<close> and the date checks of
  \<^verbatim>\<open>cards.go\<close>): validation, the next occurrence after a due date, and the completion of a rule
  from a due date. A rule and a due date are strings of bytes, as the code keeps them. A loop that
  need not end in the code is a partial function, None for one that never returns.
\<close>

datatype recur_error = DailyArg | EveryRange | WeeklyRange | MonthlyRange | YearlyFormat | UnknownRule
  | NoRule | BadDue | NoNext | DueRequired | SlicePanic

abbreviation recurAllWeekdays :: int where "recurAllWeekdays \<equiv> 0x7F"

definition ValidateRecur :: "bytes \<Rightarrow> recur_error + bytes" where
  "ValidateRecur rule =
     (let rule = TrimSpace rule in
      if rule = [] then Inr []
      else
        let (kind, arg, _) = Cut rule 0x3A in
        if kind = ascii ''daily'' then
          (if arg \<noteq> [] then Inl DailyArg else Inr (ascii ''daily''))
        else if kind = ascii ''every'' then
          (case Atoi arg of
             None \<Rightarrow> Inl EveryRange
           | Some n \<Rightarrow> if n < 1 \<or> 365 < n then Inl EveryRange else Inr (ascii ''every:'' @ Itoa n))
        else if kind = ascii ''weekly'' then
          (case Atoi arg of
             None \<Rightarrow> Inl WeeklyRange
           | Some m \<Rightarrow> if m \<le> 0 \<or> recurAllWeekdays < m then Inl WeeklyRange else Inr (ascii ''weekly:'' @ Itoa m))
        else if kind = ascii ''monthly'' then
          (case Atoi arg of
             None \<Rightarrow> Inl MonthlyRange
           | Some d \<Rightarrow> if d < 1 \<or> 31 < d then Inl MonthlyRange else Inr (ascii ''monthly:'' @ Itoa d))
        else if kind = ascii ''yearly'' then
          (case Parse_01_02 arg of
             None \<Rightarrow> Inl YearlyFormat
           | Some (m, d) \<Rightarrow> Inr (ascii ''yearly:'' @ Format_01_02 m d))
        else Inl UnknownRule)"

definition validDate :: "bytes \<Rightarrow> bool" where
  "validDate s = (Parse_date s \<noteq> None \<and> length s = 10)"

definition validDateTime :: "bytes \<Rightarrow> bool" where
  "validDateTime s = (length s = 16 \<and> Parse_date (take 10 s) \<noteq> None \<and> Parse_clock (drop 10 s) \<noteq> None)"

definition validDue :: "bytes \<Rightarrow> bool" where
  "validDue s = (validDate s \<or> validDateTime s)"

definition isoWeekdayBit :: "date \<Rightarrow> nat" where
  "isoWeekdayBit t = nat ((Weekday t + 6) mod 7)"

definition clampDay :: "int \<Rightarrow> int \<Rightarrow> int \<Rightarrow> date" where
  "clampDay year month day =
     (let first = time_Date year month 1;
          last = snd (snd (AddDate first 0 1 (- 1)));
          day = (if last < day then last else day) in
      time_Date (fst first) (fst (snd first)) day)"

text \<open>The zero \<^verbatim>\<open>time.Time\<close>, which \<^verbatim>\<open>IsZero\<close> recognises.\<close>

abbreviation zeroTime :: date where "zeroTime \<equiv> (1, 1, 1)"

text \<open>The loops \<^verbatim>\<open>for !next.After(d)\<close>.\<close>

partial_function (option) push_months :: "int \<Rightarrow> date \<Rightarrow> date \<Rightarrow> date option" where
  "push_months want d nxt =
     (if d < nxt then Some nxt else push_months want d (clampDay (fst nxt) (fst (snd nxt) + 1) want))"

partial_function (option) push_years :: "int \<Rightarrow> int \<Rightarrow> date \<Rightarrow> date \<Rightarrow> date option" where
  "push_years month day d nxt =
     (if d < nxt then Some nxt else push_years month day d (clampDay (fst nxt + 1) month day))"

definition weekly_next :: "int \<Rightarrow> date \<Rightarrow> date" where
  "weekly_next wdays d =
     (case find (\<lambda>i. wdays AND push_bit (isoWeekdayBit (AddDate d 0 0 (int i))) 1 \<noteq> 0) [1..<8] of
        None \<Rightarrow> zeroTime
      | Some i \<Rightarrow> AddDate d 0 0 (int i))"

text \<open>The \<^verbatim>\<open>switch kind\<close> on a rule that was validated; \<^verbatim>\<open>v, _ := f()\<close> is zero on an error.\<close>

abbreviation or_zero :: "int option \<Rightarrow> int" where
  "or_zero x \<equiv> (case x of None \<Rightarrow> 0 | Some v \<Rightarrow> v)"

definition next_date :: "bytes \<Rightarrow> bytes \<Rightarrow> date \<Rightarrow> date option" where
  "next_date kind arg d =
     (if kind = ascii ''daily'' then Some (AddDate d 0 0 1)
      else if kind = ascii ''every'' then Some (AddDate d 0 0 (or_zero (Atoi arg)))
      else if kind = ascii ''weekly'' then Some (weekly_next (or_zero (Atoi arg)) d)
      else if kind = ascii ''monthly'' then
        (let want = or_zero (Atoi arg) in
         push_months want d (clampDay (fst d) (fst (snd d) + 1) want))
      else if kind = ascii ''yearly'' then
        (let (m, k) = (case Parse_01_02 arg of None \<Rightarrow> (1, 1) | Some md \<Rightarrow> md) in
         push_years m k d (clampDay (fst d) m k))
      else Some zeroTime)"

definition NextOccurrence :: "bytes \<Rightarrow> bytes \<Rightarrow> (recur_error + bytes) option" where
  "NextOccurrence rule from =
     (case ValidateRecur rule of
        Inl e \<Rightarrow> Some (Inl e)
      | Inr rule \<Rightarrow>
          if rule = [] then Some (Inl NoRule)
          else if \<not> validDue from then Some (Inl BadDue)
          else
            let clock = (if 10 < length from then drop 10 from else []) in
            case Parse_date (take 10 from) of
              None \<Rightarrow> Some (Inl BadDue)
            | Some d \<Rightarrow>
                let (kind, arg, _) = Cut rule 0x3A in
                (case next_date kind arg d of
                   None \<Rightarrow> None
                 | Some nxt \<Rightarrow>
                     if nxt = zeroTime then Some (Inl NoNext)
                     else Some (Inr (Format_date nxt @ clock))))"

definition ExpandRecur :: "bytes \<Rightarrow> bytes \<Rightarrow> recur_error + bytes" where
  "ExpandRecur rule due =
     (let rule = TrimSpace rule in
      if rule = [] then Inr []
      else if 0x3A \<in> set rule \<or> rule = ascii ''daily'' then ValidateRecur rule
      else if due = [] then Inl DueRequired
      else if length due < 10 then Inl SlicePanic
      else case Parse_date (take 10 due) of
        None \<Rightarrow> Inl BadDue
      | Some d \<Rightarrow>
          if rule = ascii ''weekly'' then Inr (ascii ''weekly:'' @ Itoa (push_bit (isoWeekdayBit d) 1))
          else if rule = ascii ''monthly'' then Inr (ascii ''monthly:'' @ Itoa (snd (snd d)))
          else if rule = ascii ''yearly'' then Inr (ascii ''yearly:'' @ Format_01_02 (fst (snd d)) (snd (snd d)))
          else Inl UnknownRule)"

end
