(* ===== verification/Recur_Properties.thy ===== *)
theory Recur_Properties
  imports Recur
begin

text \<open>
  What the recurrence rules mean: a rule as data with its text, the dates at which it occurs, and
  the proofs that validation yields exactly the texts, that the next occurrence always exists and is
  the first one after the due date, and that a completed rule occurs at the due date it was
  completed from.
\<close>

section \<open>Rules\<close>

datatype Recurrence = Daily | Every int | Weekly int | Monthly int | Yearly int int

fun rule_text :: "Recurrence \<Rightarrow> bytes" where
  "rule_text Daily = ascii ''daily''"
| "rule_text (Every n) = ascii ''every:'' @ Itoa n"
| "rule_text (Weekly w) = ascii ''weekly:'' @ Itoa w"
| "rule_text (Monthly k) = ascii ''monthly:'' @ Itoa k"
| "rule_text (Yearly m k) = ascii ''yearly:'' @ Format_01_02 m k"

fun rule_wf :: "Recurrence \<Rightarrow> bool" where
  "rule_wf Daily = True"
| "rule_wf (Every n) = (1 \<le> n \<and> n \<le> 365)"
| "rule_wf (Weekly w) = (1 \<le> w \<and> w \<le> 127)"
| "rule_wf (Monthly k) = (1 \<le> k \<and> k \<le> 31)"
| "rule_wf (Yearly m k) = valid (0, m, k)"

text \<open>A day of the month that a month does not have falls on its last day.\<close>

fun occurs :: "Recurrence \<Rightarrow> date \<Rightarrow> bool" where
  "occurs Daily t = True"
| "occurs (Every n) t = True"
| "occurs (Weekly w) t = bit w (isoWeekdayBit t)"
| "occurs (Monthly k) (y, m, d) = (d = min k (days_in y m))"
| "occurs (Yearly m k) (y, m', d) = (m' = m \<and> d = min k (days_in y m))"

lemma digit_tight: "is_digit b \<Longrightarrow> tight b \<and> b \<noteq> 0x3A"
  by (auto simp: is_digit_def tight_def word_le_nat_alt word_less_nat_alt)

lemma Itoa_digits: "0 \<le> v \<Longrightarrow> Itoa v \<noteq> [] \<and> (\<forall>b\<in>set (Itoa v). is_digit b)"
  using set_nat_digits by (simp add: Itoa_def)

lemma Format_01_02_chars: "Format_01_02 m k \<noteq> [] \<and> (\<forall>b\<in>set (Format_01_02 m k). is_digit b \<or> b = 0x2D)"
  using set_pad by (auto simp: Format_01_02_def)

lemma Format_01_02_last: "is_digit (last (Format_01_02 m k))"
proof -
  have "pad 2 (nat k) \<noteq> []" by (simp add: pad_def)
  then have "last (Format_01_02 m k) \<in> set (pad 2 (nat k))" by (simp add: Format_01_02_def)
  then show ?thesis using set_pad by blast
qed

lemma tight_letters: "tight 0x64" "tight 0x65" "tight 0x77" "tight 0x6D" "tight 0x79"
  by (simp_all add: tight_def)

lemma tight_text: "rule_wf r \<Longrightarrow> rule_text r \<noteq> [] \<and> tight (hd (rule_text r)) \<and> tight (last (rule_text r))"
proof (cases r)
  case Daily
  then show ?thesis by (simp add: tight_def)
next
  case (Every n)
  moreover assume "rule_wf r"
  ultimately have "Itoa n \<noteq> []" "is_digit (last (Itoa n))" using Itoa_digits [of n] by auto
  then show ?thesis using Every digit_tight by (simp add: tight_letters)
next
  case (Weekly n)
  moreover assume "rule_wf r"
  ultimately have "Itoa n \<noteq> []" "is_digit (last (Itoa n))" using Itoa_digits [of n] by auto
  then show ?thesis using Weekly digit_tight by (simp add: tight_letters)
next
  case (Monthly n)
  moreover assume "rule_wf r"
  ultimately have "Itoa n \<noteq> []" "is_digit (last (Itoa n))" using Itoa_digits [of n] by auto
  then show ?thesis using Monthly digit_tight by (simp add: tight_letters)
next
  case (Yearly m k)
  then show ?thesis
    using Format_01_02_chars [of m k] digit_tight [OF Format_01_02_last [of m k]] by (simp add: tight_letters)
qed

lemma Cut_text:
  "Cut (ascii ''daily'') 0x3A = (ascii ''daily'', [], False)"
  "Cut (ascii ''every:'' @ s) 0x3A = (ascii ''every'', s, True)"
  "Cut (ascii ''weekly:'' @ s) 0x3A = (ascii ''weekly'', s, True)"
  "Cut (ascii ''monthly:'' @ s) 0x3A = (ascii ''monthly'', s, True)"
  "Cut (ascii ''yearly:'' @ s) 0x3A = (ascii ''yearly'', s, True)"
  by simp_all

lemma Atoi_small: "0 \<le> v \<Longrightarrow> v \<le> 365 \<Longrightarrow> Atoi (Itoa v) = Some v"
  by (rule Atoi_Itoa) simp_all

text \<open>The texts of the well-formed rules are accepted unchanged, and nothing else comes out.\<close>

lemma validate_text: "rule_wf r \<Longrightarrow> ValidateRecur (rule_text r) = Inr (rule_text r)"
proof -
  assume wf: "rule_wf r"
  have "TrimSpace (rule_text r) = rule_text r" using tight_text [OF wf] TrimSpace_tight by blast
  then show ?thesis
    using wf tight_text [OF wf]
    by (cases r) (simp_all add: ValidateRecur_def Atoi_small Parse_Format_01_02 del: valid.simps)
qed

lemma validate_result:
  assumes "ValidateRecur s = Inr t" "t \<noteq> []"
  shows "\<exists>r. rule_wf r \<and> t = rule_text r"
proof -
  obtain kind arg found where cut: "Cut (TrimSpace s) 0x3A = (kind, arg, found)" by (cases "Cut (TrimSpace s) 0x3A")
  from assms cut consider "t = rule_text Daily"
    | n where "t = rule_text (Every n)" "rule_wf (Every n)"
    | n where "t = rule_text (Weekly n)" "rule_wf (Weekly n)"
    | n where "t = rule_text (Monthly n)" "rule_wf (Monthly n)"
    | m k where "t = rule_text (Yearly m k)" "Parse_01_02 arg = Some (m, k)"
    by (auto simp: ValidateRecur_def Let_def not_less simp del: valid.simps split: if_splits option.splits prod.splits)
  then show ?thesis
  proof cases
    case 5
    then have "rule_wf (Yearly m k)" using Parse_01_02_valid by (simp del: valid.simps)
    with 5 show ?thesis by blast
  qed (use rule_wf.simps(1) in blast)+
qed


section \<open>The calendar steps of the rules\<close>

lemma clampDay_eq:
  assumes "1 \<le> k"
  shows "clampDay y m k = (y + (m - 1) div 12, (m - 1) mod 12 + 1,
           min k (days_in (y + (m - 1) div 12) ((m - 1) mod 12 + 1)))"
proof -
  have m: "1 \<le> (m - 1) mod 12 + 1" "(m - 1) mod 12 + 1 \<le> 12" using pos_mod_bound [of 12 "m - 1"] by simp_all
  have "1 \<le> days_in y' m'" for y' m' using days_in_range [of y' m'] by simp
  then have "valid (y', m', min k (days_in y' m'))" if "1 \<le> m'" "m' \<le> 12" for y' m'
    using assms that by (simp add: min_def)
  then show ?thesis
    unfolding clampDay_def Let_def time_Date_month fst_conv snd_conv last_of_month [OF m]
    by (subst if_distrib [where f = "time_Date _ _"]) (metis m time_Date_valid min_def not_le)
qed

definition month_of :: "date \<Rightarrow> int \<times> int" where
  "month_of t = (fst t, fst (snd t))"

fun next_month :: "int \<times> int \<Rightarrow> int \<times> int" where
  "next_month (y, m) = (if m < 12 then (y, m + 1) else (y + 1, 1))"

lemma clampDay_same: "1 \<le> m \<Longrightarrow> m \<le> 12 \<Longrightarrow> 1 \<le> k \<Longrightarrow> clampDay y m k = (y, m, min k (days_in y m))"
  by (simp add: clampDay_eq div_pos_pos_trivial)

lemma clampDay_next:
  assumes "1 \<le> m" "m \<le> 12" "1 \<le> k" "next_month (y, m) = (y', m')"
  shows "clampDay y (m + 1) k = (y', m', min k (days_in y' m'))"
proof (cases "m = 12")
  case False
  with assms have "m div 12 = 0" "m mod 12 = m" by (simp_all add: div_pos_pos_trivial)
  with assms False show ?thesis by (auto simp: clampDay_eq)
qed (use assms in \<open>auto simp: clampDay_eq\<close>)

lemma clamp_valid: "1 \<le> m \<Longrightarrow> m \<le> 12 \<Longrightarrow> 1 \<le> k \<Longrightarrow> valid (y, m, min k (days_in y m))"
  using days_in_range [of y m] by (simp add: min_def)

lemma next_month_range: "1 \<le> m \<Longrightarrow> m \<le> 12 \<Longrightarrow> next_month (y, m) = (y', m') \<Longrightarrow> 1 \<le> m' \<and> m' \<le> 12 \<and> (y, m) < (y', m')"
  by (auto split: if_splits)

lemma next_month_least: "m \<le> 12 \<Longrightarrow> 1 \<le> mu \<Longrightarrow> mu \<le> 12 \<Longrightarrow> (y, m) < (yu, mu) \<Longrightarrow> next_month (y, m) \<le> (yu, mu)"
  by auto

lemma push_months_step: "d < t \<Longrightarrow> push_months k d t = Some t"
  by (subst push_months.simps) simp

lemma push_years_step: "d < t \<Longrightarrow> push_years m k d t = Some t"
  by (subst push_years.simps) simp

lemma between_days:
  assumes "valid d" "valid u" "d < u" "u < (next_day ^^ n) d"
  shows "\<exists>j. 0 < j \<and> j < n \<and> u = (next_day ^^ j) d"
  using assms(4)
proof (induction n)
  case 0
  with assms(3) show ?case by simp
next
  case (Suc n)
  have v: "valid ((next_day ^^ n) d)" using next_days assms(1) by blast
  consider "u < (next_day ^^ n) d" | "u = (next_day ^^ n) d" | "(next_day ^^ n) d < u" by (rule linorder_cases)
  then show ?case
  proof cases
    case 1
    with Suc.IH show ?thesis using less_SucI by blast
  next
    case 2
    with assms(3) have "0 < n" by (cases n) simp_all
    with 2 show ?thesis by blast
  next
    case 3
    with next_day_least [OF v assms(2)] Suc.prems show ?thesis by (simp del: next_day.simps)
  qed
qed

lemma weekday_step: "valid d \<Longrightarrow> isoWeekdayBit ((next_day ^^ i) d) = nat ((day_number d + int i) mod 7)"
proof -
  assume "valid d"
  then have "day_number ((next_day ^^ i) d) = day_number d + int i" using next_days by blast
  moreover have "((x + 1) mod 7 + 6) mod 7 = x mod 7" for x :: int by presburger
  ultimately show ?thesis by (simp add: isoWeekdayBit_def Weekday_def)
qed

lemma some_weekday:
  assumes "valid d" "b < 7"
  shows "\<exists>i\<in>{1..<8}. isoWeekdayBit ((next_day ^^ i) d) = b"
proof -
  let ?i = "nat ((int b - day_number d - 1) mod 7) + 1"
  have i: "int ?i = (int b - day_number d - 1) mod 7 + 1" by simp
  have "x + (z mod 7 + 1) = (z + x + 1) - 7 * (z div 7)" for x z :: int by (simp add: minus_mult_div_eq_mod [symmetric])
  then have "day_number d + int ?i = int b + 7 * (- ((int b - day_number d - 1) div 7))" unfolding i by simp
  then have "(day_number d + int ?i) mod 7 = int b mod 7" by (simp only: mod_mult_self2)
  then have "(day_number d + int ?i) mod 7 = int b" using assms(2) by simp
  then have "isoWeekdayBit ((next_day ^^ ?i) d) = b" using weekday_step [OF assms(1)] by (simp only: nat_int)
  moreover have "(int b - day_number d - 1) mod 7 < 7" by simp
  then have "?i \<in> {1..<8}" by simp
  ultimately show ?thesis by blast
qed

lemma mask_has_day:
  assumes "1 \<le> w" "w \<le> (127 :: int)"
  shows "\<exists>b<7. bit w b"
proof (rule ccontr)
  assume "\<not> (\<exists>b<7. bit w b)"
  then have "take_bit 7 w = 0" by (simp add: bit_eq_iff bit_take_bit_iff)
  moreover have "take_bit 7 w = w" using assms by (simp add: take_bit_int_eq_self_iff)
  ultimately show False using assms by simp
qed

lemma bit_and: "(w AND push_bit n 1 \<noteq> 0) = bit (w :: int) n"
  by (simp add: bit_iff_and_push_bit_not_eq_0)

text \<open>The weekly loop stops at the first of the next seven days whose bit is set.\<close>

lemma weekly_next_first:
  assumes v: "valid d" and w: "1 \<le> w" "w \<le> 127"
  obtains i where "1 \<le> i" "weekly_next w d = (next_day ^^ i) d" "bit w (isoWeekdayBit ((next_day ^^ i) d))"
    "\<And>j. 1 \<le> j \<Longrightarrow> j < i \<Longrightarrow> \<not> bit w (isoWeekdayBit ((next_day ^^ j) d))"
proof -
  let ?P = "\<lambda>i. bit w (isoWeekdayBit ((next_day ^^ i) d))"
  have p: "(\<lambda>i. w AND push_bit (isoWeekdayBit (AddDate d 0 0 (int i))) 1 \<noteq> 0) = ?P"
    unfolding bit_and AddDate_days [OF v] ..
  obtain b where "b < 7" "bit w b" using mask_has_day [OF w] by blast
  moreover obtain i0 where "i0 \<in> {1..<8}" "isoWeekdayBit ((next_day ^^ i0) d) = b"
    using some_weekday [OF v \<open>b < 7\<close>] by blast
  ultimately have "find ?P [1..<8] \<noteq> None" by (auto simp: find_None_iff simp del: upt_rec_numeral)
  then obtain i where f: "find ?P [1..<8] = Some i" by blast
  then obtain k where k: "k < 7" "i = [1..<8] ! k" "?P i" "\<And>j. j < k \<Longrightarrow> \<not> ?P ([1..<8] ! j)"
    by (auto simp: find_Some_iff simp del: upt_rec_numeral)
  then have i: "i = Suc k" by (simp del: upt_rec_numeral)
  show ?thesis
  proof (rule that [of i])
    show "weekly_next w d = (next_day ^^ i) d"
      unfolding weekly_next_def f [folded p] option.case by (rule AddDate_days [OF v])
    fix j assume j: "1 \<le> j" "j < i"
    then have "j - 1 < k" "[1..<8] ! (j - 1) = j" using i k(1) by (simp_all del: upt_rec_numeral)
    then show "\<not> ?P j" using k(4) by metis
  qed (use i k in auto)
qed


section \<open>The next occurrence\<close>

text \<open>
  What the next date after a due date is, without the code's loops: a period of days from it, for a
  monthly rule the first occurrence in a later month, and for the other rules the first later
  occurrence.
\<close>

fun follows :: "Recurrence \<Rightarrow> date \<Rightarrow> date \<Rightarrow> bool" where
  "follows (Every n) d t = (day_number t = day_number d + n)"
| "follows (Monthly k) d t = (occurs (Monthly k) t \<and> month_of d < month_of t
     \<and> (\<forall>u. valid u \<and> month_of d < month_of u \<and> u < t \<longrightarrow> \<not> occurs (Monthly k) u))"
| "follows r d t = (occurs r t \<and> (\<forall>u. valid u \<and> d < u \<and> u < t \<longrightarrow> \<not> occurs r u))"

fun rule_next :: "Recurrence \<Rightarrow> date \<Rightarrow> date option" where
  "rule_next Daily d = next_date (ascii ''daily'') [] d"
| "rule_next (Every n) d = next_date (ascii ''every'') (Itoa n) d"
| "rule_next (Weekly w) d = next_date (ascii ''weekly'') (Itoa w) d"
| "rule_next (Monthly k) d = next_date (ascii ''monthly'') (Itoa k) d"
| "rule_next (Yearly m k) d = next_date (ascii ''yearly'') (Format_01_02 m k) d"

lemma month_later: "month_of d < month_of t \<Longrightarrow> d < t"
  by (cases d; cases t) (auto simp: month_of_def)

lemma daily_next:
  assumes "valid d"
  shows "\<exists>t. rule_next Daily d = Some t \<and> valid t \<and> d < t \<and> follows Daily d t"
proof (intro exI conjI)
  show "rule_next Daily d = Some (next_day d)"
    using AddDate_days [OF assms, of 1] by (simp add: next_date_def del: AddDate.simps next_day.simps)
  have "\<not> (valid u \<and> d < u \<and> u < next_day d)" for u using next_day_least [OF assms] leD by blast
  then show "follows Daily d (next_day d)" unfolding follows.simps occurs.simps by blast
qed (use assms valid_next next_greater in \<open>blast+\<close>)

lemma every_next:
  assumes "valid d" "1 \<le> n" "n \<le> 365"
  shows "\<exists>t. rule_next (Every n) d = Some t \<and> valid t \<and> d < t \<and> follows (Every n) d t"
proof (intro exI conjI)
  have "int (nat n) = n" using assms by simp
  then show "rule_next (Every n) d = Some ((next_day ^^ nat n) d)"
    using AddDate_days [OF assms(1), of "nat n"] assms
    by (simp add: next_date_def Atoi_small del: AddDate.simps next_day.simps)
  show "follows (Every n) d ((next_day ^^ nat n) d)" using next_days [OF assms(1)] assms by (simp del: day_number.simps)
  show "d < (next_day ^^ nat n) d" using next_days_greater [OF assms(1), of "nat n"] assms by simp
qed (use next_days assms in blast)

lemma weekly_next_follows:
  assumes "valid d" "1 \<le> w" "w \<le> 127"
  shows "\<exists>t. rule_next (Weekly w) d = Some t \<and> valid t \<and> d < t \<and> follows (Weekly w) d t"
proof -
  obtain i where i: "1 \<le> i" "weekly_next w d = (next_day ^^ i) d" "bit w (isoWeekdayBit ((next_day ^^ i) d))"
    "\<And>j. 1 \<le> j \<Longrightarrow> j < i \<Longrightarrow> \<not> bit w (isoWeekdayBit ((next_day ^^ j) d))"
    using weekly_next_first [OF assms] by blast
  show ?thesis
  proof (intro exI conjI)
    show "rule_next (Weekly w) d = Some ((next_day ^^ i) d)"
      using assms i(2) by (simp add: next_date_def Atoi_small)
    have "\<not> bit w (isoWeekdayBit u)" if u: "valid u" "d < u" "u < (next_day ^^ i) d" for u
    proof -
      obtain j where "0 < j" "j < i" "u = (next_day ^^ j) d" using between_days [OF assms(1) u] by blast
      with i(4) [of j] show ?thesis by simp
    qed
    with i(3) show "follows (Weekly w) d ((next_day ^^ i) d)" unfolding follows.simps occurs.simps by blast
    show "d < (next_day ^^ i) d" using next_days_greater [OF assms(1), of i] i(1) by simp
  qed (use next_days assms in blast)
qed

lemma monthly_next:
  assumes "valid d" "1 \<le> k" "k \<le> 31"
  shows "\<exists>t. rule_next (Monthly k) d = Some t \<and> valid t \<and> d < t \<and> follows (Monthly k) d t"
proof -
  obtain y m e where d: "d = (y, m, e)" by (cases d)
  then have m: "1 \<le> m" "m \<le> 12" using assms(1) by simp_all
  obtain y' m' where n: "next_month (y, m) = (y', m')" by (cases "next_month (y, m)")
  let ?t = "(y', m', min k (days_in y' m'))"
  have r: "1 \<le> m'" "m' \<le> 12" "(y, m) < (y', m')" using next_month_range [OF m n] by blast+
  then have l: "month_of d < month_of ?t" by (simp add: month_of_def d)
  then have "d < ?t" by (rule month_later)
  show ?thesis
  proof (intro exI conjI)
    show "rule_next (Monthly k) d = Some ?t"
      using assms clampDay_next [OF m assms(2) n] push_months_step [OF \<open>d < ?t\<close>]
      by (simp add: next_date_def Atoi_small d)
    have "\<not> occurs (Monthly k) u" if "valid u" "month_of d < month_of u" "u < ?t" for u
    proof -
      obtain yu mu eu where u: "u = (yu, mu, eu)" by (cases u)
      have "(y', m') \<le> (yu, mu)"
        using next_month_least [of m mu y yu] m that(1,2) unfolding n by (simp add: month_of_def d u)
      then show ?thesis using that(3) by (auto simp: u)
    qed
    then show "follows (Monthly k) d ?t" using l by simp
  qed (use clamp_valid r assms \<open>d < ?t\<close> in blast)+
qed

lemma yearly_next:
  assumes "valid d" "valid (0, m, k)"
  shows "\<exists>t. rule_next (Yearly m k) d = Some t \<and> valid t \<and> d < t \<and> follows (Yearly m k) d t"
proof -
  obtain y md e where d: "d = (y, md, e)" by (cases d)
  have m: "1 \<le> m" "m \<le> 12" "1 \<le> k" using assms(2) by simp_all
  let ?c = "\<lambda>y. (y, m, min k (days_in y m))"
  let ?y = "if d < ?c y then y else y + 1"
  have c: "clampDay y m k = ?c y" for y using clampDay_same m by blast
  have later: "d < ?c ?y" by (simp add: d)
  show ?thesis
  proof (intro exI conjI)
    have "push_years m k d (?c y) = Some (?c ?y)"
    proof (cases "d < ?c y")
      case False
      then have "push_years m k d (?c y) = push_years m k d (?c (y + 1))" by (subst push_years.simps) (simp add: c)
      with False later show ?thesis by (simp add: push_years_step)
    qed (simp add: push_years_step)
    then show "rule_next (Yearly m k) d = Some (?c ?y)"
      using assms(2) by (simp add: next_date_def Parse_Format_01_02 c d del: valid.simps)
    have "\<not> occurs (Yearly m k) u" if "d < u" "u < ?c ?y" for u
    proof
      obtain yu mu eu where u: "u = (yu, mu, eu)" by (cases u)
      assume "occurs (Yearly m k) u"
      then have "u = ?c yu" by (simp add: u)
      moreover have "?c a < ?c b \<longleftrightarrow> a < b" for a b by (cases "a = b") auto
      ultimately have "yu < ?y" using that(2) by (simp only:)
      moreover have "y \<le> yu" using that(1) by (auto simp: d u)
      ultimately show False using that(1) \<open>u = ?c yu\<close> by (cases "d < ?c y") simp_all
    qed
    then show "follows (Yearly m k) d (?c ?y)" by simp
  qed (use clamp_valid m later in blast)+
qed

lemma rule_next_follows:
  assumes "rule_wf r" "valid d"
  shows "\<exists>t. rule_next r d = Some t \<and> valid t \<and> d < t \<and> follows r d t"
  using assms daily_next every_next weekly_next_follows monthly_next yearly_next
  by (cases r) (simp_all del: valid.simps rule_next.simps follows.simps)


lemma next_date_text:
  assumes "rule_wf r" "Parse_date (take 10 from) = Some d" "validDue from" "fst d \<noteq> 0"
  shows "\<exists>t. NextOccurrence (rule_text r) from = Some (Inr (Format_date t @ drop 10 from))
    \<and> valid t \<and> d < t \<and> follows r d t"
proof -
  have d: "valid d" "0 \<le> fst d" using Parse_date_valid [OF assms(2)] by simp_all
  obtain t where t: "rule_next r d = Some t" "valid t" "d < t" "follows r d t"
    using rule_next_follows [OF assms(1) d(1)] by blast
  have "t \<noteq> zeroTime" using d assms(4) t(3) by (cases d) auto
  moreover have "(let (kind, arg, _) = Cut (rule_text r) 0x3A in next_date kind arg d) = rule_next r d"
    by (cases r) simp_all
  moreover have "(if 10 < length from then drop 10 from else []) = drop 10 from" by simp
  ultimately have "NextOccurrence (rule_text r) from = Some (Inr (Format_date t @ drop 10 from))"
    using assms tight_text [OF assms(1)] t(1)
    by (simp add: NextOccurrence_def validate_text split: prod.splits)
  with t show ?thesis by blast
qed

lemma due_parts:
  assumes "valid d" "0 \<le> fst d" "fst d < 10000" "clock = [] \<or> Parse_clock clock \<noteq> None"
  shows "take 10 (Format_date d @ clock) = Format_date d" "drop 10 (Format_date d @ clock) = clock"
    "validDue (Format_date d @ clock)" "Parse_date (Format_date d) = Some d"
proof -
  obtain y m k where d: "d = (y, m, k)" by (cases d)
  have l: "length (Format_date d) = 10" using length_Format assms unfolding d fst_conv by blast
  then show "take 10 (Format_date d @ clock) = Format_date d" "drop 10 (Format_date d @ clock) = clock" by simp_all
  show p: "Parse_date (Format_date d) = Some d" using Parse_Format assms unfolding d fst_conv by blast
  have "clock \<noteq> [] \<Longrightarrow> length clock = 6" using assms(4) by (auto simp: Parse_clock_def split: if_splits)
  then show "validDue (Format_date d @ clock)"
    using assms(4) l p by (cases "clock = []") (simp_all add: validDue_def validDate_def validDateTime_def)
qed

lemma NextOccurrence_returns: "\<exists>x. NextOccurrence rule from = Some x"
proof (cases "ValidateRecur rule")
  case (Inl e)
  then show ?thesis by (simp add: NextOccurrence_def)
next
  case (Inr t)
  show ?thesis
  proof (cases "t = [] \<or> \<not> validDue from \<or> Parse_date (take 10 from) = None")
    case True
    with Inr show ?thesis by (auto simp: NextOccurrence_def split: option.splits)
  next
    case False
    then obtain r d where r: "rule_wf r" "t = rule_text r" "Parse_date (take 10 from) = Some d"
      using validate_result [OF Inr] by blast
    then obtain u where "rule_next r d = Some u" using rule_next_follows Parse_date_valid by blast
    moreover have "(let (kind, arg, _) = Cut (rule_text r) 0x3A in next_date kind arg d) = rule_next r d"
      by (cases r) simp_all
    ultimately show ?thesis using False Inr r
      by (simp add: NextOccurrence_def Let_def split: prod.splits)
  qed
qed

section \<open>Properties\<close>

text \<open>C23: for every rule that validation accepts and every due date from year 1 to 9999, with or
  without a time of day, the next occurrence exists, is a real date strictly after the due date and
  keeps the time of day. It is the date the rule means: n days later for a period, for a monthly
  rule the first occurrence in a later month, and otherwise the first later date at which the rule
  occurs. A day the month does not have falls on its last day.\<close>

theorem next_occurrence_follows:
  assumes "rule_wf r" "valid d" "1 \<le> fst d" "fst d \<le> 9999" "clock = [] \<or> Parse_clock clock \<noteq> None"
  shows "\<exists>t. NextOccurrence (rule_text r) (Format_date d @ clock) = Some (Inr (Format_date t @ clock))
    \<and> valid t \<and> d < t \<and> follows r d t"
proof -
  have "0 \<le> fst d" "fst d < 10000" using assms by simp_all
  note parts = due_parts [OF assms(2) this assms(5)]
  show ?thesis using next_date_text [OF assms(1), of "Format_date d @ clock" d] parts assms(3) by simp
qed

theorem next_occurrence_follows_witness:
  "\<exists>t. NextOccurrence (rule_text (Monthly 31)) (Format_date (2024, 1, 31) @ ascii ''T08:30'')
      = Some (Inr (Format_date t @ ascii ''T08:30''))
    \<and> valid t \<and> (2024, 1, 31) < t \<and> follows (Monthly 31) (2024, 1, 31) t"
  by (rule next_occurrence_follows) (simp_all add: days_in_def Parse_clock_def is_digit_def)

text \<open>the loops of the next occurrence end for every rule text and every due date, valid or not:
  the function always returns a date or an error. The code's loops have no bound of their own.\<close>

theorem next_occurrence_returns: "NextOccurrence rule from \<noteq> None"
  using NextOccurrence_returns [of rule "from"] by auto

text \<open>a rule whose value is missing is completed from the due date into a well-formed rule in
  its normal form, and the completed rule occurs at the due date it was completed from.\<close>

theorem expand_recur_occurs:
  assumes "0x3A \<notin> set rule" "TrimSpace rule \<noteq> []" "TrimSpace rule \<noteq> ascii ''daily''"
    and "Parse_date (take 10 due) = Some d" "ExpandRecur rule due = Inr t"
  shows "\<exists>r. rule_wf r \<and> t = rule_text r \<and> occurs r d \<and> ValidateRecur t = Inr t"
proof -
  obtain y m k where d: "d = (y, m, k)" by (cases d)
  have v: "valid d" using Parse_date_valid assms(4) by blast
  have "0x3A \<notin> set (TrimSpace rule)" using assms(1) set_TrimSpace by blast
  with assms(2-5) consider "t = rule_text (Weekly (push_bit (isoWeekdayBit d) 1))"
    | "t = rule_text (Monthly k)" | "t = rule_text (Yearly m k)"
    by (auto simp: ExpandRecur_def Let_def d split: if_splits)
  then obtain r where r: "rule_wf r" "t = rule_text r" "occurs r d"
  proof cases
    case 1
    have "isoWeekdayBit d < 7" by (simp add: isoWeekdayBit_def)
    then have "isoWeekdayBit d \<in> {0, 1, 2, 3, 4, 5, 6}" by auto
    then have "1 \<le> push_bit (isoWeekdayBit d) (1 :: int) \<and> push_bit (isoWeekdayBit d) (1 :: int) \<le> 127"
      by (auto simp: push_bit_eq_mult)
    with 1 that [of "Weekly (push_bit (isoWeekdayBit d) 1)"] show ?thesis by (simp add: bit_simps)
  next
    case 2
    have "1 \<le> k" "k \<le> days_in y m" "k \<le> 31" using v days_in_range [of y m] by (simp_all add: d)
    with 2 that [of "Monthly k"] show ?thesis by (simp add: d)
  next
    case 3
    have "days_in y m \<le> days_in 0 m" by (simp add: days_in_def leap_def)
    with v have "valid (0, m, k)" "k = min k (days_in y m)" by (auto simp: d)
    with 3 that [of "Yearly m k"] show ?thesis by (simp add: d del: valid.simps)
  qed
  then show ?thesis using validate_text by blast
qed

theorem expand_recur_occurs_witness:
  "\<exists>r. rule_wf r \<and> rule_text (Yearly 2 29) = rule_text r \<and> occurs r (2024, 2, 29)
    \<and> ValidateRecur (rule_text (Yearly 2 29)) = Inr (rule_text (Yearly 2 29))"
  by (rule expand_recur_occurs [where rule = "ascii ''yearly''" and due = "ascii ''2024-02-29''"])
    (simp_all add: TrimSpace_tight tight_letters Parse_date_def is_digit_def days_in_def leap_def ExpandRecur_def)

end
