(* ===== verification/Exchange.thy ===== *)
theory Exchange
  imports Session Im_Correct
begin

text \<open>
  The controller's messages over an established session, \<^verbatim>\<open>go-matter/controller\<close>: the frames of the
  unsecured handshake (\<^verbatim>\<open>frame.go\<close>), the reliable exchange (\<^verbatim>\<open>mrp.go\<close>), the round trips of
  \<^verbatim>\<open>controller.go\<close> and the subscriptions of \<^verbatim>\<open>subscribe.go\<close>. The transport is part of the state: it
  holds what each call of \<^verbatim>\<open>Receive\<close> will meet, which of the calls of \<^verbatim>\<open>Send\<close> will fail, and what
  was given to \<^verbatim>\<open>Send\<close> so far.
\<close>

section \<open>The transport\<close>

datatype recv_error = DeadlineExceeded | TransportClosed

text \<open>
  One attempt to receive: whether the caller's context is done before it and after it, and the
  datagram or the error of \<^verbatim>\<open>Receive\<close>. \<open>DeadlineExceeded\<close> is the deadline of the attempt.
\<close>

record Tick =
  ctx_before :: bool
  arrival :: "recv_error + bytes"
  ctx_after :: bool

text \<open>\<open>failing n\<close>: the \<open>n\<close>-th datagram given to \<^verbatim>\<open>Send\<close> is refused. When the ticks are used up, the
  transport is closed.\<close>

record Net =
  ticks :: "Tick list"
  failing :: "nat \<Rightarrow> bool"
  sent :: "bytes list"

definition closed_tick :: Tick where
  "closed_tick = \<lparr>ctx_before = False, arrival = Inl TransportClosed, ctx_after = False\<rparr>"

definition this_tick :: "Net \<Rightarrow> Tick" where
  "this_tick n = (case ticks n of [] \<Rightarrow> closed_tick | t # _ \<Rightarrow> t)"

definition past_tick :: "Net \<Rightarrow> Net" where
  "past_tick n = n\<lparr>ticks := tl (ticks n)\<rparr>"

definition Net_Send :: "Net \<Rightarrow> bytes \<Rightarrow> bool \<times> Net" where
  "Net_Send n datagram = (\<not> failing n (length (sent n)), n\<lparr>sent := sent n @ [datagram]\<rparr>)"

section \<open>Opcodes\<close>

abbreviation ProtocolSecureChannel :: u16 where "ProtocolSecureChannel \<equiv> 0x0000"
abbreviation ProtocolInteractionModel :: u16 where "ProtocolInteractionModel \<equiv> 0x0001"

abbreviation SCStandaloneAck :: byte where "SCStandaloneAck \<equiv> 0x10"
abbreviation IMStatusResponse :: byte where "IMStatusResponse \<equiv> 0x01"
abbreviation IMReadRequest :: byte where "IMReadRequest \<equiv> 0x02"
abbreviation IMSubscribeRequest :: byte where "IMSubscribeRequest \<equiv> 0x03"
abbreviation IMSubscribeResponse :: byte where "IMSubscribeResponse \<equiv> 0x04"
abbreviation IMReportData :: byte where "IMReportData \<equiv> 0x05"
abbreviation IMInvokeRequest :: byte where "IMInvokeRequest \<equiv> 0x08"
abbreviation IMInvokeResponse :: byte where "IMInvokeResponse \<equiv> 0x09"

definition zeroProto :: ProtoHeader where
  "zeroProto = \<lparr>p_Initiator = False, p_Reliable = False, p_Opcode = 0, p_ExchangeID = 0,
     p_ProtocolID = 0, p_VendorID = 0, p_VendorPresent = False, p_AckCounter = 0,
     p_AckPresent = False\<rparr>"

section \<open>Sessions of the controller\<close>

datatype ctl_error = CtxErr | TooManyMessages | NoResponse | SendErr
  | RecvErr recv_error | SecureErr session_error | ProtoErr msg_error
  | EncodeErr tlv_error | DecodeErr derror | WrongOpcode byte | WrongCount nat
  | HandshakeFlood | HandshakeTimeout | NotUnsecured u16

record secureMsg =
  sm_ph :: ProtoHeader
  sm_counter :: u32
  sm_payload :: bytes

definition zeroMsg :: secureMsg where
  "zeroMsg = \<lparr>sm_ph = zeroProto, sm_counter = 0, sm_payload = []\<rparr>"

text \<open>The struct \<^verbatim>\<open>Session\<close> of the controller.\<close>

record Conversation =
  cv_secure :: Secure
  cv_t :: Net
  cv_exchange :: u16

abbreviation mrpMaxRetransmits :: nat where "mrpMaxRetransmits \<equiv> 4"
abbreviation mrpInitialInterval :: nat where "mrpInitialInterval \<equiv> 400"
abbreviation mrpBackoffBase :: nat where "mrpBackoffBase \<equiv> 2"
abbreviation mrpIntervalCeiling :: nat where "mrpIntervalCeiling \<equiv> 3200"
abbreviation maxExchangeMessages :: nat where "maxExchangeMessages \<equiv> 64"

text \<open>Milliseconds; the loop runs \<open>retransmits\<close> times unless the ceiling is reached.\<close>

fun interval_loop :: "nat \<Rightarrow> nat \<Rightarrow> nat" where
  "interval_loop 0 iv = iv"
| "interval_loop (Suc k) iv =
     (if iv < mrpIntervalCeiling then interval_loop k (iv * mrpBackoffBase) else iv)"

definition mrpInterval :: "nat \<Rightarrow> nat" where
  "mrpInterval retransmits =
     (let iv = interval_loop retransmits mrpInitialInterval in
      if mrpIntervalCeiling < iv then mrpIntervalCeiling else iv)"

definition encryptProto :: "Conversation \<Rightarrow> ProtoHeader \<Rightarrow> bytes \<Rightarrow> (ctl_error + bytes) \<times> Conversation" where
  "encryptProto s proto payload =
     (case Secure_Encrypt (cv_secure s) (ProtoHeader_Encode proto @ payload) of
        (Inl e, sec) \<Rightarrow> (Inl (SecureErr e), s\<lparr>cv_secure := sec\<rparr>)
      | (Inr frame, sec) \<Rightarrow> (Inr frame, s\<lparr>cv_secure := sec\<rparr>))"

text \<open>The error of \<^verbatim>\<open>t.Send\<close>.\<close>

definition send_frame :: "Conversation \<Rightarrow> bytes \<Rightarrow> ctl_error option \<times> Conversation" where
  "send_frame s frame =
     (let (ok, n) = Net_Send (cv_t s) frame in
      (if ok then None else Some SendErr, s\<lparr>cv_t := n\<rparr>))"

text \<open>\<^verbatim>\<open>recvMsg\<close> on what \<^verbatim>\<open>Receive\<close> gave.\<close>

definition open_msg :: "Secure \<Rightarrow> bytes \<Rightarrow> (secureMsg \<times> ctl_error option) \<times> Secure" where
  "open_msg sec frame =
     (let ((counter, payload, derr), sec) = Secure_DecryptMsg sec frame in
      if derr \<noteq> None \<and> derr \<noteq> Some Replay then ((zeroMsg, map_option SecureErr derr), sec)
      else case DecodeProto payload of
        Inl e \<Rightarrow> ((zeroMsg, Some (ProtoErr e)), sec)
      | Inr (ph, rest) \<Rightarrow>
          ((\<lparr>sm_ph = ph, sm_counter = counter, sm_payload = rest\<rparr>, map_option SecureErr derr), sec))"

definition recvMsg :: "Conversation \<Rightarrow> (secureMsg \<times> ctl_error option) \<times> Conversation" where
  "recvMsg s =
     (let s' = s\<lparr>cv_t := past_tick (cv_t s)\<rparr> in
      case arrival (this_tick (cv_t s)) of
        Inl e \<Rightarrow> ((zeroMsg, Some (RecvErr e)), s')
      | Inr frame \<Rightarrow>
          (let (res, sec) = open_msg (cv_secure s) frame in (res, s'\<lparr>cv_secure := sec\<rparr>)))"

definition ack_proto :: "secureMsg \<Rightarrow> ProtoHeader" where
  "ack_proto m = zeroProto\<lparr>p_Initiator := \<not> p_Initiator (sm_ph m), p_Opcode := SCStandaloneAck,
     p_ExchangeID := p_ExchangeID (sm_ph m), p_ProtocolID := ProtocolSecureChannel,
     p_AckPresent := True, p_AckCounter := sm_counter m\<rparr>"

definition ackMsg :: "Conversation \<Rightarrow> secureMsg \<Rightarrow> ctl_error option \<times> Conversation" where
  "ackMsg s m =
     (case encryptProto s (ack_proto m) [] of
        (Inl e, s) \<Rightarrow> (Some e, s)
      | (Inr frame, s) \<Rightarrow> send_frame s frame)"

definition isStandaloneAck :: "ProtoHeader \<Rightarrow> bool" where
  "isStandaloneAck ph = (p_ProtocolID ph = ProtocolSecureChannel \<and> p_Opcode ph = SCStandaloneAck)"

section \<open>The reliable exchange\<close>

text \<open>One iteration of \<^verbatim>\<open>exchangeRT\<close>: it returns, or continues with a count of retransmissions.\<close>

datatype 'a outcome = Return 'a | Continue nat

definition resume :: "nat \<Rightarrow> ctl_error option \<times> Conversation \<Rightarrow> (ctl_error + 'a) outcome \<times> Conversation" where
  "resume k r = (case r of (Some e, s) \<Rightarrow> (Return (Inl e), s) | (None, s) \<Rightarrow> (Continue k, s))"

definition exchange_step :: "nat \<Rightarrow> bytes \<Rightarrow> u16 \<Rightarrow> Conversation
    \<Rightarrow> (ctl_error + secureMsg) outcome \<times> Conversation" where
  "exchange_step retransmits sentFrame exchangeID s =
     (let done_after = ctx_after (this_tick (cv_t s)) in
      case recvMsg s of
        ((m, Some err), s) \<Rightarrow>
          if err = SecureErr Replay then
            (if p_ExchangeID (sm_ph m) = exchangeID then resume retransmits (send_frame s sentFrame)
             else resume retransmits (ackMsg s m))
          else if done_after then (Return (Inl CtxErr), s)
          else if err = RecvErr DeadlineExceeded then
            (if retransmits \<ge> mrpMaxRetransmits then (Return (Inl NoResponse), s)
             else resume (retransmits + 1) (send_frame s sentFrame))
          else (Return (Inl err), s)
      | ((m, None), s) \<Rightarrow>
          if isStandaloneAck (sm_ph m) then (Continue retransmits, s)
          else if p_ExchangeID (sm_ph m) \<noteq> exchangeID then resume retransmits (ackMsg s m)
          else (Return (Inr m), s))"

function exchange_loop :: "nat \<Rightarrow> nat \<Rightarrow> bytes \<Rightarrow> u16 \<Rightarrow> Conversation
    \<Rightarrow> (ctl_error + secureMsg) \<times> Conversation" where
  "exchange_loop iters retransmits sentFrame exchangeID s =
     (if ctx_before (this_tick (cv_t s)) then (Inl CtxErr, s)
      else if iters > maxExchangeMessages then (Inl TooManyMessages, s)
      else case exchange_step retransmits sentFrame exchangeID s of
        (Return r, s) \<Rightarrow> (r, s)
      | (Continue k, s) \<Rightarrow> exchange_loop (iters + 1) k sentFrame exchangeID s)"
  by pat_completeness auto
termination by (relation "measure (\<lambda>(iters, _). Suc maxExchangeMessages - iters)") auto

declare exchange_loop.simps [simp del]

definition exchangeRT :: "bytes \<Rightarrow> u16 \<Rightarrow> Conversation \<Rightarrow> (ctl_error + secureMsg) \<times> Conversation" where
  "exchangeRT sentFrame exchangeID s = exchange_loop 0 0 sentFrame exchangeID s"

section \<open>Requests\<close>

text \<open>A step that may fail, on the state of the session.\<close>

type_synonym 'a act = "Conversation \<Rightarrow> (ctl_error + 'a) \<times> Conversation"

definition act_bind :: "'a act \<Rightarrow> ('a \<Rightarrow> 'b act) \<Rightarrow> 'b act" where
  "act_bind m f s = (case m s of (Inl e, s) \<Rightarrow> (Inl e, s) | (Inr a, s) \<Rightarrow> f a s)"

definition act_of :: "ctl_error + 'a \<Rightarrow> 'a act" where
  "act_of r s = (r, s)"

definition act_unit :: "(Conversation \<Rightarrow> ctl_error option \<times> Conversation) \<Rightarrow> unit act" where
  "act_unit f s = (case f s of (Some e, s) \<Rightarrow> (Inl e, s) | (None, s) \<Rightarrow> (Inr (), s))"

definition act_decode :: "(derror + 'a) option \<Rightarrow> 'a act" where
  "act_decode r s =
     (case r of None \<Rightarrow> (Inl (DecodeErr (Msg ''no result'')), s)
      | Some (Inl e) \<Rightarrow> (Inl (DecodeErr e), s) | Some (Inr a) \<Rightarrow> (Inr a, s))"

definition act_encode :: "tlv_error + bytes \<Rightarrow> bytes act" where
  "act_encode r s = (case r of Inl e \<Rightarrow> (Inl (EncodeErr e), s) | Inr b \<Rightarrow> (Inr b, s))"

definition nextExchange :: "u16 act" where
  "nextExchange s = (Inr (cv_exchange s), s\<lparr>cv_exchange := cv_exchange s + 1\<rparr>)"

definition request_proto :: "byte \<Rightarrow> u16 \<Rightarrow> ProtoHeader" where
  "request_proto opcode exchangeID = zeroProto\<lparr>p_Initiator := True, p_Reliable := True,
     p_Opcode := opcode, p_ExchangeID := exchangeID, p_ProtocolID := ProtocolInteractionModel\<rparr>"

definition roundTrip :: "byte \<Rightarrow> bytes \<Rightarrow> (ProtoHeader \<times> bytes) act" where
  "roundTrip opcode imPayload =
     act_bind nextExchange (\<lambda>exchangeID.
     act_bind (\<lambda>s. encryptProto s (request_proto opcode exchangeID) imPayload) (\<lambda>frame.
     act_bind (act_unit (\<lambda>s. send_frame s frame)) (\<lambda>_.
     act_bind (exchangeRT frame exchangeID) (\<lambda>m.
     act_bind (act_unit (\<lambda>s. ackMsg s m)) (\<lambda>_.
     act_of (Inr (sm_ph m, sm_payload m)))))))"

definition the_one :: "'a list \<Rightarrow> 'a act" where
  "the_one xs = (case xs of [x] \<Rightarrow> act_of (Inr x) | _ \<Rightarrow> act_of (Inl (WrongCount (length xs))))"

definition check_opcode :: "byte \<Rightarrow> byte \<Rightarrow> unit act" where
  "check_opcode got want = act_of (if got \<noteq> want then Inl (WrongOpcode got) else Inr ())"

definition Invoke :: "InvokeCommand \<Rightarrow> InvokeResult act" where
  "Invoke cmd =
     act_bind (act_encode (EncodeInvokeRequest [cmd] False False)) (\<lambda>req.
     act_bind (roundTrip IMInvokeRequest req) (\<lambda>(ph, respIM).
     act_bind (check_opcode (p_Opcode ph) IMInvokeResponse) (\<lambda>_.
     act_bind (act_decode (DecodeInvokeResponse respIM)) the_one)))"

definition ReadAttribute :: "AttributePath \<Rightarrow> AttributeReport act" where
  "ReadAttribute path =
     act_bind (act_encode (EncodeReadRequest [path] True)) (\<lambda>req.
     act_bind (roundTrip IMReadRequest req) (\<lambda>(ph, respIM).
     act_bind (check_opcode (p_Opcode ph) IMReportData) (\<lambda>_.
     act_bind (act_decode (DecodeReportData respIM)) (\<lambda>(_, reports). the_one reports))))"

section \<open>Subscriptions\<close>

record Subscription =
  sub_ID :: u32
  sub_MaxInterval :: u16
  sub_Initial :: "AttributeReport list"

definition status_proto :: "u16 \<Rightarrow> bool \<Rightarrow> u32 \<Rightarrow> ProtoHeader" where
  "status_proto exchangeID initiator ackCounter = zeroProto\<lparr>p_Initiator := initiator,
     p_Reliable := True, p_Opcode := IMStatusResponse, p_ExchangeID := exchangeID,
     p_ProtocolID := ProtocolInteractionModel, p_AckPresent := True, p_AckCounter := ackCounter\<rparr>"

definition statusResponseFrame :: "u16 \<Rightarrow> bool \<Rightarrow> u32 \<Rightarrow> bytes act" where
  "statusResponseFrame exchangeID initiator ackCounter =
     act_bind (act_encode (EncodeStatusResponse 0)) (\<lambda>payload s.
       encryptProto s (status_proto exchangeID initiator ackCounter) payload)"

definition Subscribe :: "AttributePath list \<Rightarrow> u16 \<Rightarrow> u16 \<Rightarrow> Subscription act" where
  "Subscribe paths minFloor maxCeiling =
     act_bind (act_encode (EncodeSubscribeRequest paths minFloor maxCeiling False True)) (\<lambda>req.
     act_bind nextExchange (\<lambda>ex.
     act_bind (\<lambda>s. encryptProto s (request_proto IMSubscribeRequest ex) req) (\<lambda>reqFrame.
     act_bind (act_unit (\<lambda>s. send_frame s reqFrame)) (\<lambda>_.
     act_bind (exchangeRT reqFrame ex) (\<lambda>prime.
     act_bind (check_opcode (p_Opcode (sm_ph prime)) IMReportData) (\<lambda>_.
     act_bind (act_decode (DecodeReportData (sm_payload prime))) (\<lambda>(_, reports).
     act_bind (statusResponseFrame ex True (sm_counter prime)) (\<lambda>srFrame.
     act_bind (act_unit (\<lambda>s. send_frame s srFrame)) (\<lambda>_.
     act_bind (exchangeRT srFrame ex) (\<lambda>resp.
     act_bind (check_opcode (p_Opcode (sm_ph resp)) IMSubscribeResponse) (\<lambda>_.
     act_bind (act_decode (DecodeSubscribeResponse (sm_payload resp))) (\<lambda>(subID, maxInterval).
     act_bind (act_unit (\<lambda>s. ackMsg s resp)) (\<lambda>_.
     act_of (Inr \<lparr>sub_ID = subID, sub_MaxInterval = maxInterval, sub_Initial = reports\<rparr>))))))))))))))"

definition answer_report :: "secureMsg \<Rightarrow> (bytes \<times> AttributeReport list) act" where
  "answer_report m =
     act_bind (act_decode (DecodeReportData (sm_payload m))) (\<lambda>(_, reports).
     act_bind (statusResponseFrame (p_ExchangeID (sm_ph m)) False (sm_counter m)) (\<lambda>frame.
     act_bind (act_unit (\<lambda>s. send_frame s frame)) (\<lambda>_.
     act_of (Inr (frame, reports)))))"

text \<open>
  One iteration of \<^verbatim>\<open>Listen\<close>: it ends with an error, goes on, or passes reports on. \<open>prev\<close> is the
  counter of the last report and the answer to it, None while there is none.
\<close>

datatype heard = Ended ctl_error | Ignored | Reported "(u32 \<times> bytes)" "AttributeReport list"

definition ignored :: "ctl_error option \<times> Conversation \<Rightarrow> heard \<times> Conversation" where
  "ignored r = (case r of (Some e, s) \<Rightarrow> (Ended e, s) | (None, s) \<Rightarrow> (Ignored, s))"

definition listen_step :: "(u32 \<times> bytes) option \<Rightarrow> Conversation \<Rightarrow> heard \<times> Conversation" where
  "listen_step prev s =
     (case recvMsg s of
        ((m, Some err), s) \<Rightarrow>
          if err = SecureErr Replay then
            (case prev of
               Some (c, response) \<Rightarrow>
                 if sm_counter m = c then ignored (send_frame s response) else ignored (ackMsg s m)
             | None \<Rightarrow> ignored (ackMsg s m))
          else (Ended err, s)
      | ((m, None), s) \<Rightarrow>
          if isStandaloneAck (sm_ph m) then (Ignored, s)
          else if p_Opcode (sm_ph m) \<noteq> IMReportData then ignored (ackMsg s m)
          else (case answer_report m s of
                  (Inl e, s) \<Rightarrow> (Ended e, s)
                | (Inr (frame, reports), s) \<Rightarrow> (Reported (sm_counter m, frame) reports, s)))"

text \<open>Nothing but receiving takes a tick, so the loop ends with the ticks at the latest.\<close>

lemma ticks_kept:
  "encryptProto s p b = (r, s1) \<Longrightarrow> ticks (cv_t s1) = ticks (cv_t s)"
  "send_frame s f = (e, s2) \<Longrightarrow> ticks (cv_t s2) = ticks (cv_t s)"
  "ackMsg s m = (e, s3) \<Longrightarrow> ticks (cv_t s3) = ticks (cv_t s)"
  "ignored (ackMsg s m) = (h, s4) \<Longrightarrow> ticks (cv_t s4) = ticks (cv_t s)"
  "ignored (send_frame s f) = (h, s4) \<Longrightarrow> ticks (cv_t s4) = ticks (cv_t s)"
  "answer_report m s = (a, s5) \<Longrightarrow> ticks (cv_t s5) = ticks (cv_t s)"
  by (auto simp: encryptProto_def send_frame_def ackMsg_def Net_Send_def ignored_def answer_report_def
      act_bind_def act_decode_def act_encode_def act_unit_def act_of_def statusResponseFrame_def Let_def
      split: prod.splits sum.splits option.splits)

lemma recvMsg_ticks: "recvMsg s = (r, s') \<Longrightarrow> ticks (cv_t s') = tl (ticks (cv_t s))"
  by (auto simp: recvMsg_def past_tick_def Let_def split: prod.splits sum.splits)

lemma listen_step_ticks: "listen_step prev s = (h, s') \<Longrightarrow> ticks (cv_t s') = tl (ticks (cv_t s))"
  by (auto simp: listen_step_def dest!: ticks_kept recvMsg_ticks
      split: prod.splits option.splits if_splits sum.splits)

lemma listen_step_closed: "ticks (cv_t s) = [] \<Longrightarrow> \<exists>s'. listen_step prev s = (Ended (RecvErr TransportClosed), s')"
  by (simp add: listen_step_def recvMsg_def this_tick_def closed_tick_def Let_def)

text \<open>The error that ends the loop and what was passed to \<^verbatim>\<open>onReport\<close>, in order.\<close>

function listen_loop :: "(u32 \<times> bytes) option \<Rightarrow> Conversation
    \<Rightarrow> (ctl_error \<times> AttributeReport list list) \<times> Conversation" where
  "listen_loop prev s =
     (case listen_step prev s of
        (Ended e, s) \<Rightarrow> ((e, []), s)
      | (Ignored, s) \<Rightarrow> listen_loop prev s
      | (Reported prev' reports, s) \<Rightarrow>
          (let ((e, rs), s) = listen_loop (Some prev') s in ((e, reports # rs), s)))"
  by pat_completeness auto
termination
proof (relation "measure (\<lambda>(_, s). length (ticks (cv_t s)))")
  fix prev s h s'
  assume "(h, s') = listen_step prev s"
  then have h: "listen_step prev s = (h, s')" by simp
  show "h = Ignored \<Longrightarrow> ((prev, s'), prev, s) \<in> measure (\<lambda>(_, s). length (ticks (cv_t s)))"
    using listen_step_ticks [OF h] listen_step_closed [of s prev] h by (cases "ticks (cv_t s)") auto
  fix prev' reports
  show "h = Reported prev' reports \<Longrightarrow> ((Some prev', s'), prev, s) \<in> measure (\<lambda>(_, s). length (ticks (cv_t s)))"
    using listen_step_ticks [OF h] listen_step_closed [of s prev] h by (cases "ticks (cv_t s)") auto
qed simp

declare listen_loop.simps [simp del]

definition Listen :: "Conversation \<Rightarrow> (ctl_error \<times> AttributeReport list list) \<times> Conversation" where
  "Listen s = listen_loop None s"

section \<open>Unsecured messages\<close>

definition frameUnsecuredAck :: "u32 \<Rightarrow> u16 \<Rightarrow> bool \<Rightarrow> byte \<Rightarrow> bytes \<Rightarrow> u32 \<Rightarrow> bool \<Rightarrow> bytes" where
  "frameUnsecuredAck counter exchangeID initiator opcode payload ackCounter ack =
     (let hdr = zeroHeader\<lparr>h_SessionType := Unicast, h_Counter := counter\<rparr>;
          aad = (case Header_Encode hdr of Inl _ \<Rightarrow> [] | Inr b \<Rightarrow> b);
          proto = zeroProto\<lparr>p_Initiator := initiator, p_Reliable := True, p_Opcode := opcode,
            p_ExchangeID := exchangeID, p_ProtocolID := ProtocolSecureChannel,
            p_AckCounter := ackCounter, p_AckPresent := ack\<rparr>;
          proto = (if opcode = SCStandaloneAck then proto\<lparr>p_Reliable := False\<rparr> else proto)
      in aad @ ProtoHeader_Encode proto @ payload)"

definition frameUnsecured :: "u32 \<Rightarrow> u16 \<Rightarrow> bool \<Rightarrow> byte \<Rightarrow> bytes \<Rightarrow> bytes" where
  "frameUnsecured counter exchangeID initiator opcode payload =
     frameUnsecuredAck counter exchangeID initiator opcode payload 0 False"

definition parseUnsecuredMsg :: "bytes \<Rightarrow> ctl_error + Header \<times> ProtoHeader \<times> bytes" where
  "parseUnsecuredMsg frame =
     (case Header_Decode frame of
        Inl e \<Rightarrow> Inl (ProtoErr e)
      | Inr (hdr, rest) \<Rightarrow>
          if h_SessionID hdr \<noteq> 0 then Inl (NotUnsecured (h_SessionID hdr))
          else (case DecodeProto rest of
                  Inl e \<Rightarrow> Inl (ProtoErr e)
                | Inr (ph, payload) \<Rightarrow> Inr (hdr, ph, payload)))"

definition parseUnsecured :: "bytes \<Rightarrow> ctl_error + ProtoHeader \<times> bytes" where
  "parseUnsecured frame = (case parseUnsecuredMsg frame of Inl e \<Rightarrow> Inl e | Inr (_, ph, payload) \<Rightarrow> Inr (ph, payload))"

text \<open>
  \<^verbatim>\<open>awaitSC\<close>: the receive half of the handshake's exchange, over the transport and the counters
  \<open>seen\<close> so far.
\<close>

definition await_resume :: "nat \<Rightarrow> u32 set \<Rightarrow> bool \<times> Net
    \<Rightarrow> (ctl_error + Header \<times> ProtoHeader \<times> bytes) outcome \<times> u32 set \<times> Net" where
  "await_resume k seen r = (case r of (ok, n) \<Rightarrow> (if ok then Continue k else Return (Inl SendErr), seen, n))"

definition await_step :: "nat \<Rightarrow> bytes \<Rightarrow> u32 set \<Rightarrow> Net
    \<Rightarrow> (ctl_error + Header \<times> ProtoHeader \<times> bytes) outcome \<times> u32 set \<times> Net" where
  "await_step retransmits resend seen n =
     (let t = this_tick n; n = past_tick n in
      case arrival t of
        Inl e \<Rightarrow>
          if ctx_after t then (Return (Inl CtxErr), seen, n)
          else if e = DeadlineExceeded then
            (if retransmits \<ge> mrpMaxRetransmits then (Return (Inl HandshakeTimeout), seen, n)
             else await_resume (retransmits + 1) seen (Net_Send n resend))
          else (Return (Inl (RecvErr e)), seen, n)
      | Inr frame \<Rightarrow>
          (case parseUnsecuredMsg frame of
             Inl _ \<Rightarrow> (Continue retransmits, seen, n)
           | Inr (hdr, ph, payload) \<Rightarrow>
               if isStandaloneAck ph then (Continue retransmits, insert (h_Counter hdr) seen, n)
               else if h_Counter hdr \<in> seen then await_resume retransmits seen (Net_Send n resend)
               else (Return (Inr (hdr, ph, payload)), insert (h_Counter hdr) seen, n)))"

function await_loop :: "nat \<Rightarrow> nat \<Rightarrow> bytes \<Rightarrow> u32 set \<Rightarrow> Net
    \<Rightarrow> (ctl_error + Header \<times> ProtoHeader \<times> bytes) \<times> u32 set \<times> Net" where
  "await_loop iters retransmits resend seen n =
     (if ctx_before (this_tick n) then (Inl CtxErr, seen, n)
      else if iters > maxExchangeMessages then (Inl HandshakeFlood, seen, n)
      else case await_step retransmits resend seen n of
        (Return r, seen, n) \<Rightarrow> (r, seen, n)
      | (Continue k, seen, n) \<Rightarrow> await_loop (iters + 1) k resend seen n)"
  by pat_completeness auto
termination by (relation "measure (\<lambda>(iters, _). Suc maxExchangeMessages - iters)") auto

declare await_loop.simps [simp del]

definition awaitSC :: "bytes \<Rightarrow> u32 set \<Rightarrow> Net
    \<Rightarrow> (ctl_error + Header \<times> ProtoHeader \<times> bytes) \<times> u32 set \<times> Net" where
  "awaitSC resend seen n = await_loop 0 0 resend seen n"

end
