(* ===== verification/Exchange_Properties.thy ===== *)
theory Exchange_Properties
  imports Exchange Im_Properties Session_Properties
begin

text \<open>
  What the controller's exchanges promise: a bounded number of receives and sends whatever the peer
  does, replies that are authentic, fresh and of the exchange, a request that is answered in spite
  of losses and duplicates, and reports that are passed on exactly once.
\<close>

section \<open>One iteration\<close>

text \<open>Only the transmit counter and the replay window of the session change.\<close>

definition same_keys :: "Secure \<Rightarrow> Secure \<Rightarrow> bool" where
  "same_keys s t \<longleftrightarrow> t = s\<lparr>txCounter := txCounter t, rx := rx t\<rparr>"

lemma same_keys_refl [simp]: "same_keys s s"
  by (simp add: same_keys_def)

lemma same_keys_trans: "same_keys s t \<Longrightarrow> same_keys t u \<Longrightarrow> same_keys s u"
  by (cases s, cases t, cases u) (simp add: same_keys_def)

lemma same_keys_fields:
  "same_keys s t \<Longrightarrow> keyed t = keyed s \<and> recv t = recv s \<and> send t = send s
    \<and> LocalSessionID t = LocalSessionID s \<and> PeerSessionID t = PeerSessionID s
    \<and> LocalNodeID t = LocalNodeID s \<and> PeerNodeID t = PeerNodeID s"
  unfolding same_keys_def by (erule ssubst) (simp add: keyed_def)

lemma Encrypt_keys: "Secure_Encrypt s p = (r, s') \<Longrightarrow> same_keys s s' \<and> rx s' = rx s"
  by (auto simp: Secure_Encrypt_def same_keys_def Let_def split: if_splits sum.splits)

lemma DecryptMsg_keys: "Secure_DecryptMsg s f = (r, s') \<Longrightarrow> same_keys s s' \<and> txCounter s' = txCounter s"
  by (auto simp: Secure_DecryptMsg_def same_keys_def Let_def
      split: if_splits sum.splits prod.splits bool.splits)

lemma open_msg_keys: "open_msg s f = (r, s') \<Longrightarrow> same_keys s s' \<and> txCounter s' = txCounter s"
  by (auto simp: open_msg_def Let_def dest!: DecryptMsg_keys split: if_splits sum.splits prod.splits)

text \<open>A standalone acknowledgement that this session encrypted.\<close>

definition is_ack :: "Secure \<Rightarrow> bytes \<Rightarrow> bool" where
  "is_ack s x \<longleftrightarrow> (\<exists>t m. same_keys s t \<and> fst (Secure_Encrypt t (ProtoHeader_Encode (ack_proto m))) = Inr x)"

lemma is_ack_same: "same_keys s t \<Longrightarrow> is_ack t x \<Longrightarrow> is_ack s x"
  unfolding is_ack_def using same_keys_trans by blast

text \<open>How a part of an exchange may change the conversation: \<open>k\<close> ticks, and datagrams \<open>fs\<close>.\<close>

definition moves :: "nat \<Rightarrow> bytes list \<Rightarrow> Conversation \<Rightarrow> Conversation \<Rightarrow> bool" where
  "moves k fs s s' \<longleftrightarrow> ticks (cv_t s') = drop k (ticks (cv_t s)) \<and> failing (cv_t s') = failing (cv_t s)
     \<and> sent (cv_t s') = sent (cv_t s) @ fs \<and> same_keys (cv_secure s) (cv_secure s')
     \<and> cv_exchange s' = cv_exchange s"

lemma moves_refl: "moves 0 [] s s"
  by (simp add: moves_def)

lemma moves_trans: "moves k fs s t \<Longrightarrow> moves l gs t u \<Longrightarrow> moves (l + k) (fs @ gs) s u"
  by (auto simp: moves_def intro: same_keys_trans)

lemma moves_recv: "recvMsg s = (r, s') \<Longrightarrow> moves 1 [] s s'"
  by (auto simp: recvMsg_def moves_def past_tick_def Let_def drop_Suc dest!: open_msg_keys
      split: sum.splits prod.splits)

lemma moves_send: "send_frame s f = (e, s') \<Longrightarrow> moves 0 [f] s s'"
  by (auto simp: send_frame_def moves_def Net_Send_def Let_def)

lemma moves_encrypt: "encryptProto s p b = (r, s') \<Longrightarrow> moves 0 [] s s'"
  by (auto simp: encryptProto_def moves_def dest!: Encrypt_keys split: sum.splits prod.splits)

lemma moves_ack:
  assumes "ackMsg s m = (e, s')"
  shows "\<exists>fs. moves 0 fs s s' \<and> length fs \<le> 1 \<and> (\<forall>x\<in>set fs. is_ack (cv_secure s) x)"
proof -
  obtain r s1 where e: "encryptProto s (ack_proto m) [] = (r, s1)" by fastforce
  note m1 = moves_encrypt [OF e]
  show ?thesis
  proof (cases r)
    case (Inl x)
    with assms e m1 have "moves 0 [] s s'" by (simp add: ackMsg_def)
    then show ?thesis by (intro exI [of _ "[]"]) simp
  next
    case (Inr f)
    with assms e have "send_frame s1 f = (e, s')" by (simp add: ackMsg_def)
    from moves_trans [OF m1 moves_send [OF this]] have "moves 0 [f] s s'" by simp
    moreover have "fst (Secure_Encrypt (cv_secure s) (ProtoHeader_Encode (ack_proto m))) = Inr f"
      using e Inr by (auto simp: encryptProto_def split: sum.splits prod.splits)
    then have "is_ack (cv_secure s) f" unfolding is_ack_def using same_keys_refl by blast
    ultimately show ?thesis by (intro exI [of _ "[f]"]) simp
  qed
qed

definition timed_out :: "Tick \<Rightarrow> bool" where
  "timed_out t \<longleftrightarrow> arrival t = Inl DeadlineExceeded"

lemma recvMsg_timeout:
  "recvMsg s = ((m, Some (RecvErr DeadlineExceeded)), s') \<Longrightarrow> timed_out (this_tick (cv_t s))"
  by (auto simp: recvMsg_def timed_out_def open_msg_def Let_def split: sum.splits prod.splits if_splits)

lemma recvMsg_no_timeout:
  "recvMsg s = ((m, e), s') \<Longrightarrow> e \<noteq> Some (RecvErr DeadlineExceeded) \<Longrightarrow> \<not> timed_out (this_tick (cv_t s))"
  by (auto simp: recvMsg_def timed_out_def Let_def split: sum.splits prod.splits if_splits)

text \<open>
  One iteration takes one tick and sends at most one datagram, the request again or an
  acknowledgement. It goes on with one more retransmission exactly after a timeout.
\<close>

lemma resume_moves:
  assumes "resume k r = (x, s')" "r = (e, s2)"
  shows "s' = s2 \<and> (x = Return (Inl (the e)) \<and> e \<noteq> None \<or> x = Continue k \<and> e = None)"
  using assms by (auto simp: resume_def split: option.splits)

lemma step_moves:
  assumes "exchange_step retr f ex s = (x, s')" "retr \<le> mrpMaxRetransmits"
  shows "\<exists>fs. moves 1 fs s s' \<and> length fs \<le> 1 \<and> (\<forall>y\<in>set fs. y = f \<or> is_ack (cv_secure s) y)
    \<and> (\<forall>k. x = Continue k \<longrightarrow> k \<le> mrpMaxRetransmits
        \<and> k = (if timed_out (this_tick (cv_t s)) then retr + 1 else retr)
        \<and> (timed_out (this_tick (cv_t s)) \<longrightarrow> fs = [f]))"
proof -
  obtain m err s1 where r: "recvMsg s = ((m, err), s1)" by (metis prod.collapse)
  note m1 = moves_recv [OF r]
  then have keys: "same_keys (cv_secure s) (cv_secure s1)" by (simp add: moves_def)
  have stay: ?thesis if "s' = s1" "\<And>k. x \<noteq> Continue k"
    using m1 that by (intro exI [of _ "[]"]) simp
  have pass: ?thesis if "s' = s1" "x = Continue retr" "err \<noteq> Some (RecvErr DeadlineExceeded)"
    using m1 that assms(2) recvMsg_no_timeout [OF r] by (intro exI [of _ "[]"]) simp
  have again: ?thesis if "resume k (send_frame s1 f) = (x, s')" "k \<le> mrpMaxRetransmits"
    "k = (if timed_out (this_tick (cv_t s)) then retr + 1 else retr)" for k
  proof -
    obtain e s2 where sf: "send_frame s1 f = (e, s2)" by fastforce
    note rm = resume_moves [OF that(1) sf]
    have "moves 1 [f] s s'" using moves_trans [OF m1 moves_send [OF sf]] rm by simp
    then show ?thesis using rm that(2,3) by (intro exI [of _ "[f]"]) auto
  qed
  have ack: ?thesis if "resume retr (ackMsg s1 m) = (x, s')" "err \<noteq> Some (RecvErr DeadlineExceeded)"
  proof -
    obtain e s2 where a: "ackMsg s1 m = (e, s2)" by fastforce
    obtain fs where fs: "moves 0 fs s1 s2" "length fs \<le> 1" "\<forall>y\<in>set fs. is_ack (cv_secure s1) y"
      using moves_ack [OF a] by blast
    note rm = resume_moves [OF that(1) a]
    have "moves 1 fs s s'" using moves_trans [OF m1 fs(1)] rm by simp
    moreover have "\<forall>y\<in>set fs. is_ack (cv_secure s) y" using fs(3) is_ack_same [OF keys] by blast
    ultimately show ?thesis
      using rm fs(2) assms(2) recvMsg_no_timeout [OF r that(2)] by (intro exI [of _ fs]) auto
  qed
  show ?thesis
  proof (cases err)
    case None
    with assms(1) r stay pass ack show ?thesis
      by (auto simp: exchange_step_def Let_def split: if_splits)
  next
    case (Some e)
    consider "e = SecureErr Replay" | "e = RecvErr DeadlineExceeded" | "e \<noteq> SecureErr Replay" "e \<noteq> RecvErr DeadlineExceeded"
      by blast
    then show ?thesis
    proof cases
      case 1
      have n: "\<not> timed_out (this_tick (cv_t s))" using recvMsg_no_timeout [OF r] Some 1 by simp
      show ?thesis
      proof (cases "p_ExchangeID (sm_ph m) = ex")
        case True
        have "resume retr (send_frame s1 f) = (x, s')" using assms(1) r Some 1 True by (simp add: exchange_step_def Let_def)
        with again [OF this] n assms(2) show ?thesis by simp
      next
        case False
        have "resume retr (ackMsg s1 m) = (x, s')" using assms(1) r Some 1 False by (simp add: exchange_step_def Let_def)
        with ack [OF this] Some 1 show ?thesis by simp
      qed
    next
      case 2
      have t: "timed_out (this_tick (cv_t s))" using recvMsg_timeout r Some 2 by simp
      show ?thesis
      proof (cases "ctx_after (this_tick (cv_t s)) \<or> retr \<ge> mrpMaxRetransmits")
        case True
        with assms(1) r Some 2 stay show ?thesis by (auto simp: exchange_step_def Let_def split: if_splits)
      next
        case False
        have "resume (retr + 1) (send_frame s1 f) = (x, s')"
          using assms(1) r Some 2 False by (simp add: exchange_step_def Let_def)
        with again [OF this] t False show ?thesis by simp
      qed
    next
      case 3
      with assms(1) r Some stay show ?thesis by (auto simp: exchange_step_def Let_def split: if_splits)
    qed
  qed
qed


text \<open>
  The whole exchange: at most 65 receives, at most one datagram for each, each of them the request
  or an acknowledgement, and at most five attempts that timed out, the last of which sends nothing.
\<close>

lemma loop_moves:
  "exchange_loop iters retr f ex s = (r, s') \<Longrightarrow> retr \<le> mrpMaxRetransmits \<Longrightarrow> iters \<le> Suc maxExchangeMessages \<Longrightarrow>
     \<exists>k fs. moves k fs s s' \<and> length fs \<le> k \<and> iters + k \<le> Suc maxExchangeMessages
       \<and> (\<forall>y\<in>set fs. y = f \<or> is_ack (cv_secure s) y)
       \<and> retr + length (filter timed_out (take k (ticks (cv_t s)))) \<le> Suc mrpMaxRetransmits"
proof (induction iters retr f ex s rule: exchange_loop.induct)
  case (1 iters retr f ex s)
  show ?case
  proof (cases "ctx_before (this_tick (cv_t s)) \<or> iters > maxExchangeMessages")
    case True
    with "1.prems"(1) have "s' = s" by (subst (asm) exchange_loop.simps) (auto split: if_splits)
    with "1.prems" moves_refl show ?thesis by (intro exI [of _ 0] exI [of _ "[]"]) simp
  next
    case False
    obtain x s1 where st: "exchange_step retr f ex s = (x, s1)" by fastforce
    obtain fs where fs: "moves 1 fs s s1" "length fs \<le> 1" "\<forall>y\<in>set fs. y = f \<or> is_ack (cv_secure s) y"
      "\<And>k. x = Continue k \<Longrightarrow> k \<le> mrpMaxRetransmits
        \<and> k = (if timed_out (this_tick (cv_t s)) then retr + 1 else retr)"
      using step_moves [OF st "1.prems"(2)] by blast
    have first: "length (filter timed_out (take 1 (ticks (cv_t s)))) \<le> 1"
      by (cases "ticks (cv_t s)") simp_all
    show ?thesis
    proof (cases x)
      case (Return r')
      with "1.prems"(1) False st have "s' = s1" by (subst (asm) exchange_loop.simps) simp
      with fs first "1.prems"(2) False show ?thesis by (intro exI [of _ 1] exI [of _ fs]) auto
    next
      case (Continue k)
      with "1.prems"(1) False st have "exchange_loop (iters + 1) k f ex s1 = (r, s')"
        by (subst (asm) exchange_loop.simps) simp
      then obtain l gs where l: "moves l gs s1 s'" "length gs \<le> l" "iters + 1 + l \<le> Suc maxExchangeMessages"
        "\<forall>y\<in>set gs. y = f \<or> is_ack (cv_secure s1) y"
        "k + length (filter timed_out (take l (ticks (cv_t s1)))) \<le> Suc mrpMaxRetransmits"
        using "1.IH" False st Continue fs(4) [OF Continue] by auto
      have keys: "same_keys (cv_secure s) (cv_secure s1)" and t1: "ticks (cv_t s1) = drop 1 (ticks (cv_t s))"
        using fs(1) by (simp_all add: moves_def)
      have "take (l + 1) (ticks (cv_t s)) = take 1 (ticks (cv_t s)) @ take l (ticks (cv_t s1))"
        unfolding t1 by (metis add.commute take_add)
      moreover have "length (filter timed_out (take 1 (ticks (cv_t s)))) + retr \<le> k"
        using fs(4) [OF Continue] by (cases "ticks (cv_t s)") (auto simp: this_tick_def)
      ultimately have "retr + length (filter timed_out (take (l + 1) (ticks (cv_t s)))) \<le> Suc mrpMaxRetransmits"
        using l(5) by simp
      moreover have "\<forall>y\<in>set (fs @ gs). y = f \<or> is_ack (cv_secure s) y"
        using fs(3) l(4) is_ack_same [OF keys] by auto
      ultimately show ?thesis
        using moves_trans [OF fs(1) l(1)] fs(2) l(2,3)
        by (intro exI [of _ "l + 1"] exI [of _ "fs @ gs"]) simp
    qed
  qed
qed

section \<open>What is returned\<close>

text \<open>The transmit counter plays no part in receiving.\<close>

lemma DecryptMsg_counter:
  "Secure_DecryptMsg (s\<lparr>txCounter := c\<rparr>) f = map_prod id (\<lambda>s'. s'\<lparr>txCounter := c\<rparr>) (Secure_DecryptMsg s f)"
  by (simp add: Secure_DecryptMsg_def Let_def split: sum.splits prod.splits bool.splits)

lemma open_msg_counter:
  "open_msg (s\<lparr>txCounter := c\<rparr>) f = map_prod id (\<lambda>s'. s'\<lparr>txCounter := c\<rparr>) (open_msg s f)"
  by (simp add: open_msg_def DecryptMsg_counter Let_def split: sum.splits prod.splits)

text \<open>The session after the datagrams of some ticks, when nothing but receiving happened.\<close>

fun hear :: "Secure \<Rightarrow> Tick list \<Rightarrow> Secure" where
  "hear s [] = s"
| "hear s (t # ts) =
     hear (case arrival t of Inl _ \<Rightarrow> s | Inr frame \<Rightarrow> snd (Secure_DecryptMsg s frame)) ts"

lemma hear_append: "hear s (ts @ us) = hear (hear s ts) us"
  by (induction ts arbitrary: s) simp_all

lemma hear_counter: "hear (s\<lparr>txCounter := c\<rparr>) ts = (hear s ts)\<lparr>txCounter := c\<rparr>"
proof (induction ts arbitrary: s)
  case (Cons t ts)
  show ?case
  proof (cases "arrival t")
    case (Inr frame)
    then show ?thesis using Cons [of "snd (Secure_DecryptMsg s frame)"] by (simp add: DecryptMsg_counter)
  qed (simp add: Cons)
qed simp

lemma hear_same: "same_keys s (hear s ts)"
proof (induction ts arbitrary: s)
  case (Cons t ts)
  show ?case
  proof (cases "arrival t")
    case (Inr frame)
    have "same_keys s (snd (Secure_DecryptMsg s frame))"
      using DecryptMsg_keys [of s frame] by (metis prod.collapse)
    from same_keys_trans [OF this Cons] show ?thesis using Inr by simp
  qed (simp add: Cons)
qed simp

lemma snd_open_msg: "snd (open_msg s frame) = snd (Secure_DecryptMsg s frame)"
  by (simp add: open_msg_def Let_def split: prod.splits sum.splits)

lemma recvMsg_hears:
  "recvMsg s = (r, s') \<Longrightarrow> cv_secure s' = hear (cv_secure s) (take 1 (ticks (cv_t s)))"
proof -
  assume r: "recvMsg s = (r, s')"
  show ?thesis
  proof (cases "ticks (cv_t s)")
    case Nil
    with r show ?thesis by (auto simp: recvMsg_def this_tick_def closed_tick_def Let_def)
  next
    case (Cons t ts)
    then have t: "this_tick (cv_t s) = t" by (simp add: this_tick_def)
    show ?thesis
    proof (cases "arrival t")
      case (Inl e)
      with r t Cons show ?thesis by (auto simp: recvMsg_def Let_def)
    next
      case (Inr frame)
      with r t Cons have "cv_secure s' = snd (open_msg (cv_secure s) frame)"
        by (auto simp: recvMsg_def Let_def split: prod.splits)
      with Inr Cons show ?thesis by (simp add: snd_open_msg)
    qed
  qed
qed

text \<open>Sending and acknowledging change the transmit counter of the session only.\<close>

definition counted :: "Secure \<Rightarrow> Secure \<Rightarrow> bool" where
  "counted s t \<longleftrightarrow> t = s\<lparr>txCounter := txCounter t\<rparr>"

lemma counted_refl [simp]: "counted s s" "counted s (s\<lparr>txCounter := c\<rparr>)"
  by (simp_all add: counted_def)

lemma counted_send: "send_frame s f = (e, s') \<Longrightarrow> counted (cv_secure s) (cv_secure s')"
  by (auto simp: send_frame_def Net_Send_def Let_def)

lemma counted_ack: "ackMsg s m = (e, s') \<Longrightarrow> counted (cv_secure s) (cv_secure s')"
  by (auto simp: ackMsg_def encryptProto_def Secure_Encrypt_def counted_def send_frame_def Let_def
      split: sum.splits prod.splits if_splits)

lemma snd_resume: "snd (resume k q) = snd q"
  by (simp add: resume_def split: prod.splits option.splits)

lemma step_hears:
  assumes "exchange_step retr f ex s = (x, s')"
  shows "counted (hear (cv_secure s) (take 1 (ticks (cv_t s)))) (cv_secure s')"
proof -
  obtain m err s1 where r: "recvMsg s = ((m, err), s1)" by (metis prod.collapse)
  have sent: "counted (cv_secure s1) (cv_secure (snd (send_frame s1 f)))"
    "counted (cv_secure s1) (cv_secure (snd (ackMsg s1 m)))"
    using counted_send counted_ack by (metis prod.collapse)+
  have "snd (exchange_step retr f ex s) \<in> {s1, snd (send_frame s1 f), snd (ackMsg s1 m)}"
    by (simp add: exchange_step_def r Let_def snd_resume split: option.splits)
  then have "s' \<in> {s1, snd (send_frame s1 f), snd (ackMsg s1 m)}" using assms by simp
  then have "counted (cv_secure s1) (cv_secure s')" using sent by auto
  then show ?thesis using recvMsg_hears [OF r] by simp
qed

lemma step_returns:
  assumes "exchange_step retr f ex s = (Return (Inr m), s')"
  shows "\<exists>t ts frame. ticks (cv_t s) = t # ts \<and> arrival t = Inr frame
    \<and> fst (open_msg (cv_secure s) frame) = (m, None)
    \<and> p_ExchangeID (sm_ph m) = ex \<and> \<not> isStandaloneAck (sm_ph m)"
proof -
  obtain n err s1 where r: "recvMsg s = ((n, err), s1)" by (metis prod.collapse)
  have no: "resume k q \<noteq> (Return (Inr m), u)" for k q u by (auto simp: resume_def split: option.splits prod.splits)
  have e: "err = None" "n = m" "p_ExchangeID (sm_ph m) = ex" "\<not> isStandaloneAck (sm_ph m)"
    using assms r no by (auto simp: exchange_step_def Let_def split: option.splits if_splits)
  then obtain frame where a: "arrival (this_tick (cv_t s)) = Inr frame" "fst (open_msg (cv_secure s) frame) = (m, None)"
    using r by (auto simp: recvMsg_def Let_def split: sum.splits prod.splits)
  then obtain t ts where "ticks (cv_t s) = t # ts" by (cases "ticks (cv_t s)") (simp_all add: this_tick_def closed_tick_def)
  then show ?thesis using a e by (auto simp: this_tick_def)
qed

text \<open>A message that the loop returns is the last one it received, opened in the session that hearing
  all the datagrams before it has left, and fresh there.\<close>

lemma loop_returns:
  "exchange_loop iters retr f ex s = (Inr m, s') \<Longrightarrow> retr \<le> mrpMaxRetransmits \<Longrightarrow>
     \<exists>ts t rest frame. ticks (cv_t s) = ts @ t # rest \<and> ticks (cv_t s') = rest \<and> arrival t = Inr frame
       \<and> fst (open_msg (hear (cv_secure s) ts) frame) = (m, None)
       \<and> counted (hear (cv_secure s) (ts @ [t])) (cv_secure s')
       \<and> p_ExchangeID (sm_ph m) = ex \<and> \<not> isStandaloneAck (sm_ph m)"
proof (induction iters retr f ex s rule: exchange_loop.induct)
  case (1 iters retr f ex s)
  have go: "\<not> (ctx_before (this_tick (cv_t s)) \<or> iters > maxExchangeMessages)"
    using "1.prems"(1) by (subst (asm) exchange_loop.simps) (auto split: if_splits)
  obtain x s1 where st: "exchange_step retr f ex s = (x, s1)" by fastforce
  obtain fs where fs: "moves 1 fs s s1" "\<And>k. x = Continue k \<Longrightarrow> k \<le> mrpMaxRetransmits"
    using step_moves [OF st "1.prems"(2)] by blast
  then have t1: "ticks (cv_t s1) = drop 1 (ticks (cv_t s))" by (simp add: moves_def)
  note h1 = step_hears [OF st]
  show ?case
  proof (cases x)
    case (Return r')
    with "1.prems"(1) go st have e: "exchange_step retr f ex s = (Return (Inr m), s')" "s1 = s'"
      by (subst (asm) exchange_loop.simps, simp)+
    from step_returns [OF e(1)] obtain t ts frame where t: "ticks (cv_t s) = t # ts" "arrival t = Inr frame"
      "fst (open_msg (cv_secure s) frame) = (m, None)" "p_ExchangeID (sm_ph m) = ex" "\<not> isStandaloneAck (sm_ph m)"
      by blast
    then show ?thesis
      using h1 t1 e(2) by (intro exI [of _ "[]"] exI [of _ t] exI [of _ ts] exI [of _ frame]) simp
  next
    case (Continue k)
    with "1.prems"(1) go st have "exchange_loop (iters + 1) k f ex s1 = (Inr m, s')"
      by (subst (asm) exchange_loop.simps) simp
    then obtain ts t rest frame where t: "ticks (cv_t s1) = ts @ t # rest" "ticks (cv_t s') = rest"
      "arrival t = Inr frame" "fst (open_msg (hear (cv_secure s1) ts) frame) = (m, None)"
      "counted (hear (cv_secure s1) (ts @ [t])) (cv_secure s')"
      "p_ExchangeID (sm_ph m) = ex" "\<not> isStandaloneAck (sm_ph m)"
      using "1.IH" go st Continue fs(2) [OF Continue] by auto
    obtain u where u: "ticks (cv_t s) = u # ts @ t # rest"
      using t1 t(1) by (cases "ticks (cv_t s)") simp_all
    let ?h = "hear (cv_secure s) [u]"
    have s1: "cv_secure s1 = ?h\<lparr>txCounter := txCounter (cv_secure s1)\<rparr>"
      using h1 u by (simp add: counted_def)
    have h: "hear (cv_secure s1) us = (hear (cv_secure s) (u # us))\<lparr>txCounter := txCounter (cv_secure s1)\<rparr>" for us
      by (subst s1) (simp add: hear_counter hear_append [of _ "[u]", simplified])
    have "fst (open_msg (hear (cv_secure s) (u # ts)) frame) = (m, None)"
      using t(4) by (simp only: h open_msg_counter fst_map_prod id_apply)
    moreover have "counted (hear (cv_secure s) (u # ts @ [t])) (cv_secure s')"
      using t(5) unfolding h by (simp add: counted_def)
    ultimately show ?thesis
      using t u by (intro exI [of _ "u # ts"] exI [of _ t] exI [of _ rest] exI [of _ frame]) simp
  qed
qed

section \<open>Losses and duplicates\<close>

text \<open>
  A tick that an exchange passes over, with the receive state after it: a timeout (counted), an
  authenticated duplicate, a standalone acknowledgement, or a message of another exchange.
\<close>

definition noise :: "u16 \<Rightarrow> Secure \<Rightarrow> Tick \<Rightarrow> (nat \<times> Secure) option" where
  "noise ex sec t =
     (if ctx_before t then None
      else case arrival t of
        Inl e \<Rightarrow> if e = DeadlineExceeded \<and> \<not> ctx_after t then Some (1, sec) else None
      | Inr frame \<Rightarrow>
          (let ((m, err), sec) = open_msg sec frame in
           if err = Some (SecureErr Replay)
             \<or> (err = None \<and> (isStandaloneAck (sm_ph m) \<or> p_ExchangeID (sm_ph m) \<noteq> ex))
           then Some (0, sec) else None))"

fun noise_run :: "u16 \<Rightarrow> Secure \<Rightarrow> Tick list \<Rightarrow> (nat \<times> Secure) option" where
  "noise_run ex sec [] = Some (0, sec)"
| "noise_run ex sec (t # ts) =
     (case noise ex sec t of
        None \<Rightarrow> None
      | Some (k, sec) \<Rightarrow> map_option (\<lambda>(l, sec). (k + l, sec)) (noise_run ex sec ts))"

lemma proto_length: "length (ProtoHeader_Encode p) \<le> 12"
  by (simp add: ProtoHeader_Encode_def)

text \<open>A standalone acknowledgement of the message \<open>m\<close>.\<close>

definition acks :: "Secure \<Rightarrow> secureMsg \<Rightarrow> bytes \<Rightarrow> bool" where
  "acks s m x \<longleftrightarrow> (\<exists>t. same_keys s t \<and> fst (Secure_Encrypt t (ProtoHeader_Encode (ack_proto m))) = Inr x)"

lemma acks_same: "same_keys s t \<Longrightarrow> acks t m x \<Longrightarrow> acks s m x"
  unfolding acks_def using same_keys_trans by blast

text \<open>A session that can still encrypt and whose sends succeed.\<close>

definition healthy :: "nat \<Rightarrow> Conversation \<Rightarrow> bool" where
  "healthy n s \<longleftrightarrow> keyed (cv_secure s) \<and> unat (txCounter (cv_secure s)) + n < 2 ^ 32 - 1
     \<and> failing (cv_t s) = (\<lambda>_. False)"

lemma encryptProto_healthy:
  assumes "healthy (Suc n) s" "length b \<le> 65000"
  obtains f where "encryptProto s p b = (Inr f, s\<lparr>cv_secure := (cv_secure s)\<lparr>txCounter := txCounter (cv_secure s) + 1\<rparr>\<rparr>)"
    "Secure_Encrypt (cv_secure s) (ProtoHeader_Encode p @ b)
      = (Inr f, (cv_secure s)\<lparr>txCounter := txCounter (cv_secure s) + 1\<rparr>)"
    "unat (txCounter (cv_secure s) + 1) = Suc (unat (txCounter (cv_secure s)))"
proof -
  let ?c = "txCounter (cv_secure s)"
  have small: "unat ?c + 1 < 2 ^ 32 - 1" using assms(1) by (simp add: healthy_def)
  then have n: "?c \<noteq> NOT 0" by (auto simp: unsigned_minus_1_eq_mask mask_eq_exp_minus_1)
  have "length (ProtoHeader_Encode p @ b) \<le> 65535" using proto_length [of p] assms(2) by simp
  then obtain f where f: "Secure_Encrypt (cv_secure s) (ProtoHeader_Encode p @ b)
      = (Inr f, (cv_secure s)\<lparr>txCounter := ?c + 1\<rparr>)"
    using Encrypt_returns [OF _ n] assms(1) by (force simp: healthy_def)
  have "unat (?c + 1) = Suc (unat ?c)" using small by (simp add: unat_word_ariths)
  with f that show ?thesis by (simp add: encryptProto_def)
qed

lemma healthy_upd:
  "healthy (Suc n) s \<Longrightarrow> unat (txCounter (cv_secure s) + 1) = Suc (unat (txCounter (cv_secure s))) \<Longrightarrow>
     healthy n (s\<lparr>cv_secure := (cv_secure s)\<lparr>txCounter := txCounter (cv_secure s) + 1\<rparr>\<rparr>)"
  by (simp add: healthy_def keyed_def)

lemma healthy_mono: "healthy n s \<Longrightarrow> m \<le> n \<Longrightarrow> healthy m s"
  by (simp add: healthy_def)

lemma send_healthy: "healthy n s \<Longrightarrow> \<exists>s'. send_frame s f = (None, s') \<and> healthy n s' \<and> cv_secure s' = cv_secure s"
  by (simp add: send_frame_def Net_Send_def healthy_def)

lemma ack_healthy:
  assumes "healthy (Suc n) s"
  shows "\<exists>s'. ackMsg s m = (None, s') \<and> healthy n s' \<and> (\<exists>c. cv_secure s' = (cv_secure s)\<lparr>txCounter := c\<rparr>)
    \<and> (\<exists>x. sent (cv_t s') = sent (cv_t s) @ [x] \<and> acks (cv_secure s) m x)"
proof -
  obtain f where f: "encryptProto s (ack_proto m) []
      = (Inr f, s\<lparr>cv_secure := (cv_secure s)\<lparr>txCounter := txCounter (cv_secure s) + 1\<rparr>\<rparr>)"
    and c: "unat (txCounter (cv_secure s) + 1) = Suc (unat (txCounter (cv_secure s)))"
    using encryptProto_healthy [OF assms, of "[]" "ack_proto m"] by auto
  have a: "acks (cv_secure s) m f"
  proof -
    have "fst (Secure_Encrypt (cv_secure s) (ProtoHeader_Encode (ack_proto m))) = Inr f"
      using f by (auto simp: encryptProto_def split: sum.splits prod.splits)
    with same_keys_refl show ?thesis unfolding acks_def by blast
  qed
  obtain s' where s': "send_frame (s\<lparr>cv_secure := (cv_secure s)\<lparr>txCounter := txCounter (cv_secure s) + 1\<rparr>\<rparr>) f = (None, s')"
    "healthy n s'" "cv_secure s' = (cv_secure s)\<lparr>txCounter := txCounter (cv_secure s) + 1\<rparr>"
    using send_healthy [OF healthy_upd [OF assms c], of f] by auto
  with moves_send [OF s'(1)] f a show ?thesis by (auto simp: ackMsg_def moves_def)
qed

text \<open>What an exchange sends on a noisy tick: after a timeout the request again, and only that.\<close>

definition meets :: "bytes \<Rightarrow> Secure \<Rightarrow> Tick \<Rightarrow> bytes list \<Rightarrow> bool" where
  "meets f sec t gs \<longleftrightarrow> length gs \<le> 1 \<and> (\<forall>y\<in>set gs. y = f \<or> is_ack sec y) \<and> (timed_out t \<longrightarrow> gs = [f])"

lemma meets_same: "same_keys s t \<Longrightarrow> meets f t u gs \<Longrightarrow> meets f s u gs"
  unfolding meets_def using is_ack_same by blast

lemma step_meets:
  assumes "exchange_step retr f ex s = (Continue k, s')" "retr \<le> mrpMaxRetransmits"
  obtains gs where "moves 1 gs s s'" "meets f (cv_secure s) (this_tick (cv_t s)) gs"
  using step_moves [OF assms] unfolding meets_def by blast

lemma noise_timeouts: "noise ex sec t = Some (k, sec') \<Longrightarrow> k = (if timed_out t then 1 else 0)"
  by (auto simp: noise_def timed_out_def Let_def split: if_splits sum.splits prod.splits)

lemma noise_run_timeouts: "noise_run ex sec ts = Some (k, sec') \<Longrightarrow> k = length (filter timed_out ts)"
  by (induction ts arbitrary: sec k) (auto dest: noise_timeouts split: option.splits prod.splits)

text \<open>Among the datagrams sent there are more copies of the request than timeouts, so as many losses
  as timeouts leave a copy.\<close>

lemma copies:
  "list_all2 (meets f sec) ts gs \<Longrightarrow> length (filter timed_out ts) \<le> length (filter ((=) f) (concat gs))"
proof (induction ts gs rule: list_all2_induct)
  case (Cons t ts g gs)
  then show ?case by (cases "timed_out t") (auto simp: meets_def)
qed simp

lemma copy_left:
  assumes "k < length (filter ((=) f) xs)" "finite L" "card L \<le> k"
  shows "\<exists>i < length xs. i \<notin> L \<and> xs ! i = f"
proof -
  let ?C = "{i. i < length xs \<and> f = xs ! i}"
  have "card ?C > card L" using assms(1,3) by (simp add: length_filter_conv_card)
  then have "\<not> ?C \<subseteq> L" using card_mono [OF assms(2)] by (meson not_less)
  then show ?thesis by auto
qed

text \<open>Over a noisy tick the iteration continues, in the receive state that the noise leaves.\<close>

lemma step_noise:
  assumes "noise ex sec (this_tick (cv_t s)) = Some (k, sec')" "cv_secure s = sec\<lparr>txCounter := c\<rparr>"
    and "healthy (Suc n) s" "retr + k \<le> mrpMaxRetransmits"
  shows "\<exists>s' c'. exchange_step retr f ex s = (Continue (retr + k), s') \<and> healthy n s'
    \<and> cv_secure s' = sec'\<lparr>txCounter := c'\<rparr>"
proof -
  obtain m err s1 where r: "recvMsg s = ((m, err), s1)" by (metis prod.collapse)
  have f1: "failing (cv_t s1) = failing (cv_t s)" using moves_recv [OF r] by (simp add: moves_def)
  have k1: "same_keys (cv_secure s) (cv_secure s1)" using moves_recv [OF r] by (simp add: moves_def)
  show ?thesis
  proof (cases "arrival (this_tick (cv_t s))")
    case (Inl e)
    with assms(1) have e: "e = DeadlineExceeded" "\<not> ctx_after (this_tick (cv_t s))" "k = 1" "sec' = sec"
      by (auto simp: noise_def split: if_splits)
    from Inl r have m: "err = Some (RecvErr e)" "cv_secure s1 = cv_secure s" by (auto simp: recvMsg_def Let_def)
    have "healthy n s1" using assms(3) f1 m(2) by (simp add: healthy_def)
    from send_healthy [OF this, of f] obtain s2 where
      "send_frame s1 f = (None, s2)" "healthy n s2" "cv_secure s2 = cv_secure s1" by blast
    with r m e assms(2,4) show ?thesis by (auto simp: exchange_step_def resume_def Let_def)
  next
    case (Inr frame)
    obtain res sec1 where o: "open_msg sec frame = (res, sec1)" by fastforce
    then have m: "res = (m, err)" "cv_secure s1 = sec1\<lparr>txCounter := c\<rparr>"
      using r Inr assms(2) by (auto simp: recvMsg_def open_msg_counter Let_def)
    have t: "txCounter (cv_secure s1) = txCounter (cv_secure s)" using m(2) assms(2) by simp
    have h: "healthy (Suc n) s1" using assms(3) f1 t same_keys_fields [OF k1] by (simp add: healthy_def)
    have n: "k = 0" "sec' = sec1" "err = Some (SecureErr Replay)
        \<or> (err = None \<and> (isStandaloneAck (sm_ph m) \<or> p_ExchangeID (sm_ph m) \<noteq> ex))"
      using assms(1) Inr o m(1) by (auto simp: noise_def Let_def split: if_splits)
    obtain s2 where s2: "send_frame s1 f = (None, s2)" "healthy n s2" "cv_secure s2 = cv_secure s1"
      using send_healthy [of n s1 f] healthy_mono [OF h] by auto
    obtain s3 c3 where s3: "ackMsg s1 m = (None, s3)" "healthy n s3" "cv_secure s3 = (cv_secure s1)\<lparr>txCounter := c3\<rparr>"
      using ack_healthy [OF h, of m] by blast
    have h1: "healthy n s1" using healthy_mono [OF h] by simp
    have out: "exchange_step retr f ex s = (Continue retr, s1) \<or> exchange_step retr f ex s = (Continue retr, s2)
      \<or> exchange_step retr f ex s = (Continue retr, s3)"
      using n(3) r s2(1) s3(1) by (auto simp: exchange_step_def resume_def Let_def)
    have "cv_secure s1 = sec'\<lparr>txCounter := c\<rparr>" "cv_secure s2 = sec'\<lparr>txCounter := c\<rparr>" "cv_secure s3 = sec'\<lparr>txCounter := c3\<rparr>"
      using n m s2(3) s3(3) by simp_all
    with out n(1) h1 s2(2) s3(2) show ?thesis by auto
  qed
qed

text \<open>After any noise with at most four timeouts, a fresh message of the exchange is returned.\<close>

lemma loop_noise:
  assumes "fst (open_msg sec' frame) = (m, None)" "p_ExchangeID (sm_ph m) = ex" "\<not> isStandaloneAck (sm_ph m)"
    and "arrival t = Inr frame" "\<not> ctx_before t"
  shows "noise_run ex sec ts = Some (k, sec') \<Longrightarrow> cv_secure s = sec\<lparr>txCounter := c\<rparr> \<Longrightarrow>
     healthy (length ts + n) s \<Longrightarrow> retr + k \<le> mrpMaxRetransmits \<Longrightarrow> iters + length ts \<le> maxExchangeMessages \<Longrightarrow>
     ticks (cv_t s) = ts @ t # rest \<Longrightarrow>
     \<exists>s' gs. exchange_loop iters retr f ex s = (Inr m, s') \<and> ticks (cv_t s') = rest \<and> healthy n s'
       \<and> cv_exchange s' = cv_exchange s \<and> sent (cv_t s') = sent (cv_t s) @ concat gs
       \<and> same_keys (cv_secure s) (cv_secure s') \<and> list_all2 (meets f (cv_secure s)) ts gs"
proof (induction ts arbitrary: sec k s c retr iters)
  case Nil
  then have t: "this_tick (cv_t s) = t" "sec' = sec" by (simp_all add: this_tick_def)
  obtain res s1 where r: "recvMsg s = (res, s1)" by fastforce
  then have res: "res = (m, None)"
    using assms(1,4) t Nil(2) by (cases "open_msg sec frame") (simp add: recvMsg_def open_msg_counter)
  note mv = moves_recv [OF r]
  have "txCounter (cv_secure s1) = txCounter (cv_secure s)"
    using r assms(4) t by (auto simp: recvMsg_def Let_def dest!: open_msg_keys split: prod.splits)
  then have "healthy n s1" using Nil(3) mv same_keys_fields [of "cv_secure s" "cv_secure s1"] by (simp add: healthy_def moves_def)
  moreover have "exchange_loop iters retr f ex s = (Inr m, s1)"
    using assms(2,3,5) t r res Nil(5) by (subst exchange_loop.simps) (simp add: exchange_step_def Let_def)
  ultimately show ?case using mv Nil(6) by (intro exI [of _ s1] exI [of _ "[]"]) (simp add: moves_def)
next
  case (Cons u ts)
  then obtain k1 sec1 k2 where n: "noise ex sec u = Some (k1, sec1)" "noise_run ex sec1 ts = Some (k2, sec')" "k = k1 + k2"
    by (auto split: option.splits prod.splits)
  have u: "this_tick (cv_t s) = u" using Cons.prems(6) by (simp add: this_tick_def)
  have nb: "\<not> ctx_before u" using n(1) by (auto simp: noise_def split: if_splits)
  obtain s1 c1 where s1: "exchange_step retr f ex s = (Continue (retr + k1), s1)" "healthy (length ts + n) s1"
    "cv_secure s1 = sec1\<lparr>txCounter := c1\<rparr>"
    using step_noise [of ex sec s k1 sec1 c "length ts + n" retr f] n Cons.prems u by auto
  have "retr \<le> mrpMaxRetransmits" using Cons.prems(4) by simp
  from step_meets [OF s1(1) this] obtain g where mv: "moves 1 g s s1" "meets f (cv_secure s) u g"
    using u by auto
  from mv(1) have same: "same_keys (cv_secure s) (cv_secure s1)" "sent (cv_t s1) = sent (cv_t s) @ g"
    by (simp_all add: moves_def)
  from mv(1) have "ticks (cv_t s1) = ts @ t # rest" "cv_exchange s1 = cv_exchange s" using Cons.prems(6) by (simp_all add: moves_def)
  with Cons.IH [OF n(2) s1(3,2), of "retr + k1" "iters + 1"] Cons.prems(4,5) n(3)
  obtain s' gs where s': "exchange_loop (iters + 1) (retr + k1) f ex s1 = (Inr m, s')" "ticks (cv_t s') = rest"
    "healthy n s'" "cv_exchange s' = cv_exchange s" "sent (cv_t s') = sent (cv_t s1) @ concat gs"
    "same_keys (cv_secure s1) (cv_secure s')" "list_all2 (meets f (cv_secure s1)) ts gs"
    by auto
  have "list_all2 (meets f (cv_secure s)) ts gs"
    by (rule list_all2_mono [OF s'(7)]) (rule meets_same [OF same(1)])
  then have "list_all2 (meets f (cv_secure s)) (u # ts) (g # gs)" using mv(2) by simp
  moreover have "sent (cv_t s') = sent (cv_t s) @ concat (g # gs)" using s'(5) same(2) by simp
  moreover note s'(2-4) same_keys_trans [OF same(1) s'(6)]
  moreover have "exchange_loop iters retr f ex s = exchange_loop (iters + 1) (retr + k1) f ex s1"
    using nb u Cons.prems(5) s1(1) by (subst exchange_loop.simps) simp
  ultimately show ?case using s'(1) by (intro exI [of _ s'] exI [of _ "g # gs"]) simp
qed


section \<open>Properties\<close>

lemma mrpInterval_values: "map mrpInterval [0..<6] = [400, 800, 1600, 3200, 3200, 3200]"
  by code_simp

text \<open>whatever the peer or an attacker sends, a reliable exchange ends after at most 65 attempts
  to receive, at most five of which wait for the deadline; it sends at most one datagram for each of
  them, and every one is the request again or a standalone acknowledgement.\<close>

theorem exchange_bounded:
  "\<exists>k fs. k \<le> Suc maxExchangeMessages \<and> moves k fs s (snd (exchangeRT f ex s)) \<and> length fs \<le> k
     \<and> set fs \<subseteq> insert f {y. is_ack (cv_secure s) y}
     \<and> length (filter timed_out (take k (ticks (cv_t s)))) \<le> Suc mrpMaxRetransmits"
proof -
  obtain r s' where e: "exchange_loop 0 0 f ex s = (r, s')" by fastforce
  obtain k fs where "moves k fs s s'" "length fs \<le> k" "0 + k \<le> Suc maxExchangeMessages"
    "\<forall>y\<in>set fs. y = f \<or> is_ack (cv_secure s) y"
    "0 + length (filter timed_out (take k (ticks (cv_t s)))) \<le> Suc mrpMaxRetransmits"
    using loop_moves [OF e] by blast
  then show ?thesis by (intro exI [of _ k] exI [of _ fs]) (auto simp: exchangeRT_def e)
qed

text \<open>C26: a message that an exchange returns came in the last datagram it received, sealed under
  the receive key of the session with the header's bytes as additional data; it is of this exchange
  and no standalone acknowledgement. Its counter is fresh: the replay window refused it neither
  before the exchange nor on account of any datagram heard since (\<open>hear\<close> is the session after those
  datagrams), and afterwards the session's window does refuse it.\<close>

theorem exchange_reply_authentic:
  assumes "exchangeRT f ex s = (Inr m, s')" "keyed (cv_secure s)"
  shows "\<exists>ts t rest frame hdr aad ct p. ticks (cv_t s) = ts @ t # rest \<and> ticks (cv_t s') = rest
    \<and> arrival t = Inr frame \<and> Header_Decode frame = Inr (hdr, ct) \<and> frame = aad @ ct
    \<and> h_SessionID hdr = LocalSessionID (cv_secure s) \<and> h_Counter hdr = sm_counter m
    \<and> DecodeProto p = Inr (sm_ph m, sm_payload m)
    \<and> fst (accept (rx (hear (cv_secure s) ts)) (sm_counter m))
    \<and> rx (cv_secure s') = snd (accept (rx (hear (cv_secure s) ts)) (sm_counter m))
    \<and> \<not> fst (accept (rx (cv_secure s')) (sm_counter m))
    \<and> p_ExchangeID (sm_ph m) = ex \<and> \<not> isStandaloneAck (sm_ph m)
    \<and> (length p \<le> 65535 \<longrightarrow>
        Ccm_Seal (recv (cv_secure s)) [] (nonce (aad ! 3) (sm_counter m) (PeerNodeID (cv_secure s))) p aad = Inr ct)"
proof -
  obtain ts t rest frame where t: "ticks (cv_t s) = ts @ t # rest" "ticks (cv_t s') = rest" "arrival t = Inr frame"
    "fst (open_msg (hear (cv_secure s) ts) frame) = (m, None)"
    "counted (hear (cv_secure s) (ts @ [t])) (cv_secure s')"
    "p_ExchangeID (sm_ph m) = ex" "\<not> isStandaloneAck (sm_ph m)"
    using loop_returns [OF assms(1) [unfolded exchangeRT_def]] by auto
  let ?u = "hear (cv_secure s) ts"
  note keys = same_keys_fields [OF hear_same [of "cv_secure s" ts]]
  obtain c p e u' where d: "Secure_DecryptMsg ?u frame = ((c, p, e), u')" by (metis prod.collapse)
  have m: "e = None" "DecodeProto p = Inr (sm_ph m, sm_payload m)" "sm_counter m = c"
    using t(4) d by (auto simp: open_msg_def Let_def split: if_splits sum.splits)
  obtain hdr aad ct where h: "Header_Decode frame = Inr (hdr, ct)" "frame = aad @ ct" "h_Counter hdr = c"
    "h_SessionID hdr = LocalSessionID ?u" "Ccm_Open (recv ?u) [] (nonce (aad ! 3) c (PeerNodeID ?u)) ct aad = Inr p"
    "u' = ?u\<lparr>rx := snd (accept (rx ?u) c)\<rparr>" "e = None \<longleftrightarrow> fst (accept (rx ?u) c)"
    by (rule DecryptMsg_cases [OF d]) (use m in auto)
  have seal: "length p \<le> 65535 \<longrightarrow> Ccm_Seal (recv ?u) [] (nonce (aad ! 3) c (PeerNodeID ?u)) p aad = Inr ct"
    using ccm_aead.unseal_only [of "c_block (recv ?u)"] h(5) keyed_ccm(2) [of ?u] keys assms(2) by simp
  have "hear (cv_secure s) (ts @ [t]) = u'" using t(3) d by (simp add: hear_append)
  then have "cv_secure s' = u'\<lparr>txCounter := txCounter (cv_secure s')\<rparr>" using t(5) by (simp add: counted_def)
  then have "rx (cv_secure s') = rx (u'\<lparr>txCounter := txCounter (cv_secure s')\<rparr>)" by (rule arg_cong)
  then have rx: "rx (cv_secure s') = snd (accept (rx ?u) c)" using h(6) by simp
  then have again: "\<not> fst (accept (rx (cv_secure s')) c)" using accept_again by simp
  have fresh: "fst (accept (rx ?u) c)" using h(7) m(1) by simp
  have fields: "h_SessionID hdr = LocalSessionID (cv_secure s)" using h(4) keys by simp
  have sealed: "length p \<le> 65535 \<longrightarrow>
      Ccm_Seal (recv (cv_secure s)) [] (nonce (aad ! 3) c (PeerNodeID (cv_secure s))) p aad = Inr ct"
    using seal keys by simp
  show ?thesis unfolding m(3)
    by (intro exI [of _ ts] exI [of _ t] exI [of _ rest] exI [of _ frame] exI [of _ hdr] exI [of _ aad]
        exI [of _ ct] exI [of _ p] conjI; fact t h(1-3) m(2) fields fresh rx again sealed)
qed

lemma request_proto_ok [simp]: "proto_ok (request_proto opcode ex)"
  by (simp add: proto_ok_def request_proto_def zeroProto_def)

text \<open>A round trip over noise: the request reaches the peer, the reply comes back.\<close>

lemma round_trip:
  assumes h: "healthy 70 s" and req: "length req \<le> 65000"
    and d: "keyed d" "paired (cv_secure s) d" "paired d (cv_secure s)"
    and reply: "Secure_Encrypt d (ProtoHeader_Encode ph @ b) = (Inr frame, d')" "proto_ok ph"
      "p_ExchangeID ph = cv_exchange s" "\<not> isStandaloneAck ph"
    and noise: "noise_run (cv_exchange s) (cv_secure s) ts = Some (k, sec)" "k \<le> 4" "length ts \<le> 64"
      "fst (accept (rx sec) (txCounter d))"
    and ticks: "ticks (cv_t s) = ts @ t # rest" "\<not> ctx_before t" "arrival t = Inr frame"
  shows "\<exists>s' f gs a p d''. roundTrip opcode req s = (Inr (ph, b), s') \<and> ticks (cv_t s') = rest
    \<and> cv_exchange s' = cv_exchange s + 1 \<and> sent (cv_t s') = sent (cv_t s) @ (f # concat gs) @ [a]
    \<and> list_all2 (meets f (cv_secure s)) ts gs
    \<and> acks (cv_secure s) \<lparr>sm_ph = ph, sm_counter = txCounter d, sm_payload = b\<rparr> a
    \<and> Secure_DecryptMsg d f = ((txCounter (cv_secure s), p,
        if fst (accept (rx d) (txCounter (cv_secure s))) then None else Some Replay), d'')
    \<and> snd (snd (fst (Secure_DecryptMsg d'' f))) = Some Replay
    \<and> DecodeProto p = Inr (request_proto opcode (cv_exchange s), req)"
proof -
  let ?ex = "cv_exchange s" and ?p = "request_proto opcode (cv_exchange s)"
  let ?s0 = "s\<lparr>cv_exchange := ?ex + 1\<rparr>"
  have h0: "healthy (Suc 69) ?s0" using h by (simp add: healthy_def)
  obtain f where f: "encryptProto ?s0 ?p req
      = (Inr f, ?s0\<lparr>cv_secure := (cv_secure s)\<lparr>txCounter := txCounter (cv_secure s) + 1\<rparr>\<rparr>)"
    "Secure_Encrypt (cv_secure s) (ProtoHeader_Encode ?p @ req) = (Inr f, (cv_secure s)\<lparr>txCounter := txCounter (cv_secure s) + 1\<rparr>)"
    "unat (txCounter (cv_secure s) + 1) = Suc (unat (txCounter (cv_secure s)))"
    using encryptProto_healthy [OF h0 req, of ?p] by auto
  let ?s1 = "?s0\<lparr>cv_secure := (cv_secure s)\<lparr>txCounter := txCounter (cv_secure s) + 1\<rparr>\<rparr>"
  have h1: "healthy 69 ?s1" using healthy_upd [OF h0] f(3) by simp
  obtain s2 where s2: "send_frame ?s1 f = (None, s2)" "healthy 69 s2" "cv_secure s2 = cv_secure ?s1"
    using send_healthy [OF h1] by blast
  note mv2 = moves_send [OF s2(1)]
  have r: "fst (open_msg sec frame) = (\<lparr>sm_ph = ph, sm_counter = txCounter d, sm_payload = b\<rparr>, None)"
  proof -
    have same: "same_keys (cv_secure s) sec" if "noise_run ex s0 ts = Some (k, sec)" "same_keys (cv_secure s) s0" for ex s0 k ts
      using that
    proof (induction ts arbitrary: s0 k)
      case (Cons u ts)
      then obtain k1 s1 k2 where n: "noise ex s0 u = Some (k1, s1)" "noise_run ex s1 ts = Some (k2, sec)"
        by (auto split: option.splits prod.splits)
      then have "same_keys s0 s1"
        by (auto simp: noise_def Let_def split: if_splits sum.splits prod.splits dest!: open_msg_keys)
      with Cons n show ?case using same_keys_trans by blast
    qed simp
    note keys = same_keys_fields [OF same [OF noise(1) same_keys_refl]]
    have "keyed sec" "paired d sec" using keys h d(3) by (simp_all add: healthy_def paired_def)
    from DecryptMsg_Encrypt [OF d(1) this reply(1)] noise(4)
    show ?thesis by (simp add: open_msg_def DecodeProto_Encode reply(2))
  qed
  have "\<exists>s3 gs. exchange_loop 0 0 f ?ex s2 = (Inr \<lparr>sm_ph = ph, sm_counter = txCounter d, sm_payload = b\<rparr>, s3)
      \<and> ticks (cv_t s3) = rest \<and> healthy 5 s3 \<and> cv_exchange s3 = cv_exchange s2
      \<and> sent (cv_t s3) = sent (cv_t s2) @ concat gs \<and> same_keys (cv_secure s2) (cv_secure s3)
      \<and> list_all2 (meets f (cv_secure s2)) ts gs"
  proof (rule loop_noise [OF r _ _ ticks(3,2) noise(1)])
    show "cv_secure s2 = cv_secure s\<lparr>txCounter := txCounter (cv_secure s) + 1\<rparr>" using s2(3) by simp
    show "healthy (length ts + 5) s2" using healthy_mono [OF s2(2)] noise(3) by simp
    show "ticks (cv_t s2) = ts @ t # rest" using mv2 ticks(1) by (simp add: moves_def)
  qed (use reply noise in simp_all)
  then obtain s3 gs where s3: "exchangeRT f ?ex s2 = (Inr \<lparr>sm_ph = ph, sm_counter = txCounter d, sm_payload = b\<rparr>, s3)"
    "ticks (cv_t s3) = rest" "healthy (Suc 4) s3" "cv_exchange s3 = cv_exchange s2"
    "sent (cv_t s3) = sent (cv_t s2) @ concat gs" "same_keys (cv_secure s2) (cv_secure s3)"
    "list_all2 (meets f (cv_secure s2)) ts gs"
    unfolding exchangeRT_def by auto
  let ?m = "\<lparr>sm_ph = ph, sm_counter = txCounter d, sm_payload = b\<rparr>"
  obtain s4 a where s4: "ackMsg s3 ?m = (None, s4)" "sent (cv_t s4) = sent (cv_t s3) @ [a]" "acks (cv_secure s3) ?m a"
    using ack_healthy [OF s3(3)] by blast
  obtain hs where mv4: "moves 0 hs s3 s4" using moves_ack [OF s4(1)] by blast
  have k2: "same_keys (cv_secure s) (cv_secure s2)" using s2(3) by (simp add: same_keys_def)
  have "roundTrip opcode req s = (Inr (ph, b), s4)"
    using f(1) s2(1) s3(1) s4(1)
    by (simp add: roundTrip_def act_bind_def nextExchange_def act_unit_def act_of_def)
  moreover have "ticks (cv_t s4) = rest" using mv4 s3(2) by (simp add: moves_def)
  moreover have "cv_exchange s4 = ?ex + 1" using mv4 s3(4) mv2 by (simp add: moves_def)
  moreover have "sent (cv_t s4) = sent (cv_t s) @ (f # concat gs) @ [a]" using mv2 s3(5) s4(2) by (simp add: moves_def)
  moreover have "list_all2 (meets f (cv_secure s)) ts gs"
    by (rule list_all2_mono [OF s3(7)]) (rule meets_same [OF k2])
  moreover have "acks (cv_secure s) ?m a" by (rule acks_same [OF same_keys_trans [OF k2 s3(6)] s4(3)])
  moreover have "DecodeProto (ProtoHeader_Encode ?p @ req) = Inr (?p, req)" by (rule DecodeProto_Encode) simp
  moreover have k: "keyed (cv_secure s)" using h by (simp add: healthy_def)
  note once = DecryptMsg_Encrypt [OF k d(1,2) f(2)]
  moreover have "keyed (d\<lparr>rx := w\<rparr>)" "paired (cv_secure s) (d\<lparr>rx := w\<rparr>)" for w
    using d by (simp_all add: keyed_def paired_def)
  from DecryptMsg_Encrypt [OF k this f(2)]
  have "snd (snd (fst (Secure_DecryptMsg (d\<lparr>rx := snd (accept (rx d) (txCounter (cv_secure s)))\<rparr>) f))) = Some Replay"
    using accept_again by simp
  ultimately show ?thesis by blast
qed


text \<open>C24: a command is carried out over a lossy network. The session's peer is a device that answers
  with one result. Whatever comes before the answer, as long as it is timeouts (at most four),
  duplicates, acknowledgements and messages of other exchanges, at most 64 in all, \<^verbatim>\<open>Invoke\<close> returns
  exactly that result. Before the answer it sent the request \<open>f\<close> and then, for the \<open>i\<close>-th of those
  events, \<open>gs ! i\<close>: the same \<open>f\<close> again after each timeout, and never anything but \<open>f\<close> or an
  acknowledgement; last it acknowledged the answer. So whichever of these datagrams the network
  loses, if they are no more than the timeouts, a copy of \<open>f\<close> gets through; \<open>f\<close> decrypts at the device to
  a request with exactly that command, and a second copy is recognised there as a duplicate.\<close>

theorem invoke_end_to_end:
  assumes cmd: "fields_encoded (ic_Fields cmd)" and res: "result_encoded res"
    and req: "EncodeInvokeRequest [cmd] False False = Inr req" "length req \<le> 65000"
    and "healthy 70 s" "keyed d" "paired (cv_secure s) d" "paired d (cv_secure s)"
    and reply: "EncodeInvokeResponse [res] False = Inr b"
      "Secure_Encrypt d (ProtoHeader_Encode (zeroProto\<lparr>p_ExchangeID := cv_exchange s,
         p_ProtocolID := ProtocolInteractionModel, p_Opcode := IMInvokeResponse\<rparr>) @ b) = (Inr frame, d')"
    and "noise_run (cv_exchange s) (cv_secure s) ts = Some (k, sec)" "k \<le> 4" "length ts \<le> 64"
      "fst (accept (rx sec) (txCounter d))"
    and "ticks (cv_t s) = ts @ t # rest" "\<not> ctx_before t" "arrival t = Inr frame"
  shows "\<exists>s' f gs a p d'' proto q. Invoke cmd s = (Inr res, s') \<and> ticks (cv_t s') = rest
    \<and> sent (cv_t s') = sent (cv_t s) @ (f # concat gs) @ [a]
    \<and> length gs = length ts \<and> k = length (filter timed_out ts)
    \<and> (\<forall>i < length ts. (timed_out (ts ! i) \<longrightarrow> gs ! i = [f]) \<and> length (gs ! i) \<le> 1
         \<and> set (gs ! i) \<subseteq> insert f {y. is_ack (cv_secure s) y})
    \<and> (\<exists>u ph. same_keys (cv_secure s) u \<and> p_AckPresent ph \<and> p_AckCounter ph = txCounter d
         \<and> isStandaloneAck ph \<and> fst (Secure_Encrypt u (ProtoHeader_Encode ph)) = Inr a)
    \<and> (\<forall>L. finite L \<and> card L \<le> k \<longrightarrow> (\<exists>i < length (f # concat gs). i \<notin> L \<and> (f # concat gs) ! i = f))
    \<and> Secure_DecryptMsg d f = ((txCounter (cv_secure s), p,
        if fst (accept (rx d) (txCounter (cv_secure s))) then None else Some Replay), d'')
    \<and> snd (snd (fst (Secure_DecryptMsg d'' f))) = Some Replay
    \<and> DecodeProto p = Inr (proto, q) \<and> p_ExchangeID proto = cv_exchange s
    \<and> DecodeInvokeRequest q = Some (Inr ([cmd], False, False))"
proof -
  let ?ph = "zeroProto\<lparr>p_ExchangeID := cv_exchange s, p_ProtocolID := ProtocolInteractionModel,
    p_Opcode := IMInvokeResponse\<rparr>"
  have "proto_ok ?ph" "p_ExchangeID ?ph = cv_exchange s" "\<not> isStandaloneAck ?ph"
    by (simp_all add: proto_ok_def zeroProto_def isStandaloneAck_def)
  from round_trip [OF assms(5) req(2) assms(6,7,8) reply(2) this assms(11-17), of IMInvokeRequest]
  obtain s' f gs a p d'' where r: "roundTrip IMInvokeRequest req s = (Inr (?ph, b), s')" "ticks (cv_t s') = rest"
    "sent (cv_t s') = sent (cv_t s) @ (f # concat gs) @ [a]" "list_all2 (meets f (cv_secure s)) ts gs"
    "acks (cv_secure s) \<lparr>sm_ph = ?ph, sm_counter = txCounter d, sm_payload = b\<rparr> a"
    "Secure_DecryptMsg d f = ((txCounter (cv_secure s), p,
        if fst (accept (rx d) (txCounter (cv_secure s))) then None else Some Replay), d'')"
    "snd (snd (fst (Secure_DecryptMsg d'' f))) = Some Replay"
    "DecodeProto p = Inr (request_proto IMInvokeRequest (cv_exchange s), req)"
    by blast
  have "DecodeInvokeResponse b = Some (Inr [res])"
    using invoke_response_decodes [of "[res]" False] res reply(1) by auto
  then have inv: "Invoke cmd s = (Inr res, s')"
    using req(1) r(1) by (simp add: Invoke_def act_bind_def act_encode_def check_opcode_def act_of_def act_decode_def the_one_def)
  have k: "k = length (filter timed_out ts)" by (rule noise_run_timeouts [OF assms(11)])
  have left: "\<exists>i < length (f # concat gs). i \<notin> L \<and> (f # concat gs) ! i = f" if "finite L \<and> card L \<le> k" for L
    by (rule copy_left [of k]) (use copies [OF r(4)] k that in auto)
  have ack: "\<exists>u ph. same_keys (cv_secure s) u \<and> p_AckPresent ph \<and> p_AckCounter ph = txCounter d
      \<and> isStandaloneAck ph \<and> fst (Secure_Encrypt u (ProtoHeader_Encode ph)) = Inr a"
    using r(5) unfolding acks_def by (force simp: ack_proto_def isStandaloneAck_def)
  have each: "(timed_out (ts ! i) \<longrightarrow> gs ! i = [f]) \<and> length (gs ! i) \<le> 1
      \<and> set (gs ! i) \<subseteq> insert f {y. is_ack (cv_secure s) y}" if "i < length ts" for i
    using list_all2_nthD [OF r(4) that] by (auto simp: meets_def)
  have "DecodeInvokeRequest req = Some (Inr ([cmd], False, False))"
    using invoke_request_decodes [of "[cmd]" False False] cmd req(1) by auto
  moreover have "p_ExchangeID (request_proto IMInvokeRequest (cv_exchange s)) = cv_exchange s"
    by (simp add: request_proto_def)
  ultimately show ?thesis
    using inv r(2,3,6-8) list_all2_lengthD [OF r(4)] k left ack each
    by (intro exI [of _ s'] exI [of _ f] exI [of _ gs] exI [of _ a] exI [of _ p] exI [of _ d'']
        exI [of _ "request_proto IMInvokeRequest (cv_exchange s)"] exI [of _ req]) auto
qed

text \<open>A device that answers a level command after one lost transmission.\<close>

definition example_result :: InvokeResult where
  "example_result = \<lparr>ir_Command = None, ir_Status = Some \<lparr>cs_Path = ic_Path example_command, cs_Status = 0\<rparr>\<rparr>"

definition lost :: Tick where
  "lost = \<lparr>ctx_before = False, arrival = Inl DeadlineExceeded, ctx_after = False\<rparr>"

definition example_reply :: "bytes \<Rightarrow> bytes" where
  "example_reply b = ProtoHeader_Encode (zeroProto\<lparr>p_ExchangeID := 2,
     p_ProtocolID := ProtocolInteractionModel, p_Opcode := IMInvokeResponse\<rparr>) @ b"

definition example_conversation :: "bytes \<Rightarrow> Conversation" where
  "example_conversation frame = \<lparr>cv_secure = (example_session 1 2 100 200)\<lparr>txCounter := 5\<rparr>,
     cv_t = \<lparr>ticks = [lost, \<lparr>ctx_before = False, arrival = Inr frame, ctx_after = False\<rparr>],
       failing = (\<lambda>_. False), sent = []\<rparr>,
     cv_exchange = 2\<rparr>"

lemma example_counter [simp]:
  "rx ((example_session l p ln pn)\<lparr>txCounter := c\<rparr>) = zeroWindow"
  "Secure.txCounter ((example_session l p ln pn)\<lparr>txCounter := c\<rparr>) = c"
  by (simp_all add: example_session_def)

theorem invoke_end_to_end_witness:
  "\<exists>b frame s'. EncodeInvokeResponse [example_result] False = Inr b
    \<and> fst (Secure_Encrypt (example_session 2 1 200 100) (example_reply b)) = Inr frame
    \<and> Invoke example_command (example_conversation frame) = (Inr example_result, s')
    \<and> (\<exists>r a. sent (cv_t s') = [r, r, a])"
proof -
  let ?d = "example_session 2 1 200 100"
  have res: "result_encoded example_result" by (simp add: result_encoded_def example_result_def)
  have "list_all (result_ok (\<lambda>_. [])) [example_result]" by (simp add: result_ok_def example_result_def)
  moreover have "length (enc (invoke_response_elem (\<lambda>_. []) [example_result] False)) \<le> 99" by code_simp
  then have "length (enc (invoke_response_elem (\<lambda>_. []) [example_result] False)) \<le> 65000" by simp
  ultimately obtain b where b: "EncodeInvokeResponse [example_result] False = Inr b" "length b \<le> 65000"
    using EncodeInvokeResponse_elem by blast
  let ?g = "\<lambda>_ :: InvokeCommand. [ctx_uint 0 0x80]"
  have "flat_fields [ctx_uint 0 0x80] (ic_Fields example_command)" by code_simp
  then have e: "EncodeInvokeRequest [example_command] False False = Inr (enc (invoke_request_elem ?g [example_command] False False))"
    by (intro EncodeInvokeRequest_elem) simp
  have "length (enc (invoke_request_elem ?g [example_command] False False)) \<le> 99" by code_simp
  then obtain q where q: "EncodeInvokeRequest [example_command] False False = Inr q" "length q \<le> 65000"
    using e by simp
  have "length (example_reply b) \<le> 65535" 
    using b(2) proto_length [of "zeroProto\<lparr>p_ExchangeID := 2, p_ProtocolID := ProtocolInteractionModel,
      p_Opcode := IMInvokeResponse\<rparr>"] by (simp add: example_reply_def)
  then obtain frame where f: "Secure_Encrypt ?d (example_reply b) = (Inr frame, ?d\<lparr>txCounter := txCounter ?d + 1\<rparr>)"
    using Encrypt_returns [of ?d "example_reply b"] by auto
  let ?s = "example_conversation frame"
  have p: "paired (cv_secure ?s) ?d" "paired ?d (cv_secure ?s)"
    by (simp_all add: paired_def example_conversation_def example_session_def)
  have h: "healthy 70 ?s" by (simp add: healthy_def example_conversation_def keyed_def example_session_def matter_ccm_def)
  have "rx (cv_secure ?s) = zeroWindow" by (simp add: example_conversation_def)
  then have acc: "fst (accept (rx (cv_secure ?s)) (txCounter ?d))" by (simp add: accept_def zeroWindow_def)
  have n: "noise_run (cv_exchange ?s) (cv_secure ?s) [lost] = Some (1, cv_secure ?s)" by (simp add: noise_def lost_def)
  let ?t = "\<lparr>ctx_before = False, arrival = Inr frame, ctx_after = False\<rparr>"
  have enc: "Secure_Encrypt ?d (ProtoHeader_Encode (zeroProto\<lparr>p_ExchangeID := cv_exchange ?s,
      p_ProtocolID := ProtocolInteractionModel, p_Opcode := IMInvokeResponse\<rparr>) @ b)
      = (Inr frame, ?d\<lparr>txCounter := txCounter ?d + 1\<rparr>)"
    using f by (simp add: example_reply_def example_conversation_def)
  have tk: "ticks (cv_t ?s) = [lost] @ ?t # []" by (simp add: example_conversation_def)
  have "(1 :: nat) \<le> 4" "length [lost] \<le> 64" "\<not> ctx_before ?t" "arrival ?t = Inr frame" by simp_all
  note inv = invoke_end_to_end [OF example_fields res q h example_session_keyed p b(1) enc n this(1,2)
      acc tk this(3,4)]
  have "\<exists>s' r a. Invoke example_command ?s = (Inr example_result, s') \<and> sent (cv_t s') = [r, r, a]"
  proof -
    have e: "sent (cv_t ?s) = []" by (simp add: example_conversation_def)
    have "timed_out lost" by (simp add: timed_out_def lost_def)
    moreover obtain s' r gs a where "Invoke example_command ?s = (Inr example_result, s')"
      "sent (cv_t s') = sent (cv_t ?s) @ (r # concat gs) @ [a]" "length gs = length [lost]"
      and each: "\<forall>i < length [lost]. (timed_out ([lost] ! i) \<longrightarrow> gs ! i = [r]) \<and> length (gs ! i) \<le> 1
        \<and> set (gs ! i) \<subseteq> insert r {y. is_ack (cv_secure ?s) y}"
      using inv by (elim exE conjE) (rule that; assumption)
    moreover have "timed_out ([lost] ! 0) \<longrightarrow> gs ! 0 = [r]" using each [rule_format, of 0] by simp
    ultimately show ?thesis using e by (cases gs) auto
  qed
  with b f show ?thesis by auto
qed


section \<open>The handshake's messages\<close>

lemma parse_frame:
  assumes "present \<or> ack = 0"
  shows "\<exists>hdr ph. parseUnsecuredMsg (frameUnsecuredAck c ex ini opc payload ack present) = Inr (hdr, ph, payload)
    \<and> h_Counter hdr = c \<and> p_ExchangeID ph = ex \<and> p_Opcode ph = opc \<and> p_Initiator ph = ini
    \<and> p_AckPresent ph = present \<and> p_AckCounter ph = ack \<and> p_ProtocolID ph = ProtocolSecureChannel"
proof -
  let ?h = "zeroHeader\<lparr>h_SessionType := Unicast, h_Counter := c\<rparr>"
  let ?p0 = "zeroProto\<lparr>p_Initiator := ini, p_Reliable := True, p_Opcode := opc, p_ExchangeID := ex,
    p_ProtocolID := ProtocolSecureChannel, p_AckCounter := ack, p_AckPresent := present\<rparr>"
  let ?p = "if opc = SCStandaloneAck then ?p0\<lparr>p_Reliable := False\<rparr> else ?p0"
  have h: "header_ok ?h" by (simp add: header_ok_def zeroHeader_def)
  have "proto_ok ?p" using assms by (auto simp: proto_ok_def zeroProto_def)
  then have p: "DecodeProto (ProtoHeader_Encode ?p @ payload) = Inr (?p, payload)" by (rule DecodeProto_Encode)
  have d: "Header_Decode (header_bytes ?h @ x) = Inr (?h, x)" for x by (rule hdr.dec_enc [OF h])
  have "parseUnsecuredMsg (frameUnsecuredAck c ex ini opc payload ack present) = Inr (?h, ?p, payload)"
    unfolding frameUnsecuredAck_def Header_Encode_ok [OF h] Let_def sum.case parseUnsecuredMsg_def d p prod.case
    by (simp add: zeroHeader_def)
  then show ?thesis by (auto simp: zeroHeader_def)
qed

text \<open>A message that \<^verbatim>\<open>awaitSC\<close> returns is one whose counter it had not seen, and it is remembered.\<close>

lemma await_fresh:
  "await_loop iters retr f seen n = (Inr (hdr, ph, b), seen', n') \<Longrightarrow>
     h_Counter hdr \<notin> seen \<and> h_Counter hdr \<in> seen' \<and> seen \<subseteq> seen' \<and> \<not> isStandaloneAck ph"
proof (induction iters retr f seen n rule: await_loop.induct)
  case (1 iters retr f seen n)
  have go: "\<not> (ctx_before (this_tick n) \<or> iters > maxExchangeMessages)"
    using "1.prems" by (subst (asm) await_loop.simps) (auto split: if_splits)
  obtain x seen1 n1 where st: "await_step retr f seen n = (x, seen1, n1)" by (metis prod.collapse)
  show ?case
  proof (cases x)
    case (Return r)
    with "1.prems" go st have "await_step retr f seen n = (Return (Inr (hdr, ph, b)), seen', n')"
      by (subst (asm) await_loop.simps) simp
    then show ?thesis
      by (auto simp: await_step_def await_resume_def Let_def split: sum.splits if_splits prod.splits)
  next
    case (Continue k)
    with "1.prems" go st have "await_loop (iters + 1) k f seen1 n1 = (Inr (hdr, ph, b), seen', n')"
      by (subst (asm) await_loop.simps) simp
    then have "h_Counter hdr \<notin> seen1 \<and> h_Counter hdr \<in> seen' \<and> seen1 \<subseteq> seen' \<and> \<not> isStandaloneAck ph"
      using "1.IH" go st Continue by auto
    moreover have "seen \<subseteq> seen1"
      using st Continue by (auto simp: await_step_def await_resume_def Let_def split: sum.splits if_splits prod.splits)
    ultimately show ?thesis by auto
  qed
qed


theorem exchange_reply_authentic_witness:
  "\<exists>frame m s' f hdr ct. exchangeRT [0] 2 (example_conversation frame) = (Inr m, s')
    \<and> sm_payload m = [7] \<and> Header_Decode f = Inr (hdr, ct) \<and> h_Counter hdr = sm_counter m"
proof -
  let ?d = "example_session 2 1 200 100" and ?ph = "zeroProto\<lparr>p_ExchangeID := 2,
    p_ProtocolID := ProtocolInteractionModel, p_Opcode := IMInvokeResponse\<rparr>"
  have "length (example_reply [7]) \<le> 65535" using proto_length [of ?ph] by (simp add: example_reply_def)
  then obtain frame where f: "Secure_Encrypt ?d (example_reply [7]) = (Inr frame, ?d\<lparr>txCounter := txCounter ?d + 1\<rparr>)"
    using Encrypt_returns [of ?d "example_reply [7]"] by auto
  let ?s = "example_conversation frame" and ?m = "\<lparr>sm_ph = ?ph, sm_counter = txCounter ?d, sm_payload = [7]\<rparr>"
  let ?t = "\<lparr>ctx_before = False, arrival = Inr frame, ctx_after = False\<rparr>"
  have k: "keyed (cv_secure ?s)" by (simp add: example_conversation_def keyed_def example_session_def matter_ccm_def)
  have p: "paired ?d (cv_secure ?s)" by (simp add: paired_def example_conversation_def example_session_def)
  have rx: "rx (cv_secure ?s) = zeroWindow" by (simp add: example_conversation_def)
  have ok: "proto_ok ?ph" by (simp add: proto_ok_def zeroProto_def)
  have o: "fst (open_msg (cv_secure ?s) frame) = (?m, None)"
    using DecryptMsg_Encrypt [OF _ k p f] DecodeProto_Encode [OF ok, of "[7]"]
    by (simp add: open_msg_def example_reply_def rx accept_def zeroWindow_def)
  have n: "noise_run 2 (cv_secure ?s) [lost] = Some (1, cv_secure ?s)" by (simp add: noise_def lost_def)
  have "\<exists>s' gs. exchange_loop 0 0 [0] 2 ?s = (Inr ?m, s') \<and> ticks (cv_t s') = [] \<and> healthy 5 s'
      \<and> cv_exchange s' = cv_exchange ?s \<and> sent (cv_t s') = sent (cv_t ?s) @ concat gs
      \<and> same_keys (cv_secure ?s) (cv_secure s') \<and> list_all2 (meets [0] (cv_secure ?s)) [lost] gs"
    by (rule loop_noise [OF o _ _ _ _ n, where t = ?t and c = 5])
      (simp_all add: zeroProto_def isStandaloneAck_def healthy_def k,
       simp_all add: example_conversation_def keyed_def example_session_def matter_ccm_def)
  then obtain s' where e: "exchangeRT [0] 2 ?s = (Inr ?m, s')" by (auto simp: exchangeRT_def)
  from exchange_reply_authentic [OF this k] e show ?thesis by fastforce
qed

end
