(* ===== verification/Exchange_Reports.thy ===== *)
theory Exchange_Reports
  imports Exchange_Properties
begin

text \<open>
  Subscriptions: what \<^verbatim>\<open>Listen\<close> does with the frames of a device that arrive in order with
  retransmissions in between, over the session and its replay window.
\<close>

section \<open>Reports of a subscription\<close>

text \<open>
  The order in which the frames of a device arrive: the \<open>n\<close> frames for the first time in the order
  they were sent, and between them any number of retransmissions of the \<open>k\<close> that came before.
\<close>

fun arrives :: "nat \<Rightarrow> nat \<Rightarrow> nat list \<Rightarrow> bool" where
  "arrives n k [] \<longleftrightarrow> k = n"
| "arrives n k (i # is) \<longleftrightarrow> i < n \<and> i \<le> k \<and> arrives n (if i = k then k + 1 else k) is"

definition datagram :: "bytes \<Rightarrow> Tick" where
  "datagram f = \<lparr>ctx_before = False, arrival = Inr f, ctx_after = False\<rparr>"

text \<open>A report as its sender sees it: exchange, subscription and the reports.\<close>

definition is_report :: "ProtoHeader \<Rightarrow> bool" where
  "is_report ph \<longleftrightarrow> proto_ok ph \<and> p_ProtocolID ph = ProtocolInteractionModel \<and> p_Opcode ph = IMReportData"

lemma status_payload: "\<exists>b. EncodeStatusResponse 0 = Inr b \<and> length b \<le> 65000"
proof -
  have "length (enc (status_response_elem 0)) \<le> 65000" if "length (enc (status_response_elem 0)) \<le> 99"
    using that by simp
  moreover have "length (enc (status_response_elem 0)) \<le> 99" by code_simp
  ultimately show ?thesis using EncodeStatusResponse_elem by blast
qed

lemma recv_datagram:
  assumes "ticks (cv_t s) = datagram f # ts" "Secure_DecryptMsg (cv_secure s) f = ((c, ProtoHeader_Encode ph @ b, e), sec)"
    and "e = None \<or> e = Some Replay" "proto_ok ph"
  shows "recvMsg s = ((\<lparr>sm_ph = ph, sm_counter = c, sm_payload = b\<rparr>, map_option SecureErr e),
    s\<lparr>cv_t := past_tick (cv_t s), cv_secure := sec\<rparr>)"
  using assms by (auto simp: recvMsg_def this_tick_def datagram_def open_msg_def DecodeProto_Encode Let_def)

text \<open>A fresh report is passed on and answered, a repeated one only answered.\<close>

lemma listen_fresh:
  assumes "ticks (cv_t s) = datagram f # ts" "Secure_DecryptMsg (cv_secure s) f = ((c, ProtoHeader_Encode ph @ b, None), sec)"
    and "is_report ph" "DecodeReportData b = Some (Inr (sub, reps))" "healthy (Suc n) s"
  shows "\<exists>frame s'. listen_step prev s = (Reported (c, frame) reps, s') \<and> healthy n s' \<and> ticks (cv_t s') = ts
    \<and> length (sent (cv_t s')) = Suc (length (sent (cv_t s))) \<and> rx (cv_secure s') = rx sec \<and> same_keys (cv_secure s) (cv_secure s')"
proof -
  let ?m = "\<lparr>sm_ph = ph, sm_counter = c, sm_payload = b\<rparr>"
  let ?s1 = "s\<lparr>cv_t := past_tick (cv_t s), cv_secure := sec\<rparr>"
  have r: "recvMsg s = ((?m, None), ?s1)" using recv_datagram [OF assms(1,2)] assms(3) by (simp add: is_report_def)
  note dk = DecryptMsg_keys [OF assms(2)]
  have h1: "healthy (Suc n) ?s1"
    using assms(5) dk same_keys_fields [of "cv_secure s" sec] by (simp add: healthy_def past_tick_def)
  obtain p where p: "EncodeStatusResponse 0 = Inr p" "length p \<le> 65000" using status_payload by blast
  obtain frame where f: "encryptProto ?s1 (status_proto (p_ExchangeID ph) False c) p
      = (Inr frame, ?s1\<lparr>cv_secure := sec\<lparr>txCounter := txCounter sec + 1\<rparr>\<rparr>)"
    "unat (txCounter sec + 1) = Suc (unat (txCounter sec))"
    using encryptProto_healthy [OF h1 p(2), of "status_proto (p_ExchangeID ph) False c"] by auto
  let ?s2 = "?s1\<lparr>cv_secure := sec\<lparr>txCounter := txCounter sec + 1\<rparr>\<rparr>"
  have h2: "healthy n ?s2" using healthy_upd [OF h1] f(2) by simp
  obtain s3 where s3: "send_frame ?s2 frame = (None, s3)" "healthy n s3" "cv_secure s3 = cv_secure ?s2"
    using send_healthy [OF h2] by blast
  have "listen_step prev s = (Reported (c, frame) reps, s3)"
    using r assms(3,4) p(1) f(1) s3(1)
    by (simp add: listen_step_def is_report_def isStandaloneAck_def answer_report_def act_bind_def act_decode_def
        statusResponseFrame_def act_encode_def act_unit_def act_of_def)
  moreover have "ticks (cv_t s3) = ts" "length (sent (cv_t s3)) = Suc (length (sent (cv_t s)))"
    using moves_send [OF s3(1)] assms(1) by (simp_all add: moves_def past_tick_def)
  moreover have "same_keys sec (sec\<lparr>txCounter := txCounter sec + 1\<rparr>)" by (simp add: same_keys_def)
  with dk have "same_keys (cv_secure s) (sec\<lparr>txCounter := txCounter sec + 1\<rparr>)" using same_keys_trans by blast
  ultimately show ?thesis using s3(2,3) by auto
qed

lemma listen_repeated:
  assumes "ticks (cv_t s) = datagram f # ts" "Secure_DecryptMsg (cv_secure s) f = ((c, ProtoHeader_Encode ph @ b, Some Replay), sec)"
    and "proto_ok ph" "healthy (Suc n) s"
  shows "\<exists>s'. listen_step prev s = (Ignored, s') \<and> healthy n s' \<and> ticks (cv_t s') = ts
    \<and> length (sent (cv_t s')) = Suc (length (sent (cv_t s))) \<and> rx (cv_secure s') = rx sec \<and> same_keys (cv_secure s) (cv_secure s')"
proof -
  let ?m = "\<lparr>sm_ph = ph, sm_counter = c, sm_payload = b\<rparr>"
  let ?s1 = "s\<lparr>cv_t := past_tick (cv_t s), cv_secure := sec\<rparr>"
  have r: "recvMsg s = ((?m, Some (SecureErr Replay)), ?s1)" using recv_datagram [OF assms(1,2)] assms(3) by simp
  note dk = DecryptMsg_keys [OF assms(2)]
  have h1: "healthy (Suc n) ?s1"
    using assms(4) dk same_keys_fields [of "cv_secure s" sec] by (simp add: healthy_def past_tick_def)
  have finish: ?thesis if "listen_step prev s = (Ignored, s3)" "healthy n s3" "ticks (cv_t s3) = ticks (cv_t ?s1)"
    "length (sent (cv_t s3)) = Suc (length (sent (cv_t ?s1)))" "cv_secure s3 = sec\<lparr>txCounter := c3\<rparr>" for s3 c3
  proof -
    have "same_keys sec (sec\<lparr>txCounter := c3\<rparr>)" by (simp add: same_keys_def)
    with dk have "same_keys (cv_secure s) (cv_secure s3)" using that(5) same_keys_trans by metis
    then show ?thesis using that assms(1) by (intro exI [of _ s3]) (simp add: past_tick_def)
  qed
  obtain s4 c4 where s4: "ackMsg ?s1 ?m = (None, s4)" "healthy n s4" "cv_secure s4 = sec\<lparr>txCounter := c4\<rparr>"
    using ack_healthy [OF h1, of ?m] by auto
  obtain f4 where "encryptProto ?s1 (ack_proto ?m) [] = (Inr f4, ?s1\<lparr>cv_secure := sec\<lparr>txCounter := txCounter sec + 1\<rparr>\<rparr>)"
    using encryptProto_healthy [OF h1, of "[]" "ack_proto ?m"] by auto
  then have t4: "ticks (cv_t s4) = ticks (cv_t ?s1)" "length (sent (cv_t s4)) = Suc (length (sent (cv_t ?s1)))"
    using s4(1) by (auto simp: ackMsg_def dest!: moves_send) (simp_all add: moves_def)
  have ack: ?thesis if "listen_step prev s = ignored (ackMsg ?s1 ?m)"
    using finish [OF _ s4(2) t4 s4(3)] that s4(1) by (simp add: ignored_def)
  show ?thesis
  proof (cases prev)
    case None
    with r ack show ?thesis by (simp add: listen_step_def)
  next
    case (Some q)
    then obtain c0 resp where q: "prev = Some (c0, resp)" by (cases q) simp
    show ?thesis
    proof (cases "c = c0")
      case True
      have "healthy n ?s1" using healthy_mono [OF h1] by simp
      then obtain s3 where s3: "send_frame ?s1 resp = (None, s3)" "healthy n s3" "cv_secure s3 = cv_secure ?s1"
        using send_healthy by blast
      have "listen_step prev s = (Ignored, s3)" using r q True s3(1) by (simp add: listen_step_def ignored_def)
      from finish [OF this s3(2), of "txCounter sec"] moves_send [OF s3(1)] s3(3) show ?thesis by (simp add: moves_def)
    next
      case False
      with r q ack show ?thesis by (simp add: listen_step_def)
    qed
  qed
qed


text \<open>The window of a receiver that has accepted the first \<open>k\<close> counters from \<open>c\<close> on.\<close>

definition counters :: "u32 \<Rightarrow> nat \<Rightarrow> nat set" where
  "counters c k = (\<lambda>j. unat c + j) ` {..<k}"

lemma counter_nat: "unat (c :: u32) + i < 2 ^ 32 \<Longrightarrow> unat (c + of_nat i) = unat c + i"
  by (simp add: unat_word_ariths unat_of_nat)

lemma Max_counters: "0 < k \<Longrightarrow> Max (counters c k) = unat c + (k - 1)"
  unfolding counters_def by (rule Max_eqI) (auto intro!: image_eqI [of _ _ "k - 1"])

lemma accept_next:
  assumes "window_rel w (counters c k)" "unat c + k < 2 ^ 32"
  shows "fst (accept w (c + of_nat k)) \<and> window_rel (snd (accept w (c + of_nat k))) (counters c (Suc k))"
proof -
  have u: "unat (c + of_nat k) = unat c + k" using counter_nat assms(2) by blast
  have "\<not> loses w (c + of_nat k)"
  proof
    assume l: "loses w (c + of_nat k)"
    then have i: "rw_init w" "c + of_nat k > rw_max w" "c + of_nat k - rw_max w = 32" by (simp_all add: loses_def)
    note M = window_rel_Max [OF assms(1) i(1)]
    then have k: "0 < k" by (cases k) (auto simp: counters_def)
    have "unat (c + of_nat k - rw_max w) = unat c + k - (unat c + (k - 1))"
      using unat_diff [of "rw_max w" "c + of_nat k"] i(2) u M Max_counters [OF k, of c] by simp
    with i(3) k show False by simp
  qed
  from accept_refines [OF assms(1) this, unfolded u] have r: "fst (accept w (c + of_nat k)) = fresh (counters c k) (unat c + k)"
    "window_rel (snd (accept w (c + of_nat k)))
      (if fst (accept w (c + of_nat k)) then insert (unat c + k) (counters c k) else counters c k)"
    by simp_all
  have "fresh (counters c k) (unat c + k)"
    using Max_counters [of k c] by (cases "k = 0") (auto simp: fresh_def counters_def)
  moreover have "insert (unat c + k) (counters c k) = counters c (Suc k)" by (auto simp: counters_def lessThan_Suc)
  ultimately show ?thesis using r by simp
qed

lemma accept_old:
  assumes "window_rel w (counters c k)" "unat c + k < 2 ^ 32" "i < k"
  shows "\<not> fst (accept w (c + of_nat i)) \<and> window_rel (snd (accept w (c + of_nat i))) (counters c k)"
proof -
  have u: "unat (c + of_nat i) = unat c + i" using counter_nat assms(2,3) by simp
  have S: "unat c + i \<in> counters c k" using assms(3) by (simp add: counters_def)
  have "\<not> loses w (c + of_nat i)"
  proof
    assume l: "loses w (c + of_nat i)"
    with assms(1) S show False by (auto simp: loses_def window_rel_def u32_less u)
  qed
  from accept_refines [OF assms(1) this] fresh_new [OF assms(1)] S show ?thesis by (auto simp: u)
qed

lemma listen_loop_ignored: "listen_step prev s = (Ignored, s') \<Longrightarrow> listen_loop prev s = listen_loop prev s'"
  by (subst listen_loop.simps) simp

lemma listen_loop_reported:
  "listen_step prev s = (Reported q reps, s') \<Longrightarrow> listen_loop (Some q) s' = ((e, rs), s'') \<Longrightarrow>
     listen_loop prev s = ((e, reps # rs), s'')"
  by (subst listen_loop.simps) simp

text \<open>The frames of a device: the \<open>i\<close>-th seals the \<open>i\<close>-th report with the \<open>i\<close>-th counter.\<close>

definition report_frames :: "Secure \<Rightarrow> bytes list \<Rightarrow> (ProtoHeader \<times> bytes) list \<Rightarrow> bool" where
  "report_frames d fs ps \<longleftrightarrow> length fs = length ps \<and> (\<forall>i<length ps. is_report (fst (ps ! i))
     \<and> fst (Secure_Encrypt (d\<lparr>txCounter := txCounter d + of_nat i\<rparr>) (ProtoHeader_Encode (fst (ps ! i)) @ snd (ps ! i)))
       = Inr (fs ! i))"

lemma frame_opens:
  assumes "report_frames d fs ps" "i < length ps" "keyed d" "keyed r" "paired d r"
  shows "Secure_DecryptMsg r (fs ! i) = ((txCounter d + of_nat i, ProtoHeader_Encode (fst (ps ! i)) @ snd (ps ! i),
      if fst (accept (rx r) (txCounter d + of_nat i)) then None else Some Replay),
    r\<lparr>rx := snd (accept (rx r) (txCounter d + of_nat i))\<rparr>)"
proof -
  let ?d = "d\<lparr>txCounter := txCounter d + of_nat i\<rparr>"
  have "fst (Secure_Encrypt ?d (ProtoHeader_Encode (fst (ps ! i)) @ snd (ps ! i))) = Inr (fs ! i)"
    using assms(1,2) unfolding report_frames_def by blast
  then obtain d' where "Secure_Encrypt ?d (ProtoHeader_Encode (fst (ps ! i)) @ snd (ps ! i)) = (Inr (fs ! i), d')"
    by (cases "Secure_Encrypt ?d (ProtoHeader_Encode (fst (ps ! i)) @ snd (ps ! i))") (simp only: fst_conv)
  moreover have "keyed ?d" "paired ?d r" using assms(3,5) by (simp_all add: keyed_def paired_def)
  ultimately have "Secure_DecryptMsg r (fs ! i) = ((txCounter ?d, ProtoHeader_Encode (fst (ps ! i)) @ snd (ps ! i),
      if fst (accept (rx r) (txCounter ?d)) then None else Some Replay), r\<lparr>rx := snd (accept (rx r) (txCounter ?d))\<rparr>)"
    by (intro DecryptMsg_Encrypt [OF _ assms(4)])
  moreover have "txCounter ?d = txCounter d + of_nat i" by simp
  ultimately show ?thesis by (simp only:)
qed

lemma listen_run:
  assumes fr: "report_frames d fs ps" "keyed d" "unat (txCounter d) + length ps < 2 ^ 32"
    and dec: "\<And>i. i < length ps \<Longrightarrow> DecodeReportData (snd (ps ! i)) = Some (Inr (subs i, reps ! i))" "length reps = length ps"
  shows "arrives (length ps) k is \<Longrightarrow> k \<le> length ps \<Longrightarrow> window_rel (rx (cv_secure s)) (counters (txCounter d) k) \<Longrightarrow>
     paired d (cv_secure s) \<Longrightarrow> healthy (length is) s \<Longrightarrow> ticks (cv_t s) = map (\<lambda>i. datagram (fs ! i)) is \<Longrightarrow>
     \<exists>s'. listen_loop prev s = ((RecvErr TransportClosed, drop k reps), s')
       \<and> length (sent (cv_t s')) = length (sent (cv_t s)) + length is"
proof (induction "is" arbitrary: k s prev)
  case Nil
  then have "recvMsg s = ((zeroMsg, Some (RecvErr TransportClosed)), s\<lparr>cv_t := past_tick (cv_t s)\<rparr>)"
    by (simp add: recvMsg_def this_tick_def closed_tick_def Let_def)
  then have "listen_step prev s = (Ended (RecvErr TransportClosed), s\<lparr>cv_t := past_tick (cv_t s)\<rparr>)"
    by (simp add: listen_step_def)
  moreover have "drop k reps = []" using Nil(1) dec(2) by simp
  ultimately show ?case by (subst listen_loop.simps) (simp add: past_tick_def)
next
  case (Cons i "is")
  let ?c = "txCounter d + of_nat i" and ?ph = "fst (ps ! i)" and ?b = "snd (ps ! i)"
  have i: "i < length ps" "i \<le> k" using Cons.prems(1) by simp_all
  have keys: "keyed (cv_secure s)" using Cons.prems(5) by (simp add: healthy_def)
  note open1 = frame_opens [OF fr(1) i(1) fr(2) keys Cons.prems(4)]
  have rep: "is_report ?ph" "proto_ok ?ph" using fr(1) i(1) by (simp_all add: report_frames_def is_report_def)
  have t: "ticks (cv_t s) = datagram (fs ! i) # map (\<lambda>i. datagram (fs ! i)) is" using Cons.prems(6) by simp
  have h: "healthy (Suc (length is)) s" using Cons.prems(5) by simp
  have pair: "paired d (cv_secure s')" if "same_keys (cv_secure s) (cv_secure s')" for s'
    using Cons.prems(4) same_keys_fields [OF that] by (simp add: paired_def)
  show ?case
  proof (cases "i = k")
    case True
    then have acc: "fst (accept (rx (cv_secure s)) ?c)"
      and w: "window_rel (snd (accept (rx (cv_secure s)) ?c)) (counters (txCounter d) (Suc k))"
      using accept_next [OF Cons.prems(3)] fr(3) i by auto
    from open1 acc have o: "Secure_DecryptMsg (cv_secure s) (fs ! i) = ((?c, ProtoHeader_Encode ?ph @ ?b, None),
        (cv_secure s)\<lparr>rx := snd (accept (rx (cv_secure s)) ?c)\<rparr>)" by simp
    obtain frame s1 where s1: "listen_step prev s = (Reported (?c, frame) (reps ! i), s1)" "healthy (length is) s1"
      "ticks (cv_t s1) = map (\<lambda>i. datagram (fs ! i)) is" "length (sent (cv_t s1)) = Suc (length (sent (cv_t s)))"
      "rx (cv_secure s1) = snd (accept (rx (cv_secure s)) ?c)" "same_keys (cv_secure s) (cv_secure s1)"
      using listen_fresh [OF t o rep(1) dec(1) [OF i(1)] h, of prev] by auto
    obtain s' where "listen_loop (Some (?c, frame)) s1 = ((RecvErr TransportClosed, drop (Suc k) reps), s')"
      "length (sent (cv_t s')) = length (sent (cv_t s1)) + length is"
      using Cons.IH [of "Suc k" s1 "Some (?c, frame)"] Cons.prems(1) True i(1) w pair [OF s1(6)] s1 by auto
    moreover have "drop k reps = reps ! i # drop (Suc k) reps" using True i(1) dec(2) by (simp add: Cons_nth_drop_Suc)
    ultimately show ?thesis using listen_loop_reported [OF s1(1)] s1(4) by auto
  next
    case False
    then have ik: "i < k" using i by simp
    then have acc: "\<not> fst (accept (rx (cv_secure s)) ?c)"
      and w: "window_rel (snd (accept (rx (cv_secure s)) ?c)) (counters (txCounter d) k)"
      using accept_old [OF Cons.prems(3) _ ik] fr(3) Cons.prems(2) by auto
    from open1 acc have o: "Secure_DecryptMsg (cv_secure s) (fs ! i) = ((?c, ProtoHeader_Encode ?ph @ ?b, Some Replay),
        (cv_secure s)\<lparr>rx := snd (accept (rx (cv_secure s)) ?c)\<rparr>)" by simp
    obtain s1 where s1: "listen_step prev s = (Ignored, s1)" "healthy (length is) s1"
      "ticks (cv_t s1) = map (\<lambda>i. datagram (fs ! i)) is" "length (sent (cv_t s1)) = Suc (length (sent (cv_t s)))"
      "rx (cv_secure s1) = snd (accept (rx (cv_secure s)) ?c)" "same_keys (cv_secure s) (cv_secure s1)"
      using listen_repeated [OF t o rep(2) h, of prev] by auto
    obtain s' where "listen_loop prev s1 = ((RecvErr TransportClosed, drop k reps), s')"
      "length (sent (cv_t s')) = length (sent (cv_t s1)) + length is"
      using Cons.IH [of k s1 prev] Cons.prems(1,2) False w pair [OF s1(6)] s1 by auto
    then show ?thesis using listen_loop_ignored [OF s1(1)] s1(4) by auto
  qed
qed


text \<open>C25: a subscription passes every report on exactly once and in order. A device seals reports one
  after the other; its frames arrive in the order they were sent, with any number of retransmissions
  of earlier ones in between. \<^verbatim>\<open>Listen\<close> hands exactly the reports to its callback, and answers every
  datagram with one of its own, until the transport is closed.\<close>

theorem listen_exactly_once:
  assumes "report_frames d fs ps" "keyed d" "unat (txCounter d) + length ps < 2 ^ 32"
    and enc: "list_all2 (\<lambda>p r. list_all report_encoded r \<and> (\<exists>sub b. EncodeReportData sub r b = Some (Inr (snd p)))) ps reps"
    and "paired d (cv_secure s)" "rx (cv_secure s) = zeroWindow" "healthy (length is) s"
    and "arrives (length ps) 0 is" "ticks (cv_t s) = map (\<lambda>i. datagram (fs ! i)) is"
  shows "fst (Listen s) = (RecvErr TransportClosed, reps)
    \<and> length (sent (cv_t (snd (Listen s)))) = length (sent (cv_t s)) + length is"
proof -
  have len: "length reps = length ps" using enc by (simp add: list_all2_lengthD)
  have "\<exists>sub. DecodeReportData (snd (ps ! i)) = Some (Inr (sub, reps ! i))" if i: "i < length ps" for i
  proof -
    obtain sub b where e: "list_all report_encoded (reps ! i)" "EncodeReportData sub (reps ! i) b = Some (Inr (snd (ps ! i)))"
      using list_all2_nthD [OF enc i] by blast
    from report_data_decodes [OF e(1), of sub b] e(2) show ?thesis by auto
  qed
  then obtain subs where dec: "\<And>i. i < length ps \<Longrightarrow> DecodeReportData (snd (ps ! i)) = Some (Inr (subs i, reps ! i))"
    by metis
  have w: "window_rel (rx (cv_secure s)) (counters (txCounter d) 0)"
    using window_rel_zero assms(6) by (simp add: counters_def)
  have "\<exists>s'. listen_loop None s = ((RecvErr TransportClosed, drop 0 reps), s')
      \<and> length (sent (cv_t s')) = length (sent (cv_t s)) + length is"
    by (rule listen_run [OF assms(1-3) dec len assms(8) _ w assms(5,7,9)]) simp_all
  then show ?thesis by (auto simp: Listen_def)
qed

definition example_subscription :: "bytes list \<Rightarrow> nat list \<Rightarrow> Conversation" where
  "example_subscription fs is = \<lparr>cv_secure = (example_session 1 2 100 200)\<lparr>txCounter := 5\<rparr>,
     cv_t = \<lparr>ticks = map (\<lambda>i. datagram (fs ! i)) is, failing = (\<lambda>_. False), sent = []\<rparr>, cv_exchange = 2\<rparr>"

definition example_report_header :: ProtoHeader where
  "example_report_header = zeroProto\<lparr>p_Initiator := True, p_ProtocolID := ProtocolInteractionModel,
     p_Opcode := IMReportData\<rparr>"

theorem listen_exactly_once_witness:
  "\<exists>b f. EncodeReportData 9 [example_report] True = Some (Inr b)
    \<and> fst (Secure_Encrypt (example_session 2 1 200 100) (ProtoHeader_Encode example_report_header @ b)) = Inr f
    \<and> fst (Listen (example_subscription [f] [0, 0])) = (RecvErr TransportClosed, [[example_report]])"
proof -
  let ?d = "example_session 2 1 200 100" and ?e = "Cont Anonymous CArray [Prim Anonymous (PBool True), Prim Anonymous (PUint 5)]"
  have ok: "list_all (report_ok (\<lambda>_. ?e)) [example_report]" by code_simp
  have "length (enc (report_data_elem (\<lambda>_. ?e) 9 [example_report] True)) \<le> 99" by code_simp
  then obtain b where b: "EncodeReportData 9 [example_report] True = Some (Inr b)" "length b \<le> 65000"
    using EncodeReportData_elem [OF ok] by auto
  let ?p = "ProtoHeader_Encode example_report_header @ b"
  have "length ?p \<le> 65535" using b(2) proto_length [of example_report_header] by simp
  then obtain f where f: "Secure_Encrypt ?d ?p = (Inr f, ?d\<lparr>txCounter := txCounter ?d + 1\<rparr>)"
    using Encrypt_returns [of ?d ?p] by auto
  let ?s = "example_subscription [f] [0, 0]"
  have "is_report example_report_header" by (simp add: is_report_def example_report_header_def proto_ok_def zeroProto_def)
  moreover have eq: "?d\<lparr>txCounter := 0xFFFFFFFE\<rparr> = ?d" by (simp add: example_session_def)
  ultimately have fr: "report_frames ?d [f] [(example_report_header, b)]" using f by (simp add: report_frames_def eq)
  have "fst (Listen ?s) = (RecvErr TransportClosed, [[example_report]])
    \<and> length (sent (cv_t (snd (Listen ?s)))) = length (sent (cv_t ?s)) + length [0, 0 :: nat]"
  proof (rule listen_exactly_once [OF fr])
    show "list_all2 (\<lambda>p r. list_all report_encoded r \<and> (\<exists>sub b. EncodeReportData sub r b = Some (Inr (snd p))))
        [(example_report_header, b)] [[example_report]]"
      using b(1) example_report_encoded by auto
    show "paired ?d (cv_secure ?s)" by (simp add: paired_def example_subscription_def example_session_def)
    show "healthy (length [0, 0 :: nat]) ?s"
      by (simp add: healthy_def example_subscription_def keyed_def example_session_def matter_ccm_def)
  qed (simp_all add: example_subscription_def)
  with b f show ?thesis by auto
qed


end
