(* ===== verification/Spake2.thy ===== *)
theory Spake2
  imports Session Go_Strings
begin

text \<open>
  SPAKE2+ as PASE uses it, \<^verbatim>\<open>go-matter/spake2\<close>: the prover and the verifier (\<^verbatim>\<open>spake2.go\<close>,
  \<^verbatim>\<open>matter.go\<close>) with the two key schedules over their transcript (\<^verbatim>\<open>matter.go\<close>, \<^verbatim>\<open>confirm.go\<close>). The
  curve library, the hash and the key derivations are not part of the repository: they are the fields
  of a record, and \<open>suite_ok\<close> says what the code relies on.
\<close>

section \<open>The primitives\<close>

text \<open>
  \<open>ScalarBaseMult\<close>, \<open>ScalarMult\<close>, \<open>PointAdd\<close>, \<open>PointNegate\<close>, \<open>PointBytes\<close> and \<open>SetBytes\<close> are the
  methods of \<^verbatim>\<open>nistec.P256Point\<close>, None for an error; \<open>HKDF\<close> takes secret, salt, info and length,
  \<open>PBKDF2\<close> password, salt, iterations and length.
\<close>

record 'p suite =
  ScalarBaseMult :: "bytes \<Rightarrow> 'p option"
  ScalarMult :: "'p \<Rightarrow> bytes \<Rightarrow> 'p option"
  PointAdd :: "'p \<Rightarrow> 'p \<Rightarrow> 'p"
  PointNegate :: "'p \<Rightarrow> 'p"
  PointBytes :: "'p \<Rightarrow> bytes"
  SetBytes :: "bytes \<Rightarrow> 'p option"
  Sum256 :: "bytes \<Rightarrow> bytes"
  HmacSHA256 :: "bytes \<Rightarrow> bytes \<Rightarrow> bytes"
  HKDF :: "bytes \<Rightarrow> bytes \<Rightarrow> bytes \<Rightarrow> nat \<Rightarrow> bytes option"
  PBKDF2 :: "bytes \<Rightarrow> bytes \<Rightarrow> int \<Rightarrow> nat \<Rightarrow> bytes option"
  Aes :: "bytes \<Rightarrow> bytes \<Rightarrow> bytes"

text \<open>The order of P-256.\<close>

abbreviation p256_order :: nat where
  "p256_order \<equiv> 0xFFFFFFFF00000000FFFFFFFFFFFFFFFFBCE6FAADA7179E84F3B9CAC2FC632551"

definition mBytes :: bytes where
  "mBytes = [0x02, 0x88, 0x6E, 0x2F, 0x97, 0xAC, 0xE4, 0x6E, 0x55, 0xBA, 0x9D, 0xD7, 0x24, 0x25, 0x79,
     0xF2, 0x99, 0x3B, 0x64, 0xE1, 0x6E, 0xF3, 0xDC, 0xAB, 0x95, 0xAF, 0xD4, 0x97, 0x33, 0x3D,
     0x8F, 0xA1, 0x2F]"

definition nBytes :: bytes where
  "nBytes = [0x03, 0xD8, 0xBB, 0xD6, 0xC6, 0x39, 0xC6, 0x29, 0x37, 0xB0, 0x4D, 0x99, 0x7F, 0x38, 0xC3,
     0x77, 0x07, 0x19, 0xC6, 0x29, 0xD7, 0x01, 0x4D, 0x49, 0xA2, 0x4B, 0x4F, 0x98, 0xBA, 0xA1,
     0x29, 0x2B, 0x49]"

text \<open>\<^verbatim>\<open>mustPoint\<close> panics when the package is loaded if a constant is no point.\<close>

definition pointM :: "'p suite \<Rightarrow> 'p" where
  "pointM c = the (SetBytes c mBytes)"

definition pointN :: "'p suite \<Rightarrow> 'p" where
  "pointN c = the (SetBytes c nBytes)"

text \<open>Big-endian integers of \<^verbatim>\<open>big.Int\<close>.\<close>

definition be_nat :: "bytes \<Rightarrow> nat" where
  "be_nat bs = fold (\<lambda>b n. 256 * n + unat b) bs 0"

definition scalarBytes :: "nat \<Rightarrow> bytes" where
  "scalarBytes k = be_bytes 32 (of_nat (k mod p256_order) :: 256 word)"

text \<open>
  What the code relies on. A 32-byte scalar is never refused; multiples of the base point commute;
  subtracting a point undoes adding it; the encoding of a point decodes to it; outputs have the length
  asked for.
\<close>

definition suite_ok :: "'p suite \<Rightarrow> bool" where
  "suite_ok c \<longleftrightarrow>
     (\<forall>k. length k = 32 \<longrightarrow> (\<exists>P. ScalarBaseMult c k = Some P))
     \<and> (\<forall>P k. length k = 32 \<longrightarrow> (\<exists>Q. ScalarMult c P k = Some Q))
     \<and> (\<forall>k l P Q. ScalarBaseMult c k = Some P \<longrightarrow> ScalarBaseMult c l = Some Q \<longrightarrow>
          ScalarMult c P l = ScalarMult c Q k)
     \<and> (\<forall>P Q. PointAdd c (PointAdd c P Q) (PointNegate c Q) = P)
     \<and> (\<forall>P. SetBytes c (PointBytes c P) = Some P)
     \<and> (\<forall>P. length (PointBytes c P) < 2 ^ 16)
     \<and> (\<forall>b. length (Sum256 c b) = 32)
     \<and> (\<forall>k m. length (HmacSHA256 c k m) = 32)
     \<and> (\<forall>s salt info n. n \<le> 255 * 32 \<longrightarrow> (\<exists>k. HKDF c s salt info n = Some k \<and> length k = n))
     \<and> (\<forall>p salt i n. 0 < i \<longrightarrow> (\<exists>k. PBKDF2 c p salt i n = Some k \<and> length k = n))"

section \<open>The prover\<close>

datatype spake_error = BaseMultErr | MultErr | InvalidShare | InvalidL | KdfErr
  | SaltLength nat | IterationCount int

record 'p Prover =
  p_w0 :: nat
  p_w1 :: nat
  p_x :: nat
  p_share :: 'p

definition NewProver :: "'p suite \<Rightarrow> nat \<Rightarrow> nat \<Rightarrow> nat \<Rightarrow> spake_error + 'p Prover" where
  "NewProver c w0 w1 x =
     (case ScalarBaseMult c (scalarBytes x) of
        None \<Rightarrow> Inl BaseMultErr
      | Some xG \<Rightarrow>
          (case ScalarMult c (pointM c) (scalarBytes w0) of
             None \<Rightarrow> Inl MultErr
           | Some w0M \<Rightarrow> Inr \<lparr>p_w0 = w0, p_w1 = w1, p_x = x, p_share = PointAdd c xG w0M\<rparr>))"

definition Prover_Share :: "'p suite \<Rightarrow> 'p Prover \<Rightarrow> bytes" where
  "Prover_Share c p = PointBytes c (p_share p)"

definition Prover_Finish :: "'p suite \<Rightarrow> 'p Prover \<Rightarrow> bytes \<Rightarrow> spake_error + bytes \<times> bytes" where
  "Prover_Finish c p pB =
     (case SetBytes c pB of
        None \<Rightarrow> Inl InvalidShare
      | Some y \<Rightarrow>
          (case ScalarMult c (pointN c) (scalarBytes (p_w0 p)) of
             None \<Rightarrow> Inl MultErr
           | Some w0N \<Rightarrow>
               (let t = PointAdd c y (PointNegate c w0N) in
                case ScalarMult c t (scalarBytes (p_x p)) of
                  None \<Rightarrow> Inl MultErr
                | Some zp \<Rightarrow>
                    (case ScalarMult c t (scalarBytes (p_w1 p)) of
                       None \<Rightarrow> Inl MultErr
                     | Some vp \<Rightarrow> Inr (PointBytes c zp, PointBytes c vp)))))"

section \<open>The key schedules\<close>

text \<open>Every element of the transcript is preceded by its length in eight bytes.\<close>

definition tt_add :: "bytes \<Rightarrow> bytes" where
  "tt_add b = le_bytes 8 (of_nat (length b) :: u64) @ b"

definition transcript :: "'p suite \<Rightarrow> bytes \<Rightarrow> bytes \<Rightarrow> bytes \<Rightarrow> bytes \<Rightarrow> bytes \<Rightarrow> bytes \<Rightarrow> bytes \<Rightarrow> bytes \<Rightarrow> bytes" where
  "transcript c ctxt idProver idVerifier shareP shareV z v w0 =
     tt_add ctxt @ tt_add idProver @ tt_add idVerifier
     @ tt_add (PointBytes c (pointM c)) @ tt_add (PointBytes c (pointN c))
     @ tt_add shareP @ tt_add shareV @ tt_add z @ tt_add v @ tt_add w0"

abbreviation confirmation_info :: bytes where "confirmation_info \<equiv> ascii ''ConfirmationKeys''"

record MatterKeys =
  mk_Ke :: bytes
  mk_CA :: bytes
  mk_CB :: bytes

definition deriveMatterKeys :: "'p suite \<Rightarrow> bytes \<Rightarrow> bytes \<Rightarrow> bytes \<Rightarrow> bytes \<Rightarrow> bytes \<Rightarrow> bytes \<Rightarrow> bytes \<Rightarrow> bytes
    \<Rightarrow> spake_error + MatterKeys" where
  "deriveMatterKeys c ctxt idProver idVerifier shareP shareV z v w0 =
     (let tt = transcript c ctxt idProver idVerifier shareP shareV z v w0;
          kae = Sum256 c tt;
          ka = take 16 kae; ke = drop 16 kae in
      case HKDF c ka [] confirmation_info 32 of
        None \<Rightarrow> Inl KdfErr
      | Some kcab \<Rightarrow>
          (let kca = take 16 kcab; kcb = drop 16 kcab in
           Inr \<lparr>mk_Ke = ke, mk_CA = HmacSHA256 c kca shareV, mk_CB = HmacSHA256 c kcb shareP\<rparr>))"

definition Prover_ConfirmMatter :: "'p suite \<Rightarrow> 'p Prover \<Rightarrow> bytes \<Rightarrow> bytes \<Rightarrow> spake_error + MatterKeys" where
  "Prover_ConfirmMatter c p pB ctxt =
     (case Prover_Finish c p pB of
        Inl e \<Rightarrow> Inl e
      | Inr (z, v) \<Rightarrow> deriveMatterKeys c ctxt [] [] (Prover_Share c p) pB z v (scalarBytes (p_w0 p)))"

definition VerifyCB :: "MatterKeys \<Rightarrow> bytes \<Rightarrow> bool" where
  "VerifyCB k cB = (mk_CB k = cB)"

definition VerifyCA :: "MatterKeys \<Rightarrow> bytes \<Rightarrow> bool" where
  "VerifyCA k cA = (mk_CA k = cA)"

text \<open>The schedule of RFC 9383.\<close>

record KeySchedule =
  ks_KMain :: bytes
  ks_ConfirmP :: bytes
  ks_ConfirmV :: bytes
  ks_SharedKey :: bytes

definition deriveKeys :: "'p suite \<Rightarrow> bytes \<Rightarrow> bytes \<Rightarrow> bytes \<Rightarrow> bytes \<Rightarrow> bytes \<Rightarrow> bytes \<Rightarrow> bytes \<Rightarrow> bytes
    \<Rightarrow> spake_error + KeySchedule" where
  "deriveKeys c ctxt idProver idVerifier shareP shareV z v w0 =
     (let tt = transcript c ctxt idProver idVerifier shareP shareV z v w0;
          kMain = Sum256 c tt in
      case HKDF c kMain [] confirmation_info 64 of
        None \<Rightarrow> Inl KdfErr
      | Some ck \<Rightarrow>
          (let kConfirmP = take 32 ck; kConfirmV = drop 32 ck in
           case HKDF c kMain [] (ascii ''SharedKey'') 32 of
             None \<Rightarrow> Inl KdfErr
           | Some sharedKey \<Rightarrow>
               Inr \<lparr>ks_KMain = kMain, ks_ConfirmP = HmacSHA256 c kConfirmP shareV,
                    ks_ConfirmV = HmacSHA256 c kConfirmV shareP, ks_SharedKey = sharedKey\<rparr>))"

definition Prover_Confirm :: "'p suite \<Rightarrow> 'p Prover \<Rightarrow> bytes \<Rightarrow> bytes \<Rightarrow> bytes \<Rightarrow> bytes \<Rightarrow> spake_error + KeySchedule" where
  "Prover_Confirm c p pB ctxt idProver idVerifier =
     (case Prover_Finish c p pB of
        Inl e \<Rightarrow> Inl e
      | Inr (z, v) \<Rightarrow>
          deriveKeys c ctxt idProver idVerifier (Prover_Share c p) pB z v (scalarBytes (p_w0 p)))"

definition VerifyPeer :: "KeySchedule \<Rightarrow> bytes \<Rightarrow> bool" where
  "VerifyPeer k confirmV = (ks_ConfirmV k = confirmV)"

section \<open>Registration and the verifier\<close>

abbreviation wsLength :: nat where "wsLength \<equiv> 40"

definition DeriveW :: "'p suite \<Rightarrow> u32 \<Rightarrow> bytes \<Rightarrow> int \<Rightarrow> spake_error + nat \<times> nat" where
  "DeriveW c passcode salt iterations =
     (if length salt < 16 \<or> length salt > 32 then Inl (SaltLength (length salt))
      else if iterations < 1000 \<or> iterations > 100000 then Inl (IterationCount iterations)
      else
        let pin = le_bytes 4 passcode in
        case PBKDF2 c pin salt iterations (2 * wsLength) of
          None \<Rightarrow> Inl KdfErr
        | Some ws \<Rightarrow>
            Inr (be_nat (take wsLength ws) mod p256_order, be_nat (drop wsLength ws) mod p256_order))"

definition ComputeL :: "'p suite \<Rightarrow> nat \<Rightarrow> spake_error + bytes" where
  "ComputeL c w1 =
     (case ScalarBaseMult c (scalarBytes w1) of None \<Rightarrow> Inl BaseMultErr | Some l \<Rightarrow> Inr (PointBytes c l))"

record 'p Verifier =
  v_w0 :: nat
  v_l :: 'p
  v_y :: nat
  v_share :: 'p

definition NewVerifier :: "'p suite \<Rightarrow> nat \<Rightarrow> bytes \<Rightarrow> nat \<Rightarrow> spake_error + 'p Verifier" where
  "NewVerifier c w0 l y =
     (case SetBytes c l of
        None \<Rightarrow> Inl InvalidL
      | Some lp \<Rightarrow>
          (case ScalarBaseMult c (scalarBytes y) of
             None \<Rightarrow> Inl BaseMultErr
           | Some yG \<Rightarrow>
               (case ScalarMult c (pointN c) (scalarBytes w0) of
                  None \<Rightarrow> Inl MultErr
                | Some w0N \<Rightarrow> Inr \<lparr>v_w0 = w0, v_l = lp, v_y = y, v_share = PointAdd c yG w0N\<rparr>)))"

definition Verifier_Share :: "'p suite \<Rightarrow> 'p Verifier \<Rightarrow> bytes" where
  "Verifier_Share c v = PointBytes c (v_share v)"

definition Verifier_ConfirmMatter :: "'p suite \<Rightarrow> 'p Verifier \<Rightarrow> bytes \<Rightarrow> bytes \<Rightarrow> spake_error + MatterKeys" where
  "Verifier_ConfirmMatter c v pA ctxt =
     (case SetBytes c pA of
        None \<Rightarrow> Inl InvalidShare
      | Some x \<Rightarrow>
          (case ScalarMult c (pointM c) (scalarBytes (v_w0 v)) of
             None \<Rightarrow> Inl MultErr
           | Some w0M \<Rightarrow>
               (let t = PointAdd c x (PointNegate c w0M) in
                case ScalarMult c t (scalarBytes (v_y v)) of
                  None \<Rightarrow> Inl MultErr
                | Some z \<Rightarrow>
                    (case ScalarMult c (v_l v) (scalarBytes (v_y v)) of
                       None \<Rightarrow> Inl MultErr
                     | Some vv \<Rightarrow>
                         deriveMatterKeys c ctxt [] [] pA (Verifier_Share c v) (PointBytes c z)
                           (PointBytes c vv) (scalarBytes (v_w0 v))))))"

section \<open>Prover and verifier agree\<close>

lemma length_scalarBytes [simp]: "length (scalarBytes k) = 32"
  by (simp add: scalarBytes_def)

lemma scalarBytes_inj:
  assumes "scalarBytes j = scalarBytes k" shows "j mod p256_order = k mod p256_order"
proof -
  have rev: "rev (scalarBytes n) = le_bytes 32 (of_nat (n mod p256_order) :: 256 word)" for n
    by (simp add: scalarBytes_def be_bytes_def)
  have "le_bytes 32 (of_nat (j mod p256_order) :: 256 word) = le_bytes 32 (of_nat (k mod p256_order) :: 256 word)"
    using arg_cong [OF assms, of rev] unfolding rev .
  from arg_cong [OF this, of "le_word :: bytes \<Rightarrow> 256 word"]
  have "unat (of_nat (j mod p256_order) :: 256 word) = unat (of_nat (k mod p256_order) :: 256 word)"
    by (simp add: le_word_le_bytes_full)
  moreover have "n mod p256_order < 2 ^ LENGTH(256)" for n :: nat
    by (rule less_le_trans [OF mod_less_divisor]) simp_all
  ultimately show ?thesis by (simp add: unat_of_nat take_bit_nat_eq_self)
qed

lemma suite_okD:
  assumes "suite_ok c"
  shows "length k = 32 \<Longrightarrow> \<exists>P. ScalarBaseMult c k = Some P"
    "length k = 32 \<Longrightarrow> \<exists>R. ScalarMult c P k = Some R"
    "ScalarBaseMult c k = Some P \<Longrightarrow> ScalarBaseMult c l = Some Q \<Longrightarrow> ScalarMult c P l = ScalarMult c Q k"
    "PointAdd c (PointAdd c P Q) (PointNegate c Q) = P"
    "SetBytes c (PointBytes c P) = Some P" "length (PointBytes c P) < 2 ^ 16"
    "length (Sum256 c b) = 32" "length (HmacSHA256 c b m) = 32"
    "n \<le> 255 * 32 \<Longrightarrow> \<exists>k. HKDF c b salt info n = Some k \<and> length k = n"
    "0 < i \<Longrightarrow> \<exists>k. PBKDF2 c b salt i n = Some k \<and> length k = n"
proof -
  note a1 = assms [unfolded suite_ok_def]
  note a2 = a1 [THEN conjunct2]
  note a3 = a2 [THEN conjunct2]
  note a4 = a3 [THEN conjunct2]
  note a5 = a4 [THEN conjunct2]
  note a6 = a5 [THEN conjunct2]
  note a7 = a6 [THEN conjunct2]
  note a8 = a7 [THEN conjunct2]
  note a9 = a8 [THEN conjunct2]
  note a10 = a9 [THEN conjunct2]
  show "length k = 32 \<Longrightarrow> \<exists>P. ScalarBaseMult c k = Some P" by (rule a1 [THEN conjunct1, rule_format])
  show "length k = 32 \<Longrightarrow> \<exists>R. ScalarMult c P k = Some R" by (rule a2 [THEN conjunct1, rule_format])
  show "ScalarBaseMult c k = Some P \<Longrightarrow> ScalarBaseMult c l = Some Q \<Longrightarrow> ScalarMult c P l = ScalarMult c Q k" by (rule a3 [THEN conjunct1, rule_format])
  show "PointAdd c (PointAdd c P Q) (PointNegate c Q) = P" by (rule a4 [THEN conjunct1, rule_format])
  show "SetBytes c (PointBytes c P) = Some P" by (rule a5 [THEN conjunct1, rule_format])
  show "length (PointBytes c P) < 2 ^ 16" by (rule a6 [THEN conjunct1, rule_format])
  show "length (Sum256 c b) = 32" by (rule a7 [THEN conjunct1, rule_format])
  show "length (HmacSHA256 c b m) = 32" by (rule a8 [THEN conjunct1, rule_format])
  show "n \<le> 255 * 32 \<Longrightarrow> \<exists>k. HKDF c b salt info n = Some k \<and> length k = n" by (rule a9 [THEN conjunct1, rule_format])
  show "0 < i \<Longrightarrow> \<exists>k. PBKDF2 c b salt i n = Some k \<and> length k = n" by (rule a10 [rule_format])
qed

text \<open>With the same registration both sides compute the same points, and so the same keys.\<close>

lemma spake_agree:
  assumes ok: "suite_ok c" and p: "NewProver c w0 w1 x = Inr p"
    and l: "ComputeL c w1 = Inr l" and v: "NewVerifier c w0 l y = Inr v"
  shows "\<exists>k. Prover_ConfirmMatter c p (Verifier_Share c v) ctxt = Inr k
    \<and> Verifier_ConfirmMatter c v (Prover_Share c p) ctxt = Inr k"
proof -
  obtain xG w0M where xG: "ScalarBaseMult c (scalarBytes x) = Some xG"
    "ScalarMult c (pointM c) (scalarBytes w0) = Some w0M"
    "p = \<lparr>p_w0 = w0, p_w1 = w1, p_x = x, p_share = PointAdd c xG w0M\<rparr>"
    using p by (auto simp: NewProver_def split: option.splits)
  obtain w1G where w1G: "ScalarBaseMult c (scalarBytes w1) = Some w1G" "l = PointBytes c w1G"
    using l by (auto simp: ComputeL_def split: option.splits)
  obtain yG w0N where yG: "ScalarBaseMult c (scalarBytes y) = Some yG"
    "ScalarMult c (pointN c) (scalarBytes w0) = Some w0N"
    "v = \<lparr>v_w0 = w0, v_l = w1G, v_y = y, v_share = PointAdd c yG w0N\<rparr>"
    using v suite_okD(5) [OF ok] by (auto simp: NewVerifier_def w1G split: option.splits)
  obtain z where z: "ScalarMult c yG (scalarBytes x) = Some z" "ScalarMult c xG (scalarBytes y) = Some z"
    using suite_okD(2) [OF ok, of "scalarBytes x" yG] suite_okD(3) [OF ok xG(1) yG(1)] by auto
  obtain vv where vv: "ScalarMult c yG (scalarBytes w1) = Some vv" "ScalarMult c w1G (scalarBytes y) = Some vv"
    using suite_okD(2) [OF ok, of "scalarBytes w1" yG] suite_okD(3) [OF ok w1G(1) yG(1)] by auto
  have "\<exists>k. deriveMatterKeys c ctxt [] [] (Prover_Share c p) (Verifier_Share c v) (PointBytes c z) (PointBytes c vv)
      (scalarBytes w0) = Inr k"
    using suite_okD(9) [OF ok, of 32 "take 16 (Sum256 c t)" "[]" confirmation_info for t] by (fastforce simp: deriveMatterKeys_def Let_def split: option.splits)
  then show ?thesis
    by (simp add: Prover_ConfirmMatter_def Prover_Finish_def Verifier_ConfirmMatter_def Verifier_Share_def
        Prover_Share_def suite_okD(4,5) [OF ok] xG yG z vv)
qed

section \<open>The transcript determines its elements\<close>

lemma tt_add_inj:
  assumes "length a < 2 ^ 64" "length b < 2 ^ 64" "tt_add a @ s = tt_add b @ t"
  shows "a = b \<and> s = t"
proof -
  have "le_bytes 8 (of_nat (length a) :: u64) = le_bytes 8 (of_nat (length b) :: u64)" "a @ s = b @ t"
    using assms(3) by (simp_all add: tt_add_def)
  then have "(of_nat (length a) :: u64) = of_nat (length b)" by (metis le_word_le_bytes_u64)
  then have "unat (of_nat (length a) :: u64) = unat (of_nat (length b) :: u64)" by simp
  moreover have "unat (of_nat n :: u64) = n" if "n < 2 ^ 64" for n
    using that by (simp add: unat_of_nat take_bit_nat_eq_self)
  ultimately have "length a = length b" using assms(1,2) by simp
  with \<open>a @ s = b @ t\<close> show ?thesis by simp
qed

end
