(* ===== verification/Pase.thy ===== *)
theory Pase
  imports Spake2 Im_Properties
begin

text \<open>
  Session establishment with a passcode, \<^verbatim>\<open>go-matter/pase\<close>: the messages (\<^verbatim>\<open>pase.go\<close>), the
  commissioner's side (\<^verbatim>\<open>initiator.go\<close>) and the device's (\<^verbatim>\<open>responder.go\<close>). What \<^verbatim>\<open>crypto/rand\<close> gives
  is an argument of the step that asks for it.
\<close>

section \<open>Messages\<close>

record PBKDFParams =
  Iterations :: int
  Salt :: bytes

record paramRequest =
  rq_InitiatorRandom :: bytes
  rq_InitiatorSessionID :: u16
  rq_PasscodeID :: u16
  rq_HasParams :: bool

definition encodeParamRequest :: "paramRequest \<Rightarrow> tlv_error + bytes" where
  "encodeParamRequest r =
     (let w = Writer_StartStructure NewWriter Anonymous;
          w = Writer_PutBytes w (Context 1) (rq_InitiatorRandom r);
          w = Writer_PutUint w (Context 2) (ucast (rq_InitiatorSessionID r));
          w = Writer_PutUint w (Context 3) (ucast (rq_PasscodeID r));
          w = Writer_PutBool w (Context 4) (rq_HasParams r)
      in Writer_Bytes (Writer_EndContainer w))"

definition paramRequestBody :: "paramRequest \<Rightarrow> paramRequest dec" where
  "paramRequestBody q =
     (\<lambda>r. if Num (r_tag r) = 1 then
            dec_bind (dec_get Reader_Bytes) (\<lambda>v. dec_return (q\<lparr>rq_InitiatorRandom := v\<rparr>)) r
          else if Num (r_tag r) = 2 then
            dec_bind (dec_get Reader_Uint) (\<lambda>v. dec_return (q\<lparr>rq_InitiatorSessionID := ucast v\<rparr>)) r
          else if Num (r_tag r) = 3 then
            dec_bind (dec_get Reader_Uint) (\<lambda>v. dec_return (q\<lparr>rq_PasscodeID := ucast v\<rparr>)) r
          else if Num (r_tag r) = 4 then
            dec_bind (dec_get Reader_Bool) (\<lambda>v. dec_return (q\<lparr>rq_HasParams := v\<rparr>)) r
          else dec_return q r)"

definition zeroParamRequest :: paramRequest where
  "zeroParamRequest = \<lparr>rq_InitiatorRandom = [], rq_InitiatorSessionID = 0, rq_PasscodeID = 0, rq_HasParams = False\<rparr>"

definition decodeParamRequest :: "bytes \<Rightarrow> (derror + paramRequest) option" where
  "decodeParamRequest =
     dec_top ''pase: PBKDFParamRequest: expected structure''
       (dec_bind (each_member paramRequestBody zeroParamRequest) (\<lambda>q.
          if length (rq_InitiatorRandom q) \<noteq> 32 then dec_fail (Msg ''pase: initiatorRandom'')
          else dec_checked q))"

record paramResponse =
  rs_InitiatorRandom :: bytes
  rs_ResponderRandom :: bytes
  rs_ResponderSessionID :: u16
  rs_Params :: "PBKDFParams option"

definition encodeParamResponse :: "paramResponse \<Rightarrow> tlv_error + bytes" where
  "encodeParamResponse r =
     (let w = Writer_StartStructure NewWriter Anonymous;
          w = Writer_PutBytes w (Context 1) (rs_InitiatorRandom r);
          w = Writer_PutBytes w (Context 2) (rs_ResponderRandom r);
          w = Writer_PutUint w (Context 3) (ucast (rs_ResponderSessionID r));
          w = (case rs_Params r of
                 None \<Rightarrow> w
               | Some p \<Rightarrow>
                   (let w = Writer_StartStructure w (Context 4);
                        w = Writer_PutUint w (Context 1) (word_of_int (Iterations p));
                        w = Writer_PutBytes w (Context 2) (Salt p)
                    in Writer_EndContainer w))
      in Writer_Bytes (Writer_EndContainer w))"

definition paramsBody :: "PBKDFParams \<Rightarrow> PBKDFParams dec" where
  "paramsBody p =
     (\<lambda>r. if Num (r_tag r) = 1 then
            dec_bind (dec_get Reader_Uint) (\<lambda>v. dec_return (p\<lparr>Iterations := sint v\<rparr>)) r
          else if Num (r_tag r) = 2 then
            dec_bind (dec_get Reader_Bytes) (\<lambda>v. dec_return (p\<lparr>Salt := v\<rparr>)) r
          else dec_return p r)"

definition paramResponseBody :: "paramResponse \<Rightarrow> paramResponse dec" where
  "paramResponseBody q =
     (\<lambda>r. if Num (r_tag r) = 1 then
            dec_bind (dec_get Reader_Bytes) (\<lambda>v. dec_return (q\<lparr>rs_InitiatorRandom := v\<rparr>)) r
          else if Num (r_tag r) = 2 then
            dec_bind (dec_get Reader_Bytes) (\<lambda>v. dec_return (q\<lparr>rs_ResponderRandom := v\<rparr>)) r
          else if Num (r_tag r) = 3 then
            dec_bind (dec_get Reader_Uint) (\<lambda>v. dec_return (q\<lparr>rs_ResponderSessionID := ucast v\<rparr>)) r
          else if Num (r_tag r) = 4 then
            dec_bind (each_member paramsBody \<lparr>Iterations = 0, Salt = []\<rparr>)
              (\<lambda>p. dec_return (q\<lparr>rs_Params := Some p\<rparr>)) r
          else dec_return q r)"

definition zeroParamResponse :: paramResponse where
  "zeroParamResponse = \<lparr>rs_InitiatorRandom = [], rs_ResponderRandom = [], rs_ResponderSessionID = 0, rs_Params = None\<rparr>"

definition decodeParamResponse :: "bytes \<Rightarrow> (derror + paramResponse) option" where
  "decodeParamResponse =
     dec_top ''pase: PBKDFParamResponse: expected structure''
       (dec_bind (each_member paramResponseBody zeroParamResponse) dec_checked)"

definition encodePake1 :: "bytes \<Rightarrow> tlv_error + bytes" where
  "encodePake1 pA =
     (let w = Writer_StartStructure NewWriter Anonymous;
          w = Writer_PutBytes w (Context 1) pA
      in Writer_Bytes (Writer_EndContainer w))"

definition encodePake2 :: "bytes \<Rightarrow> bytes \<Rightarrow> tlv_error + bytes" where
  "encodePake2 pB cB =
     (let w = Writer_StartStructure NewWriter Anonymous;
          w = Writer_PutBytes w (Context 1) pB;
          w = Writer_PutBytes w (Context 2) cB
      in Writer_Bytes (Writer_EndContainer w))"

definition encodePake3 :: "bytes \<Rightarrow> tlv_error + bytes" where
  "encodePake3 cA =
     (let w = Writer_StartStructure NewWriter Anonymous;
          w = Writer_PutBytes w (Context 1) cA
      in Writer_Bytes (Writer_EndContainer w))"

text \<open>\<^verbatim>\<open>decodeFields\<close>: the byte strings under the tag numbers \<open>ks\<close>; a missing one stays nil.\<close>

definition fieldsBody :: "u32 list \<Rightarrow> (u32 \<Rightarrow> bytes) \<Rightarrow> (u32 \<Rightarrow> bytes) dec" where
  "fieldsBody ks out =
     (\<lambda>r. if Num (r_tag r) \<in> set ks then
            dec_bind (dec_get Reader_Bytes) (\<lambda>v. dec_return (out(Num (r_tag r) := v))) r
          else dec_return out r)"

definition decodeFields :: "u32 list \<Rightarrow> bytes \<Rightarrow> (derror + (u32 \<Rightarrow> bytes)) option" where
  "decodeFields ks =
     dec_top ''pase: expected structure'' (dec_bind (each_member (fieldsBody ks) (\<lambda>_. [])) dec_checked)"

abbreviation spake2pContext :: bytes where "spake2pContext \<equiv> ascii ''CHIP PAKE V1 Commissioning''"
abbreviation paseKeysInfo :: bytes where "paseKeysInfo \<equiv> ascii ''SessionKeys''"

definition contextHash :: "'p suite \<Rightarrow> bytes \<Rightarrow> bytes \<Rightarrow> bytes" where
  "contextHash c reqRaw respRaw = Sum256 c (spake2pContext @ reqRaw @ respRaw)"

datatype pase_error = RandErr | PaseEncode tlv_error | PaseDecode derror | PaseSpake spake_error
  | TooEarly | OmittedParams | ConfirmFailed | UnsupportedPasscodeID u16 | SessionKdf
  | NotComplete | PaseSession session_error

text \<open>\<open>draws i\<close> is what the \<open>i\<close>-th call of \<^verbatim>\<open>rand.Int\<close> gives, None for an error.\<close>

partial_function (option) randomScalar :: "(nat \<Rightarrow> nat option) \<Rightarrow> nat \<Rightarrow> (pase_error + nat) option" where
  "randomScalar draws i =
     (case draws i of
        None \<Rightarrow> Some (Inl RandErr)
      | Some k \<Rightarrow> if 0 < k then Some (Inr k) else randomScalar draws (i + 1))"

definition sessionKeys :: "'p suite \<Rightarrow> bytes \<Rightarrow> pase_error + bytes \<times> bytes \<times> bytes" where
  "sessionKeys c ke =
     (case HKDF c ke [] paseKeysInfo 48 of
        None \<Rightarrow> Inl SessionKdf
      | Some keys \<Rightarrow> Inr (take 16 keys, take 16 (drop 16 keys), drop 32 keys))"

definition newSecure :: "'p suite \<Rightarrow> u16 \<Rightarrow> u16 \<Rightarrow> bytes \<Rightarrow> bytes \<Rightarrow> pase_error + Secure" where
  "newSecure c localID peerID sendKey recvKey =
     map_sum PaseSession id (NewSecure (Aes c) localID peerID 0 0 sendKey recvKey 0)"

section \<open>The commissioner\<close>

record 'p Initiator =
  in_passcode :: u32
  in_localSessionID :: u16
  in_reqRaw :: "bytes option"
  in_context :: bytes
  in_prover :: "'p Prover option"
  in_keys :: "MatterKeys option"
  in_peerSID :: u16
  in_done :: bool

definition NewInitiator :: "u32 \<Rightarrow> u16 \<Rightarrow> 'p Initiator" where
  "NewInitiator passcode localSessionID =
     \<lparr>in_passcode = passcode, in_localSessionID = localSessionID, in_reqRaw = None, in_context = [],
      in_prover = None, in_keys = None, in_peerSID = 0, in_done = False\<rparr>"

definition ParamRequest :: "bytes option \<Rightarrow> 'p Initiator \<Rightarrow> (pase_error + bytes) \<times> 'p Initiator" where
  "ParamRequest rnd i =
     (case rnd of
        None \<Rightarrow> (Inl RandErr, i)
      | Some r \<Rightarrow>
          (case encodeParamRequest \<lparr>rq_InitiatorRandom = r, rq_InitiatorSessionID = in_localSessionID i,
                  rq_PasscodeID = 0, rq_HasParams = False\<rparr> of
             Inl e \<Rightarrow> (Inl (PaseEncode e), i)
           | Inr raw \<Rightarrow> (Inr raw, i\<lparr>in_reqRaw := Some raw\<rparr>)))"

text \<open>The result of a step that may not return; \<^verbatim>\<open>peerSID\<close> stays set when a later call fails.\<close>

definition HandleParamResponse :: "'p suite \<Rightarrow> (nat \<Rightarrow> nat option) \<Rightarrow> bytes \<Rightarrow> 'p Initiator
    \<Rightarrow> ((pase_error + bytes) \<times> 'p Initiator) option" where
  "HandleParamResponse c draws raw i =
     (case in_reqRaw i of
        None \<Rightarrow> Some (Inl TooEarly, i)
      | Some reqRaw \<Rightarrow>
          (case decodeParamResponse raw of
             None \<Rightarrow> None
           | Some (Inl e) \<Rightarrow> Some (Inl (PaseDecode e), i)
           | Some (Inr resp) \<Rightarrow>
               (case rs_Params resp of
                  None \<Rightarrow> Some (Inl OmittedParams, i)
                | Some params \<Rightarrow>
                    (let i = i\<lparr>in_peerSID := rs_ResponderSessionID resp\<rparr> in
                     case DeriveW c (in_passcode i) (Salt params) (Iterations params) of
                       Inl e \<Rightarrow> Some (Inl (PaseSpake e), i)
                     | Inr (w0, w1) \<Rightarrow>
                         (case randomScalar draws 0 of
                            None \<Rightarrow> None
                          | Some (Inl e) \<Rightarrow> Some (Inl e, i)
                          | Some (Inr x) \<Rightarrow>
                              (case NewProver c w0 w1 x of
                                 Inl e \<Rightarrow> Some (Inl (PaseSpake e), i)
                               | Inr prover \<Rightarrow>
                                   (let i = i\<lparr>in_prover := Some prover, in_context := contextHash c reqRaw raw\<rparr> in
                                    case encodePake1 (Prover_Share c prover) of
                                      Inl e \<Rightarrow> Some (Inl (PaseEncode e), i)
                                    | Inr b \<Rightarrow> Some (Inr b, i))))))))"

definition HandlePake2 :: "'p suite \<Rightarrow> bytes \<Rightarrow> 'p Initiator \<Rightarrow> ((pase_error + bytes) \<times> 'p Initiator) option" where
  "HandlePake2 c raw i =
     (case in_prover i of
        None \<Rightarrow> Some (Inl TooEarly, i)
      | Some prover \<Rightarrow>
          (case decodeFields [1, 2] raw of
             None \<Rightarrow> None
           | Some (Inl e) \<Rightarrow> Some (Inl (PaseDecode e), i)
           | Some (Inr out) \<Rightarrow>
               (let pB = out 1; cB = out 2 in
                case Prover_ConfirmMatter c prover pB (in_context i) of
                  Inl e \<Rightarrow> Some (Inl (PaseSpake e), i)
                | Inr keys \<Rightarrow>
                    if \<not> VerifyCB keys cB then Some (Inl ConfirmFailed, i)
                    else
                      let i = i\<lparr>in_keys := Some keys, in_done := True\<rparr> in
                      case encodePake3 (mk_CA keys) of
                        Inl e \<Rightarrow> Some (Inl (PaseEncode e), i)
                      | Inr b \<Rightarrow> Some (Inr b, i))))"

text \<open>\<^verbatim>\<open>keys\<close> is set whenever \<^verbatim>\<open>done\<close> is; without it the code would panic.\<close>

definition Initiator_SecureSession :: "'p suite \<Rightarrow> 'p Initiator \<Rightarrow> pase_error + Secure" where
  "Initiator_SecureSession c i =
     (if \<not> in_done i then Inl NotComplete
      else case sessionKeys c (mk_Ke (the (in_keys i))) of
        Inl e \<Rightarrow> Inl e
      | Inr (i2r, r2i, _) \<Rightarrow> newSecure c (in_localSessionID i) (in_peerSID i) i2r r2i)"

definition AttestationChallenge :: "'p suite \<Rightarrow> 'p Initiator \<Rightarrow> pase_error + bytes" where
  "AttestationChallenge c i =
     (if \<not> in_done i then Inl NotComplete
      else case sessionKeys c (mk_Ke (the (in_keys i))) of
        Inl e \<Rightarrow> Inl e
      | Inr (_, _, challenge) \<Rightarrow> Inr challenge)"

section \<open>The device\<close>

record Responder =
  re_w0 :: nat
  re_l :: bytes
  re_params :: PBKDFParams
  re_localSessionID :: u16
  re_context :: "bytes option"
  re_keys :: "MatterKeys option"
  re_peerSID :: u16
  re_done :: bool

definition NewResponder :: "'p suite \<Rightarrow> u32 \<Rightarrow> PBKDFParams \<Rightarrow> u16 \<Rightarrow> pase_error + Responder" where
  "NewResponder c passcode params localSessionID =
     (case DeriveW c passcode (Salt params) (Iterations params) of
        Inl e \<Rightarrow> Inl (PaseSpake e)
      | Inr (w0, w1) \<Rightarrow>
          (case ComputeL c w1 of
             Inl e \<Rightarrow> Inl (PaseSpake e)
           | Inr l \<Rightarrow> Inr \<lparr>re_w0 = w0, re_l = l, re_params = params, re_localSessionID = localSessionID,
               re_context = None, re_keys = None, re_peerSID = 0, re_done = False\<rparr>))"

definition HandleParamRequest :: "'p suite \<Rightarrow> bytes option \<Rightarrow> bytes \<Rightarrow> Responder
    \<Rightarrow> ((pase_error + bytes) \<times> Responder) option" where
  "HandleParamRequest c rnd raw d =
     (case decodeParamRequest raw of
        None \<Rightarrow> None
      | Some (Inl e) \<Rightarrow> Some (Inl (PaseDecode e), d)
      | Some (Inr req) \<Rightarrow>
          if rq_PasscodeID req \<noteq> 0 then Some (Inl (UnsupportedPasscodeID (rq_PasscodeID req)), d)
          else
            let d = d\<lparr>re_peerSID := rq_InitiatorSessionID req\<rparr> in
            case rnd of
              None \<Rightarrow> Some (Inl RandErr, d)
            | Some responderRandom \<Rightarrow>
                (case encodeParamResponse \<lparr>rs_InitiatorRandom = rq_InitiatorRandom req,
                        rs_ResponderRandom = responderRandom, rs_ResponderSessionID = re_localSessionID d,
                        rs_Params = Some (re_params d)\<rparr> of
                   Inl e \<Rightarrow> Some (Inl (PaseEncode e), d)
                 | Inr resp \<Rightarrow> Some (Inr resp, d\<lparr>re_context := Some (contextHash c raw resp)\<rparr>)))"

definition HandlePake1 :: "'p suite \<Rightarrow> (nat \<Rightarrow> nat option) \<Rightarrow> bytes \<Rightarrow> Responder
    \<Rightarrow> ((pase_error + bytes) \<times> Responder) option" where
  "HandlePake1 c draws raw d =
     (case re_context d of
        None \<Rightarrow> Some (Inl TooEarly, d)
      | Some ctxt \<Rightarrow>
          (case decodeFields [1] raw of
             None \<Rightarrow> None
           | Some (Inl e) \<Rightarrow> Some (Inl (PaseDecode e), d)
           | Some (Inr out) \<Rightarrow>
               (case randomScalar draws 0 of
                  None \<Rightarrow> None
                | Some (Inl e) \<Rightarrow> Some (Inl e, d)
                | Some (Inr y) \<Rightarrow>
                    (case NewVerifier c (re_w0 d) (re_l d) y of
                       Inl e \<Rightarrow> Some (Inl (PaseSpake e), d)
                     | Inr verifier \<Rightarrow>
                         (case Verifier_ConfirmMatter c verifier (out 1) ctxt of
                            Inl e \<Rightarrow> Some (Inl (PaseSpake e), d)
                          | Inr keys \<Rightarrow>
                              (let d = d\<lparr>re_keys := Some keys\<rparr> in
                               case encodePake2 (Verifier_Share c verifier) (mk_CB keys) of
                                 Inl e \<Rightarrow> Some (Inl (PaseEncode e), d)
                               | Inr b \<Rightarrow> Some (Inr b, d)))))))"

definition HandlePake3 :: "bytes \<Rightarrow> Responder \<Rightarrow> (pase_error option \<times> Responder) option" where
  "HandlePake3 raw d =
     (case re_keys d of
        None \<Rightarrow> Some (Some TooEarly, d)
      | Some keys \<Rightarrow>
          (case decodeFields [1] raw of
             None \<Rightarrow> None
           | Some (Inl e) \<Rightarrow> Some (Some (PaseDecode e), d)
           | Some (Inr out) \<Rightarrow>
               if \<not> VerifyCA keys (out 1) then Some (Some ConfirmFailed, d)
               else Some (None, d\<lparr>re_done := True\<rparr>)))"

definition Responder_SecureSession :: "'p suite \<Rightarrow> Responder \<Rightarrow> pase_error + Secure" where
  "Responder_SecureSession c d =
     (if \<not> re_done d then Inl NotComplete
      else case sessionKeys c (mk_Ke (the (re_keys d))) of
        Inl e \<Rightarrow> Inl e
      | Inr (i2r, r2i, _) \<Rightarrow> newSecure c (re_localSessionID d) (re_peerSID d) r2i i2r)"

section \<open>The messages survive encoding\<close>

definition param_request_elem :: "paramRequest \<Rightarrow> elem" where
  "param_request_elem q = Cont Anonymous CStructure
     [Prim (Context 1) (PBytes (rq_InitiatorRandom q)), ctx_uint 2 (ucast (rq_InitiatorSessionID q)),
      ctx_uint 3 (ucast (rq_PasscodeID q)), Prim (Context 4) (PBool (rq_HasParams q))]"

definition param_response_elem :: "paramResponse \<Rightarrow> PBKDFParams \<Rightarrow> elem" where
  "param_response_elem q p = Cont Anonymous CStructure
     [Prim (Context 1) (PBytes (rs_InitiatorRandom q)), Prim (Context 2) (PBytes (rs_ResponderRandom q)),
      ctx_uint 3 (ucast (rs_ResponderSessionID q)),
      Cont (Context 4) CStructure
        [ctx_uint 1 (word_of_int (Iterations p)), Prim (Context 2) (PBytes (Salt p))]]"

lemma encodeParamRequest_elem: "encodeParamRequest q = Inr (enc (param_request_elem q))"
  by (simp only: encodeParamRequest_def encode_rules) (simp add: param_request_elem_def)

lemma encodeParamResponse_elem:
  "rs_Params q = Some p \<Longrightarrow> encodeParamResponse q = Inr (enc (param_response_elem q p))"
  by (simp only: encodeParamResponse_def encode_rules option.case) (simp add: param_response_elem_def)

lemma encodePake_elem:
  "encodePake1 a = Inr (enc (Cont Anonymous CStructure [Prim (Context 1) (PBytes a)]))"
  "encodePake3 a = Inr (enc (Cont Anonymous CStructure [Prim (Context 1) (PBytes a)]))"
  "encodePake2 a b = Inr (enc (Cont Anonymous CStructure [Prim (Context 1) (PBytes a), Prim (Context 2) (PBytes b)]))"
  by (simp only: encodePake1_def encodePake2_def encodePake3_def encode_rules, simp)+

lemma decodes_fields1:
  assumes "length a < 2 ^ 64"
  shows "decodes (each_member (fieldsBody [1]) (\<lambda>_. [])) 0
    (Cont Anonymous CStructure [Prim (Context 1) (PBytes a)]) ((\<lambda>_. [])(1 := a))"
  unfolding fieldsBody_def
  by (rule decodes_each_member, rule runs.Cons [OF _ _ runs.Nil])
    (auto simp: decodes_def cur_tag dec_bind_def dec_get_def dec_return_def cur_get cur_at assms [simplified])

lemma decodes_fields2:
  assumes "length a < 2 ^ 64" "length b < 2 ^ 64"
  shows "decodes (each_member (fieldsBody [1, 2]) (\<lambda>_. [])) 0
    (Cont Anonymous CStructure [Prim (Context 1) (PBytes a), Prim (Context 2) (PBytes b)]) ((\<lambda>_. [])(1 := a, 2 := b))"
  unfolding fieldsBody_def
  by (rule decodes_each_member, rule runs.Cons [OF _ _ runs.Cons [OF _ _ runs.Nil]])
    (auto simp: decodes_def cur_tag dec_bind_def dec_get_def dec_return_def cur_get cur_at assms [simplified])

lemma decodeFields_enc1:
  assumes "length a < 2 ^ 64"
  shows "decodeFields [1] (enc (Cont Anonymous CStructure [Prim (Context 1) (PBytes a)]))
    = Some (Inr ((\<lambda>_. [])(1 := a)))"
  unfolding decodeFields_def by (rule dec_top_message [OF _ _ decodes_fields1]) (use assms in simp_all)

lemma decodeFields_enc2:
  assumes "length a < 2 ^ 64" "length b < 2 ^ 64"
  shows "decodeFields [1, 2] (enc (Cont Anonymous CStructure [Prim (Context 1) (PBytes a), Prim (Context 2) (PBytes b)]))
    = Some (Inr ((\<lambda>_. [])(1 := a, 2 := b)))"
  unfolding decodeFields_def by (rule dec_top_message [OF _ _ decodes_fields2]) (use assms in simp_all)

end
