(* ===== verification/Pase_Properties.thy ===== *)
theory Pase_Properties
  imports Pase Session_Properties
begin

text \<open>
  What a PASE handshake promises: the messages survive encoding, two sides with the same passcode
  establish sessions that understand each other, and a side that accepts a confirmation has the
  transcript and the keys of the side that made it.
\<close>

section \<open>The parameter messages\<close>

lemma decodes_param_request:
  assumes "length (rq_InitiatorRandom q) < 2 ^ 64"
  shows "decodes (each_member paramRequestBody zeroParamRequest) 0 (param_request_elem q) q"
proof -
  let ?q1 = "zeroParamRequest\<lparr>rq_InitiatorRandom := rq_InitiatorRandom q\<rparr>"
  let ?q2 = "?q1\<lparr>rq_InitiatorSessionID := rq_InitiatorSessionID q\<rparr>"
  let ?q3 = "?q2\<lparr>rq_PasscodeID := rq_PasscodeID q\<rparr>"
  have q: "?q3\<lparr>rq_HasParams := rq_HasParams q\<rparr> = q" by (simp add: zeroParamRequest_def)
  have "runs paramRequestBody 1
      [Prim (Context 1) (PBytes (rq_InitiatorRandom q)), ctx_uint 2 (ucast (rq_InitiatorSessionID q)),
       ctx_uint 3 (ucast (rq_PasscodeID q)), Prim (Context 4) (PBool (rq_HasParams q))]
      zeroParamRequest (?q3\<lparr>rq_HasParams := rq_HasParams q\<rparr>)"
    unfolding paramRequestBody_def
    by (rule runs.Cons [where ?s1.0 = ?q1], (rule decodes_intros; simp?)+, simp add: assms [simplified],
        rule runs.Cons [where ?s1.0 = ?q2], (rule decodes_intros; simp?)+, simp,
        rule runs.Cons [where ?s1.0 = ?q3], (rule decodes_intros; simp?)+, simp,
        rule runs.Cons [where ?s1.0 = "?q3\<lparr>rq_HasParams := rq_HasParams q\<rparr>"], (rule decodes_intros; simp?)+, simp,
        rule runs.Nil)
  then show ?thesis unfolding q param_request_elem_def by (intro decodes_each_member) simp_all
qed

lemma param_request_wf:
  "length (rq_InitiatorRandom q) < 2 ^ 64 \<Longrightarrow> wf_elem maxDepth (param_request_elem q)"
  by (simp add: param_request_elem_def)

lemma param_request_roundtrip:
  assumes "length (rq_InitiatorRandom q) = 32"
  shows "\<exists>b. encodeParamRequest q = Inr b \<and> decodeParamRequest b = Some (Inr q)"
proof -
  have l: "length (rq_InitiatorRandom q) < 2 ^ 64" using assms by simp
  have "decodes (dec_bind (each_member paramRequestBody zeroParamRequest) (\<lambda>q.
      if length (rq_InitiatorRandom q) \<noteq> 32 then dec_fail (Msg ''pase: initiatorRandom'') else dec_checked q))
      0 (param_request_elem q) q"
    by (rule decodes_bind [OF decodes_param_request [OF l]]) (simp add: assms dec_checked_def)
  from dec_top_enc [OF param_request_wf [OF l, unfolded param_request_elem_def] this [unfolded param_request_elem_def]]
  show ?thesis by (simp add: decodeParamRequest_def encodeParamRequest_elem param_request_elem_def)
qed

lemma decodes_param_response:
  assumes "length (rs_InitiatorRandom q) < 2 ^ 64" "length (rs_ResponderRandom q) < 2 ^ 64" "length (Salt p) < 2 ^ 64"
    and "rs_Params q = Some p" "- (2 ^ 63) \<le> Iterations p" "Iterations p < 2 ^ 63"
  shows "decodes (each_member paramResponseBody zeroParamResponse) 0 (param_response_elem q p) q"
proof -
  let ?z = "\<lparr>Iterations = 0, Salt = []\<rparr>"
  have it: "sint (word_of_int (Iterations p) :: u64) = Iterations p"
    using assms(5,6) by (simp add: signed_of_int signed_take_bit_int_eq_self)
  let ?p1 = "?z\<lparr>Iterations := sint (word_of_int (Iterations p) :: u64)\<rparr>"
  have p: "?p1\<lparr>Salt := Salt p\<rparr> = p" by (simp add: it)
  have "runs paramsBody 2 [ctx_uint 1 (word_of_int (Iterations p)), Prim (Context 2) (PBytes (Salt p))]
      ?z (?p1\<lparr>Salt := Salt p\<rparr>)"
    unfolding paramsBody_def
    by (rule runs.Cons [where ?s1.0 = ?p1], (rule decodes_intros; simp?)+, simp,
        rule runs.Cons [where ?s1.0 = "?p1\<lparr>Salt := Salt p\<rparr>"], (rule decodes_intros; simp?)+, simp add: assms [simplified],
        rule runs.Nil)
  then have params: "decodes (each_member paramsBody ?z) 1
      (Cont (Context 4) CStructure [ctx_uint 1 (word_of_int (Iterations p)), Prim (Context 2) (PBytes (Salt p))]) p"
    unfolding p by (intro decodes_each_member) (simp_all add: numeral_2_eq_2)
  let ?q1 = "zeroParamResponse\<lparr>rs_InitiatorRandom := rs_InitiatorRandom q\<rparr>"
  let ?q2 = "?q1\<lparr>rs_ResponderRandom := rs_ResponderRandom q\<rparr>"
  let ?q3 = "?q2\<lparr>rs_ResponderSessionID := rs_ResponderSessionID q\<rparr>"
  let ?q4 = "?q3\<lparr>rs_Params := Some p\<rparr>"
  have q: "?q4 = q" using assms(4) by (simp add: zeroParamResponse_def)
  have "runs paramResponseBody 1
      [Prim (Context 1) (PBytes (rs_InitiatorRandom q)), Prim (Context 2) (PBytes (rs_ResponderRandom q)),
       ctx_uint 3 (ucast (rs_ResponderSessionID q)),
       Cont (Context 4) CStructure [ctx_uint 1 (word_of_int (Iterations p)), Prim (Context 2) (PBytes (Salt p))]]
      zeroParamResponse ?q4"
    unfolding paramResponseBody_def
    by (rule runs.Cons [where ?s1.0 = ?q1], (rule decodes_intros; simp?)+, simp add: assms [simplified],
        rule runs.Cons [where ?s1.0 = ?q2], (rule decodes_intros; simp?)+, simp add: assms [simplified],
        rule runs.Cons [where ?s1.0 = ?q3], (rule decodes_intros; simp?)+, simp,
        rule runs.Cons [where ?s1.0 = ?q4], rule decodes_tag, simp, rule decodes_tag, simp, rule decodes_tag, simp,
        rule decodes_tag, rule decodes_map [OF params], rule refl, simp, simp add: assms [simplified],
        rule runs.Nil)
  then show ?thesis unfolding q param_response_elem_def by (intro decodes_each_member) simp_all
qed

lemma param_response_roundtrip:
  assumes "length (rs_InitiatorRandom q) < 2 ^ 64" "length (rs_ResponderRandom q) < 2 ^ 64" "length (Salt p) < 2 ^ 64"
    and "rs_Params q = Some p" "- (2 ^ 63) \<le> Iterations p" "Iterations p < 2 ^ 63"
  shows "\<exists>b. encodeParamResponse q = Inr b \<and> decodeParamResponse b = Some (Inr q)"
proof -
  have wf: "wf_elem maxDepth (param_response_elem q p)" using assms(1-3) by (simp add: param_response_elem_def)
  from dec_top_message [OF wf _ decodes_param_response [OF assms]] show ?thesis
    by (simp add: encodeParamResponse_elem [OF assms(4)] decodeParamResponse_def param_response_elem_def
        del: enc.simps)
qed

section \<open>An honest handshake\<close>

text \<open>The draws of \<^verbatim>\<open>rand.Int\<close> work, and one of them is not zero.\<close>

definition good_draws :: "(nat \<Rightarrow> nat option) \<Rightarrow> bool" where
  "good_draws draws \<longleftrightarrow> (\<exists>i k. draws i = Some k \<and> 0 < k \<and> (\<forall>j<i. draws j = Some 0))"

lemma randomScalar_good:
  assumes "good_draws draws" shows "\<exists>k. randomScalar draws 0 = Some (Inr k) \<and> 0 < k"
proof -
  obtain i k where i: "draws i = Some k" "0 < k" "\<And>j. j < i \<Longrightarrow> draws j = Some 0"
    using assms by (auto simp: good_draws_def)
  have "j \<le> i \<Longrightarrow> randomScalar draws (i - j) = Some (Inr k)" for j
  proof (induction j)
    case 0
    with i show ?case by (subst randomScalar.simps) simp
  next
    case (Suc j)
    then have "draws (i - Suc j) = Some 0" "i - Suc j + 1 = i - j" using i(3) by simp_all
    with Suc show ?case by (subst randomScalar.simps) simp
  qed
  from this [of i] i(2) show ?thesis by auto
qed

text \<open>The six messages of the handshake, each given to the other side as it was made.\<close>

definition pase_run :: "'p suite \<Rightarrow> u32 \<Rightarrow> u32 \<Rightarrow> PBKDFParams \<Rightarrow> u16 \<Rightarrow> u16 \<Rightarrow> bytes option \<Rightarrow> bytes option
    \<Rightarrow> (nat \<Rightarrow> nat option) \<Rightarrow> (nat \<Rightarrow> nat option)
    \<Rightarrow> (pase_error + ('p Initiator \<times> Responder)) option" where
  "pase_run c ipass rpass params isid rsid irnd rrnd idraws rdraws =
     (case NewResponder c rpass params rsid of Inl e \<Rightarrow> Some (Inl e) | Inr d0 \<Rightarrow>
     (case ParamRequest irnd (NewInitiator ipass isid) of (Inl e, _) \<Rightarrow> Some (Inl e) | (Inr m1, i1) \<Rightarrow>
     (case HandleParamRequest c rrnd m1 d0 of None \<Rightarrow> None | Some (Inl e, _) \<Rightarrow> Some (Inl e) | Some (Inr m2, d1) \<Rightarrow>
     (case HandleParamResponse c idraws m2 i1 of None \<Rightarrow> None | Some (Inl e, _) \<Rightarrow> Some (Inl e) | Some (Inr m3, i2) \<Rightarrow>
     (case HandlePake1 c rdraws m3 d1 of None \<Rightarrow> None | Some (Inl e, _) \<Rightarrow> Some (Inl e) | Some (Inr m4, d2) \<Rightarrow>
     (case HandlePake2 c m4 i2 of None \<Rightarrow> None | Some (Inl e, _) \<Rightarrow> Some (Inl e) | Some (Inr m5, i3) \<Rightarrow>
     (case HandlePake3 m5 d2 of None \<Rightarrow> None | Some (Some e, _) \<Rightarrow> Some (Inl e) | Some (None, d3) \<Rightarrow>
        Some (Inr (i3, d3)))))))))"

lemma sessionKeys_ok:
  assumes "suite_ok c"
  shows "\<exists>a b ch. sessionKeys c ke = Inr (a, b, ch) \<and> length a = 16 \<and> length b = 16"
proof -
  obtain k where "HKDF c ke [] paseKeysInfo 48 = Some k" "length k = 48"
    using suite_okD(9) [OF assms, of 48 ke "[]" paseKeysInfo] by auto
  then show ?thesis by (simp add: sessionKeys_def)
qed

lemma sessions_paired:
  assumes "suite_ok c" "in_done i" "re_done d" "in_keys i = Some k" "re_keys d = Some k'" "mk_Ke k = mk_Ke k'"
    and "in_peerSID i = re_localSessionID d" "re_peerSID d = in_localSessionID i"
  shows "\<exists>si sd. Initiator_SecureSession c i = Inr si \<and> Responder_SecureSession c d = Inr sd
    \<and> keyed si \<and> keyed sd \<and> paired si sd \<and> paired sd si \<and> rx si = zeroWindow \<and> rx sd = zeroWindow"
proof -
  obtain a b ch where k: "sessionKeys c (mk_Ke k) = Inr (a, b, ch)" "length a = 16" "length b = 16"
    using sessionKeys_ok [OF assms(1)] by blast
  then show ?thesis using assms(2-)
    by (simp add: Initiator_SecureSession_def Responder_SecureSession_def newSecure_def NewSecure_def NewCCM_def
        newCCM_def keyed_def paired_def)
qed

lemma honest_run:
  assumes ok: "suite_ok c" and params: "16 \<le> length (Salt params)" "length (Salt params) \<le> 32"
      "1000 \<le> Iterations params" "Iterations params \<le> 100000"
    and rnd: "length ri = 32" "length rr = 32" "good_draws dx" "good_draws dy"
  shows "\<exists>i d k. pase_run c pw pw params isid rsid (Some ri) (Some rr) dx dy = Some (Inr (i, d))
    \<and> in_done i \<and> re_done d \<and> in_keys i = Some k \<and> re_keys d = Some k
    \<and> in_localSessionID i = isid \<and> re_localSessionID d = rsid
    \<and> in_peerSID i = rsid \<and> re_peerSID d = isid"
proof -
  obtain ws where ws: "PBKDF2 c (le_bytes 4 pw) (Salt params) (Iterations params) (2 * wsLength) = Some ws"
    using suite_okD(10) [OF ok, of "Iterations params" "le_bytes 4 pw" "Salt params" "2 * wsLength"] params(3) by auto
  obtain w0 w1 where w: "DeriveW c pw (Salt params) (Iterations params) = Inr (w0, w1)"
    using params ws by (simp add: DeriveW_def Let_def)
  obtain l where l: "ComputeL c w1 = Inr l"
    using suite_okD(1) [OF ok, of "scalarBytes w1"] by (auto simp: ComputeL_def)
  let ?req = "\<lparr>rq_InitiatorRandom = ri, rq_InitiatorSessionID = isid, rq_PasscodeID = 0, rq_HasParams = False\<rparr>"
  let ?resp = "\<lparr>rs_InitiatorRandom = ri, rs_ResponderRandom = rr, rs_ResponderSessionID = rsid, rs_Params = Some params\<rparr>"
  obtain m1 where m1: "encodeParamRequest ?req = Inr m1" "decodeParamRequest m1 = Some (Inr ?req)"
    using param_request_roundtrip [of ?req] rnd(1) by auto
  obtain m2 where m2: "encodeParamResponse ?resp = Inr m2" "decodeParamResponse m2 = Some (Inr ?resp)"
    using param_response_roundtrip [of ?resp params] rnd params by auto
  obtain x y where xy: "randomScalar dx 0 = Some (Inr x)" "randomScalar dy 0 = Some (Inr y)"
    using randomScalar_good rnd(3,4) by blast
  obtain p where p: "NewProver c w0 w1 x = Inr p"
    using suite_okD(1) [OF ok, of "scalarBytes x"] suite_okD(2) [OF ok, of "scalarBytes w0" "pointM c"]
    by (auto simp: NewProver_def)
  obtain lp where lp: "SetBytes c l = Some lp"
    using l suite_okD(5) [OF ok] by (auto simp: ComputeL_def split: option.splits)
  obtain v where v: "NewVerifier c w0 l y = Inr v"
    using suite_okD(1) [OF ok, of "scalarBytes y"] suite_okD(2) [OF ok, of "scalarBytes w0" "pointN c"] lp
    by (auto simp: NewVerifier_def)
  obtain k where k: "Prover_ConfirmMatter c p (Verifier_Share c v) (contextHash c m1 m2) = Inr k"
    "Verifier_ConfirmMatter c v (Prover_Share c p) (contextHash c m1 m2) = Inr k"
    using spake_agree [OF ok p l v] by blast
  have len: "length (PointBytes c P) < 2 ^ 64" for P using suite_okD(6) [OF ok, of P] by simp
  have mac: "length (mk_CA k) < 2 ^ 64" "length (mk_CB k) < 2 ^ 64"
    using k(1) suite_okD(8) [OF ok]
    by (auto simp: Prover_ConfirmMatter_def deriveMatterKeys_def Let_def split: sum.splits option.splits)
  note pake = encodePake_elem decodeFields_enc1 [OF len [of "p_share p"]] decodeFields_enc1 [OF mac(1)]
    decodeFields_enc2 [OF len [of "v_share v"] mac(2)]
  show ?thesis
    using w l m1 m2 xy p v k
    by (simp add: pase_run_def NewResponder_def ParamRequest_def NewInitiator_def HandleParamRequest_def
        HandleParamResponse_def HandlePake1_def HandlePake2_def HandlePake3_def pake Prover_Share_def
        Verifier_Share_def VerifyCB_def VerifyCA_def Let_def del: enc.simps)
qed

section \<open>What the handshake gives\<close>

text \<open>C27: Two sides that were given the same passcode finish the handshake: whatever they draw, and
  whatever the salt and iteration count within the limits of the specification, the six messages pass
  from one to the other without an error, both sides are done, their session ids refer to each other,
  and a message that either encrypts in the session it derives is decrypted by the other's session.\<close>

theorem pase_agreement:
  assumes "suite_ok c" "16 \<le> length (Salt params)" "length (Salt params) \<le> 32"
      "1000 \<le> Iterations params" "Iterations params \<le> 100000"
    and "length ri = 32" "length rr = 32" "good_draws dx" "good_draws dy" "length p \<le> 65535"
  shows "\<exists>i d si sd fi fd. pase_run c pw pw params isid rsid (Some ri) (Some rr) dx dy = Some (Inr (i, d))
    \<and> Initiator_SecureSession c i = Inr si \<and> Responder_SecureSession c d = Inr sd
    \<and> LocalSessionID si = isid \<and> PeerSessionID si = rsid \<and> LocalSessionID sd = rsid \<and> PeerSessionID sd = isid
    \<and> fst (Secure_Encrypt si p) = Inr fi \<and> fst (Secure_DecryptMsg sd fi) = (0, p, None)
    \<and> fst (Secure_Encrypt sd p) = Inr fd \<and> fst (Secure_DecryptMsg si fd) = (0, p, None)"
proof -
  obtain i d k where run: "pase_run c pw pw params isid rsid (Some ri) (Some rr) dx dy = Some (Inr (i, d))"
    and fin: "in_done i" "re_done d" "in_keys i = Some k" "re_keys d = Some k" "mk_Ke k = mk_Ke k"
      "in_peerSID i = re_localSessionID d" "re_peerSID d = in_localSessionID i"
    and ids: "in_localSessionID i = isid" "re_localSessionID d = rsid"
    using honest_run [OF assms(1-9)] by metis
  obtain si sd where s: "Initiator_SecureSession c i = Inr si" "Responder_SecureSession c d = Inr sd"
    "keyed si" "keyed sd" "paired si sd" "paired sd si" "rx si = zeroWindow" "rx sd = zeroWindow"
    using sessions_paired [OF assms(1) fin] by blast
  have f: "LocalSessionID si = isid" "PeerSessionID si = rsid" "LocalSessionID sd = rsid" "PeerSessionID sd = isid"
      "txCounter si = 0" "txCounter sd = 0"
    using s(1,2) ids fin(6,7)
    by (auto simp: Initiator_SecureSession_def Responder_SecureSession_def newSecure_def NewSecure_def
        split: if_splits sum.splits)
  have acc: "fst (accept zeroWindow 0)" by (simp add: accept_def zeroWindow_def)
  obtain fi where fi: "Secure_Encrypt si p = (Inr fi, si\<lparr>txCounter := 1\<rparr>)"
    using Encrypt_returns [OF s(3) _ assms(10)] f(5) by auto
  obtain fd where fd: "Secure_Encrypt sd p = (Inr fd, sd\<lparr>txCounter := 1\<rparr>)"
    using Encrypt_returns [OF s(4) _ assms(10)] f(6) by auto
  from DecryptMsg_Encrypt [OF s(3,4,5) fi] DecryptMsg_Encrypt [OF s(4,3,6) fd] run s(1,2) f fi fd acc
  show ?thesis by (auto simp: s(7,8))
qed

text \<open>A suite in which the points are the integers modulo a power of two.\<close>

definition example_suite :: "256 word suite" where
  "example_suite = \<lparr>ScalarBaseMult = (\<lambda>k. Some (of_nat (be_nat k))),
     ScalarMult = (\<lambda>P k. Some (P * of_nat (be_nat k))),
     PointAdd = (+), PointNegate = uminus, PointBytes = le_bytes 32, SetBytes = (\<lambda>b. Some (le_word b)),
     Sum256 = (\<lambda>b. le_bytes 32 (of_nat (length b) :: 256 word)), HmacSHA256 = (\<lambda>k m. le_bytes 32 (le_word k + le_word m :: 256 word)),
     HKDF = (\<lambda>s salt info n. Some (take n (s @ replicate n 0))),
     PBKDF2 = (\<lambda>p salt i n. Some (take n (p @ salt @ replicate n 1))), Aes = (\<lambda>k b. rev b)\<rparr>"

lemma example_suite_ok: "suite_ok example_suite"
  by (auto simp: suite_ok_def example_suite_def le_word_le_bytes_full mult.commute min_def)

theorem pase_agreement_witness:
  "\<exists>i d si sd fi fd. pase_run example_suite 20202021 20202021 \<lparr>Iterations = 1000, Salt = replicate 16 7\<rparr> 1 2
      (Some (replicate 32 3)) (Some (replicate 32 4)) (\<lambda>_. Some 5) (\<lambda>n. Some n) = Some (Inr (i, d))
    \<and> Initiator_SecureSession example_suite i = Inr si \<and> Responder_SecureSession example_suite d = Inr sd
    \<and> LocalSessionID si = 1 \<and> PeerSessionID si = 2 \<and> LocalSessionID sd = 2 \<and> PeerSessionID sd = 1
    \<and> fst (Secure_Encrypt si [9]) = Inr fi \<and> fst (Secure_DecryptMsg sd fi) = (0, [9], None)
    \<and> fst (Secure_Encrypt sd [9]) = Inr fd \<and> fst (Secure_DecryptMsg si fd) = (0, [9], None)"
proof -
  have "good_draws (\<lambda>_. Some 5)" by (auto simp: good_draws_def intro!: exI [of _ 0])
  moreover have "good_draws (\<lambda>n. Some n)" by (auto simp: good_draws_def intro!: exI [of _ 1])
  ultimately show ?thesis by (intro pase_agreement example_suite_ok) simp_all
qed

section \<open>What a confirmation proves\<close>

text \<open>The transcript a side hashed when it computed its keys.\<close>

definition prover_transcript :: "'p suite \<Rightarrow> 'p Prover \<Rightarrow> bytes \<Rightarrow> bytes \<Rightarrow> bytes" where
  "prover_transcript c p pB ctxt =
     (case Prover_Finish c p pB of
        Inl e \<Rightarrow> []
      | Inr (z, v) \<Rightarrow> transcript c ctxt [] [] (Prover_Share c p) pB z v (scalarBytes (p_w0 p)))"

definition verifier_transcript :: "'p suite \<Rightarrow> 'p Verifier \<Rightarrow> bytes \<Rightarrow> bytes \<Rightarrow> bytes" where
  "verifier_transcript c v pA ctxt =
     (let t = PointAdd c (the (SetBytes c pA)) (PointNegate c (the (ScalarMult c (pointM c) (scalarBytes (v_w0 v))))) in
      transcript c ctxt [] [] pA (Verifier_Share c v)
        (PointBytes c (the (ScalarMult c t (scalarBytes (v_y v)))))
        (PointBytes c (the (ScalarMult c (v_l v) (scalarBytes (v_y v))))) (scalarBytes (v_w0 v)))"

text \<open>The keys that a transcript gives: the key of the device's confirmation and the confirmation.\<close>

definition confirm_secret :: "'p suite \<Rightarrow> bytes \<Rightarrow> bytes" where
  "confirm_secret c tt = take 16 (Sum256 c tt)"

definition confirm_key :: "'p suite \<Rightarrow> bytes \<Rightarrow> bytes" where
  "confirm_key c tt = drop 16 (the (HKDF c (confirm_secret c tt) [] confirmation_info 32))"

text \<open>Two different transcripts, of which the hash, the key derivation or the tag is the same.\<close>

definition confirm_collision :: "'p suite \<Rightarrow> bytes \<Rightarrow> bytes \<Rightarrow> bytes \<Rightarrow> bytes \<Rightarrow> bool" where
  "confirm_collision c tt sh tt' sh' \<longleftrightarrow> tt \<noteq> tt' \<and>
     (confirm_secret c tt = confirm_secret c tt'
      \<or> confirm_secret c tt \<noteq> confirm_secret c tt' \<and> confirm_key c tt = confirm_key c tt'
      \<or> confirm_key c tt \<noteq> confirm_key c tt'
        \<and> HmacSHA256 c (confirm_key c tt) sh = HmacSHA256 c (confirm_key c tt') sh')"

lemma matter_keys:
  assumes "deriveMatterKeys c ctxt idP idV shP shV z v w0 = Inr k"
  shows "mk_Ke k = drop 16 (Sum256 c (transcript c ctxt idP idV shP shV z v w0))"
    "mk_CB k = HmacSHA256 c (confirm_key c (transcript c ctxt idP idV shP shV z v w0)) shP"
  using assms
  by (auto simp: deriveMatterKeys_def confirm_key_def confirm_secret_def Let_def split: option.splits)

lemma prover_keys:
  assumes "Prover_ConfirmMatter c p pB ctxt = Inr k"
  obtains z v where "prover_transcript c p pB ctxt
      = transcript c ctxt [] [] (Prover_Share c p) pB z v (scalarBytes (p_w0 p))"
    "mk_Ke k = drop 16 (Sum256 c (prover_transcript c p pB ctxt))"
    "mk_CB k = HmacSHA256 c (confirm_key c (prover_transcript c p pB ctxt)) (Prover_Share c p)"
    "Prover_Finish c p pB = Inr (z, v)"
proof -
  obtain z v where f: "Prover_Finish c p pB = Inr (z, v)"
    and k: "deriveMatterKeys c ctxt [] [] (Prover_Share c p) pB z v (scalarBytes (p_w0 p)) = Inr k"
    using assms by (auto simp: Prover_ConfirmMatter_def split: sum.splits)
  have t: "prover_transcript c p pB ctxt
      = transcript c ctxt [] [] (Prover_Share c p) pB z v (scalarBytes (p_w0 p))"
    by (simp add: prover_transcript_def f)
  show thesis
    by (rule that [OF t _ _ f]) (simp_all only: t matter_keys [OF k])
qed

lemma verifier_keys:
  assumes "Verifier_ConfirmMatter c d pA ctxt = Inr k"
  obtains z v where "verifier_transcript c d pA ctxt
      = transcript c ctxt [] [] pA (Verifier_Share c d) (PointBytes c z) (PointBytes c v) (scalarBytes (v_w0 d))"
    "mk_Ke k = drop 16 (Sum256 c (verifier_transcript c d pA ctxt))"
    "mk_CB k = HmacSHA256 c (confirm_key c (verifier_transcript c d pA ctxt)) pA"
proof -
  let ?t = "PointAdd c (the (SetBytes c pA)) (PointNegate c (the (ScalarMult c (pointM c) (scalarBytes (v_w0 d)))))"
  define z where "z = the (ScalarMult c ?t (scalarBytes (v_y d)))"
  define v where "v = the (ScalarMult c (v_l d) (scalarBytes (v_y d)))"
  have k: "deriveMatterKeys c ctxt [] [] pA (Verifier_Share c d) (PointBytes c z) (PointBytes c v)
      (scalarBytes (v_w0 d)) = Inr k"
    using assms by (auto simp: Verifier_ConfirmMatter_def z_def v_def Let_def split: option.splits)
  have t: "verifier_transcript c d pA ctxt
      = transcript c ctxt [] [] pA (Verifier_Share c d) (PointBytes c z) (PointBytes c v) (scalarBytes (v_w0 d))"
    by (simp add: verifier_transcript_def z_def v_def Let_def)
  show thesis by (rule that [OF t]) (simp_all only: t matter_keys [OF k])
qed

lemma transcript_inj:
  assumes "transcript c ctxt [] [] a b z v w = transcript c ctxt' [] [] a' b' z' v' w'"
    and "length ctxt < 2 ^ 64" "length a < 2 ^ 64" "length b < 2 ^ 64" "length z < 2 ^ 64" "length v < 2 ^ 64"
      "length w < 2 ^ 64" "length ctxt' < 2 ^ 64" "length a' < 2 ^ 64" "length b' < 2 ^ 64" "length z' < 2 ^ 64"
      "length v' < 2 ^ 64" "length w' < 2 ^ 64"
  shows "ctxt = ctxt' \<and> a = a' \<and> b = b' \<and> z = z' \<and> v = v' \<and> w = w'"
proof -
  note t = assms(1) [unfolded transcript_def]
  note t1 = tt_add_inj [OF assms(2,8) t]
  have t2: "tt_add a @ tt_add b @ tt_add z @ tt_add v @ tt_add w
      = tt_add a' @ tt_add b' @ tt_add z' @ tt_add v' @ tt_add w'"
    using t1 by simp
  note t3 = tt_add_inj [OF assms(3,9) t2]
  note t4 = tt_add_inj [OF assms(4,10) t3 [THEN conjunct2]]
  note t5 = tt_add_inj [OF assms(5,11) t4 [THEN conjunct2]]
  note t6 = tt_add_inj [OF assms(6,12) t5 [THEN conjunct2]]
  have "tt_add w @ [] = tt_add w' @ []" using t6 by simp
  from tt_add_inj [OF assms(7,13) this] t1 t3 t4 t5 t6 show ?thesis by simp
qed

lemma length_finish:
  assumes "suite_ok c" "Prover_Finish c p pB = Inr (z, v)"
  shows "length z < 2 ^ 64" "length v < 2 ^ 64"
proof -
  have "length (PointBytes c P) < 2 ^ 64" for P using suite_okD(6) [OF assms(1), of P] by simp
  with assms(2) show "length z < 2 ^ 64" "length v < 2 ^ 64"
    by (auto simp: Prover_Finish_def Let_def split: option.splits)
qed

lemma confirmation_binds:
  assumes ok: "suite_ok c"
    and p: "Prover_ConfirmMatter c p pB ctxt = Inr k" and d: "Verifier_ConfirmMatter c d pA ctxt' = Inr k'"
    and cb: "VerifyCB k (mk_CB k')"
    and len: "length ctxt < 2 ^ 64" "length ctxt' < 2 ^ 64" "length pA < 2 ^ 64" "length pB < 2 ^ 64"
  shows "(ctxt = ctxt' \<and> pA = Prover_Share c p \<and> pB = Verifier_Share c d
        \<and> p_w0 p mod p256_order = v_w0 d mod p256_order \<and> mk_Ke k = mk_Ke k')
    \<or> confirm_collision c (prover_transcript c p pB ctxt) (Prover_Share c p) (verifier_transcript c d pA ctxt') pA"
proof -
  obtain z v where pk: "prover_transcript c p pB ctxt
      = transcript c ctxt [] [] (Prover_Share c p) pB z v (scalarBytes (p_w0 p))"
    "mk_Ke k = drop 16 (Sum256 c (prover_transcript c p pB ctxt))"
    "mk_CB k = HmacSHA256 c (confirm_key c (prover_transcript c p pB ctxt)) (Prover_Share c p)"
    "Prover_Finish c p pB = Inr (z, v)"
    using prover_keys [OF p] .
  obtain z' v' where dk: "verifier_transcript c d pA ctxt'
      = transcript c ctxt' [] [] pA (Verifier_Share c d) (PointBytes c z') (PointBytes c v') (scalarBytes (v_w0 d))"
    "mk_Ke k' = drop 16 (Sum256 c (verifier_transcript c d pA ctxt'))"
    "mk_CB k' = HmacSHA256 c (confirm_key c (verifier_transcript c d pA ctxt')) pA"
    using verifier_keys [OF d] .
  have share: "length (PointBytes c P) < 2 ^ 64" for P using suite_okD(6) [OF ok, of P] by simp
  show ?thesis
  proof (cases "prover_transcript c p pB ctxt = verifier_transcript c d pA ctxt'")
    case True
    have shares: "length (Prover_Share c p) < 2 ^ 64" "length (Verifier_Share c d) < 2 ^ 64"
      unfolding Prover_Share_def Verifier_Share_def by (rule share)+
    have w: "length (scalarBytes n) < 2 ^ 64" for n by simp
    from transcript_inj [OF True [unfolded pk(1) dk(1)] len(1) shares(1) len(4) length_finish [OF ok pk(4)] w
        len(2,3) shares(2) share share w]
    have eq: "ctxt = ctxt'" "Prover_Share c p = pA" "pB = Verifier_Share c d"
      "scalarBytes (p_w0 p) = scalarBytes (v_w0 d)" by blast+
    have "mk_Ke k = mk_Ke k'" by (simp only: pk(2) dk(2) True)
    with eq(1-3) scalarBytes_inj [OF eq(4)] show ?thesis by blast
  next
    case False
    then show ?thesis
      using cb unfolding confirm_collision_def VerifyCB_def pk(3) dk(3) by blast
  qed
qed

text \<open>C28: A commissioner that accepts a device's confirmation has finished with that device: if the
  confirmation in a Pake2 message it accepts is one that a verifier made, then both computed it over the
  same parameter messages, the share each received is the one the other sent, the passcode secrets agree
  and the session keys they keep are the same; otherwise the two transcripts are a collision of the hash,
  the key derivation or the tag. The message may have come from anyone.\<close>

theorem pase_confirmation_binds:
  assumes "suite_ok c" "in_prover i = Some p" "HandlePake2 c raw i = Some (Inr m, i')"
    and "decodeFields [1, 2] raw = Some (Inr out)"
    and "Verifier_ConfirmMatter c d pA ctxt = Inr k'" "out 2 = mk_CB k'"
    and "length (in_context i) < 2 ^ 64" "length ctxt < 2 ^ 64" "length pA < 2 ^ 64" "length (out 1) < 2 ^ 64"
  shows "in_done i' \<and> (\<exists>k. in_keys i' = Some k \<and>
     (in_context i = ctxt \<and> pA = Prover_Share c p \<and> out 1 = Verifier_Share c d
        \<and> p_w0 p mod p256_order = v_w0 d mod p256_order \<and> mk_Ke k = mk_Ke k'
      \<or> confirm_collision c (prover_transcript c p (out 1) (in_context i)) (Prover_Share c p)
          (verifier_transcript c d pA ctxt) pA))"
proof -
  obtain k where k: "Prover_ConfirmMatter c p (out 1) (in_context i) = Inr k" "VerifyCB k (mk_CB k')"
    "in_keys i' = Some k" "in_done i'"
    using assms(2-4,6) by (auto simp: HandlePake2_def Let_def split: sum.splits if_splits)
  from confirmation_binds [OF assms(1) k(1) assms(5) k(2) assms(7-10)] k(3,4) show ?thesis by blast
qed

text \<open>A commissioner that has sent its share, and the device's answer.\<close>

definition example_commissioner :: "'p Prover \<Rightarrow> 'p Initiator" where
  "example_commissioner p = (NewInitiator 20202021 1)\<lparr>in_prover := Some p, in_context := [8, 9]\<rparr>"

theorem pase_confirmation_binds_witness:
  "\<exists>p d (k :: MatterKeys) i' (k' :: MatterKeys). HandlePake2 example_suite (enc (Cont Anonymous CStructure
        [Prim (Context 1) (PBytes (Verifier_Share example_suite d)), Prim (Context 2) (PBytes (mk_CB k'))]))
      (example_commissioner p)
      = Some (Inr (enc (Cont Anonymous CStructure [Prim (Context 1) (PBytes (mk_CA k))])), i')
    \<and> in_done i' \<and> in_keys i' = Some k \<and> mk_Ke k = mk_Ke k'"
proof -
  let ?c = example_suite
  obtain p where p: "NewProver ?c 3 4 5 = Inr p" by (simp add: NewProver_def example_suite_def)
  obtain l where l: "ComputeL ?c 4 = Inr l" by (simp add: ComputeL_def example_suite_def)
  obtain d where d: "NewVerifier ?c 3 l 6 = Inr d" by (simp add: NewVerifier_def example_suite_def)
  obtain k where k: "Prover_ConfirmMatter ?c p (Verifier_Share ?c d) [8, 9] = Inr k"
    "Verifier_ConfirmMatter ?c d (Prover_Share ?c p) [8, 9] = Inr k"
    using spake_agree [OF example_suite_ok p l d] by blast
  let ?raw = "enc (Cont Anonymous CStructure
        [Prim (Context 1) (PBytes (Verifier_Share ?c d)), Prim (Context 2) (PBytes (mk_CB k))])"
  have cb: "length (mk_CB k) < 2 ^ 64"
    using k(1) suite_okD(8) [OF example_suite_ok]
    by (auto simp: Prover_ConfirmMatter_def deriveMatterKeys_def Let_def split: sum.splits option.splits)
  have sh: "length (Prover_Share ?c p) < 2 ^ 64" "length (Verifier_Share ?c d) < 2 ^ 64"
    by (simp_all add: Prover_Share_def Verifier_Share_def example_suite_def)
  note dec = decodeFields_enc2 [OF sh(2) cb]
  obtain i' where run: "HandlePake2 ?c ?raw (example_commissioner p)
      = Some (Inr (enc (Cont Anonymous CStructure [Prim (Context 1) (PBytes (mk_CA k))])), i')" "in_keys i' = Some k"
    using k(1) by (simp add: HandlePake2_def dec example_commissioner_def Let_def VerifyCB_def encodePake_elem
        del: enc.simps)
  have "in_done i'"
    using pase_confirmation_binds [OF example_suite_ok _ run(1) dec k(2), of p] sh
    by (simp add: example_commissioner_def)
  then show ?thesis
    using run by blast
qed

end
