(* ===== verification/Adapter.thy ===== *)
theory Adapter
  imports Hub
begin

text \<open>
  What the protocol adapters share (\<^verbatim>\<open>internal/driver\<close>): the reading of a command's value, and
  the contract of \<^verbatim>\<open>Apply\<close>: a command for a device that the adapter does not own is an
  error and has no effect.
\<close>

section \<open>Values\<close>

text \<open>\<^verbatim>\<open>v, _ := cmd.Value.(int)\<close> and the same at other types: the zero value for another type.\<close>

definition value_int :: "Command \<Rightarrow> int" where
  "value_int c = (case cmd_Value c of VInt i \<Rightarrow> i | _ \<Rightarrow> 0)"

definition value_bool :: "Command \<Rightarrow> bool" where
  "value_bool c = (case cmd_Value c of VBool b \<Rightarrow> b | _ \<Rightarrow> False)"

definition value_huesat :: "Command \<Rightarrow> u64 \<times> u64" where
  "value_huesat c = (case cmd_Value c of VHueSat h s \<Rightarrow> (h, s) | _ \<Rightarrow> (0, 0))"

lemma value_of_constructors [simp]:
  "value_bool (SetOn i b) = b" "value_int (SetPosition i v) = v" "value_int (SetLevel i v) = v"
  "value_int (SetColorTemp i v) = v" "value_int (SetDirection i v) = v" "value_huesat (SetColor i h s) = (h, s)"
  by (simp_all add: value_bool_def value_int_def value_huesat_def SetOn_def SetPosition_def SetLevel_def
      SetColorTemp_def SetDirection_def SetColor_def)

definition state_event :: "string \<Rightarrow> State \<Rightarrow> Event" where
  "state_event i s = \<lparr>ev_DeviceID = i, ev_Kind = EventStateChanged, ev_State = s, ev_Press = ''''\<rparr>"

section \<open>The contract of an adapter\<close>

locale adapter =
  fixes apply_op :: "'s \<Rightarrow> Command \<Rightarrow> 'e option \<times> 's"
    and owns :: "'s \<Rightarrow> string \<Rightarrow> bool"
  assumes owns_kept: "owns (snd (apply_op s c)) = owns s"
    and not_owned: "\<not> owns s (cmd_DeviceID c) \<Longrightarrow> fst (apply_op s c) \<noteq> None \<and> snd (apply_op s c) = s"
begin

definition apply_all :: "'s \<Rightarrow> Command list \<Rightarrow> 's" where
  "apply_all s cs = foldl (\<lambda>s c. snd (apply_op s c)) s cs"

lemma apply_all_simps [simp]:
  "apply_all s [] = s" "apply_all s (c # cs) = apply_all (snd (apply_op s c)) cs"
  by (simp_all add: apply_all_def)

text \<open>In a sequence of commands only those for the adapter's own devices matter.\<close>

lemma apply_all_owned: "apply_all s cs = apply_all s (filter (\<lambda>c. owns s (cmd_DeviceID c)) cs)"
proof (induction cs arbitrary: s)
  case (Cons c cs)
  show ?case
  proof (cases "owns s (cmd_DeviceID c)")
    case True
    with Cons [of "snd (apply_op s c)"] show ?thesis by (simp add: owns_kept)
  next
    case False
    with not_owned have "snd (apply_op s c) = s" by blast
    with Cons [of s] False show ?thesis by simp
  qed
qed simp

lemma owns_all: "owns (apply_all s cs) = owns s"
  by (induction cs arbitrary: s) (simp_all add: owns_kept)

end

end
