(* ===== verification/Zigbee_Driver.thy ===== *)
theory Zigbee_Driver
  imports Adapter Config Go_Strings
begin

text \<open>
  The Zigbee adapter of the \<^verbatim>\<open>zstack\<close> backend (\<^verbatim>\<open>internal/zigbee/driver.go\<close>,
  \<^verbatim>\<open>quirks.go\<close>): commands to ZCL frames, reports to bus events, the provisioning of Aqara
  switches. The coordinator library is outside: a message is what is given to it, and whether it accepts
  the message is a parameter. Where the code walks the registry, the devices are a list in the order in
  which Go visits them.
\<close>

section \<open>Addresses and messages\<close>

abbreviation adapterEndpt :: u8 where "adapterEndpt \<equiv> 1"
abbreviation onOffCluster :: u16 where "onOffCluster \<equiv> 0x0006"
abbreviation covCluster :: u16 where "covCluster \<equiv> 0x0102"
abbreviation multistateCluster :: u16 where "multistateCluster \<equiv> 0x0012"
abbreviation lumiCluster :: u16 where "lumiCluster \<equiv> 0xFCC0"
abbreviation lumiMfgCode :: u16 where "lumiMfgCode \<equiv> 0x115F"
abbreviation lumiAttrOpMode :: u16 where "lumiAttrOpMode \<equiv> 0x0200"
abbreviation covCmdUpOpen :: u8 where "covCmdUpOpen \<equiv> 0x00"
abbreviation covCmdDownClose :: u8 where "covCmdDownClose \<equiv> 0x01"
abbreviation covCmdGoToLift :: u8 where "covCmdGoToLift \<equiv> 0x05"
abbreviation covAttrLiftPercentage :: u16 where "covAttrLiftPercentage \<equiv> 0x0008"
abbreviation lumiDecoupledMode :: u8 where "lumiDecoupledMode \<equiv> 0x00"

text \<open>\<^verbatim>\<open>strings.ToLower\<close> on ASCII letters: no other character becomes a hexadecimal digit or an x.\<close>

definition lower :: "byte \<Rightarrow> byte" where
  "lower b = (if 0x41 \<le> b \<and> b \<le> 0x5A then b + 0x20 else b)"

definition hex_digit :: "byte \<Rightarrow> nat option" where
  "hex_digit b =
     (if 0x30 \<le> b \<and> b \<le> 0x39 then Some (unat (b - 0x30))
      else if 0x61 \<le> b \<and> b \<le> 0x66 then Some (unat (b - 0x61) + 10)
      else None)"

fun hex_value :: "nat \<Rightarrow> bytes \<Rightarrow> nat option" where
  "hex_value acc [] = Some acc"
| "hex_value acc (b # bs) =
     (case hex_digit b of None \<Rightarrow> None | Some d \<Rightarrow> hex_value (16 * acc + d) bs)"

text \<open>\<^verbatim>\<open>strconv.ParseUint(s, 16, 64)\<close> after the prefix is cut off; None for an error.\<close>

definition parseIEEE :: "string \<Rightarrow> u64 option" where
  "parseIEEE s =
     (let l = List.map lower (ascii s);
          l = (case CutPrefix l (ascii ''0x'') of Some r \<Rightarrow> r | None \<Rightarrow> l) in
      if l = [] then None
      else case hex_value 0 l of
        None \<Rightarrow> None
      | Some n \<Rightarrow> if n < 2 ^ 64 then Some (of_nat n) else None)"

record AppMessage =
  am_Cluster :: u16
  am_Source :: u8
  am_Destination :: u8
  am_Data :: bytes

definition deviceEndpoint :: "Device \<Rightarrow> u8" where
  "deviceEndpoint dev = (if dev_Endpoint dev = 0 then 1 else dev_Endpoint dev)"

definition lumiOUIPrefix :: u64 where
  "lumiOUIPrefix = 0x00158D0000000000"

definition isLumi :: "u64 \<Rightarrow> bool" where
  "isLumi addr = (and addr 0xFFFFFF0000000000 = lumiOUIPrefix)"

definition lumiOpModeFrame :: "u8 \<Rightarrow> u8 \<Rightarrow> bytes" where
  "lumiOpModeFrame sq v =
     0x04 # le_bytes 2 lumiMfgCode @ sq # 0x02 # le_bytes 2 lumiAttrOpMode @ [0x20, v]"

section \<open>Commands\<close>

text \<open>\<open>zd_ready\<close> is \<^verbatim>\<open>d.z != nil\<close>; \<open>zd_sent\<close> is what the coordinator was asked to send.\<close>

record ZDriver =
  zd_ready :: bool
  zd_reg :: Registry
  zd_seq :: u8
  zd_sent :: "(u64 \<times> AppMessage) list"

definition zclCommand :: "u8 \<Rightarrow> bytes \<Rightarrow> ZDriver \<Rightarrow> bytes \<times> ZDriver" where
  "zclCommand commandID payload d =
     (let sq = zd_seq d + 1 in (0x01 # sq # commandID # payload, d\<lparr>zd_seq := sq\<rparr>))"

datatype zigbee_error = NotReady | ZUnknownDevice string | BadIEEE string | SendFailed

definition clamp_percent :: "int \<Rightarrow> int" where
  "clamp_percent p = (let p = (if p < 0 then 0 else p) in if p > 100 then 100 else p)"

text \<open>The \<^verbatim>\<open>switch\<close> of \<^verbatim>\<open>Apply\<close>: cluster and frame, None where it returns without sending.\<close>

definition zcl_of_command :: "Device \<Rightarrow> Command \<Rightarrow> ZDriver \<Rightarrow> (u16 \<times> bytes) option \<times> ZDriver" where
  "zcl_of_command dev cmd d =
     (case cmd_Action cmd of
        ActionSetOn \<Rightarrow>
          (let on = value_bool cmd in
           if dev_Type dev = TypeCover then
             (let (frame, d) = zclCommand covCmdDownClose [] d in
              if on then (let (frame, d) = zclCommand covCmdUpOpen [] d in (Some (covCluster, frame), d))
              else (Some (covCluster, frame), d))
           else
             (let (frame, d) = zclCommand 0x00 [] d in
              if on then (let (frame, d) = zclCommand 0x01 [] d in (Some (onOffCluster, frame), d))
              else (Some (onOffCluster, frame), d)))
      | ActionSetPosition \<Rightarrow>
          (let p = clamp_percent (value_int cmd);
               (frame, d) = zclCommand covCmdGoToLift [word_of_int (100 - p)] d in
           (Some (covCluster, frame), d))
      | _ \<Rightarrow> (None, d))"

definition Zigbee_Apply :: "bool \<Rightarrow> ZDriver \<Rightarrow> Command \<Rightarrow> zigbee_error option \<times> ZDriver" where
  "Zigbee_Apply ok d cmd =
     (if \<not> zd_ready d then (Some NotReady, d)
      else case Registry_Get (zd_reg d) (cmd_DeviceID cmd) of
        None \<Rightarrow> (Some (ZUnknownDevice (cmd_DeviceID cmd)), d)
      | Some dev \<Rightarrow>
          (case parseIEEE (dev_Addr dev) of
             None \<Rightarrow> (Some (BadIEEE (dev_Addr dev)), d)
           | Some addr \<Rightarrow>
               (case zcl_of_command dev cmd d of
                  (None, d) \<Rightarrow> (None, d)
                | (Some (cluster, frame), d) \<Rightarrow>
                    (let msg = \<lparr>am_Cluster = cluster, am_Source = adapterEndpt,
                                am_Destination = deviceEndpoint dev, am_Data = frame\<rparr> in
                     (if ok then None else Some SendFailed, d\<lparr>zd_sent := zd_sent d @ [(addr, msg)]\<rparr>)))))"

section \<open>Reports\<close>

definition zclReportRecord :: "bytes \<Rightarrow> bytes option" where
  "zclReportRecord data =
     (if length data < 3 \<or> data ! 2 \<noteq> 0x0A then None
      else let rec = drop 3 data in if length rec < 4 then None else Some rec)"

definition parseAttrBool :: "bytes \<Rightarrow> u16 \<Rightarrow> bool option" where
  "parseAttrBool data attrID =
     (case zclReportRecord data of
        None \<Rightarrow> None
      | Some rec \<Rightarrow>
          if le_word (take 2 rec) \<noteq> attrID \<or> rec ! 2 \<noteq> 0x10 then None else Some (rec ! 3 \<noteq> 0x00))"

definition parseAttrUint8 :: "bytes \<Rightarrow> u16 \<Rightarrow> u8 option" where
  "parseAttrUint8 data attrID =
     (case zclReportRecord data of
        None \<Rightarrow> None
      | Some rec \<Rightarrow>
          if le_word (take 2 rec) \<noteq> attrID \<or> rec ! 2 \<noteq> 0x20 then None else Some (rec ! 3))"

definition parseMultistatePress :: "bytes \<Rightarrow> string option" where
  "parseMultistatePress data =
     (case zclReportRecord data of
        None \<Rightarrow> None
      | Some rec \<Rightarrow>
          if le_word (take 2 rec) \<noteq> (0x0055 :: u16) \<or> rec ! 2 \<noteq> 0x21 then None
          else if length rec < 5 then None
          else let v = le_word (take 2 (drop 3 rec)) :: u16 in
            if v = 0 then Some ''hold''
            else if v = 1 then Some ''single''
            else if v = 2 then Some ''double''
            else None)"

text \<open>The walk over the tagged values of an Aqara report.\<close>

fun aqara_walk :: "bytes \<Rightarrow> bool option" where
  "aqara_walk (a # b # c # p) = (if a = 0x64 \<and> b = 0x10 then Some (c \<noteq> 0x00) else aqara_walk p)"
| "aqara_walk p = None"

definition aqaraOnOff :: "bytes \<Rightarrow> bool option" where
  "aqaraOnOff data =
     (if length data < 3 \<or> data ! 2 \<noteq> 0x0A then None
      else let rec = drop 3 data in
        if length rec < 3 then None
        else if le_word (take 2 rec) \<noteq> (0xFF01 :: u16) then None
        else aqara_walk (drop 3 rec))"

text \<open>The loop of \<^verbatim>\<open>deviceIDByAddr\<close>, with the fallback.\<close>

fun by_addr_loop :: "u64 \<Rightarrow> u8 \<Rightarrow> Device list \<Rightarrow> string \<Rightarrow> string" where
  "by_addr_loop addr ep [] fallback = fallback"
| "by_addr_loop addr ep (dev # devs) fallback =
     (if dev_Integration dev \<noteq> Zigbee then by_addr_loop addr ep devs fallback
      else if parseIEEE (dev_Addr dev) \<noteq> Some addr then by_addr_loop addr ep devs fallback
      else if deviceEndpoint dev = ep then dev_ID dev
      else by_addr_loop addr ep devs (if dev_Endpoint dev = 0 then dev_ID dev else fallback))"

definition deviceIDByAddr :: "Device list \<Rightarrow> u64 \<Rightarrow> u8 \<Rightarrow> string" where
  "deviceIDByAddr devs addr ep = by_addr_loop addr ep devs ''''"

definition button_event :: "string \<Rightarrow> string \<Rightarrow> Event" where
  "button_event i press = \<lparr>ev_DeviceID = i, ev_Kind = EventButton, ev_State = zeroState, ev_Press = press\<rparr>"

text \<open>What \<^verbatim>\<open>handleIncoming\<close> publishes for a message of a node, if anything.\<close>

definition handleIncoming :: "Device list \<Rightarrow> u64 \<Rightarrow> AppMessage \<Rightarrow> Event option" where
  "handleIncoming devs ieee msg =
     (let i = deviceIDByAddr devs ieee (am_Source msg) in
      if i = '''' then None
      else if am_Cluster msg = onOffCluster then
        (let on = parseAttrBool (am_Data msg) 0x0000;
             on = (if on = None \<and> isLumi ieee then aqaraOnOff (am_Data msg) else on) in
         case on of
           None \<Rightarrow> None
         | Some v \<Rightarrow> Some (state_event i (zeroState\<lparr>On := Some v\<rparr>)))
      else if am_Cluster msg = covCluster then
        (case parseAttrUint8 (am_Data msg) covAttrLiftPercentage of
           None \<Rightarrow> None
         | Some zclPct \<Rightarrow> Some (state_event i (zeroState\<lparr>Position := Some (100 - uint zclPct)\<rparr>)))
      else if am_Cluster msg = multistateCluster then
        (case parseMultistatePress (am_Data msg) of
           None \<Rightarrow> None
         | Some press \<Rightarrow> Some (button_event i press))
      else None)"

section \<open>Nodes that join\<close>

text \<open>The provisioning of a joined node, one message for every decoupled gang that is configured; a
  failed send is only logged.\<close>

fun configure_loop :: "u64 \<Rightarrow> Device list \<Rightarrow> ZDriver \<Rightarrow> ZDriver" where
  "configure_loop addr [] d = d"
| "configure_loop addr (dev # devs) d =
     (if dev_Integration dev \<noteq> Zigbee \<or> \<not> dev_Decoupled dev then configure_loop addr devs d
      else if parseIEEE (dev_Addr dev) \<noteq> Some addr then configure_loop addr devs d
      else
        let sq = zd_seq d + 1;
            msg = \<lparr>am_Cluster = lumiCluster, am_Source = adapterEndpt, am_Destination = deviceEndpoint dev,
                   am_Data = lumiOpModeFrame sq lumiDecoupledMode\<rparr> in
        configure_loop addr devs (d\<lparr>zd_seq := sq, zd_sent := zd_sent d @ [(addr, msg)]\<rparr>))"

definition configureJoined :: "u64 \<Rightarrow> Device list \<Rightarrow> ZDriver \<Rightarrow> ZDriver" where
  "configureJoined addr devs d = (if \<not> isLumi addr then d else configure_loop addr devs d)"

datatype zigbee_event = NodeJoin u64 | NodeIncoming u64 AppMessage | OtherEvent

text \<open>One event of \<^verbatim>\<open>readEvents\<close>.\<close>

definition zigbee_event_step :: "Device list \<Rightarrow> zigbee_event \<Rightarrow> ZDriver \<times> Bus \<Rightarrow> ZDriver \<times> Bus" where
  "zigbee_event_step devs e s =
     (let (d, b) = s in
      case e of
        NodeJoin ieee \<Rightarrow> (configureJoined ieee devs d, b)
      | NodeIncoming ieee msg \<Rightarrow>
          (case handleIncoming devs ieee msg of None \<Rightarrow> (d, b) | Some ev \<Rightarrow> (d, PublishEvent b ev))
      | OtherEvent \<Rightarrow> (d, b))"

end
