(* ===== verification/Rf.thy ===== *)
theory Rf
  imports Adapter Config Go_Strings "HOL-Library.AList"
begin

text \<open>
  The adapter for remote-controlled devices (\<^verbatim>\<open>internal/rf/driver.go\<close>): the translation of commands
  into transmissions of the bridge, the queue that keeps the latest transmission of every device, and
  the loop of \<^verbatim>\<open>Start\<close> with the channel that wakes it. Topics and payloads are bytes, a cooldown is
  in milliseconds, the entries of the map of speeds are in the order in which a \<^verbatim>\<open>range\<close> visits them.
\<close>

section \<open>Devices\<close>

record FanButtons =
  fb_Off :: int
  fb_Speeds :: "(int \<times> int) list"

record RfDevice =
  rfd_ID :: string
  rfd_Type :: string
  rfd_Base :: string
  rfd_Channel :: int
  rfd_Buttons :: FanButtons

abbreviation coolFan :: nat where "coolFan \<equiv> 1000"
abbreviation coolBlindStop :: nat where "coolBlindStop \<equiv> 1500"
abbreviation coolBlindHold :: nat where "coolBlindHold \<equiv> 4000"

record tx =
  tx_topic :: bytes
  tx_payload :: bytes
  tx_event :: Event
  tx_cooldown :: nat

section \<open>From a command to a transmission\<close>

text \<open>The two loops over the map of speeds; \<open>best\<close> is None for -1.\<close>

fun lowest_loop :: "(int \<times> int) list \<Rightarrow> int \<times> int \<Rightarrow> int \<times> int" where
  "lowest_loop [] acc = acc"
| "lowest_loop ((l, b) # ss) (level, btn) =
     lowest_loop ss (if level = 0 \<or> l < level then (l, b) else (level, btn))"

definition lowestSpeed :: "(int \<times> int) list \<Rightarrow> int \<times> int" where
  "lowestSpeed speeds = lowest_loop speeds (0, 0)"

fun nearest_loop :: "int \<Rightarrow> (int \<times> int) list \<Rightarrow> int option \<Rightarrow> int \<times> int \<Rightarrow> int \<times> int" where
  "nearest_loop want [] best acc = acc"
| "nearest_loop want ((l, b) # ss) best (level, btn) =
     (let d = l - want; d = (if d < 0 then - d else d) in
      if best = None \<or> d < the best \<or> d = the best \<and> l > level
      then nearest_loop want ss (Some d) (l, b)
      else nearest_loop want ss best (level, btn))"

definition nearestSpeed :: "(int \<times> int) list \<Rightarrow> int \<Rightarrow> int \<times> int" where
  "nearestSpeed speeds want = nearest_loop want speeds None (0, 0)"

text \<open>None is the empty transmission \<^verbatim>\<open>tx{}\<close>, which \<^verbatim>\<open>Apply\<close> recognizes by its topic.\<close>

definition coverTx :: "RfDevice \<Rightarrow> Command \<Rightarrow> tx option" where
  "coverTx dev cmd =
     (let topic = ascii (rfd_Base dev) @ ascii ''/blind/'' @ Itoa (rfd_Channel dev) @ ascii ''/set'';
          at = (\<lambda>p. state_event (rfd_ID dev) (zeroState\<lparr>Position := Some p\<rparr>));
          open_tx = \<lparr>tx_topic = topic, tx_payload = ascii ''OPEN'', tx_event = at 100, tx_cooldown = coolBlindHold\<rparr>;
          close_tx = \<lparr>tx_topic = topic, tx_payload = ascii ''CLOSE'', tx_event = at 0, tx_cooldown = coolBlindHold\<rparr> in
      case cmd_Action cmd of
        ActionSetPosition \<Rightarrow>
          (let p = value_int cmd in
           if p \<ge> 100 then Some open_tx
           else if p \<le> 0 then Some close_tx
           else Some \<lparr>tx_topic = topic, tx_payload = ascii ''STOP'', tx_event = at p, tx_cooldown = coolBlindStop\<rparr>)
      | ActionSetOn \<Rightarrow> if value_bool cmd then Some open_tx else Some close_tx
      | _ \<Rightarrow> None)"

definition fanTx :: "RfDevice \<Rightarrow> Command \<Rightarrow> tx option" where
  "fanTx dev cmd =
     (let press = (\<lambda>btn. ascii (rfd_Base dev) @ ascii ''/fan/'' @ Itoa btn @ ascii ''/press'');
          off = \<lparr>tx_topic = press (fb_Off (rfd_Buttons dev)), tx_payload = ascii ''PRESS'',
                 tx_event = state_event (rfd_ID dev) (zeroState\<lparr>On := Some False, Level := Some 0\<rparr>),
                 tx_cooldown = coolFan\<rparr>;
          at = (\<lambda>(level, btn). \<lparr>tx_topic = press btn, tx_payload = ascii ''PRESS'',
                 tx_event = state_event (rfd_ID dev) (zeroState\<lparr>On := Some True, Level := Some level\<rparr>),
                 tx_cooldown = coolFan\<rparr>) in
      case cmd_Action cmd of
        ActionSetOn \<Rightarrow>
          if \<not> value_bool cmd then Some off else Some (at (lowestSpeed (fb_Speeds (rfd_Buttons dev))))
      | ActionSetLevel \<Rightarrow>
          (let v = value_int cmd in
           if v \<le> 0 then Some off else Some (at (nearestSpeed (fb_Speeds (rfd_Buttons dev)) v)))
      | _ \<Rightarrow> None)"

section \<open>The queue\<close>

record RfQueue =
  rq_devices :: "string \<rightharpoonup> RfDevice"
  rq_pending :: "string \<rightharpoonup> tx"
  rq_order :: "string list"
  rq_wake :: bool

definition NewRf :: "RfDevice list \<Rightarrow> RfQueue" where
  "NewRf devices = \<lparr>rq_devices = foldl (\<lambda>m d. m(rfd_ID d \<mapsto> d)) (\<lambda>_. None) devices,
     rq_pending = (\<lambda>_. None), rq_order = [], rq_wake = False\<rparr>"

text \<open>\<^verbatim>\<open>enqueue\<close>: the part under the lock, and the non-blocking send on \<^verbatim>\<open>wake\<close> after it.\<close>

definition rf_put :: "RfQueue \<Rightarrow> string \<Rightarrow> tx \<Rightarrow> RfQueue" where
  "rf_put q i t =
     (let q = (if rq_pending q i = None then q\<lparr>rq_order := rq_order q @ [i]\<rparr> else q) in
      q\<lparr>rq_pending := (rq_pending q)(i \<mapsto> t)\<rparr>)"

definition rf_signal :: "RfQueue \<Rightarrow> RfQueue" where
  "rf_signal q = q\<lparr>rq_wake := True\<rparr>"

definition rf_enqueue :: "RfQueue \<Rightarrow> string \<Rightarrow> tx \<Rightarrow> RfQueue" where
  "rf_enqueue q i t = rf_signal (rf_put q i t)"

text \<open>The transmission is None where the code would return the zero value.\<close>

definition rf_pop :: "RfQueue \<Rightarrow> (string \<times> tx option) option \<times> RfQueue" where
  "rf_pop q =
     (case rq_order q of
        [] \<Rightarrow> (None, q)
      | i # order \<Rightarrow>
          (Some (i, rq_pending q i), q\<lparr>rq_order := order, rq_pending := (rq_pending q)(i := None)\<rparr>))"

datatype rf_error = RfUnknownDevice string | RfUnsupportedType string string

text \<open>What \<^verbatim>\<open>Apply\<close> queues, None for a command that the device cannot express.\<close>

definition rf_translate :: "RfQueue \<Rightarrow> Command \<Rightarrow> rf_error + tx option" where
  "rf_translate q cmd =
     (case rq_devices q (cmd_DeviceID cmd) of
        None \<Rightarrow> Inl (RfUnknownDevice (cmd_DeviceID cmd))
      | Some dev \<Rightarrow>
          if rfd_Type dev = TypeCover then Inr (coverTx dev cmd)
          else if rfd_Type dev = TypeFan then Inr (fanTx dev cmd)
          else Inl (RfUnsupportedType (rfd_ID dev) (rfd_Type dev)))"

definition Rf_Apply :: "RfQueue \<Rightarrow> Command \<Rightarrow> rf_error option \<times> RfQueue" where
  "Rf_Apply q cmd =
     (case rf_translate q cmd of
        Inl e \<Rightarrow> (Some e, q)
      | Inr None \<Rightarrow> (None, q)
      | Inr (Some t) \<Rightarrow> (None, rf_enqueue q (cmd_DeviceID cmd) t))"

interpretation rf: adapter Rf_Apply "\<lambda>q i. rq_devices q i \<noteq> None"
proof (unfold_locales, goal_cases)
  case (1 q c)
  have "rq_devices (snd (Rf_Apply q c)) = rq_devices q"
    by (auto simp: Rf_Apply_def rf_enqueue_def rf_put_def rf_signal_def Let_def split: sum.splits option.splits)
  then show ?case by simp
next
  case (2 q c)
  then show ?case by (simp add: Rf_Apply_def rf_translate_def)
qed

text \<open>The devices that \<^verbatim>\<open>main\<close> gives the adapter.\<close>

definition rf_device_of :: "DeviceConfig \<Rightarrow> RfDevice" where
  "rf_device_of dc =
     \<lparr>rfd_ID = dev_ID (dc_Device dc), rfd_Type = dev_Type (dc_Device dc), rfd_Base = dev_Addr (dc_Device dc),
      rfd_Channel = (case dc_RF dc of None \<Rightarrow> 0 | Some rf \<Rightarrow> (case rf_Channel rf of None \<Rightarrow> 0 | Some ch \<Rightarrow> ch)),
      rfd_Buttons = (case dc_RF dc of None \<Rightarrow> \<lparr>fb_Off = 0, fb_Speeds = []\<rparr>
        | Some rf \<Rightarrow> (case rf_Buttons rf of None \<Rightarrow> \<lparr>fb_Off = 0, fb_Speeds = []\<rparr>
            | Some b \<Rightarrow> \<lparr>fb_Off = btn_Off b, fb_Speeds = btn_Speeds b\<rparr>))\<rparr>"

definition rf_devices :: "DeviceConfig list \<Rightarrow> RfDevice list" where
  "rf_devices ds = List.map rf_device_of (filter (\<lambda>dc. dev_Integration (dc_Device dc) = RF) ds)"

section \<open>The transmit loop\<close>

text \<open>
  Where \<^verbatim>\<open>Start\<close> is: about to call \<^verbatim>\<open>pop\<close>, waiting in the \<^verbatim>\<open>select\<close>, about to publish what it
  popped, pausing, or returned. \<open>sys_unsignalled\<close> counts the callers of \<^verbatim>\<open>enqueue\<close> that have left
  the lock and not yet sent on \<^verbatim>\<open>wake\<close>; \<open>sys_air\<close> is what the publisher has taken.
\<close>

datatype phase = Popping | Waiting | Publishing "tx option" | Pausing nat | Stopped

record RfSys =
  sys_queue :: RfQueue
  sys_phase :: phase
  sys_unsignalled :: nat
  sys_bus :: Bus
  sys_air :: "(bytes \<times> bytes) list"

text \<open>A step of the loop; the flag says whether the publisher takes the message.\<close>

definition loop_step :: "bool \<Rightarrow> RfSys \<Rightarrow> RfSys option" where
  "loop_step ok s =
     (case sys_phase s of
        Popping \<Rightarrow>
          (case rf_pop (sys_queue s) of
             (None, q) \<Rightarrow> Some (s\<lparr>sys_queue := q, sys_phase := Waiting\<rparr>)
           | (Some (i, t), q) \<Rightarrow> Some (s\<lparr>sys_queue := q, sys_phase := Publishing t\<rparr>))
      | Waiting \<Rightarrow>
          if rq_wake (sys_queue s)
          then Some (s\<lparr>sys_queue := (sys_queue s)\<lparr>rq_wake := False\<rparr>, sys_phase := Popping\<rparr>)
          else None
      | Publishing (Some t) \<Rightarrow>
          if ok then Some (s\<lparr>sys_air := sys_air s @ [(tx_topic t, tx_payload t)],
                             sys_bus := PublishEvent (sys_bus s) (tx_event t),
                             sys_phase := Pausing (tx_cooldown t)\<rparr>)
          else Some (s\<lparr>sys_phase := Popping\<rparr>)
      | Publishing None \<Rightarrow> None
      | Pausing d \<Rightarrow> Some (s\<lparr>sys_phase := Popping\<rparr>)
      | Stopped \<Rightarrow> None)"

text \<open>The steps of the adapter: a command is queued, its sender signals, the loop goes on, the context
  is cancelled while the loop waits or pauses.\<close>

inductive rf_step :: "RfSys \<Rightarrow> RfSys \<Rightarrow> bool" where
  put: "rf_translate (sys_queue s) c = Inr (Some t) \<Longrightarrow>
    rf_step s (s\<lparr>sys_queue := rf_put (sys_queue s) (cmd_DeviceID c) t, sys_unsignalled := sys_unsignalled s + 1\<rparr>)"
| signal: "sys_unsignalled s = Suc n \<Longrightarrow>
    rf_step s (s\<lparr>sys_queue := rf_signal (sys_queue s), sys_unsignalled := n\<rparr>)"
| loop: "loop_step ok s = Some s' \<Longrightarrow> rf_step s s'"
| cancel: "sys_phase s = Waiting \<or> (\<exists>d. sys_phase s = Pausing d) \<Longrightarrow> rf_step s (s\<lparr>sys_phase := Stopped\<rparr>)"

definition rf_start :: "RfDevice list \<Rightarrow> Bus \<Rightarrow> RfSys" where
  "rf_start devices b =
     \<lparr>sys_queue = NewRf devices, sys_phase = Popping, sys_unsignalled = 0, sys_bus = b, sys_air = []\<rparr>"

end
