(* ===== verification/Rf_Properties.thy ===== *)
theory Rf_Properties
  imports Rf Hub_System
begin

text \<open>
  The adapter for remote-controlled devices: the queue as a list of the latest transmissions, the
  transmit loop that no wake-up is lost for, and the choice of a fan speed, which does not depend on the
  order in which Go walks a map.
\<close>

section \<open>A queue of latest values\<close>

locale latest_queue =
  fixes content :: "'q \<Rightarrow> ('k \<times> 'v) list"
    and put_op :: "'q \<Rightarrow> 'k \<Rightarrow> 'v \<Rightarrow> 'q"
    and pop_op :: "'q \<Rightarrow> ('k \<times> 'v option) option \<times> 'q"
    and invar :: "'q \<Rightarrow> bool"
  assumes put_content: "invar q \<Longrightarrow> content (put_op q k v) = AList.update k v (content q)"
    and put_invar: "invar q \<Longrightarrow> invar (put_op q k v)"
    and pop_nil: "invar q \<Longrightarrow> content q = [] \<Longrightarrow> pop_op q = (None, q)"
    and pop_cons: "invar q \<Longrightarrow> content q = (k, v) # xs \<Longrightarrow>
      \<exists>q'. pop_op q = (Some (k, Some v), q') \<and> invar q' \<and> content q' = xs"
begin

definition put_all :: "'q \<Rightarrow> ('k \<times> 'v) list \<Rightarrow> 'q" where
  "put_all q ps = foldl (\<lambda>q (k, v). put_op q k v) q ps"

fun drain :: "nat \<Rightarrow> 'q \<Rightarrow> ('k \<times> 'v option) list \<times> 'q" where
  "drain 0 q = ([], q)"
| "drain (Suc n) q =
     (case pop_op q of
        (None, q) \<Rightarrow> ([], q)
      | (Some m, q) \<Rightarrow> (let (ms, q) = drain n q in (m # ms, q)))"

lemma put_all_content:
  "invar q \<Longrightarrow> invar (put_all q ps) \<and> content (put_all q ps) = foldl (\<lambda>al (k, v). AList.update k v al) (content q) ps"
proof (induction ps arbitrary: q)
  case (Cons p ps)
  from Cons.IH [OF put_invar [OF Cons.prems], of "fst p" "snd p"] Cons.prems
  show ?case by (cases p) (simp add: put_all_def put_content)
qed (simp add: put_all_def)

lemma drain_content:
  "invar q \<Longrightarrow> length (content q) \<le> n \<Longrightarrow>
    fst (drain n q) = List.map (\<lambda>(k, v). (k, Some v)) (content q) \<and> content (snd (drain n q)) = []"
proof (induction n arbitrary: q)
  case (Suc n)
  show ?case
  proof (cases "content q")
    case Nil
    with pop_nil [OF Suc.prems(1)] show ?thesis by simp
  next
    case (Cons p xs)
    obtain k v where p: "p = (k, v)" by force
    from pop_cons [OF Suc.prems(1) Cons [unfolded p]]
    obtain q' where q': "pop_op q = (Some (k, Some v), q')" "invar q'" "content q' = xs" by blast
    with Suc.IH [OF q'(2)] Suc.prems(2) Cons p show ?thesis by (auto split: prod.splits)
  qed
qed simp

end

text \<open>The keys of an association list that was updated in sequence: in the order of their first
  update, each with the value of the last.\<close>

definition first_keys :: "('k \<times> 'v) list \<Rightarrow> 'k list" where
  "first_keys ps = rev (remdups (rev (List.map fst ps)))"

lemma update_keys_append:
  "List.map fst (AList.update k v al) = (if k \<in> set (List.map fst al) then List.map fst al else List.map fst al @ [k])"
  by (simp add: AList.update_keys)

lemma updates_first_last:
  "foldl (\<lambda>al (k, v). AList.update k v al) [] ps
    = List.map (\<lambda>k. (k, the (map_of (rev ps) k))) (first_keys ps)"
proof -
  let ?al = "\<lambda>ps. foldl (\<lambda>al (k, v). AList.update k v al) [] ps"
  have keys: "List.map fst (?al ps) = first_keys ps" for ps
  proof (induction ps rule: rev_induct)
    case (snoc p ps)
    have "set (first_keys ps) = fst ` set ps" by (simp add: first_keys_def)
    moreover have "first_keys (ps @ [p]) = (if fst p \<in> fst ` set ps then first_keys ps else first_keys ps @ [fst p])"
      by (simp add: first_keys_def)
    ultimately show ?case
      using snoc by (cases p) (simp add: update_keys_append del: set_map add: set_map [symmetric])
  qed (simp add: first_keys_def)
  have vals: "map_of (?al ps) = map_of (rev ps)" for ps
    by (induction ps rule: rev_induct) (auto simp: AList.update_conv')
  have d: "distinct (List.map fst (?al ps))" unfolding keys by (simp add: first_keys_def)
  have "?al ps = List.map (\<lambda>k. (k, the (map_of (?al ps) k))) (List.map fst (?al ps))"
    using d by (auto simp: map_idI comp_def intro!: map_idI [symmetric])
  then show ?thesis unfolding keys vals .
qed

section \<open>The queue of the adapter\<close>

definition rf_ok :: "RfQueue \<Rightarrow> bool" where
  "rf_ok q \<longleftrightarrow> distinct (rq_order q) \<and> dom (rq_pending q) = set (rq_order q)"

definition rf_content :: "RfQueue \<Rightarrow> (string \<times> tx) list" where
  "rf_content q = List.map (\<lambda>i. (i, the (rq_pending q i))) (rq_order q)"

lemma update_map_pairs:
  assumes "distinct xs"
  shows "AList.update k v (List.map (\<lambda>i. (i, f i)) xs)
    = List.map (\<lambda>i. (i, (f(k := v)) i)) (if k \<in> set xs then xs else xs @ [k])"
  using assms by (induction xs) auto

lemma rf_put_content:
  assumes "rf_ok q"
  shows "rf_ok (rf_put q i t)" "rf_content (rf_put q i t) = AList.update i t (rf_content q)"
proof -
  have i: "rq_pending q i = None \<longleftrightarrow> i \<notin> set (rq_order q)" using assms by (auto simp: rf_ok_def)
  show "rf_ok (rf_put q i t)" using assms i by (auto simp: rf_ok_def rf_put_def Let_def)
  have d: "distinct (rq_order q)" using assms by (simp add: rf_ok_def)
  have "(\<lambda>j. the (((rq_pending q)(i \<mapsto> t)) j)) = (\<lambda>j. the (rq_pending q j))(i := t)" by auto
  then show "rf_content (rf_put q i t) = AList.update i t (rf_content q)"
    unfolding rf_content_def update_map_pairs [OF d] using i by (auto simp: rf_put_def Let_def)
qed

lemma rf_pop_content:
  assumes "rf_ok q"
  shows "rf_content q = [] \<Longrightarrow> rf_pop q = (None, q)"
    "rf_content q = (i, t) # xs \<Longrightarrow> \<exists>q'. rf_pop q = (Some (i, Some t), q') \<and> rf_ok q' \<and> rf_content q' = xs
      \<and> rq_wake q' = rq_wake q \<and> rq_devices q' = rq_devices q"
proof -
  show "rf_content q = [] \<Longrightarrow> rf_pop q = (None, q)" by (simp add: rf_content_def rf_pop_def)
  assume c: "rf_content q = (i, t) # xs"
  then obtain order where o: "rq_order q = i # order" "t = the (rq_pending q i)"
    "xs = List.map (\<lambda>i. (i, the (rq_pending q i))) order"
    by (auto simp: rf_content_def)
  have "i \<in> dom (rq_pending q)" using assms o by (simp add: rf_ok_def)
  then have "rq_pending q i = Some t" using o(2) by auto
  moreover have "distinct order" "i \<notin> set order" "dom (rq_pending q) = insert i (set order)"
    using assms o by (auto simp: rf_ok_def)
  ultimately show "\<exists>q'. rf_pop q = (Some (i, Some t), q') \<and> rf_ok q' \<and> rf_content q' = xs
      \<and> rq_wake q' = rq_wake q \<and> rq_devices q' = rq_devices q"
    using o by (auto simp: rf_pop_def rf_ok_def rf_content_def)
qed

interpretation rfq: latest_queue rf_content rf_put rf_pop rf_ok
  by unfold_locales (use rf_put_content rf_pop_content in blast)+

section \<open>The latest command wins\<close>

definition rf_apply_all :: "RfQueue \<Rightarrow> Command list \<Rightarrow> RfQueue" where
  "rf_apply_all q cs = foldl (\<lambda>q c. snd (Rf_Apply q c)) q cs"

text \<open>What popping an idle adapter's queue \<open>n\<close> times gives.\<close>

fun rf_drain :: "nat \<Rightarrow> RfQueue \<Rightarrow> (string \<times> tx option) list" where
  "rf_drain 0 q = []"
| "rf_drain (Suc n) q = (case rf_pop q of (None, q) \<Rightarrow> [] | (Some m, q) \<Rightarrow> m # rf_drain n q)"

text \<open>The transmissions that a list of commands stands for.\<close>

definition rf_txs :: "RfQueue \<Rightarrow> Command list \<Rightarrow> (string \<times> tx) list" where
  "rf_txs q cs = List.map_filter (\<lambda>c. case rf_translate q c of Inr (Some t) \<Rightarrow> Some (cmd_DeviceID c, t) | _ \<Rightarrow> None) cs"

lemma rf_drain_locale: "rf_drain n q = fst (rfq.drain n q)"
  by (induction n arbitrary: q) (auto split: prod.splits option.splits)

lemma rf_put_devices [simp]: "rq_devices (rf_put q i t) = rq_devices q"
  by (simp add: rf_put_def Let_def)

lemma rf_enqueue_content:
  assumes "rf_ok q"
  shows "rf_ok (rf_enqueue q i t)" "rf_content (rf_enqueue q i t) = AList.update i t (rf_content q)"
    "rq_devices (rf_enqueue q i t) = rq_devices q"
  using rf_put_content [OF assms, of i t]
  by (simp_all add: rf_enqueue_def rf_signal_def rf_ok_def rf_content_def)

lemma rf_translate_cong: "rq_devices q = rq_devices q' \<Longrightarrow> rf_translate q = rf_translate q'"
  by (simp add: rf_translate_def fun_eq_iff)

lemma rf_apply_all_content:
  "rf_ok q \<Longrightarrow> rf_ok (rf_apply_all q cs) \<and> rq_devices (rf_apply_all q cs) = rq_devices q
    \<and> rf_content (rf_apply_all q cs) = foldl (\<lambda>al (k, v). AList.update k v al) (rf_content q) (rf_txs q cs)"
proof (induction cs arbitrary: q)
  case Nil
  then show ?case by (simp add: rf_apply_all_def rf_txs_def)
next
  case (Cons c cs)
  show ?case
  proof (cases "\<exists>t. rf_translate q c = Inr (Some t)")
    case True
    then obtain t where t: "rf_translate q c = Inr (Some t)" by blast
    let ?q = "rf_enqueue q (cmd_DeviceID c) t"
    note e = rf_enqueue_content [OF Cons.prems, of "cmd_DeviceID c" t]
    have "rf_txs ?q cs = rf_txs q cs" using rf_translate_cong [OF e(3)] by (simp add: rf_txs_def)
    with Cons.IH [OF e(1)] t e(2,3) show ?thesis
      by (simp add: rf_apply_all_def rf_txs_def Rf_Apply_def)
  next
    case False
    then have "snd (Rf_Apply q c) = q" "rf_txs q (c # cs) = rf_txs q cs"
      by (auto simp: Rf_Apply_def rf_txs_def split: sum.splits option.splits)
    with Cons.IH [OF Cons.prems] show ?thesis by (simp add: rf_apply_all_def)
  qed
qed

lemma NewRf_ok: "rf_ok (NewRf ds)" "rf_content (NewRf ds) = []"
  by (simp_all add: rf_ok_def NewRf_def rf_content_def)

lemma length_first_keys: "length (first_keys ps) \<le> length ps"
  using length_remdups_leq [of "rev (List.map fst ps)"] by (simp add: first_keys_def)

text \<open>Commands that arrive while the radio is busy are thinned out: whatever commands are applied
  before the loop takes the next transmission, what it then takes is one transmission for each device that
  has an expressible command, in the order in which the devices were first commanded, and it is the
  translation of the last such command for the device.\<close>

theorem rf_latest_wins:
  "rf_drain (length cs) (rf_apply_all (NewRf devices) cs)
    = List.map (\<lambda>i. (i, Some (the (map_of (rev (rf_txs (NewRf devices) cs)) i)))) (first_keys (rf_txs (NewRf devices) cs))"
proof -
  let ?q = "rf_apply_all (NewRf devices) cs" and ?ps = "rf_txs (NewRf devices) cs"
  from rf_apply_all_content [OF NewRf_ok(1), of devices cs] NewRf_ok(2)
  have q: "rf_ok ?q" and c: "rf_content ?q = List.map (\<lambda>i. (i, the (map_of (rev ?ps) i))) (first_keys ?ps)"
    by (simp_all add: updates_first_last)
  have "length (List.map_filter f xs) \<le> length xs" for f :: "Command \<Rightarrow> (string \<times> tx) option" and xs
    by (induction xs) (simp_all add: List.map_filter_simps split: option.split)
  then have "length (rf_content ?q) \<le> length cs"
    using length_first_keys [of ?ps] le_trans unfolding c rf_txs_def by fastforce
  from rfq.drain_content [OF q this] show ?thesis by (simp add: rf_drain_locale c)
qed

section \<open>No wake-up is lost\<close>

definition sys_ok :: "RfSys \<Rightarrow> bool" where
  "sys_ok s \<longleftrightarrow> rf_ok (sys_queue s) \<and> sys_phase s \<noteq> Publishing None
     \<and> (sys_phase s = Waiting \<longrightarrow> rf_content (sys_queue s) \<noteq> [] \<longrightarrow> rq_wake (sys_queue s) \<or> 0 < sys_unsignalled s)"

lemma rf_content_signal [simp]:
  "rf_content (q\<lparr>rq_wake := b\<rparr>) = rf_content q" "rf_ok (q\<lparr>rq_wake := b\<rparr>) = rf_ok q"
  by (simp_all add: rf_content_def rf_ok_def)

lemma rf_pop_cases:
  assumes "rf_ok q"
  obtains "rf_content q = []" "rf_pop q = (None, q)"
  | i t xs q' where "rf_content q = (i, t) # xs" "rf_pop q = (Some (i, Some t), q')" "rf_ok q'" "rf_content q' = xs"
    "rq_wake q' = rq_wake q"
proof (cases "rf_content q")
  case Nil
  with rf_pop_content(1) [OF assms] that(1) show ?thesis by blast
next
  case (Cons p xs)
  obtain i t where p: "p = (i, t)" by force
  from rf_pop_content(2) [OF assms Cons [unfolded p]] Cons p that(2) show ?thesis by blast
qed

lemma rf_step_ok: "rf_step s s' \<Longrightarrow> sys_ok s \<Longrightarrow> sys_ok s'"
proof (induction rule: rf_step.induct)
  case (put s c t)
  then show ?case using rf_put_content [of "sys_queue s"] by (simp add: sys_ok_def)
next
  case (signal s n)
  then show ?case by (simp add: sys_ok_def rf_signal_def)
next
  case (loop ok s s')
  then have q: "rf_ok (sys_queue s)" by (simp add: sys_ok_def)
  show ?case
  proof (cases "sys_phase s")
    case Popping
    from q show ?thesis
      by (cases rule: rf_pop_cases) (use loop Popping in \<open>auto simp: loop_step_def sys_ok_def\<close>)
  qed (use loop in \<open>auto simp: loop_step_def sys_ok_def split: if_splits option.splits\<close>)
next
  case (cancel s)
  then show ?case by (auto simp: sys_ok_def)
qed

lemma rf_reach_ok: "rf_step\<^sup>*\<^sup>* (rf_start devices b) s \<Longrightarrow> sys_ok s"
proof (induction rule: rtranclp_induct)
  case base
  show ?case by (simp add: sys_ok_def rf_start_def NewRf_ok)
qed (rule rf_step_ok)

text \<open>The steps that need no new command, no failure and no cancellation.\<close>

inductive own_step :: "RfSys \<Rightarrow> RfSys \<Rightarrow> bool" where
  own_signal: "sys_unsignalled s = Suc n \<Longrightarrow>
    own_step s (s\<lparr>sys_queue := rf_signal (sys_queue s), sys_unsignalled := n\<rparr>)"
| own_loop: "loop_step True s = Some s' \<Longrightarrow> own_step s s'"

text \<open>What is on its way to the radio: what the loop holds, then the queue.\<close>

definition in_flight :: "RfSys \<Rightarrow> tx list" where
  "in_flight s = (case sys_phase s of Publishing (Some t) \<Rightarrow> [t] | _ \<Rightarrow> []) @ List.map snd (rf_content (sys_queue s))"

definition sent_out :: "RfSys \<Rightarrow> RfSys \<Rightarrow> bool" where
  "sent_out s s' \<longleftrightarrow> own_step\<^sup>*\<^sup>* s s' \<and> in_flight s' = []
     \<and> sys_air s' = sys_air s @ List.map (\<lambda>t. (tx_topic t, tx_payload t)) (in_flight s)
     \<and> sys_bus s' = foldl PublishEvent (sys_bus s) (List.map tx_event (in_flight s))"

lemma sent_out_step:
  assumes "own_step s s1" "sent_out s1 s2" "in_flight s1 = in_flight s" "sys_air s1 = sys_air s" "sys_bus s1 = sys_bus s"
  shows "sent_out s s2"
  using assms by (auto simp: sent_out_def intro: converse_rtranclp_into_rtranclp)

lemma popping_sends_out:
  "sys_ok s \<Longrightarrow> sys_phase s = Popping \<Longrightarrow> \<exists>s'. sent_out s s'"
proof (induction "length (rf_content (sys_queue s))" arbitrary: s)
  case 0
  then have "in_flight s = []" by (simp add: in_flight_def)
  then have "sent_out s s" by (simp add: sent_out_def)
  then show ?case by blast
next
  case (Suc n)
  then have q: "rf_ok (sys_queue s)" by (simp add: sys_ok_def)
  then show ?case
  proof (cases rule: rf_pop_cases)
    case 1
    with Suc show ?thesis by simp
  next
    case (2 i t xs q')
    define s1 where "s1 = s\<lparr>sys_queue := q', sys_phase := Publishing (Some t)\<rparr>"
    define s2 where "s2 = s1\<lparr>sys_air := sys_air s @ [(tx_topic t, tx_payload t)],
      sys_bus := PublishEvent (sys_bus s) (tx_event t), sys_phase := Pausing (tx_cooldown t)\<rparr>"
    define s3 where "s3 = s2\<lparr>sys_phase := Popping\<rparr>"
    have steps: "own_step s s1" "own_step s1 s2" "own_step s2 s3"
      using 2 Suc.prems(2) by (auto simp: s1_def s2_def s3_def loop_step_def intro!: own_loop)
    have s3: "rf_content (sys_queue s3) = xs" "sys_ok s3" "sys_phase s3 = Popping"
      using 2 by (simp_all add: s1_def s2_def s3_def sys_ok_def)
    have "n = length (rf_content (sys_queue s3))" using Suc.hyps(2) 2 s3 by simp
    from Suc.hyps(1) [OF this s3(2,3)] obtain s4 where s4: "sent_out s3 s4" by blast
    have "in_flight s = t # in_flight s3"
      using 2 Suc.prems(2) s3 by (simp add: in_flight_def)
    moreover have "sys_air s3 = sys_air s @ [(tx_topic t, tx_payload t)]" "sys_bus s3 = PublishEvent (sys_bus s) (tx_event t)"
      by (simp_all add: s1_def s2_def s3_def)
    moreover have "own_step\<^sup>*\<^sup>* s s4"
      using steps s4 unfolding sent_out_def by (meson converse_rtranclp_into_rtranclp)
    ultimately have "sent_out s s4" using s4 by (simp add: sent_out_def)
    then show ?thesis by blast
  qed
qed

text \<open>C30: No wake-up is lost and no command is stuck: whatever has happened, commands in any number
  queued at any moment, failed publications, the loop waiting, holding a transmission or pausing, unless
  the adapter was stopped it can go on by itself until nothing is left, and then everything that was on
  its way has been published to the bridge, in order and once, and its state reported to the bus.\<close>

theorem rf_delivers:
  assumes "rf_step\<^sup>*\<^sup>* (rf_start devices b) s" "sys_phase s \<noteq> Stopped"
  shows "\<exists>s'. sent_out s s'"
proof -
  have ok: "sys_ok s" by (rule rf_reach_ok [OF assms(1)])
  show ?thesis
  proof (cases "sys_phase s")
    case Popping
    from popping_sends_out [OF ok this] show ?thesis .
  next
    case Waiting
    show ?thesis
    proof (cases "rf_content (sys_queue s) = []")
      case True
      with Waiting have "in_flight s = []" by (simp add: in_flight_def)
      then have "sent_out s s" by (simp add: sent_out_def)
      then show ?thesis by blast
    next
      case False
      have popping: "\<exists>s'. sent_out r s'" if "sys_ok r" "sys_phase r = Waiting" "rq_wake (sys_queue r)" for r
      proof -
        let ?r = "r\<lparr>sys_queue := (sys_queue r)\<lparr>rq_wake := False\<rparr>, sys_phase := Popping\<rparr>"
        have "own_step r ?r" using that by (intro own_loop) (simp add: loop_step_def)
        moreover have "sys_ok ?r" using that(1) by (simp add: sys_ok_def)
        then obtain r' where "sent_out ?r r'" using popping_sends_out [of ?r] by auto
        ultimately have "sent_out r r'" by (rule sent_out_step) (use that(2) in \<open>simp_all add: in_flight_def\<close>)
        then show ?thesis by blast
      qed
      show ?thesis
      proof (cases "rq_wake (sys_queue s)")
        case True
        from popping [OF ok Waiting this] show ?thesis .
      next
        case False
        with ok Waiting \<open>rf_content (sys_queue s) \<noteq> []\<close> obtain n where n: "sys_unsignalled s = Suc n"
          unfolding sys_ok_def by (metis gr0_conv_Suc)
        let ?s = "s\<lparr>sys_queue := rf_signal (sys_queue s), sys_unsignalled := n\<rparr>"
        have "sys_ok ?s" using ok by (simp add: sys_ok_def rf_signal_def)
        moreover have "sys_phase ?s = Waiting" "rq_wake (sys_queue ?s)" using Waiting by (simp_all add: rf_signal_def)
        ultimately obtain s' where "sent_out ?s s'" using popping [of ?s] by blast
        then have "sent_out s s'"
          by (rule sent_out_step [OF own_signal [OF n]]) (simp_all add: in_flight_def rf_signal_def)
        then show ?thesis by blast
      qed
    qed
  next
    case (Publishing x)
    with ok obtain t where t: "x = Some t" by (auto simp: sys_ok_def)
    let ?s = "s\<lparr>sys_air := sys_air s @ [(tx_topic t, tx_payload t)],
      sys_bus := PublishEvent (sys_bus s) (tx_event t), sys_phase := Pausing (tx_cooldown t)\<rparr>"
    let ?r = "?s\<lparr>sys_phase := Popping\<rparr>"
    have steps: "own_step s ?s" "own_step ?s ?r"
      using Publishing t by (auto simp: loop_step_def intro!: own_loop)
    have "sys_ok ?r" using ok by (simp add: sys_ok_def)
    then obtain r where r: "sent_out ?r r" using popping_sends_out [of ?r] by auto
    then have "own_step\<^sup>*\<^sup>* s r"
      using steps unfolding sent_out_def by (meson converse_rtranclp_into_rtranclp)
    with r Publishing t have "sent_out s r" by (simp add: sent_out_def in_flight_def)
    then show ?thesis by blast
  next
    case (Pausing d)
    let ?r = "s\<lparr>sys_phase := Popping\<rparr>"
    have "own_step s ?r" using Pausing by (intro own_loop) (simp add: loop_step_def)
    moreover have "sys_ok ?r" using ok by (simp add: sys_ok_def)
    then obtain r where "sent_out ?r r" using popping_sends_out [of ?r] by auto
    ultimately have "sent_out s r" by (rule sent_out_step) (use Pausing in \<open>simp_all add: in_flight_def\<close>)
    then show ?thesis by blast
  next
    case Stopped
    with assms(2) show ?thesis by simp
  qed
qed

text \<open>A fan behind the bridge, commanded while the loop waits.\<close>

definition example_fan :: RfDevice where
  "example_fan = \<lparr>rfd_ID = ''fan'', rfd_Type = TypeFan, rfd_Base = ''rf447'', rfd_Channel = 0,
     rfd_Buttons = \<lparr>fb_Off = 1, fb_Speeds = [(33, 2), (66, 3), (100, 4)]\<rparr>\<rparr>"

definition example_waiting :: RfSys where
  "example_waiting = (rf_start [example_fan] (NewBus 1))\<lparr>sys_phase := Waiting\<rparr>"

definition example_tx :: tx where
  "example_tx = the (fanTx example_fan (SetLevel ''fan'' 50))"

definition example_commanded :: RfSys where
  "example_commanded = example_waiting\<lparr>sys_queue := rf_put (sys_queue example_waiting) ''fan'' example_tx,
     sys_unsignalled := 1\<rparr>"

lemma example_commanded_reachable: "rf_step\<^sup>*\<^sup>* (rf_start [example_fan] (NewBus 1)) example_commanded"
proof -
  have "rf_step (rf_start [example_fan] (NewBus 1)) example_waiting"
    by (rule rf_step.loop [of False]) (simp add: loop_step_def rf_start_def rf_pop_def NewRf_def example_waiting_def)
  moreover have "rf_translate (sys_queue example_waiting) (SetLevel ''fan'' 50) = Inr (Some example_tx)"
    by (simp add: rf_translate_def example_waiting_def rf_start_def NewRf_def example_fan_def example_tx_def
        fanTx_def SetLevel_def Let_def value_int_def)
  from rf_step.put [OF this] have "rf_step example_waiting example_commanded"
    by (simp add: example_commanded_def example_waiting_def rf_start_def SetLevel_def)
  ultimately show ?thesis by auto
qed

theorem rf_delivers_witness:
  "\<exists>s'. sent_out example_commanded s' \<and> sys_air s' = [(tx_topic example_tx, tx_payload example_tx)]"
proof -
  have "\<exists>s'. sent_out example_commanded s'"
    by (rule rf_delivers [OF example_commanded_reachable])
      (simp add: example_commanded_def example_waiting_def)
  moreover have "in_flight example_commanded = [example_tx]" "sys_air example_commanded = []"
    by (simp_all add: in_flight_def example_commanded_def example_waiting_def rf_start_def NewRf_def rf_put_def
        rf_content_def)
  ultimately show ?thesis by (auto simp: sent_out_def)
qed

section \<open>The speed of a fan\<close>

text \<open>\<open>l\<close> is no worse than \<open>l'\<close> for the wanted level.\<close>

definition no_worse :: "int \<Rightarrow> int \<Rightarrow> int \<Rightarrow> bool" where
  "no_worse want l l' \<longleftrightarrow> \<bar>l - want\<bar> < \<bar>l' - want\<bar> \<or> \<bar>l - want\<bar> = \<bar>l' - want\<bar> \<and> l' \<le> l"

lemma no_worse_trans: "no_worse w a b \<Longrightarrow> no_worse w b c \<Longrightarrow> no_worse w a c"
  by (auto simp: no_worse_def)

lemma no_worse_linear: "no_worse w a b \<or> no_worse w b a" by (auto simp: no_worse_def)

lemma no_worse_antisym: "no_worse w a b \<Longrightarrow> no_worse w b a \<Longrightarrow> a = b" by (auto simp: no_worse_def)

lemma nearest_loop_best:
  "nearest_loop w ss (Some \<bar>lv - w\<bar>) (lv, bt) \<in> insert (lv, bt) (set ss)
    \<and> (\<forall>x\<in>insert (lv, bt) (set ss). no_worse w (fst (nearest_loop w ss (Some \<bar>lv - w\<bar>) (lv, bt))) (fst x))"
proof (induction ss arbitrary: lv bt)
  case (Cons p ss)
  obtain l b where p: "p = (l, b)" by force
  have d: "(if l - w < 0 then - (l - w) else l - w) = \<bar>l - w\<bar>" by (simp add: abs_if)
  show ?case
  proof (cases "\<bar>l - w\<bar> < \<bar>lv - w\<bar> \<or> \<bar>l - w\<bar> = \<bar>lv - w\<bar> \<and> l > lv")
    case True
    then have r: "nearest_loop w (p # ss) (Some \<bar>lv - w\<bar>) (lv, bt) = nearest_loop w ss (Some \<bar>l - w\<bar>) (l, b)"
      unfolding p nearest_loop.simps Let_def d by (simp only: option.sel option.distinct simp_thms if_True if_False not_less)
    have "no_worse w l lv" using True by (auto simp: no_worse_def)
    with Cons.IH [of l b] no_worse_trans [of w _ l lv] show ?thesis unfolding r by (auto simp: p)
  next
    case False
    then have r: "nearest_loop w (p # ss) (Some \<bar>lv - w\<bar>) (lv, bt) = nearest_loop w ss (Some \<bar>lv - w\<bar>) (lv, bt)"
      unfolding p nearest_loop.simps Let_def d by (simp only: option.sel option.distinct simp_thms if_True if_False not_less)
    have "no_worse w lv l" using False by (auto simp: no_worse_def)
    with Cons.IH [of lv bt] no_worse_trans [of w _ lv l] show ?thesis unfolding r by (auto simp: p)
  qed
qed (simp add: no_worse_def)

lemma nearestSpeed_best:
  assumes "ss \<noteq> []"
  shows "nearestSpeed ss w \<in> set ss" "\<And>x. x \<in> set ss \<Longrightarrow> no_worse w (fst (nearestSpeed ss w)) (fst x)"
proof -
  obtain l b ss' where ss: "ss = (l, b) # ss'" using assms by (metis list.exhaust surj_pair)
  have "nearestSpeed ss w = nearest_loop w ss' (Some \<bar>l - w\<bar>) (l, b)"
    by (simp add: nearestSpeed_def ss Let_def abs_if)
  with nearest_loop_best [of w ss' l b] ss
  show "nearestSpeed ss w \<in> set ss" "\<And>x. x \<in> set ss \<Longrightarrow> no_worse w (fst (nearestSpeed ss w)) (fst x)" by auto
qed

lemma lowest_loop_least:
  "\<forall>x\<in>insert (lv, bt) (set ss). 0 < fst x \<Longrightarrow> lowest_loop ss (lv, bt) \<in> insert (lv, bt) (set ss)
    \<and> (\<forall>x\<in>insert (lv, bt) (set ss). fst (lowest_loop ss (lv, bt)) \<le> fst x)"
proof (induction ss arbitrary: lv bt)
  case (Cons p ss)
  obtain l b where p: "p = (l, b)" by force
  show ?case
  proof (cases "l < lv")
    case True
    with Cons.IH [of l b] Cons.prems show ?thesis unfolding p by fastforce
  next
    case False
    with Cons.IH [of lv bt] Cons.prems show ?thesis unfolding p by fastforce
  qed
qed simp

lemma lowestSpeed_least:
  assumes "ss \<noteq> []" "\<forall>x\<in>set ss. 0 < fst x"
  shows "lowestSpeed ss \<in> set ss" "\<And>x. x \<in> set ss \<Longrightarrow> fst (lowestSpeed ss) \<le> fst x"
proof -
  obtain l b ss' where ss: "ss = (l, b) # ss'" using assms by (metis list.exhaust surj_pair)
  with lowest_loop_least [of l b ss'] assms(2)
  show "lowestSpeed ss \<in> set ss" "\<And>x. x \<in> set ss \<Longrightarrow> fst (lowestSpeed ss) \<le> fst x"
    by (auto simp: lowestSpeed_def)
qed

lemma same_entry: "distinct (List.map fst ss) \<Longrightarrow> x \<in> set ss \<Longrightarrow> y \<in> set ss \<Longrightarrow> fst x = fst y \<Longrightarrow> x = y"
  by (metis eq_key_imp_eq_value prod.collapse)

lemma validateSpeeds_range:
  "validateSpeeds i ss = None \<Longrightarrow> x \<in> set ss \<Longrightarrow> 1 \<le> fst x \<and> fst x \<le> 100 \<and> 1 \<le> snd x \<and> snd x \<le> 15"
  by (induction i ss rule: validateSpeeds.induct) (auto split: if_splits)

text \<open>The button that a fan command presses does not depend on the order in which Go walks the map
  of speeds, which differs from run to run: for a validated map every order of its entries gives the same
  speed, for a level the configured one that is nearest to it, of two equally near the higher, and for a
  bare \<^verbatim>\<open>on\<close> the lowest; its button is one of the remote's fifteen.\<close>

theorem rf_speed_order:
  assumes "validateSpeeds i ss = None" "ss \<noteq> []" "distinct (List.map fst ss)"
    and "distinct (List.map fst ss')" "set ss' = set ss"
  shows "nearestSpeed ss' want = nearestSpeed ss want \<and> lowestSpeed ss' = lowestSpeed ss
    \<and> nearestSpeed ss want \<in> set ss \<and> lowestSpeed ss \<in> set ss
    \<and> (\<forall>(l, b)\<in>set ss. no_worse want (fst (nearestSpeed ss want)) l \<and> fst (lowestSpeed ss) \<le> l \<and> 1 \<le> b \<and> b \<le> 15)"
proof -
  have ne: "ss' \<noteq> []" using assms(2,5) by auto
  have pos: "\<forall>x\<in>set ss. 0 < fst x" using validateSpeeds_range [OF assms(1)] by fastforce
  note n = nearestSpeed_best [OF assms(2), where w = want] nearestSpeed_best [OF ne, where w = want, unfolded assms(5)]
  note l = lowestSpeed_least [OF assms(2) pos] lowestSpeed_least [OF ne, unfolded assms(5), OF pos]
  have "nearestSpeed ss' want = nearestSpeed ss want"
    by (rule same_entry [OF assms(3) n(3,1)]) (rule no_worse_antisym [OF n(4) [OF n(1)] n(2) [OF n(3)]])
  moreover have "lowestSpeed ss' = lowestSpeed ss"
    by (rule same_entry [OF assms(3) l(3,1)]) (rule antisym [OF l(4) [OF l(1)] l(2) [OF l(3)]])
  ultimately show ?thesis
    using n(1,2) l(1,2) validateSpeeds_range [OF assms(1)] by fastforce
qed

theorem rf_speed_order_witness:
  "nearestSpeed [(100, 4), (33, 2), (66, 3)] 50 = nearestSpeed [(33, 2), (66, 3), (100, 4)] 50
    \<and> nearestSpeed [(33, 2), (66, 3), (100, 4)] 50 = (66, 3)
    \<and> lowestSpeed [(100, 4), (33, 2), (66, 3)] = (33, 2)"
  using rf_speed_order [of "''fan''" "[(33, 2), (66, 3), (100, 4)]" "[(100, 4), (33, 2), (66, 3)]" 50]
  by (simp add: nearestSpeed_def lowestSpeed_def insert_commute)

section \<open>Configured devices\<close>

lemma validateDevices_each:
  "validateDevices m ds = Inr m' \<Longrightarrow> (\<forall>d\<in>set ds. validateDevice d = None \<and> m (dev_ID (dc_Device d)) = None \<and> dev_ID (dc_Device d) \<noteq> '''')
    \<and> distinct (List.map (\<lambda>d. dev_ID (dc_Device d)) ds)"
proof (induction ds arbitrary: m)
  case (Cons d ds)
  then have d: "m (dev_ID (dc_Device d)) = None" "validateDevice d = None" "dev_ID (dc_Device d) \<noteq> ''''"
    "validateDevices (m(dev_ID (dc_Device d) \<mapsto> dc_Device d)) ds = Inr m'"
    by (auto simp: Let_def split: if_splits option.splits)
  from Cons.IH [OF d(4)] d(1-3) show ?case by (auto split: if_splits)
qed simp

lemma foldl_updates:
  "distinct (List.map f ds) \<Longrightarrow> d \<in> set ds \<Longrightarrow> foldl (\<lambda>m d. m(f d \<mapsto> d)) m ds (f d) = Some d"
proof (induction ds rule: rev_induct)
  case (snoc x ds)
  then show ?case by (cases "d = x") (auto simp: image_iff)
qed simp

lemma distinct_map_filter': "distinct (List.map f xs) \<Longrightarrow> distinct (List.map f (filter P xs))"
  by (induction xs) auto

lemma configured:
  assumes "validate c = None" "dc \<in> set (cf_Devices c)"
  shows "validateDevice dc = None" "dev_ID (dc_Device dc) \<noteq> ''''"
    "Registry_Get (load_registry (cf_Devices c)) (dev_ID (dc_Device dc)) = Some (dc_Device dc)"
    "dev_Integration (dc_Device dc) = RF \<Longrightarrow>
      rq_devices (NewRf (rf_devices (cf_Devices c))) (dev_ID (dc_Device dc)) = Some (rf_device_of dc)"
proof -
  let ?ds = "filter (\<lambda>dc. dev_Integration (dc_Device dc) = RF) (cf_Devices c)"
  obtain m where m: "validateDevices (\<lambda>_. None) (cf_Devices c) = Inr m"
    using assms(1) by (auto simp: validate_def split: sum.splits)
  note each = validateDevices_each [OF m]
  show "validateDevice dc = None" "dev_ID (dc_Device dc) \<noteq> ''''" using each assms(2) by auto
  have "Registry_Get NewRegistry = (\<lambda>_. None)" by (simp add: Registry_Get_def NewRegistry_def fun_eq_iff)
  from validateDevices_ok [OF m this, of "matter_ids (cf_Devices c)"] validateDevices_all [OF m assms(2)]
  show "Registry_Get (load_registry (cf_Devices c)) (dev_ID (dc_Device dc)) = Some (dc_Device dc)"
    by (simp add: load_registry_def)
  have ids: "List.map rfd_ID (rf_devices (cf_Devices c)) = List.map (\<lambda>d. dev_ID (dc_Device d)) ?ds"
    by (simp add: rf_devices_def rf_device_of_def)
  have "distinct (List.map rfd_ID (rf_devices (cf_Devices c)))"
    unfolding ids by (rule distinct_map_filter') (use each in blast)
  moreover assume "dev_Integration (dc_Device dc) = RF"
  then have "rf_device_of dc \<in> set (rf_devices (cf_Devices c))"
    using assms(2) by (simp add: rf_devices_def)
  ultimately show "rq_devices (NewRf (rf_devices (cf_Devices c))) (dev_ID (dc_Device dc)) = Some (rf_device_of dc)"
    using foldl_updates [of rfd_ID "rf_devices (cf_Devices c)" "rf_device_of dc" "\<lambda>_. None"]
    by (simp add: NewRf_def) (simp add: rf_device_of_def)
qed

text \<open>A configured RF device obeys: after validation the adapter that \<^verbatim>\<open>main\<close> builds accepts every
  command for it without an error, and whatever it transmits goes to a topic of the device's own bridge,
  to a blind channel between 0 and 15 or a fan button between 1 and 15.\<close>

theorem rf_configured:
  assumes "validate c = None" "dc \<in> set (cf_Devices c)" "dev_Integration (dc_Device dc) = RF"
    and "cmd_DeviceID cmd = dev_ID (dc_Device dc)"
  shows "\<exists>r. rf_translate (NewRf (rf_devices (cf_Devices c))) cmd = Inr r \<and>
    (case r of None \<Rightarrow> True
     | Some t \<Rightarrow> \<exists>n. 0 \<le> n \<and> n \<le> 15 \<and>
         (tx_topic t = ascii (dev_Addr (dc_Device dc)) @ ascii ''/blind/'' @ Itoa n @ ascii ''/set''
          \<or> 1 \<le> n \<and> tx_topic t = ascii (dev_Addr (dc_Device dc)) @ ascii ''/fan/'' @ Itoa n @ ascii ''/press''))"
proof -
  note v = configured(1) [OF assms(1,2)]
  note dev = configured(4) [OF assms(1-3), folded assms(4)]
  have rf: "validateRFDevice dc = None" using v assms(3) by (simp add: validateDevice_def Let_def split: if_splits)
  consider (cover) ch r where "dev_Type (dc_Device dc) = TypeCover" "dc_RF dc = Some r" "rf_Channel r = Some ch" "0 \<le> ch" "ch \<le> 15"
    | (fan) b r where "dev_Type (dc_Device dc) = TypeFan" "dc_RF dc = Some r" "rf_Buttons r = Some b"
        "1 \<le> btn_Off b" "btn_Off b \<le> 15" "btn_Speeds b \<noteq> []" "validateSpeeds (dev_ID (dc_Device dc)) (btn_Speeds b) = None"
    using rf by (auto simp: validateRFDevice_def Let_def split: if_splits option.splits)
  then show ?thesis
  proof cases
    case cover
    then show ?thesis
      using dev by (auto simp: rf_translate_def coverTx_def rf_device_of_def Let_def split: option.splits Action.splits)
  next
    case fan
    let ?ss = "btn_Speeds b"
    have pos: "\<forall>x\<in>set ?ss. 0 < fst x" using validateSpeeds_range [OF fan(7)] by fastforce
    have near: "1 \<le> snd (nearestSpeed ?ss w) \<and> snd (nearestSpeed ?ss w) \<le> 15" for w
      using validateSpeeds_range [OF fan(7) nearestSpeed_best(1) [OF fan(6)]] by blast
    then have nr: "nearestSpeed ?ss w = (l, k) \<Longrightarrow> 1 \<le> k \<and> k \<le> 15" for w l k by (metis snd_conv)
    have low: "1 \<le> snd (lowestSpeed ?ss) \<and> snd (lowestSpeed ?ss) \<le> 15"
      using validateSpeeds_range [OF fan(7) lowestSpeed_least(1) [OF fan(6) pos]] by blast
    have button: "\<exists>n\<ge>0. n \<le> 15 \<and> 1 \<le> n \<and> Itoa k = Itoa n" if "1 \<le> k \<and> k \<le> 15" for k
      using that by (intro exI [of _ k]) auto
    show ?thesis
      using dev fan nr low
      by (auto simp: rf_translate_def fanTx_def rf_device_of_def Let_def split: option.splits Action.splits prod.splits
          intro!: button dest: nr)
  qed
qed

definition example_blind :: DeviceConfig where
  "example_blind = \<lparr>dc_Device = \<lparr>dev_ID = ''blind'', dev_Name = ''Blind'', dev_Integration = RF, dev_Type = TypeCover,
       dev_Addr = ''rf447'', dev_Endpoint = 0, dev_Decoupled = False, dev_Features = []\<rparr>,
     dc_Driver = '''', dc_Triggers = (\<lambda>_. None), dc_GoMatter = None,
     dc_RF = Some \<lparr>rf_Channel = Some 3, rf_Buttons = None\<rparr>\<rparr>"

theorem rf_configured_witness:
  "\<exists>r. rf_translate (NewRf (rf_devices [example_blind])) (SetPosition ''blind'' 40) = Inr r"
proof -
  have "validate \<lparr>cf_Devices = [example_blind], cf_Rules = []\<rparr> = None"
    by (simp add: validate_def validateDevice_def validateRFDevice_def validTypes_def example_blind_def Let_def)
  from rf_configured [OF this, of example_blind "SetPosition ''blind'' 40"]
  show ?thesis by (auto simp: example_blind_def SetPosition_def)
qed

end
