(* ===== verification/Zigbee_Properties.thy ===== *)
theory Zigbee_Properties
  imports Zigbee_Driver Rf_Properties
begin

text \<open>
  The Zigbee adapter: which device a report is for, what a commanded position comes back as, which events
  the adapter publishes; and the way of a button press through the whole hub to a blind behind the RF
  bridge.
\<close>

section \<open>The contract of an adapter\<close>

lemma zcl_of_command_reg: "zd_reg (snd (zcl_of_command dev c d)) = zd_reg d" "zd_ready (snd (zcl_of_command dev c d)) = zd_ready d"
  "zd_sent (snd (zcl_of_command dev c d)) = zd_sent d"
  by (simp_all add: zcl_of_command_def zclCommand_def Let_def split: Action.splits)

lemma Zigbee_Apply_keeps:
  "zd_ready (snd (Zigbee_Apply ok d c)) = zd_ready d" "zd_reg (snd (Zigbee_Apply ok d c)) = zd_reg d"
proof -
  have "zd_ready d' = zd_ready d \<and> zd_reg d' = zd_reg d" if "zcl_of_command dev c d = (x, d')" for dev x d'
    using zcl_of_command_reg [of dev c d] that by simp
  then show "zd_ready (snd (Zigbee_Apply ok d c)) = zd_ready d" "zd_reg (snd (Zigbee_Apply ok d c)) = zd_reg d"
    by (simp_all add: Zigbee_Apply_def Let_def split: option.splits prod.splits)
qed

interpretation zigbee: adapter "Zigbee_Apply ok" "\<lambda>d i. zd_ready d \<and> Registry_Get (zd_reg d) i \<noteq> None"
  by unfold_locales (simp add: Zigbee_Apply_keeps, auto simp: Zigbee_Apply_def)

section \<open>The device of a message\<close>

text \<open>The devices of the adapter, each with its node and endpoint.\<close>

definition zigbee_at :: "Device \<Rightarrow> u64 \<Rightarrow> bool" where
  "zigbee_at dev addr \<longleftrightarrow> dev_Integration dev = Zigbee \<and> parseIEEE (dev_Addr dev) = Some addr"

definition gangs_distinct :: "Device set \<Rightarrow> bool" where
  "gangs_distinct D \<longleftrightarrow> (\<forall>x\<in>D. \<forall>y\<in>D. \<forall>addr. zigbee_at x addr \<and> zigbee_at y addr \<and> deviceEndpoint x = deviceEndpoint y
     \<longrightarrow> dev_ID x = dev_ID y)"

text \<open>What the loop computes: the device of the gang, or one without an endpoint at the same node.\<close>

lemma by_addr_loop_cases:
  "(\<exists>x\<in>set devs. zigbee_at x addr \<and> deviceEndpoint x = ep \<and> by_addr_loop addr ep devs fb = dev_ID x)
    \<or> (\<forall>x\<in>set devs. zigbee_at x addr \<longrightarrow> deviceEndpoint x \<noteq> ep)
      \<and> (by_addr_loop addr ep devs fb = fb \<and> (\<forall>x\<in>set devs. zigbee_at x addr \<longrightarrow> dev_Endpoint x \<noteq> 0)
         \<or> (\<exists>x\<in>set devs. zigbee_at x addr \<and> dev_Endpoint x = 0 \<and> by_addr_loop addr ep devs fb = dev_ID x))"
proof (induction devs arbitrary: fb)
  case (Cons d devs)
  consider "\<not> zigbee_at d addr" | "zigbee_at d addr" "deviceEndpoint d = ep"
    | "zigbee_at d addr" "deviceEndpoint d \<noteq> ep" "dev_Endpoint d = 0"
    | "zigbee_at d addr" "deviceEndpoint d \<noteq> ep" "dev_Endpoint d \<noteq> 0" by blast
  then show ?case
  proof cases
    case 1
    then have "by_addr_loop addr ep (d # devs) fb = by_addr_loop addr ep devs fb"
      by (auto simp: zigbee_at_def)
    with Cons.IH [of fb] 1 show ?thesis by auto
  next
    case 2
    then show ?thesis by (auto simp: zigbee_at_def)
  next
    case 3
    then have "by_addr_loop addr ep (d # devs) fb = by_addr_loop addr ep devs (dev_ID d)"
      by (auto simp: zigbee_at_def)
    with Cons.IH [of "dev_ID d"] 3 show ?thesis by auto
  next
    case 4
    then have "by_addr_loop addr ep (d # devs) fb = by_addr_loop addr ep devs fb"
      by (auto simp: zigbee_at_def)
    with Cons.IH [of fb] 4 show ?thesis by auto
  qed
qed simp

lemma deviceIDByAddr_gang:
  assumes "gangs_distinct (set devs)" "x \<in> set devs" "zigbee_at x addr" "deviceEndpoint x = ep"
  shows "deviceIDByAddr devs addr ep = dev_ID x"
  using by_addr_loop_cases [of devs addr ep "''''"] assms unfolding deviceIDByAddr_def gangs_distinct_def by metis

lemma deviceIDByAddr_fallback:
  assumes "gangs_distinct (set devs)" "\<forall>y\<in>set devs. zigbee_at y addr \<longrightarrow> deviceEndpoint y \<noteq> ep"
    and "x \<in> set devs" "zigbee_at x addr" "dev_Endpoint x = 0"
  shows "deviceIDByAddr devs addr ep = dev_ID x"
proof -
  obtain y where y: "y \<in> set devs" "zigbee_at y addr" "dev_Endpoint y = 0" "deviceIDByAddr devs addr ep = dev_ID y"
    using by_addr_loop_cases [of devs addr ep "''''"] assms(2-5) unfolding deviceIDByAddr_def by blast
  then have "deviceEndpoint y = deviceEndpoint x" using assms(5) by (simp add: deviceEndpoint_def)
  with y assms(1,3,4) show ?thesis unfolding gangs_distinct_def by metis
qed

lemma deviceIDByAddr_none:
  assumes "\<forall>y\<in>set devs. zigbee_at y addr \<longrightarrow> deviceEndpoint y \<noteq> ep" "\<forall>y\<in>set devs. zigbee_at y addr \<longrightarrow> dev_Endpoint y \<noteq> 0"
  shows "deviceIDByAddr devs addr ep = ''''"
  using by_addr_loop_cases [of devs addr ep "''''"] assms unfolding deviceIDByAddr_def by blast

text \<open>A report goes to the gang it came from, in whatever order Go walks the registry, which differs
  from run to run: if no two configured Zigbee devices share node and endpoint, every order of the devices
  gives the same answer; it is the device at the message's node and endpoint if there is one, else the
  device at the node that names no endpoint, else none.\<close>

theorem zigbee_gang_routing:
  assumes "gangs_distinct (set devs)" "set devs' = set devs"
  shows "deviceIDByAddr devs' addr ep = deviceIDByAddr devs addr ep
    \<and> (\<forall>x\<in>set devs. zigbee_at x addr \<and> deviceEndpoint x = ep \<longrightarrow> deviceIDByAddr devs addr ep = dev_ID x)
    \<and> ((\<forall>x\<in>set devs. zigbee_at x addr \<longrightarrow> deviceEndpoint x \<noteq> ep) \<longrightarrow>
        (\<forall>x\<in>set devs. zigbee_at x addr \<and> dev_Endpoint x = 0 \<longrightarrow> deviceIDByAddr devs addr ep = dev_ID x)
        \<and> ((\<forall>x\<in>set devs. zigbee_at x addr \<longrightarrow> dev_Endpoint x \<noteq> 0) \<longrightarrow> deviceIDByAddr devs addr ep = ''''))"
proof -
  have d': "gangs_distinct (set devs')" using assms by simp
  note a = deviceIDByAddr_gang [OF assms(1)] and a' = deviceIDByAddr_gang [OF d', unfolded assms(2)]
  note b = deviceIDByAddr_fallback [OF assms(1)] and b' = deviceIDByAddr_fallback [OF d', unfolded assms(2)]
  note c = deviceIDByAddr_none [of devs] and c' = deviceIDByAddr_none [of devs', unfolded assms(2)]
  have "deviceIDByAddr devs' addr ep = deviceIDByAddr devs addr ep"
  proof (cases "\<exists>x\<in>set devs. zigbee_at x addr \<and> deviceEndpoint x = ep")
    case True
    with a a' show ?thesis by metis
  next
    case False
    then show ?thesis
      by (cases "\<exists>x\<in>set devs. zigbee_at x addr \<and> dev_Endpoint x = 0") (use b b' c c' in \<open>metis, metis\<close>)
  qed
  with a b c show ?thesis by blast
qed

section \<open>Positions\<close>

text \<open>A Report Attributes frame with one attribute record.\<close>

definition report_frame :: "u8 \<Rightarrow> u8 \<Rightarrow> u16 \<Rightarrow> bytes \<Rightarrow> bytes" where
  "report_frame fc tsn attrID rest = fc # tsn # 0x0A # le_bytes 2 attrID @ rest"

lemma zclReportRecord_frame [simp]:
  "rest = a # b # t \<Longrightarrow> zclReportRecord (report_frame fc tsn attrID rest) = Some (le_bytes 2 attrID @ rest)"
  by (simp add: zclReportRecord_def report_frame_def Let_def)

lemma parseAttrUint8_frame:
  "parseAttrUint8 (report_frame fc tsn attrID (0x20 # v # rest)) attrID = Some v"
  by (simp add: parseAttrUint8_def nth_append)

lemma parseMultistatePress_frame:
  "parseMultistatePress (report_frame fc tsn 0x0055 (0x21 # le_bytes 2 (v :: u16) @ rest))
    = (if v = 0 then Some ''hold'' else if v = 1 then Some ''single'' else if v = 2 then Some ''double'' else None)"
proof -
  obtain a b where v: "le_bytes 2 v = [a, b]" "le_word [a, b] = v" by (rule le_bytes_two [of v])
  obtain x y where w: "le_bytes 2 (0x0055 :: u16) = [x, y]" "le_word [x, y] = (0x0055 :: u16)" by (metis le_bytes_two)
  from v w show ?thesis
    by (simp add: parseMultistatePress_def zclReportRecord_def report_frame_def Let_def nth_append)
qed

lemma clamp_percent_range: "0 \<le> clamp_percent p \<and> clamp_percent p \<le> 100"
  by (simp add: clamp_percent_def Let_def)

lemma lift_of_position:
  "uint (word_of_int (100 - clamp_percent p) :: u8) = 100 - clamp_percent p"
proof -
  have "0 \<le> 100 - clamp_percent p" "100 - clamp_percent p < 2 ^ LENGTH(8)" using clamp_percent_range [of p] by simp_all
  then show ?thesis unfolding uint_word_of_int_eq by (rule take_bit_int_eq_self)
qed

text \<open>A commanded position comes back as it was commanded: whatever percentage is asked for, the
  message goes to the device's node and endpoint with the lift of the covering's own orientation, and when
  the motor reports that lift the adapter publishes for that device the position that was asked for, cut to
  the range from 0 to 100.\<close>

theorem zigbee_position_echo:
  assumes "Zigbee_Apply ok d (SetPosition i p) = (None, d')"
    and "Registry_Get (zd_reg d) i = Some dev" "dev_Integration dev = Zigbee" "dev_ID dev = i" "i \<noteq> ''''"
    and "dev \<in> set devs" "gangs_distinct (set devs)"
  shows "\<exists>addr msg lift. parseIEEE (dev_Addr dev) = Some addr \<and> zd_sent d' = zd_sent d @ [(addr, msg)]
    \<and> am_Cluster msg = covCluster \<and> am_Destination msg = deviceEndpoint dev
    \<and> am_Data msg = [0x01, zd_seq d + 1, covCmdGoToLift, lift]
    \<and> handleIncoming devs addr \<lparr>am_Cluster = covCluster, am_Source = am_Destination msg, am_Destination = adapterEndpt,
         am_Data = report_frame fc tsn covAttrLiftPercentage (0x20 # lift # rest)\<rparr>
       = Some (state_event i (zeroState\<lparr>Position := Some (clamp_percent p)\<rparr>))"
proof -
  obtain addr where addr: "parseIEEE (dev_Addr dev) = Some addr" "ok" "zd_ready d"
    using assms(1,2)
    by (auto simp: Zigbee_Apply_def SetPosition_def zcl_of_command_def zclCommand_def Let_def split: if_splits option.splits)
  define lift :: u8 where "lift = word_of_int (100 - clamp_percent p)"
  have lift: "uint lift = 100 - clamp_percent p" unfolding lift_def by (rule lift_of_position)
  have "deviceIDByAddr devs addr (deviceEndpoint dev) = i"
    using deviceIDByAddr_gang [OF assms(7,6), of addr] addr assms(3,4) by (simp add: zigbee_at_def)
  then have "handleIncoming devs addr \<lparr>am_Cluster = covCluster, am_Source = deviceEndpoint dev, am_Destination = adapterEndpt,
         am_Data = report_frame fc tsn covAttrLiftPercentage (0x20 # lift # rest)\<rparr>
       = Some (state_event i (zeroState\<lparr>Position := Some (clamp_percent p)\<rparr>))"
    using assms(5) by (simp add: handleIncoming_def parseAttrUint8_frame lift Let_def)
  moreover have "zd_sent d' = zd_sent d @ [(addr, \<lparr>am_Cluster = covCluster, am_Source = adapterEndpt,
      am_Destination = deviceEndpoint dev, am_Data = [0x01, zd_seq d + 1, covCmdGoToLift, lift]\<rparr>)]"
    using assms(1,2) addr unfolding lift_def
    by (auto simp: Zigbee_Apply_def zcl_of_command_def zclCommand_def Let_def SetPosition_def value_int_def)
  ultimately show ?thesis using addr(1) by (intro exI [of _ addr] exI [of _ lift] exI conjI) (auto intro: exI)
qed

text \<open>A covering that reports the ZCL value for an unknown lift is published at a position outside the
  percentages.\<close>

theorem zigbee_unknown_lift:
  assumes "deviceIDByAddr devs addr ep = i" "i \<noteq> ''''"
  shows "handleIncoming devs addr \<lparr>am_Cluster = covCluster, am_Source = ep, am_Destination = adapterEndpt,
      am_Data = report_frame fc tsn covAttrLiftPercentage (0x20 # 0xFF # rest)\<rparr>
    = Some (state_event i (zeroState\<lparr>Position := Some (- 155)\<rparr>))"
  using assms by (simp add: handleIncoming_def parseAttrUint8_frame)

section \<open>Events\<close>

lemma deviceIDByAddr_device:
  assumes "deviceIDByAddr devs addr ep \<noteq> ''''"
  shows "\<exists>x\<in>set devs. zigbee_at x addr \<and> dev_ID x = deviceIDByAddr devs addr ep"
  using by_addr_loop_cases [of devs addr ep "''''"] assms unfolding deviceIDByAddr_def by metis

text \<open>Everything the adapter publishes is for a configured Zigbee device at the node that sent the
  message, and it is either a state with one of on and position or a press of one of the three kinds that
  the rules accept; for any bytes a node may send.\<close>

theorem zigbee_events_typed:
  assumes "handleIncoming devs addr msg = Some e"
  shows "(\<exists>x\<in>set devs. zigbee_at x addr \<and> ev_DeviceID e = dev_ID x)
    \<and> (ev_Kind e = EventButton \<and> ev_State e = zeroState \<and> ev_Press e \<in> {''single'', ''double'', ''hold''}
       \<or> ev_Kind e = EventStateChanged \<and>
          ((\<exists>b. ev_State e = zeroState\<lparr>On := Some b\<rparr>)
           \<or> (\<exists>n. - 155 \<le> n \<and> n \<le> 100 \<and> ev_State e = zeroState\<lparr>Position := Some n\<rparr>)))"
proof -
  let ?i = "deviceIDByAddr devs addr (am_Source msg)"
  have i: "?i \<noteq> ''''" "ev_DeviceID e = ?i"
    using assms by (auto simp: handleIncoming_def Let_def state_event_def button_event_def split: if_splits option.splits)
  consider (on) b where "e = state_event ?i (zeroState\<lparr>On := Some b\<rparr>)"
    | (lift) w :: u8 where "e = state_event ?i (zeroState\<lparr>Position := Some (100 - uint w)\<rparr>)"
    | (press) p where "e = button_event ?i p" "parseMultistatePress (am_Data msg) = Some p"
    using assms by (auto simp: handleIncoming_def Let_def split: if_splits option.splits)
  then have "ev_Kind e = EventButton \<and> ev_State e = zeroState \<and> ev_Press e \<in> {''single'', ''double'', ''hold''}
       \<or> ev_Kind e = EventStateChanged \<and>
          ((\<exists>b. ev_State e = zeroState\<lparr>On := Some b\<rparr>)
           \<or> (\<exists>n. - 155 \<le> n \<and> n \<le> 100 \<and> ev_State e = zeroState\<lparr>Position := Some n\<rparr>))"
  proof cases
    case (lift w)
    have "- 155 \<le> 100 - uint w \<and> 100 - uint w \<le> 100" using uint_bounded [of w] uint_ge_0 [of w] by simp
    then have "\<exists>n. - 155 \<le> n \<and> n \<le> 100 \<and> ev_State e = zeroState\<lparr>Position := Some n\<rparr>"
      by (intro exI [of _ "100 - uint w"]) (simp add: lift state_event_def)
    then show ?thesis using lift by (simp add: state_event_def)
  next
    case (press p)
    then show ?thesis
      by (auto simp: button_event_def parseMultistatePress_def Let_def split: if_splits option.splits)
  qed (auto simp: state_event_def)
  with deviceIDByAddr_device [OF i(1)] i(2) show ?thesis by metis
qed

section \<open>From a press to a blind\<close>

text \<open>The value with which a press is reported, and what an action of a button rule asks of a blind whose
  cached on-state is \<open>on\<close>.\<close>

definition press_code :: "string \<Rightarrow> u16" where
  "press_code press = (if press = ''single'' then 1 else if press = ''double'' then 2 else 0)"

definition blind_payload :: "string \<Rightarrow> int \<Rightarrow> bool \<Rightarrow> bytes" where
  "blind_payload action v on =
     (if action = ''open'' \<or> action = ''on'' \<or> action = ''position'' \<and> 100 \<le> v \<or> action = ''toggle'' \<and> \<not> on
      then ascii ''OPEN''
      else if action = ''position'' \<and> 0 < v then ascii ''STOP''
      else ascii ''CLOSE'')"

definition cached_on :: "(string \<Rightarrow> State option) \<Rightarrow> string \<Rightarrow> bool" where
  "cached_on state i \<longleftrightarrow> (\<exists>s. state i = Some s \<and> On s = Some True)"

lemma coverTx_payload:
  "coverTx dev (SetOn i b) = Some \<lparr>tx_topic = ascii (rfd_Base dev) @ ascii ''/blind/'' @ Itoa (rfd_Channel dev) @ ascii ''/set'',
     tx_payload = (if b then ascii ''OPEN'' else ascii ''CLOSE''),
     tx_event = state_event (rfd_ID dev) (zeroState\<lparr>Position := Some (if b then 100 else 0)\<rparr>), tx_cooldown = coolBlindHold\<rparr>"
  "coverTx dev (SetPosition i v) = Some \<lparr>tx_topic = ascii (rfd_Base dev) @ ascii ''/blind/'' @ Itoa (rfd_Channel dev) @ ascii ''/set'',
     tx_payload = (if 100 \<le> v then ascii ''OPEN'' else if v \<le> 0 then ascii ''CLOSE'' else ascii ''STOP''),
     tx_event = state_event (rfd_ID dev) (zeroState\<lparr>Position := Some (if 100 \<le> v then 100 else if v \<le> 0 then 0 else v)\<rparr>),
     tx_cooldown = (if v \<ge> 100 \<or> v \<le> 0 then coolBlindHold else coolBlindStop)\<rparr>"
  by (simp_all add: coverTx_def SetOn_def SetPosition_def value_int_def value_bool_def Let_def)

lemma button_command:
  assumes "action \<in> {''toggle'', ''on'', ''off'', ''open'', ''close'', ''position''}"
  shows "\<exists>cmd. run_button state src press dst action v (button_event src press) = [cmd] \<and> cmd_DeviceID cmd = dst
    \<and> (\<exists>t. coverTx dev cmd = Some t
        \<and> tx_topic t = ascii (rfd_Base dev) @ ascii ''/blind/'' @ Itoa (rfd_Channel dev) @ ascii ''/set''
        \<and> tx_payload t = blind_payload action v (cached_on state dst))"
proof -
  have toggle: "(case state dst of Some s \<Rightarrow> (case On s of Some x \<Rightarrow> x | None \<Rightarrow> False) | None \<Rightarrow> False) = cached_on state dst"
    by (auto simp: cached_on_def split: option.splits)
  have ids: "cmd_DeviceID (SetOn i x) = i" "cmd_DeviceID (SetPosition i q) = i" for i x q
    by (simp_all add: SetOn_def SetPosition_def)
  have result: ?thesis if "run_button state src press dst action v (button_event src press) = [cmd]" "cmd_DeviceID cmd = dst"
    "coverTx dev cmd = Some t" "tx_topic t = ascii (rfd_Base dev) @ ascii ''/blind/'' @ Itoa (rfd_Channel dev) @ ascii ''/set''"
    "tx_payload t = blind_payload action v (cached_on state dst)" for cmd t
    by (intro exI [of _ cmd] exI [of _ t] conjI) (rule that)+
  consider "action = ''toggle''" | "action = ''on''" | "action = ''off''" | "action = ''open''" | "action = ''close''"
    | "action = ''position''"
    using assms by (elim insertE emptyE) (erule that)+
  then show ?thesis
  proof cases
    case 1
    then show ?thesis
      by (intro result [OF _ ids(1) [of dst "\<not> cached_on state dst"] coverTx_payload(1) [of dev dst "\<not> cached_on state dst"]])
        (simp_all add: run_button_def button_event_def toggle blind_payload_def Let_def)
  next
    case 2
    then show ?thesis
      by (intro result [OF _ ids(1) [of dst True] coverTx_payload(1) [of dev dst True]])
        (simp_all add: run_button_def button_event_def blind_payload_def)
  next
    case 3
    then show ?thesis
      by (intro result [OF _ ids(1) [of dst False] coverTx_payload(1) [of dev dst False]])
        (simp_all add: run_button_def button_event_def blind_payload_def)
  next
    case 4
    then show ?thesis
      by (intro result [OF _ ids(2) [of dst 100] coverTx_payload(2) [of dev dst 100]])
        (simp_all add: run_button_def button_event_def blind_payload_def)
  next
    case 5
    then show ?thesis
      by (intro result [OF _ ids(2) [of dst 0] coverTx_payload(2) [of dev dst 0]])
        (simp_all add: run_button_def button_event_def blind_payload_def)
  next
    case 6
    then show ?thesis
      by (intro result [OF _ ids(2) [of dst v] coverTx_payload(2) [of dev dst v]])
        (simp_all add: run_button_def button_event_def blind_payload_def)
  qed
qed

lemma validateRules_each:
  "validateRules i rs byID = None \<Longrightarrow> r \<in> set rs \<Longrightarrow> \<exists>j. validateRule j r byID = None"
  by (induction i rs byID rule: validateRules.induct) (auto split: option.splits)

text \<open>C29: A press goes the whole way: in a validated configuration with a button rule from a Zigbee switch
  to a blind behind the RF bridge, the report of the press by the switch's node becomes a button event, the
  rule answers it with one command, the dispatcher hands the command to the RF adapter, and the adapter
  turns it into the transmission that the action asks for, on the topic of the channel that the configuration
  gives the blind, which is one of the sixteen channels of the remote.\<close>

theorem press_moves_blind:
  assumes "validate c = None" "rc \<in> set (cf_Rules c)" "rc_Type rc = ''button''"
    and "sc \<in> set (cf_Devices c)" "dev_ID (dc_Device sc) = rc_Src rc" "zigbee_at (dc_Device sc) addr"
    and "dc \<in> set (cf_Devices c)" "dev_ID (dc_Device dc) = rc_Dst rc" "dev_Integration (dc_Device dc) = RF"
      "dev_Type (dc_Device dc) = TypeCover"
    and "set devs = dc_Device ` set (cf_Devices c)" "gangs_distinct (set devs)"
    and "msg = \<lparr>am_Cluster = multistateCluster, am_Source = deviceEndpoint (dc_Device sc), am_Destination = adapterEndpt,
      am_Data = report_frame fc tsn 0x0055 (0x21 # le_bytes 2 (press_code (rc_Press rc)) @ rest)\<rparr>"
  shows "\<exists>e rule cmd t rf ch. handleIncoming devs addr msg = Some e \<and> rule_of rc = Some [rule]
    \<and> fst (run_rule state rule e) = [cmd]
    \<and> dispatch_command (load_registry (cf_Devices c)) (matter_ids (cf_Devices c)) cmd = [ToAdapter RF cmd]
    \<and> rf_translate (NewRf (rf_devices (cf_Devices c))) cmd = Inr (Some t)
    \<and> dc_RF dc = Some rf \<and> rf_Channel rf = Some ch \<and> 0 \<le> ch \<and> ch \<le> 15
    \<and> tx_topic t = ascii (dev_Addr (dc_Device dc)) @ ascii ''/blind/'' @ Itoa ch @ ascii ''/set''
    \<and> tx_payload t = blind_payload (rc_Action rc) (rc_Value rc) (cached_on state (rc_Dst rc))"
proof -
  obtain m where "validateRules 0 (cf_Rules c) m = None"
    using assms(1) by (auto simp: validate_def split: sum.splits)
  from validateRules_each [OF this assms(2)] obtain j where m: "validateRule j rc m = None" by blast
  have press: "rc_Press rc \<in> {''single'', ''double'', ''hold''}"
    and action: "rc_Action rc \<in> {''toggle'', ''on'', ''off'', ''open'', ''close'', ''position''}"
    using m assms(3) by (auto simp: validateRule_def split: option.splits if_splits)
  have "deviceIDByAddr devs addr (deviceEndpoint (dc_Device sc)) = rc_Src rc"
    using deviceIDByAddr_gang [OF assms(12), of "dc_Device sc" addr] assms(4,5,6,11) by auto
  moreover have "rc_Src rc \<noteq> ''''" using configured(2) [OF assms(1,4)] assms(5) by simp
  moreover have "parseMultistatePress (am_Data msg) = Some (rc_Press rc)"
    using press by (auto simp: assms(13) parseMultistatePress_frame press_code_def)
  ultimately have e: "handleIncoming devs addr msg = Some (button_event (rc_Src rc) (rc_Press rc))"
    by (simp add: handleIncoming_def assms(13) Let_def)
  let ?rule = "ButtonRule (rc_Src rc) (rc_Press rc) (rc_Dst rc) (rc_Action rc) (rc_Value rc)"
  have rule: "rule_of rc = Some [?rule]" using assms(3) by (simp add: rule_of_def)
  obtain cmd t where cmd: "run_button state (rc_Src rc) (rc_Press rc) (rc_Dst rc) (rc_Action rc) (rc_Value rc)
      (button_event (rc_Src rc) (rc_Press rc)) = [cmd]" "cmd_DeviceID cmd = rc_Dst rc"
    and t: "coverTx (rf_device_of dc) cmd = Some t"
      "tx_topic t = ascii (rfd_Base (rf_device_of dc)) @ ascii ''/blind/'' @ Itoa (rfd_Channel (rf_device_of dc)) @ ascii ''/set''"
      "tx_payload t = blind_payload (rc_Action rc) (rc_Value rc) (cached_on state (rc_Dst rc))"
    using button_command [OF action, of state "rc_Src rc" "rc_Press rc" "rc_Dst rc" "rc_Value rc" "rf_device_of dc"]
    by blast
  have "dispatch_command (load_registry (cf_Devices c)) (matter_ids (cf_Devices c)) cmd = [ToAdapter RF cmd]"
    using configured(3) [OF assms(1,7)] assms(8,9) cmd(2) by (simp add: dispatch_command_def owner_def)
  moreover have "rf_translate (NewRf (rf_devices (cf_Devices c))) cmd = Inr (Some t)"
    using configured(4) [OF assms(1,7,9)] assms(8,10) cmd(2) t(1)
    by (simp add: rf_translate_def) (simp add: rf_device_of_def)
  moreover obtain rf ch where "dc_RF dc = Some rf" "rf_Channel rf = Some ch" "0 \<le> ch" "ch \<le> 15"
    using configured(1) [OF assms(1,7)] assms(9,10)
    by (auto simp: validateDevice_def validateRFDevice_def Let_def split: if_splits option.splits)
  moreover from this have "rfd_Channel (rf_device_of dc) = ch" by (simp add: rf_device_of_def)
  moreover have "fst (run_rule state ?rule (button_event (rc_Src rc) (rc_Press rc))) = [cmd]"
    using cmd(1) by (simp add: ButtonRule_def)
  moreover have "rfd_Base (rf_device_of dc) = dev_Addr (dc_Device dc)" by (simp add: rf_device_of_def)
  ultimately show ?thesis using e rule t(2,3) by metis
qed

section \<open>Toggling a blind\<close>

text \<open>What the cache holds of a device after the optimistic events of a blind.\<close>

definition reflect :: "Registry \<Rightarrow> Event list \<Rightarrow> Registry" where
  "reflect r es = foldl (\<lambda>r e. Registry_SetState r (ev_DeviceID e) (ev_State e)) r es"

lemma coverTx_event: "coverTx dev cmd = Some t \<Longrightarrow> On (ev_State (tx_event t)) = None"
  by (auto simp: coverTx_def state_event_def zeroState_def Let_def split: Action.splits if_splits)

lemma reflect_on:
  "\<forall>e\<in>set es. On (ev_State e) = None \<Longrightarrow> cached_on (Registry_State (reflect r es)) i = cached_on (Registry_State r) i"
proof (induction es arbitrary: r)
  case (Cons e es)
  let ?r = "Registry_SetState r (ev_DeviceID e) (ev_State e)"
  have "On (ev_State e) = None" using Cons.prems by simp
  then have "cached_on (Registry_State ?r) i = cached_on (Registry_State r) i"
    by (cases "r (ev_DeviceID e)")
      (auto simp: Registry_SetState_def Registry_State_def cached_on_def Let_def split: option.splits)
  with Cons.IH [of ?r] Cons.prems show ?case by (simp add: reflect_def)
qed (simp add: reflect_def)

lemma Registry_Add_off:
  "foldl Registry_Add r xs i = Some e \<Longrightarrow> \<forall>j z. r j = Some z \<longrightarrow> On (ent_state z) = None \<Longrightarrow> On (ent_state e) = None"
proof (induction xs arbitrary: r)
  case (Cons x xs)
  have "\<forall>j z. Registry_Add r x j = Some z \<longrightarrow> On (ent_state z) = None"
    using Cons.prems(2) by (auto simp: Registry_Add_def zeroState_def split: option.splits if_splits)
  with Cons.IH [of "Registry_Add r x"] Cons.prems(1) show ?case by simp
qed auto

text \<open>C31: A toggle rule on a blind only ever opens it: the adapter reports positions and no on-state, so
  however often the blind was driven before, the rule finds it off and sends \<^verbatim>\<open>OPEN\<close> again.\<close>

theorem blind_toggle_only_opens:
  assumes "\<forall>e\<in>set es. \<exists>dev cmd t. coverTx dev cmd = Some t \<and> e = tx_event t"
  shows "\<exists>cmd t. run_button (Registry_State (reflect (load_registry ds) es)) src press dst ''toggle'' v
      (button_event src press) = [cmd]
    \<and> coverTx dev cmd = Some t \<and> tx_payload t = ascii ''OPEN''"
proof -
  have "\<not> cached_on (Registry_State (load_registry ds)) i" for i
    using Registry_Add_off [of NewRegistry "List.map dc_Device ds" i]
    by (auto simp: cached_on_def Registry_State_def load_registry_def NewRegistry_def)
  moreover have "\<forall>e\<in>set es. On (ev_State e) = None"
  proof
    fix e assume "e \<in> set es"
    with assms obtain dev cmd t where "coverTx dev cmd = Some t" "e = tx_event t" by blast
    with coverTx_event show "On (ev_State e) = None" by simp
  qed
  ultimately have "\<not> cached_on (Registry_State (reflect (load_registry ds) es)) dst"
    using reflect_on by blast
  with button_command [of "''toggle''" "Registry_State (reflect (load_registry ds) es)" src press dst v dev]
  show ?thesis by (auto simp: blind_payload_def)
qed

section \<open>An example\<close>

text \<open>A switch with two gangs, and the blind that the second one opens.\<close>

definition example_gang :: "string \<Rightarrow> u8 \<Rightarrow> DeviceConfig" where
  "example_gang i ep = \<lparr>dc_Device = \<lparr>dev_ID = i, dev_Name = i, dev_Integration = Zigbee, dev_Type = TypeSwitch,
       dev_Addr = ''0x00158D0000000001'', dev_Endpoint = ep, dev_Decoupled = True, dev_Features = []\<rparr>,
     dc_Driver = '''', dc_Triggers = (\<lambda>_. None), dc_GoMatter = None, dc_RF = None\<rparr>"

definition example_press_rule :: RuleConfig where
  "example_press_rule = \<lparr>rc_Type = ''button'', rc_Src = ''right'', rc_Dst = ''blind'', rc_Press = ''single'',
     rc_Action = ''open'', rc_Value = 0, rc_States = [], rc_Power = '''', rc_Above = None, rc_Below = None\<rparr>"

definition example_home :: ConfigFile where
  "example_home = \<lparr>cf_Devices = [example_gang ''left'' 1, example_gang ''right'' 2, example_blind],
     cf_Rules = [example_press_rule]\<rparr>"

lemma example_addr: "parseIEEE ''0x00158D0000000001'' = Some 0x00158D0000000001"
  by (simp add: parseIEEE_def CutPrefix_def lower_def hex_digit_def Let_def)

lemma example_home_valid: "validate example_home = None"
  by (simp add: validate_def validateDevice_def validateRFDevice_def validateRule_def validTypes_def example_home_def
      example_gang_def example_blind_def example_press_rule_def Let_def)

lemma example_gangs: "gangs_distinct (dc_Device ` set (cf_Devices example_home))"
  by (auto simp: gangs_distinct_def zigbee_at_def example_home_def example_gang_def example_blind_def deviceEndpoint_def)

definition example_devices :: "Device list" where
  "example_devices = List.map dc_Device (cf_Devices example_home)"

lemma example_devices_simps:
  "set example_devices = dc_Device ` set (cf_Devices example_home)" "set (rev example_devices) = set example_devices"
  by (simp_all add: example_devices_def)

lemma example_gang_device:
  "dc_Device (example_gang i ep) = \<lparr>dev_ID = i, dev_Name = i, dev_Integration = Zigbee, dev_Type = TypeSwitch,
       dev_Addr = ''0x00158D0000000001'', dev_Endpoint = ep, dev_Decoupled = True, dev_Features = []\<rparr>"
  by (simp add: example_gang_def)

theorem zigbee_gang_routing_witness:
  "deviceIDByAddr (rev example_devices) 0x00158D0000000001 2 = deviceIDByAddr example_devices 0x00158D0000000001 2
    \<and> deviceIDByAddr example_devices 0x00158D0000000001 2 = ''right''"
proof -
  let ?d = "dc_Device (example_gang ''right'' 2)"
  have d: "?d \<in> set example_devices" by (simp add: example_devices_def example_home_def)
  have at: "zigbee_at ?d 0x00158D0000000001" "deviceEndpoint ?d = 2" "dev_ID ?d = ''right''"
    by (simp_all add: example_gang_device zigbee_at_def example_addr deviceEndpoint_def)
  have "gangs_distinct (set example_devices)" unfolding example_devices_simps(1) by (rule example_gangs)
  note r = zigbee_gang_routing [OF this example_devices_simps(2), of "0x00158D0000000001" 2]
  from r [THEN conjunct2, THEN conjunct1, rule_format, OF d conjI [OF at(1,2)]] r [THEN conjunct1] at(3)
  show ?thesis by metis
qed

theorem press_moves_blind_witness:
  "\<exists>e cmd t rf ch. handleIncoming example_devices 0x00158D0000000001
      \<lparr>am_Cluster = multistateCluster, am_Source = 2, am_Destination = adapterEndpt,
        am_Data = report_frame 0x18 7 0x0055 (0x21 # le_bytes 2 (1 :: u16))\<rparr> = Some e
    \<and> rf_translate (NewRf (rf_devices (cf_Devices example_home))) cmd = Inr (Some t)
    \<and> dc_RF example_blind = Some rf \<and> rf_Channel rf = Some ch
    \<and> tx_topic t = ascii (dev_Addr (dc_Device example_blind)) @ ascii ''/blind/'' @ Itoa ch @ ascii ''/set''
    \<and> tx_payload t = ascii ''OPEN''"
proof -
  have "zigbee_at (dc_Device (example_gang ''right'' 2)) 0x00158D0000000001"
    by (simp add: zigbee_at_def example_gang_device example_addr)
  moreover have "gangs_distinct (set example_devices)" unfolding example_devices_simps(1) by (rule example_gangs)
  ultimately obtain e rule cmd t rf ch where "handleIncoming example_devices 0x00158D0000000001
      \<lparr>am_Cluster = multistateCluster, am_Source = deviceEndpoint (dc_Device (example_gang ''right'' 2)),
        am_Destination = adapterEndpt,
        am_Data = report_frame 0x18 7 0x0055 (0x21 # le_bytes 2 (press_code (rc_Press example_press_rule)) @ [])\<rparr> = Some e"
    "rf_translate (NewRf (rf_devices (cf_Devices example_home))) cmd = Inr (Some t)"
    "dc_RF example_blind = Some rf" "rf_Channel rf = Some ch"
    "tx_topic t = ascii (dev_Addr (dc_Device example_blind)) @ ascii ''/blind/'' @ Itoa ch @ ascii ''/set''"
    "tx_payload t = blind_payload (rc_Action example_press_rule) (rc_Value example_press_rule) (cached_on (\<lambda>_. None) (rc_Dst example_press_rule))"
    using press_moves_blind [where rc = example_press_rule and sc = "example_gang ''right'' 2" and addr = "0x00158D0000000001"
        and dc = example_blind and fc = "0x18" and tsn = 7 and rest = "[]" and state = "\<lambda>_. None", OF example_home_valid _ _ _ _ _ _ _ _ _ example_devices_simps(1) _ refl]
    by (auto simp: example_home_def example_press_rule_def example_gang_device example_blind_def)
  then show ?thesis
    by (auto simp: example_gang_device deviceEndpoint_def press_code_def example_press_rule_def blind_payload_def)
qed

definition example_motor :: Device where
  "example_motor = \<lparr>dev_ID = ''motor'', dev_Name = ''Motor'', dev_Integration = Zigbee, dev_Type = TypeCover,
     dev_Addr = ''0x00158D0000000001'', dev_Endpoint = 0, dev_Decoupled = False, dev_Features = []\<rparr>"

definition example_driver :: ZDriver where
  "example_driver = \<lparr>zd_ready = True, zd_reg = Registry_Add NewRegistry example_motor, zd_seq = 0xFF, zd_sent = []\<rparr>"

theorem zigbee_position_echo_witness:
  "\<exists>msg lift d'. Zigbee_Apply True example_driver (SetPosition ''motor'' 130) = (None, d')
    \<and> zd_sent d' = [(0x00158D0000000001, msg)] \<and> am_Data msg = [0x01, 0x00, covCmdGoToLift, lift]
    \<and> handleIncoming [example_motor] 0x00158D0000000001 \<lparr>am_Cluster = covCluster, am_Source = am_Destination msg,
         am_Destination = adapterEndpt, am_Data = report_frame 0x18 1 covAttrLiftPercentage [0x20, lift]\<rparr>
       = Some (state_event ''motor'' (zeroState\<lparr>Position := Some 100\<rparr>))"
proof -
  let ?d' = "snd (Zigbee_Apply True example_driver (SetPosition ''motor'' 130))"
  have addr: "parseIEEE (dev_Addr example_motor) = Some 0x00158D0000000001" by (simp add: example_motor_def example_addr)
  have reg: "Registry_Get (zd_reg example_driver) ''motor'' = Some example_motor"
    by (simp add: example_driver_def Registry_Get_def Registry_Add_def NewRegistry_def) (simp add: example_motor_def)
  have run: "Zigbee_Apply True example_driver (SetPosition ''motor'' 130) = (None, ?d')"
    using reg addr
    by (auto simp: Zigbee_Apply_def SetPosition_def zcl_of_command_def zclCommand_def Let_def example_driver_def)
  have "gangs_distinct (set [example_motor])" by (simp add: gangs_distinct_def)
  from zigbee_position_echo [OF run reg _ _ _ _ this, where fc = "0x18" and tsn = 1 and rest = "[]"]
  obtain msg lift where "zd_sent ?d' = zd_sent example_driver @ [(0x00158D0000000001, msg)]"
    "am_Data msg = [0x01, zd_seq example_driver + 1, covCmdGoToLift, lift]"
    "handleIncoming [example_motor] 0x00158D0000000001 \<lparr>am_Cluster = covCluster, am_Source = am_Destination msg,
         am_Destination = adapterEndpt, am_Data = report_frame 0x18 1 covAttrLiftPercentage [0x20, lift]\<rparr>
       = Some (state_event ''motor'' (zeroState\<lparr>Position := Some (clamp_percent 130)\<rparr>))"
    unfolding addr by (auto simp: example_motor_def)
  with run show ?thesis
    by (intro exI [of _ msg] exI [of _ lift] exI [of _ ?d'])
      (simp add: example_driver_def clamp_percent_def)
qed

definition example_rf_blind :: RfDevice where
  "example_rf_blind = rf_device_of example_blind"

theorem blind_toggle_only_opens_witness:
  "\<exists>cmd t. run_button (Registry_State (reflect (load_registry [example_blind])
        [tx_event (the (coverTx example_rf_blind (SetOn ''blind'' True)))]))
      ''right'' ''single'' ''blind'' ''toggle'' 0 (button_event ''right'' ''single'') = [cmd]
    \<and> coverTx example_rf_blind cmd = Some t \<and> tx_payload t = ascii ''OPEN''"
proof (rule blind_toggle_only_opens)
  show "\<forall>e\<in>set [tx_event (the (coverTx example_rf_blind (SetOn ''blind'' True)))].
      \<exists>dev cmd t. coverTx dev cmd = Some t \<and> e = tx_event t"
    by (auto simp: coverTx_payload intro!: exI [of _ example_rf_blind] exI [of _ "SetOn ''blind'' True"])
qed

end
