(* ===== verification/Mqtt.thy ===== *)
theory Mqtt
  imports Adapter Go_Strings
begin

text \<open>
  The MQTT adapter (\<^verbatim>\<open>internal/mqtt/driver.go\<close>): commands to the payloads of a device's set-topic,
  payloads on its state-topic to bus events. The broker and the JSON library are outside: a payload is
  the structure that the code marshals or that unmarshalling gave, and what a publication returns is a
  parameter.
\<close>

section \<open>Payloads and topics\<close>

record statePayload =
  sp_On :: "bool option"
  sp_Position :: "int option"
  sp_Level :: "int option"
  sp_Value :: "u64 option"
  sp_ColorTemp :: "int option"
  sp_Hue :: "u64 option"
  sp_Sat :: "u64 option"
  sp_Direction :: "int option"

record setPayload =
  set_On :: "bool option"
  set_Position :: "int option"
  set_Level :: "int option"
  set_ColorTemp :: "int option"
  set_Hue :: "u64 option"
  set_Sat :: "u64 option"
  set_Direction :: "int option"

definition zeroSetPayload :: setPayload where
  "zeroSetPayload = \<lparr>set_On = None, set_Position = None, set_Level = None, set_ColorTemp = None,
     set_Hue = None, set_Sat = None, set_Direction = None\<rparr>"

definition topicBase :: "Device \<Rightarrow> string" where
  "topicBase dev = (if dev_Addr dev \<noteq> '''' then dev_Addr dev else ''home/'' @ dev_ID dev)"

section \<open>Operations\<close>

record MqttDriver =
  mq_reg :: Registry
  mq_published :: "(string \<times> setPayload) list"

datatype mqtt_error = MqttUnknownDevice string | PublishFailed

text \<open>The \<^verbatim>\<open>switch\<close> of \<^verbatim>\<open>Apply\<close>; every action of the domain has a case.\<close>

definition set_payload :: "Command \<Rightarrow> setPayload" where
  "set_payload cmd =
     (case cmd_Action cmd of
        ActionSetOn \<Rightarrow> zeroSetPayload\<lparr>set_On := Some (value_bool cmd)\<rparr>
      | ActionSetPosition \<Rightarrow> zeroSetPayload\<lparr>set_Position := Some (value_int cmd)\<rparr>
      | ActionSetLevel \<Rightarrow> zeroSetPayload\<lparr>set_Level := Some (value_int cmd)\<rparr>
      | ActionSetColorTemp \<Rightarrow> zeroSetPayload\<lparr>set_ColorTemp := Some (value_int cmd)\<rparr>
      | ActionSetColor \<Rightarrow>
          (let hs = value_huesat cmd in
           zeroSetPayload\<lparr>set_Hue := Some (fst hs), set_Sat := Some (snd hs)\<rparr>)
      | ActionSetDirection \<Rightarrow> zeroSetPayload\<lparr>set_Direction := Some (value_int cmd)\<rparr>)"

definition Mqtt_Apply :: "bool \<Rightarrow> MqttDriver \<Rightarrow> Command \<Rightarrow> mqtt_error option \<times> MqttDriver" where
  "Mqtt_Apply ok d cmd =
     (case Registry_Get (mq_reg d) (cmd_DeviceID cmd) of
        None \<Rightarrow> (Some (MqttUnknownDevice (cmd_DeviceID cmd)), d)
      | Some dev \<Rightarrow>
          (if ok then None else Some PublishFailed,
           d\<lparr>mq_published := mq_published d @ [(topicBase dev @ ''/set'', set_payload cmd)]\<rparr>))"

interpretation mqtt: adapter "Mqtt_Apply ok" "\<lambda>d i. Registry_Get (mq_reg d) i \<noteq> None"
  by unfold_locales (auto simp: Mqtt_Apply_def split: option.splits)

text \<open>What \<^verbatim>\<open>onState\<close> publishes for a payload; None is one that is no JSON of the structure.\<close>

definition onState :: "string \<Rightarrow> statePayload option \<Rightarrow> Event option" where
  "onState i payload =
     (case payload of
        None \<Rightarrow> None
      | Some p \<Rightarrow>
          if sp_On p = None \<and> sp_Position p = None \<and> sp_Level p = None \<and> sp_Value p = None
             \<and> sp_ColorTemp p = None \<and> sp_Hue p = None \<and> sp_Sat p = None \<and> sp_Direction p = None
          then None
          else Some (state_event i \<lparr>On = sp_On p, Position = sp_Position p, Level = sp_Level p, Value = sp_Value p,
                 ColorTemp = sp_ColorTemp p, Hue = sp_Hue p, Sat = sp_Sat p, Direction = sp_Direction p\<rparr>))"

text \<open>The subscriptions that \<^verbatim>\<open>Start\<close> makes, in the order in which Go walks the registry.\<close>

definition mqtt_subscriptions :: "Device list \<Rightarrow> (string \<times> string) list" where
  "mqtt_subscriptions devs =
     List.map (\<lambda>dev. (topicBase dev @ ''/state'', dev_ID dev)) (filter (\<lambda>dev. dev_Integration dev = MQTT) devs)"

text \<open>The events for a message that the broker takes on a topic.\<close>

definition mqtt_incoming :: "Device list \<Rightarrow> string \<Rightarrow> statePayload option \<Rightarrow> Event list" where
  "mqtt_incoming devs topic payload =
     List.map_filter (\<lambda>(t, i). if t = topic then onState i payload else None) (mqtt_subscriptions devs)"

section \<open>What a device answers\<close>

text \<open>A device that reports back what it was told.\<close>

definition echo_payload :: "setPayload \<Rightarrow> statePayload" where
  "echo_payload p = \<lparr>sp_On = set_On p, sp_Position = set_Position p, sp_Level = set_Level p, sp_Value = None,
     sp_ColorTemp = set_ColorTemp p, sp_Hue = set_Hue p, sp_Sat = set_Sat p, sp_Direction = set_Direction p\<rparr>"

text \<open>The state that a command asks for.\<close>

definition commanded_state :: "Command \<Rightarrow> State" where
  "commanded_state cmd =
     (case cmd_Action cmd of
        ActionSetOn \<Rightarrow> zeroState\<lparr>On := Some (value_bool cmd)\<rparr>
      | ActionSetPosition \<Rightarrow> zeroState\<lparr>Position := Some (value_int cmd)\<rparr>
      | ActionSetLevel \<Rightarrow> zeroState\<lparr>Level := Some (value_int cmd)\<rparr>
      | ActionSetColorTemp \<Rightarrow> zeroState\<lparr>ColorTemp := Some (value_int cmd)\<rparr>
      | ActionSetColor \<Rightarrow> zeroState\<lparr>Hue := Some (fst (value_huesat cmd)), Sat := Some (snd (value_huesat cmd))\<rparr>
      | ActionSetDirection \<Rightarrow> zeroState\<lparr>Direction := Some (value_int cmd)\<rparr>)"

lemma onState_echo: "onState i (Some (echo_payload (set_payload cmd))) = Some (state_event i (commanded_state cmd))"
  by (cases "cmd_Action cmd")
    (simp_all add: onState_def echo_payload_def set_payload_def commanded_state_def zeroSetPayload_def zeroState_def Let_def)

lemma map_filter_one:
  assumes "x \<in> set xs" "f x = Some y" "\<forall>z\<in>set xs. z \<noteq> x \<longrightarrow> f z = None" "distinct xs"
  shows "List.map_filter f xs = [y]"
proof -
  obtain a b where xs: "xs = a @ x # b" using assms(1) by (auto dest: split_list)
  with assms(3,4) have "List.map_filter f a = []" "List.map_filter f b = []"
    by (auto simp: List.map_filter_def filter_empty_conv)
  with xs assms(2) show ?thesis by (simp add: List.map_filter_def)
qed

text \<open>What a command sets, the device reports, and the bus gets: for every action and whatever the order
  of the subscriptions, a device that answers a command on its own state-topic with what it was told gives
  exactly one event, for that device, whose state is the commanded one.\<close>

theorem mqtt_echo:
  assumes "Mqtt_Apply ok d cmd = (None, d')" "Registry_Get (mq_reg d) (cmd_DeviceID cmd) = Some dev"
    and "dev \<in> set devs" "dev_Integration dev = MQTT" "dev_ID dev = cmd_DeviceID cmd"
    and "distinct (List.map topicBase (filter (\<lambda>dev. dev_Integration dev = MQTT) devs))"
  shows "\<exists>p. mq_published d' = mq_published d @ [(topicBase dev @ ''/set'', p)]
    \<and> mqtt_incoming devs (topicBase dev @ ''/state'') (Some (echo_payload p))
      = [state_event (cmd_DeviceID cmd) (commanded_state cmd)]"
proof -
  have pub: "mq_published d' = mq_published d @ [(topicBase dev @ ''/set'', set_payload cmd)]"
    using assms(1,2) by (auto simp: Mqtt_Apply_def)
  let ?subs = "mqtt_subscriptions devs"
  have keys: "List.map fst ?subs = List.map (\<lambda>b. b @ ''/state'')
      (List.map topicBase (filter (\<lambda>dev. dev_Integration dev = MQTT) devs))"
    by (simp add: mqtt_subscriptions_def)
  have d: "distinct (List.map fst ?subs)"
    unfolding keys by (subst distinct_map) (intro conjI assms(6), simp add: inj_on_def)
  have s: "(topicBase dev @ ''/state'', dev_ID dev) \<in> set ?subs"
    using assms(3,4) by (auto simp: mqtt_subscriptions_def)
  then have "\<forall>z\<in>set ?subs. z \<noteq> (topicBase dev @ ''/state'', dev_ID dev) \<longrightarrow> fst z \<noteq> topicBase dev @ ''/state''"
    using d by (metis eq_key_imp_eq_value prod.collapse)
  then have "mqtt_incoming devs (topicBase dev @ ''/state'') (Some (echo_payload (set_payload cmd)))
      = [state_event (dev_ID dev) (commanded_state cmd)]"
    unfolding mqtt_incoming_def
    by (intro map_filter_one [OF s]) (use d onState_echo in \<open>auto simp: distinct_map\<close>)
  with pub assms(5) show ?thesis by metis
qed

end
