(* ===== verification/Matter_Driver.thy ===== *)
theory Matter_Driver
  imports Cluster Exchange Adapter "HOL-Library.Sublist"
begin

text \<open>
  The hub's Matter drivers (\<^verbatim>\<open>internal/matter\<close>): the driver of a natively controlled window covering
  on a session of the controller, the driver that dials again when the session is dead, the poller and
  the watcher that turn lift positions into bus events, and the driver that delegates to HomeKit. A dial
  is a parameter: what the next dial gives is taken from the state \<open>'w\<close>.

  The code computes lift percentages as \<^verbatim>\<open>float64\<close>. The percentages it is called with are integers and
  the reports have at most 16 bits, for which \<open>100 * p\<close> and the quotient by 100 that is cut to an integer
  are exact, so the model computes with integers.
\<close>

section \<open>Window covering commands with a percentage (go-matter/cluster/windowcovering.go)\<close>

definition GoToLiftPercentage :: "u16 \<Rightarrow> int \<Rightarrow> derror + InvokeCommand" where
  "GoToLiftPercentage endpoint percent =
     (if percent < 0 \<or> percent > 100 then Inl (Msg ''cluster: lift percent out of range'')
      else command_of endpoint WindowCoveringID 0x05
             (Writer_PutUint NewWriter (Context 0) (word_of_int (percent * 100))))"

text \<open>The hundredths that the report carries, which the code divides by 100.\<close>

definition DecodeLift100ths :: "bytes \<Rightarrow> derror + u64" where
  "DecodeLift100ths data =
     (case Reader_Next (NewReader data) of
        (False, r) \<Rightarrow>
          (case r_err r of
             Some e \<Rightarrow> Inl (TlvErr e)
           | None \<Rightarrow> Inl (Msg ''cluster: empty lift position report''))
      | (True, r) \<Rightarrow>
          if Reader_Type r = TypeNull then Inl ErrNull else map_sum TlvErr id (Reader_Uint r))"

text \<open>\<^verbatim>\<open>100 - int(pct)\<close>: percent-open from the covering's percent-closed.\<close>

definition domain_position :: "u64 \<Rightarrow> int" where
  "domain_position v = 100 - uint v div 100"

section \<open>The driver on a session\<close>

datatype matter_error = MDial | MCtl ctl_error | MStatus u8 | MCluster derror | MUnsupported

record GoMatterDriver =
  gd_session :: Conversation
  gd_endpoint :: u16

type_synonym 'a drv_op = "GoMatterDriver \<Rightarrow> (matter_error + 'a) \<times> GoMatterDriver"

definition drv_invoke :: "InvokeCommand \<Rightarrow> unit drv_op" where
  "drv_invoke cmd d =
     (case Invoke cmd (gd_session d) of
        (Inl e, s) \<Rightarrow> (Inl (MCtl e), d\<lparr>gd_session := s\<rparr>)
      | (Inr res, s) \<Rightarrow>
          (let d = d\<lparr>gd_session := s\<rparr> in
           case ir_Status res of
             Some st \<Rightarrow> if cs_Status st \<noteq> 0 then (Inl (MStatus (cs_Status st)), d) else (Inr (), d)
           | None \<Rightarrow> (Inr (), d)))"

definition drv_Open :: "unit drv_op" where
  "drv_Open d = drv_invoke (UpOrOpen (gd_endpoint d)) d"

definition drv_Close :: "unit drv_op" where
  "drv_Close d = drv_invoke (DownOrClose (gd_endpoint d)) d"

definition drv_SetLiftPercent :: "int \<Rightarrow> unit drv_op" where
  "drv_SetLiftPercent p d =
     (case GoToLiftPercentage (gd_endpoint d) (100 - p) of
        Inl e \<Rightarrow> (Inl (MCluster e), d)
      | Inr cmd \<Rightarrow> drv_invoke cmd d)"

definition drv_LiftPercent :: "int drv_op" where
  "drv_LiftPercent d =
     (case ReadAttribute (LiftPositionAttribute (gd_endpoint d)) (gd_session d) of
        (Inl e, s) \<Rightarrow> (Inl (MCtl e), d\<lparr>gd_session := s\<rparr>)
      | (Inr rep, s) \<Rightarrow>
          (let d = d\<lparr>gd_session := s\<rparr> in
           case DecodeLift100ths (rep_Data rep) of
             Inl e \<Rightarrow> (Inl (MCluster e), d)
           | Inr v \<Rightarrow> (Inr (domain_position v), d)))"

text \<open>What \<^verbatim>\<open>applyMatter\<close> asks of the driver.\<close>

definition drv_call :: "matter_call \<Rightarrow> unit drv_op" where
  "drv_call c = (case c of Open \<Rightarrow> drv_Open | Close \<Rightarrow> drv_Close | SetLiftPercent p \<Rightarrow> drv_SetLiftPercent p)"

section \<open>Dialling again\<close>

text \<open>\<open>rd_world\<close> is what dials draw from.\<close>

record ('d, 'w) Reconnecting =
  rd_drv :: "'d option"
  rd_world :: 'w

type_synonym ('d, 'w) dial = "'w \<Rightarrow> (matter_error + 'd) \<times> 'w"

definition rd_driver :: "('d, 'w) dial \<Rightarrow> ('d, 'w) Reconnecting \<Rightarrow> (matter_error + 'd) \<times> ('d, 'w) Reconnecting" where
  "rd_driver dial r =
     (case rd_drv r of
        Some d \<Rightarrow> (Inr d, r)
      | None \<Rightarrow>
          (case dial (rd_world r) of
             (Inl e, w) \<Rightarrow> (Inl e, r\<lparr>rd_world := w\<rparr>)
           | (Inr d, w) \<Rightarrow> (Inr d, r\<lparr>rd_drv := Some d, rd_world := w\<rparr>)))"

definition rd_drop :: "('d, 'w) Reconnecting \<Rightarrow> ('d, 'w) Reconnecting" where
  "rd_drop r = r\<lparr>rd_drv := None\<rparr>"

text \<open>\<^verbatim>\<open>do\<close>: at most two attempts, the second on a new session.\<close>

definition rd_do :: "('d, 'w) dial \<Rightarrow> ('d \<Rightarrow> (matter_error + 'a) \<times> 'd) \<Rightarrow> ('d, 'w) Reconnecting
    \<Rightarrow> (matter_error + 'a) \<times> ('d, 'w) Reconnecting" where
  "rd_do dial op r =
     (case rd_driver dial r of
        (Inl e, r) \<Rightarrow> (Inl e, r)
      | (Inr d, r) \<Rightarrow>
          (case op d of
             (Inr a, d) \<Rightarrow> (Inr a, r\<lparr>rd_drv := Some d\<rparr>)
           | (Inl firstErr, d) \<Rightarrow>
               if firstErr = MCluster ErrNull then (Inl firstErr, r\<lparr>rd_drv := Some d\<rparr>)
               else
                 (case rd_driver dial (rd_drop r) of
                    (Inl _, r) \<Rightarrow> (Inl firstErr, r)
                  | (Inr d, r) \<Rightarrow>
                      (case op d of
                         (Inr a, d) \<Rightarrow> (Inr a, r\<lparr>rd_drv := Some d\<rparr>)
                       | (Inl e, d) \<Rightarrow> (Inl e, rd_drop r)))))"

section \<open>From positions to events\<close>

definition position_event :: "string \<Rightarrow> int \<Rightarrow> Event" where
  "position_event i p = state_event i (zeroState\<lparr>Position := Some p\<rparr>)"

text \<open>One device of \<^verbatim>\<open>pollOnce\<close>: \<open>reading\<close> is what \<^verbatim>\<open>LiftPercent\<close> gives.\<close>

definition poll_device :: "string \<Rightarrow> matter_error + int \<Rightarrow> (string \<rightharpoonup> int) \<Rightarrow> Event list \<times> (string \<rightharpoonup> int)" where
  "poll_device i reading last_pct =
     (case reading of
        Inl e \<Rightarrow> ([], last_pct)
      | Inr pct \<Rightarrow>
          if last_pct i = Some pct then ([], last_pct)
          else ([position_event i pct], last_pct(i \<mapsto> pct)))"

text \<open>The loop over the identifiers of the registry, in the order in which Go visits them.\<close>

fun pollOnce :: "(string \<times> (matter_error + int)) list \<Rightarrow> (string \<rightharpoonup> int) \<Rightarrow> Event list \<times> (string \<rightharpoonup> int)" where
  "pollOnce [] last_pct = ([], last_pct)"
| "pollOnce ((i, reading) # rs) last_pct =
     (let (es, last_pct) = poll_device i reading last_pct; (es', last_pct) = pollOnce rs last_pct in
      (es @ es', last_pct))"

text \<open>\<^verbatim>\<open>emit\<close> of \<^verbatim>\<open>PublishReports\<close>.\<close>

definition emit_report :: "string \<Rightarrow> AttributeReport \<Rightarrow> Event list" where
  "emit_report deviceID rep =
     (if rep_Status rep \<noteq> None then []
      else case DecodeLift100ths (rep_Data rep) of
        Inl e \<Rightarrow> []
      | Inr v \<Rightarrow> [position_event deviceID (domain_position v)])"

definition PublishReports :: "string \<Rightarrow> AttributeReport list \<Rightarrow> Conversation \<Rightarrow> Event list \<times> Conversation" where
  "PublishReports deviceID initial s =
     (let ((_, reps), s) = Listen s in
      (concat (List.map (emit_report deviceID) initial)
       @ concat (List.map (\<lambda>rs. concat (List.map (emit_report deviceID) rs)) reps), s))"

section \<open>Delegation to HomeKit (internal/matter/matter.go)\<close>

text \<open>What a delegated driver does: the triggers it presses, and an error.\<close>

datatype trigger = PressOpen | PressClose

definition delegated_call :: "matter_call \<Rightarrow> trigger list \<times> matter_error option" where
  "delegated_call c =
     (case c of
        Open \<Rightarrow> ([PressOpen], None)
      | Close \<Rightarrow> ([PressClose], None)
      | SetLiftPercent p \<Rightarrow> ([], Some MUnsupported))"

definition delegated_LiftPercent :: "matter_error + int" where
  "delegated_LiftPercent = Inl MUnsupported"

section \<open>Retries and backoff of the watcher\<close>

text \<open>Seconds; \<open>healthy\<close> says that the stream lived for more than a minute.\<close>

definition next_backoff :: "bool \<Rightarrow> nat \<Rightarrow> nat \<times> nat" where
  "next_backoff healthy_stream backoff =
     (let backoff = (if healthy_stream then 5 else backoff); wait = backoff; backoff = backoff * 2 in
      (wait, if backoff > 300 then 300 else backoff))"

section \<open>Lift positions\<close>

lemma DecodeLift_values:
  "DecodeLift100ths (enc (Prim Anonymous (PUint v))) = Inr v"
  "DecodeLift100ths (enc (Prim Anonymous PNull)) = Inl ErrNull"
proof -
  have first: "\<exists>r. Reader_Next (NewReader (enc e)) = (True, r) \<and> cur r e [] 0"
    if "wf_elem maxDepth e" for e
    using Next_elem [of "NewReader (enc e)" e "[]" 0] NewReader_at [of "enc e"] that by simp
  show "DecodeLift100ths (enc (Prim Anonymous (PUint v))) = Inr v"
    using first [of "Prim Anonymous (PUint v)"]
    by (auto simp: DecodeLift100ths_def cur_get cur_type simp del: enc.simps)
  show "DecodeLift100ths (enc (Prim Anonymous PNull)) = Inl ErrNull"
    using first [of "Prim Anonymous PNull"]
    by (auto simp: DecodeLift100ths_def cur_get cur_type simp del: enc.simps)
qed

text \<open>A position that is asked for is the position that is read back when the covering has reached it.\<close>

theorem lift_roundtrip:
  assumes "0 \<le> p" "p \<le> 100"
  shows "\<exists>v. GoToLiftPercentage e (100 - p)
      = Inr ((bare_command e WindowCoveringID 0x05)\<lparr>ic_Fields := Some (encs [ctx_uint 0 v])\<rparr>)
    \<and> map_sum id domain_position (DecodeLift100ths (enc (Prim Anonymous (PUint v)))) = Inr p"
proof -
  let ?v = "word_of_int ((100 - p) * 100) :: u64"
  have "0 \<le> (100 - p) * 100" "(100 - p) * 100 < 2 ^ LENGTH(64)" using assms by simp_all
  then have "uint ?v = (100 - p) * 100" unfolding uint_word_of_int_eq by (rule take_bit_int_eq_self)
  then have "domain_position ?v = p" by (simp add: domain_position_def)
  moreover have "GoToLiftPercentage e (100 - p)
      = Inr ((bare_command e WindowCoveringID 0x05)\<lparr>ic_Fields := Some (encs [ctx_uint 0 ?v])\<rparr>)"
    using assms by (simp only: GoToLiftPercentage_def build_rules) simp
  ultimately show ?thesis by (intro exI [of _ ?v]) (simp add: DecodeLift_values del: enc.simps)
qed

section \<open>Sessions that die\<close>

text \<open>A session is kept exactly while it works: after a success there is one, after a failure there is none
  unless the value was only unknown; a dead session is replaced within the same call, so that an operation
  that works on the new session succeeds; and no call dials or tries more than twice, since each of the
  attempts is one step of the function.\<close>

theorem reconnecting_sessions:
  assumes "rd_do dial op r = (res, r')"
  shows "(case res of Inr a \<Rightarrow> rd_drv r' \<noteq> None | Inl e \<Rightarrow> e = MCluster ErrNull \<or> rd_drv r' = None)
    \<and> (\<forall>d d' e d2 w a d2'. rd_drv r = Some d \<and> op d = (Inl e, d') \<and> e \<noteq> MCluster ErrNull
        \<and> dial (rd_world r) = (Inr d2, w) \<and> op d2 = (Inr a, d2')
        \<longrightarrow> res = Inr a \<and> r' = r\<lparr>rd_drv := Some d2', rd_world := w\<rparr>)"
  using assms
  by (auto simp: rd_do_def rd_driver_def rd_drop_def split: option.splits sum.splits prod.splits if_splits)

section \<open>What the poller publishes\<close>

text \<open>The readings of a device in a sequence of polls, and the positions published for it.\<close>

definition readings :: "string \<Rightarrow> (string \<times> (matter_error + int)) list \<Rightarrow> int list" where
  "readings i rs = List.map_filter (\<lambda>(j, x). if j = i then (case x of Inl _ \<Rightarrow> None | Inr p \<Rightarrow> Some p) else None) rs"

definition published :: "string \<Rightarrow> Event list \<Rightarrow> Event list" where
  "published i es = filter (\<lambda>e. ev_DeviceID e = i) es"

fun changes :: "int option \<Rightarrow> int list \<Rightarrow> int list" where
  "changes prev [] = []"
| "changes prev (p # ps) = (if prev = Some p then changes prev ps else p # changes (Some p) ps)"

lemma readings_simps [simp]:
  "readings i [] = []"
  "readings i ((j, x) # rs) = (case x of Inr p \<Rightarrow> if j = i then p # readings i rs else readings i rs | Inl _ \<Rightarrow> readings i rs)"
  by (auto simp: readings_def List.map_filter_simps split: sum.split)

lemma pollOnce_published:
  "published i (fst (pollOnce rs m)) = List.map (position_event i) (changes (m i) (readings i rs))"
proof (induction rs arbitrary: m)
  case Nil
  show ?case by (simp add: published_def)
next
  case (Cons p rs)
  obtain j x where p: "p = (j, x)" by force
  have ev: "ev_DeviceID (position_event j q) = j" for j q by (simp add: position_event_def state_event_def)
  show ?case
  proof (cases x)
    case (Inl e)
    with Cons.IH [of m] p show ?thesis by (simp add: poll_device_def split: prod.split)
  next
    case (Inr q)
    show ?thesis
    proof (cases "m j = Some q")
      case True
      with Cons.IH [of m] p Inr show ?thesis by (auto simp: poll_device_def split: prod.split)
    next
      case False
      with Cons.IH [of "m(j \<mapsto> q)"] p Inr show ?thesis
        by (auto simp: poll_device_def published_def ev simp del: fun_upd_apply split: prod.split) (simp_all add: fun_upd_apply)
    qed
  qed
qed

text \<open>The number of polls does not matter, only the sequence of their readings.\<close>

definition poll_all :: "(string \<times> (matter_error + int)) list list \<Rightarrow> (string \<rightharpoonup> int) \<Rightarrow> Event list \<times> (string \<rightharpoonup> int)" where
  "poll_all polls m = foldl (\<lambda>(es, m) rs. let (es', m) = pollOnce rs m in (es @ es', m)) ([], m) polls"

lemma pollOnce_append:
  "pollOnce (rs @ ss) m = (let (es, m) = pollOnce rs m; (es', m) = pollOnce ss m in (es @ es', m))"
  by (induction rs arbitrary: m) (auto simp: Let_def split: prod.split)

lemma poll_all_concat: "poll_all polls m = pollOnce (concat polls) m"
proof (induction polls rule: rev_induct)
  case (snoc rs polls)
  then show ?case by (simp add: poll_all_def pollOnce_append split: prod.split)
qed (simp add: poll_all_def)

lemma changes_remdups: "changes None ps = remdups_adj ps"
proof -
  have step: "remdups_adj (p # qs) = p # changes (Some p) qs" for p qs
    by (induction qs arbitrary: p) simp_all
  show ?thesis by (cases ps) (simp_all add: step del: remdups_adj.simps(3))
qed

text \<open>The poller publishes genuine changes: over any number of polls, whatever reads fail and in whatever
  order the devices are visited, the events for a device carry its successful readings without immediate
  repetitions.\<close>

theorem poller_publishes_changes:
  "published i (fst (poll_all polls (\<lambda>_. None)))
    = List.map (position_event i) (remdups_adj (readings i (concat polls)))"
  by (simp add: poll_all_concat pollOnce_published changes_remdups)

end
