(* ===== verification/Ezsp.thy ===== *)
theory Ezsp
  imports Prelude Go_Strings
begin

text \<open>
  The EmberZNet backend (\<^verbatim>\<open>internal/zigbee/ezsp\<close>): frames (\<^verbatim>\<open>frame.go\<close>), the structures of the
  network commands (\<^verbatim>\<open>network.go\<close>), the demultiplexer of responses and callbacks (\<^verbatim>\<open>driver.go\<close>)
  and the bring-up of the coordinator's network (\<^verbatim>\<open>coordinator.go\<close>).

  What the dongle does is a parameter: the link gives the payloads that the reader receives and the
  moments at which a timer expires or the context is cancelled, in order, and says which sends fail.
  A request sees them as the reader goroutine hands them over: a frame that matches the pending command
  ends the request, every other frame is a callback.
\<close>

section \<open>Frames (frame.go)\<close>

abbreviation IDVersion :: u16 where "IDVersion \<equiv> 0x0000"
abbreviation IDAddEndpoint :: u16 where "IDAddEndpoint \<equiv> 0x0002"
abbreviation IDNetworkInit :: u16 where "IDNetworkInit \<equiv> 0x0017"
abbreviation IDStackStatusHandler :: u16 where "IDStackStatusHandler \<equiv> 0x0019"
abbreviation IDFormNetwork :: u16 where "IDFormNetwork \<equiv> 0x001E"
abbreviation IDLeaveNetwork :: u16 where "IDLeaveNetwork \<equiv> 0x0020"
abbreviation IDPermitJoining :: u16 where "IDPermitJoining \<equiv> 0x0022"
abbreviation IDTrustCenterJoinHandler :: u16 where "IDTrustCenterJoinHandler \<equiv> 0x0024"
abbreviation IDGetNetworkParameters :: u16 where "IDGetNetworkParameters \<equiv> 0x0028"
abbreviation IDSetPolicy :: u16 where "IDSetPolicy \<equiv> 0x0055"
abbreviation IDSetInitialSecurityState :: u16 where "IDSetInitialSecurityState \<equiv> 0x0068"
abbreviation frameControlExtended :: u16 where "frameControlExtended \<equiv> 0x0100"
abbreviation responseBit :: u16 where "responseBit \<equiv> 0x0080"

definition EzCommand :: "u8 \<Rightarrow> u16 \<Rightarrow> bytes \<Rightarrow> bytes" where
  "EzCommand sq i params = sq # le_bytes 2 frameControlExtended @ le_bytes 2 i @ params"

record EFrame =
  ef_Seq :: u8
  ef_Control :: u16
  ef_ID :: u16
  ef_Params :: bytes

definition IsResponse :: "EFrame \<Rightarrow> bool" where
  "IsResponse f = (and (ef_Control f) responseBit \<noteq> 0)"

datatype ez_error = ShortFrame nat | ShortVersion nat | NotVersion byte | ShortParameters nat | ShortJoin nat
  | LinkSend | NoReply u16 u8 | EzCancelled | EmptyResponse | SecurityRejected | FormRejected | LeaveRejected
  | PolicyRejected | PermitRejected | NotUp | NotDown | PanRand | NoPan | KeyRand | OldVersion u8 | StillDown u8

definition DecodeFrame :: "bytes \<Rightarrow> ez_error + EFrame" where
  "DecodeFrame p =
     (if length p < 5 then Inl (ShortFrame (length p))
      else Inr \<lparr>ef_Seq = p ! 0, ef_Control = le_word (take 2 (drop 1 p)), ef_ID = le_word (take 2 (drop 3 p)),
                ef_Params = drop 5 p\<rparr>)"

definition LegacyCommand :: "u8 \<Rightarrow> u8 \<Rightarrow> bytes \<Rightarrow> bytes" where
  "LegacyCommand sq i params = [sq, 0x00, i] @ params"

definition VersionCommand :: "u8 \<Rightarrow> u8 \<Rightarrow> bytes" where
  "VersionCommand sq desiredVersion = LegacyCommand sq (ucast IDVersion) [desiredVersion]"

record VersionResponse =
  vr_ProtocolVersion :: u8
  vr_StackType :: u8
  vr_StackVersion :: u16

definition DecodeVersionResponse :: "bytes \<Rightarrow> ez_error + VersionResponse" where
  "DecodeVersionResponse p =
     (if length p < 7 then Inl (ShortVersion (length p))
      else if p ! 2 \<noteq> ucast IDVersion then Inl (NotVersion (p ! 2))
      else Inr \<lparr>vr_ProtocolVersion = p ! 3, vr_StackType = p ! 4, vr_StackVersion = le_word (take 2 (drop 5 p))\<rparr>)"

section \<open>Structures (network.go)\<close>

abbreviation EzSuccess :: u8 where "EzSuccess \<equiv> 0x00"
abbreviation StatusNotJoined :: u8 where "StatusNotJoined \<equiv> 0x93"
abbreviation StatusNetworkUp :: u8 where "StatusNetworkUp \<equiv> 0x90"
abbreviation StatusNetworkDown :: u8 where "StatusNetworkDown \<equiv> 0x91"

record NetworkParameters =
  np_ExtendedPanID :: bytes
  np_PanID :: u16
  np_RadioTxPower :: u8
  np_RadioChannel :: u8
  np_JoinMethod :: u8
  np_NwkManagerID :: u16
  np_NwkUpdateID :: u8
  np_Channels :: u32

abbreviation netParamsLen :: nat where "netParamsLen \<equiv> 20"

record NetworkState =
  ns_Status :: u8
  ns_NodeType :: u8
  ns_Params :: NetworkParameters

definition Joined :: "NetworkState \<Rightarrow> bool" where
  "Joined s = (ns_Status s = EzSuccess)"

definition DecodeNetworkParameters :: "bytes \<Rightarrow> ez_error + NetworkState" where
  "DecodeNetworkParameters p =
     (if length p < 2 + netParamsLen then Inl (ShortParameters (length p))
      else
        let b = drop 2 p in
        Inr \<lparr>ns_Status = p ! 0, ns_NodeType = p ! 1,
             ns_Params = \<lparr>np_ExtendedPanID = take 8 b, np_PanID = le_word (take 2 (drop 8 b)),
               np_RadioTxPower = b ! 10, np_RadioChannel = b ! 11, np_JoinMethod = b ! 12,
               np_NwkManagerID = le_word (take 2 (drop 13 b)), np_NwkUpdateID = b ! 15,
               np_Channels = le_word (take 4 (drop 16 b))\<rparr>\<rparr>)"

definition EncodeNetworkParameters :: "NetworkParameters \<Rightarrow> bytes" where
  "EncodeNetworkParameters p =
     np_ExtendedPanID p @ le_bytes 2 (np_PanID p) @ [np_RadioTxPower p, np_RadioChannel p, np_JoinMethod p]
     @ le_bytes 2 (np_NwkManagerID p) @ [np_NwkUpdateID p] @ le_bytes 4 (np_Channels p)"

definition formSecurityBitmask :: u16 where
  "formSecurityBitmask = or (or (or 0x0084 0x0100) 0x0200) 0x0800"

definition TCLinkKey :: bytes where
  "TCLinkKey = ascii ''ZigBeeAlliance09''"

abbreviation JoinMethodMACAssociation :: u8 where "JoinMethodMACAssociation \<equiv> 0x00"
abbreviation AllChannelsMask :: u32 where "AllChannelsMask \<equiv> 0x07FFF800"
abbreviation NetworkInitNoOptions :: u16 where "NetworkInitNoOptions \<equiv> 0x0000"

definition EncodeInitialSecurityState :: "u16 \<Rightarrow> bytes \<Rightarrow> bytes \<Rightarrow> u8 \<Rightarrow> bytes" where
  "EncodeInitialSecurityState bitmask preconfiguredKey networkKey keySeq =
     le_bytes 2 bitmask @ preconfiguredKey @ networkKey @ [keySeq] @ replicate 8 0"

definition EncodeAddEndpoint :: "u8 \<Rightarrow> u16 \<Rightarrow> u16 \<Rightarrow> u8 \<Rightarrow> u16 list \<Rightarrow> u16 list \<Rightarrow> bytes" where
  "EncodeAddEndpoint endpoint profileID deviceID version ins outs =
     [endpoint] @ le_bytes 2 profileID @ le_bytes 2 deviceID
     @ [version, of_nat (length ins), of_nat (length outs)]
     @ concat (List.map (le_bytes 2) ins) @ concat (List.map (le_bytes 2) outs)"

abbreviation PolicyTrustCenter :: u8 where "PolicyTrustCenter \<equiv> 0x00"
abbreviation PermitJoinForever :: u8 where "PermitJoinForever \<equiv> 0xFF"

definition joinPolicy :: u16 where
  "joinPolicy = or 0x0001 0x0002"

record TrustCenterJoin =
  tj_NodeID :: u16
  tj_IEEE :: bytes
  tj_Update :: u8
  tj_Decision :: u8
  tj_ParentID :: u16

definition DecodeTrustCenterJoin :: "bytes \<Rightarrow> ez_error + TrustCenterJoin" where
  "DecodeTrustCenterJoin p =
     (if length p < 14 then Inl (ShortJoin (length p))
      else Inr \<lparr>tj_NodeID = le_word (take 2 p), tj_IEEE = take 8 (drop 2 p), tj_Update = p ! 10,
                tj_Decision = p ! 11, tj_ParentID = le_word (take 2 (drop 12 p))\<rparr>)"

text \<open>\<^verbatim>\<open>fmt.Sprintf("0x%016X", ...)\<close>: sixteen digits of a 64-bit number.\<close>

definition hex_char :: "u8 \<Rightarrow> byte" where
  "hex_char n = (if n < 10 then 0x30 + n else 0x41 + (n - 10))"

definition hex16 :: "u64 \<Rightarrow> bytes" where
  "hex16 v = List.map (\<lambda>i. hex_char (ucast (and (drop_bit (4 * (15 - i)) v) 0xF))) [0..<16]"

text \<open>The address as logs and configurations write it: the bytes of the NCP reversed, and read as a
  big-endian number.\<close>

definition IEEEString :: "TrustCenterJoin \<Rightarrow> bytes" where
  "IEEEString j = ascii ''0x'' @ hex16 (le_word (tj_IEEE j))"

section \<open>The link and the demultiplexer (driver.go)\<close>

datatype link_event = Raw bytes | Expire | Cancel

record EzConfig =
  ec_PermitJoin :: bool
  ec_Channel :: u8
  ec_TxPower :: u8
  ec_ForceForm :: bool

text \<open>\<open>ez_sends\<close> are the results of the sends to come, \<open>ez_sent\<close> the frames that were sent.\<close>

record EzDriver =
  ez_cfg :: EzConfig
  ez_seq :: u8
  ez_stackStatus :: "u8 list"
  ez_events :: "link_event list"
  ez_sends :: "bool list"
  ez_sent :: "bytes list"

type_synonym 'a ez = "EzDriver \<Rightarrow> (ez_error + 'a) \<times> EzDriver"

definition ez_return :: "'a \<Rightarrow> 'a ez" where
  "ez_return a d = (Inr a, d)"

definition ez_fail :: "ez_error \<Rightarrow> 'a ez" where
  "ez_fail e d = (Inl e, d)"

definition ez_bind :: "'a ez \<Rightarrow> ('a \<Rightarrow> 'b ez) \<Rightarrow> 'b ez" where
  "ez_bind m f d = (case m d of (Inl e, d) \<Rightarrow> (Inl e, d) | (Inr a, d) \<Rightarrow> f a d)"

definition ez_of :: "ez_error + 'a \<Rightarrow> 'a ez" where
  "ez_of r d = (r, d)"

definition ez_send :: "bytes \<Rightarrow> unit ez" where
  "ez_send frame d =
     (case ez_sends d of
        [] \<Rightarrow> (Inl LinkSend, d)
      | ok # oks \<Rightarrow>
          (let d = d\<lparr>ez_sends := oks\<rparr> in
           if ok then (Inr (), d\<lparr>ez_sent := ez_sent d @ [frame]\<rparr>) else (Inl LinkSend, d)))"

definition ez_nextSeq :: "u8 ez" where
  "ez_nextSeq d = (let sq = ez_seq d + 1 in (Inr sq, d\<lparr>ez_seq := sq\<rparr>))"

text \<open>The buffered channel of stack statuses: a status is dropped when four are waiting.\<close>

definition handleCallback :: "EFrame \<Rightarrow> EzDriver \<Rightarrow> EzDriver" where
  "handleCallback f d =
     (if ef_ID f = IDStackStatusHandler \<and> ef_Params f \<noteq> [] \<and> length (ez_stackStatus d) < 4
      then d\<lparr>ez_stackStatus := ez_stackStatus d @ [ef_Params f ! 0]\<rparr> else d)"

text \<open>\<^verbatim>\<open>deliver\<close> against the pending command.\<close>

definition is_reply :: "u8 \<Rightarrow> u16 \<Rightarrow> EFrame \<Rightarrow> bool" where
  "is_reply sq i f \<longleftrightarrow> ef_Seq f = sq \<and> ef_ID f = i"

text \<open>The \<^verbatim>\<open>select\<close> of a request while the reader works; a link that ends leaves the timer.\<close>

fun await_reply :: "u8 \<Rightarrow> u16 \<Rightarrow> link_event list \<Rightarrow> EzDriver \<Rightarrow> (ez_error + EFrame) \<times> EzDriver" where
  "await_reply sq i [] d = (Inl (NoReply i sq), d\<lparr>ez_events := []\<rparr>)"
| "await_reply sq i (Expire # es) d = (Inl (NoReply i sq), d\<lparr>ez_events := es\<rparr>)"
| "await_reply sq i (Cancel # es) d = (Inl EzCancelled, d\<lparr>ez_events := es\<rparr>)"
| "await_reply sq i (Raw b # es) d =
     (case DecodeFrame b of
        Inl e \<Rightarrow> await_reply sq i es d
      | Inr f \<Rightarrow>
          if is_reply sq i f then (Inr f, d\<lparr>ez_events := es\<rparr>)
          else await_reply sq i es (handleCallback f d))"

definition request :: "u16 \<Rightarrow> bytes \<Rightarrow> EFrame ez" where
  "request i params =
     ez_bind ez_nextSeq (\<lambda>sq.
     ez_bind (ez_send (EzCommand sq i params)) (\<lambda>_ d.
     await_reply sq i (ez_events d) d))"

text \<open>Statuses are taken from the channel first; while it is empty the reader goes on.\<close>

fun await_status :: "u8 \<Rightarrow> ez_error \<Rightarrow> u8 list \<Rightarrow> link_event list \<Rightarrow> EzDriver \<Rightarrow> (ez_error + unit) \<times> EzDriver" where
  "await_status want e (s # ss) es d =
     (if s = want then (Inr (), d\<lparr>ez_stackStatus := ss, ez_events := es\<rparr>) else await_status want e ss es d)"
| "await_status want e [] [] d = (Inl e, d\<lparr>ez_stackStatus := [], ez_events := []\<rparr>)"
| "await_status want e [] (Expire # es) d = (Inl e, d\<lparr>ez_stackStatus := [], ez_events := es\<rparr>)"
| "await_status want e [] (Cancel # es) d = (Inl EzCancelled, d\<lparr>ez_stackStatus := [], ez_events := es\<rparr>)"
| "await_status want e [] (Raw b # es) d =
     (case DecodeFrame b of
        Inl _ \<Rightarrow> await_status want e [] es d
      | Inr f \<Rightarrow> await_status want e (ez_stackStatus (handleCallback f (d\<lparr>ez_stackStatus := []\<rparr>))) es d)"

definition waitStackUp :: "unit ez" where
  "waitStackUp d = await_status StatusNetworkUp NotUp (ez_stackStatus d) (ez_events d) d"

definition negotiateVersion :: "u8 \<Rightarrow> VersionResponse ez" where
  "negotiateVersion desired =
     ez_bind ez_nextSeq (\<lambda>sq.
     ez_bind (ez_send (VersionCommand sq desired)) (\<lambda>_ d.
     case ez_events d of
       Raw b # es \<Rightarrow> (DecodeVersionResponse b, d\<lparr>ez_events := es\<rparr>)
     | [] \<Rightarrow> (Inl EzCancelled, d)
     | _ # es \<Rightarrow> (Inl EzCancelled, d\<lparr>ez_events := es\<rparr>)))"

section \<open>Bringing the network up (coordinator.go)\<close>

definition GetNetworkParameters :: "NetworkState ez" where
  "GetNetworkParameters =
     ez_bind (request IDGetNetworkParameters []) (\<lambda>f. ez_of (DecodeNetworkParameters (ef_Params f)))"

definition hubInputClusters :: "u16 list" where
  "hubInputClusters = [0x0000, 0x0003]"

definition hubOutputClusters :: "u16 list" where
  "hubOutputClusters = [0x0000, 0x0003, 0x0006, 0x0008, 0x0012, 0x0102]"

definition addEndpoint :: "unit ez" where
  "addEndpoint =
     ez_bind (request IDAddEndpoint (EncodeAddEndpoint 1 0x0104 0x0005 0 hubInputClusters hubOutputClusters)) (\<lambda>f.
     if ef_Params f = [] then ez_fail EmptyResponse else ez_return ())"

definition networkInit :: "u8 ez" where
  "networkInit =
     ez_bind (request IDNetworkInit (le_bytes 2 NetworkInitNoOptions)) (\<lambda>f.
     if ef_Params f = [] then ez_fail EmptyResponse else ez_return (ef_Params f ! 0))"

text \<open>\<open>draws\<close> are the results of \<^verbatim>\<open>rand.Read\<close> for two bytes, None for an error.\<close>

fun pan_loop :: "nat \<Rightarrow> (nat \<Rightarrow> u16 option) \<Rightarrow> nat \<Rightarrow> ez_error + u16" where
  "pan_loop 0 draws i = Inl NoPan"
| "pan_loop (Suc n) draws i =
     (case draws i of
        None \<Rightarrow> Inl PanRand
      | Some v \<Rightarrow> if v \<noteq> 0x0000 \<and> v \<noteq> 0xFFFF then Inr v else pan_loop n draws (i + 1))"

definition randomPanID :: "(nat \<Rightarrow> u16 option) \<Rightarrow> ez_error + u16" where
  "randomPanID draws = pan_loop 8 draws 0"

definition ez_channel :: "EzConfig \<Rightarrow> u8" where
  "ez_channel c = (if ec_Channel c \<ge> 11 \<and> ec_Channel c \<le> 26 then ec_Channel c else 25)"

definition ez_txPower :: "EzConfig \<Rightarrow> u8" where
  "ez_txPower c = (if ec_TxPower c > 0 then ec_TxPower c else 5)"

text \<open>The random choices of a network to form.\<close>

record Randomness =
  ra_key :: "bytes option"
  ra_extPan :: "bytes option"
  ra_pan :: "nat \<Rightarrow> u16 option"

definition accepted :: "EFrame \<Rightarrow> bool" where
  "accepted f \<longleftrightarrow> ef_Params f \<noteq> [] \<and> ef_Params f ! 0 = EzSuccess"

definition formNetwork :: "Randomness \<Rightarrow> unit ez" where
  "formNetwork ra d =
     (case (ra_key ra, ra_extPan ra) of
        (Some networkKey, Some extPanID) \<Rightarrow>
          (case randomPanID (ra_pan ra) of
             Inl e \<Rightarrow> (Inl e, d)
           | Inr panID \<Rightarrow>
               ez_bind (request IDSetInitialSecurityState
                   (EncodeInitialSecurityState formSecurityBitmask TCLinkKey networkKey 0)) (\<lambda>f.
               if \<not> accepted f then ez_fail SecurityRejected
               else
                 ez_bind (request IDFormNetwork (EncodeNetworkParameters
                     \<lparr>np_ExtendedPanID = extPanID, np_PanID = panID, np_RadioTxPower = ez_txPower (ez_cfg d),
                      np_RadioChannel = ez_channel (ez_cfg d), np_JoinMethod = JoinMethodMACAssociation,
                      np_NwkManagerID = 0, np_NwkUpdateID = 0, np_Channels = AllChannelsMask\<rparr>)) (\<lambda>f.
                 if \<not> accepted f then ez_fail FormRejected else waitStackUp)) d)
      | _ \<Rightarrow> (Inl KeyRand, d))"

definition leaveNetwork :: "unit ez" where
  "leaveNetwork =
     ez_bind (request IDLeaveNetwork []) (\<lambda>f.
     if \<not> accepted f then ez_fail LeaveRejected
     else (\<lambda>d. await_status StatusNetworkDown NotDown (ez_stackStatus d) (ez_events d) d))"

definition bringUpNetwork :: "Randomness \<Rightarrow> NetworkState ez" where
  "bringUpNetwork ra =
     ez_bind addEndpoint (\<lambda>_.
     ez_bind networkInit (\<lambda>_.
     ez_bind GetNetworkParameters (\<lambda>state d.
     ez_bind (if Joined state \<and> ec_ForceForm (ez_cfg d)
              then ez_bind leaveNetwork (\<lambda>_. ez_return (state\<lparr>ns_Status := StatusNotJoined\<rparr>))
              else ez_return state) (\<lambda>state.
     if Joined state then ez_return state
     else ez_bind (formNetwork ra) (\<lambda>_. GetNetworkParameters)) d)))"

definition setJoinPolicy :: "unit ez" where
  "setJoinPolicy =
     ez_bind (request IDSetPolicy (PolicyTrustCenter # le_bytes 2 joinPolicy)) (\<lambda>f.
     if accepted f then ez_return ()
     else
       ez_bind (request IDSetPolicy [PolicyTrustCenter, ucast joinPolicy]) (\<lambda>f.
       if \<not> accepted f then ez_fail PolicyRejected else ez_return ()))"

definition openForJoining :: "u8 \<Rightarrow> unit ez" where
  "openForJoining duration =
     ez_bind setJoinPolicy (\<lambda>_.
     ez_bind (request IDPermitJoining [duration]) (\<lambda>f.
     if \<not> accepted f then ez_fail PermitRejected else ez_return ()))"

text \<open>One tick of \<^verbatim>\<open>watchJoinWindow\<close>; both failures are only logged.\<close>

definition joinWindow_tick :: "EzDriver \<Rightarrow> EzDriver" where
  "joinWindow_tick d = snd (ez_bind GetNetworkParameters (\<lambda>_. request IDPermitJoining [PermitJoinForever]) d)"

text \<open>\<^verbatim>\<open>Start\<close> from the version handshake up to the point where it waits for the reader.\<close>

definition ez_start :: "Randomness \<Rightarrow> NetworkState ez" where
  "ez_start ra =
     ez_bind (negotiateVersion 13) (\<lambda>ver.
     if vr_ProtocolVersion ver < 8 then ez_fail (OldVersion (vr_ProtocolVersion ver))
     else
       ez_bind (bringUpNetwork ra) (\<lambda>state.
       if \<not> Joined state then ez_fail (StillDown (ns_Status state))
       else (\<lambda>d. ez_bind (if ec_PermitJoin (ez_cfg d) then openForJoining PermitJoinForever else ez_return ())
                    (\<lambda>_. ez_return state) d)))"

end
