(* ===== verification/Ezsp_Properties.thy ===== *)
theory Ezsp_Properties
  imports Ezsp Zigbee_Driver "HOL-Library.Sublist"
begin

text \<open>
  The EmberZNet backend: its structures are read as they were written, responses and callbacks are told
  apart, the network is formed from scratch through any other traffic, and nothing is destroyed that was
  not to be.
\<close>

section \<open>Frames and structures\<close>

lemma DecodeFrame_Command:
  "DecodeFrame (EzCommand sq i params) = Inr \<lparr>ef_Seq = sq, ef_Control = frameControlExtended, ef_ID = i, ef_Params = params\<rparr>"
  by (simp add: DecodeFrame_def EzCommand_def)

theorem network_parameters_roundtrip:
  assumes "length (np_ExtendedPanID p) = 8"
  shows "DecodeNetworkParameters (st # nt # EncodeNetworkParameters p @ rest)
    = Inr \<lparr>ns_Status = st, ns_NodeType = nt, ns_Params = p\<rparr>"
proof -
  obtain a b where pan: "le_bytes 2 (np_PanID p) = [a, b]" "le_word [a, b] = np_PanID p" by (rule le_bytes_two)
  obtain c e where man: "le_bytes 2 (np_NwkManagerID p) = [c, e]" "le_word [c, e] = np_NwkManagerID p" by (rule le_bytes_two)
  show ?thesis
    using assms pan man
    by (simp add: DecodeNetworkParameters_def EncodeNetworkParameters_def Let_def nth_append)
qed

section \<open>Responses and callbacks\<close>

definition not_reply :: "u8 \<Rightarrow> u16 \<Rightarrow> link_event \<Rightarrow> bool" where
  "not_reply sq i x \<longleftrightarrow> (\<exists>b. x = Raw b \<and> (\<forall>f. DecodeFrame b = Inr f \<longrightarrow> \<not> is_reply sq i f))"

text \<open>The statuses among the callbacks.\<close>

definition statuses :: "link_event list \<Rightarrow> u8 list" where
  "statuses es = List.map_filter (\<lambda>x. case x of Raw b \<Rightarrow>
      (case DecodeFrame b of Inr f \<Rightarrow> if ef_ID f = IDStackStatusHandler \<and> ef_Params f \<noteq> [] then Some (ef_Params f ! 0) else None
       | Inl _ \<Rightarrow> None) | _ \<Rightarrow> None) es"

definition heard :: "link_event list \<Rightarrow> EzDriver \<Rightarrow> EzDriver" where
  "heard es d = d\<lparr>ez_stackStatus := take 4 (ez_stackStatus d @ statuses es)\<rparr>"

lemma statuses_simps [simp]:
  "statuses [] = []" "statuses (Expire # es) = statuses es" "statuses (Cancel # es) = statuses es"
  "statuses (Raw b # es) = (case DecodeFrame b of Inr f \<Rightarrow>
      if ef_ID f = IDStackStatusHandler \<and> ef_Params f \<noteq> [] then (ef_Params f ! 0) # statuses es else statuses es
      | Inl _ \<Rightarrow> statuses es)"
  by (simp_all add: statuses_def List.map_filter_simps split: sum.split)

lemma statuses_append [simp]: "statuses (xs @ ys) = statuses xs @ statuses ys"
  by (simp add: statuses_def List.map_filter_def)

lemma handleCallback_heard:
  assumes "DecodeFrame b = Inr f" "length (ez_stackStatus d) \<le> 4"
  shows "heard es (handleCallback f d) = heard (Raw b # es) d" "length (ez_stackStatus (handleCallback f d)) \<le> 4"
proof -
  have k: "4 - n = Suc (3 - n)" if "n < 4" for n :: nat using that by simp
  show "heard es (handleCallback f d) = heard (Raw b # es) d" "length (ez_stackStatus (handleCallback f d)) \<le> 4"
    using assms k [of "length (ez_stackStatus d)"] by (auto simp: handleCallback_def heard_def)
qed

lemma heard_Nil: "length (ez_stackStatus d) \<le> 4 \<Longrightarrow> heard [] d = d"
  by (simp add: heard_def)

lemma await_reply_noise:
  assumes "list_all (not_reply sq i) pre" "length (ez_stackStatus d) \<le> 4"
  shows "await_reply sq i (pre @ es) d = await_reply sq i es (heard pre d)"
  using assms
proof (induction pre arbitrary: d)
  case Nil
  then show ?case by (simp add: heard_Nil)
next
  case (Cons x pre)
  from Cons.prems(1) obtain b where b: "x = Raw b" "\<forall>f. DecodeFrame b = Inr f \<longrightarrow> \<not> is_reply sq i f"
    by (auto simp: not_reply_def)
  show ?case
  proof (cases "DecodeFrame b")
    case (Inl e)
    with Cons b show ?thesis by (simp add: heard_def)
  next
    case (Inr f)
    with Cons.IH [of "handleCallback f d"] Cons.prems b handleCallback_heard [OF Inr] show ?thesis by simp
  qed
qed

lemma noise_split:
  "\<exists>pre post. es = pre @ post \<and> list_all (not_reply sq i) pre
    \<and> (post = [] \<or> (\<exists>x xs. post = x # xs \<and> \<not> not_reply sq i x))"
proof (induction es)
  case (Cons x es)
  then obtain pre post where IH: "es = pre @ post" "list_all (not_reply sq i) pre"
    "post = [] \<or> (\<exists>x xs. post = x # xs \<and> \<not> not_reply sq i x)" by blast
  show ?case
  proof (cases "not_reply sq i x")
    case True
    with IH show ?thesis by (intro exI [of _ "x # pre"] exI [of _ post]) simp
  next
    case False
    then show ?thesis by (intro exI [of _ "[]"] exI [of _ "x # es"]) simp
  qed
qed simp

text \<open>Responses and callbacks are told apart, whatever the dongle sends: a request takes the first
  frame that carries its sequence number and its frame id, unless the timer expires or the context is
  cancelled before it arrives; every frame before it is handled as a callback in the order of arrival, so
  that the statuses among them wait in their channel up to its four places, and what comes after it stays
  for the next request.\<close>

theorem ezsp_demultiplexes:
  assumes "ez_sends d = True # oks" "length (ez_stackStatus d) \<le> 4"
  shows "\<exists>pre post. ez_events d = pre @ post \<and> list_all (not_reply (ez_seq d + 1) i) pre
    \<and> (case request i params d of
         (Inr f, d') \<Rightarrow> (\<exists>b rest. post = Raw b # rest \<and> DecodeFrame b = Inr f \<and> ef_Seq f = ez_seq d + 1 \<and> ef_ID f = i
           \<and> ez_events d' = rest)
           \<and> ez_stackStatus d' = take 4 (ez_stackStatus d @ statuses pre)
           \<and> ez_sent d' = ez_sent d @ [EzCommand (ez_seq d + 1) i params]
       | (Inl e, d') \<Rightarrow> e = NoReply i (ez_seq d + 1) \<and> (post = [] \<or> (\<exists>rest. post = Expire # rest))
           \<or> e = EzCancelled \<and> (\<exists>rest. post = Cancel # rest))"
proof -
  let ?sq = "ez_seq d + 1"
  let ?d = "d\<lparr>ez_seq := ?sq, ez_sends := oks, ez_sent := ez_sent d @ [EzCommand ?sq i params]\<rparr>"
  have r: "request i params d = await_reply ?sq i (ez_events d) ?d"
    using assms(1) by (simp add: request_def ez_bind_def ez_nextSeq_def ez_send_def Let_def)
  obtain pre post where p: "ez_events d = pre @ post" "list_all (not_reply ?sq i) pre"
    "post = [] \<or> (\<exists>x xs. post = x # xs \<and> \<not> not_reply ?sq i x)" using noise_split by blast
  have r': "request i params d = await_reply ?sq i post (heard pre ?d)"
    unfolding r p(1) by (rule await_reply_noise [OF p(2)]) (simp add: assms(2))
  show ?thesis
  proof (cases post)
    case Nil
    with p r' show ?thesis by (intro exI [of _ pre] exI [of _ post]) simp
  next
    case (Cons x xs)
    show ?thesis
    proof (cases x)
      case (Raw b)
      with p(3) Cons obtain f where f: "DecodeFrame b = Inr f" "is_reply ?sq i f" by (auto simp: not_reply_def)
      with Cons Raw r' p show ?thesis
        by (intro exI [of _ pre] exI [of _ post]) (simp add: is_reply_def heard_def)
    next
      case Expire
      with Cons r' p show ?thesis by (intro exI [of _ pre] exI [of _ post]) simp
    next
      case Cancel
      with Cons r' p show ?thesis by (intro exI [of _ pre] exI [of _ post]) simp
    qed
  qed
qed

text \<open>A driver with no network, and a dongle that reports a stack status, then a response to another
  request, and then the response.\<close>

definition sample_ez :: "link_event list \<Rightarrow> EzDriver" where
  "sample_ez es = \<lparr>ez_cfg = \<lparr>ec_PermitJoin = True, ec_Channel = 0, ec_TxPower = 0, ec_ForceForm = False\<rparr>,
     ez_seq = 255, ez_stackStatus = [], ez_events = es, ez_sends = [True, True], ez_sent = []\<rparr>"

definition sample_noise :: "link_event list" where
  "sample_noise = [Raw [7, 0x80, 0x01, 0x19, 0x00, 0x90], Raw [1, 2], Raw [255, 0x80, 0x01, 0x28, 0x00, 0x93],
     Raw [0, 0x80, 0x01, 0x28, 0x00, 0x00, 0x01], Raw [9]]"

theorem ezsp_demultiplexes_witness:
  "(\<exists>pre post. sample_noise = pre @ post \<and> list_all (not_reply 0 IDGetNetworkParameters) pre
     \<and> (\<exists>b rest. post = Raw b # rest \<and> rest = [Raw [9]]) \<and> [0x90] = take 4 (statuses pre))"
proof -
  have d: "ez_sends (sample_ez sample_noise) = True # [True]" "length (ez_stackStatus (sample_ez sample_noise)) \<le> 4"
    "ez_events (sample_ez sample_noise) = sample_noise" "ez_seq (sample_ez sample_noise) + 1 = 0"
    "ez_stackStatus (sample_ez sample_noise) = []"
    by (simp_all add: sample_ez_def)
  have r: "request IDGetNetworkParameters [] (sample_ez sample_noise)
    = (Inr \<lparr>ef_Seq = 0, ef_Control = 0x0180, ef_ID = 0x28, ef_Params = [0, 1]\<rparr>,
       snd (request IDGetNetworkParameters [] (sample_ez sample_noise)))"
    "ez_events (snd (request IDGetNetworkParameters [] (sample_ez sample_noise))) = [Raw [9]]"
    "ez_stackStatus (snd (request IDGetNetworkParameters [] (sample_ez sample_noise))) = [0x90]"
    by code_simp+
  from ezsp_demultiplexes [OF d(1,2), of IDGetNetworkParameters "[]"] show ?thesis
    unfolding d(3-5) by (subst (asm) r(1)) (fastforce simp: r(2,3))
qed

section \<open>The address of a joining node\<close>

lemma hex_char_digit:
  assumes "n < 16"
  shows "hex_digit (lower (hex_char n)) = Some (unat n)"
proof -
  have "unat n < 16" using assms by (simp add: word_less_nat_alt)
  then have "unat n \<in> {..<16}" by simp
  also have "{..<16} = {0, 1, 2, 3, 4, 5, 6, 7, 8, 9, 10, 11, 12, 13, 14, 15 :: nat}"
    by (simp add: lessThan_nat_numeral lessThan_Suc insert_commute)
  finally have "(of_nat (unat n) :: u8) \<in> of_nat ` {0, 1, 2, 3, 4, 5, 6, 7, 8, 9, 10, 11, 12, 13, 14, 15 :: nat}" by (rule imageI)
  then have "n \<in> {0, 1, 2, 3, 4, 5, 6, 7, 8, 9, 10, 11, 12, 13, 14, 15}"
    by (simp only: of_nat_unat ucast_id image_insert image_empty of_nat_numeral semiring_1_class.of_nat_0 of_nat_1)
  then show ?thesis by (elim insertE emptyE) (simp_all add: hex_char_def lower_def hex_digit_def)
qed

lemma hex_value_append:
  "hex_value acc (xs @ ys) = (case hex_value acc xs of None \<Rightarrow> None | Some v \<Rightarrow> hex_value v ys)"
  by (induction xs arbitrary: acc) (auto split: option.split)

lemma nibble_value:
  fixes w :: u64
  shows "unat (ucast (and w 0xF) :: u8) = unat w mod 16"
proof -
  have m: "and w 0xF = take_bit 4 w" by (simp add: take_bit_eq_mask mask_eq_exp_minus_1)
  have "unat (ucast (take_bit 4 w) :: u8) = take_bit 8 (take_bit 4 (unat w))"
    by (simp only: unsigned_ucast_eq unsigned_take_bit_eq) simp
  also have "\<dots> = unat w mod 16" unfolding take_bit_take_bit by (simp add: take_bit_eq_mod)
  finally have "unat (ucast (take_bit 4 w) :: u8) = unat w mod 16" .
  then show ?thesis unfolding m .
qed

lemma nibble_step:
  fixes w :: u64
  shows "16 * unat (drop_bit 4 w) + unat (ucast (and w 0xF) :: u8) = unat w"
proof -
  have "unat w < 2 ^ 64" using unsigned_less [of w] by simp
  then have "unat (drop_bit 4 w) = unat w div 16"
    by (simp only: unsigned_drop_bit_eq) (simp add: drop_bit_eq_div take_bit_nat_eq_self)
  then show ?thesis unfolding nibble_value by simp
qed

lemma hex16_value: "hex_value 0 (List.map lower (hex16 v)) = Some (unat v)"
proof -
  let ?dig = "\<lambda>i. lower (hex_char (ucast (and (drop_bit (4 * (15 - i)) v) 0xF)))"
  have "n \<le> 16 \<Longrightarrow> hex_value 0 (List.map ?dig [0..<n]) = Some (unat (drop_bit (4 * (16 - n)) v))" for n
  proof (induction n)
    case 0
    have "unat v < 2 ^ 64" using unsigned_less [of v] by simp
    then have "unat (drop_bit 64 v) = 0" 
      by (simp only: unsigned_drop_bit_eq) (simp add: drop_bit_eq_div take_bit_nat_eq_self)
    then show ?case by simp
  next
    case (Suc n)
    let ?w = "drop_bit (4 * (15 - n)) v"
    have "4 * (16 - n) = 4 + 4 * (15 - n)" using Suc.prems by simp
    then have "drop_bit (4 * (16 - n)) v = drop_bit 4 ?w" by simp
    moreover have "(ucast (and ?w 0xF) :: u8) < 16"
    proof -
      have "unat (ucast (and ?w 0xF) :: u8) < 16" unfolding nibble_value by simp
      then show ?thesis by (simp add: word_less_nat_alt)
    qed
    ultimately show ?case
      using Suc nibble_step [of ?w] by (simp add: hex_value_append hex_char_digit)
  qed
  from this [of 16] show ?thesis by (simp add: hex16_def comp_def)
qed

text \<open>The address that the log tells to put into the configuration of a node that joined is, read back
  from the configuration, the node's address: the eight bytes of the join notification as a little-endian
  number, for every node.\<close>

theorem join_address_roundtrip:
  assumes "ascii s = IEEEString j"
  shows "parseIEEE s = Some (le_word (tj_IEEE j))"
proof -
  let ?v = "le_word (tj_IEEE j) :: u64"
  have "List.map lower (ascii s) = ascii ''0x'' @ List.map lower (hex16 ?v)"
    unfolding assms by (simp add: IEEEString_def lower_def)
  moreover have "CutPrefix (ascii ''0x'' @ r) (ascii ''0x'') = Some r" for r by (simp add: CutPrefix_def)
  moreover have "List.map lower (hex16 ?v) \<noteq> []" by (simp add: hex16_def)
  moreover have "unat ?v < 2 ^ 64" using unsigned_less [of ?v] by simp
  ultimately show ?thesis by (simp add: parseIEEE_def hex16_value Let_def)
qed

definition sample_join :: TrustCenterJoin where
  "sample_join = \<lparr>tj_NodeID = 0x1234, tj_IEEE = [0x88, 0x77, 0x66, 0x55, 0x44, 0x33, 0x22, 0x11], tj_Update = 1,
     tj_Decision = 0, tj_ParentID = 0\<rparr>"

theorem join_address_roundtrip_witness: "parseIEEE ''0x1122334455667788'' = Some 0x1122334455667788"
proof -
  have "ascii ''0x1122334455667788'' = IEEEString sample_join" by code_simp
  from join_address_roundtrip [OF this] have "parseIEEE ''0x1122334455667788'' = Some (le_word (tj_IEEE sample_join))" .
  also have "le_word (tj_IEEE sample_join) = (0x1122334455667788 :: u64)" by code_simp
  finally show ?thesis .
qed

section \<open>What is sent\<close>

text \<open>The frame ids of the extended commands among the sent frames.\<close>

definition sent_ids :: "EzDriver \<Rightarrow> u16 list" where
  "sent_ids d = List.map_filter (\<lambda>p. case DecodeFrame p of Inl _ \<Rightarrow> None | Inr f \<Rightarrow> Some (ef_ID f)) (ez_sent d)"

definition at :: "EzConfig \<Rightarrow> u16 list \<Rightarrow> EzDriver \<Rightarrow> bool" where
  "at c t d \<longleftrightarrow> ez_cfg d = c \<and> sent_ids d = t"

definition ez_triple :: "(EzDriver \<Rightarrow> bool) \<Rightarrow> 'a ez \<Rightarrow> ('a \<Rightarrow> EzDriver \<Rightarrow> bool) \<Rightarrow> (EzDriver \<Rightarrow> bool) \<Rightarrow> bool" where
  "ez_triple P m Q E \<longleftrightarrow> (\<forall>d. P d \<longrightarrow> (case m d of (Inl e, d') \<Rightarrow> E d' | (Inr a, d') \<Rightarrow> Q a d'))"

lemma triple_bind:
  assumes "ez_triple P m Q E" "\<And>a. ez_triple (Q a) (f a) R E"
  shows "ez_triple P (ez_bind m f) R E"
  unfolding ez_triple_def
proof (intro allI impI)
  fix d assume "P d"
  with assms(1) have m: "case m d of (Inl e, d') \<Rightarrow> E d' | (Inr a, d') \<Rightarrow> Q a d'" by (simp add: ez_triple_def)
  show "case ez_bind m f d of (Inl e, d') \<Rightarrow> E d' | (Inr a, d') \<Rightarrow> R a d'"
  proof (cases "m d")
    case (Pair r d')
    with m assms(2) show ?thesis by (cases r) (auto simp: ez_bind_def ez_triple_def)
  qed
qed

lemma triple_weaken:
  assumes "ez_triple P m Q E" "\<And>a d. Q a d \<Longrightarrow> Q' a d" "\<And>d. E d \<Longrightarrow> E' d"
  shows "ez_triple P m Q' E'"
  using assms by (fastforce simp: ez_triple_def split: prod.split sum.split)

lemma triple_return: "(\<And>d. P d \<Longrightarrow> Q a d) \<Longrightarrow> ez_triple P (ez_return a) Q E"
  by (simp add: ez_triple_def ez_return_def)

lemma triple_fail: "(\<And>d. P d \<Longrightarrow> E d) \<Longrightarrow> ez_triple P (ez_fail e) Q E"
  by (simp add: ez_triple_def ez_fail_def)

lemma triple_of: "(\<And>a d. r = Inr a \<Longrightarrow> P d \<Longrightarrow> Q a d) \<Longrightarrow> (\<And>d. P d \<Longrightarrow> E d) \<Longrightarrow> ez_triple P (ez_of r) Q E"
  by (cases r) (simp_all add: ez_triple_def ez_of_def)

text \<open>A continuation that reads the configuration.\<close>

lemma triple_cfg: "ez_triple (at c t) (f c) Q E \<Longrightarrow> ez_triple (at c t) (\<lambda>d. f (ez_cfg d) d) Q E"
  by (simp add: ez_triple_def at_def)

lemma handleCallback_frame [simp]:
  "ez_cfg (handleCallback f d) = ez_cfg d" "ez_sent (handleCallback f d) = ez_sent d"
  by (simp_all add: handleCallback_def)

lemma await_reply_frame:
  "ez_cfg (snd (await_reply sq i es d)) = ez_cfg d \<and> ez_sent (snd (await_reply sq i es d)) = ez_sent d"
  by (induction sq i es d rule: await_reply.induct) (auto split: sum.split)

lemma await_status_frame:
  "ez_cfg (snd (await_status w e ss es d)) = ez_cfg d \<and> ez_sent (snd (await_status w e ss es d)) = ez_sent d"
  by (induction w e ss es d rule: await_status.induct) (auto split: sum.split)

lemma triple_request:
  "ez_triple (at c t) (request i p) (\<lambda>_. at c (t @ [i])) (\<lambda>d. at c t d \<or> at c (t @ [i]) d)"
  unfolding ez_triple_def
proof (intro allI impI)
  fix d assume d: "at c t d"
  obtain r d' where r: "request i p d = (r, d')" by (cases "request i p d")
  have "(at c t d' \<and> (\<exists>e. r = Inl e)) \<or> at c (t @ [i]) d'"
  proof (cases "\<exists>oks. ez_sends d = True # oks")
    case True
    then obtain oks where oks: "ez_sends d = True # oks" by blast
    let ?sq = "ez_seq d + 1"
    let ?d = "d\<lparr>ez_seq := ?sq, ez_sends := oks, ez_sent := ez_sent d @ [EzCommand ?sq i p]\<rparr>"
    have "request i p d = await_reply ?sq i (ez_events d) ?d"
      using oks by (simp add: request_def ez_bind_def ez_nextSeq_def ez_send_def Let_def)
    with r have "d' = snd (await_reply ?sq i (ez_events d) ?d)" by simp
    with await_reply_frame [of ?sq i "ez_events d" ?d] d have "at c (t @ [i]) d'"
      by (simp add: at_def sent_ids_def DecodeFrame_Command List.map_filter_simps List.map_filter_def)
    then show ?thesis ..
  next
    case False
    then have "ez_sends d = [] \<or> (\<exists>oks. ez_sends d = False # oks)" by (cases "ez_sends d") auto
    with r d show ?thesis
      by (auto simp: request_def ez_bind_def ez_nextSeq_def ez_send_def Let_def at_def sent_ids_def)
  qed
  with r show "case request i p d of (Inl e, d') \<Rightarrow> at c t d' \<or> at c (t @ [i]) d' | (Inr a, d') \<Rightarrow> at c (t @ [i]) d'"
    by (cases r) auto
qed

lemma triple_status: "ez_triple (at c t) (\<lambda>d. await_status w e (ez_stackStatus d) (ez_events d) d) (\<lambda>_. at c t) (at c t)"
  using await_status_frame by (auto simp: ez_triple_def at_def sent_ids_def split: prod.split sum.split) (metis snd_conv)+

text \<open>The commands of a bring-up, in order: to find out what the dongle has, to form a network, and to
  leave one and form another.\<close>

definition report_plan :: "u16 list" where
  "report_plan = [IDAddEndpoint, IDNetworkInit, IDGetNetworkParameters]"

definition form_plan :: "u16 list" where
  "form_plan = [IDSetInitialSecurityState, IDFormNetwork, IDGetNetworkParameters]"

definition reform_plan :: "u16 list" where
  "reform_plan = IDLeaveNetwork # form_plan"

text \<open>What was sent so far, when the commands of the plan \<open>pl\<close> are being sent.\<close>

definition planned :: "EzConfig \<Rightarrow> u16 list \<Rightarrow> u16 list \<Rightarrow> EzDriver \<Rightarrow> bool" where
  "planned c t pl d \<longleftrightarrow> (\<exists>ids. at c (t @ ids) d \<and> prefix ids pl)"

lemma planned_at: "at c (t @ ids) d \<Longrightarrow> prefix ids pl \<Longrightarrow> planned c t pl d"
  by (auto simp: planned_def)

lemma triple_planned:
  assumes "prefix (ids @ [i]) pl"
  shows "ez_triple (at c (t @ ids)) (request i p) (\<lambda>_. at c (t @ (ids @ [i]))) (planned c t pl)"
proof (rule triple_weaken [OF triple_request])
  have "prefix ids pl" using assms by (auto dest: append_prefixD)
  with assms show "\<And>d. at c (t @ ids) d \<or> at c ((t @ ids) @ [i]) d \<Longrightarrow> planned c t pl d"
    by (auto intro: planned_at [of c t ids] planned_at [of c t "ids @ [i]"])
qed simp

text \<open>A continuation that only looks at the response.\<close>

lemma triple_answer:
  assumes "prefix (ids @ [i]) pl"
    and "\<And>f. ez_triple (at c (t @ (ids @ [i]))) (k f) Q (planned c t pl)"
  shows "ez_triple (at c (t @ ids)) (ez_bind (request i p) k) Q (planned c t pl)"
  by (rule triple_bind [OF triple_planned [OF assms(1)] assms(2)])

lemmas plans = report_plan_def form_plan_def reform_plan_def

lemma triple_check:
  assumes "ids = ids' \<and> prefix ids pl"
  shows "ez_triple (at c (t @ ids)) (if b then ez_fail e else ez_return a) (\<lambda>_. at c (t @ ids')) (planned c t pl)"
  using assms by (auto intro!: triple_fail triple_return intro: planned_at)

lemma triple_parameters:
  assumes "prefix (ids @ [IDGetNetworkParameters]) pl"
  shows "ez_triple (at c (t @ ids)) GetNetworkParameters (\<lambda>_. at c (t @ (ids @ [IDGetNetworkParameters]))) (planned c t pl)"
  unfolding GetNetworkParameters_def
  by (rule triple_answer [OF assms], rule triple_of) (use assms in \<open>auto intro: planned_at\<close>)

text \<open>The first three commands, which end with what the dongle reports of its network.\<close>

definition reported :: "NetworkState ez" where
  "reported = ez_bind addEndpoint (\<lambda>_. ez_bind networkInit (\<lambda>_. GetNetworkParameters))"

lemma triple_reported:
  "ez_triple (at c t) reported (\<lambda>_. at c (t @ report_plan)) (planned c t report_plan)"
proof -
  let ?pl = "report_plan"
  have "ez_triple (at c (t @ [])) addEndpoint (\<lambda>_. at c (t @ [IDAddEndpoint])) (planned c t ?pl)"
    unfolding addEndpoint_def by (rule triple_answer) (simp add: plans, rule triple_check, simp add: plans)
  moreover have "ez_triple (at c (t @ [IDAddEndpoint])) networkInit (\<lambda>_. at c (t @ take 2 ?pl)) (planned c t ?pl)"
    unfolding networkInit_def by (rule triple_answer) (simp add: plans, rule triple_check, simp add: plans)
  moreover have "ez_triple (at c (t @ take 2 ?pl)) GetNetworkParameters (\<lambda>_. at c (t @ ?pl)) (planned c t ?pl)"
    using triple_parameters [of "take 2 ?pl" ?pl c t] by (simp add: plans)
  ultimately show ?thesis unfolding reported_def by (intro triple_bind) auto
qed

lemma triple_leave:
  "ez_triple (at c (t @ [])) leaveNetwork (\<lambda>_. at c (t @ [IDLeaveNetwork])) (planned c t reform_plan)"
proof -
  have p: "prefix ([] @ [IDLeaveNetwork]) reform_plan" by (simp add: plans)
  then show ?thesis
    unfolding leaveNetwork_def
    by (intro triple_answer) (auto intro!: triple_fail triple_weaken [OF triple_status] intro: planned_at)
qed

lemma triple_form:
  assumes "ids @ form_plan = pl"
  shows "ez_triple (at c (t @ ids)) (formNetwork ra) (\<lambda>_. at c (t @ (ids @ [IDSetInitialSecurityState, IDFormNetwork]))) (planned c t pl)"
proof -
  let ?i = "ids @ [IDSetInitialSecurityState]"
  have p: "prefix ids pl" "prefix ?i pl" "prefix (?i @ [IDFormNetwork]) pl"
    using assms by (auto simp: plans prefix_def)
  have run: "ez_triple (at c (t @ ids))
     (ez_bind (request IDSetInitialSecurityState s) (\<lambda>f. if \<not> accepted f then ez_fail SecurityRejected
        else ez_bind (request IDFormNetwork q) (\<lambda>f. if \<not> accepted f then ez_fail FormRejected else waitStackUp)))
     (\<lambda>_. at c (t @ (?i @ [IDFormNetwork]))) (planned c t pl)" for s q
  proof (rule triple_answer [OF p(2)])
    fix f
    show "ez_triple (at c (t @ ?i)) (if \<not> accepted f then ez_fail SecurityRejected
        else ez_bind (request IDFormNetwork q) (\<lambda>f. if \<not> accepted f then ez_fail FormRejected else waitStackUp))
      (\<lambda>_. at c (t @ (?i @ [IDFormNetwork]))) (planned c t pl)"
      using p(2) planned_at [OF _ p(3)]
      by (auto intro!: triple_fail triple_answer [OF p(3)] triple_weaken [OF triple_status]
          intro: planned_at simp: waitStackUp_def [abs_def])
  qed
  show ?thesis
  proof (cases "\<exists>k x v. ra_key ra = Some k \<and> ra_extPan ra = Some x \<and> randomPanID (ra_pan ra) = Inr v")
    case True
    then obtain k x v where "ra_key ra = Some k" "ra_extPan ra = Some x" "randomPanID (ra_pan ra) = Inr v" by blast
    then have eq: "formNetwork ra = (\<lambda>d. ez_bind (request IDSetInitialSecurityState
           (EncodeInitialSecurityState formSecurityBitmask TCLinkKey k 0)) (\<lambda>f. if \<not> accepted f then ez_fail SecurityRejected
        else ez_bind (request IDFormNetwork (EncodeNetworkParameters
             \<lparr>np_ExtendedPanID = x, np_PanID = v, np_RadioTxPower = ez_txPower (ez_cfg d),
              np_RadioChannel = ez_channel (ez_cfg d), np_JoinMethod = JoinMethodMACAssociation,
              np_NwkManagerID = 0, np_NwkUpdateID = 0, np_Channels = AllChannelsMask\<rparr>))
           (\<lambda>f. if \<not> accepted f then ez_fail FormRejected else waitStackUp)) d)"
      unfolding formNetwork_def [abs_def] by (simp only: prod.case option.case sum.case)
    show ?thesis
      unfolding ez_triple_def eq
      by (intro allI impI) (rule run [unfolded append_assoc append.simps ez_triple_def, rule_format])
  next
    case False
    then have "\<exists>e. \<forall>d. formNetwork ra d = (Inl e, d)"
      by (cases "ra_key ra"; cases "ra_extPan ra"; cases "randomPanID (ra_pan ra)") (auto simp: formNetwork_def)
    with planned_at [OF _ p(1)] show ?thesis by (auto simp: ez_triple_def)
  qed
qed

text \<open>Forming a network and asking for it, after whatever was sent.\<close>

lemma triple_formed:
  assumes "ids @ form_plan = pl"
  shows "ez_triple (at c (t @ ids)) (ez_bind (formNetwork ra) (\<lambda>_. GetNetworkParameters)) (\<lambda>_. at c (t @ pl)) (planned c t pl)"
proof (rule triple_bind [OF triple_form [OF assms]])
  fix a
  let ?i = "ids @ [IDSetInitialSecurityState, IDFormNetwork]"
  have pl: "?i @ [IDGetNetworkParameters] = pl" using assms by (simp add: plans)
  then have "prefix (?i @ [IDGetNetworkParameters]) pl" by simp
  from triple_parameters [OF this, of c t]
  show "ez_triple (at c (t @ ?i)) GetNetworkParameters (\<lambda>_. at c (t @ pl)) (planned c t pl)"
    unfolding pl .
qed

lemma triple_reformed:
  "ez_triple (at c (t @ [])) (ez_bind leaveNetwork (\<lambda>_. ez_bind (formNetwork ra) (\<lambda>_. GetNetworkParameters)))
     (\<lambda>_. at c (t @ reform_plan)) (planned c t reform_plan)"
  by (rule triple_bind [OF triple_leave triple_formed]) (simp add: plans)

text \<open>The three ways to go on after the report.\<close>

lemma bringUp_cases:
  "bringUpNetwork ra d = (case reported d of
     (Inl e, d1) \<Rightarrow> (Inl e, d1)
   | (Inr s, d1) \<Rightarrow>
       if \<not> Joined s then ez_bind (formNetwork ra) (\<lambda>_. GetNetworkParameters) d1
       else if ec_ForceForm (ez_cfg d1)
         then ez_bind leaveNetwork (\<lambda>_. ez_bind (formNetwork ra) (\<lambda>_. GetNetworkParameters)) d1
       else (Inr s, d1))"
  by (auto simp: bringUpNetwork_def reported_def ez_bind_def [abs_def] ez_return_def Joined_def
      split: prod.splits sum.splits)

text \<open>C32: Bringing the network up does what the dongle's report and the configuration ask for, in the
  order of the plan, whatever the dongle answers and wherever it stops. The endpoint is registered and
  the network started before the report is asked for; if that fails, so does the bring-up, and nothing
  else is sent. A network that the dongle reports is kept, unless the configuration forces a new one:
  nothing more is sent, and the report is the result. A forced new network is formed after leaving the
  old one, and only then is the command sent that orphans every paired device; without a network one is
  formed. Forming sets the security first, and success means that the plan was carried out to its
  end.\<close>

theorem bring_up_order:
  "case reported d of
     (Inl e, d1) \<Rightarrow> bringUpNetwork ra d = (Inl e, d1)
       \<and> (\<exists>ids. sent_ids d1 = sent_ids d @ ids
            \<and> prefix ids [IDAddEndpoint, IDNetworkInit, IDGetNetworkParameters])
   | (Inr s, d1) \<Rightarrow>
       sent_ids d1 = sent_ids d @ [IDAddEndpoint, IDNetworkInit, IDGetNetworkParameters]
       \<and> (if Joined s \<and> \<not> ec_ForceForm (ez_cfg d) then bringUpNetwork ra d = (Inr s, d1)
          else let plan = (if Joined s then [IDLeaveNetwork] else [])
                 @ [IDSetInitialSecurityState, IDFormNetwork, IDGetNetworkParameters]
               in \<exists>r d2 ids. bringUpNetwork ra d = (r, d2) \<and> sent_ids d2 = sent_ids d1 @ ids
                    \<and> prefix ids plan \<and> (ids = plan \<or> (\<exists>e. r = Inl e)))"
proof -
  let ?c = "ez_cfg d" and ?t = "sent_ids d"
  have "at ?c ?t d" by (simp add: at_def)
  then have rep: "case reported d of (Inl e, d1) \<Rightarrow> planned ?c ?t report_plan d1
      | (Inr s, d1) \<Rightarrow> at ?c (?t @ report_plan) d1"
    by (rule triple_reported [unfolded ez_triple_def, rule_format])
  obtain r d1 where r: "reported d = (r, d1)" by fastforce
  show ?thesis
  proof (cases r)
    case (Inl e)
    then show ?thesis using rep r by (auto simp: bringUp_cases report_plan_def planned_def at_def)
  next
    case (Inr s)
    then have "at ?c (?t @ report_plan) d1" using rep r by simp
    then have d1: "sent_ids d1 = ?t @ report_plan" "ez_cfg d1 = ?c" by (simp_all add: at_def)
    then have at: "at ?c (sent_ids d1 @ []) d1" by (simp add: at_def)
    show ?thesis
    proof (cases "Joined s \<and> \<not> ec_ForceForm ?c")
      case True
      then show ?thesis using r Inr d1 by (simp add: bringUp_cases report_plan_def)
    next
      case False
      let ?pl = "if Joined s then reform_plan else form_plan"
      obtain q d2 where q: "bringUpNetwork ra d = (q, d2)" by fastforce
      have "case q of Inl e \<Rightarrow> planned ?c (sent_ids d1) ?pl d2 | Inr _ \<Rightarrow> at ?c (sent_ids d1 @ ?pl) d2"
      proof (cases "Joined s")
        case True
        then show ?thesis
          using triple_reformed [of ?c "sent_ids d1" ra, unfolded ez_triple_def, rule_format, OF at] False r Inr d1(2) q
          by (simp add: bringUp_cases split: sum.splits)
      next
        case j: False
        then show ?thesis
          using triple_formed [of "[]" form_plan ?c "sent_ids d1" ra, unfolded ez_triple_def, rule_format, OF _ at] r Inr q
          by (simp add: bringUp_cases split: sum.splits)
      qed
      then obtain ids where "sent_ids d2 = sent_ids d1 @ ids" "prefix ids ?pl" "ids = ?pl \<or> (\<exists>e. q = Inl e)"
        by (cases q) (auto simp: planned_def at_def)
      moreover have "(if Joined s then [IDLeaveNetwork] else [])
          @ [IDSetInitialSecurityState, IDFormNetwork, IDGetNetworkParameters] = ?pl"
        by (simp add: form_plan_def reform_plan_def)
      ultimately show ?thesis using False q r Inr d1(1) by (simp add: Let_def report_plan_def) blast
    qed
  qed
qed

end
