(* ===== verification/Cert.thy ===== *)
theory Cert
  imports Tlv_Members Dates
begin

text \<open>
  Operational certificates, \<^verbatim>\<open>go-matter/cert\<close>: the TLV form (\<^verbatim>\<open>cert.go\<close>, \<^verbatim>\<open>encode.go\<close>), the DER
  primitives (\<^verbatim>\<open>der.go\<close>), the X.509 form that is signed (\<^verbatim>\<open>tbs.go\<close>), and signing and verification
  (\<^verbatim>\<open>sign.go\<close>, \<^verbatim>\<open>verify.go\<close>, \<^verbatim>\<open>crypto/ecdsa.go\<close>) over the primitives of the curve library.
\<close>

section \<open>Certificates\<close>

abbreviation DNCommonName :: u8 where "DNCommonName \<equiv> 1"
abbreviation DNMatterNodeID :: u8 where "DNMatterNodeID \<equiv> 17"
abbreviation DNMatterRCACID :: u8 where "DNMatterRCACID \<equiv> 20"
abbreviation DNMatterFabricID :: u8 where "DNMatterFabricID \<equiv> 21"
abbreviation DNMatterCASEAuthTag :: u8 where "DNMatterCASEAuthTag \<equiv> 22"
abbreviation printableFlag :: u8 where "printableFlag \<equiv> 0x80"

record Attr =
  at_Tag :: u8
  at_IsString :: bool
  at_Printable :: bool
  at_String :: bytes
  at_Value :: u64

type_synonym DN = "Attr list"

fun uintAttr :: "DN \<Rightarrow> u8 \<Rightarrow> u64 option" where
  "uintAttr [] tag = None"
| "uintAttr (a # d) tag = (if at_Tag a = tag \<and> \<not> at_IsString a then Some (at_Value a) else uintAttr d tag)"

definition NodeID :: "DN \<Rightarrow> u64 option" where
  "NodeID d = uintAttr d DNMatterNodeID"

definition FabricID :: "DN \<Rightarrow> u64 option" where
  "FabricID d = uintAttr d DNMatterFabricID"

record BasicConstraints =
  bc_IsCA :: bool
  bc_PathLen :: "u8 option"

text \<open>None is nil.\<close>

record Extensions =
  ex_BasicConstraints :: "BasicConstraints option"
  ex_KeyUsage :: "u16 option"
  ex_ExtKeyUsage :: "u8 list option"
  ex_SubjectKeyID :: "bytes option"
  ex_AuthorityKeyID :: "bytes option"

record Cert =
  ce_SerialNumber :: bytes
  ce_SigAlgo :: u64
  ce_Issuer :: DN
  ce_NotBefore :: u32
  ce_NotAfter :: u32
  ce_Subject :: DN
  ce_PubKeyAlgo :: u64
  ce_CurveID :: u64
  ce_PublicKey :: bytes
  ce_Extensions :: Extensions
  ce_Signature :: bytes

definition zeroExtensions :: Extensions where
  "zeroExtensions = \<lparr>ex_BasicConstraints = None, ex_KeyUsage = None, ex_ExtKeyUsage = None,
     ex_SubjectKeyID = None, ex_AuthorityKeyID = None\<rparr>"

definition zeroCert :: Cert where
  "zeroCert = \<lparr>ce_SerialNumber = [], ce_SigAlgo = 0, ce_Issuer = [], ce_NotBefore = 0, ce_NotAfter = 0,
     ce_Subject = [], ce_PubKeyAlgo = 0, ce_CurveID = 0, ce_PublicKey = [], ce_Extensions = zeroExtensions,
     ce_Signature = []\<rparr>"

section \<open>The TLV form\<close>

definition readU32 :: "u32 dec" where
  "readU32 = dec_bind (dec_get Reader_Uint) (\<lambda>v.
     if v > 0xFFFFFFFF then dec_fail (Msg ''cert: value exceeds uint32'') else dec_return (ucast v))"

definition dnBody :: "DN \<Rightarrow> DN dec" where
  "dnBody dn =
     (\<lambda>r. if Kind (r_tag r) \<noteq> KindContext \<or> Num (r_tag r) > 0xFF then
            dec_fail (Msg ''cert: bad DN attribute tag'') r
          else
            let t = ucast (Num (r_tag r)) :: u8; tag = t AND NOT printableFlag in
            if Reader_Type r = TypeString then
              dec_bind (dec_get Reader_String) (\<lambda>s. dec_return (dn @
                [\<lparr>at_Tag = tag, at_IsString = True, at_Printable = (t AND printableFlag \<noteq> 0), at_String = s, at_Value = 0\<rparr>])) r
            else if Reader_Type r = TypeUint then
              dec_bind (dec_get Reader_Uint) (\<lambda>v. dec_return (dn @
                [\<lparr>at_Tag = tag, at_IsString = False, at_Printable = False, at_String = [], at_Value = v\<rparr>])) r
            else dec_fail (Msg ''cert: unexpected DN attribute type'') r)"

definition decodeDN :: "DN dec" where
  "decodeDN = (\<lambda>r. if Reader_Type r \<noteq> TypeList then dec_fail (Msg ''cert: DN is not a list'') r
     else each_member dnBody [] r)"

definition bcBody :: "BasicConstraints \<Rightarrow> BasicConstraints dec" where
  "bcBody bc =
     (\<lambda>r. if Num (r_tag r) = 1 then
            dec_bind (dec_get Reader_Bool) (\<lambda>v. dec_return (bc\<lparr>bc_IsCA := v\<rparr>)) r
          else if Num (r_tag r) = 2 then
            dec_bind (dec_get Reader_Uint) (\<lambda>v. dec_return (bc\<lparr>bc_PathLen := Some (ucast v)\<rparr>)) r
          else dec_return bc r)"

definition decodeBasicConstraints :: "BasicConstraints dec" where
  "decodeBasicConstraints =
     (\<lambda>r. if Reader_Type r \<noteq> TypeStructure then dec_fail (Msg ''cert: basic-constraints is not a structure'') r
          else each_member bcBody \<lparr>bc_IsCA = False, bc_PathLen = None\<rparr> r)"

definition uintArrayBody :: "u8 list option \<Rightarrow> u8 list option dec" where
  "uintArrayBody out = dec_bind (dec_get Reader_Uint) (\<lambda>v. dec_return (Some ((case out of None \<Rightarrow> [] | Some l \<Rightarrow> l) @ [ucast v])))"

definition decodeUintArray :: "u8 list option dec" where
  "decodeUintArray =
     (\<lambda>r. if Reader_Type r \<noteq> TypeArray then dec_fail (Msg ''cert: expected array'') r
          else each_member uintArrayBody None r)"

definition extBody :: "Extensions \<Rightarrow> Extensions dec" where
  "extBody e =
     (\<lambda>r. if Num (r_tag r) = 1 then
            dec_bind decodeBasicConstraints (\<lambda>v. dec_return (e\<lparr>ex_BasicConstraints := Some v\<rparr>)) r
          else if Num (r_tag r) = 2 then
            dec_bind (dec_get Reader_Uint) (\<lambda>v. dec_return (e\<lparr>ex_KeyUsage := Some (ucast v)\<rparr>)) r
          else if Num (r_tag r) = 3 then
            dec_bind decodeUintArray (\<lambda>v. dec_return (e\<lparr>ex_ExtKeyUsage := v\<rparr>)) r
          else if Num (r_tag r) = 4 then
            dec_bind (dec_get Reader_Bytes) (\<lambda>v. dec_return (e\<lparr>ex_SubjectKeyID := Some v\<rparr>)) r
          else if Num (r_tag r) = 5 then
            dec_bind (dec_get Reader_Bytes) (\<lambda>v. dec_return (e\<lparr>ex_AuthorityKeyID := Some v\<rparr>)) r
          else if Num (r_tag r) = 6 then
            dec_bind (dec_get Reader_Bytes) (\<lambda>_. dec_return e) r
          else dec_fail (Msg ''cert: unknown extension tag'') r)"

definition decodeExtensions :: "Extensions dec" where
  "decodeExtensions =
     (\<lambda>r. if Reader_Type r \<noteq> TypeList then dec_fail (Msg ''cert: extensions is not a list'') r
          else each_member extBody zeroExtensions r)"

definition certBody :: "Cert \<Rightarrow> Cert dec" where
  "certBody c =
     (\<lambda>r. if Kind (r_tag r) \<noteq> KindContext then dec_fail (Msg ''cert: non-context tag in certificate'') r
          else if Num (r_tag r) = 1 then
            dec_bind (dec_get Reader_Bytes) (\<lambda>v. dec_return (c\<lparr>ce_SerialNumber := v\<rparr>)) r
          else if Num (r_tag r) = 2 then
            dec_bind (dec_get Reader_Uint) (\<lambda>v. dec_return (c\<lparr>ce_SigAlgo := v\<rparr>)) r
          else if Num (r_tag r) = 3 then
            dec_bind decodeDN (\<lambda>v. dec_return (c\<lparr>ce_Issuer := v\<rparr>)) r
          else if Num (r_tag r) = 4 then
            dec_bind readU32 (\<lambda>v. dec_return (c\<lparr>ce_NotBefore := v\<rparr>)) r
          else if Num (r_tag r) = 5 then
            dec_bind readU32 (\<lambda>v. dec_return (c\<lparr>ce_NotAfter := v\<rparr>)) r
          else if Num (r_tag r) = 6 then
            dec_bind decodeDN (\<lambda>v. dec_return (c\<lparr>ce_Subject := v\<rparr>)) r
          else if Num (r_tag r) = 7 then
            dec_bind (dec_get Reader_Uint) (\<lambda>v. dec_return (c\<lparr>ce_PubKeyAlgo := v\<rparr>)) r
          else if Num (r_tag r) = 8 then
            dec_bind (dec_get Reader_Uint) (\<lambda>v. dec_return (c\<lparr>ce_CurveID := v\<rparr>)) r
          else if Num (r_tag r) = 9 then
            dec_bind (dec_get Reader_Bytes) (\<lambda>v. dec_return (c\<lparr>ce_PublicKey := v\<rparr>)) r
          else if Num (r_tag r) = 10 then
            dec_bind decodeExtensions (\<lambda>v. dec_return (c\<lparr>ce_Extensions := v\<rparr>)) r
          else if Num (r_tag r) = 11 then
            dec_bind (dec_get Reader_Bytes) (\<lambda>v. dec_return (c\<lparr>ce_Signature := v\<rparr>)) r
          else dec_fail (Msg ''cert: unknown top-level tag'') r)"

definition Cert_Decode :: "bytes \<Rightarrow> (derror + Cert) option" where
  "Cert_Decode = dec_top ''cert: expected top-level structure'' (dec_bind (each_member certBody zeroCert) dec_checked)"

definition encodeAttr :: "writer \<Rightarrow> Attr \<Rightarrow> writer" where
  "encodeAttr w a =
     (if at_IsString a then
        Writer_PutString w (Context (if at_Printable a then at_Tag a OR printableFlag else at_Tag a)) (at_String a)
      else Writer_PutUint w (Context (at_Tag a)) (at_Value a))"

definition encodeDN :: "writer \<Rightarrow> u8 \<Rightarrow> DN \<Rightarrow> writer" where
  "encodeDN w listTag dn = Writer_EndContainer (foldl encodeAttr (Writer_StartList w (Context listTag)) dn)"

text \<open>\<^verbatim>\<open>if x != nil { put }\<close>\<close>

definition put_opt :: "(writer \<Rightarrow> 'a \<Rightarrow> writer) \<Rightarrow> 'a option \<Rightarrow> writer \<Rightarrow> writer" where
  "put_opt f x w = (case x of None \<Rightarrow> w | Some v \<Rightarrow> f w v)"

definition encodeBasicConstraints :: "writer \<Rightarrow> BasicConstraints \<Rightarrow> writer" where
  "encodeBasicConstraints w bc =
     (let w = Writer_StartStructure w (Context 1);
          w = Writer_PutBool w (Context 1) (bc_IsCA bc);
          w = put_opt (\<lambda>w p. Writer_PutUint w (Context 2) (ucast p)) (bc_PathLen bc) w
      in Writer_EndContainer w)"

definition encodeExtKeyUsage :: "writer \<Rightarrow> u8 list \<Rightarrow> writer" where
  "encodeExtKeyUsage w l = Writer_EndContainer
     (foldl (\<lambda>w v. Writer_PutUint w Anonymous (ucast v)) (Writer_StartArray w (Context 3)) l)"

definition encodeExtensions :: "writer \<Rightarrow> Extensions \<Rightarrow> writer" where
  "encodeExtensions w e =
     (let w = Writer_StartList w (Context 10);
          w = put_opt encodeBasicConstraints (ex_BasicConstraints e) w;
          w = put_opt (\<lambda>w u. Writer_PutUint w (Context 2) (ucast u)) (ex_KeyUsage e) w;
          w = put_opt encodeExtKeyUsage (ex_ExtKeyUsage e) w;
          w = put_opt (\<lambda>w b. Writer_PutBytes w (Context 4) b) (ex_SubjectKeyID e) w;
          w = put_opt (\<lambda>w b. Writer_PutBytes w (Context 5) b) (ex_AuthorityKeyID e) w
      in Writer_EndContainer w)"

definition Cert_Encode :: "Cert \<Rightarrow> tlv_error + bytes" where
  "Cert_Encode c =
     (let w = Writer_StartStructure NewWriter Anonymous;
          w = Writer_PutBytes w (Context 1) (ce_SerialNumber c);
          w = Writer_PutUint w (Context 2) (ce_SigAlgo c);
          w = encodeDN w 3 (ce_Issuer c);
          w = Writer_PutUint w (Context 4) (ucast (ce_NotBefore c));
          w = Writer_PutUint w (Context 5) (ucast (ce_NotAfter c));
          w = encodeDN w 6 (ce_Subject c);
          w = Writer_PutUint w (Context 7) (ce_PubKeyAlgo c);
          w = Writer_PutUint w (Context 8) (ce_CurveID c);
          w = Writer_PutBytes w (Context 9) (ce_PublicKey c);
          w = encodeExtensions w (ce_Extensions c);
          w = Writer_PutBytes w (Context 11) (ce_Signature c)
      in Writer_Bytes (Writer_EndContainer w))"

section \<open>DER\<close>

text \<open>The bytes of a number, most significant first, in front of \<open>tmp\<close>.\<close>

function der_digits :: "nat \<Rightarrow> bytes \<Rightarrow> bytes" where
  "der_digits n tmp = (if 0 < n then der_digits (n div 256) (of_nat n # tmp) else tmp)"
  by pat_completeness auto
termination by (relation "measure fst") auto

declare der_digits.simps [simp del]

definition derLen :: "nat \<Rightarrow> bytes" where
  "derLen n =
     (if n < 0x80 then [of_nat n]
      else let tmp = der_digits n [] in (0x80 OR of_nat (length tmp)) # tmp)"

definition derTLV :: "byte \<Rightarrow> bytes \<Rightarrow> bytes" where
  "derTLV tag content = tag # derLen (length content) @ content"

definition derSeq :: "bytes list \<Rightarrow> bytes" where
  "derSeq parts = derTLV 0x30 (concat parts)"

definition derSet :: "bytes list \<Rightarrow> bytes" where
  "derSet parts = derTLV 0x31 (concat parts)"

definition derOID :: "bytes \<Rightarrow> bytes" where "derOID oid = derTLV 0x06 oid"
definition derOctet :: "bytes \<Rightarrow> bytes" where "derOctet content = derTLV 0x04 content"
definition derUTF8 :: "bytes \<Rightarrow> bytes" where "derUTF8 s = derTLV 0x0C s"
definition derPrintable :: "bytes \<Rightarrow> bytes" where "derPrintable s = derTLV 0x13 s"

definition derBool :: "bool \<Rightarrow> bytes" where
  "derBool b = (if b then derTLV 0x01 [0xFF] else derTLV 0x01 [0x00])"

definition derBitString :: "byte \<Rightarrow> bytes \<Rightarrow> bytes" where
  "derBitString unused content = derTLV 0x03 (unused # content)"

text \<open>Leading zero bytes go, but not the last byte.\<close>

fun strip_zeros :: "bytes \<Rightarrow> bytes" where
  "strip_zeros (b # c # m) = (if b = 0 then strip_zeros (c # m) else b # c # m)"
| "strip_zeros m = m"

definition derInt :: "bytes \<Rightarrow> bytes" where
  "derInt mag =
     (let m = strip_zeros mag;
          m = (if m \<noteq> [] \<and> hd m AND 0x80 \<noteq> 0 then 0x00 # m else m)
      in derTLV 0x02 m)"

section \<open>The signed form\<close>

definition oidECDSAWithSHA256 :: bytes where "oidECDSAWithSHA256 = [0x2A, 0x86, 0x48, 0xCE, 0x3D, 0x04, 0x03, 0x02]"
definition oidECPublicKey :: bytes where "oidECPublicKey = [0x2A, 0x86, 0x48, 0xCE, 0x3D, 0x02, 0x01]"
definition oidPrime256v1 :: bytes where "oidPrime256v1 = [0x2A, 0x86, 0x48, 0xCE, 0x3D, 0x03, 0x01, 0x07]"
definition oidExtBasicConstraints :: bytes where "oidExtBasicConstraints = [0x55, 0x1D, 0x13]"
definition oidExtKeyUsageX :: bytes where "oidExtKeyUsageX = [0x55, 0x1D, 0x0F]"
definition oidExtExtKeyUsageX :: bytes where "oidExtExtKeyUsageX = [0x55, 0x1D, 0x25]"
definition oidExtSubjectKeyID :: bytes where "oidExtSubjectKeyID = [0x55, 0x1D, 0x0E]"
definition oidExtAuthorityKeyID :: bytes where "oidExtAuthorityKeyID = [0x55, 0x1D, 0x23]"
definition matterDNArc :: bytes where "matterDNArc = [0x2B, 0x06, 0x01, 0x04, 0x01, 0x82, 0xA2, 0x7C, 0x01]"
definition oidCommonName :: bytes where "oidCommonName = [0x55, 0x04, 0x03]"

lemmas oid_defs = oidECDSAWithSHA256_def oidECPublicKey_def oidPrime256v1_def oidExtBasicConstraints_def
  oidExtKeyUsageX_def oidExtExtKeyUsageX_def oidExtSubjectKeyID_def oidExtAuthorityKeyID_def matterDNArc_def
  oidCommonName_def

definition ekuOID :: "u8 \<Rightarrow> bytes option" where
  "ekuOID v =
     (let kp = [0x2B, 0x06, 0x01, 0x05, 0x05, 0x07, 0x03] in
      if v = 1 then Some (kp @ [0x01]) else if v = 2 then Some (kp @ [0x02])
      else if v = 3 then Some (kp @ [0x03]) else if v = 4 then Some (kp @ [0x09]) else None)"

text \<open>\<^verbatim>\<open>%0*X\<close>: upper-case hexadecimal digits, zeros in front up to the width.\<close>

definition upper_hex :: "nat \<Rightarrow> byte" where
  "upper_hex d = (if d < 10 then 0x30 + of_nat d else 0x41 + of_nat (d - 10))"

fun hex_digits :: "nat \<Rightarrow> bytes" where
  "hex_digits n = (if n < 16 then [upper_hex n] else hex_digits (n div 16) @ [upper_hex (n mod 16)])"

declare hex_digits.simps [simp del]

definition pad_hex :: "nat \<Rightarrow> nat \<Rightarrow> bytes" where
  "pad_hex width n = (let h = hex_digits n in replicate (width - length h) 0x30 @ h)"

datatype cert_error = UnsupportedDN u8 | UnknownPurpose u8 | IssuerKey | SignatureLength nat | BadSignature
  | PrivateScalar nat | DerivePublic | SignFailed | CertEncode tlv_error | PublicKeyForm

definition attrDER :: "Attr \<Rightarrow> cert_error + bytes" where
  "attrDER a =
     (if at_Tag a \<ge> DNMatterNodeID \<and> at_Tag a \<le> DNMatterCASEAuthTag then
        (let oid = matterDNArc @ [at_Tag a - 16];
             width = (if at_Tag a = DNMatterCASEAuthTag then 8 else 16)
         in Inr (derSet [derSeq [derOID oid, derUTF8 (pad_hex width (unat (at_Value a)))]]))
      else if at_Tag a = DNCommonName then
        Inr (derSet [derSeq [derOID oidCommonName,
          if at_Printable a then derPrintable (at_String a) else derUTF8 (at_String a)]])
      else Inl (UnsupportedDN (at_Tag a)))"

fun rdnsDER :: "DN \<Rightarrow> cert_error + bytes" where
  "rdnsDER [] = Inr []"
| "rdnsDER (a # dn) =
     (case attrDER a of
        Inl e \<Rightarrow> Inl e
      | Inr b \<Rightarrow> (case rdnsDER dn of Inl e \<Rightarrow> Inl e | Inr bs \<Rightarrow> Inr (b @ bs)))"

definition dnDER :: "DN \<Rightarrow> cert_error + bytes" where
  "dnDER dn = map_sum id (\<lambda>rdns. derSeq [rdns]) (rdnsDER dn)"

text \<open>\<^verbatim>\<open>time.Unix\<close> at UTC for seconds since 2000: the date and the second of the day.\<close>

definition matter_time :: "u32 \<Rightarrow> date \<times> nat" where
  "matter_time sec = (AddDate (2000, 1, 1) 0 0 (int (unat sec div 86400)), unat sec mod 86400)"

definition Format_clock :: "nat \<Rightarrow> bytes" where
  "Format_clock s = pad 2 (s div 3600) @ pad 2 (s div 60 mod 60) @ pad 2 (s mod 60) @ ascii ''Z''"

definition matterTimeDER :: "u32 \<Rightarrow> bytes" where
  "matterTimeDER sec =
     (if sec = 0 then derTLV 0x18 (ascii ''99991231235959Z'')
      else
        let ((y, m, d), s) = matter_time sec in
        if 1950 \<le> y \<and> y \<le> 2049 then
          derTLV 0x17 (pad 2 (nat (y mod 100)) @ pad 2 (nat m) @ pad 2 (nat d) @ Format_clock s)
        else derTLV 0x18 (pad 4 (nat y) @ pad 2 (nat m) @ pad 2 (nat d) @ Format_clock s))"

text \<open>The loop over the bits: the content so far and one more than the highest bit set.\<close>

definition usage_step :: "u16 \<Rightarrow> nat \<Rightarrow> bytes \<times> nat \<Rightarrow> bytes \<times> nat" where
  "usage_step bitmap n st =
     (case st of (content, used) \<Rightarrow>
        if \<not> bit bitmap n then (content, used)
        else
          let content = content @ replicate (Suc (n div 8) - length content) 0 in
          (content[n div 8 := content ! (n div 8) OR drop_bit (n mod 8) 0x80], n + 1))"

definition keyUsageBitString :: "u16 \<Rightarrow> bytes" where
  "keyUsageBitString bitmap =
     (let (content, used) = fold (usage_step bitmap) [0..<16] ([], 0) in
      if used = 0 then derBitString 0 []
      else derBitString (of_nat ((8 - used mod 8) mod 8)) (take ((used + 7) div 8) content))"

fun ekuDER :: "u8 list \<Rightarrow> cert_error + bytes" where
  "ekuDER [] = Inr []"
| "ekuDER (v # vs) =
     (case ekuOID v of
        None \<Rightarrow> Inl (UnknownPurpose v)
      | Some oid \<Rightarrow> (case ekuDER vs of Inl e \<Rightarrow> Inl e | Inr oids \<Rightarrow> Inr (derOID oid @ oids)))"

definition bcDER :: "BasicConstraints \<Rightarrow> bytes" where
  "bcDER bc = (if bc_IsCA bc then derBool True else []) @ (case bc_PathLen bc of None \<Rightarrow> [] | Some p \<Rightarrow> derInt [p])"

definition extensionsDER :: "Extensions \<Rightarrow> cert_error + bytes" where
  "extensionsDER e =
     (let out = (case ex_BasicConstraints e of None \<Rightarrow> []
          | Some bc \<Rightarrow> derSeq [derOID oidExtBasicConstraints, derBool True, derOctet (derSeq [bcDER bc])]);
          out = out @ (case ex_KeyUsage e of None \<Rightarrow> []
          | Some u \<Rightarrow> derSeq [derOID oidExtKeyUsageX, derBool True, derOctet (keyUsageBitString u)])
      in case (case ex_ExtKeyUsage e of None \<Rightarrow> Inr []
          | Some l \<Rightarrow> map_sum id (\<lambda>oids. derSeq [derOID oidExtExtKeyUsageX, derBool True, derOctet (derSeq [oids])]) (ekuDER l)) of
           Inl err \<Rightarrow> Inl err
         | Inr eku \<Rightarrow>
             Inr (out @ eku
               @ (case ex_SubjectKeyID e of None \<Rightarrow> []
                  | Some b \<Rightarrow> derSeq [derOID oidExtSubjectKeyID, derOctet (derOctet b)])
               @ (case ex_AuthorityKeyID e of None \<Rightarrow> []
                  | Some b \<Rightarrow> derSeq [derOID oidExtAuthorityKeyID, derOctet (derSeq [derTLV 0x80 b])])))"

definition tbsDER :: "Cert \<Rightarrow> cert_error + bytes" where
  "tbsDER c =
     (let version = derTLV 0xA0 (derInt [0x02]);
          serial = derInt (ce_SerialNumber c);
          sigAlgo = derSeq [derOID oidECDSAWithSHA256] in
      case dnDER (ce_Issuer c) of
        Inl e \<Rightarrow> Inl e
      | Inr issuer \<Rightarrow>
          (let validity = derSeq [matterTimeDER (ce_NotBefore c), matterTimeDER (ce_NotAfter c)] in
           case dnDER (ce_Subject c) of
             Inl e \<Rightarrow> Inl e
           | Inr subject \<Rightarrow>
               (let spki = derSeq [derSeq [derOID oidECPublicKey, derOID oidPrime256v1], derBitString 0 (ce_PublicKey c)] in
                case extensionsDER (ce_Extensions c) of
                  Inl e \<Rightarrow> Inl e
                | Inr exts \<Rightarrow>
                    Inr (derSeq [version, serial, sigAlgo, issuer, validity, subject, spki, derTLV 0xA3 (derSeq [exts])]))))"

section \<open>Signatures\<close>

text \<open>
  The curve library, the hashes and the key derivation, which are not part of the repository.
  \<open>Public\<close> is the base point times a scalar as an uncompressed point; \<open>Sign\<close> takes what \<^verbatim>\<open>rand.Reader\<close>
  gives, the scalar and a hash, \<open>Verify\<close> a point, a hash and a signature; \<open>NewPublicKey\<close> says whether
  bytes are a point that \<^verbatim>\<open>crypto/ecdh\<close> accepts; \<open>ECDH\<close> the own scalar and the
  other side's point. None is an error.
\<close>

record curve =
  Public :: "bytes \<Rightarrow> bytes option"
  Sign :: "nat \<Rightarrow> bytes \<Rightarrow> bytes \<Rightarrow> bytes option"
  Verify :: "bytes \<Rightarrow> bytes \<Rightarrow> bytes \<Rightarrow> bool"
  NewPublicKey :: "bytes \<Rightarrow> bool"
  ECDH :: "bytes \<Rightarrow> bytes \<Rightarrow> bytes option"
  SHA256 :: "bytes \<Rightarrow> bytes"
  SHA1 :: "bytes \<Rightarrow> bytes"
  HMAC :: "bytes \<Rightarrow> bytes \<Rightarrow> bytes"
  Hkdf :: "bytes \<Rightarrow> bytes \<Rightarrow> bytes \<Rightarrow> nat \<Rightarrow> bytes option"
  Block :: "bytes \<Rightarrow> bytes \<Rightarrow> bytes"

definition PublicFromScalar :: "curve \<Rightarrow> bytes \<Rightarrow> cert_error + bytes" where
  "PublicFromScalar k privScalar =
     (if length privScalar \<noteq> 32 then Inl (PrivateScalar (length privScalar))
      else case Public k privScalar of None \<Rightarrow> Inl DerivePublic | Some p \<Rightarrow> Inr p)"

definition SignECDSA :: "curve \<Rightarrow> nat \<Rightarrow> bytes \<Rightarrow> bytes \<Rightarrow> cert_error + bytes" where
  "SignECDSA k rnd privScalar message =
     (if length privScalar \<noteq> 32 then Inl (PrivateScalar (length privScalar))
      else case Public k privScalar of
        None \<Rightarrow> Inl DerivePublic
      | Some _ \<Rightarrow> (case Sign k rnd privScalar (SHA256 k message) of None \<Rightarrow> Inl SignFailed | Some s \<Rightarrow> Inr s))"

definition VerifyECDSA :: "curve \<Rightarrow> bytes \<Rightarrow> bytes \<Rightarrow> bytes \<Rightarrow> cert_error option" where
  "VerifyECDSA k pubKey message sig =
     (if length pubKey \<noteq> 65 \<or> hd pubKey \<noteq> 0x04 then Some PublicKeyForm
      else if length sig \<noteq> 64 then Some (SignatureLength (length sig))
      else if \<not> Verify k pubKey (SHA256 k message) sig then Some BadSignature else None)"

text \<open>The signature is set in the receiver, also when the encoding fails.\<close>

definition SignAndEncode :: "curve \<Rightarrow> nat \<Rightarrow> Cert \<Rightarrow> bytes \<Rightarrow> (cert_error + bytes) \<times> Cert" where
  "SignAndEncode k rnd c issuerOpKey =
     (case tbsDER c of
        Inl e \<Rightarrow> (Inl e, c)
      | Inr tbs \<Rightarrow>
          (case SignECDSA k rnd issuerOpKey tbs of
             Inl e \<Rightarrow> (Inl e, c)
           | Inr sig \<Rightarrow> (let c = c\<lparr>ce_Signature := sig\<rparr> in (map_sum CertEncode id (Cert_Encode c), c))))"

definition VerifySignature :: "curve \<Rightarrow> Cert \<Rightarrow> bytes \<Rightarrow> cert_error option" where
  "VerifySignature k c issuerPubKey =
     (if length issuerPubKey \<noteq> 65 \<or> hd issuerPubKey \<noteq> 0x04 then Some IssuerKey
      else if length (ce_Signature c) \<noteq> 64 then Some (SignatureLength (length (ce_Signature c)))
      else case tbsDER c of
        Inl e \<Rightarrow> Some e
      | Inr tbs \<Rightarrow> if \<not> Verify k issuerPubKey (SHA256 k tbs) (ce_Signature c) then Some BadSignature else None)"

datatype chain_error = RcacSignature cert_error | IcacSignature cert_error | NocSignature cert_error

definition VerifyChain :: "curve \<Rightarrow> Cert \<Rightarrow> Cert option \<Rightarrow> Cert \<Rightarrow> chain_error option" where
  "VerifyChain k noc icac rcac =
     (case VerifySignature k rcac (ce_PublicKey rcac) of
        Some e \<Rightarrow> Some (RcacSignature e)
      | None \<Rightarrow>
          (case icac of
             None \<Rightarrow> map_option NocSignature (VerifySignature k noc (ce_PublicKey rcac))
           | Some i \<Rightarrow>
               (case VerifySignature k i (ce_PublicKey rcac) of
                  Some e \<Rightarrow> Some (IcacSignature e)
                | None \<Rightarrow> map_option NocSignature (VerifySignature k noc (ce_PublicKey i)))))"

end
