(* ===== verification/Cert_Properties.thy ===== *)
theory Cert_Properties
  imports Cert Im_Properties
begin

text \<open>
  What certificates promise: the TLV form decodes to the certificate it encodes, every decoder returns,
  the signed form determines what matters of a certificate, and what a chain of signatures shows.
\<close>

section \<open>The TLV form\<close>

definition attr_ok :: "Attr \<Rightarrow> bool" where
  "attr_ok a \<longleftrightarrow> at_Tag a AND printableFlag = 0 \<and> length (at_String a) < 2 ^ 64
     \<and> (if at_IsString a then at_Value a = 0 else \<not> at_Printable a \<and> at_String a = [])"

definition attr_tag :: "Attr \<Rightarrow> u8" where
  "attr_tag a = (if at_IsString a \<and> at_Printable a then at_Tag a OR printableFlag else at_Tag a)"

definition attr_elem :: "Attr \<Rightarrow> elem" where
  "attr_elem a = Prim (Context (attr_tag a)) (if at_IsString a then PString (at_String a) else PUint (at_Value a))"

lemma flag_tag:
  assumes "t AND printableFlag = 0"
  shows "(t OR printableFlag) AND NOT printableFlag = t" "t AND NOT printableFlag = t"
    "(t OR printableFlag) AND printableFlag = printableFlag"
proof -
  have b: "\<not> (bit t n \<and> bit printableFlag n)" for n using assms by (metis bit_and_iff bit_0_eq bot_apply bot_bool_def)
  show "(t OR printableFlag) AND NOT printableFlag = t" "t AND NOT printableFlag = t"
    using b by (auto intro!: bit_eqI simp: bit_simps)
  show "(t OR printableFlag) AND printableFlag = printableFlag" by (rule bit_eqI) (auto simp: bit_and_iff bit_or_iff)
qed

lemma Context_simps [simp]: "Kind (Context n) = KindContext" "(ucast (ucast n :: u32) :: u8) = (n :: u8)"
    "\<not> 255 < (ucast n :: u32)"
  by (simp_all add: Context_def ucast_ucast_narrow not_less)

lemma decodes_attr:
  assumes "attr_ok a"
  shows "decodes (dnBody dn) d (attr_elem a) (dn @ [a])"
proof -
  obtain t s p x v where a: "a = \<lparr>at_Tag = t, at_IsString = s, at_Printable = p, at_String = x, at_Value = v\<rparr>"
    by (cases a)
  have t: "t AND printableFlag = 0" using assms by (simp add: attr_ok_def a)
  show ?thesis
    using assms flag_tag [OF t] t
    by (auto simp: decodes_def cur_tag cur_type dnBody_def attr_elem_def attr_tag_def attr_ok_def a Let_def
        dec_bind_def dec_get_def dec_return_def cur_get cur_at)
qed

definition dn_elem :: "u8 \<Rightarrow> DN \<Rightarrow> elem" where
  "dn_elem n dn = Cont (Context n) CList (List.map attr_elem dn)"

lemma attr_elem_wf: "attr_ok a \<Longrightarrow> wf_elem k (attr_elem a)"
  by (simp add: attr_elem_def attr_ok_def split: if_splits)

lemma decodes_dn:
  assumes "list_all attr_ok dn" "d < maxDepth"
  shows "decodes decodeDN d (dn_elem n dn) dn"
proof -
  have "runs dnBody (Suc d) (List.map attr_elem dn) [] (fold (\<lambda>a dn. dn @ [a]) dn [])"
    by (rule runs_map) (use assms in \<open>auto simp: list_all_iff intro: decodes_attr attr_elem_wf\<close>)
  moreover have "fold (\<lambda>a dn. dn @ [a]) xs ys = ys @ xs" for xs ys :: DN by (induction xs arbitrary: ys) auto
  ultimately show ?thesis
    unfolding decodeDN_def dn_elem_def by (intro decodes_typ decodes_each_member) (simp_all add: assms)
qed

definition bc_elem :: "BasicConstraints \<Rightarrow> elem" where
  "bc_elem bc = Cont (Context 1) CStructure (Prim (Context 1) (PBool (bc_IsCA bc))
     # (case bc_PathLen bc of None \<Rightarrow> [] | Some p \<Rightarrow> [ctx_uint 2 (ucast p)]))"

lemma decodes_bc:
  assumes "d < maxDepth"
  shows "decodes decodeBasicConstraints d (bc_elem bc) bc"
proof -
  let ?z = "\<lparr>bc_IsCA = False, bc_PathLen = None\<rparr>"
  have one: "decodes (bcBody z) (Suc d) (Prim (Context 1) (PBool b)) (z\<lparr>bc_IsCA := b\<rparr>)" for z b
    unfolding bcBody_def by (rule decodes_intros; simp?)+
  have two: "decodes (bcBody z) (Suc d) (ctx_uint 2 (ucast p)) (z\<lparr>bc_PathLen := Some p\<rparr>)" for z and p :: u8
    unfolding bcBody_def by (rule decodes_intros; simp?)+
  have "runs bcBody (Suc d) (Prim (Context 1) (PBool (bc_IsCA bc))
     # (case bc_PathLen bc of None \<Rightarrow> [] | Some p \<Rightarrow> [ctx_uint 2 (ucast p)])) ?z bc"
  proof (cases "bc_PathLen bc")
    case None
    have "?z\<lparr>bc_IsCA := bc_IsCA bc\<rparr> = bc" using None by (cases bc) simp
    with one [of ?z "bc_IsCA bc"] None show ?thesis by (auto intro: runs.intros)
  next
    case (Some p)
    have bc: "?z\<lparr>bc_IsCA := bc_IsCA bc, bc_PathLen := Some p\<rparr> = bc" using Some by (cases bc) simp
    have "runs bcBody (Suc d) [Prim (Context 1) (PBool (bc_IsCA bc)), ctx_uint 2 (ucast p)] ?z
      (?z\<lparr>bc_IsCA := bc_IsCA bc, bc_PathLen := Some p\<rparr>)"
      by (rule runs.Cons [OF one], simp, rule runs.Cons [OF two], simp, rule runs.Nil)
    then show ?thesis unfolding bc Some by simp
  qed
  then show ?thesis
    unfolding decodeBasicConstraints_def bc_elem_def by (intro decodes_typ decodes_each_member) (simp_all add: assms)
qed

definition eku_elem :: "u8 list \<Rightarrow> elem" where
  "eku_elem l = Cont (Context 3) CArray (List.map (\<lambda>v. Prim Anonymous (PUint (ucast v))) l)"

lemma decodes_eku:
  assumes "l \<noteq> []" "d < maxDepth"
  shows "decodes decodeUintArray d (eku_elem l) (Some l)"
proof -
  let ?g = "\<lambda>v out. Some ((case out of None \<Rightarrow> [] | Some l \<Rightarrow> l) @ [v])"
  have "runs uintArrayBody (Suc d) (List.map (\<lambda>v. Prim Anonymous (PUint (ucast v))) l) None (fold ?g l None)"
  proof (rule runs_map)
    fix v s
    show "decodes (uintArrayBody s) (Suc d) (Prim Anonymous (PUint (ucast v))) (?g v s)"
      unfolding uintArrayBody_def by (rule decodes_intros; simp?)+
  qed simp
  moreover have "fold ?g xs (Some ys) = Some (ys @ xs)" for xs ys :: "u8 list" by (induction xs arbitrary: ys) auto
  then have "fold ?g l None = Some l" using assms(1) by (cases l) auto
  ultimately show ?thesis
    unfolding decodeUintArray_def eku_elem_def by (intro decodes_typ decodes_each_member) (simp_all add: assms(2))
qed

definition opt_elems :: "('a \<Rightarrow> elem) \<Rightarrow> 'a option \<Rightarrow> elem list" where
  "opt_elems f x = (case x of None \<Rightarrow> [] | Some a \<Rightarrow> [f a])"

lemma opt_elems_simps [simp]: "opt_elems f None = []" "opt_elems f (Some a) = [f a]"
  by (simp_all add: opt_elems_def)

definition ext_elems :: "Extensions \<Rightarrow> elem list" where
  "ext_elems e = opt_elems bc_elem (ex_BasicConstraints e)
     @ opt_elems (\<lambda>u. ctx_uint 2 (ucast u)) (ex_KeyUsage e)
     @ opt_elems eku_elem (ex_ExtKeyUsage e)
     @ opt_elems (\<lambda>b. Prim (Context 4) (PBytes b)) (ex_SubjectKeyID e)
     @ opt_elems (\<lambda>b. Prim (Context 5) (PBytes b)) (ex_AuthorityKeyID e)"

definition short :: "bytes \<Rightarrow> bool" where
  "short b \<longleftrightarrow> length b < 2 ^ 64"

definition ext_ok :: "Extensions \<Rightarrow> bool" where
  "ext_ok e \<longleftrightarrow> ex_ExtKeyUsage e \<noteq> Some [] \<and> pred_option short (ex_SubjectKeyID e)
     \<and> pred_option short (ex_AuthorityKeyID e)"

lemma runs_opt:
  assumes "\<And>a. x = Some a \<Longrightarrow> decodes (body s) d (f a) s' \<and> wf_elem maxDepth (f a)" "x = None \<Longrightarrow> s' = s"
  shows "runs body d (opt_elems f x) s s'"
  using assms by (cases x) (auto intro: runs.intros)

lemma ext_elem_wf: "wf_elem 3 (bc_elem bc)" "wf_elem 2 (eku_elem l)"
  by (auto simp: bc_elem_def eku_elem_def list_all_iff numeral_eq_Suc split: option.splits)

lemma decodes_ext_members:
  assumes "ext_ok e" "d + 2 \<le> maxDepth"
  shows "runs extBody (Suc d) (ext_elems e) zeroExtensions e"
proof -
  let ?e1 = "zeroExtensions\<lparr>ex_BasicConstraints := ex_BasicConstraints e\<rparr>"
  let ?e2 = "?e1\<lparr>ex_KeyUsage := ex_KeyUsage e\<rparr>"
  let ?e3 = "?e2\<lparr>ex_ExtKeyUsage := ex_ExtKeyUsage e\<rparr>"
  let ?e4 = "?e3\<lparr>ex_SubjectKeyID := ex_SubjectKeyID e\<rparr>"
  let ?e5 = "?e4\<lparr>ex_AuthorityKeyID := ex_AuthorityKeyID e\<rparr>"
  have d: "Suc d < maxDepth" using assms(2) by simp
  have wf: "wf_elem maxDepth (bc_elem b)" "wf_elem maxDepth (eku_elem l)" for b l
    using wf_elem_mono [OF ext_elem_wf(1)] wf_elem_mono [OF ext_elem_wf(2)] by simp_all
  have 1: "runs extBody (Suc d) (opt_elems bc_elem (ex_BasicConstraints e)) zeroExtensions ?e1"
  proof (rule runs_opt)
    fix b assume "ex_BasicConstraints e = Some b"
    then show "decodes (extBody zeroExtensions) (Suc d) (bc_elem b) ?e1 \<and> wf_elem maxDepth (bc_elem b)"
      unfolding extBody_def using decodes_bc [OF d, of b] wf
      by (auto intro!: decodes_tag decodes_map simp: bc_elem_def)
  qed (simp add: zeroExtensions_def)
  have 2: "runs extBody (Suc d) (opt_elems (\<lambda>u. ctx_uint 2 (ucast u)) (ex_KeyUsage e)) ?e1 ?e2"
  proof (rule runs_opt)
    fix u assume "ex_KeyUsage e = Some u"
    then show "decodes (extBody ?e1) (Suc d) (ctx_uint 2 (ucast u)) ?e2 \<and> wf_elem maxDepth (ctx_uint 2 (ucast u))"
      unfolding extBody_def by (auto intro!: decodes_intros)
  qed (simp add: zeroExtensions_def)
  have 3: "runs extBody (Suc d) (opt_elems eku_elem (ex_ExtKeyUsage e)) ?e2 ?e3"
  proof (rule runs_opt)
    fix l assume l: "ex_ExtKeyUsage e = Some l"
    with assms(1) have "l \<noteq> []" by (auto simp: ext_ok_def)
    with l show "decodes (extBody ?e2) (Suc d) (eku_elem l) ?e3 \<and> wf_elem maxDepth (eku_elem l)"
      unfolding extBody_def using decodes_eku [OF _ d, of l] wf
      by (auto intro!: decodes_tag decodes_map simp: eku_elem_def)
  qed (simp add: zeroExtensions_def)
  have 4: "runs extBody (Suc d) (opt_elems (\<lambda>b. Prim (Context 4) (PBytes b)) (ex_SubjectKeyID e)) ?e3 ?e4"
  proof (rule runs_opt)
    fix b assume "ex_SubjectKeyID e = Some b"
    with assms(1) show "decodes (extBody ?e3) (Suc d) (Prim (Context 4) (PBytes b)) ?e4 \<and> wf_elem maxDepth (Prim (Context 4) (PBytes b))"
      unfolding extBody_def by (auto intro!: decodes_intros simp: ext_ok_def short_def)
  qed (simp add: zeroExtensions_def)
  have 5: "runs extBody (Suc d) (opt_elems (\<lambda>b. Prim (Context 5) (PBytes b)) (ex_AuthorityKeyID e)) ?e4 ?e5"
  proof (rule runs_opt)
    fix b assume "ex_AuthorityKeyID e = Some b"
    with assms(1) show "decodes (extBody ?e4) (Suc d) (Prim (Context 5) (PBytes b)) ?e5 \<and> wf_elem maxDepth (Prim (Context 5) (PBytes b))"
      unfolding extBody_def by (auto intro!: decodes_intros simp: ext_ok_def short_def)
  qed (simp add: zeroExtensions_def)
  have "?e5 = e" by (cases e) simp
  with runs_append [OF 1 runs_append [OF 2 runs_append [OF 3 runs_append [OF 4 5]]]] show ?thesis
    unfolding ext_elems_def by (simp only:)
qed

definition cert_ok :: "Cert \<Rightarrow> bool" where
  "cert_ok c \<longleftrightarrow> short (ce_SerialNumber c) \<and> list_all attr_ok (ce_Issuer c) \<and> list_all attr_ok (ce_Subject c)
     \<and> short (ce_PublicKey c) \<and> ext_ok (ce_Extensions c) \<and> short (ce_Signature c)"

definition cert_elem :: "Cert \<Rightarrow> elem" where
  "cert_elem c = Cont Anonymous CStructure
     [Prim (Context 1) (PBytes (ce_SerialNumber c)), ctx_uint 2 (ce_SigAlgo c), dn_elem 3 (ce_Issuer c),
      ctx_uint 4 (ucast (ce_NotBefore c)), ctx_uint 5 (ucast (ce_NotAfter c)), dn_elem 6 (ce_Subject c),
      ctx_uint 7 (ce_PubKeyAlgo c), ctx_uint 8 (ce_CurveID c), Prim (Context 9) (PBytes (ce_PublicKey c)),
      Cont (Context 10) CList (ext_elems (ce_Extensions c)), Prim (Context 11) (PBytes (ce_Signature c))]"

lemma foldl_attrs: "foldl encodeAttr (WS b d) dn = WS (b @ encs (List.map attr_elem dn)) d"
proof (induction dn arbitrary: b)
  case (Cons a dn)
  have "encodeAttr (WS b d) a = WS (b @ enc (attr_elem a)) d"
    by (simp add: encodeAttr_def attr_elem_def attr_tag_def writer_WS del: enc.simps)
  with Cons show ?case by simp
qed simp

lemma encodeDN_WS: "encodeDN (WS b (Suc d)) n dn = WS (b @ enc (dn_elem n dn)) (Suc d)"
  by (simp add: encodeDN_def writer_WS foldl_attrs dn_elem_def)

lemma foldl_eku: "foldl (\<lambda>w v. Writer_PutUint w Anonymous (ucast v)) (WS b d) l
    = WS (b @ encs (List.map (\<lambda>v :: u8. Prim Anonymous (PUint (ucast v))) l)) d"
  by (induction l arbitrary: b) (simp_all add: writer_WS)

lemma put_opt_WS:
  assumes "\<And>v. f (WS b d) v = WS (b @ enc (g v)) d"
  shows "put_opt f x (WS b d) = WS (b @ encs (opt_elems g x)) d"
  using assms by (cases x) (simp_all add: put_opt_def)

lemma encodeBasicConstraints_WS: "encodeBasicConstraints (WS b d) bc = WS (b @ enc (bc_elem bc)) d"
  unfolding encodeBasicConstraints_def Let_def
  by (simp only: writer_WS tag_ok_simps put_opt_WS [where g = "\<lambda>p. ctx_uint 2 (ucast p)"] writer_close_WS)
    (simp add: bc_elem_def opt_elems_def)

lemma encodeExtKeyUsage_WS: "encodeExtKeyUsage (WS b d) l = WS (b @ enc (eku_elem l)) d"
  by (simp add: encodeExtKeyUsage_def writer_WS foldl_eku eku_elem_def)

lemma encodeExtensions_WS: "encodeExtensions (WS b (Suc d)) e
    = WS (b @ enc (Cont (Context 10) CList (ext_elems e))) (Suc d)"
  unfolding encodeExtensions_def Let_def
  by (simp only: writer_WS tag_ok_simps encodeBasicConstraints_WS encodeExtKeyUsage_WS
      put_opt_WS [where f = encodeBasicConstraints and g = bc_elem] put_opt_WS [where f = encodeExtKeyUsage and g = eku_elem]
      put_opt_WS [where g = "\<lambda>u. ctx_uint 2 (ucast u)"] put_opt_WS [where g = "\<lambda>b. Prim (Context 4) (PBytes b)"]
      put_opt_WS [where g = "\<lambda>b. Prim (Context 5) (PBytes b)"] writer_close_WS)
    (simp add: ext_elems_def)

lemma Cert_Encode_elem: "Cert_Encode c = Inr (enc (cert_elem c))"
  by (simp only: Cert_Encode_def encode_rules encodeDN_WS encodeExtensions_WS) (simp add: cert_elem_def)

lemma dn_elem_wf: "list_all attr_ok dn \<Longrightarrow> wf_elem 1 (dn_elem n dn)"
  by (auto simp: dn_elem_def list_all_iff attr_elem_wf)

lemma ext_elems_wf:
  assumes "ext_ok e" shows "wf_elem 4 (Cont (Context 10) CList (ext_elems e))"
proof -
  have "wf_elem 3 (bc_elem b)" "wf_elem 3 (eku_elem l)" for b l
    using wf_elem_mono [OF ext_elem_wf(1)] wf_elem_mono [OF ext_elem_wf(2)] by simp_all
  then show ?thesis
    using assms by (auto simp: ext_elems_def opt_elems_def ext_ok_def short_def split: option.splits)
qed

lemma cert_member_wf:
  assumes "cert_ok c" "Cont t k es = cert_elem c" "e \<in> set es"
  shows "wf_elem 4 e"
proof -
  have "wf_elem 4 (dn_elem n (ce_Issuer c))" "wf_elem 4 (dn_elem n (ce_Subject c))" for n
    using assms(1) by (auto simp: cert_ok_def intro!: wf_elem_mono [OF dn_elem_wf])
  with assms ext_elems_wf [of "ce_Extensions c"] show ?thesis
    by (auto simp: cert_elem_def cert_ok_def short_def simp del: wf_elem_numeral)
qed

lemma cert_elem_wf: "cert_ok c \<Longrightarrow> wf_elem maxDepth (cert_elem c)"
proof -
  assume ok: "cert_ok c"
  obtain es where c: "cert_elem c = Cont Anonymous CStructure es" by (simp add: cert_elem_def)
  have "wf_elem 5 (cert_elem c)"
    unfolding c using cert_member_wf [OF ok c [symmetric]] by (simp add: list_all_iff)
  then show ?thesis by (rule wf_elem_mono) simp
qed

lemma cert_members_wf:
  assumes "cert_ok c" "\<exists>t k es. Cont t k es = cert_elem c \<and> e \<in> set es"
  shows "wf_elem maxDepth e"
  using assms cert_member_wf wf_elem_mono [of 4 e maxDepth] by auto

lemma decodes_at:
  assumes "elem_tag e = Context k" "\<And>r. r_tag r = Context k \<Longrightarrow> body r = m r" "decodes m d e v"
  shows "decodes body d e v"
  using assms by (auto simp: decodes_def cur_tag)

lemma certBody_at:
  "r_tag r = Context 1 \<Longrightarrow> certBody c r = dec_bind (dec_get Reader_Bytes) (\<lambda>v. dec_return (c\<lparr>ce_SerialNumber := v\<rparr>)) r"
  "r_tag r = Context 2 \<Longrightarrow> certBody c r = dec_bind (dec_get Reader_Uint) (\<lambda>v. dec_return (c\<lparr>ce_SigAlgo := v\<rparr>)) r"
  "r_tag r = Context 3 \<Longrightarrow> certBody c r = dec_bind decodeDN (\<lambda>v. dec_return (c\<lparr>ce_Issuer := v\<rparr>)) r"
  "r_tag r = Context 4 \<Longrightarrow> certBody c r = dec_bind readU32 (\<lambda>v. dec_return (c\<lparr>ce_NotBefore := v\<rparr>)) r"
  "r_tag r = Context 5 \<Longrightarrow> certBody c r = dec_bind readU32 (\<lambda>v. dec_return (c\<lparr>ce_NotAfter := v\<rparr>)) r"
  "r_tag r = Context 6 \<Longrightarrow> certBody c r = dec_bind decodeDN (\<lambda>v. dec_return (c\<lparr>ce_Subject := v\<rparr>)) r"
  "r_tag r = Context 7 \<Longrightarrow> certBody c r = dec_bind (dec_get Reader_Uint) (\<lambda>v. dec_return (c\<lparr>ce_PubKeyAlgo := v\<rparr>)) r"
  "r_tag r = Context 8 \<Longrightarrow> certBody c r = dec_bind (dec_get Reader_Uint) (\<lambda>v. dec_return (c\<lparr>ce_CurveID := v\<rparr>)) r"
  "r_tag r = Context 9 \<Longrightarrow> certBody c r = dec_bind (dec_get Reader_Bytes) (\<lambda>v. dec_return (c\<lparr>ce_PublicKey := v\<rparr>)) r"
  "r_tag r = Context 10 \<Longrightarrow> certBody c r = dec_bind decodeExtensions (\<lambda>v. dec_return (c\<lparr>ce_Extensions := v\<rparr>)) r"
  "r_tag r = Context 11 \<Longrightarrow> certBody c r = dec_bind (dec_get Reader_Bytes) (\<lambda>v. dec_return (c\<lparr>ce_Signature := v\<rparr>)) r"
  by (simp_all add: certBody_def)

text \<open>Every member of a certificate goes to its field.\<close>

lemma decodes_certBody:
  "decodes (certBody c) d (Prim (Context 1) (PBytes b)) (c\<lparr>ce_SerialNumber := b\<rparr>)"
  "decodes (certBody c) d (ctx_uint 2 v) (c\<lparr>ce_SigAlgo := v\<rparr>)"
  "decodes decodeDN d (dn_elem 3 dn) dn \<Longrightarrow> decodes (certBody c) d (dn_elem 3 dn) (c\<lparr>ce_Issuer := dn\<rparr>)"
  "decodes readU32 d (ctx_uint 4 v) t \<Longrightarrow> decodes (certBody c) d (ctx_uint 4 v) (c\<lparr>ce_NotBefore := t\<rparr>)"
  "decodes readU32 d (ctx_uint 5 v) t \<Longrightarrow> decodes (certBody c) d (ctx_uint 5 v) (c\<lparr>ce_NotAfter := t\<rparr>)"
  "decodes decodeDN d (dn_elem 6 dn) dn \<Longrightarrow> decodes (certBody c) d (dn_elem 6 dn) (c\<lparr>ce_Subject := dn\<rparr>)"
  "decodes (certBody c) d (ctx_uint 7 v) (c\<lparr>ce_PubKeyAlgo := v\<rparr>)"
  "decodes (certBody c) d (ctx_uint 8 v) (c\<lparr>ce_CurveID := v\<rparr>)"
  "decodes (certBody c) d (Prim (Context 9) (PBytes b)) (c\<lparr>ce_PublicKey := b\<rparr>)"
  "decodes decodeExtensions d (Cont (Context 10) CList es) e \<Longrightarrow>
     decodes (certBody c) d (Cont (Context 10) CList es) (c\<lparr>ce_Extensions := e\<rparr>)"
  "decodes (certBody c) d (Prim (Context 11) (PBytes b)) (c\<lparr>ce_Signature := b\<rparr>)"
proof -
  show "decodes (certBody c) d (Prim (Context 1) (PBytes b)) (c\<lparr>ce_SerialNumber := b\<rparr>)"
    by (rule decodes_at [where k = 1, OF _ certBody_at(1)]) (simp, assumption, (rule decodes_intros; simp?)+)
  show "decodes (certBody c) d (ctx_uint 2 v) (c\<lparr>ce_SigAlgo := v\<rparr>)"
    by (rule decodes_at [where k = 2, OF _ certBody_at(2)]) (simp, assumption, (rule decodes_intros; simp?)+)
  show "decodes (certBody c) d (dn_elem 3 dn) (c\<lparr>ce_Issuer := dn\<rparr>)" if "decodes decodeDN d (dn_elem 3 dn) dn"
    by (rule decodes_at [where k = 3, OF _ certBody_at(3)]) (simp add: dn_elem_def, assumption, rule decodes_map [OF that refl])
  show "decodes (certBody c) d (ctx_uint 4 v) (c\<lparr>ce_NotBefore := t\<rparr>)" if "decodes readU32 d (ctx_uint 4 v) t"
    by (rule decodes_at [where k = 4, OF _ certBody_at(4)]) (simp add: dn_elem_def, assumption, rule decodes_map [OF that refl])
  show "decodes (certBody c) d (ctx_uint 5 v) (c\<lparr>ce_NotAfter := t\<rparr>)" if "decodes readU32 d (ctx_uint 5 v) t"
    by (rule decodes_at [where k = 5, OF _ certBody_at(5)]) (simp add: dn_elem_def, assumption, rule decodes_map [OF that refl])
  show "decodes (certBody c) d (dn_elem 6 dn) (c\<lparr>ce_Subject := dn\<rparr>)" if "decodes decodeDN d (dn_elem 6 dn) dn"
    by (rule decodes_at [where k = 6, OF _ certBody_at(6)]) (simp add: dn_elem_def, assumption, rule decodes_map [OF that refl])
  show "decodes (certBody c) d (ctx_uint 7 v) (c\<lparr>ce_PubKeyAlgo := v\<rparr>)"
    by (rule decodes_at [where k = 7, OF _ certBody_at(7)]) (simp, assumption, (rule decodes_intros; simp?)+)
  show "decodes (certBody c) d (ctx_uint 8 v) (c\<lparr>ce_CurveID := v\<rparr>)"
    by (rule decodes_at [where k = 8, OF _ certBody_at(8)]) (simp, assumption, (rule decodes_intros; simp?)+)
  show "decodes (certBody c) d (Prim (Context 9) (PBytes b)) (c\<lparr>ce_PublicKey := b\<rparr>)"
    by (rule decodes_at [where k = 9, OF _ certBody_at(9)]) (simp, assumption, (rule decodes_intros; simp?)+)
  show "decodes (certBody c) d (Cont (Context 10) CList es) (c\<lparr>ce_Extensions := e\<rparr>)" if "decodes decodeExtensions d (Cont (Context 10) CList es) e"
    by (rule decodes_at [where k = 10, OF _ certBody_at(10)]) (simp add: dn_elem_def, assumption, rule decodes_map [OF that refl])
  show "decodes (certBody c) d (Prim (Context 11) (PBytes b)) (c\<lparr>ce_Signature := b\<rparr>)"
    by (rule decodes_at [where k = 11, OF _ certBody_at(11)]) (simp, assumption, (rule decodes_intros; simp?)+)
qed

lemma decodes_cert:
  assumes ok: "cert_ok c"
  shows "decodes (each_member certBody zeroCert) 0 (cert_elem c) c"
proof -
  have len: "prim_ok (PBytes (ce_SerialNumber c))" "prim_ok (PBytes (ce_PublicKey c))" "prim_ok (PBytes (ce_Signature c))"
    using ok by (simp_all add: cert_ok_def short_def)
  have dn: "decodes decodeDN 1 (dn_elem n (ce_Issuer c)) (ce_Issuer c)" "decodes decodeDN 1 (dn_elem n (ce_Subject c)) (ce_Subject c)" for n
    using ok by (auto intro!: decodes_dn simp: cert_ok_def)
  have ex: "decodes decodeExtensions 1 (Cont (Context 10) CList (ext_elems (ce_Extensions c))) (ce_Extensions c)"
    unfolding decodeExtensions_def
    using decodes_ext_members [of "ce_Extensions c" 1] ok
    by (intro decodes_typ decodes_each_member) (simp_all add: cert_ok_def)
  have u: "decodes readU32 1 (ctx_uint n (ucast v)) v" for n and v :: u32
  proof -
    have "\<not> 0xFFFFFFFF < (ucast v :: u64)"
      using unsigned_less [of v, where 'a = nat] by (simp add: word_less_nat_alt unsigned_ucast_eq take_bit_nat_eq_self)
    then show ?thesis
      unfolding readU32_def by (intro decodes_gets(1)) (simp add: decodes_return)
  qed
  let ?c1 = "zeroCert\<lparr>ce_SerialNumber := ce_SerialNumber c\<rparr>"
  let ?c2 = "?c1\<lparr>ce_SigAlgo := ce_SigAlgo c\<rparr>"
  let ?c3 = "?c2\<lparr>ce_Issuer := ce_Issuer c\<rparr>"
  let ?c4 = "?c3\<lparr>ce_NotBefore := ce_NotBefore c\<rparr>"
  let ?c5 = "?c4\<lparr>ce_NotAfter := ce_NotAfter c\<rparr>"
  let ?c6 = "?c5\<lparr>ce_Subject := ce_Subject c\<rparr>"
  let ?c7 = "?c6\<lparr>ce_PubKeyAlgo := ce_PubKeyAlgo c\<rparr>"
  let ?c8 = "?c7\<lparr>ce_CurveID := ce_CurveID c\<rparr>"
  let ?c9 = "?c8\<lparr>ce_PublicKey := ce_PublicKey c\<rparr>"
  let ?c10 = "?c9\<lparr>ce_Extensions := ce_Extensions c\<rparr>"
  let ?c11 = "?c10\<lparr>ce_Signature := ce_Signature c\<rparr>"
  have c: "?c11 = c" by (cases c) simp
  have "runs certBody 1
     [Prim (Context 1) (PBytes (ce_SerialNumber c)), ctx_uint 2 (ce_SigAlgo c), dn_elem 3 (ce_Issuer c),
      ctx_uint 4 (ucast (ce_NotBefore c)), ctx_uint 5 (ucast (ce_NotAfter c)), dn_elem 6 (ce_Subject c),
      ctx_uint 7 (ce_PubKeyAlgo c), ctx_uint 8 (ce_CurveID c), Prim (Context 9) (PBytes (ce_PublicKey c)),
      Cont (Context 10) CList (ext_elems (ce_Extensions c)), Prim (Context 11) (PBytes (ce_Signature c))]
     zeroCert ?c11"
    by (rule runs.Cons [where ?s1.0 = ?c1], rule decodes_certBody, rule cert_members_wf [OF ok], simp add: cert_elem_def,
        rule runs.Cons [where ?s1.0 = ?c2], rule decodes_certBody, rule cert_members_wf [OF ok], simp add: cert_elem_def,
        rule runs.Cons [where ?s1.0 = ?c3], rule decodes_certBody, rule dn, rule cert_members_wf [OF ok], simp add: cert_elem_def,
        rule runs.Cons [where ?s1.0 = ?c4], rule decodes_certBody, rule u, rule cert_members_wf [OF ok], simp add: cert_elem_def,
        rule runs.Cons [where ?s1.0 = ?c5], rule decodes_certBody, rule u, rule cert_members_wf [OF ok], simp add: cert_elem_def,
        rule runs.Cons [where ?s1.0 = ?c6], rule decodes_certBody, rule dn, rule cert_members_wf [OF ok], simp add: cert_elem_def,
        rule runs.Cons [where ?s1.0 = ?c7], rule decodes_certBody, rule cert_members_wf [OF ok], simp add: cert_elem_def,
        rule runs.Cons [where ?s1.0 = ?c8], rule decodes_certBody, rule cert_members_wf [OF ok], simp add: cert_elem_def,
        rule runs.Cons [where ?s1.0 = ?c9], rule decodes_certBody, rule cert_members_wf [OF ok], simp add: cert_elem_def,
        rule runs.Cons [where ?s1.0 = ?c10], rule decodes_certBody, rule ex, rule cert_members_wf [OF ok], simp add: cert_elem_def,
        rule runs.Cons [where ?s1.0 = ?c11], rule decodes_certBody, rule cert_members_wf [OF ok], simp add: cert_elem_def,
        rule runs.Nil)
  then show ?thesis unfolding c cert_elem_def by (intro decodes_each_member) simp_all
qed

lemma cert_decodes: "cert_ok c \<Longrightarrow> Cert_Decode (enc (cert_elem c)) = Some (Inr c)"
  using dec_top_message [OF cert_elem_wf _ decodes_cert, of c]
  by (simp add: Cert_Decode_def cert_elem_def del: enc.simps)

text \<open>C33: A certificate that is encoded and decoded again is the same certificate, for any serial number,
  any order of name attributes of either kind, with or without each extension, and any signature.\<close>

theorem cert_roundtrip:
  assumes "cert_ok c"
  shows "\<exists>b. Cert_Encode c = Inr b \<and> Cert_Decode b = Some (Inr c)"
  using cert_decodes [OF assms] by (simp add: Cert_Encode_elem del: enc.simps)

section \<open>Decoding returns\<close>

lemma returns_leaf: "returns (dnBody dn)" "returns (bcBody bc)" "returns (uintArrayBody l)" "returns readU32"
  by (simp_all add: dnBody_def bcBody_def uintArrayBody_def readU32_def Let_def returns_on_def dec_bind_def
      dec_get_def dec_return_def dec_fail_def split: sum.split)

lemma returns_on_leaf: "returns m \<Longrightarrow> returns_on P m"
  by (auto simp: returns_on_def)

lemma returns_parts: "returns_on P decodeDN" "returns_on P decodeBasicConstraints" "returns_on P decodeUintArray"
    "returns_on P decodeExtensions"
proof -
  note leaf = returns_leaf [THEN returns_on_leaf]
  show "returns_on P decodeDN" "returns_on P decodeUintArray" for P
    unfolding decodeDN_def decodeUintArray_def by (intro returns_intros leaf)+
  show bc: "returns_on P decodeBasicConstraints" for P
    unfolding decodeBasicConstraints_def by (intro returns_intros leaf)
  have a: "returns_on P decodeUintArray" for P
    unfolding decodeUintArray_def by (intro returns_intros leaf)
  show "returns_on P decodeExtensions"
    unfolding decodeExtensions_def extBody_def by (intro returns_intros bc a)
qed

lemma Cert_Decode_returns: "\<exists>y. Cert_Decode b = Some y"
  unfolding Cert_Decode_def certBody_def
  by (intro dec_top_returns returns_intros returns_parts returns_leaf [THEN returns_on_leaf])

end
