(* ===== verification/Cert_Signed.thy ===== *)
theory Cert_Signed
  imports Cert_Properties
begin

text \<open>
  What the signed form of a certificate determines: two certificates with the same DER form agree in all
  that the code reads of them afterwards, so a signature that verifies is one on this certificate. With a
  signer that signs only what it issues, an accepted chain names an issued certificate.
\<close>

section \<open>Elements\<close>

fun der_value :: "nat \<Rightarrow> bytes \<Rightarrow> nat" where
  "der_value acc [] = acc"
| "der_value acc (b # bs) = der_value (256 * acc + unat b) bs"

lemma der_value_append: "der_value acc (xs @ ys) = der_value (der_value acc xs) ys"
  by (induction xs arbitrary: acc) auto

lemma der_digits_0 [simp]: "der_digits 0 t = t"
  by (subst der_digits.simps) simp

lemma der_digits_append: "der_digits n tmp = der_digits n [] @ tmp"
proof (induction n arbitrary: tmp rule: less_induct)
  case (less n)
  show ?case
  proof (cases "0 < n")
    case True
    then have "der_digits (n div 256) (of_nat n # t) = der_digits (n div 256) [] @ of_nat n # t" for t by (intro less) simp
    with True show ?thesis by (subst (1 2) der_digits.simps) simp
  qed simp
qed

lemma der_digits_rec: "0 < n \<Longrightarrow> der_digits n [] = der_digits (n div 256) [] @ [of_nat n]"
  by (subst der_digits.simps) (simp add: der_digits_append [of "n div 256" "[of_nat n]"])

lemma unat_of_nat_byte: "unat (of_nat n :: byte) = n mod 256"
  by (simp add: unsigned_of_nat take_bit_eq_mod)

lemma der_value_digits: "der_value 0 (der_digits n []) = n"
proof (induction n rule: less_induct)
  case (less n)
  show ?case
  proof (cases "0 < n")
    case True
    with less [of "n div 256"] show ?thesis by (simp add: der_digits_rec der_value_append unat_of_nat_byte)
  qed simp
qed

lemma length_der_digits: "n < 256 ^ k \<Longrightarrow> length (der_digits n []) \<le> k"
proof (induction k arbitrary: n)
  case (Suc k)
  then have "n div 256 < 256 ^ k" by (simp add: less_mult_imp_div_less mult.commute)
  with Suc.IH [of "n div 256"] show ?case by (cases "0 < n") (simp_all add: der_digits_rec)
qed simp

lemma length_octet:
  assumes "l \<le> 8"
  shows "unat (0x80 OR of_nat l :: byte) = 0x80 + l"
proof -
  from assms have "l \<in> {..8}" by simp
  also have "{..8} = {0, 1, 2, 3, 4, 5, 6, 7, 8 :: nat}" by (simp add: atMost_nat_numeral atMost_Suc insert_commute)
  finally show ?thesis by (elim insertE emptyE) simp_all
qed

lemma length_der_64: "k < 2 ^ 64 \<Longrightarrow> length (der_digits k []) \<le> 8"
  by (rule length_der_digits) simp

lemma derLen_long: "\<not> n < 0x80 \<Longrightarrow> derLen n @ x = (0x80 OR of_nat (length (der_digits n []))) # der_digits n [] @ x"
  by (simp add: derLen_def Let_def)

lemma derLen_short: "n < 0x80 \<Longrightarrow> derLen n @ x = of_nat n # x"
  by (simp add: derLen_def)

lemma unat_short: "n < 0x80 \<Longrightarrow> unat (of_nat n :: byte) = n"
  by (simp add: unat_of_nat_byte)

lemma derLen_apart:
  assumes "k < 0x80" "\<not> l < 0x80" "l < 2 ^ 64"
  shows "derLen k @ u \<noteq> derLen l @ v"
proof
  assume "derLen k @ u = derLen l @ v"
  then have "unat (of_nat k :: byte) = unat (0x80 OR of_nat (length (der_digits l [])) :: byte)"
    unfolding derLen_short [OF assms(1)] derLen_long [OF assms(2)] list.inject by (elim conjE) (rule arg_cong)
  then have "k = 0x80 + length (der_digits l [])"
    unfolding unat_short [OF assms(1)] length_octet [OF length_der_64 [OF assms(3)]] .
  with assms(1) show False by simp
qed

lemma derLen_inj:
  assumes "derLen n @ x = derLen m @ y" "n < 2 ^ 64" "m < 2 ^ 64"
  shows "n = m \<and> x = y"
proof -
  consider (ss) "n < 0x80" "m < 0x80" | (sb) "n < 0x80" "\<not> m < 0x80" | (bs) "\<not> n < 0x80" "m < 0x80"
    | (bb) "\<not> n < 0x80" "\<not> m < 0x80" by blast
  then show ?thesis
  proof cases
    case ss
    from assms(1) have e: "(of_nat n :: byte) = of_nat m \<and> x = y"
      unfolding derLen_short [OF ss(1)] derLen_short [OF ss(2)] list.inject .
    have "n = m" using arg_cong [OF e [THEN conjunct1], of unat] unfolding unat_short [OF ss(1)] unat_short [OF ss(2)] .
    with e show ?thesis by blast
  next
    case sb
    from derLen_apart [OF sb assms(3)] assms(1) show ?thesis by (rule notE)
  next
    case bs
    from derLen_apart [OF bs(2,1) assms(2)] assms(1) [symmetric] show ?thesis by (rule notE)
  next
    case bb
    let ?a = "der_digits n []" and ?b = "der_digits m []"
    from assms(1) have eq: "(0x80 OR of_nat (length ?a) :: byte) = 0x80 OR of_nat (length ?b) \<and> ?a @ x = ?b @ y"
      unfolding derLen_long [OF bb(1)] derLen_long [OF bb(2)] list.inject .
    have "0x80 + length ?a = 0x80 + length ?b"
      using arg_cong [OF eq [THEN conjunct1], of unat]
      unfolding length_octet [OF length_der_64 [OF assms(2)]] length_octet [OF length_der_64 [OF assms(3)]] .
    then have "length ?a = length ?b" by simp
    with eq have ab: "?a = ?b" and xy: "x = y" by simp_all
    have "n = m" using arg_cong [OF ab, of "der_value 0"] unfolding der_value_digits .
    with xy show ?thesis by blast
  qed
qed

lemma short_append: "short (xs @ ys) \<Longrightarrow> short xs \<and> short ys"
  by (simp add: short_def)

lemma short_der: "short (derTLV t c @ r) \<Longrightarrow> short c \<and> short r"
  by (simp add: short_def derTLV_def)

lemma short_der1: "short (derTLV t c) \<Longrightarrow> short c"
  by (simp add: short_def derTLV_def)

text \<open>An element is read back from the front of what follows it.\<close>

lemma der_inj:
  assumes "derTLV t c @ r = derTLV t' c' @ r'" "short (derTLV t c @ r)"
  shows "t = t' \<and> c = c' \<and> r = r'"
proof -
  have s: "short c" "short c'" using short_der [of t c r] short_der [of t' c' r'] assms by simp_all
  have "derLen (length c) @ c @ r = derLen (length c') @ c' @ r'" using assms(1) by (simp add: derTLV_def)
  from derLen_inj [OF this] s have "length c = length c'" "c @ r = c' @ r'" by (simp_all add: short_def)
  with assms(1) show ?thesis by (simp add: derTLV_def)
qed

lemma der_inj1: "derTLV t c = derTLV t' c' \<Longrightarrow> short (derTLV t c) \<Longrightarrow> t = t' \<and> c = c'"
  using der_inj [of t c "[]" t' c' "[]"] by simp

text \<open>All the named forms are elements.\<close>

lemmas der_forms = derSeq_def derSet_def derOID_def derOctet_def derUTF8_def derPrintable_def derBitString_def

section \<open>Integers, names and times\<close>

lemma strip_zeros_hd: "strip_zeros m = b # c # r \<Longrightarrow> b \<noteq> 0"
  by (induction m rule: strip_zeros.induct) (auto split: if_splits)

lemma derInt_inj:
  assumes "derInt m @ r = derInt m' @ r'" "short (derInt m @ r)"
  shows "strip_zeros m = strip_zeros m' \<and> r = r'"
proof -
  define f where "f s = (if s \<noteq> [] \<and> hd s AND 0x80 \<noteq> (0 :: byte) then 0x00 # s else s)" for s
  have d: "derInt x = derTLV 0x02 (f (strip_zeros x))" for x by (simp add: derInt_def f_def Let_def)
  from der_inj [OF assms [unfolded d]] have e: "f (strip_zeros m) = f (strip_zeros m')" "r = r'" by simp_all
  have no: False if "0x00 # s = strip_zeros x" "s \<noteq> []" for s x
    using that strip_zeros_hd [of x "0x00" "hd s" "tl s"] by simp
  have "strip_zeros m = strip_zeros m'"
    using e(1) no [of "strip_zeros m" m'] no [of "strip_zeros m'" m] by (auto simp: f_def split: if_splits)
  with e(2) show ?thesis by simp
qed

fun unhex :: "nat \<Rightarrow> bytes \<Rightarrow> nat" where
  "unhex acc [] = acc"
| "unhex acc (b # bs) = unhex (16 * acc + (if unat b < 0x41 then unat b - 0x30 else unat b - 0x41 + 10)) bs"

lemma unhex_append: "unhex acc (xs @ ys) = unhex (unhex acc xs) ys"
  by (induction xs arbitrary: acc) auto

lemma unhex_digit: "d < 16 \<Longrightarrow> unhex acc [upper_hex d] = 16 * acc + d"
proof -
  assume d: "d < 16"
  show ?thesis
  proof (cases "d < 10")
    case True
    then have "unat (0x30 + of_nat d :: byte) = 0x30 + d" by (simp add: unat_word_ariths unat_of_nat_byte)
    with True show ?thesis by (simp add: upper_hex_def)
  next
    case False
    define k where "k = d - 10"
    have k: "d = k + 10" "k < 6" using False d by (simp_all add: k_def)
    then have "unat (0x41 + of_nat k :: byte) = 0x41 + k" by (simp add: unat_word_ariths unat_of_nat_byte)
    then show ?thesis using k by (simp add: upper_hex_def del: of_nat_add)
  qed
qed

lemma unhex_digits: "unhex 0 (hex_digits n) = n"
proof (induction n rule: less_induct)
  case (less n)
  show ?case
  proof (cases "n < 16")
    case True
    then show ?thesis using unhex_digit [of n 0] by (subst hex_digits.simps) simp
  next
    case False
    then have "unhex 0 (hex_digits (n div 16)) = n div 16" by (intro less) simp
    with False unhex_digit [of "n mod 16" "n div 16"] show ?thesis
      by (subst hex_digits.simps) (simp add: unhex_append)
  qed
qed

lemma pad_hex_inj: "pad_hex w n = pad_hex w m \<Longrightarrow> n = m"
proof -
  have "unhex 0 (replicate k 0x30) = 0" for k by (induction k) auto
  then have "unhex 0 (pad_hex w k) = k" for w k by (simp add: pad_hex_def Let_def unhex_append unhex_digits)
  then show "pad_hex w n = pad_hex w m \<Longrightarrow> n = m" by metis
qed

text \<open>The tag of an attribute decides what of it is signed.\<close>

definition attr_same :: "Attr \<Rightarrow> Attr \<Rightarrow> bool" where
  "attr_same a b \<longleftrightarrow> at_Tag a = at_Tag b
     \<and> (if at_Tag a = DNCommonName then at_Printable a = at_Printable b \<and> at_String a = at_String b
        else at_Value a = at_Value b)"

lemma attrDER_inj:
  assumes "attrDER a = Inr x" "attrDER b = Inr y" "x @ r = y @ r'" "short (x @ r)"
  shows "attr_same a b \<and> r = r'"
proof -
  define oid where "oid a = (if at_Tag (a :: Attr) = DNCommonName then oidCommonName else matterDNArc @ [at_Tag a - 16])" for a
  define val where "val a = (if at_Tag (a :: Attr) = DNCommonName then derTLV (if at_Printable a then 0x13 else 0x0C) (at_String a)
    else derTLV 0x0C (pad_hex (if at_Tag a = DNMatterCASEAuthTag then 8 else 16) (unat (at_Value a))))" for a
  have f: "z = derTLV 0x31 (derTLV 0x30 (derTLV 0x06 (oid c) @ val c))" if "attrDER c = Inr z" for c z
  proof (cases "at_Tag c = DNCommonName")
    case True
    moreover have "\<not> DNMatterNodeID \<le> DNCommonName" by (simp add: word_le_nat_alt)
    ultimately show ?thesis using that by (auto simp: attrDER_def der_forms oid_def val_def)
  next
    case False
    then show ?thesis using that by (auto simp: attrDER_def der_forms oid_def val_def Let_def split: if_splits)
  qed
  note e = assms(3,4) [unfolded f [OF assms(1)] f [OF assms(2)]]
  note e1 = der_inj [OF e] and s1 = short_der [OF e(2)]
  have e2: "derTLV 0x30 (derTLV 0x06 (oid a) @ val a) @ [] = derTLV 0x30 (derTLV 0x06 (oid b) @ val b) @ []"
    using e1 by simp
  have s2: "short (derTLV 0x30 (derTLV 0x06 (oid a) @ val a) @ [])" using s1 by simp
  have e3: "derTLV 0x06 (oid a) @ val a = derTLV 0x06 (oid b) @ val b" "short (derTLV 0x06 (oid a) @ val a)"
    using der_inj [OF e2 s2] short_der [OF s2] by simp_all
  note e4 = der_inj [OF e3] and s4 = short_der [OF e3(2)]
  have tag: "at_Tag a = at_Tag b"
    using e4 by (auto simp: oid_def oid_defs split: if_splits)
  have v: "val a = val b" "short (val a)" using e4 s4 by simp_all
  have "attr_same a b"
  proof (cases "at_Tag a = DNCommonName")
    case True
    let ?t = "\<lambda>p. if p then 0x13 else 0x0C :: byte"
    have "derTLV (?t (at_Printable a)) (at_String a) = derTLV (?t (at_Printable b)) (at_String b)"
      "short (derTLV (?t (at_Printable a)) (at_String a))"
      using v True tag by (simp_all only: val_def if_True refl)
    from der_inj1 [OF this] True tag show ?thesis by (auto simp: attr_same_def split: if_splits)
  next
    case False
    let ?w = "if at_Tag a = DNMatterCASEAuthTag then 8 else 16"
    have "derTLV 0x0C (pad_hex ?w (unat (at_Value a))) = derTLV 0x0C (pad_hex ?w (unat (at_Value b)))"
      "short (derTLV 0x0C (pad_hex ?w (unat (at_Value a))))"
      using v False tag by (simp_all add: val_def)
    then have "unat (at_Value a) = unat (at_Value b)" by (intro pad_hex_inj [of ?w]) (simp add: der_inj1)
    then have "at_Value a = at_Value b" by (rule word_unat_eq_iff [THEN iffD2])
    with False tag show ?thesis by (simp add: attr_same_def)
  qed
  with e1 show ?thesis by simp
qed


definition dn_same :: "DN \<Rightarrow> DN \<Rightarrow> bool" where
  "dn_same = list_all2 attr_same"

lemma attrDER_nonempty: "attrDER a = Inr x \<Longrightarrow> x \<noteq> []"
  by (auto simp: attrDER_def derSet_def derTLV_def Let_def split: if_splits)

lemma rdnsDER_inj:
  assumes "rdnsDER d = Inr x" "rdnsDER d' = Inr x" "short x"
  shows "dn_same d d'"
  using assms
proof (induction d arbitrary: d' x)
  case Nil
  then show ?case by (cases d') (auto simp: dn_same_def split: sum.splits dest: attrDER_nonempty)
next
  case (Cons a d)
  obtain u v where u: "attrDER a = Inr u" "rdnsDER d = Inr v" "x = u @ v"
    using Cons.prems(1) by (auto split: sum.splits)
  show ?case
  proof (cases d')
    case Nil
    with u Cons.prems(2) show ?thesis by (auto dest: attrDER_nonempty)
  next
    case d': (Cons b e)
    obtain u' v' where u': "attrDER b = Inr u'" "rdnsDER e = Inr v'" "x = u' @ v'"
      using Cons.prems(2) d' by (auto split: sum.splits)
    have eq: "u @ v = u' @ v'" "short (u @ v)" using u(3) u'(3) Cons.prems(3) by simp_all
    from attrDER_inj [OF u(1) u'(1) eq] have ab: "attr_same a b" "v = v'" by simp_all
    with Cons.IH [OF u(2), of e] u'(2) short_append [OF eq(2)] d' show ?thesis by (simp add: dn_same_def)
  qed
qed

lemma dnDER_inj:
  assumes "dnDER d = Inr x" "dnDER d' = Inr y" "x @ r = y @ r'" "short (x @ r)"
  shows "dn_same d d' \<and> r = r' \<and> short r"
proof -
  obtain u where u: "rdnsDER d = Inr u" "x = derTLV 0x30 u"
    using assms(1) by (cases "rdnsDER d") (auto simp: dnDER_def derSeq_def)
  obtain v where v: "rdnsDER d' = Inr v" "y = derTLV 0x30 v"
    using assms(2) by (cases "rdnsDER d'") (auto simp: dnDER_def derSeq_def)
  from der_inj [OF assms(3,4) [unfolded u(2) v(2)]] short_der [OF assms(4) [unfolded u(2)]] rdnsDER_inj u(1) v(1)
  show ?thesis by auto
qed

lemma two_digits: "n < 100 \<Longrightarrow> length (pad 2 n) = 2"
  by (rule length_pad) simp_all

lemma pad_inj: "pad w n = pad w m \<Longrightarrow> n = m"
proof -
  assume "pad w n = pad w m"
  then have "digits_value 0 (pad w n) = digits_value 0 (pad w m)" by (rule arg_cong)
  then show "n = m" by (simp add: digits_value_pad)
qed

lemma Format_clock_inj:
  assumes "Format_clock s = Format_clock t" "s < 86400" "t < 86400"
  shows "s = t"
proof -
  have "x div 3600 < 100 \<and> x div 60 mod 60 < 100 \<and> x mod 60 < 100" if "x < 86400" for x :: nat
    using that by auto
  then have len: "length (pad 2 (x div 3600)) = 2" "length (pad 2 (x div 60 mod 60)) = 2" "length (pad 2 (x mod 60)) = 2"
    if "x < 86400" for x using that two_digits by blast+
  from assms(1) have "pad 2 (s div 3600) = pad 2 (t div 3600)" "pad 2 (s div 60 mod 60) = pad 2 (t div 60 mod 60)"
    "pad 2 (s mod 60) = pad 2 (t mod 60)"
    unfolding Format_clock_def using len [OF assms(2)] len [OF assms(3)] by simp_all
  then have e: "s div 3600 = t div 3600" "s div 60 mod 60 = t div 60 mod 60" "s mod 60 = t mod 60" by (auto dest: pad_inj)
  have "x div 60 = 60 * (x div 3600) + x div 60 mod 60" for x :: nat
  proof -
    have "x div 3600 = x div 60 div 60" by (simp add: div_mult2_eq [symmetric])
    then show ?thesis by simp
  qed
  then have "s div 60 = t div 60" using e by metis
  with e(3) show ?thesis by (metis div_mult_mod_eq)
qed

text \<open>The date of a number of seconds.\<close>

lemma matter_date:
  obtains y m d where "fst (matter_time sec) = (y, m, d)" "valid (y, m, d)"
    "day_number (y, m, d) = day_number (2000, 1, 1) + int (unat sec div 86400)" "2000 \<le> y" "y < 9999"
proof -
  let ?n = "unat sec div 86400" and ?t = "(2000, 1, 1) :: date"
  have v: "valid ?t" by (simp add: days_in_def)
  obtain y m d where t: "AddDate ?t 0 0 (int ?n) = (y, m, d)" by (cases "AddDate ?t 0 0 (int ?n)")
  have f: "(next_day ^^ ?n) ?t = (y, m, d)" using AddDate_days [OF v, of ?n] t by simp
  have vd: "valid (y, m, d)" "day_number (y, m, d) = day_number ?t + int ?n"
    using next_days [OF v, of ?n] unfolding f by blast+
  have "2000 \<le> y"
  proof (cases "?n = 0")
    case True
    with f show ?thesis by simp
  next
    case False
    then show ?thesis using next_days_greater [OF v, of ?n] unfolding f by (auto simp: less_eq_prod_def)
  qed
  moreover have "y < 9999"
  proof (rule ccontr)
    assume "\<not> y < 9999"
    then have "9999 \<le> y" by simp
    have "0 \<le> days_before_month y m" by (simp add: days_before_month_def)
    moreover have "(y - 1) div 100 \<le> (y - 1) div 4" by (rule zdiv_mono2) (use \<open>9999 \<le> y\<close> in simp_all)
    moreover have "0 \<le> (y - 1) div 400" using \<open>9999 \<le> y\<close> by simp
    moreover have "1 \<le> d" using vd(1) by simp
    ultimately have "365 * 9998 \<le> day_number (y, m, d)" using \<open>9999 \<le> y\<close> by simp
    moreover have "unat sec < 2 ^ 32" using unsigned_less [of sec, where 'a = nat] by simp
    then have "?n \<le> 49711" by simp
    moreover have "day_number ?t = 730119" by (simp add: days_before_month_def)
    ultimately show False using vd(2) by simp
  qed
  ultimately show thesis using that [of y m d] vd t by (simp add: matter_time_def del: valid.simps day_number.simps)
qed

lemma matter_time_inj:
  assumes "fst (matter_time s) = fst (matter_time t)" "snd (matter_time s) = snd (matter_time t)"
  shows "s = t"
proof -
  obtain y m d where s: "fst (matter_time s) = (y, m, d)"
    "day_number (y, m, d) = day_number (2000, 1, 1) + int (unat s div 86400)" by (rule matter_date)
  obtain y' m' d' where t: "fst (matter_time t) = (y', m', d')"
    "day_number (y', m', d') = day_number (2000, 1, 1) + int (unat t div 86400)" by (rule matter_date)
  have "(y, m, d) = (y', m', d')" using assms(1) s(1) t(1) by simp
  with s(2) t(2) have "unat s div 86400 = unat t div 86400" by simp
  moreover have "unat s mod 86400 = unat t mod 86400" using assms(2) by (simp add: matter_time_def)
  ultimately have "unat s = unat t" by (metis div_mult_mod_eq)
  then show ?thesis by (rule word_unat_eq_iff [THEN iffD2])
qed

fun time_body :: "date \<times> nat \<Rightarrow> byte \<times> bytes" where
  "time_body ((y, m, d), s) =
     (if 1950 \<le> y \<and> y \<le> 2049 then (0x17, pad 2 (nat (y mod 100)) @ pad 2 (nat m) @ pad 2 (nat d) @ Format_clock s)
      else (0x18, pad 4 (nat y) @ pad 2 (nat m) @ pad 2 (nat d) @ Format_clock s))"

definition time_content :: "u32 \<Rightarrow> byte \<times> bytes" where
  "time_content sec = (if sec = 0 then (0x18, ascii ''99991231235959Z'') else time_body (matter_time sec))"

lemma matterTimeDER_content: "matterTimeDER sec = derTLV (fst (time_content sec)) (snd (time_content sec))"
proof -
  obtain y m d s where "matter_time sec = ((y, m, d), s)" by (metis prod.exhaust)
  then show ?thesis by (simp add: matterTimeDER_def time_content_def Let_def)
qed

lemma length_year: "2000 \<le> y \<Longrightarrow> y < 9999 \<Longrightarrow> length (pad 4 (nat y)) = 4"
  by (rule year_length) simp_all

lemma length_yy: "length (pad 2 (nat (y mod 100))) = 2"
  by (rule two_digits) simp

lemma time_body_nines:
  assumes "2000 \<le> y" "y < 9999"
  shows "time_body ((y, m, d), s) \<noteq> (0x18, ascii ''99991231235959Z'')"
proof
  assume "time_body ((y, m, d), s) = (0x18, ascii ''99991231235959Z'')"
  then have a: "pad 4 (nat y) @ pad 2 (nat m) @ pad 2 (nat d) @ Format_clock s = ascii ''99991231235959Z''"
    by (simp split: if_splits)
  have "pad 4 (nat y) = take 4 (pad 4 (nat y) @ pad 2 (nat m) @ pad 2 (nat d) @ Format_clock s)"
    using length_year [OF assms] by simp
  also have "\<dots> = [0x39, 0x39, 0x39, 0x39]" unfolding a by (simp add: of_char_of)
  also have "\<dots> = pad 4 9999" by (simp add: pad_def nat_digits.simps)
  finally have "nat y = 9999" by (rule pad_inj)
  with assms show False by simp
qed

lemma time_body_inj:
  assumes "time_body ((y, m, d), s) = time_body ((y', m', d'), s')"
    and v: "valid (y, m, d)" "valid (y', m', d')" "2000 \<le> y" "y < 9999" "2000 \<le> y'" "y' < 9999" "s < 86400" "s' < 86400"
  shows "y = y' \<and> m = m' \<and> d = d' \<and> s = s'"
proof -
  note len = field_lengths [OF v(1)] field_lengths [OF v(2)] length_year [OF v(3,4)] length_year [OF v(5,6)]
    length_yy [of y] length_yy [of y']
  define u where "u = (if y \<le> 2049 then pad 2 (nat (y mod 100)) else pad 4 (nat y))"
  define u' where "u' = (if y' \<le> 2049 then pad 2 (nat (y' mod 100)) else pad 4 (nat y'))"
  have b: "y \<le> 2049 \<longleftrightarrow> y' \<le> 2049" using assms(1) v(3,5) by (simp split: if_splits)
  then have l: "length u = length u'" using len by (simp add: u_def u'_def)
  have "u @ pad 2 (nat m) @ pad 2 (nat d) @ Format_clock s = u' @ pad 2 (nat m') @ pad 2 (nat d') @ Format_clock s'"
    using assms(1) b v(3,5) by (simp add: u_def u'_def split: if_splits)
  then have e: "u = u'" "pad 2 (nat m) = pad 2 (nat m')" "pad 2 (nat d) = pad 2 (nat d')" "Format_clock s = Format_clock s'"
    using l len(1-4) by simp_all
  have "nat m = nat m'" "nat d = nat d'" using pad_inj [OF e(2)] pad_inj [OF e(3)] .
  then have "m = m'" "d = d'" using v(1,2) by auto
  moreover have "y = y'"
  proof (cases "y \<le> 2049")
    case True
    with b e(1) have "pad 2 (nat (y mod 100)) = pad 2 (nat (y' mod 100))" by (simp add: u_def u'_def)
    then have "y mod 100 = y' mod 100" using pad_inj by fastforce
    moreover have "k mod 100 = k - 2000" if "2000 \<le> k" "k \<le> 2049" for k :: int using that by presburger
    ultimately show ?thesis using True b v(3,5) by simp
  next
    case False
    with b e(1) have "pad 4 (nat y) = pad 4 (nat y')" by (simp add: u_def u'_def)
    then have "nat y = nat y'" by (rule pad_inj)
    with v(3,5) show ?thesis by simp
  qed
  ultimately show ?thesis using Format_clock_inj [OF e(4) v(7,8)] by blast
qed

lemma time_content_inj:
  assumes "time_content s = time_content t"
  shows "s = t"
proof -
  obtain y m d where s: "fst (matter_time s) = (y, m, d)" "valid (y, m, d)" "2000 \<le> y" "y < 9999" by (rule matter_date)
  obtain y' m' d' where t: "fst (matter_time t) = (y', m', d')" "valid (y', m', d')" "2000 \<le> y'" "y' < 9999"
    by (rule matter_date)
  have ms: "matter_time s = ((y, m, d), snd (matter_time s))" "matter_time t = ((y', m', d'), snd (matter_time t))"
    using s(1) t(1) by (simp_all add: prod_eq_iff)
  have less: "snd (matter_time u) < 86400" for u by (simp add: matter_time_def)
  have no: "time_body (matter_time s) \<noteq> (0x18, ascii ''99991231235959Z'')" "time_body (matter_time t) \<noteq> (0x18, ascii ''99991231235959Z'')"
    using time_body_nines [OF s(3,4)] time_body_nines [OF t(3,4)] ms by metis+
  consider "s = 0" "t = 0" | "s \<noteq> 0" "t \<noteq> 0"
    using assms no by (auto simp only: time_content_def if_True if_False split: if_splits)
  then show ?thesis
  proof cases
    case 2
    with assms have "time_body (matter_time s) = time_body (matter_time t)" by (simp only: time_content_def if_False)
    then have "time_body ((y, m, d), snd (matter_time s)) = time_body ((y', m', d'), snd (matter_time t))" using ms by simp
    from time_body_inj [OF this s(2) t(2) s(3,4) t(3,4) less less] s(1) t(1)
    have "fst (matter_time s) = fst (matter_time t)" "snd (matter_time s) = snd (matter_time t)" by simp_all
    then show ?thesis by (rule matter_time_inj)
  qed simp
qed

lemma matterTimeDER_inj:
  assumes "matterTimeDER s @ r = matterTimeDER t @ r'" "short (matterTimeDER s @ r)"
  shows "s = t \<and> r = r' \<and> short r"
proof -
  note e = der_inj [OF assms [unfolded matterTimeDER_content]] and sh = short_append [OF assms(2)]
  then have "time_content s = time_content t" by (simp add: prod_eq_iff)
  with e sh time_content_inj show ?thesis by blast
qed

section \<open>Extensions\<close>

text \<open>Bit \<open>k\<close> of a bit string, counted from the front.\<close>

definition cbit :: "bytes \<Rightarrow> nat \<Rightarrow> bool" where
  "cbit content k \<longleftrightarrow> k div 8 < length content \<and> bit (content ! (k div 8)) (7 - k mod 8)"

definition usage_inv :: "u16 \<Rightarrow> nat \<Rightarrow> bytes \<times> nat \<Rightarrow> bool" where
  "usage_inv w n st \<longleftrightarrow> length (fst st) = (snd st + 7) div 8 \<and> snd st \<le> n
     \<and> (\<forall>k. cbit (fst st) k \<longleftrightarrow> k < n \<and> bit w k)"

lemma bit_usage_mask: "j < 8 \<Longrightarrow> i < 8 \<Longrightarrow> bit (drop_bit i (0x80 :: byte)) (7 - j) \<longleftrightarrow> i = j"
proof -
  assume "j < 8" "i < 8"
  then have "i \<in> {0, 1, 2, 3, 4, 5, 6, 7}" "j \<in> {0, 1, 2, 3, 4, 5, 6, 7}" by auto
  then show ?thesis by (elim insertE emptyE) (simp_all add: bit_drop_bit_eq)
qed

lemma cbit_zeros: "cbit (content @ replicate m 0) k = cbit content k"
  by (auto simp: cbit_def nth_append)

lemma cbit_set:
  assumes "n div 8 < length c"
  shows "cbit (c[n div 8 := c ! (n div 8) OR drop_bit (n mod 8) 0x80]) k \<longleftrightarrow> cbit c k \<or> k = n"
proof (cases "k div 8 = n div 8")
  case True
  have "bit (drop_bit (n mod 8) (0x80 :: byte)) (7 - k mod 8) \<longleftrightarrow> n mod 8 = k mod 8" by (rule bit_usage_mask) simp_all
  moreover have "n mod 8 = k mod 8 \<longleftrightarrow> k = n" using True by (metis div_mult_mod_eq)
  ultimately show ?thesis using True assms by (auto simp: cbit_def bit_or_iff)
next
  case False
  then show ?thesis by (auto simp: cbit_def)
qed

lemma usage_inv_step:
  assumes "usage_inv w n st"
  shows "usage_inv w (Suc n) (usage_step w n st)"
proof -
  obtain content used where st: "st = (content, used)" by (cases st)
  have inv: "length content = (used + 7) div 8" "used \<le> n" "\<And>k. cbit content k \<longleftrightarrow> k < n \<and> bit w k"
    using assms by (simp_all add: usage_inv_def st)
  show ?thesis
  proof (cases "bit w n")
    case False
    with inv show ?thesis by (auto simp: usage_inv_def usage_step_def st less_Suc_eq)
  next
    case True
    let ?c = "content @ replicate (Suc (n div 8) - length content) 0"
    have "length content \<le> Suc (n div 8)" using inv(1,2) div_le_mono [of "used + 7" "n + 8" 8] by simp
    then have len: "length ?c = Suc (n div 8)" by simp
    have "usage_step w n st = (?c[n div 8 := ?c ! (n div 8) OR drop_bit (n mod 8) 0x80], n + 1)"
      using True by (simp add: usage_step_def st Let_def)
    moreover have "cbit (?c[n div 8 := ?c ! (n div 8) OR drop_bit (n mod 8) 0x80]) k \<longleftrightarrow> k < Suc n \<and> bit w k" for k
    proof -
      have "n div 8 < length ?c" unfolding len by simp
      from cbit_set [OF this, of k] show ?thesis unfolding cbit_zeros inv(3) using True by (auto simp: less_Suc_eq)
    qed
    moreover have "length (?c[n div 8 := ?c ! (n div 8) OR drop_bit (n mod 8) 0x80]) = (n + 1 + 7) div 8"
      unfolding length_list_update len by simp
    ultimately show ?thesis by (simp only: usage_inv_def fst_conv snd_conv) simp
  qed
qed

lemma usage_final:
  obtains content used where "fold (usage_step w) [0..<16] ([], 0) = (content, used)"
    "length content = (used + 7) div 8" "\<And>k. cbit content k \<longleftrightarrow> k < 16 \<and> bit w k"
proof -
  have "usage_inv w n (fold (usage_step w) [0..<n] ([], 0))" for n
  proof (induction n)
    case (Suc n)
    from usage_inv_step [OF this] show ?case by (simp only: upt_Suc_append zero_le fold_append fold.simps comp_apply id_apply)
  qed (simp add: usage_inv_def cbit_def)
  from this [of 16] show thesis
    using that [of "fst (fold (usage_step w) [0..<16] ([], 0))" "snd (fold (usage_step w) [0..<16] ([], 0))"]
    by (simp only: usage_inv_def prod.collapse simp_thms)
qed

lemma keyUsage_content:
  obtains u content where "keyUsageBitString w = derTLV 0x03 (u # content)" "\<And>k. cbit content k \<longleftrightarrow> k < 16 \<and> bit w k"
proof -
  obtain content used where f: "fold (usage_step w) [0..<16] ([], 0) = (content, used)"
    "length content = (used + 7) div 8" "\<And>k. cbit content k \<longleftrightarrow> k < 16 \<and> bit w k"
    using usage_final [of w] by metis
  show thesis
  proof (rule that [OF _ f(3)])
    show "keyUsageBitString w = derTLV 0x03 (of_nat ((8 - used mod 8) mod 8) # content)"
      using f(2) by (cases "used = 0") (simp_all add: keyUsageBitString_def f(1) derBitString_def)
  qed
qed

lemma keyUsage_inj:
  assumes "keyUsageBitString w = keyUsageBitString v" "short (keyUsageBitString w)"
  shows "w = v"
proof -
  obtain u c where w: "keyUsageBitString w = derTLV 0x03 (u # c)" "\<And>k. cbit c k \<longleftrightarrow> k < 16 \<and> bit w k" using keyUsage_content [of w] by metis
  obtain u' c' where v: "keyUsageBitString v = derTLV 0x03 (u' # c')" "\<And>k. cbit c' k \<longleftrightarrow> k < 16 \<and> bit v k" using keyUsage_content [of v] by metis
  from assms der_inj1 [of "0x03" "u # c" "0x03" "u' # c'"] w(1) v(1) have "c = c'" by simp
  then have "bit w k = bit v k" if "k < 16" for k using w(2) [of k] v(2) [of k] that by simp
  then show ?thesis by (intro bit_word_eqI) simp
qed

lemma ekuOID_inj: "ekuOID v = Some x \<Longrightarrow> ekuOID w = Some x \<Longrightarrow> v = w"
  by (auto simp: ekuOID_def Let_def split: if_splits)

lemma ekuDER_inj:
  assumes "ekuDER l = Inr x" "ekuDER l' = Inr x" "short x"
  shows "l = l'"
  using assms
proof (induction l arbitrary: l' x)
  case Nil
  then show ?case by (cases l') (auto simp: derOID_def derTLV_def split: option.splits sum.splits)
next
  case (Cons v vs)
  obtain o1 r1 where 1: "ekuOID v = Some o1" "ekuDER vs = Inr r1" "x = derTLV 0x06 o1 @ r1"
    using Cons.prems(1) by (auto simp: derOID_def split: option.splits sum.splits)
  then obtain w ws where l': "l' = w # ws" using Cons.prems(2) by (cases l') (auto simp: derTLV_def)
  obtain o2 r2 where 2: "ekuOID w = Some o2" "ekuDER ws = Inr r2" "x = derTLV 0x06 o2 @ r2"
    using Cons.prems(2) l' by (auto simp: derOID_def split: option.splits sum.splits)
  have eq: "derTLV 0x06 o1 @ r1 = derTLV 0x06 o2 @ r2" "short (derTLV 0x06 o1 @ r1)"
    using 1(3) 2(3) Cons.prems(3) by simp_all
  from der_inj [OF eq] have "o1 = o2" "r1 = r2" by simp_all
  with Cons.IH [OF 1(2), of ws] 2(2) short_der [OF eq(2)] ekuOID_inj [OF 1(1)] 2(1) l' show ?case by simp
qed

definition ext_piece :: "bytes \<Rightarrow> bytes \<Rightarrow> bytes" where
  "ext_piece oid body = derTLV 0x30 (derTLV 0x06 oid @ body)"

definition opt_piece :: "bytes \<Rightarrow> ('a \<Rightarrow> bytes) \<Rightarrow> 'a option \<Rightarrow> bytes" where
  "opt_piece oid f x = (case x of None \<Rightarrow> [] | Some v \<Rightarrow> ext_piece oid (f v))"

text \<open>Nothing, or an extension with one of the object identifiers.\<close>

definition starts :: "bytes list \<Rightarrow> bytes \<Rightarrow> bool" where
  "starts oids r \<longleftrightarrow> r = [] \<or> (\<exists>oid b q. oid \<in> set oids \<and> r = ext_piece oid b @ q)"

lemma starts_opt: "starts oids r \<Longrightarrow> starts (oid # oids) (opt_piece oid f x @ r)"
  by (cases x) (fastforce simp: starts_def opt_piece_def)+

lemma starts_Nil: "starts [] []"
  by (simp add: starts_def)

lemma ext_piece_inj:
  assumes "ext_piece oid b @ r = ext_piece oid' b' @ r'" "short (ext_piece oid b @ r)"
  shows "oid = oid' \<and> b = b' \<and> r = r' \<and> short b \<and> short r"
proof -
  note e = der_inj [OF assms [unfolded ext_piece_def]] and s = short_der [OF assms(2) [unfolded ext_piece_def]]
  have e2: "derTLV 0x06 oid @ b = derTLV 0x06 oid' @ b'" "short (derTLV 0x06 oid @ b)" using e s by simp_all
  from der_inj [OF e2] short_der [OF e2(2)] e s show ?thesis by simp
qed

lemma opt_piece_inj:
  assumes "opt_piece oid f x @ r = opt_piece oid g y @ r'" "short (opt_piece oid f x @ r)"
    and "starts oids r" "starts oids r'" "oid \<notin> set oids"
  shows "rel_option (\<lambda>v w. f v = g w \<and> short (f v)) x y \<and> r = r' \<and> short r"
proof -
  have no: False if "ext_piece oid b @ q = z" "starts oids z" "short z" for b q z
    using that assms(5) ext_piece_inj [of oid b q] by (fastforce simp: starts_def ext_piece_def derTLV_def)
  show ?thesis
  proof (cases x; cases y)
    fix v assume xy: "x = None" "y = Some v"
    with assms no [of "g v" r' r] show ?thesis by (simp add: opt_piece_def)
  next
    fix v assume xy: "x = Some v" "y = None"
    with assms no [of "f v" r r'] show ?thesis by (simp add: opt_piece_def)
  next
    fix v w assume xy: "x = Some v" "y = Some w"
    have "ext_piece oid (f v) @ r = ext_piece oid (g w) @ r'" "short (ext_piece oid (f v) @ r)"
      using assms(1,2) xy by (simp_all add: opt_piece_def)
    from ext_piece_inj [OF this] xy show ?thesis by auto
  next
    assume "x = None" "y = None"
    with assms show ?thesis by (simp add: opt_piece_def)
  qed
qed

definition eku_body :: "u8 list \<Rightarrow> bytes" where
  "eku_body l = derBool True @ derTLV 0x04 (derTLV 0x30 (case ekuDER l of Inl _ \<Rightarrow> [] | Inr x \<Rightarrow> x))"

definition ext_bytes :: "Extensions \<Rightarrow> bytes" where
  "ext_bytes e =
     opt_piece oidExtBasicConstraints (\<lambda>bc. derBool True @ derTLV 0x04 (derTLV 0x30 (bcDER bc))) (ex_BasicConstraints e)
     @ opt_piece oidExtKeyUsageX (\<lambda>u. derBool True @ derTLV 0x04 (keyUsageBitString u)) (ex_KeyUsage e)
     @ opt_piece oidExtExtKeyUsageX eku_body (ex_ExtKeyUsage e)
     @ opt_piece oidExtSubjectKeyID (\<lambda>b. derTLV 0x04 (derTLV 0x04 b)) (ex_SubjectKeyID e)
     @ opt_piece oidExtAuthorityKeyID (\<lambda>b. derTLV 0x04 (derTLV 0x30 (derTLV 0x80 b))) (ex_AuthorityKeyID e) @ []"

lemma extensionsDER_pieces:
  assumes "extensionsDER e = Inr x"
  shows "x = ext_bytes e"
  using assms
  by (auto simp: extensionsDER_def ext_bytes_def opt_piece_def ext_piece_def eku_body_def der_forms Let_def
      split: option.splits sum.splits)

lemma extensionsDER_eku: "extensionsDER e = Inr x \<Longrightarrow> ex_ExtKeyUsage e = Some l \<Longrightarrow> \<exists>y. ekuDER l = Inr y"
  by (cases "ekuDER l") (simp_all add: extensionsDER_def Let_def)

lemma bcDER_inj:
  assumes "bcDER b = bcDER c" "short (bcDER b)"
  shows "b = c"
proof -
  define pl where "pl p = (case p of None \<Rightarrow> [] | Some p \<Rightarrow> derInt [p])" for p :: "u8 option"
  have f: "bcDER x = (if bc_IsCA x then derTLV 0x01 [0xFF] else []) @ pl (bc_PathLen x)" for x
    by (simp add: bcDER_def pl_def derBool_def)
  have hd: "pl p = [] \<or> hd (pl p) = 0x02" for p
    by (cases p) (simp_all add: pl_def derInt_def derTLV_def Let_def)
  have ca: "bc_IsCA b = bc_IsCA c"
    using assms(1) hd [of "bc_PathLen b"] hd [of "bc_PathLen c"] unfolding f
    by (cases "pl (bc_PathLen b)"; cases "pl (bc_PathLen c)") (auto simp: derTLV_def split: if_splits)
  with assms have e: "pl (bc_PathLen b) = pl (bc_PathLen c)" "short (pl (bc_PathLen b))"
    unfolding f by (auto simp: short_def)
  have ne: "derInt m \<noteq> []" for m by (simp add: derInt_def derTLV_def Let_def)
  have "bc_PathLen b = bc_PathLen c"
  proof (cases "bc_PathLen b"; cases "bc_PathLen c")
    fix p q assume pq: "bc_PathLen b = Some p" "bc_PathLen c = Some q"
    with e derInt_inj [of "[p]" "[]" "[q]" "[]"] show ?thesis by (simp add: pl_def)
  qed (use e ne [THEN not_sym] ne in \<open>auto simp: pl_def\<close>)
  with ca show ?thesis by (cases b; cases c) simp
qed

lemma bool_der_inj:
  assumes "derBool True @ derTLV t x = derBool True @ derTLV t y" "short (derBool True @ derTLV t x)"
  shows "x = y \<and> short x"
  using assms der_inj1 [of t x t y] short_append [OF assms(2)] short_der [of t x "[]"] by simp

lemma bc_piece_inj:
  assumes "derBool True @ derTLV 0x04 (derTLV 0x30 (bcDER b)) = derBool True @ derTLV 0x04 (derTLV 0x30 (bcDER c))
    \<and> short (derBool True @ derTLV 0x04 (derTLV 0x30 (bcDER b)))"
  shows "b = c"
proof -
  have "derTLV 0x30 (bcDER b) = derTLV 0x30 (bcDER c) \<and> short (derTLV 0x30 (bcDER b))" using assms bool_der_inj by blast
  then have "bcDER b = bcDER c" "short (bcDER b)" using der_inj1 short_der1 by blast+
  then show ?thesis by (rule bcDER_inj)
qed

lemma usage_piece_inj:
  assumes "derBool True @ derTLV 0x04 (keyUsageBitString u) = derBool True @ derTLV 0x04 (keyUsageBitString v)
    \<and> short (derBool True @ derTLV 0x04 (keyUsageBitString u))"
  shows "u = v"
proof -
  have "keyUsageBitString u = keyUsageBitString v \<and> short (keyUsageBitString u)" using assms bool_der_inj by blast
  then show ?thesis using keyUsage_inj by blast
qed

lemma eku_body_Inr: "ekuDER l = Inr x \<Longrightarrow> eku_body l = derBool True @ derTLV 0x04 (derTLV 0x30 x)"
  by (simp only: eku_body_def sum.case)

lemma eku_piece_inj:
  assumes "eku_body l = eku_body m \<and> short (eku_body l)" "ekuDER l = Inr x" "ekuDER m = Inr y"
  shows "l = m"
proof -
  have "derTLV 0x30 x = derTLV 0x30 y \<and> short (derTLV 0x30 x)"
    using assms(1) unfolding eku_body_Inr [OF assms(2)] eku_body_Inr [OF assms(3)]
    by (elim conjE) (rule bool_der_inj)
  then have "x = y" "short x" using der_inj1 short_der1 by blast+
  with assms(2,3) ekuDER_inj show ?thesis by blast
qed

lemma ski_piece_inj:
  assumes "derTLV 0x04 (derTLV 0x04 b) = derTLV 0x04 (derTLV 0x04 c) \<and> short (derTLV 0x04 (derTLV 0x04 b))"
  shows "b = c"
proof -
  have "derTLV 0x04 b = derTLV 0x04 c" "short (derTLV 0x04 b)" using assms der_inj1 short_der1 by blast+
  then show ?thesis using der_inj1 by blast
qed

lemma aki_piece_inj:
  assumes "derTLV 0x04 (derTLV 0x30 (derTLV 0x80 b)) = derTLV 0x04 (derTLV 0x30 (derTLV 0x80 c))
    \<and> short (derTLV 0x04 (derTLV 0x30 (derTLV 0x80 b)))"
  shows "b = c"
proof -
  have "derTLV 0x30 (derTLV 0x80 b) = derTLV 0x30 (derTLV 0x80 c)" "short (derTLV 0x30 (derTLV 0x80 b))"
    using assms der_inj1 short_der1 by blast+
  then have "derTLV 0x80 b = derTLV 0x80 c" "short (derTLV 0x80 b)" using der_inj1 short_der1 by blast+
  then show ?thesis using der_inj1 by blast
qed

lemma ext_bytes_inj:
  assumes "ext_bytes e = ext_bytes e'" "short (ext_bytes e)"
    and eku: "\<And>l. ex_ExtKeyUsage e = Some l \<Longrightarrow> \<exists>y. ekuDER l = Inr y"
      "\<And>l. ex_ExtKeyUsage e' = Some l \<Longrightarrow> \<exists>y. ekuDER l = Inr y"
  shows "e = e'"
proof -
  note st1 = starts_opt [OF starts_Nil] note st2 = starts_opt [OF st1] note st3 = starts_opt [OF st2]
  note st4 = starts_opt [OF st3]
  note p1 = opt_piece_inj [OF assms(1,2) [unfolded ext_bytes_def] st4 st4]
  have d1: "oidExtBasicConstraints \<notin> set [oidExtKeyUsageX, oidExtExtKeyUsageX, oidExtSubjectKeyID, oidExtAuthorityKeyID]"
    "oidExtKeyUsageX \<notin> set [oidExtExtKeyUsageX, oidExtSubjectKeyID, oidExtAuthorityKeyID]"
    "oidExtExtKeyUsageX \<notin> set [oidExtSubjectKeyID, oidExtAuthorityKeyID]"
    "oidExtSubjectKeyID \<notin> set [oidExtAuthorityKeyID]" "oidExtAuthorityKeyID \<notin> set []"
    by (simp_all add: oid_defs)
  note q1 = p1 [OF d1(1)]
  note q2 = opt_piece_inj [OF q1 [THEN conjunct2, THEN conjunct1] q1 [THEN conjunct2, THEN conjunct2] st3 st3 d1(2)]
  note q3 = opt_piece_inj [OF q2 [THEN conjunct2, THEN conjunct1] q2 [THEN conjunct2, THEN conjunct2] st2 st2 d1(3)]
  note q4 = opt_piece_inj [OF q3 [THEN conjunct2, THEN conjunct1] q3 [THEN conjunct2, THEN conjunct2] st1 st1 d1(4)]
  note q5 = opt_piece_inj [OF q4 [THEN conjunct2, THEN conjunct1] q4 [THEN conjunct2, THEN conjunct2] starts_Nil starts_Nil d1(5)]
  have "rel_option (=) (ex_BasicConstraints e) (ex_BasicConstraints e')"
    using q1 [THEN conjunct1] by (rule option.rel_mono_strong) (rule bc_piece_inj)
  moreover have "rel_option (=) (ex_KeyUsage e) (ex_KeyUsage e')"
    using q2 [THEN conjunct1] by (rule option.rel_mono_strong) (rule usage_piece_inj)
  moreover have "rel_option (=) (ex_ExtKeyUsage e) (ex_ExtKeyUsage e')"
    using q3 [THEN conjunct1]
  proof (rule option.rel_mono_strong)
    fix l m assume l: "l \<in> set_option (ex_ExtKeyUsage e)" "m \<in> set_option (ex_ExtKeyUsage e')"
      and b: "eku_body l = eku_body m \<and> short (eku_body l)"
    from l have "ex_ExtKeyUsage e = Some l" "ex_ExtKeyUsage e' = Some m" by (simp_all add: elem_set)
    then obtain x y where "ekuDER l = Inr x" "ekuDER m = Inr y" using eku by blast
    then show "l = m" by (rule eku_piece_inj [OF b])
  qed
  moreover have "rel_option (=) (ex_SubjectKeyID e) (ex_SubjectKeyID e')"
    using q4 [THEN conjunct1] by (rule option.rel_mono_strong) (rule ski_piece_inj)
  moreover have "rel_option (=) (ex_AuthorityKeyID e) (ex_AuthorityKeyID e')"
    using q5 [THEN conjunct1] by (rule option.rel_mono_strong) (rule aki_piece_inj)
  ultimately show ?thesis by (cases e; cases e') (simp add: option.rel_eq)
qed

section \<open>The signed form\<close>

text \<open>Two certificates that agree in all that is signed.\<close>

definition cert_same :: "Cert \<Rightarrow> Cert \<Rightarrow> bool" where
  "cert_same c d \<longleftrightarrow> strip_zeros (ce_SerialNumber c) = strip_zeros (ce_SerialNumber d)
     \<and> dn_same (ce_Issuer c) (ce_Issuer d) \<and> ce_NotBefore c = ce_NotBefore d \<and> ce_NotAfter c = ce_NotAfter d
     \<and> dn_same (ce_Subject c) (ce_Subject d) \<and> ce_PublicKey c = ce_PublicKey d \<and> ce_Extensions c = ce_Extensions d"

definition tbs_tail :: "Cert \<Rightarrow> bytes \<Rightarrow> bytes \<Rightarrow> bytes \<Rightarrow> bytes" where
  "tbs_tail c issuer subject exts =
     issuer @ derTLV 0x30 (matterTimeDER (ce_NotBefore c) @ matterTimeDER (ce_NotAfter c)) @ subject
     @ derTLV 0x30 (derTLV 0x30 (derTLV 0x06 oidECPublicKey @ derTLV 0x06 oidPrime256v1) @ derTLV 0x03 (0 # ce_PublicKey c))
     @ derTLV 0xA3 (derTLV 0x30 exts)"

lemma tbsDER_parts:
  assumes "tbsDER c = Inr b"
  obtains issuer subject exts where "dnDER (ce_Issuer c) = Inr issuer" "dnDER (ce_Subject c) = Inr subject"
    "extensionsDER (ce_Extensions c) = Inr exts"
    "b = derTLV 0x30 (derTLV 0xA0 (derInt [0x02]) @ derInt (ce_SerialNumber c)
       @ derTLV 0x30 (derTLV 0x06 oidECDSAWithSHA256) @ tbs_tail c issuer subject exts)"
  using assms by (auto simp: tbsDER_def tbs_tail_def der_forms Let_def split: sum.splits)

lemma extensionsDER_inj:
  assumes "extensionsDER e = Inr x" "extensionsDER e' = Inr x" "short x"
  shows "e = e'"
  by (rule ext_bytes_inj)
    (use assms extensionsDER_pieces extensionsDER_eku in \<open>auto simp: extensionsDER_pieces [OF assms(1), symmetric]
      extensionsDER_pieces [OF assms(2), symmetric]\<close>)

lemma tbs_tail_inj:
  assumes "tbs_tail c i s x = tbs_tail d i' s' x'" "short (tbs_tail c i s x)"
    and i: "dnDER (ce_Issuer c) = Inr i" "dnDER (ce_Issuer d) = Inr i'"
    and s: "dnDER (ce_Subject c) = Inr s" "dnDER (ce_Subject d) = Inr s'"
    and x: "extensionsDER (ce_Extensions c) = Inr x" "extensionsDER (ce_Extensions d) = Inr x'"
  shows "dn_same (ce_Issuer c) (ce_Issuer d) \<and> ce_NotBefore c = ce_NotBefore d \<and> ce_NotAfter c = ce_NotAfter d
     \<and> dn_same (ce_Subject c) (ce_Subject d) \<and> ce_PublicKey c = ce_PublicKey d \<and> ce_Extensions c = ce_Extensions d"
proof -
  note e1 = dnDER_inj [OF i assms(1,2) [unfolded tbs_tail_def]]
  note e2 = der_inj [OF e1 [THEN conjunct2, THEN conjunct1] e1 [THEN conjunct2, THEN conjunct2]]
  note s2 = short_der [OF e1 [THEN conjunct2, THEN conjunct2]]
  have v: "matterTimeDER (ce_NotBefore c) @ matterTimeDER (ce_NotAfter c) = matterTimeDER (ce_NotBefore d) @ matterTimeDER (ce_NotAfter d)"
    using e2 by blast
  note t1 = matterTimeDER_inj [OF v s2 [THEN conjunct1]]
  have "matterTimeDER (ce_NotAfter c) @ [] = matterTimeDER (ce_NotAfter d) @ []" "short (matterTimeDER (ce_NotAfter c) @ [])"
    using t1 by auto
  note t2 = matterTimeDER_inj [OF this]
  note e3 = dnDER_inj [OF s e2 [THEN conjunct2, THEN conjunct2] s2 [THEN conjunct2]]
  note e4 = der_inj [OF e3 [THEN conjunct2, THEN conjunct1] e3 [THEN conjunct2, THEN conjunct2]]
  note s4 = short_der [OF e3 [THEN conjunct2, THEN conjunct2]]
  note k1 = e4 [THEN conjunct2, THEN conjunct1, unfolded same_append_eq]
  note k2 = short_append [OF s4 [THEN conjunct1], THEN conjunct2]
  have pk: "ce_PublicKey c = ce_PublicKey d" using der_inj1 [OF k1 k2] by simp
  note xx = e4 [THEN conjunct2, THEN conjunct2] s4 [THEN conjunct2]
  have x2: "derTLV 0x30 x = derTLV 0x30 x'" "short (derTLV 0x30 x)"
    using der_inj1 [OF xx] short_der1 [OF xx(2)] by blast+
  have "x = x'" "short x" using der_inj1 [OF x2] short_der1 [OF x2(2)] by blast+
  with extensionsDER_inj x have "ce_Extensions c = ce_Extensions d" by blast
  with e1 t1 t2 e3 pk show ?thesis by blast
qed

lemma tbs_determines:
  assumes "tbsDER c = Inr b" "tbsDER d = Inr b" "short b"
  shows "cert_same c d"
proof -
  obtain i s x where c: "dnDER (ce_Issuer c) = Inr i" "dnDER (ce_Subject c) = Inr s" "extensionsDER (ce_Extensions c) = Inr x"
    "b = derTLV 0x30 (derTLV 0xA0 (derInt [0x02]) @ derInt (ce_SerialNumber c)
       @ derTLV 0x30 (derTLV 0x06 oidECDSAWithSHA256) @ tbs_tail c i s x)"
    using tbsDER_parts [OF assms(1)] .
  obtain i' s' x' where d: "dnDER (ce_Issuer d) = Inr i'" "dnDER (ce_Subject d) = Inr s'" "extensionsDER (ce_Extensions d) = Inr x'"
    "b = derTLV 0x30 (derTLV 0xA0 (derInt [0x02]) @ derInt (ce_SerialNumber d)
       @ derTLV 0x30 (derTLV 0x06 oidECDSAWithSHA256) @ tbs_tail d i' s' x')"
    using tbsDER_parts [OF assms(2)] .
  let ?a = "derTLV 0x30 (derTLV 0x06 oidECDSAWithSHA256)"
  have e: "derTLV 0x30 (derTLV 0xA0 (derInt [0x02]) @ derInt (ce_SerialNumber c) @ ?a @ tbs_tail c i s x)
      = derTLV 0x30 (derTLV 0xA0 (derInt [0x02]) @ derInt (ce_SerialNumber d) @ ?a @ tbs_tail d i' s' x')"
    "short (derTLV 0x30 (derTLV 0xA0 (derInt [0x02]) @ derInt (ce_SerialNumber c) @ ?a @ tbs_tail c i s x))"
    using c(4) d(4) assms(3) by simp_all
  have sh: "short (derInt (ce_SerialNumber c) @ ?a @ tbs_tail c i s x)"
    by (rule short_append [OF short_der1 [OF e(2)], THEN conjunct2])
  have eq: "derInt (ce_SerialNumber c) @ ?a @ tbs_tail c i s x = derInt (ce_SerialNumber d) @ ?a @ tbs_tail d i' s' x'"
    using der_inj1 [OF e] by blast
  note n = derInt_inj [OF eq sh]
  then have t: "tbs_tail c i s x = tbs_tail d i' s' x'" by blast
  have "short (tbs_tail c i s x)" by (rule short_append [OF short_append [OF sh, THEN conjunct2], THEN conjunct2])
  from tbs_tail_inj [OF t this c(1) d(1) c(2) d(2) c(3) d(3)] n show ?thesis unfolding cert_same_def by blast
qed

end
