(* ===== verification/Cert_Chain.thy ===== *)
theory Cert_Chain
  imports Cert_Signed
begin

text \<open>
  Chains of certificates: a signed certificate verifies, an accepted chain goes back to a certificate that
  the root signed, and what an accepted chain leaves open.
\<close>

section \<open>The curve library\<close>

text \<open>What the code relies on: the public key of a scalar that is not zero is an uncompressed point, and a
  signature made with the scalar verifies under it. (The point at infinity has one byte.)\<close>

definition curve_ok :: "curve \<Rightarrow> bool" where
  "curve_ok k \<longleftrightarrow>
     (\<forall>sk p. length sk = 32 \<longrightarrow> Public k sk = Some p \<longrightarrow> length p = 65 \<longrightarrow>
        hd p = 0x04 \<and> (\<forall>r h s. Sign k r sk h = Some s \<longrightarrow> length s = 64 \<and> Verify k p h s))"

text \<open>The holder of the key of a point has signed no messages but these: what it did not sign does not verify.\<close>

definition only_signed :: "curve \<Rightarrow> bytes \<Rightarrow> bytes set \<Rightarrow> bool" where
  "only_signed k pub ms \<longleftrightarrow> (\<forall>m s. Verify k pub (SHA256 k m) s \<longrightarrow> m \<in> ms)"

definition signed_forms :: "Cert set \<Rightarrow> bytes set" where
  "signed_forms issued = {m. \<exists>c \<in> issued. tbsDER c = Inr m}"

text \<open>The signed form has the length of a Go slice.\<close>

definition tbs_short :: "Cert \<Rightarrow> bool" where
  "tbs_short c = (case tbsDER c of Inl _ \<Rightarrow> True | Inr b \<Rightarrow> short b)"

section \<open>Signing\<close>

lemma SignECDSA_verifies:
  assumes "curve_ok k" "Public k sk = Some p" "length p = 65" "SignECDSA k rnd sk m = Inr s"
  shows "length s = 64 \<and> hd p = 0x04 \<and> Verify k p (SHA256 k m) s"
proof -
  have l: "length sk = 32" using assms(4) by (simp add: SignECDSA_def split: if_splits)
  then have "Sign k rnd sk (SHA256 k m) = Some s"
    using assms(2,4) by (simp add: SignECDSA_def split: option.splits)
  with l assms(1-3) show ?thesis unfolding curve_ok_def by blast
qed

lemma tbsDER_signature [simp]: "tbsDER (c\<lparr>ce_Signature := s\<rparr>) = tbsDER c"
  by (simp add: tbsDER_def Let_def cong: sum.case_cong)

lemma SignAndEncode_parts:
  assumes "SignAndEncode k rnd c sk = (Inr b, c')"
  obtains tbs s where "tbsDER c = Inr tbs" "SignECDSA k rnd sk tbs = Inr s" "c' = c\<lparr>ce_Signature := s\<rparr>"
    "Cert_Encode c' = Inr b"
  using assms by (auto simp: SignAndEncode_def Let_def Cert_Encode_elem simp del: enc.simps split: sum.splits)

lemma signed_verifies:
  assumes "curve_ok k" "Public k sk = Some p" "length p = 65" "SignAndEncode k rnd c sk = (Inr b, c')"
  shows "VerifySignature k c' p = None"
proof -
  obtain tbs s where s: "tbsDER c = Inr tbs" "SignECDSA k rnd sk tbs = Inr s" "c' = c\<lparr>ce_Signature := s\<rparr>"
    using SignAndEncode_parts [OF assms(4)] by metis
  from SignECDSA_verifies [OF assms(1-3) s(2)] s assms(3) show ?thesis by (simp add: VerifySignature_def)
qed

lemma verified:
  assumes "VerifySignature k c pub = None"
  obtains tbs where "tbsDER c = Inr tbs" "Verify k pub (SHA256 k tbs) (ce_Signature c)"
  using assms by (auto simp: VerifySignature_def split: if_splits sum.splits)

lemma verified_issued:
  assumes "VerifySignature k c pub = None" "only_signed k pub (signed_forms issued)" "\<forall>d \<in> issued. tbs_short d"
  shows "\<exists>d \<in> issued. cert_same c d"
proof -
  obtain tbs where t: "tbsDER c = Inr tbs" "Verify k pub (SHA256 k tbs) (ce_Signature c)"
    using verified [OF assms(1)] .
  then have "tbs \<in> signed_forms issued" using assms(2) by (auto simp: only_signed_def)
  then obtain d where d: "d \<in> issued" "tbsDER d = Inr tbs" by (auto simp: signed_forms_def)
  then have "short tbs" using assms(3) by (fastforce simp: tbs_short_def)
  from tbs_determines [OF t(1) d(2) this] d(1) show ?thesis by blast
qed

section \<open>Names\<close>

text \<open>The code reads an identifier only from an attribute whose value is a number, but signs every Matter
  attribute as a number; of the names that are issued, each identifier stands once.\<close>

definition dn_plain :: "DN \<Rightarrow> bool" where
  "dn_plain d \<longleftrightarrow> list_all (\<lambda>a. at_IsString a = (at_Tag a = DNCommonName)) d \<and> distinct (List.map at_Tag d)"

lemma uintAttr_member: "uintAttr d t = Some v \<Longrightarrow> \<exists>a \<in> set d. at_Tag a = t \<and> at_Value a = v"
  by (induction d) (auto split: if_splits)

lemma plain_uintAttr: "dn_plain d \<Longrightarrow> a \<in> set d \<Longrightarrow> at_Tag a \<noteq> DNCommonName \<Longrightarrow> uintAttr d (at_Tag a) = Some (at_Value a)"
  by (induction d) (auto simp: dn_plain_def rev_image_eqI)

lemma uintAttr_same:
  assumes "dn_same d d'" "dn_plain d'" "t \<noteq> DNCommonName" "uintAttr d t = Some v"
  shows "uintAttr d' t = Some v"
proof -
  obtain a where a: "a \<in> set d" "at_Tag a = t" "at_Value a = v" using uintAttr_member [OF assms(4)] by blast
  from a(1) obtain j where "j < length d" "d ! j = a" by (auto simp: in_set_conv_nth)
  with assms(1) have j: "j < length d'" "attr_same a (d' ! j)" by (auto simp: dn_same_def list_all2_conv_all_nth)
  then have "at_Tag (d' ! j) = t" "at_Value (d' ! j) = v" using a assms(3) by (auto simp: attr_same_def)
  with plain_uintAttr [OF assms(2), of "d' ! j"] j(1) assms(3) show ?thesis by simp
qed

section \<open>What an accepted chain proves\<close>

lemma chain_parts:
  assumes "VerifyChain k noc icac rcac = None"
  shows "VerifySignature k rcac (ce_PublicKey rcac) = None"
    "icac = None \<Longrightarrow> VerifySignature k noc (ce_PublicKey rcac) = None"
    "icac = Some i \<Longrightarrow> VerifySignature k i (ce_PublicKey rcac) = None \<and> VerifySignature k noc (ce_PublicKey i) = None"
  using assms by (auto simp: VerifyChain_def split: option.splits)

text \<open>C34: When the key of the root has signed only the certificates that were issued, an accepted chain
  goes back to one of them: without an intermediate certificate the node's certificate agrees with an
  issued one in everything that is signed (serial number, names, validity, key and extensions), and with
  one the intermediate agrees with an issued certificate and the node's certificate is signed with that
  one's key.\<close>

theorem chain_authentic:
  assumes "VerifyChain k noc icac rcac = None" "only_signed k (ce_PublicKey rcac) (signed_forms issued)"
    and "\<forall>d \<in> issued. tbs_short d"
  shows "case icac of
      None \<Rightarrow> \<exists>d \<in> issued. cert_same noc d
    | Some i \<Rightarrow> \<exists>d \<in> issued. cert_same i d \<and> VerifySignature k noc (ce_PublicKey d) = None"
proof (cases icac)
  case None
  with verified_issued [OF _ assms(2,3)] chain_parts(2) [OF assms(1)] show ?thesis by simp
next
  case (Some i)
  with chain_parts(3) [OF assms(1)] have i: "VerifySignature k i (ce_PublicKey rcac) = None"
    "VerifySignature k noc (ce_PublicKey i) = None" by simp_all
  from verified_issued [OF i(1) assms(2,3)] obtain d where "d \<in> issued" "cert_same i d" by blast
  with i(2) Some show ?thesis by (auto simp: cert_same_def)
qed

text \<open>C35: A chain is accepted through any certificate of the fabric, also one that is no certificate
  authority: whoever holds the key of a node's certificate can sign a certificate with any subject, and
  the chain that has the node's certificate in the place of the intermediate is accepted. The code's
  comment leaves the check of the basic constraints open.\<close>

theorem leaf_issues:
  assumes "curve_ok k" "VerifySignature k rcac (ce_PublicKey rcac) = None" "VerifySignature k leaf (ce_PublicKey rcac) = None"
    and "Public k sk = Some (ce_PublicKey leaf)" "length (ce_PublicKey leaf) = 65" "SignAndEncode k rnd forged sk = (Inr b, c)"
  shows "VerifyChain k c (Some leaf) rcac = None \<and> ce_Subject c = ce_Subject forged"
proof -
  have "VerifySignature k c (ce_PublicKey leaf) = None" by (rule signed_verifies [OF assms(1,4-6)])
  moreover have "ce_Subject c = ce_Subject forged" by (rule SignAndEncode_parts [OF assms(6)]) simp
  ultimately show ?thesis using assms(2,3) by (simp add: VerifyChain_def)
qed


section \<open>Examples\<close>

text \<open>A curve on which a signature is a checksum with the key, and the shared secret a sum.\<close>

definition checksum :: "bytes \<Rightarrow> bytes \<Rightarrow> bytes" where
  "checksum sk h = take 64 (take 32 sk @ h @ replicate 64 0)"

definition example_curve :: curve where
  "example_curve = \<lparr>Public = (\<lambda>sk. Some (0x04 # take 32 sk @ replicate (64 - length (take 32 sk)) 0)),
     Sign = (\<lambda>r sk h. Some (checksum sk h)), Verify = (\<lambda>p h s. s = checksum (tl p) h),
     NewPublicKey = (\<lambda>p. length p = 65 \<and> hd p = 0x04),
     ECDH = (\<lambda>sk p. if length p = 65 then Some (le_bytes 32 (le_word sk + le_word (take 32 (tl p)) :: 256 word)) else None),
     SHA256 = (\<lambda>b. le_bytes 32 (of_nat (length b) :: 256 word)), SHA1 = (\<lambda>b. take 20 (b @ replicate 20 0)),
     HMAC = (\<lambda>k m. le_bytes 32 (le_word k + le_word m :: 256 word)),
     Hkdf = (\<lambda>s salt info n. Some (take n (s @ replicate n 0))), Block = (\<lambda>k b. rev b)\<rparr>"

lemma example_curve_ok: "curve_ok example_curve"
  by (auto simp: curve_ok_def example_curve_def checksum_def)

text \<open>A root and a node under it, and a curve library that accepts just these two.\<close>

definition example_root :: Cert where
  "example_root = \<lparr>ce_SerialNumber = [1], ce_SigAlgo = 1,
     ce_Issuer = [\<lparr>at_Tag = DNMatterRCACID, at_IsString = False, at_Printable = False, at_String = [], at_Value = 1\<rparr>],
     ce_NotBefore = 0, ce_NotAfter = 0,
     ce_Subject = [\<lparr>at_Tag = DNMatterRCACID, at_IsString = False, at_Printable = False, at_String = [], at_Value = 1\<rparr>],
     ce_PubKeyAlgo = 1, ce_CurveID = 1, ce_PublicKey = 0x04 # replicate 64 0,
     ce_Extensions = zeroExtensions\<lparr>ex_BasicConstraints := Some \<lparr>bc_IsCA = True, bc_PathLen = Some 1\<rparr>,
       ex_KeyUsage := Some 0x60\<rparr>, ce_Signature = replicate 64 0\<rparr>"

definition example_node :: Cert where
  "example_node = example_root\<lparr>ce_SerialNumber := [2],
     ce_Subject := [\<lparr>at_Tag = DNMatterNodeID, at_IsString = False, at_Printable = False, at_String = [], at_Value = 7\<rparr>,
       \<lparr>at_Tag = DNMatterFabricID, at_IsString = False, at_Printable = False, at_String = [], at_Value = 9\<rparr>],
     ce_Extensions := zeroExtensions\<lparr>ex_ExtKeyUsage := Some [2, 1]\<rparr>\<rparr>"

definition log_curve :: "bytes set \<Rightarrow> curve" where
  "log_curve ms = example_curve\<lparr>Verify := \<lambda>p m s. m \<in> ms, SHA256 := id\<rparr>"

lemma example_forms:
  obtains r n where "tbsDER example_root = Inr r" "tbsDER example_node = Inr n"
  by (simp add: tbsDER_def example_root_def example_node_def dnDER_def attrDER_def extensionsDER_def ekuOID_def
      zeroExtensions_def Let_def)

lemma usage_example: "keyUsageBitString 0x60 = [0x03, 0x02, 0x01, 0x06]"
  by code_simp

lemmas example_der = tbsDER_def example_root_def example_node_def dnDER_def attrDER_def extensionsDER_def ekuOID_def
  zeroExtensions_def Let_def der_forms derTLV_def derLen_def der_digits.simps derInt_def derBool_def pad_hex_def
  usage_example bcDER_def hex_digits.simps upper_hex_def oid_defs matterTimeDER_def

lemma tbsDER_example_short:
  "\<exists>b. tbsDER example_node = Inr b \<and> length b < 2 ^ 64" "\<exists>b. tbsDER example_root = Inr b \<and> length b < 2 ^ 64"
  by (simp add: example_der)+

lemma example_short: "tbs_short example_node" "tbs_short example_root"
  using tbsDER_example_short by (auto simp: tbs_short_def short_def)

theorem chain_authentic_witness:
  "\<exists>d \<in> {example_root, example_node}. cert_same example_node d"
proof -
  let ?k = "log_curve (signed_forms {example_root, example_node})"
  obtain r n where f: "tbsDER example_root = Inr r" "tbsDER example_node = Inr n" by (rule example_forms)
  have pk: "ce_PublicKey example_root = 0x04 # replicate 64 0" "length (ce_Signature example_root) = 64"
      "length (ce_Signature example_node) = 64"
    by (simp_all add: example_root_def example_node_def)
  have v: "VerifyChain ?k example_node None example_root = None"
    using f pk by (simp add: VerifyChain_def VerifySignature_def log_curve_def signed_forms_def)
  have o: "only_signed ?k (ce_PublicKey example_root) (signed_forms {example_root, example_node})"
    by (simp add: only_signed_def log_curve_def)
  have "\<forall>d \<in> {example_root, example_node}. tbs_short d" using example_short by blast
  from chain_authentic [OF v o this] show ?thesis by simp
qed

theorem cert_roundtrip_witness:
  "\<exists>b. Cert_Encode example_node = Inr b \<and> Cert_Decode b = Some (Inr example_node)"
  by (rule cert_roundtrip) (simp add: cert_ok_def example_node_def example_root_def short_def ext_ok_def attr_ok_def
    zeroExtensions_def)

text \<open>Certificates as the example curve signs them: a root, a node under it, and what that node makes.\<close>

definition issue :: "Cert \<Rightarrow> bytes \<Rightarrow> Cert" where
  "issue c sk = snd (SignAndEncode example_curve 0 c sk)"

definition example_leaf :: Cert where
  "example_leaf = example_node\<lparr>ce_PublicKey := 0x04 # replicate 32 1 @ replicate 32 0\<rparr>"

lemma issue_signs:
  assumes "tbsDER c = Inr t" "length sk = 32"
  obtains b where "SignAndEncode example_curve 0 c sk = (Inr b, issue c sk)"
  using assms by (simp add: issue_def SignAndEncode_def SignECDSA_def example_curve_def Let_def Cert_Encode_elem del: enc.simps)

lemma issue_keeps: "ce_PublicKey (issue c sk) = ce_PublicKey c" "ce_Subject (issue c sk) = ce_Subject c"
  by (simp_all add: issue_def SignAndEncode_def Let_def split: sum.splits)

lemma tbsDER_example_leaf:
  obtains l where "tbsDER example_leaf = Inr l"
  by (simp add: example_leaf_def tbsDER_def example_root_def example_node_def dnDER_def attrDER_def extensionsDER_def
      ekuOID_def zeroExtensions_def Let_def)

theorem leaf_issues_witness:
  "VerifyChain example_curve (issue example_node (replicate 32 1)) (Some (issue example_leaf (replicate 32 0)))
      (issue example_root (replicate 32 0)) = None
    \<and> ce_Subject (issue example_node (replicate 32 1)) = ce_Subject example_node"
proof -
  obtain r n where f: "tbsDER example_root = Inr r" "tbsDER example_node = Inr n" by (rule example_forms)
  obtain l where l: "tbsDER example_leaf = Inr l" by (rule tbsDER_example_leaf)
  obtain b where b: "SignAndEncode example_curve 0 example_node (replicate 32 1) = (Inr b, issue example_node (replicate 32 1))"
    by (rule issue_signs [OF f(2), of "replicate 32 1"]) simp_all
  obtain b1 where b1: "SignAndEncode example_curve 0 example_root (replicate 32 0) = (Inr b1, issue example_root (replicate 32 0))"
    by (rule issue_signs [OF f(1), of "replicate 32 0"]) simp_all
  obtain b2 where b2: "SignAndEncode example_curve 0 example_leaf (replicate 32 0) = (Inr b2, issue example_leaf (replicate 32 0))"
    by (rule issue_signs [OF l, of "replicate 32 0"]) simp_all
  have pub: "Public example_curve (replicate 32 0) = Some (ce_PublicKey (issue example_root (replicate 32 0)))"
    "Public example_curve (replicate 32 1) = Some (ce_PublicKey (issue example_leaf (replicate 32 0)))"
    by (simp_all add: issue_keeps example_curve_def example_root_def example_leaf_def example_node_def
        numeral_eq_Suc)
  have len: "length (ce_PublicKey (issue example_root (replicate 32 0))) = 65"
      "length (ce_PublicKey (issue example_leaf (replicate 32 0))) = 65"
    by (simp_all add: issue_keeps example_root_def example_leaf_def)
  show ?thesis
    by (rule leaf_issues [OF example_curve_ok signed_verifies [OF example_curve_ok pub(1) len(1) b1]
          signed_verifies [OF example_curve_ok pub(1) len(1) b2] pub(2) len(2) b])
qed

end
