(* ===== verification/Case.thy ===== *)
theory Case
  imports Cert_Chain Im_Properties Session_Properties
begin

text \<open>
  Session establishment with certificates, \<^verbatim>\<open>go-matter/casesession\<close>: the messages (\<^verbatim>\<open>sigma.go\<close>), the
  destination identifier and the keys (\<^verbatim>\<open>destid.go\<close>, \<^verbatim>\<open>keys.go\<close>), the controller's side (\<^verbatim>\<open>case.go\<close>) and
  the device's (\<^verbatim>\<open>responder.go\<close>). What \<^verbatim>\<open>crypto/rand\<close> gives is an argument of the step that asks for it;
  a private key is its scalar and its public point.
\<close>

section \<open>Messages\<close>

record Sigma1 =
  s1_InitiatorRandom :: bytes
  s1_InitiatorSessionID :: u16
  s1_DestinationID :: bytes
  s1_InitiatorEphPubKey :: bytes

definition Sigma1_Encode :: "Sigma1 \<Rightarrow> tlv_error + bytes" where
  "Sigma1_Encode s =
     (let w = Writer_StartStructure NewWriter Anonymous;
          w = Writer_PutBytes w (Context 1) (s1_InitiatorRandom s);
          w = Writer_PutUint w (Context 2) (ucast (s1_InitiatorSessionID s));
          w = Writer_PutBytes w (Context 3) (s1_DestinationID s);
          w = Writer_PutBytes w (Context 4) (s1_InitiatorEphPubKey s)
      in Writer_Bytes (Writer_EndContainer w))"

abbreviation expectStruct :: string where "expectStruct \<equiv> ''casesession: expected top-level structure''"

definition sigma1Body :: "Sigma1 \<Rightarrow> Sigma1 dec" where
  "sigma1Body s =
     (\<lambda>r. if Num (r_tag r) = 1 then
            dec_bind (dec_get Reader_Bytes) (\<lambda>v. dec_return (s\<lparr>s1_InitiatorRandom := v\<rparr>)) r
          else if Num (r_tag r) = 2 then
            dec_bind (dec_get Reader_Uint) (\<lambda>v. dec_return (s\<lparr>s1_InitiatorSessionID := ucast v\<rparr>)) r
          else if Num (r_tag r) = 3 then
            dec_bind (dec_get Reader_Bytes) (\<lambda>v. dec_return (s\<lparr>s1_DestinationID := v\<rparr>)) r
          else if Num (r_tag r) = 4 then
            dec_bind (dec_get Reader_Bytes) (\<lambda>v. dec_return (s\<lparr>s1_InitiatorEphPubKey := v\<rparr>)) r
          else dec_return s r)"

definition zeroSigma1 :: Sigma1 where
  "zeroSigma1 = \<lparr>s1_InitiatorRandom = [], s1_InitiatorSessionID = 0, s1_DestinationID = [], s1_InitiatorEphPubKey = []\<rparr>"

definition DecodeSigma1 :: "bytes \<Rightarrow> (derror + Sigma1) option" where
  "DecodeSigma1 = dec_top expectStruct (dec_bind (each_member sigma1Body zeroSigma1) dec_checked)"

record Sigma2 =
  s2_ResponderRandom :: bytes
  s2_ResponderSessionID :: u16
  s2_ResponderEphPubKey :: bytes
  s2_Encrypted2 :: bytes

definition Sigma2_Encode :: "Sigma2 \<Rightarrow> tlv_error + bytes" where
  "Sigma2_Encode s =
     (let w = Writer_StartStructure NewWriter Anonymous;
          w = Writer_PutBytes w (Context 1) (s2_ResponderRandom s);
          w = Writer_PutUint w (Context 2) (ucast (s2_ResponderSessionID s));
          w = Writer_PutBytes w (Context 3) (s2_ResponderEphPubKey s);
          w = Writer_PutBytes w (Context 4) (s2_Encrypted2 s)
      in Writer_Bytes (Writer_EndContainer w))"

definition sigma2Body :: "Sigma2 \<Rightarrow> Sigma2 dec" where
  "sigma2Body s =
     (\<lambda>r. if Num (r_tag r) = 1 then
            dec_bind (dec_get Reader_Bytes) (\<lambda>v. dec_return (s\<lparr>s2_ResponderRandom := v\<rparr>)) r
          else if Num (r_tag r) = 2 then
            dec_bind (dec_get Reader_Uint) (\<lambda>v. dec_return (s\<lparr>s2_ResponderSessionID := ucast v\<rparr>)) r
          else if Num (r_tag r) = 3 then
            dec_bind (dec_get Reader_Bytes) (\<lambda>v. dec_return (s\<lparr>s2_ResponderEphPubKey := v\<rparr>)) r
          else if Num (r_tag r) = 4 then
            dec_bind (dec_get Reader_Bytes) (\<lambda>v. dec_return (s\<lparr>s2_Encrypted2 := v\<rparr>)) r
          else dec_return s r)"

definition zeroSigma2 :: Sigma2 where
  "zeroSigma2 = \<lparr>s2_ResponderRandom = [], s2_ResponderSessionID = 0, s2_ResponderEphPubKey = [], s2_Encrypted2 = []\<rparr>"

definition DecodeSigma2 :: "bytes \<Rightarrow> (derror + Sigma2) option" where
  "DecodeSigma2 = dec_top expectStruct (dec_bind (each_member sigma2Body zeroSigma2) dec_checked)"

definition Sigma3_Encode :: "bytes \<Rightarrow> tlv_error + bytes" where
  "Sigma3_Encode encrypted3 =
     (let w = Writer_StartStructure NewWriter Anonymous;
          w = Writer_PutBytes w (Context 1) encrypted3
      in Writer_Bytes (Writer_EndContainer w))"

definition sigma3Body :: "bytes \<Rightarrow> bytes dec" where
  "sigma3Body s = (\<lambda>r. if Num (r_tag r) = 1 then dec_get Reader_Bytes r else dec_return s r)"

definition DecodeSigma3 :: "bytes \<Rightarrow> (derror + bytes) option" where
  "DecodeSigma3 = dec_top expectStruct (dec_bind (each_member sigma3Body []) dec_checked)"

record tbeData =
  tb_NOC :: bytes
  tb_ICAC :: bytes
  tb_Signature :: bytes

definition encodeTBEData :: "tbeData \<Rightarrow> tlv_error + bytes" where
  "encodeTBEData d =
     (let w = Writer_StartStructure NewWriter Anonymous;
          w = Writer_PutBytes w (Context 1) (tb_NOC d);
          w = (if length (tb_ICAC d) > 0 then Writer_PutBytes w (Context 2) (tb_ICAC d) else w);
          w = Writer_PutBytes w (Context 3) (tb_Signature d)
      in Writer_Bytes (Writer_EndContainer w))"

definition tbeBody :: "tbeData \<Rightarrow> tbeData dec" where
  "tbeBody d =
     (\<lambda>r. if Num (r_tag r) = 1 then
            dec_bind (dec_get Reader_Bytes) (\<lambda>v. dec_return (d\<lparr>tb_NOC := v\<rparr>)) r
          else if Num (r_tag r) = 2 then
            dec_bind (dec_get Reader_Bytes) (\<lambda>v. dec_return (d\<lparr>tb_ICAC := v\<rparr>)) r
          else if Num (r_tag r) = 3 then
            dec_bind (dec_get Reader_Bytes) (\<lambda>v. dec_return (d\<lparr>tb_Signature := v\<rparr>)) r
          else dec_return d r)"

definition decodeTBEData :: "bytes \<Rightarrow> (derror + tbeData) option" where
  "decodeTBEData = dec_top expectStruct
     (dec_bind (each_member tbeBody \<lparr>tb_NOC = [], tb_ICAC = [], tb_Signature = []\<rparr>) dec_checked)"

definition encodeTBSData :: "bytes \<Rightarrow> bytes \<Rightarrow> bytes \<Rightarrow> bytes \<Rightarrow> tlv_error + bytes" where
  "encodeTBSData noc icac senderPub receiverPub =
     (let w = Writer_StartStructure NewWriter Anonymous;
          w = Writer_PutBytes w (Context 1) noc;
          w = (if length icac > 0 then Writer_PutBytes w (Context 2) icac else w);
          w = Writer_PutBytes w (Context 3) senderPub;
          w = Writer_PutBytes w (Context 4) receiverPub
      in Writer_Bytes (Writer_EndContainer w))"

section \<open>Destinations and keys\<close>

text \<open>\<open>CaseNilKey\<close> is the panic on a key that was not made yet.\<close>

datatype case_error = IPKLength | RandomLength | RootKeyLength | CaseRand | CaseEncode tlv_error | CaseDecode derror
  | CasePeerKey | CaseECDH | CaseKdf | CaseCcm ccm_error | CaseChain chain_error | CaseSign cert_error
  | CaseSignature cert_error | NodeIDMismatch | FabricIDMismatch | CaseNotComplete | CaseSession session_error | CaseNilKey

definition GenerateDestinationID :: "curve \<Rightarrow> bytes \<Rightarrow> bytes \<Rightarrow> bytes \<Rightarrow> u64 \<Rightarrow> u64 \<Rightarrow> case_error + bytes" where
  "GenerateDestinationID k ipk initiatorRandom rootPubKey fabricID nodeID =
     (if length ipk \<noteq> 16 then Inl IPKLength
      else if length initiatorRandom \<noteq> 32 then Inl RandomLength
      else if length rootPubKey \<noteq> 65 then Inl RootKeyLength
      else Inr (HMAC k ipk (initiatorRandom @ rootPubKey @ le_bytes 8 fabricID @ le_bytes 8 nodeID)))"

abbreviation infoSigma2 :: bytes where "infoSigma2 \<equiv> ascii ''Sigma2''"
abbreviation infoSigma3 :: bytes where "infoSigma3 \<equiv> ascii ''Sigma3''"
abbreviation infoSessionKeys :: bytes where "infoSessionKeys \<equiv> ascii ''SessionKeys''"
abbreviation nonceTBE2 :: bytes where "nonceTBE2 \<equiv> ascii ''NCASE_Sigma2N''"
abbreviation nonceTBE3 :: bytes where "nonceTBE3 \<equiv> ascii ''NCASE_Sigma3N''"

definition saltSigma2 :: "bytes \<Rightarrow> bytes \<Rightarrow> bytes \<Rightarrow> bytes \<Rightarrow> bytes" where
  "saltSigma2 ipk responderRandom responderEphPub sigma1Hash = ipk @ responderRandom @ responderEphPub @ sigma1Hash"

definition saltSigma3 :: "bytes \<Rightarrow> bytes \<Rightarrow> bytes" where
  "saltSigma3 ipk transcriptHash = ipk @ transcriptHash"

definition deriveSigmaKey :: "curve \<Rightarrow> bytes \<Rightarrow> bytes \<Rightarrow> bytes \<Rightarrow> case_error + bytes" where
  "deriveSigmaKey k sharedSecret salt info =
     (case Hkdf k sharedSecret salt info 16 of None \<Rightarrow> Inl CaseKdf | Some key \<Rightarrow> Inr key)"

record CaseKeys =
  ck_I2R :: bytes
  ck_R2I :: bytes
  ck_AttestationChallenge :: bytes

definition deriveSessionKeys :: "curve \<Rightarrow> bytes \<Rightarrow> bytes \<Rightarrow> bytes \<Rightarrow> case_error + CaseKeys" where
  "deriveSessionKeys k sharedSecret ipk transcriptHash =
     (case Hkdf k sharedSecret (ipk @ transcriptHash) infoSessionKeys 48 of
        None \<Rightarrow> Inl CaseKdf
      | Some out \<Rightarrow> Inr \<lparr>ck_I2R = take 16 out, ck_R2I = take 16 (drop 16 out),
          ck_AttestationChallenge = take 16 (drop 32 out)\<rparr>)"

text \<open>\<open>Ccm_Seal\<close> fails where \<^verbatim>\<open>Seal\<close> panics, on a payload of more than 65535 bytes.\<close>

definition encryptTBE :: "curve \<Rightarrow> bytes \<Rightarrow> bytes \<Rightarrow> bytes \<Rightarrow> case_error + bytes" where
  "encryptTBE k key iv plaintext =
     (case NewCCM (Block k) key of
        Inl e \<Rightarrow> Inl (CaseCcm e)
      | Inr ccm \<Rightarrow> map_sum CaseCcm id (Ccm_Seal ccm [] iv plaintext []))"

definition decryptTBE :: "curve \<Rightarrow> bytes \<Rightarrow> bytes \<Rightarrow> bytes \<Rightarrow> (case_error + tbeData) option" where
  "decryptTBE k key iv ciphertext =
     (case NewCCM (Block k) key of
        Inl e \<Rightarrow> Some (Inl (CaseCcm e))
      | Inr ccm \<Rightarrow>
          (case Ccm_Open ccm [] iv ciphertext [] of
             Inl e \<Rightarrow> Some (Inl (CaseCcm e))
           | Inr pt \<Rightarrow> map_option (map_sum CaseDecode id) (decodeTBEData pt)))"

section \<open>The controller\<close>

record Fabric =
  fa_IPK :: bytes
  fa_FabricID :: u64
  fa_RootPubKey :: bytes
  fa_RCAC :: Cert

record Identity =
  id_NOC :: bytes
  id_ICAC :: bytes
  id_OpKey :: bytes

text \<open>\<open>ci_hash\<close> is what was written to the running hash.\<close>

record CaseInitiator =
  ci_fabric :: Fabric
  ci_self :: Identity
  ci_peerNodeID :: u64
  ci_localSessionID :: u16
  ci_initRandom :: bytes
  ci_eph :: "(bytes \<times> bytes) option"
  ci_hash :: bytes
  ci_sharedSecret :: "bytes option"
  ci_sigma2 :: Sigma2

definition NewCaseInitiator :: "Fabric \<Rightarrow> Identity \<Rightarrow> u64 \<Rightarrow> u16 \<Rightarrow> case_error + CaseInitiator" where
  "NewCaseInitiator fabric self peerNodeID localSessionID =
     (if length (fa_IPK fabric) \<noteq> 16 then Inl IPKLength
      else Inr \<lparr>ci_fabric = fabric, ci_self = self, ci_peerNodeID = peerNodeID, ci_localSessionID = localSessionID,
        ci_initRandom = [], ci_eph = None, ci_hash = [], ci_sharedSecret = None, ci_sigma2 = zeroSigma2\<rparr>)"

definition Initiator_Sigma1 :: "curve \<Rightarrow> bytes option \<Rightarrow> (bytes \<times> bytes) option \<Rightarrow> CaseInitiator
    \<Rightarrow> (case_error + bytes) \<times> CaseInitiator" where
  "Initiator_Sigma1 k rnd gen i =
     (case rnd of
        None \<Rightarrow> (Inl CaseRand, i\<lparr>ci_initRandom := replicate 32 0\<rparr>)
      | Some r \<Rightarrow>
          (let i = i\<lparr>ci_initRandom := r\<rparr> in
           case gen of
             None \<Rightarrow> (Inl CaseRand, i)
           | Some eph \<Rightarrow>
               (let i = i\<lparr>ci_eph := Some eph\<rparr>; f = ci_fabric i in
                case GenerateDestinationID k (fa_IPK f) (ci_initRandom i) (fa_RootPubKey f) (fa_FabricID f) (ci_peerNodeID i) of
                  Inl e \<Rightarrow> (Inl e, i)
                | Inr destID \<Rightarrow>
                    (case Sigma1_Encode \<lparr>s1_InitiatorRandom = ci_initRandom i,
                            s1_InitiatorSessionID = ci_localSessionID i, s1_DestinationID = destID,
                            s1_InitiatorEphPubKey = snd eph\<rparr> of
                       Inl e \<Rightarrow> (Inl (CaseEncode e), i)
                     | Inr msg \<Rightarrow> (Inr msg, i\<lparr>ci_hash := ci_hash i @ msg\<rparr>)))))"

definition decodeICAC :: "bytes \<Rightarrow> (case_error + Cert option) option" where
  "decodeICAC b =
     (if length b > 0 then map_option (map_sum CaseDecode Some) (Cert_Decode b) else Some (Inr None))"

text \<open>None is success.\<close>

definition verifyPeer :: "curve \<Rightarrow> CaseInitiator \<Rightarrow> Cert \<Rightarrow> tbeData \<Rightarrow> bytes \<Rightarrow> bytes \<Rightarrow> case_error option option" where
  "verifyPeer k i respNOC tbe respEph initEph =
     (case decodeICAC (tb_ICAC tbe) of
        None \<Rightarrow> None
      | Some (Inl e) \<Rightarrow> Some (Some e)
      | Some (Inr respICAC) \<Rightarrow>
          (case VerifyChain k respNOC respICAC (fa_RCAC (ci_fabric i)) of
             Some e \<Rightarrow> Some (Some (CaseChain e))
           | None \<Rightarrow>
               (case encodeTBSData (tb_NOC tbe) (tb_ICAC tbe) respEph initEph of
                  Inl e \<Rightarrow> Some (Some (CaseEncode e))
                | Inr tbs \<Rightarrow>
                    (case VerifyECDSA k (ce_PublicKey respNOC) tbs (tb_Signature tbe) of
                       Some e \<Rightarrow> Some (Some (CaseSignature e))
                     | None \<Rightarrow>
                         if NodeID (ce_Subject respNOC) \<noteq> Some (ci_peerNodeID i) then Some (Some NodeIDMismatch)
                         else if FabricID (ce_Subject respNOC) \<noteq> Some (fa_FabricID (ci_fabric i))
                         then Some (Some FabricIDMismatch) else Some None))))"

text \<open>A key derivation from no secret is one from the empty secret.\<close>

definition secret_bytes :: "bytes option \<Rightarrow> bytes" where
  "secret_bytes s = (case s of None \<Rightarrow> [] | Some b \<Rightarrow> b)"

definition buildSigma3 :: "curve \<Rightarrow> nat \<Rightarrow> CaseInitiator \<Rightarrow> (case_error + bytes) \<times> CaseInitiator" where
  "buildSigma3 k rnd i =
     (case ci_eph i of
        None \<Rightarrow> (Inl CaseNilKey, i)
      | Some (_, initEph) \<Rightarrow>
          (let respEph = s2_ResponderEphPubKey (ci_sigma2 i); self = ci_self i in
           case encodeTBSData (id_NOC self) (id_ICAC self) initEph respEph of
             Inl e \<Rightarrow> (Inl (CaseEncode e), i)
           | Inr tbs \<Rightarrow>
               (case SignECDSA k rnd (id_OpKey self) tbs of
                  Inl e \<Rightarrow> (Inl (CaseSign e), i)
                | Inr sig \<Rightarrow>
                    (case encodeTBEData \<lparr>tb_NOC = id_NOC self, tb_ICAC = id_ICAC self, tb_Signature = sig\<rparr> of
                       Inl e \<Rightarrow> (Inl (CaseEncode e), i)
                     | Inr tbe3 \<Rightarrow>
                         (case deriveSigmaKey k (secret_bytes (ci_sharedSecret i))
                                 (saltSigma3 (fa_IPK (ci_fabric i)) (SHA256 k (ci_hash i))) infoSigma3 of
                            Inl e \<Rightarrow> (Inl e, i)
                          | Inr sr3k \<Rightarrow>
                              (case encryptTBE k sr3k nonceTBE3 tbe3 of
                                 Inl e \<Rightarrow> (Inl e, i)
                               | Inr enc3 \<Rightarrow>
                                   (case Sigma3_Encode enc3 of
                                      Inl e \<Rightarrow> (Inl (CaseEncode e), i)
                                    | Inr msg \<Rightarrow> (Inr msg, i\<lparr>ci_hash := ci_hash i @ msg\<rparr>))))))))"

text \<open>The outcome of a step that may not return. The message and the shared secret stay set when a later
  check fails.\<close>

definition HandleSigma2 :: "curve \<Rightarrow> nat \<Rightarrow> bytes \<Rightarrow> CaseInitiator \<Rightarrow> ((case_error + bytes) \<times> CaseInitiator) option" where
  "HandleSigma2 k rnd sigma2Bytes i =
     (case DecodeSigma2 sigma2Bytes of
        None \<Rightarrow> None
      | Some (Inl e) \<Rightarrow> Some (Inl (CaseDecode e), i)
      | Some (Inr s2) \<Rightarrow>
          (let i = i\<lparr>ci_sigma2 := s2\<rparr> in
           if \<not> NewPublicKey k (s2_ResponderEphPubKey s2) then Some (Inl CasePeerKey, i)
           else case ci_eph i of
             None \<Rightarrow> Some (Inl CaseNilKey, i)
           | Some (eph, initEph) \<Rightarrow>
               (case ECDH k eph (s2_ResponderEphPubKey s2) of
                  None \<Rightarrow> Some (Inl CaseECDH, i\<lparr>ci_sharedSecret := None\<rparr>)
                | Some sharedSecret \<Rightarrow>
                    (let i = i\<lparr>ci_sharedSecret := Some sharedSecret\<rparr> in
                     case deriveSigmaKey k sharedSecret
                            (saltSigma2 (fa_IPK (ci_fabric i)) (s2_ResponderRandom s2) (s2_ResponderEphPubKey s2)
                              (SHA256 k (ci_hash i))) infoSigma2 of
                       Inl e \<Rightarrow> Some (Inl e, i)
                     | Inr sr2k \<Rightarrow>
                         (case decryptTBE k sr2k nonceTBE2 (s2_Encrypted2 s2) of
                            None \<Rightarrow> None
                          | Some (Inl e) \<Rightarrow> Some (Inl e, i)
                          | Some (Inr tbe2) \<Rightarrow>
                              (case Cert_Decode (tb_NOC tbe2) of
                                 None \<Rightarrow> None
                               | Some (Inl e) \<Rightarrow> Some (Inl (CaseDecode e), i)
                               | Some (Inr respNOC) \<Rightarrow>
                                   (case verifyPeer k i respNOC tbe2 (s2_ResponderEphPubKey s2) initEph of
                                      None \<Rightarrow> None
                                    | Some (Some e) \<Rightarrow> Some (Inl e, i)
                                    | Some None \<Rightarrow>
                                        Some (buildSigma3 k rnd (i\<lparr>ci_hash := ci_hash i @ sigma2Bytes\<rparr>)))))))))"

definition Initiator_SessionKeys :: "curve \<Rightarrow> CaseInitiator \<Rightarrow> case_error + CaseKeys" where
  "Initiator_SessionKeys k i =
     (case ci_sharedSecret i of
        None \<Rightarrow> Inl CaseNotComplete
      | Some s \<Rightarrow> deriveSessionKeys k s (fa_IPK (ci_fabric i)) (SHA256 k (ci_hash i)))"

definition selfNode :: "Identity \<Rightarrow> (case_error + u64) option" where
  "selfNode self = map_option (map_sum CaseDecode (\<lambda>c. case NodeID (ce_Subject c) of None \<Rightarrow> 0 | Some n \<Rightarrow> n))
     (Cert_Decode (id_NOC self))"

definition CaseInitiator_SecureSession :: "curve \<Rightarrow> CaseInitiator \<Rightarrow> (case_error + Secure) option" where
  "CaseInitiator_SecureSession k i =
     (case Initiator_SessionKeys k i of
        Inl e \<Rightarrow> Some (Inl e)
      | Inr keys \<Rightarrow>
          (case selfNode (ci_self i) of
             None \<Rightarrow> None
           | Some (Inl e) \<Rightarrow> Some (Inl e)
           | Some (Inr node) \<Rightarrow>
               Some (map_sum CaseSession id (NewSecure (Block k) (ci_localSessionID i)
                 (s2_ResponderSessionID (ci_sigma2 i)) node (ci_peerNodeID i) (ck_I2R keys) (ck_R2I keys) 0))))"

section \<open>The device\<close>

record CaseResponder =
  cr_fabric :: Fabric
  cr_self :: Identity
  cr_localSessionID :: u16
  cr_responderRandom :: bytes
  cr_eph :: "(bytes \<times> bytes) option"
  cr_hash :: bytes
  cr_initiatorEph :: bytes
  cr_sharedSecret :: "bytes option"
  cr_initiatorSessionID :: u16
  cr_initiatorNodeID :: u64

definition NewCaseResponder :: "Fabric \<Rightarrow> Identity \<Rightarrow> u16 \<Rightarrow> case_error + CaseResponder" where
  "NewCaseResponder fabric self localSessionID =
     (if length (fa_IPK fabric) \<noteq> 16 then Inl IPKLength
      else Inr \<lparr>cr_fabric = fabric, cr_self = self, cr_localSessionID = localSessionID, cr_responderRandom = [],
        cr_eph = None, cr_hash = [], cr_initiatorEph = [], cr_sharedSecret = None, cr_initiatorSessionID = 0,
        cr_initiatorNodeID = 0\<rparr>)"

definition HandleSigma1 :: "curve \<Rightarrow> bytes option \<Rightarrow> (bytes \<times> bytes) option \<Rightarrow> nat \<Rightarrow> bytes \<Rightarrow> CaseResponder
    \<Rightarrow> ((case_error + bytes) \<times> CaseResponder) option" where
  "HandleSigma1 k rnd gen sigrnd sigma1Bytes d =
     (case DecodeSigma1 sigma1Bytes of
        None \<Rightarrow> None
      | Some (Inl e) \<Rightarrow> Some (Inl (CaseDecode e), d)
      | Some (Inr s1) \<Rightarrow>
          (let d = d\<lparr>cr_initiatorEph := s1_InitiatorEphPubKey s1, cr_initiatorSessionID := s1_InitiatorSessionID s1,
                cr_hash := cr_hash d @ sigma1Bytes\<rparr> in
           case rnd of
             None \<Rightarrow> Some (Inl CaseRand, d\<lparr>cr_responderRandom := replicate 32 0\<rparr>)
           | Some r \<Rightarrow>
               (let d = d\<lparr>cr_responderRandom := r, cr_eph := gen\<rparr> in
                case gen of
                  None \<Rightarrow> Some (Inl CaseRand, d)
                | Some (eph, respEph) \<Rightarrow>
                    if \<not> NewPublicKey k (s1_InitiatorEphPubKey s1) then Some (Inl CasePeerKey, d)
                    else case ECDH k eph (s1_InitiatorEphPubKey s1) of
                      None \<Rightarrow> Some (Inl CaseECDH, d\<lparr>cr_sharedSecret := None\<rparr>)
                    | Some sharedSecret \<Rightarrow>
                        (let d = d\<lparr>cr_sharedSecret := Some sharedSecret\<rparr>; self = cr_self d in
                         case encodeTBSData (id_NOC self) (id_ICAC self) respEph (s1_InitiatorEphPubKey s1) of
                           Inl e \<Rightarrow> Some (Inl (CaseEncode e), d)
                         | Inr tbs \<Rightarrow>
                             (case SignECDSA k sigrnd (id_OpKey self) tbs of
                                Inl e \<Rightarrow> Some (Inl (CaseSign e), d)
                              | Inr sig \<Rightarrow>
                                  (case encodeTBEData \<lparr>tb_NOC = id_NOC self, tb_ICAC = id_ICAC self, tb_Signature = sig\<rparr> of
                                     Inl e \<Rightarrow> Some (Inl (CaseEncode e), d)
                                   | Inr tbe2 \<Rightarrow>
                                       (case deriveSigmaKey k sharedSecret
                                               (saltSigma2 (fa_IPK (cr_fabric d)) (cr_responderRandom d) respEph
                                                 (SHA256 k (cr_hash d))) infoSigma2 of
                                          Inl e \<Rightarrow> Some (Inl e, d)
                                        | Inr sr2k \<Rightarrow>
                                            (case encryptTBE k sr2k nonceTBE2 tbe2 of
                                               Inl e \<Rightarrow> Some (Inl e, d)
                                             | Inr enc2 \<Rightarrow>
                                                 (case Sigma2_Encode \<lparr>s2_ResponderRandom = cr_responderRandom d,
                                                         s2_ResponderSessionID = cr_localSessionID d,
                                                         s2_ResponderEphPubKey = respEph, s2_Encrypted2 = enc2\<rparr> of
                                                    Inl e \<Rightarrow> Some (Inl (CaseEncode e), d)
                                                  | Inr msg \<Rightarrow> Some (Inr msg, d\<lparr>cr_hash := cr_hash d @ msg\<rparr>))))))))))"

text \<open>The checks of \<^verbatim>\<open>HandleSigma3\<close> on what it decrypted; \<open>Inr\<close> is the initiator's certificate.\<close>

definition checkInitiator :: "curve \<Rightarrow> CaseResponder \<Rightarrow> tbeData \<Rightarrow> (case_error + Cert) option" where
  "checkInitiator k d tbe3 =
     (case Cert_Decode (tb_NOC tbe3) of
        None \<Rightarrow> None
      | Some (Inl e) \<Rightarrow> Some (Inl (CaseDecode e))
      | Some (Inr initNOC) \<Rightarrow>
          (case decodeICAC (tb_ICAC tbe3) of
             None \<Rightarrow> None
           | Some (Inl e) \<Rightarrow> Some (Inl e)
           | Some (Inr initICAC) \<Rightarrow>
               (case VerifyChain k initNOC initICAC (fa_RCAC (cr_fabric d)) of
                  Some e \<Rightarrow> Some (Inl (CaseChain e))
                | None \<Rightarrow>
                    (case cr_eph d of
                       None \<Rightarrow> Some (Inl CaseNilKey)
                     | Some (_, respEph) \<Rightarrow>
                         (case encodeTBSData (tb_NOC tbe3) (tb_ICAC tbe3) (cr_initiatorEph d) respEph of
                            Inl e \<Rightarrow> Some (Inl (CaseEncode e))
                          | Inr tbs \<Rightarrow>
                              (case VerifyECDSA k (ce_PublicKey initNOC) tbs (tb_Signature tbe3) of
                                 Some e \<Rightarrow> Some (Inl (CaseSignature e))
                               | None \<Rightarrow> Some (Inr initNOC)))))))"

definition HandleSigma3 :: "curve \<Rightarrow> bytes \<Rightarrow> CaseResponder \<Rightarrow> (case_error option \<times> CaseResponder) option" where
  "HandleSigma3 k sigma3Bytes d =
     (case DecodeSigma3 sigma3Bytes of
        None \<Rightarrow> None
      | Some (Inl e) \<Rightarrow> Some (Some (CaseDecode e), d)
      | Some (Inr encrypted3) \<Rightarrow>
          (case deriveSigmaKey k (secret_bytes (cr_sharedSecret d))
                  (saltSigma3 (fa_IPK (cr_fabric d)) (SHA256 k (cr_hash d))) infoSigma3 of
             Inl e \<Rightarrow> Some (Some e, d)
           | Inr sr3k \<Rightarrow>
               (case decryptTBE k sr3k nonceTBE3 encrypted3 of
                  None \<Rightarrow> None
                | Some (Inl e) \<Rightarrow> Some (Some e, d)
                | Some (Inr tbe3) \<Rightarrow>
                    (case checkInitiator k d tbe3 of
                       None \<Rightarrow> None
                     | Some (Inl e) \<Rightarrow> Some (Some e, d)
                     | Some (Inr initNOC) \<Rightarrow>
                         Some (None, d\<lparr>cr_initiatorNodeID := (case NodeID (ce_Subject initNOC) of None \<Rightarrow> 0 | Some n \<Rightarrow> n),
                           cr_hash := cr_hash d @ sigma3Bytes\<rparr>)))))"

definition Responder_SessionKeys :: "curve \<Rightarrow> CaseResponder \<Rightarrow> case_error + CaseKeys" where
  "Responder_SessionKeys k d =
     (case cr_sharedSecret d of
        None \<Rightarrow> Inl CaseNotComplete
      | Some s \<Rightarrow> deriveSessionKeys k s (fa_IPK (cr_fabric d)) (SHA256 k (cr_hash d)))"

definition CaseResponder_SecureSession :: "curve \<Rightarrow> CaseResponder \<Rightarrow> (case_error + Secure) option" where
  "CaseResponder_SecureSession k d =
     (case Responder_SessionKeys k d of
        Inl e \<Rightarrow> Some (Inl e)
      | Inr keys \<Rightarrow>
          (case selfNode (cr_self d) of
             None \<Rightarrow> None
           | Some (Inl e) \<Rightarrow> Some (Inl e)
           | Some (Inr node) \<Rightarrow>
               Some (map_sum CaseSession id (NewSecure (Block k) (cr_localSessionID d)
                 (cr_initiatorSessionID d) node (cr_initiatorNodeID d) (ck_R2I keys) (ck_I2R keys) 0))))"

end
