(* ===== verification/Case_Properties.thy ===== *)
theory Case_Properties
  imports Case Pase_Properties
begin

text \<open>
  What a CASE handshake promises: the messages survive encoding, two members of a fabric establish sessions
  that understand each other, and a controller that accepts the device's message has one from the node it
  asked for, made for this handshake, as long as every node of the fabric keeps to the protocol.
\<close>

section \<open>The messages survive encoding\<close>

definition sigma1_elem :: "Sigma1 \<Rightarrow> elem" where
  "sigma1_elem s = Cont Anonymous CStructure
     [Prim (Context 1) (PBytes (s1_InitiatorRandom s)), ctx_uint 2 (ucast (s1_InitiatorSessionID s)),
      Prim (Context 3) (PBytes (s1_DestinationID s)), Prim (Context 4) (PBytes (s1_InitiatorEphPubKey s))]"

definition sigma2_elem :: "Sigma2 \<Rightarrow> elem" where
  "sigma2_elem s = Cont Anonymous CStructure
     [Prim (Context 1) (PBytes (s2_ResponderRandom s)), ctx_uint 2 (ucast (s2_ResponderSessionID s)),
      Prim (Context 3) (PBytes (s2_ResponderEphPubKey s)), Prim (Context 4) (PBytes (s2_Encrypted2 s))]"

definition opt_bytes :: "u8 \<Rightarrow> bytes \<Rightarrow> elem list" where
  "opt_bytes t b = (if length b > 0 then [Prim (Context t) (PBytes b)] else [])"

definition tbe_elem :: "tbeData \<Rightarrow> elem" where
  "tbe_elem d = Cont Anonymous CStructure
     (Prim (Context 1) (PBytes (tb_NOC d)) # opt_bytes 2 (tb_ICAC d) @ [Prim (Context 3) (PBytes (tb_Signature d))])"

definition tbs_elem :: "bytes \<Rightarrow> bytes \<Rightarrow> bytes \<Rightarrow> bytes \<Rightarrow> elem" where
  "tbs_elem noc icac a b = Cont Anonymous CStructure
     (Prim (Context 1) (PBytes noc) # opt_bytes 2 icac @ [Prim (Context 3) (PBytes a), Prim (Context 4) (PBytes b)])"

lemma Sigma1_Encode_elem: "Sigma1_Encode s = Inr (enc (sigma1_elem s))"
  by (simp only: Sigma1_Encode_def encode_rules) (simp add: sigma1_elem_def)

lemma Sigma2_Encode_elem: "Sigma2_Encode s = Inr (enc (sigma2_elem s))"
  by (simp only: Sigma2_Encode_def encode_rules) (simp add: sigma2_elem_def)

lemma Sigma3_Encode_elem: "Sigma3_Encode b = Inr (enc (Cont Anonymous CStructure [Prim (Context 1) (PBytes b)]))"
  by (simp only: Sigma3_Encode_def encode_rules) simp

lemma encodeTBEData_elem: "encodeTBEData d = Inr (enc (tbe_elem d))"
  by (cases "length (tb_ICAC d) > 0"; simp only: encodeTBEData_def encode_rules if_True if_False)
    (simp_all add: tbe_elem_def opt_bytes_def)

lemma encodeTBSData_elem: "encodeTBSData noc icac a b = Inr (enc (tbs_elem noc icac a b))"
  by (cases "length icac > 0"; simp only: encodeTBSData_def encode_rules if_True if_False)
    (simp_all add: tbs_elem_def opt_bytes_def)

lemma sigma1_decodes:
  assumes "short (s1_InitiatorRandom s)" "short (s1_DestinationID s)" "short (s1_InitiatorEphPubKey s)"
  shows "DecodeSigma1 (enc (sigma1_elem s)) = Some (Inr s)"
proof -
  note len = assms [unfolded short_def]
  let ?q1 = "zeroSigma1\<lparr>s1_InitiatorRandom := s1_InitiatorRandom s\<rparr>"
  let ?q2 = "?q1\<lparr>s1_InitiatorSessionID := s1_InitiatorSessionID s\<rparr>"
  let ?q3 = "?q2\<lparr>s1_DestinationID := s1_DestinationID s\<rparr>"
  let ?q4 = "?q3\<lparr>s1_InitiatorEphPubKey := s1_InitiatorEphPubKey s\<rparr>"
  have q: "?q4 = s" by (simp add: zeroSigma1_def)
  have "runs sigma1Body 1
      [Prim (Context 1) (PBytes (s1_InitiatorRandom s)), ctx_uint 2 (ucast (s1_InitiatorSessionID s)),
       Prim (Context 3) (PBytes (s1_DestinationID s)), Prim (Context 4) (PBytes (s1_InitiatorEphPubKey s))] zeroSigma1 ?q4"
    unfolding sigma1Body_def
    by (rule runs.Cons [where ?s1.0 = ?q1], (rule decodes_intros; simp?)+, simp add: len [simplified],
        rule runs.Cons [where ?s1.0 = ?q2], (rule decodes_intros; simp?)+, simp,
        rule runs.Cons [where ?s1.0 = ?q3], (rule decodes_intros; simp?)+, simp add: len [simplified],
        rule runs.Cons [where ?s1.0 = ?q4], (rule decodes_intros; simp?)+, simp add: len [simplified],
        rule runs.Nil)
  then have "decodes (each_member sigma1Body zeroSigma1) 0 (sigma1_elem s) s"
    unfolding q sigma1_elem_def by (intro decodes_each_member) simp_all
  then show ?thesis unfolding DecodeSigma1_def sigma1_elem_def
    by (rule dec_top_message [rotated 2]) (use len in simp_all)
qed

lemma sigma2_decodes:
  assumes "short (s2_ResponderRandom s)" "short (s2_ResponderEphPubKey s)" "short (s2_Encrypted2 s)"
  shows "DecodeSigma2 (enc (sigma2_elem s)) = Some (Inr s)"
proof -
  note len = assms [unfolded short_def]
  let ?q1 = "zeroSigma2\<lparr>s2_ResponderRandom := s2_ResponderRandom s\<rparr>"
  let ?q2 = "?q1\<lparr>s2_ResponderSessionID := s2_ResponderSessionID s\<rparr>"
  let ?q3 = "?q2\<lparr>s2_ResponderEphPubKey := s2_ResponderEphPubKey s\<rparr>"
  let ?q4 = "?q3\<lparr>s2_Encrypted2 := s2_Encrypted2 s\<rparr>"
  have q: "?q4 = s" by (simp add: zeroSigma2_def)
  have "runs sigma2Body 1
      [Prim (Context 1) (PBytes (s2_ResponderRandom s)), ctx_uint 2 (ucast (s2_ResponderSessionID s)),
       Prim (Context 3) (PBytes (s2_ResponderEphPubKey s)), Prim (Context 4) (PBytes (s2_Encrypted2 s))] zeroSigma2 ?q4"
    unfolding sigma2Body_def
    by (rule runs.Cons [where ?s1.0 = ?q1], (rule decodes_intros; simp?)+, simp add: len [simplified],
        rule runs.Cons [where ?s1.0 = ?q2], (rule decodes_intros; simp?)+, simp,
        rule runs.Cons [where ?s1.0 = ?q3], (rule decodes_intros; simp?)+, simp add: len [simplified],
        rule runs.Cons [where ?s1.0 = ?q4], (rule decodes_intros; simp?)+, simp add: len [simplified],
        rule runs.Nil)
  then have "decodes (each_member sigma2Body zeroSigma2) 0 (sigma2_elem s) s"
    unfolding q sigma2_elem_def by (intro decodes_each_member) simp_all
  then show ?thesis unfolding DecodeSigma2_def sigma2_elem_def
    by (rule dec_top_message [rotated 2]) (use len in simp_all)
qed

lemma sigma3_decodes:
  assumes "short b"
  shows "DecodeSigma3 (enc (Cont Anonymous CStructure [Prim (Context 1) (PBytes b)])) = Some (Inr b)"
proof -
  note len = assms [unfolded short_def]
  have "runs sigma3Body 1 [Prim (Context 1) (PBytes b)] [] b"
    unfolding sigma3Body_def
    by (rule runs.Cons [OF _ _ runs.Nil])
      (auto simp: decodes_def cur_tag dec_get_def cur_get cur_at len [simplified])
  then have "decodes (each_member sigma3Body []) 0 (Cont Anonymous CStructure [Prim (Context 1) (PBytes b)]) b"
    by (intro decodes_each_member) simp_all
  then show ?thesis unfolding DecodeSigma3_def
    by (rule dec_top_message [rotated 2]) (use len in simp_all)
qed

lemma tbe_decodes:
  assumes "short (tb_NOC d)" "short (tb_ICAC d)" "short (tb_Signature d)"
  shows "decodeTBEData (enc (tbe_elem d)) = Some (Inr d)"
proof -
  note len = assms [unfolded short_def]
  let ?z = "\<lparr>tb_NOC = [], tb_ICAC = [], tb_Signature = []\<rparr>"
  let ?q1 = "?z\<lparr>tb_NOC := tb_NOC d\<rparr>"
  let ?q2 = "?q1\<lparr>tb_ICAC := tb_ICAC d\<rparr>"
  let ?q3 = "?q2\<lparr>tb_Signature := tb_Signature d\<rparr>"
  have q: "?q3 = d" by simp
  have sig: "runs tbeBody 1 [Prim (Context 3) (PBytes (tb_Signature d))] ?q2 ?q3"
    unfolding tbeBody_def
    by (rule runs.Cons [where ?s1.0 = ?q3], (rule decodes_intros; simp?)+, simp add: len [simplified], rule runs.Nil)
  have rest: "runs tbeBody 1 (opt_bytes 2 (tb_ICAC d) @ [Prim (Context 3) (PBytes (tb_Signature d))]) ?q1 ?q3"
  proof (cases "tb_ICAC d = []")
    case True
    then have "?q2 = ?q1" by simp
    with sig True show ?thesis by (simp add: opt_bytes_def)
  next
    case False
    then have o: "opt_bytes 2 (tb_ICAC d) = [Prim (Context 2) (PBytes (tb_ICAC d))]" by (simp add: opt_bytes_def)
    show ?thesis unfolding o append_Cons append_Nil
      by (rule runs.Cons [where ?s1.0 = ?q2, OF _ _ sig], unfold tbeBody_def, (rule decodes_intros; simp?)+,
          simp add: len [simplified])
  qed
  have "runs tbeBody 1 (Prim (Context 1) (PBytes (tb_NOC d)) # opt_bytes 2 (tb_ICAC d)
      @ [Prim (Context 3) (PBytes (tb_Signature d))]) ?z ?q3"
    by (rule runs.Cons [where ?s1.0 = ?q1, OF _ _ rest], unfold tbeBody_def, (rule decodes_intros; simp?)+,
        simp add: len [simplified])
  then have "decodes (each_member tbeBody ?z) 0 (tbe_elem d) d"
    unfolding q tbe_elem_def by (intro decodes_each_member) simp_all
  then show ?thesis unfolding decodeTBEData_def tbe_elem_def
    by (rule dec_top_message [rotated 2]) (use len in \<open>simp_all add: opt_bytes_def\<close>)
qed

lemma length_enc_ctl: "length (enc_ctl (Context t) et) = 2"
  by (simp add: enc_ctl_def Writer_control_def NewWriter_def w_append_def)

lemma length_enc_bytes:
  "length b \<le> length (enc (Prim (Context t) (PBytes b)))" "length (enc (Prim (Context t) (PBytes b))) \<le> length b + 10"
  by (simp_all add: length_enc_ctl enc_blob_def Let_def uint_width_def)

lemma length_enc_anon: "length (enc_ctl Anonymous et) = 1"
  by (simp add: enc_ctl_def Writer_control_def NewWriter_def w_append_def Anonymous_def)

lemma length_enc_cont: "length (enc (Cont Anonymous CStructure es)) = length (encs es) + 2"
  by (simp add: length_enc_anon)

lemma length_opt_bytes: "length (encs (opt_bytes t b)) \<le> length b + 10"
  using length_enc_bytes(2) [of t b] by (simp add: opt_bytes_def del: enc.simps)

lemma length_tbe: "length (enc (tbe_elem d)) \<le> length (tb_NOC d) + length (tb_ICAC d) + length (tb_Signature d) + 32"
  using length_enc_bytes(2) [of 1 "tb_NOC d"] length_opt_bytes [of 2 "tb_ICAC d"] length_enc_bytes(2) [of 3 "tb_Signature d"]
  by (simp add: tbe_elem_def length_enc_cont del: enc.simps)

section \<open>The payloads\<close>

lemma seal_opens:
  assumes "length key = 16" "length iv = 13" "length pt \<le> 65535"
  obtains ct where "encryptTBE k key iv pt = Inr ct" "decryptTBE k key iv ct = map_option (map_sum CaseDecode id) (decodeTBEData pt)"
    "length ct = length pt + 16"
proof -
  let ?c = "\<lparr>c_block = Block k key, c_nonceLen = 13, c_tagLen = 16\<rparr>"
  have c: "NewCCM (Block k) key = Inr ?c" using assms(1) by (simp add: NewCCM_def newCCM_def)
  obtain ct where ct: "Ccm_Seal ?c [] iv pt [] = Inr ct"
    using assms(2,3) by (simp add: Ccm_Seal_def maxPayload_def lenField_def)
  have "Ccm_Open ?c [] iv ct [] = Inr pt" by (rule Open_Seal [OF _ ct]) simp
  moreover have "length ct = length pt + 16" using Seal_length [OF _ ct] by simp
  ultimately show thesis using that [of ct] c ct by (simp add: encryptTBE_def decryptTBE_def)
qed

section \<open>Members of a fabric\<close>

definition keypair :: "curve \<Rightarrow> bytes \<times> bytes \<Rightarrow> bool" where
  "keypair k p \<longleftrightarrow> length (fst p) = 32 \<and> Public k (fst p) = Some (snd p) \<and> length (snd p) = 65"

text \<open>What the code relies on of the curve library, the key derivation and the hashes, in runs in which
  the random source does not fail.\<close>

definition case_lib :: "curve \<Rightarrow> bool" where
  "case_lib k \<longleftrightarrow>
     (\<forall>a. keypair k a \<longrightarrow> NewPublicKey k (snd a))
     \<and> (\<forall>a b. keypair k a \<longrightarrow> keypair k b \<longrightarrow> (\<exists>z. ECDH k (fst a) (snd b) = Some z \<and> ECDH k (fst b) (snd a) = Some z))
     \<and> (\<forall>s salt info n. n \<le> 48 \<longrightarrow> (\<exists>out. Hkdf k s salt info n = Some out \<and> length out = n))
     \<and> (\<forall>a r h. keypair k a \<longrightarrow> Sign k r (fst a) h \<noteq> None)
     \<and> (\<forall>key m. length (HMAC k key m) = 32)"

definition case_ok :: "curve \<Rightarrow> bool" where
  "case_ok k \<longleftrightarrow> curve_ok k \<and> case_lib k"

text \<open>An identity that the members of the fabric accept as the node.\<close>

definition member :: "curve \<Rightarrow> Fabric \<Rightarrow> Identity \<Rightarrow> u64 \<Rightarrow> bool" where
  "member k f self node \<longleftrightarrow>
     (\<exists>noc icac. Cert_Decode (id_NOC self) = Some (Inr noc) \<and> decodeICAC (id_ICAC self) = Some (Inr icac)
        \<and> VerifyChain k noc icac (fa_RCAC f) = None \<and> keypair k (id_OpKey self, ce_PublicKey noc)
        \<and> NodeID (ce_Subject noc) = Some node \<and> FabricID (ce_Subject noc) = Some (fa_FabricID f)
        \<and> length (id_NOC self) + length (id_ICAC self) \<le> 65000)"

definition fabric_ok :: "Fabric \<Rightarrow> bool" where
  "fabric_ok f \<longleftrightarrow> length (fa_IPK f) = 16 \<and> length (fa_RootPubKey f) = 65"

text \<open>A member signs its certificates and the two keys; the payload opens with the same key and convinces.\<close>

definition convinces :: "curve \<Rightarrow> Identity \<Rightarrow> bool" where
  "convinces k self \<longleftrightarrow> (\<forall>noc rnd a b sig. Cert_Decode (id_NOC self) = Some (Inr noc) \<longrightarrow> length a = 65 \<longrightarrow> length b = 65 \<longrightarrow>
     SignECDSA k rnd (id_OpKey self) (enc (tbs_elem (id_NOC self) (id_ICAC self) a b)) = Inr sig \<longrightarrow>
     length sig = 64 \<and> VerifyECDSA k (ce_PublicKey noc) (enc (tbs_elem (id_NOC self) (id_ICAC self) a b)) sig = None)"

lemma member_convinces:
  assumes "curve_ok k" "member k f self node"
  shows "convinces k self"
proof -
  obtain noc where n: "Cert_Decode (id_NOC self) = Some (Inr noc)" "keypair k (id_OpKey self, ce_PublicKey noc)"
    using assms(2) unfolding member_def by blast
  then have p: "Public k (id_OpKey self) = Some (ce_PublicKey noc)" "length (ce_PublicKey noc) = 65"
    by (simp_all add: keypair_def)
  show ?thesis
    unfolding convinces_def
    using n(1) SignECDSA_verifies [OF assms(1) p] p(2) by (auto simp: VerifyECDSA_def simp del: enc.simps)
qed

lemma member_signs:
  assumes k: "case_lib k" and cv: "convinces k self" and m: "member k f self node" and key: "length key = 16"
    and iv: "length iv = 13" and ab: "length a = 65" "length b = 65"
  obtains tbs sig pt ct noc icac where
    "encodeTBSData (id_NOC self) (id_ICAC self) a b = Inr tbs" "SignECDSA k rnd (id_OpKey self) tbs = Inr sig"
    "encodeTBEData \<lparr>tb_NOC = id_NOC self, tb_ICAC = id_ICAC self, tb_Signature = sig\<rparr> = Inr pt"
    "encryptTBE k key iv pt = Inr ct" "short ct"
    "decryptTBE k key iv ct = Some (Inr \<lparr>tb_NOC = id_NOC self, tb_ICAC = id_ICAC self, tb_Signature = sig\<rparr>)"
    "Cert_Decode (id_NOC self) = Some (Inr noc)" "decodeICAC (id_ICAC self) = Some (Inr icac)"
    "VerifyChain k noc icac (fa_RCAC f) = None" "VerifyECDSA k (ce_PublicKey noc) tbs sig = None"
    "NodeID (ce_Subject noc) = Some node" "FabricID (ce_Subject noc) = Some (fa_FabricID f)"
proof -
  obtain noc icac where n: "Cert_Decode (id_NOC self) = Some (Inr noc)" "decodeICAC (id_ICAC self) = Some (Inr icac)"
    "VerifyChain k noc icac (fa_RCAC f) = None" "keypair k (id_OpKey self, ce_PublicKey noc)"
    "NodeID (ce_Subject noc) = Some node" "FabricID (ce_Subject noc) = Some (fa_FabricID f)"
    "length (id_NOC self) + length (id_ICAC self) \<le> 65000"
    using m unfolding member_def by blast
  have p: "length (id_OpKey self) = 32" "Public k (id_OpKey self) = Some (ce_PublicKey noc)"
    "length (ce_PublicKey noc) = 65"
    using n(4) by (simp_all add: keypair_def)
  let ?tbs = "enc (tbs_elem (id_NOC self) (id_ICAC self) a b)"
  have "Sign k rnd (id_OpKey self) (SHA256 k ?tbs) \<noteq> None"
    using k n(4) unfolding case_lib_def by (metis fst_conv)
  then obtain sig where sig: "SignECDSA k rnd (id_OpKey self) ?tbs = Inr sig"
    using p by (auto simp: SignECDSA_def simp del: enc.simps)
  then have v: "length sig = 64" and ver: "VerifyECDSA k (ce_PublicKey noc) ?tbs sig = None"
    using cv n(1) ab unfolding convinces_def by blast+
  let ?d = "\<lparr>tb_NOC = id_NOC self, tb_ICAC = id_ICAC self, tb_Signature = sig\<rparr>"
  have l: "length (enc (tbe_elem ?d)) \<le> 65535" using length_tbe [of ?d] n(7) v by simp
  obtain ct where ct: "encryptTBE k key iv (enc (tbe_elem ?d)) = Inr ct"
    "decryptTBE k key iv ct = map_option (map_sum CaseDecode id) (decodeTBEData (enc (tbe_elem ?d)))"
    "length ct = length (enc (tbe_elem ?d)) + 16"
    using seal_opens [OF key iv l] .
  have "decodeTBEData (enc (tbe_elem ?d)) = Some (Inr ?d)"
    by (rule tbe_decodes) (use n(7) v in \<open>simp_all add: short_def\<close>)
  with ct(2) have dec: "decryptTBE k key iv ct = Some (Inr ?d)" by simp
  have sh: "short ct" using ct(3) l by (simp add: short_def)
  show thesis
    by (rule that [OF encodeTBSData_elem sig encodeTBEData_elem ct(1) sh dec n(1-3) ver n(5,6)])
qed

section \<open>Two members agree\<close>

definition case_run :: "curve \<Rightarrow> Fabric \<Rightarrow> Identity \<Rightarrow> u64 \<Rightarrow> u16 \<Rightarrow> bytes option \<Rightarrow> (bytes \<times> bytes) option \<Rightarrow> nat
    \<Rightarrow> Fabric \<Rightarrow> Identity \<Rightarrow> u16 \<Rightarrow> bytes option \<Rightarrow> (bytes \<times> bytes) option \<Rightarrow> nat
    \<Rightarrow> (case_error + CaseInitiator \<times> CaseResponder) option" where
  "case_run k fi self peer isid irnd igen isig fd dself rsid rrnd rgen rsig =
     (case NewCaseResponder fd dself rsid of Inl e \<Rightarrow> Some (Inl e) | Inr d0 \<Rightarrow>
     (case NewCaseInitiator fi self peer isid of Inl e \<Rightarrow> Some (Inl e) | Inr i0 \<Rightarrow>
     (case Initiator_Sigma1 k irnd igen i0 of (Inl e, _) \<Rightarrow> Some (Inl e) | (Inr m1, i1) \<Rightarrow>
     (case HandleSigma1 k rrnd rgen rsig m1 d0 of None \<Rightarrow> None | Some (Inl e, _) \<Rightarrow> Some (Inl e) | Some (Inr m2, d1) \<Rightarrow>
     (case HandleSigma2 k isig m2 i1 of None \<Rightarrow> None | Some (Inl e, _) \<Rightarrow> Some (Inl e) | Some (Inr m3, i2) \<Rightarrow>
     (case HandleSigma3 k m3 d1 of None \<Rightarrow> None | Some (Some e, _) \<Rightarrow> Some (Inl e) | Some (None, d2) \<Rightarrow>
        Some (Inr (i2, d2))))))))"

lemma case_okD:
  assumes "case_lib k"
  shows "keypair k a \<Longrightarrow> NewPublicKey k (snd a)"
    "keypair k a \<Longrightarrow> keypair k b \<Longrightarrow> \<exists>z. ECDH k (fst a) (snd b) = Some z \<and> ECDH k (fst b) (snd a) = Some z"
    "n \<le> 48 \<Longrightarrow> \<exists>out. Hkdf k s salt info n = Some out \<and> length out = n" "length (HMAC k key m) = 32"
  using assms unfolding case_lib_def by blast+

lemma num16: "(16 :: nat) \<le> 48"
  by simp

lemma honest_case:
  assumes ok: "case_lib k" and ci: "convinces k self" and cd: "convinces k dself" and f: "fabric_ok f" and mi: "member k f self inode" and md: "member k f dself dnode"
    and rnd: "length ri = 32" "length rr = 32" and ke: "keypair k ei" "keypair k ed"
  shows "\<exists>i d z s2. case_run k f self dnode isid (Some ri) (Some ei) isig f dself rsid (Some rr) (Some ed) rsig = Some (Inr (i, d))
    \<and> ci_fabric i = f \<and> cr_fabric d = f \<and> ci_self i = self \<and> cr_self d = dself
    \<and> ci_sharedSecret i = Some z \<and> cr_sharedSecret d = Some z \<and> ci_hash i = cr_hash d
    \<and> ci_localSessionID i = isid \<and> cr_localSessionID d = rsid \<and> ci_sigma2 i = s2 \<and> s2_ResponderSessionID s2 = rsid
    \<and> cr_initiatorSessionID d = isid \<and> ci_peerNodeID i = dnode \<and> cr_initiatorNodeID d = inode"
proof -
  obtain z where z: "ECDH k (fst ei) (snd ed) = Some z" "ECDH k (fst ed) (snd ei) = Some z"
    using case_okD(2) [OF ok ke] by blast
  have pub: "NewPublicKey k (snd ei)" "NewPublicKey k (snd ed)" using case_okD(1) [OF ok] ke by blast+
  have len: "length (fa_IPK f) = 16" "length (fa_RootPubKey f) = 65" using f by (simp_all add: fabric_ok_def)
  have le: "length (snd ei) = 65" "length (snd ed) = 65" using ke by (simp_all add: keypair_def)
  let ?dest = "HMAC k (fa_IPK f) (ri @ fa_RootPubKey f @ le_bytes 8 (fa_FabricID f) @ le_bytes 8 dnode)"
  let ?s1 = "\<lparr>s1_InitiatorRandom = ri, s1_InitiatorSessionID = isid, s1_DestinationID = ?dest, s1_InitiatorEphPubKey = snd ei\<rparr>"
  define m1 where "m1 = enc (sigma1_elem ?s1)"
  have m1: "Sigma1_Encode ?s1 = Inr m1" "DecodeSigma1 m1 = Some (Inr ?s1)"
    unfolding m1_def using rnd le case_okD(4) [OF ok]
    by (simp_all add: Sigma1_Encode_elem sigma1_decodes short_def del: enc.simps)
  let ?salt2 = "saltSigma2 (fa_IPK f) rr (snd ed) (SHA256 k m1)"
  obtain k2 where k2: "Hkdf k z ?salt2 infoSigma2 16 = Some k2" "length k2 = 16"
    using case_okD(3) [OF ok, of 16 z ?salt2 infoSigma2] by (metis num16)
  have iv: "length nonceTBE2 = 13" "length nonceTBE3 = 13" by simp_all
  obtain tbs2 sig2 pt2 ct2 noc2 icac2 where r:
    "encodeTBSData (id_NOC dself) (id_ICAC dself) (snd ed) (snd ei) = Inr tbs2" "SignECDSA k rsig (id_OpKey dself) tbs2 = Inr sig2"
    "encodeTBEData \<lparr>tb_NOC = id_NOC dself, tb_ICAC = id_ICAC dself, tb_Signature = sig2\<rparr> = Inr pt2"
    "encryptTBE k k2 nonceTBE2 pt2 = Inr ct2" "short ct2"
    "decryptTBE k k2 nonceTBE2 ct2 = Some (Inr \<lparr>tb_NOC = id_NOC dself, tb_ICAC = id_ICAC dself, tb_Signature = sig2\<rparr>)"
    "Cert_Decode (id_NOC dself) = Some (Inr noc2)" "decodeICAC (id_ICAC dself) = Some (Inr icac2)"
    "VerifyChain k noc2 icac2 (fa_RCAC f) = None" "VerifyECDSA k (ce_PublicKey noc2) tbs2 sig2 = None"
    "NodeID (ce_Subject noc2) = Some dnode" "FabricID (ce_Subject noc2) = Some (fa_FabricID f)"
    using member_signs [OF ok cd md k2(2) iv(1) le(2,1)] .
  let ?s2 = "\<lparr>s2_ResponderRandom = rr, s2_ResponderSessionID = rsid, s2_ResponderEphPubKey = snd ed, s2_Encrypted2 = ct2\<rparr>"
  define m2 where "m2 = enc (sigma2_elem ?s2)"
  have m2: "Sigma2_Encode ?s2 = Inr m2" "DecodeSigma2 m2 = Some (Inr ?s2)"
    unfolding m2_def using rnd le r(5) by (simp_all add: Sigma2_Encode_elem sigma2_decodes short_def del: enc.simps)
  let ?salt3 = "saltSigma3 (fa_IPK f) (SHA256 k (m1 @ m2))"
  obtain k3 where k3: "Hkdf k z ?salt3 infoSigma3 16 = Some k3" "length k3 = 16"
    using case_okD(3) [OF ok, of 16 z ?salt3 infoSigma3] by (metis num16)
  obtain tbs3 sig3 pt3 ct3 noc3 icac3 where i:
    "encodeTBSData (id_NOC self) (id_ICAC self) (snd ei) (snd ed) = Inr tbs3" "SignECDSA k isig (id_OpKey self) tbs3 = Inr sig3"
    "encodeTBEData \<lparr>tb_NOC = id_NOC self, tb_ICAC = id_ICAC self, tb_Signature = sig3\<rparr> = Inr pt3"
    "encryptTBE k k3 nonceTBE3 pt3 = Inr ct3" "short ct3"
    "decryptTBE k k3 nonceTBE3 ct3 = Some (Inr \<lparr>tb_NOC = id_NOC self, tb_ICAC = id_ICAC self, tb_Signature = sig3\<rparr>)"
    "Cert_Decode (id_NOC self) = Some (Inr noc3)" "decodeICAC (id_ICAC self) = Some (Inr icac3)"
    "VerifyChain k noc3 icac3 (fa_RCAC f) = None" "VerifyECDSA k (ce_PublicKey noc3) tbs3 sig3 = None"
    "NodeID (ce_Subject noc3) = Some inode" "FabricID (ce_Subject noc3) = Some (fa_FabricID f)"
    using member_signs [OF ok ci mi k3(2) iv(2) le] .
  define m3 where "m3 = enc (Cont Anonymous CStructure [Prim (Context 1) (PBytes ct3)])"
  have m3: "Sigma3_Encode ct3 = Inr m3" "DecodeSigma3 m3 = Some (Inr ct3)"
    unfolding m3_def by (rule Sigma3_Encode_elem, rule sigma3_decodes [OF i(5)])
  have ei: "ei = (fst ei, snd ei)" and ed: "ed = (fst ed, snd ed)" by simp_all
  let ?i0 = "\<lparr>ci_fabric = f, ci_self = self, ci_peerNodeID = dnode, ci_localSessionID = isid, ci_initRandom = [],
    ci_eph = None, ci_hash = [], ci_sharedSecret = None, ci_sigma2 = zeroSigma2\<rparr>"
  let ?i1 = "?i0\<lparr>ci_initRandom := ri, ci_eph := Some ei, ci_hash := m1\<rparr>"
  have s1: "Initiator_Sigma1 k (Some ri) (Some ei) ?i0 = (Inr m1, ?i1)"
    using m1 len rnd by (simp add: Initiator_Sigma1_def GenerateDestinationID_def Let_def)
  let ?d0 = "\<lparr>cr_fabric = f, cr_self = dself, cr_localSessionID = rsid, cr_responderRandom = [], cr_eph = None,
    cr_hash = [], cr_initiatorEph = [], cr_sharedSecret = None, cr_initiatorSessionID = 0, cr_initiatorNodeID = 0\<rparr>"
  let ?d1 = "?d0\<lparr>cr_responderRandom := rr, cr_eph := Some ed, cr_hash := m1 @ m2, cr_initiatorEph := snd ei,
    cr_sharedSecret := Some z, cr_initiatorSessionID := isid\<rparr>"
  have s2: "HandleSigma1 k (Some rr) (Some ed) rsig m1 ?d0 = Some (Inr m2, ?d1)"
    using m1 m2 r(1-4) z(2) k2 pub(1) unfolding HandleSigma1_def
    by (subst ed) (simp add: deriveSigmaKey_def Let_def split_beta)
  let ?i2 = "?i1\<lparr>ci_sigma2 := ?s2, ci_sharedSecret := Some z, ci_hash := m1 @ m2\<rparr>"
  have b3: "buildSigma3 k isig ?i2 = (Inr m3, ?i2\<lparr>ci_hash := m1 @ m2 @ m3\<rparr>)"
    using m3 i(1-4) k3 by (simp add: buildSigma3_def deriveSigmaKey_def secret_bytes_def split_beta Let_def)
  have v2: "verifyPeer k (?i1\<lparr>ci_sigma2 := ?s2, ci_sharedSecret := Some z\<rparr>) noc2
      \<lparr>tb_NOC = id_NOC dself, tb_ICAC = id_ICAC dself, tb_Signature = sig2\<rparr> (snd ed) (snd ei) = Some None"
    using r by (simp add: verifyPeer_def)
  have s3: "HandleSigma2 k isig m2 ?i1 = Some (Inr m3, ?i2\<lparr>ci_hash := m1 @ m2 @ m3\<rparr>)"
    using m2 r(6,7) z(1) k2 pub(2) v2 b3 by (simp add: HandleSigma2_def deriveSigmaKey_def Let_def split_beta)
  have c3: "checkInitiator k ?d1 \<lparr>tb_NOC = id_NOC self, tb_ICAC = id_ICAC self, tb_Signature = sig3\<rparr> = Some (Inr noc3)"
    using i by (simp add: checkInitiator_def split_beta)
  have s4: "HandleSigma3 k m3 ?d1 = Some (None, ?d1\<lparr>cr_initiatorNodeID := inode, cr_hash := m1 @ m2 @ m3\<rparr>)"
    using m3 k3 i(6,11) c3 by (simp add: HandleSigma3_def deriveSigmaKey_def secret_bytes_def)
  show ?thesis
    using len s1 s2 s3 s4 by (simp add: case_run_def NewCaseResponder_def NewCaseInitiator_def)
qed

lemma case_sessions:
  assumes ok: "case_lib k" and mi: "member k f self inode" and md: "member k f dself dnode"
    and f: "ci_fabric i = f" "cr_fabric d = f" "ci_self i = self" "cr_self d = dself"
    and z: "ci_sharedSecret i = Some z" "cr_sharedSecret d = Some z" "ci_hash i = cr_hash d"
    and ids: "ci_localSessionID i = isid" "cr_localSessionID d = rsid" "s2_ResponderSessionID (ci_sigma2 i) = rsid"
      "cr_initiatorSessionID d = isid" "ci_peerNodeID i = dnode" "cr_initiatorNodeID d = inode"
  shows "\<exists>si sd. CaseInitiator_SecureSession k i = Some (Inr si) \<and> CaseResponder_SecureSession k d = Some (Inr sd)
    \<and> keyed si \<and> keyed sd \<and> paired si sd \<and> paired sd si \<and> rx si = zeroWindow \<and> rx sd = zeroWindow
    \<and> txCounter si = 0 \<and> txCounter sd = 0 \<and> LocalNodeID si = inode \<and> LocalNodeID sd = dnode
    \<and> LocalSessionID si = isid \<and> LocalSessionID sd = rsid"
proof -
  have "(48 :: nat) \<le> 48" by simp
  from case_okD(3) [OF ok this, of z "fa_IPK f @ SHA256 k (cr_hash d)" infoSessionKeys]
  obtain out where out: "Hkdf k z (fa_IPK f @ SHA256 k (cr_hash d)) infoSessionKeys 48 = Some out" "length out = 48"
    by blast
  have n: "selfNode self = Some (Inr inode)" "selfNode dself = Some (Inr dnode)"
    using mi md by (auto simp: member_def selfNode_def)
  show ?thesis
    using out n f z ids
    by (simp add: CaseInitiator_SecureSession_def CaseResponder_SecureSession_def Initiator_SessionKeys_def
        Responder_SessionKeys_def deriveSessionKeys_def NewSecure_def NewCCM_def newCCM_def keyed_def paired_def)
qed

text \<open>C36: Two members of a fabric finish the handshake, whatever they draw: the three messages pass without
  an error, each side derives a session that names the two nodes and refers to the other's session id, and
  a message that either encrypts in its session is decrypted by the other's.\<close>

theorem case_agreement:
  assumes "case_ok k" "fabric_ok f" "member k f self inode" "member k f dself dnode"
    and "length ri = 32" "length rr = 32" "keypair k ei" "keypair k ed" "length p \<le> 65535"
  shows "\<exists>i d si sd fi fd. case_run k f self dnode isid (Some ri) (Some ei) isig f dself rsid (Some rr) (Some ed) rsig
      = Some (Inr (i, d))
    \<and> CaseInitiator_SecureSession k i = Some (Inr si) \<and> CaseResponder_SecureSession k d = Some (Inr sd)
    \<and> LocalNodeID si = inode \<and> PeerNodeID si = dnode \<and> LocalNodeID sd = dnode \<and> PeerNodeID sd = inode
    \<and> LocalSessionID si = isid \<and> PeerSessionID si = rsid \<and> LocalSessionID sd = rsid \<and> PeerSessionID sd = isid
    \<and> fst (Secure_Encrypt si p) = Inr fi \<and> fst (Secure_DecryptMsg sd fi) = (0, p, None)
    \<and> fst (Secure_Encrypt sd p) = Inr fd \<and> fst (Secure_DecryptMsg si fd) = (0, p, None)"
proof -
  have lib: "case_lib k" and cv: "curve_ok k" using assms(1) by (simp_all add: case_ok_def)
  obtain i d z s2 where r: "case_run k f self dnode isid (Some ri) (Some ei) isig f dself rsid (Some rr) (Some ed) rsig
      = Some (Inr (i, d))"
    and fin: "ci_fabric i = f" "cr_fabric d = f" "ci_self i = self" "cr_self d = dself"
      "ci_sharedSecret i = Some z" "cr_sharedSecret d = Some z" "ci_hash i = cr_hash d"
      "ci_localSessionID i = isid" "cr_localSessionID d = rsid" "ci_sigma2 i = s2" "s2_ResponderSessionID s2 = rsid"
      "cr_initiatorSessionID d = isid" "ci_peerNodeID i = dnode" "cr_initiatorNodeID d = inode"
    using honest_case [OF lib member_convinces [OF cv assms(3)] member_convinces [OF cv assms(4)] assms(2-8)] by metis
  have sid: "s2_ResponderSessionID (ci_sigma2 i) = rsid" using fin(10,11) by simp
  obtain si sd where s: "CaseInitiator_SecureSession k i = Some (Inr si)" "CaseResponder_SecureSession k d = Some (Inr sd)"
    "keyed si" "keyed sd" "paired si sd" "paired sd si" "rx si = zeroWindow" "rx sd = zeroWindow"
    "txCounter si = 0" "txCounter sd = 0" "LocalNodeID si = inode" "LocalNodeID sd = dnode"
    "LocalSessionID si = isid" "LocalSessionID sd = rsid"
    using case_sessions [OF lib assms(3,4) fin(1-9) sid fin(12-14)] by blast
  have acc: "fst (accept zeroWindow 0)" by (simp add: accept_def zeroWindow_def)
  obtain fi where fi: "Secure_Encrypt si p = (Inr fi, si\<lparr>txCounter := 1\<rparr>)"
    using Encrypt_returns [OF s(3) _ assms(9)] s(9) by auto
  obtain fd where fd: "Secure_Encrypt sd p = (Inr fd, sd\<lparr>txCounter := 1\<rparr>)"
    using Encrypt_returns [OF s(4) _ assms(9)] s(10) by auto
  have e: "fst (Secure_Encrypt si p) = Inr fi \<and> fst (Secure_DecryptMsg sd fi) = (0, p, None)"
    "fst (Secure_Encrypt sd p) = Inr fd \<and> fst (Secure_DecryptMsg si fd) = (0, p, None)"
    using DecryptMsg_Encrypt [OF s(3,4,5) fi] DecryptMsg_Encrypt [OF s(4,3,6) fd] fi fd acc s(7-10) by simp_all
  have n: "PeerNodeID si = dnode" "PeerNodeID sd = inode" "PeerSessionID si = rsid" "PeerSessionID sd = isid"
    using s(5,6,11-14) by (simp_all add: paired_def)
  show ?thesis using r s(1,2,11-14) n e by blast
qed

section \<open>An example fabric\<close>

lemma example_case_ok: "case_ok example_curve"
  by (auto simp: case_ok_def case_lib_def example_curve_ok keypair_def) (auto simp: example_curve_def add.commute)

definition example_member :: "u64 \<Rightarrow> byte \<Rightarrow> Cert" where
  "example_member node x = example_node\<lparr>ce_PublicKey := 0x04 # replicate 32 x @ replicate 32 0,
     ce_Subject := [\<lparr>at_Tag = DNMatterNodeID, at_IsString = False, at_Printable = False, at_String = [], at_Value = node\<rparr>,
       \<lparr>at_Tag = DNMatterFabricID, at_IsString = False, at_Printable = False, at_String = [], at_Value = 9\<rparr>]\<rparr>"

definition example_identity :: "u64 \<Rightarrow> byte \<Rightarrow> Identity" where
  "example_identity node x = \<lparr>id_NOC = enc (cert_elem (issue (example_member node x) (replicate 32 0))), id_ICAC = [],
     id_OpKey = replicate 32 x\<rparr>"

definition example_fabric :: Fabric where
  "example_fabric = \<lparr>fa_IPK = replicate 16 1, fa_FabricID = 9, fa_RootPubKey = ce_PublicKey example_root,
     fa_RCAC = issue example_root (replicate 32 0)\<rparr>"

lemma tbsDER_example_member: "\<exists>b. tbsDER (example_member node x) = Inr b"
  by (simp add: example_member_def tbsDER_def example_root_def example_node_def dnDER_def attrDER_def extensionsDER_def
      ekuOID_def zeroExtensions_def Let_def)

lemma issue_form:
  assumes "tbsDER c = Inr t" "length sk = 32"
  obtains s where "issue c sk = c\<lparr>ce_Signature := s\<rparr>" "length s = 64"
  using assms by (simp add: issue_def SignAndEncode_def SignECDSA_def example_curve_def Let_def Cert_Encode_elem checksum_def
      del: enc.simps)

lemma example_is_member:
  assumes "node = 5 \<or> node = 7"
  shows "member example_curve example_fabric (example_identity node x) node"
proof -
  let ?sk = "replicate 32 0 :: bytes"
  obtain r where r: "tbsDER example_root = Inr r" by (rule example_forms)
  obtain t where t: "tbsDER (example_member node x) = Inr t" using tbsDER_example_member by blast
  obtain s where s: "issue (example_member node x) ?sk = example_member node x\<lparr>ce_Signature := s\<rparr>" "length s = 64"
    by (rule issue_form [OF t, of ?sk]) simp_all
  let ?c = "example_member node x\<lparr>ce_Signature := s\<rparr>"
  obtain b1 where b1: "SignAndEncode example_curve 0 example_root ?sk = (Inr b1, issue example_root ?sk)"
    by (rule issue_signs [OF r, of ?sk]) simp_all
  obtain b2 where b2: "SignAndEncode example_curve 0 (example_member node x) ?sk = (Inr b2, issue (example_member node x) ?sk)"
    by (rule issue_signs [OF t, of ?sk]) simp_all
  have pk: "Public example_curve ?sk = Some (ce_PublicKey (issue example_root ?sk))"
    "length (ce_PublicKey (issue example_root ?sk)) = 65"
    by (simp_all add: issue_keeps example_curve_def example_root_def numeral_eq_Suc)
  have chain: "VerifyChain example_curve ?c None (fa_RCAC example_fabric) = None"
    using signed_verifies [OF example_curve_ok pk b1] signed_verifies [OF example_curve_ok pk b2] s(1)
    by (simp add: VerifyChain_def example_fabric_def)
  have "cert_ok ?c"
    using s(2) by (simp add: cert_ok_def example_member_def example_node_def example_root_def short_def ext_ok_def attr_ok_def
        zeroExtensions_def)
  from cert_decodes [OF this] have dec: "Cert_Decode (enc (cert_elem ?c)) = Some (Inr ?c)" .
  have len: "length (enc (cert_elem ?c)) \<le> 65000"
    using assms s(2)
    by (elim disjE) (simp_all add: cert_elem_def dn_elem_def attr_elem_def attr_tag_def ext_elems_def opt_elems_def eku_elem_def
      length_enc_cont example_member_def example_node_def example_root_def zeroExtensions_def enc_blob_def Let_def
      uint_width_def length_enc_ctl length_enc_anon)
  show ?thesis
    unfolding member_def
    by (rule exI [of _ ?c], rule exI [of _ None])
      (use dec chain len s(1) in \<open>simp add: example_identity_def decodeICAC_def keypair_def example_curve_def
        NodeID_def FabricID_def example_fabric_def example_member_def del: enc.simps\<close>)
qed

theorem case_agreement_witness:
  "\<exists>i d si sd fi fd. case_run example_curve example_fabric (example_identity 5 1) 7 1 (Some (replicate 32 3))
        (Some (replicate 32 4, 0x04 # replicate 32 4 @ replicate 32 0)) 0
        example_fabric (example_identity 7 2) 2 (Some (replicate 32 5))
        (Some (replicate 32 6, 0x04 # replicate 32 6 @ replicate 32 0)) 0 = Some (Inr (i, d))
    \<and> CaseInitiator_SecureSession example_curve i = Some (Inr si)
    \<and> CaseResponder_SecureSession example_curve d = Some (Inr sd)
    \<and> LocalNodeID si = 5 \<and> PeerNodeID si = 7 \<and> LocalNodeID sd = 7 \<and> PeerNodeID sd = 5
    \<and> LocalSessionID si = 1 \<and> PeerSessionID si = 2 \<and> LocalSessionID sd = 2 \<and> PeerSessionID sd = 1
    \<and> fst (Secure_Encrypt si [9]) = Inr fi \<and> fst (Secure_DecryptMsg sd fi) = (0, [9], None)
    \<and> fst (Secure_Encrypt sd [9]) = Inr fd \<and> fst (Secure_DecryptMsg si fd) = (0, [9], None)"
proof -
  have "member example_curve example_fabric (example_identity 5 1) 5" "member example_curve example_fabric (example_identity 7 2) 7"
    by (simp_all add: example_is_member)
  moreover have "fabric_ok example_fabric" by (simp add: fabric_ok_def example_fabric_def example_root_def)
  moreover have "keypair example_curve (replicate 32 x, 0x04 # replicate 32 x @ replicate 32 0)" for x
    by (simp add: keypair_def example_curve_def)
  ultimately show ?thesis by (intro case_agreement example_case_ok) simp_all
qed

section \<open>What is signed\<close>

abbreviation byte_field :: "u8 \<times> bytes \<Rightarrow> elem" where
  "byte_field f \<equiv> Prim (Context (fst f)) (PBytes (snd f))"

lemma runs_fields:
  assumes "\<And>f. f \<in> set fs \<Longrightarrow> ucast (fst f) \<in> set ks \<and> short (snd f)"
  shows "runs (fieldsBody ks) d (List.map byte_field fs) out (foldl (\<lambda>o' f. o'(ucast (fst f) := snd f)) out fs)"
  using assms
proof (induction fs arbitrary: out)
  case Nil
  then show ?case by (simp add: runs.Nil)
next
  case (Cons f fs)
  have f: "ucast (fst f) \<in> set ks" "short (snd f)" using Cons.prems [of f] by simp_all
  have "decodes (fieldsBody ks out) d (byte_field f) (out(ucast (fst f) := snd f))"
    unfolding fieldsBody_def using f
    by (auto simp: decodes_def cur_tag dec_bind_def dec_get_def dec_return_def cur_get cur_at short_def)
  moreover have "runs (fieldsBody ks) d (List.map byte_field fs) (out(ucast (fst f) := snd f))
      (foldl (\<lambda>o' f. o'(ucast (fst f) := snd f)) (out(ucast (fst f) := snd f)) fs)"
    by (rule Cons.IH) (use Cons.prems in simp)
  ultimately show ?case using f(2) unfolding list.map foldl.simps by (intro runs.Cons) (simp_all add: short_def)
qed

definition tbs_fields :: "bytes \<Rightarrow> bytes \<Rightarrow> bytes \<Rightarrow> bytes \<Rightarrow> (u8 \<times> bytes) list" where
  "tbs_fields noc icac a b = (1, noc) # (if icac = [] then [] else [(2, icac)]) @ [(3, a), (4, b)]"

lemma tbs_elem_fields: "tbs_elem noc icac a b = Cont Anonymous CStructure (List.map byte_field (tbs_fields noc icac a b))"
  by (simp add: tbs_elem_def tbs_fields_def opt_bytes_def)

lemma length_field: "f \<in> set fs \<Longrightarrow> length (snd f) \<le> length (encs (List.map byte_field fs))"
proof (induction fs)
  case (Cons g fs)
  then show ?case using length_enc_bytes(1) [of "snd g" "fst g"]
    by (cases "f = g") (simp_all del: enc.simps)
qed simp

lemma tbs_elem_decodes:
  assumes "short (enc (tbs_elem noc icac a b))"
  shows "decodeFields [1, 2, 3, 4] (enc (tbs_elem noc icac a b)) = Some (Inr ((\<lambda>_. [])(1 := noc, 2 := icac, 3 := a, 4 := b)))"
proof -
  let ?fs = "tbs_fields noc icac a b"
  have sh: "short (snd f)" if "f \<in> set ?fs" for f
    using length_field [OF that] assms unfolding tbs_elem_fields short_def length_enc_cont by linarith
  have ks: "ucast (fst f) \<in> set [1, 2, 3, 4 :: u32]" if "f \<in> set ?fs" for f
    using that by (auto simp: tbs_fields_def split: if_splits)
  have out: "foldl (\<lambda>o' f. o'(ucast (fst f) := snd f)) (\<lambda>_. []) ?fs = ((\<lambda>_. [])(1 := noc, 2 := icac, 3 := a, 4 := b) :: u32 \<Rightarrow> bytes)"
    by (auto simp: tbs_fields_def fun_eq_iff)
  have "runs (fieldsBody [1, 2, 3, 4]) 1 (List.map byte_field ?fs) (\<lambda>_. []) ((\<lambda>_. [])(1 := noc, 2 := icac, 3 := a, 4 := b))"
    using runs_fields [of ?fs "[1, 2, 3, 4]" 1 "\<lambda>_. []"] ks sh unfolding out by blast
  then have "decodes (each_member (fieldsBody [1, 2, 3, 4]) (\<lambda>_. [])) 0 (tbs_elem noc icac a b)
      ((\<lambda>_. [])(1 := noc, 2 := icac, 3 := a, 4 := b))"
    unfolding tbs_elem_fields by (intro decodes_each_member) simp_all
  then show ?thesis unfolding decodeFields_def
    by (rule dec_top_message [rotated 2]) (use sh in \<open>auto simp: tbs_elem_fields short_def list_all_iff\<close>)
qed

lemma encodeTBSData_inj:
  assumes "encodeTBSData noc icac a b = Inr m" "encodeTBSData noc' icac' a' b' = Inr m" "short m"
  shows "noc = noc' \<and> icac = icac' \<and> a = a' \<and> b = b'"
proof -
  have m: "enc (tbs_elem noc icac a b) = m" "enc (tbs_elem noc' icac' a' b') = m"
    using assms(1,2) by (simp_all add: encodeTBSData_elem del: enc.simps)
  have "(\<lambda>_. [])(1 := noc, 2 := icac, 3 := a, 4 := b) = ((\<lambda>_. [])(1 := noc', 2 := icac', 3 := a', 4 := b') :: u32 \<Rightarrow> bytes)"
    using tbs_elem_decodes [of noc icac a b] tbs_elem_decodes [of noc' icac' a' b'] assms(3) unfolding m by simp
  from fun_cong [OF this, of 1] fun_cong [OF this, of 2] fun_cong [OF this, of 3] fun_cong [OF this, of 4] show ?thesis
    by simp
qed

text \<open>What is signed in a handshake is no certificate.\<close>

lemma enc_ctl_structure: "enc_ctl Anonymous (ckind_et CStructure) = [0x15]"
  by (simp add: enc_ctl_def Writer_control_def NewWriter_def w_append_def Anonymous_def)

lemma forms_apart: "tbsDER c = Inr m \<Longrightarrow> encodeTBSData noc icac a b = Inr m \<Longrightarrow> False"
proof -
  assume "tbsDER c = Inr m" then have "hd m = 0x30"
    by (elim tbsDER_parts) (simp add: derTLV_def)
  moreover assume "encodeTBSData noc icac a b = Inr m"
  then have "hd m = 0x15"
    using enc_ctl_structure by (auto simp: encodeTBSData_elem tbs_elem_def)
  ultimately show False by simp
qed

section \<open>What the controller accepts\<close>

text \<open>What a device with the key of a certificate has signed: handshake data with these values.\<close>

definition handshake_forms :: "(bytes \<times> bytes \<times> bytes \<times> bytes) set \<Rightarrow> bytes set" where
  "handshake_forms l = {m. short m \<and> (\<exists>noc icac a b. (noc, icac, a, b) \<in> l \<and> encodeTBSData noc icac a b = Inr m)}"

text \<open>A fabric whose members keep to the protocol: the root signs the certificates it issues, a node the
  data of its handshakes. Names of issued certificates are as \<^verbatim>\<open>IssueNOC\<close> makes them.\<close>

definition honest_fabric :: "curve \<Rightarrow> Cert \<Rightarrow> Cert set \<Rightarrow> (Cert \<Rightarrow> (bytes \<times> bytes \<times> bytes \<times> bytes) set) \<Rightarrow> bool" where
  "honest_fabric k rcac nodes log \<longleftrightarrow>
     only_signed k (ce_PublicKey rcac) (signed_forms (insert rcac nodes))
     \<and> (\<forall>d \<in> nodes. only_signed k (ce_PublicKey d) (handshake_forms (log d)))
     \<and> (\<forall>d \<in> insert rcac nodes. tbs_short d \<and> dn_plain (ce_Subject d))"

lemma verifyPeer_accepts:
  assumes "verifyPeer k i noc tbe a b = Some None"
  obtains icac tbs where "VerifyChain k noc icac (fa_RCAC (ci_fabric i)) = None"
    "encodeTBSData (tb_NOC tbe) (tb_ICAC tbe) a b = Inr tbs" "VerifyECDSA k (ce_PublicKey noc) tbs (tb_Signature tbe) = None"
    "NodeID (ce_Subject noc) = Some (ci_peerNodeID i)" "FabricID (ce_Subject noc) = Some (fa_FabricID (ci_fabric i))"
  using assms unfolding verifyPeer_def
  by (auto split: option.splits sum.splits if_splits)

lemma buildSigma3_keeps:
  "buildSigma3 k rnd i = (x, i') \<Longrightarrow> ci_sigma2 i' = ci_sigma2 i \<and> ci_sharedSecret i' = ci_sharedSecret i"
  by (auto simp: buildSigma3_def Let_def split: option.splits sum.splits prod.splits)

lemma HandleSigma2_accepts:
  assumes "HandleSigma2 k rnd m i = Some (Inr s3, i')" "ci_eph i = Some (eph, initEph)"
  obtains tbe :: tbeData and noc icac tbs where "Cert_Decode (tb_NOC tbe) = Some (Inr noc)"
    "VerifyChain k noc icac (fa_RCAC (ci_fabric i)) = None"
    "encodeTBSData (tb_NOC tbe) (tb_ICAC tbe) (s2_ResponderEphPubKey (ci_sigma2 i')) initEph = Inr tbs"
    "VerifyECDSA k (ce_PublicKey noc) tbs (tb_Signature tbe) = None"
    "NodeID (ce_Subject noc) = Some (ci_peerNodeID i)" "FabricID (ce_Subject noc) = Some (fa_FabricID (ci_fabric i))"
    "ci_sharedSecret i' = ECDH k eph (s2_ResponderEphPubKey (ci_sigma2 i'))"
proof -
  obtain s2 where s2: "DecodeSigma2 m = Some (Inr s2)"
    using assms(1) by (auto simp: HandleSigma2_def split: option.splits sum.splits)
  define i1 where "i1 = i\<lparr>ci_sigma2 := s2\<rparr>"
  have f1: "ci_fabric i1 = ci_fabric i" "ci_peerNodeID i1 = ci_peerNodeID i" "ci_hash i1 = ci_hash i" "ci_sigma2 i1 = s2"
    "ci_eph i1 = Some (eph, initEph)" by (simp_all add: i1_def assms(2))
  obtain z where z: "ECDH k eph (s2_ResponderEphPubKey s2) = Some z"
    using assms(1) f1(5) unfolding HandleSigma2_def s2 by (auto simp: Let_def i1_def split: option.splits if_splits)
  define i2 where "i2 = i1\<lparr>ci_sharedSecret := Some z\<rparr>"
  have f2: "ci_fabric i2 = ci_fabric i" "ci_peerNodeID i2 = ci_peerNodeID i" "ci_sigma2 i2 = s2" "ci_sharedSecret i2 = Some z"
    by (simp_all add: i2_def f1)
  note h = assms(1) [unfolded HandleSigma2_def s2 Let_def option.case sum.case, folded i1_def, unfolded f1(5) option.case
    prod.case z, folded i2_def]
  obtain tbe noc where t: "Cert_Decode (tb_NOC tbe) = Some (Inr noc)"
    "verifyPeer k i2 noc tbe (s2_ResponderEphPubKey s2) initEph = Some None"
    "buildSigma3 k rnd (i2\<lparr>ci_hash := ci_hash i2 @ m\<rparr>) = (Inr s3, i')"
    using h by (auto split: option.splits sum.splits if_splits)
  have k: "ci_sigma2 i' = s2" "ci_sharedSecret i' = Some z" using buildSigma3_keeps [OF t(3)] f2 by simp_all
  show thesis
    by (rule verifyPeer_accepts [OF t(2)]) (use that [OF t(1)] k f2 z in auto)
qed

lemma accepted_noc:
  assumes "VerifyChain k noc icac rcac = None" "honest_fabric k rcac nodes log" "NodeID (ce_Subject rcac) \<noteq> Some node"
    and "NodeID (ce_Subject noc) = Some node" "FabricID (ce_Subject noc) = Some fabric"
  shows "\<exists>d \<in> nodes. cert_same noc d \<and> NodeID (ce_Subject d) = Some node \<and> FabricID (ce_Subject d) = Some fabric"
proof -
  have h: "only_signed k (ce_PublicKey rcac) (signed_forms (insert rcac nodes))"
      "\<forall>d \<in> nodes. only_signed k (ce_PublicKey d) (handshake_forms (log d))"
      "\<forall>d \<in> insert rcac nodes. tbs_short d" "\<forall>d \<in> insert rcac nodes. dn_plain (ce_Subject d)"
    using assms(2) by (auto simp: honest_fabric_def)
  have root: "\<exists>d \<in> insert rcac nodes. cert_same noc d"
  proof (cases icac)
    case None
    with chain_parts(2) [OF assms(1)] verified_issued [OF _ h(1,3)] show ?thesis by blast
  next
    case (Some ic)
    with chain_parts(3) [OF assms(1)] have v: "VerifySignature k ic (ce_PublicKey rcac) = None"
      "VerifySignature k noc (ce_PublicKey ic) = None" by blast+
    obtain d where d: "d \<in> insert rcac nodes" "cert_same ic d" using verified_issued [OF v(1) h(1,3)] by blast
    then have pk: "ce_PublicKey ic = ce_PublicKey d" by (simp add: cert_same_def)
    show ?thesis
    proof (cases "d = rcac")
      case True
      with v(2) pk verified_issued [OF _ h(1,3)] show ?thesis by metis
    next
      case False
      with d(1) h(2) have o: "only_signed k (ce_PublicKey ic) (handshake_forms (log d))" unfolding pk by blast
      obtain t where t: "tbsDER noc = Inr t" "Verify k (ce_PublicKey ic) (SHA256 k t) (ce_Signature noc)"
        using verified [OF v(2)] .
      then have "t \<in> handshake_forms (log d)" using o by (auto simp: only_signed_def)
      then have False using forms_apart [OF t(1)] by (auto simp: handshake_forms_def)
      then show ?thesis ..
    qed
  qed
  then obtain d where d: "d \<in> insert rcac nodes" "cert_same noc d" by blast
  then have n: "NodeID (ce_Subject d) = Some node" "FabricID (ce_Subject d) = Some fabric"
    using uintAttr_same [of "ce_Subject noc" "ce_Subject d"] h(4) assms(4,5)
    by (auto simp: cert_same_def NodeID_def FabricID_def)
  with d assms(3) show ?thesis by auto
qed

text \<open>C37: A controller that accepts the device's message is talking to the node it asked for: in a fabric
  whose members keep to the protocol, the certificate agrees in everything signed with one that was issued
  to that node on this fabric, the node has signed its own ephemeral key and the controller's, and the
  shared secret is the one with the node's ephemeral key.\<close>

theorem sigma2_authentic:
  assumes "HandleSigma2 k rnd m i = Some (Inr s3, i')" "ci_eph i = Some (eph, initEph)"
    and "honest_fabric k (fa_RCAC (ci_fabric i)) nodes log"
    and "NodeID (ce_Subject (fa_RCAC (ci_fabric i))) \<noteq> Some (ci_peerNodeID i)"
  shows "\<exists>d \<in> nodes. NodeID (ce_Subject d) = Some (ci_peerNodeID i)
    \<and> FabricID (ce_Subject d) = Some (fa_FabricID (ci_fabric i))
    \<and> (\<exists>noc icac c. (noc, icac, s2_ResponderEphPubKey (ci_sigma2 i'), initEph) \<in> log d
        \<and> Cert_Decode noc = Some (Inr c) \<and> cert_same c d)
    \<and> ci_sharedSecret i' = ECDH k eph (s2_ResponderEphPubKey (ci_sigma2 i'))"
proof -
  obtain tbe :: tbeData and noc icac tbs where a: "Cert_Decode (tb_NOC tbe) = Some (Inr noc)"
    "VerifyChain k noc icac (fa_RCAC (ci_fabric i)) = None"
    "encodeTBSData (tb_NOC tbe) (tb_ICAC tbe) (s2_ResponderEphPubKey (ci_sigma2 i')) initEph = Inr tbs"
    "VerifyECDSA k (ce_PublicKey noc) tbs (tb_Signature tbe) = None"
    "NodeID (ce_Subject noc) = Some (ci_peerNodeID i)" "FabricID (ce_Subject noc) = Some (fa_FabricID (ci_fabric i))"
    "ci_sharedSecret i' = ECDH k eph (s2_ResponderEphPubKey (ci_sigma2 i'))"
    using HandleSigma2_accepts [OF assms(1,2)] .
  obtain d where d: "d \<in> nodes" "cert_same noc d" "NodeID (ce_Subject d) = Some (ci_peerNodeID i)"
    "FabricID (ce_Subject d) = Some (fa_FabricID (ci_fabric i))"
    using accepted_noc [OF a(2) assms(3,4) a(5,6)] by blast
  have "only_signed k (ce_PublicKey d) (handshake_forms (log d))" using assms(3) d(1) by (simp add: honest_fabric_def)
  moreover have "Verify k (ce_PublicKey d) (SHA256 k tbs) (tb_Signature tbe)"
    using a(4) d(2) by (auto simp: VerifyECDSA_def cert_same_def split: if_splits)
  ultimately have "tbs \<in> handshake_forms (log d)" by (auto simp: only_signed_def)
  then obtain noc' icac' x y where l: "short tbs" "(noc', icac', x, y) \<in> log d" "encodeTBSData noc' icac' x y = Inr tbs"
    by (auto simp: handshake_forms_def)
  from encodeTBSData_inj [OF a(3) l(3,1)] l(2)
  have "(tb_NOC tbe, tb_ICAC tbe, s2_ResponderEphPubKey (ci_sigma2 i'), initEph) \<in> log d" by simp
  with d a(1,7) show ?thesis by blast
qed

text \<open>The example fabric with a curve library that accepts what its members signed and nothing else.\<close>

definition example_log :: "Cert \<Rightarrow> (bytes \<times> bytes \<times> bytes \<times> bytes) set" where
  "example_log d = {(noc, icac, a, b). noc = enc (cert_elem d) \<and> icac = []}"

abbreviation example_issued :: "u64 \<Rightarrow> byte \<Rightarrow> Cert" where
  "example_issued node x \<equiv> issue (example_member node x) (replicate 32 0)"

definition example_nodes :: "Cert set" where
  "example_nodes = {example_issued 5 1, example_issued 7 2}"

definition oracle_curve :: curve where
  "oracle_curve = example_curve\<lparr>SHA256 := id, Verify := \<lambda>p m s.
     p = ce_PublicKey (fa_RCAC example_fabric) \<and> m \<in> signed_forms (insert (fa_RCAC example_fabric) example_nodes)
     \<or> (\<exists>d \<in> example_nodes. p = ce_PublicKey d \<and> m \<in> handshake_forms (example_log d))\<rparr>"

lemma example_issued_form:
  obtains s where "example_issued node x = example_member node x\<lparr>ce_Signature := s\<rparr>" "length s = 64"
proof -
  obtain t where "tbsDER (example_member node x) = Inr t" using tbsDER_example_member by blast
  from issue_form [OF this, of "replicate 32 0"] that show thesis by auto
qed

lemma example_keys:
  "ce_PublicKey (fa_RCAC example_fabric) = 0x04 # replicate 64 0"
  "ce_PublicKey (example_issued node x) = 0x04 # replicate 32 x @ replicate 32 0"
  by (simp_all add: example_fabric_def issue_keeps example_root_def example_member_def)

lemma example_keys_apart: "x \<noteq> 0 \<Longrightarrow> ce_PublicKey (example_issued node x) \<noteq> ce_PublicKey (fa_RCAC example_fabric)"
  "ce_PublicKey (example_issued 5 1) \<noteq> ce_PublicKey (example_issued 7 2)"
  unfolding example_keys by (simp_all add: numeral_eq_Suc)

lemma oracle_verify:
  "Verify oracle_curve (ce_PublicKey (fa_RCAC example_fabric)) m s \<longleftrightarrow> m \<in> signed_forms (insert (fa_RCAC example_fabric) example_nodes)"
  "d \<in> example_nodes \<Longrightarrow> Verify oracle_curve (ce_PublicKey d) m s \<longleftrightarrow> m \<in> handshake_forms (example_log d)"
  using example_keys_apart(1) [of 1 5] example_keys_apart(1) [of 2 7] example_keys_apart(2)
  by (auto simp: oracle_curve_def example_nodes_def)

lemma oracle_lib: "case_lib oracle_curve"
proof -
  have eqs: "Public oracle_curve = Public example_curve" "Sign oracle_curve = Sign example_curve"
    "NewPublicKey oracle_curve = NewPublicKey example_curve" "ECDH oracle_curve = ECDH example_curve"
    "Hkdf oracle_curve = Hkdf example_curve" "HMAC oracle_curve = HMAC example_curve"
    by (simp_all add: oracle_curve_def)
  have "case_lib example_curve" using example_case_ok by (simp add: case_ok_def)
  then show ?thesis unfolding case_lib_def keypair_def eqs .
qed

lemma oracle_hash: "SHA256 oracle_curve = id"
  by (simp add: oracle_curve_def)

lemma example_decodes: "Cert_Decode (enc (cert_elem (example_issued node x))) = Some (Inr (example_issued node x))"
proof -
  obtain s where s: "example_issued node x = example_member node x\<lparr>ce_Signature := s\<rparr>" "length s = 64"
    by (rule example_issued_form)
  show ?thesis unfolding s(1)
    by (rule cert_decodes) (use s(2) in \<open>simp add: cert_ok_def example_member_def example_node_def example_root_def
      short_def ext_ok_def attr_ok_def zeroExtensions_def\<close>)
qed


lemma example_short_tbs: "\<exists>b. tbsDER (example_member node x) = Inr b \<and> length b < 2 ^ 64" if "node = 5 \<or> node = 7"
  using that by (elim disjE) (simp_all add: example_der example_member_def)

lemma example_issued_tbs: "tbsDER (example_issued node x) = tbsDER (example_member node x)"
proof -
  obtain s where "example_issued node x = example_member node x\<lparr>ce_Signature := s\<rparr>" by (rule example_issued_form)
  then show ?thesis by (simp only: tbsDER_signature)
qed

lemma example_root_tbs: "tbsDER (fa_RCAC example_fabric) = tbsDER example_root"
proof -
  obtain r where "tbsDER example_root = Inr r" by (rule example_forms)
  from issue_form [OF this, of "replicate 32 0"] obtain s where "fa_RCAC example_fabric = example_root\<lparr>ce_Signature := s\<rparr>"
    by (auto simp: example_fabric_def)
  then show ?thesis by (simp only: tbsDER_signature)
qed

lemma example_tbs_short:
  "node = 5 \<or> node = 7 \<Longrightarrow> tbs_short (example_issued node x)" "tbs_short (fa_RCAC example_fabric)"
proof -
  show "tbs_short (example_issued node x)" if n: "node = 5 \<or> node = 7"
  proof -
    obtain b where "tbsDER (example_member node x) = Inr b" "length b < 2 ^ 64" using example_short_tbs [OF n] by blast
    then show ?thesis by (simp only: tbs_short_def example_issued_tbs sum.case short_def)
  qed
  obtain b where "tbsDER example_root = Inr b" "length b < 2 ^ 64" using tbsDER_example_short(2) by blast
  then show "tbs_short (fa_RCAC example_fabric)" by (simp only: tbs_short_def example_root_tbs sum.case short_def)
qed

lemma example_honest: "honest_fabric oracle_curve (fa_RCAC example_fabric) example_nodes example_log"
proof -
  have short: "tbs_short d" if "d \<in> insert (fa_RCAC example_fabric) example_nodes" for d
    using that unfolding example_nodes_def by (elim insertE emptyE) (simp_all only: example_tbs_short simp_thms)
  have root: "dn_plain (ce_Subject (fa_RCAC example_fabric))"
    unfolding example_fabric_def Fabric.simps issue_keeps by (simp add: example_root_def dn_plain_def)
  have node: "dn_plain (ce_Subject (example_issued node x))" for node x
    unfolding issue_keeps by (simp add: example_member_def dn_plain_def)
  have plain: "dn_plain (ce_Subject d)" if "d \<in> insert (fa_RCAC example_fabric) example_nodes" for d
    using that unfolding example_nodes_def by (elim insertE emptyE) (simp_all only: root node)
  show ?thesis
    unfolding honest_fabric_def only_signed_def oracle_hash id_apply
  proof (intro conjI ballI allI impI)
    fix m s assume "Verify oracle_curve (ce_PublicKey (fa_RCAC example_fabric)) m s"
    then show "m \<in> signed_forms (insert (fa_RCAC example_fabric) example_nodes)" by (simp only: oracle_verify(1))
  next
    fix d m s assume "d \<in> example_nodes" "Verify oracle_curve (ce_PublicKey d) m s"
    then show "m \<in> handshake_forms (example_log d)" by (simp only: oracle_verify(2))
  qed (simp_all only: short plain)
qed

lemma example_chain:
  assumes "example_issued node x \<in> example_nodes"
  shows "VerifyChain oracle_curve (example_issued node x) None (fa_RCAC example_fabric) = None"
proof -
  obtain r where r: "tbsDER example_root = Inr r" by (rule example_forms)
  obtain t where t: "tbsDER (example_member node x) = Inr t" using tbsDER_example_member by blast
  obtain s where s: "example_issued node x = example_member node x\<lparr>ce_Signature := s\<rparr>" "length s = 64"
    by (rule example_issued_form)
  obtain s' where s': "fa_RCAC example_fabric = example_root\<lparr>ce_Signature := s'\<rparr>" "length s' = 64"
    using issue_form [OF r, of "replicate 32 0"] by (auto simp: example_fabric_def)
  have f: "r \<in> signed_forms (insert (fa_RCAC example_fabric) example_nodes)"
    "t \<in> signed_forms (insert (fa_RCAC example_fabric) example_nodes)"
    unfolding signed_forms_def mem_Collect_eq using assms r t example_issued_tbs [of node x] example_root_tbs
    by (metis insertI1, metis insertI2)
  have sl: "length (ce_Signature (example_issued node x)) = 64" "length (ce_Signature (fa_RCAC example_fabric)) = 64"
    using s s' by simp_all
  have pk: "length (ce_PublicKey (fa_RCAC example_fabric)) = 65" "hd (ce_PublicKey (fa_RCAC example_fabric)) = 0x04"
    by (simp_all add: example_keys)
  show ?thesis
    unfolding VerifyChain_def VerifySignature_def example_issued_tbs example_root_tbs r t oracle_verify oracle_hash
    using f sl pk by (simp del: One_nat_def)
qed

lemma example_names:
  "NodeID (ce_Subject (example_issued node x)) = Some node" "FabricID (ce_Subject (example_issued node x)) = Some 9"
  "NodeID (ce_Subject (fa_RCAC example_fabric)) = None"
  by (simp_all add: issue_keeps example_fabric_def example_member_def example_root_def NodeID_def FabricID_def)

lemma oracle_member:
  assumes "example_issued node x \<in> example_nodes" "node = 5 \<or> node = 7"
  shows "member oracle_curve example_fabric (example_identity node x) node \<and> convinces oracle_curve (example_identity node x)"
proof
  have len: "length (id_NOC (example_identity node x)) \<le> 65000"
    using example_is_member [OF assms(2), of x] by (auto simp: member_def)
  have id: "id_NOC (example_identity node x) = enc (cert_elem (example_issued node x))" "id_ICAC (example_identity node x) = []"
    "id_OpKey (example_identity node x) = replicate 32 x"
    by (simp_all only: example_identity_def Identity.simps)
  have kp: "keypair oracle_curve (replicate 32 x, ce_PublicKey (example_issued node x))"
    unfolding example_keys by (simp add: keypair_def oracle_curve_def example_curve_def)
  show "member oracle_curve example_fabric (example_identity node x) node"
    unfolding member_def id
    by (rule exI [of _ "example_issued node x"], rule exI [of _ None])
      (use len example_decodes example_chain [OF assms(1)] kp example_names(1,2) [of node x] in
        \<open>simp add: id decodeICAC_def example_fabric_def del: enc.simps\<close>)
  show "convinces oracle_curve (example_identity node x)"
    unfolding convinces_def id
  proof (intro allI impI)
    fix noc rnd and a b sig :: bytes
    let ?tbs = "enc (tbs_elem (enc (cert_elem (example_issued node x))) [] a b)"
    assume a: "Cert_Decode (enc (cert_elem (example_issued node x))) = Some (Inr noc)" "length a = 65" "length b = 65"
      and sig: "SignECDSA oracle_curve rnd (replicate 32 x) ?tbs = Inr sig"
    have noc: "noc = example_issued node x" using a(1) unfolding example_decodes by simp
    have "short ?tbs"
      using len a(2,3) length_enc_bytes(2) [of 1 "enc (cert_elem (example_issued node x))"] length_enc_bytes(2) [of 3 a]
        length_enc_bytes(2) [of 4 b]
      by (simp add: short_def tbs_elem_def opt_bytes_def length_enc_cont id del: enc.simps)
    then have f: "?tbs \<in> handshake_forms (example_log (example_issued node x))"
      unfolding handshake_forms_def example_log_def by (auto simp: encodeTBSData_elem simp del: enc.simps)
    have "length sig = 64"
      using sig by (auto simp: SignECDSA_def oracle_curve_def example_curve_def checksum_def simp del: enc.simps)
    moreover have "length (ce_PublicKey noc) = 65" "hd (ce_PublicKey noc) = 0x04" unfolding noc by (simp_all add: example_keys)
    ultimately show "length sig = 64 \<and> VerifyECDSA oracle_curve (ce_PublicKey noc) ?tbs sig = None"
      using f unfolding VerifyECDSA_def noc oracle_verify(2) [OF assms(1)] oracle_hash id_apply by (simp del: enc.simps)
  qed
qed

lemma case_run_sigma2:
  assumes "case_run k fi self peer isid irnd igen isig fd dself rsid rrnd rgen rsig = Some (Inr (i, d))"
  obtains m i1 m3 where "HandleSigma2 k isig m i1 = Some (Inr m3, i)" "ci_eph i1 = igen" "ci_fabric i1 = fi"
    "ci_peerNodeID i1 = peer"
  using assms
  by (auto simp: case_run_def NewCaseInitiator_def Initiator_Sigma1_def Let_def
      split: sum.splits option.splits prod.splits if_splits)

theorem sigma2_authentic_witness:
  "\<exists>m i s3 i'. HandleSigma2 oracle_curve 0 m i = Some (Inr s3, i')
    \<and> (\<exists>d \<in> example_nodes. NodeID (ce_Subject d) = Some 7 \<and> FabricID (ce_Subject d) = Some 9
      \<and> (\<exists>noc icac c. (noc, icac, s2_ResponderEphPubKey (ci_sigma2 i'), 0x04 # replicate 32 4 @ replicate 32 0) \<in> example_log d
          \<and> Cert_Decode noc = Some (Inr c) \<and> cert_same c d)
      \<and> ci_sharedSecret i' = ECDH oracle_curve (replicate 32 4) (s2_ResponderEphPubKey (ci_sigma2 i')))"
proof -
  let ?e = "\<lambda>x. (replicate 32 x, 0x04 # replicate 32 x @ replicate 32 0) :: bytes \<times> bytes"
  have n: "example_issued 5 1 \<in> example_nodes" "example_issued 7 2 \<in> example_nodes" by (simp_all add: example_nodes_def)
  have m5: "member oracle_curve example_fabric (example_identity 5 1) 5" "convinces oracle_curve (example_identity 5 1)"
    using oracle_member [OF n(1)] by blast+
  have m7: "member oracle_curve example_fabric (example_identity 7 2) 7" "convinces oracle_curve (example_identity 7 2)"
    using oracle_member [OF n(2)] by blast+
  have f: "fabric_ok example_fabric" by (simp add: fabric_ok_def example_fabric_def example_root_def)
  have k: "keypair oracle_curve (?e x)" for x by (simp add: keypair_def oracle_curve_def example_curve_def)
  have l: "length (replicate 32 3) = 32" "length (replicate 32 5) = 32" by simp_all
  from honest_case [OF oracle_lib m5(2) m7(2) f m5(1) m7(1) l k [of 4] k [of 6], of 1 0 2 0]
  obtain i d where r: "case_run oracle_curve example_fabric (example_identity 5 1) 7 1 (Some (replicate 32 3)) (Some (?e 4)) 0
      example_fabric (example_identity 7 2) 2 (Some (replicate 32 5)) (Some (?e 6)) 0 = Some (Inr (i, d))"
    by blast
  obtain m i1 m3 where h: "HandleSigma2 oracle_curve 0 m i1 = Some (Inr m3, i)" "ci_eph i1 = Some (?e 4)"
    "ci_fabric i1 = example_fabric" "ci_peerNodeID i1 = 7"
    using case_run_sigma2 [OF r] .
  have "honest_fabric oracle_curve (fa_RCAC (ci_fabric i1)) example_nodes example_log"
    "NodeID (ce_Subject (fa_RCAC (ci_fabric i1))) \<noteq> Some (ci_peerNodeID i1)"
    unfolding h(3) example_names(3) using example_honest by simp_all
  from sigma2_authentic [OF h(1,2) this] h(1) show ?thesis
    unfolding h(3,4) by (simp add: example_fabric_def) blast
qed

end
