(* ===== verification/Fabric.thy ===== *)
theory Fabric
  imports Case_Properties
begin

text \<open>
  The fabric that the controller owns, \<^verbatim>\<open>go-matter/controller\<close>: making one and issuing certificates for its
  nodes (\<^verbatim>\<open>fabric.go\<close>), and what is read back from the stored form (\<^verbatim>\<open>store.go\<close>). A fabric that is made
  here is one whose members can establish sessions with each other.
\<close>

section \<open>Making a fabric\<close>

record StoredFabric =
  sf_FabricID :: u64
  sf_IPK :: bytes
  sf_RootPublicKey :: bytes
  sf_RCAC :: bytes
  sf_ControllerNOC :: bytes
  sf_ControllerKey :: bytes
  sf_RootKey :: bytes

datatype fabric_error = ZeroID | FabricRand | FabricCert cert_error | FabricDecode derror | NoCAKey

definition matterEpoch :: int where "matterEpoch = 946684800"

definition keyID :: "curve \<Rightarrow> bytes \<Rightarrow> bytes" where
  "keyID k pub = SHA1 k pub"

definition number_attr :: "u8 \<Rightarrow> u64 \<Rightarrow> Attr" where
  "number_attr t v = \<lparr>at_Tag = t, at_IsString = False, at_Printable = False, at_String = [], at_Value = v\<rparr>"

text \<open>\<open>serial\<close> is what \<^verbatim>\<open>randomBytes(8)\<close> gives, \<open>rnd\<close> what the signature draws.\<close>

definition IssueNOC :: "curve \<Rightarrow> bytes option \<Rightarrow> nat \<Rightarrow> StoredFabric \<Rightarrow> bytes \<Rightarrow> u64 \<Rightarrow> (fabric_error + bytes) option" where
  "IssueNOC k serial rnd s pub nodeID =
     (if length (sf_RootKey s) = 0 then Some (Inl NoCAKey)
      else case Cert_Decode (sf_RCAC s) of
        None \<Rightarrow> None
      | Some (Inl e) \<Rightarrow> Some (Inl (FabricDecode e))
      | Some (Inr root) \<Rightarrow>
          (case serial of
             None \<Rightarrow> Some (Inl FabricRand)
           | Some serial \<Rightarrow>
               (let noc = \<lparr>ce_SerialNumber = serial, ce_SigAlgo = 1, ce_Issuer = ce_Subject root,
                      ce_NotBefore = ce_NotBefore root, ce_NotAfter = ce_NotAfter root,
                      ce_Subject = [number_attr DNMatterNodeID nodeID, number_attr DNMatterFabricID (sf_FabricID s)],
                      ce_PubKeyAlgo = 1, ce_CurveID = 1, ce_PublicKey = pub,
                      ce_Extensions = \<lparr>ex_BasicConstraints = Some \<lparr>bc_IsCA = False, bc_PathLen = None\<rparr>,
                        ex_KeyUsage = Some 0x01, ex_ExtKeyUsage = Some [2, 1], ex_SubjectKeyID = Some (keyID k pub),
                        ex_AuthorityKeyID = ex_SubjectKeyID (ce_Extensions root)\<rparr>,
                      ce_Signature = []\<rparr>
                in Some (map_sum FabricCert id (fst (SignAndEncode k rnd noc (sf_RootKey s)))))))"

text \<open>What \<^verbatim>\<open>GenerateFabric\<close> draws, in its order, and the seconds of \<^verbatim>\<open>time.Now\<close>.\<close>

record draws =
  dr_rootKey :: "bytes option"
  dr_rootID :: "bytes option"
  dr_now :: int
  dr_serial :: "bytes option"
  dr_rootSig :: nat
  dr_ctrlKey :: "bytes option"
  dr_IPK :: "bytes option"
  dr_nocSerial :: "bytes option"
  dr_nocSig :: nat

definition rootCert :: "curve \<Rightarrow> bytes \<Rightarrow> int \<Rightarrow> bytes \<Rightarrow> bytes \<Rightarrow> Cert" where
  "rootCert k rootIDBytes now serial rootPub =
     (let rootID = foldl (\<lambda>acc b. push_bit 8 acc OR ucast b) 0 rootIDBytes;
          rootDN = [number_attr DNMatterRCACID rootID]
      in \<lparr>ce_SerialNumber = serial, ce_SigAlgo = 1, ce_Issuer = rootDN,
          ce_NotBefore = word_of_int (now - matterEpoch - 24 * 3600), ce_NotAfter = 0, ce_Subject = rootDN,
          ce_PubKeyAlgo = 1, ce_CurveID = 1, ce_PublicKey = rootPub,
          ce_Extensions = \<lparr>ex_BasicConstraints = Some \<lparr>bc_IsCA = True, bc_PathLen = Some 1\<rparr>,
            ex_KeyUsage = Some 0x60, ex_ExtKeyUsage = None, ex_SubjectKeyID = Some (keyID k rootPub),
            ex_AuthorityKeyID = Some (keyID k rootPub)\<rparr>,
          ce_Signature = []\<rparr>)"

definition GenerateFabric :: "curve \<Rightarrow> draws \<Rightarrow> u64 \<Rightarrow> u64 \<Rightarrow> (fabric_error + StoredFabric) option" where
  "GenerateFabric k d fabricID controllerNodeID =
     (if fabricID = 0 \<or> controllerNodeID = 0 then Some (Inl ZeroID)
      else case dr_rootKey d of
        None \<Rightarrow> Some (Inl FabricRand)
      | Some rootKey \<Rightarrow>
          (case PublicFromScalar k rootKey of
             Inl e \<Rightarrow> Some (Inl (FabricCert e))
           | Inr rootPub \<Rightarrow>
               (case (dr_rootID d, dr_serial d) of
                  (Some rootIDBytes, Some serial) \<Rightarrow>
                    (case fst (SignAndEncode k (dr_rootSig d) (rootCert k rootIDBytes (dr_now d) serial rootPub) rootKey) of
                       Inl e \<Rightarrow> Some (Inl (FabricCert e))
                     | Inr rcacTLV \<Rightarrow>
                         (case dr_ctrlKey d of
                            None \<Rightarrow> Some (Inl FabricRand)
                          | Some ctrlKey \<Rightarrow>
                              (case PublicFromScalar k ctrlKey of
                                 Inl e \<Rightarrow> Some (Inl (FabricCert e))
                               | Inr ctrlPub \<Rightarrow>
                                   (case dr_IPK d of
                                      None \<Rightarrow> Some (Inl FabricRand)
                                    | Some ipk \<Rightarrow>
                                        (let s = \<lparr>sf_FabricID = fabricID, sf_IPK = ipk, sf_RootPublicKey = rootPub,
                                               sf_RCAC = rcacTLV, sf_ControllerNOC = [], sf_ControllerKey = ctrlKey,
                                               sf_RootKey = rootKey\<rparr>
                                         in map_option (map_sum id (\<lambda>noc. s\<lparr>sf_ControllerNOC := noc\<rparr>))
                                              (IssueNOC k (dr_nocSerial d) (dr_nocSig d) s ctrlPub controllerNodeID))))))
                | _ \<Rightarrow> Some (Inl FabricRand))))"

section \<open>Reading it back\<close>

definition StoredFabric_Fabric :: "StoredFabric \<Rightarrow> (fabric_error + Fabric) option" where
  "StoredFabric_Fabric s =
     map_option (map_sum FabricDecode (\<lambda>rcac. \<lparr>fa_IPK = sf_IPK s, fa_FabricID = sf_FabricID s,
       fa_RootPubKey = sf_RootPublicKey s, fa_RCAC = rcac\<rparr>)) (Cert_Decode (sf_RCAC s))"

definition StoredFabric_Identity :: "StoredFabric \<Rightarrow> Identity" where
  "StoredFabric_Identity s = \<lparr>id_NOC = sf_ControllerNOC s, id_ICAC = [], id_OpKey = sf_ControllerKey s\<rparr>"

section \<open>Issued certificates\<close>

text \<open>What the random source gives has the length that was asked for, and a generated scalar has a public key.\<close>

definition draws_ok :: "curve \<Rightarrow> draws \<Rightarrow> bool" where
  "draws_ok k d \<longleftrightarrow> (\<exists>rk rp ck cp. dr_rootKey d = Some rk \<and> keypair k (rk, rp) \<and> dr_ctrlKey d = Some ck \<and> keypair k (ck, cp))
     \<and> (\<exists>b. dr_rootID d = Some b \<and> length b = 8) \<and> (\<exists>b. dr_serial d = Some b \<and> length b = 8)
     \<and> (\<exists>b. dr_nocSerial d = Some b \<and> length b = 8) \<and> (\<exists>b. dr_IPK d = Some b \<and> length b = 16)"

definition fabric_lib :: "curve \<Rightarrow> bool" where
  "fabric_lib k \<longleftrightarrow> case_ok k \<and> (\<forall>b. length (SHA1 k b) = 20)"

text \<open>The store of a fabric whose root was made by \<^verbatim>\<open>GenerateFabric\<close>.\<close>

definition has_root :: "curve \<Rightarrow> StoredFabric \<Rightarrow> Cert \<Rightarrow> bool" where
  "has_root k s root \<longleftrightarrow> Cert_Decode (sf_RCAC s) = Some (Inr root) \<and> VerifySignature k root (ce_PublicKey root) = None
     \<and> keypair k (sf_RootKey s, ce_PublicKey root) \<and> sf_RootPublicKey s = ce_PublicKey root
     \<and> (\<exists>v. ce_Subject root = [number_attr DNMatterRCACID v])
     \<and> (\<exists>b. ex_SubjectKeyID (ce_Extensions root) = Some b \<and> length b = 20) \<and> length (sf_IPK s) = 16"

lemma fst_sign:
  assumes "fst (SignAndEncode k rnd c sk) = Inr b"
  shows "SignAndEncode k rnd c sk = (Inr b, snd (SignAndEncode k rnd c sk))"
  using assms by (metis prod.collapse)

lemma sign_form:
  assumes "curve_ok k" "keypair k (sk, pub)" "fst (SignAndEncode k rnd c sk) = Inr b"
  obtains sig where "length sig = 64" "b = enc (cert_elem (c\<lparr>ce_Signature := sig\<rparr>))"
    "VerifySignature k (c\<lparr>ce_Signature := sig\<rparr>) pub = None"
proof -
  have p: "Public k sk = Some pub" "length pub = 65" using assms(2) by (simp_all add: keypair_def)
  note f = fst_sign [OF assms(3)]
  obtain tbs s where s: "SignECDSA k rnd sk tbs = Inr s" "snd (SignAndEncode k rnd c sk) = c\<lparr>ce_Signature := s\<rparr>"
    "Cert_Encode (snd (SignAndEncode k rnd c sk)) = Inr b"
    using SignAndEncode_parts [OF f] by metis
  show thesis
    using that [of s] SignECDSA_verifies [OF assms(1) p s(1)] signed_verifies [OF assms(1) p f] s(2,3)
    by (simp add: Cert_Encode_elem del: enc.simps)
qed

lemma number_attr_ok: "t AND printableFlag = 0 \<Longrightarrow> attr_ok (number_attr t v)"
  by (simp add: attr_ok_def number_attr_def)

lemma sign_returns:
  assumes "case_lib k" "keypair k (sk, pub)" "tbsDER c = Inr t"
  shows "\<exists>b. fst (SignAndEncode k rnd c sk) = Inr b"
proof -
  have p: "length sk = 32" "Public k sk = Some pub" using assms(2) by (simp_all add: keypair_def)
  have "Sign k rnd sk (SHA256 k t) \<noteq> None"
    using assms(1,2) unfolding case_lib_def by (metis fst_conv)
  with p assms(3) show ?thesis
    by (auto simp: SignAndEncode_def SignECDSA_def Let_def Cert_Encode_elem simp del: enc.simps)
qed

lemma attrDER_number: "DNMatterNodeID \<le> t \<Longrightarrow> t \<le> DNMatterCASEAuthTag \<Longrightarrow> \<exists>b. attrDER (number_attr t v) = Inr b"
  by (simp add: attrDER_def number_attr_def Let_def)

lemma dnDER_numbers:
  "\<exists>b. dnDER [number_attr DNMatterRCACID v] = Inr b"
  "\<exists>b. dnDER [number_attr DNMatterNodeID v, number_attr DNMatterFabricID w] = Inr b"
  by (simp_all add: dnDER_def attrDER_def number_attr_def Let_def)

text \<open>A bound on the encoding of an element.\<close>

fun room :: "elem \<Rightarrow> nat" where
  "room (Prim t p) = 20 + (case p of PString b \<Rightarrow> length b | PBytes b \<Rightarrow> length b | _ \<Rightarrow> 0)"
| "room (Cont t k es) = 10 + sum_list (List.map room es)"

lemma length_enc_ctl_any: "length (enc_ctl t et) \<le> 9"
  by (simp add: enc_ctl_def Writer_control_def NewWriter_def w_append_def Writer_fail_def split: tag_kind.split)

lemma enc_room: "length (enc e) \<le> room e"
proof (induction e rule: room.induct)
  case (1 t p)
  have "length (prim_payload p) \<le> 8 + (case p of PString b \<Rightarrow> length b | PBytes b \<Rightarrow> length b | _ \<Rightarrow> 0)"
    by (cases p) (simp_all add: enc_blob_def Let_def uint_width_def int_width_def)
  then show ?case using length_enc_ctl_any [of t "prim_et p"] by (simp only: enc.simps room.simps length_append)
next
  case (2 t k es)
  have "length (encs es) \<le> sum_list (List.map room es)"
    using 2 by (induction es) (auto intro: add_mono)
  then show ?case using length_enc_ctl_any [of t "ckind_et k"] by simp
qed

lemma extensions_der:
  "ex_ExtKeyUsage e = None \<Longrightarrow> \<exists>b. extensionsDER e = Inr b"
  "ex_ExtKeyUsage e = Some [2, 1] \<Longrightarrow> \<exists>b. extensionsDER e = Inr b"
  by (simp_all add: extensionsDER_def ekuOID_def Let_def)

lemma tbsDER_returns:
  assumes "dnDER (ce_Issuer c) = Inr i" "dnDER (ce_Subject c) = Inr s" "extensionsDER (ce_Extensions c) = Inr x"
  shows "\<exists>b. tbsDER c = Inr b"
  by (simp add: tbsDER_def assms Let_def)

lemma issue_member:
  assumes k: "fabric_lib k" and root: "has_root k s root" and key: "keypair k (sk, pub)" and serial: "length serial = 8"
  shows "\<exists>noc. IssueNOC k (Some serial) rnd s pub nodeID = Some (Inr noc)
    \<and> member k \<lparr>fa_IPK = sf_IPK s, fa_FabricID = sf_FabricID s, fa_RootPubKey = sf_RootPublicKey s, fa_RCAC = root\<rparr>
        \<lparr>id_NOC = noc, id_ICAC = [], id_OpKey = sk\<rparr> nodeID"
proof -
  have lib: "case_lib k" and cv: "curve_ok k" and sha: "length (keyID k b) = 20" for b
    using k by (simp_all add: fabric_lib_def case_ok_def keyID_def)
  obtain v aki where r: "Cert_Decode (sf_RCAC s) = Some (Inr root)" "VerifySignature k root (ce_PublicKey root) = None"
    "keypair k (sf_RootKey s, ce_PublicKey root)" "sf_RootPublicKey s = ce_PublicKey root"
    "ce_Subject root = [number_attr DNMatterRCACID v]" "ex_SubjectKeyID (ce_Extensions root) = Some aki" "length aki = 20"
    using root by (auto simp: has_root_def)
  define noc where "noc = \<lparr>ce_SerialNumber = serial, ce_SigAlgo = 1, ce_Issuer = ce_Subject root,
    ce_NotBefore = ce_NotBefore root, ce_NotAfter = ce_NotAfter root,
    ce_Subject = [number_attr DNMatterNodeID nodeID, number_attr DNMatterFabricID (sf_FabricID s)],
    ce_PubKeyAlgo = 1, ce_CurveID = 1, ce_PublicKey = pub,
    ce_Extensions = \<lparr>ex_BasicConstraints = Some \<lparr>bc_IsCA = False, bc_PathLen = None\<rparr>,
      ex_KeyUsage = Some 0x01, ex_ExtKeyUsage = Some [2, 1], ex_SubjectKeyID = Some (keyID k pub),
      ex_AuthorityKeyID = ex_SubjectKeyID (ce_Extensions root)\<rparr>,
    ce_Signature = []\<rparr>"
  have f: "ce_Issuer noc = [number_attr DNMatterRCACID v]" "ce_PublicKey noc = pub"
    "ce_Subject noc = [number_attr DNMatterNodeID nodeID, number_attr DNMatterFabricID (sf_FabricID s)]"
    "ex_ExtKeyUsage (ce_Extensions noc) = Some [2, 1]" by (simp_all add: noc_def r(5))
  obtain b1 b2 b3 where "dnDER (ce_Issuer noc) = Inr b1" "dnDER (ce_Subject noc) = Inr b2" "extensionsDER (ce_Extensions noc) = Inr b3"
    using dnDER_numbers extensions_der(2) [OF f(4)] unfolding f by metis
  then obtain t where t: "tbsDER noc = Inr t" using tbsDER_returns by blast
  obtain b where b: "fst (SignAndEncode k rnd noc (sf_RootKey s)) = Inr b" using sign_returns [OF lib r(3) t] by blast
  obtain sig where sig: "length sig = 64" "b = enc (cert_elem (noc\<lparr>ce_Signature := sig\<rparr>))"
    "VerifySignature k (noc\<lparr>ce_Signature := sig\<rparr>) (ce_PublicKey root) = None"
    using sign_form [OF cv r(3) b] .
  let ?c = "noc\<lparr>ce_Signature := sig\<rparr>"
  have rk: "length (sf_RootKey s) = 32" "length pub = 65" using r(3) key by (simp_all add: keypair_def)
  have iss: "IssueNOC k (Some serial) rnd s pub nodeID = Some (Inr b)"
    using rk b by (simp add: IssueNOC_def r(1) noc_def Let_def)
  have ok: "cert_ok ?c"
    using serial sha [of pub] rk sig(1) r(7) number_attr_ok
    by (simp add: cert_ok_def noc_def r(5,6) short_def ext_ok_def)
  have "room (cert_elem ?c) \<le> 65000"
    using serial sha [of pub] rk sig(1) r(7)
    by (simp add: cert_elem_def noc_def r(5,6) dn_elem_def attr_elem_def number_attr_def ext_elems_def bc_elem_def eku_elem_def)
  then have "length (enc (cert_elem ?c)) \<le> 65000" using enc_room [of "cert_elem ?c"] by simp
  moreover have "NodeID (ce_Subject ?c) = Some nodeID" "FabricID (ce_Subject ?c) = Some (sf_FabricID s)"
    by (simp_all add: f NodeID_def FabricID_def number_attr_def)
  moreover have "VerifyChain k ?c None root = None" using r(2) sig(3) by (simp add: VerifyChain_def)
  ultimately have "member k \<lparr>fa_IPK = sf_IPK s, fa_FabricID = sf_FabricID s, fa_RootPubKey = sf_RootPublicKey s, fa_RCAC = root\<rparr>
        \<lparr>id_NOC = b, id_ICAC = [], id_OpKey = sk\<rparr> nodeID"
    unfolding member_def using cert_decodes [OF ok] key f(2)
    by (intro exI [of _ ?c] exI [of _ None]) (simp add: sig(2) decodeICAC_def del: enc.simps)
  with iss show ?thesis by blast
qed

lemma root_made:
  assumes k: "fabric_lib k" and key: "keypair k (rk, rp)" and len: "length serial = 8" "length (sf_IPK s) = 16"
    and b: "fst (SignAndEncode k rnd (rootCert k idb now serial rp) rk) = Inr b"
    and s: "sf_RCAC s = b" "sf_RootKey s = rk" "sf_RootPublicKey s = rp"
  shows "\<exists>root. has_root k s root"
proof -
  have cv: "curve_ok k" and sha: "length (keyID k rp) = 20"
    using k by (simp_all add: fabric_lib_def case_ok_def keyID_def)
  have pl: "length rp = 65" using key by (simp add: keypair_def)
  obtain sig where sig: "length sig = 64" "b = enc (cert_elem (rootCert k idb now serial rp\<lparr>ce_Signature := sig\<rparr>))"
    "VerifySignature k (rootCert k idb now serial rp\<lparr>ce_Signature := sig\<rparr>) rp = None"
    using sign_form [OF cv key b] .
  let ?c = "rootCert k idb now serial rp\<lparr>ce_Signature := sig\<rparr>"
  have "cert_ok ?c"
    using len(1) sha sig(1) pl number_attr_ok
    by (simp add: cert_ok_def rootCert_def Let_def short_def ext_ok_def)
  note dec = cert_decodes [OF this, folded sig(2)]
  have f: "ce_PublicKey ?c = rp" "\<exists>v. ce_Subject ?c = [number_attr DNMatterRCACID v]"
    "ex_SubjectKeyID (ce_Extensions ?c) = Some (keyID k rp)"
    by (auto simp: rootCert_def Let_def)
  have "has_root k s ?c"
    unfolding has_root_def s f(1,3) using sig(3) key sha len(2) dec f(2) by blast
  then show ?thesis ..
qed

lemma fabric_made:
  assumes "fabric_lib k" "draws_ok k d" "fabricID \<noteq> 0" "node \<noteq> 0" "length serial = 8" "keypair k (sk, pub)"
  shows "\<exists>s f noc. GenerateFabric k d fabricID node = Some (Inr s)
    \<and> StoredFabric_Fabric s = Some (Inr f) \<and> fabric_ok f \<and> fa_FabricID f = fabricID
    \<and> member k f (StoredFabric_Identity s) node
    \<and> IssueNOC k (Some serial) rnd s pub node' = Some (Inr noc)
    \<and> member k f \<lparr>id_NOC = noc, id_ICAC = [], id_OpKey = sk\<rparr> node'"
proof -
  obtain rk rp ck cp idb ser ipk ser' where d: "dr_rootKey d = Some rk" "keypair k (rk, rp)" "dr_ctrlKey d = Some ck"
    "keypair k (ck, cp)" "dr_rootID d = Some idb" "dr_serial d = Some ser" "length ser = 8" "dr_nocSerial d = Some ser'"
    "length ser' = 8" "dr_IPK d = Some ipk" "length ipk = 16"
    using assms(2) unfolding draws_ok_def by blast
  have lib: "case_lib k" using assms(1) by (simp add: fabric_lib_def case_ok_def)
  have pub: "PublicFromScalar k rk = Inr rp" "PublicFromScalar k ck = Inr cp"
    using d(2,4) by (simp_all add: PublicFromScalar_def keypair_def)
  have "ex_ExtKeyUsage (ce_Extensions (rootCert k idb (dr_now d) ser rp)) = None" by (simp add: rootCert_def Let_def)
  from extensions_der(1) [OF this] dnDER_numbers(1) obtain t where "tbsDER (rootCert k idb (dr_now d) ser rp) = Inr t"
    using tbsDER_returns [of "rootCert k idb (dr_now d) ser rp"] by (fastforce simp: rootCert_def Let_def)
  from sign_returns [OF lib d(2) this] obtain b where
    b: "fst (SignAndEncode k (dr_rootSig d) (rootCert k idb (dr_now d) ser rp) rk) = Inr b" by blast
  define s0 where "s0 = \<lparr>sf_FabricID = fabricID, sf_IPK = ipk, sf_RootPublicKey = rp, sf_RCAC = b, sf_ControllerNOC = [],
    sf_ControllerKey = ck, sf_RootKey = rk\<rparr>"
  obtain root where root: "has_root k s0 root"
    using root_made [OF assms(1) d(2,7) _ b, of s0] d(11) by (auto simp: s0_def)
  from issue_member [OF assms(1) root d(4,9)] obtain cnoc where
    c: "IssueNOC k (Some ser') (dr_nocSig d) s0 cp node = Some (Inr cnoc)"
    "member k \<lparr>fa_IPK = sf_IPK s0, fa_FabricID = sf_FabricID s0, fa_RootPubKey = sf_RootPublicKey s0, fa_RCAC = root\<rparr>
      \<lparr>id_NOC = cnoc, id_ICAC = [], id_OpKey = ck\<rparr> node" by blast
  let ?s = "s0\<lparr>sf_ControllerNOC := cnoc\<rparr>"
  have gen: "GenerateFabric k d fabricID node = Some (Inr ?s)"
    using assms(3,4) d pub b c(1) by (simp add: GenerateFabric_def s0_def Let_def)
  have root': "has_root k ?s root" using root by (simp add: has_root_def)
  from issue_member [OF assms(1) root' assms(6,5)] obtain noc where
    n: "IssueNOC k (Some serial) rnd ?s pub node' = Some (Inr noc)"
    "member k \<lparr>fa_IPK = sf_IPK ?s, fa_FabricID = sf_FabricID ?s, fa_RootPubKey = sf_RootPublicKey ?s, fa_RCAC = root\<rparr>
      \<lparr>id_NOC = noc, id_ICAC = [], id_OpKey = sk\<rparr> node'" by blast
  let ?f = "\<lparr>fa_IPK = ipk, fa_FabricID = fabricID, fa_RootPubKey = rp, fa_RCAC = root\<rparr>"
  have "StoredFabric_Fabric ?s = Some (Inr ?f)" using root by (simp add: StoredFabric_Fabric_def has_root_def s0_def)
  moreover have "fabric_ok ?f" using d(2,11) by (simp add: fabric_ok_def keypair_def)
  moreover have "StoredFabric_Identity ?s = \<lparr>id_NOC = cnoc, id_ICAC = [], id_OpKey = ck\<rparr>"
    by (simp add: StoredFabric_Identity_def s0_def)
  moreover have "fa_FabricID ?f = fabricID" by simp
  ultimately show ?thesis using gen n c(2) by (auto simp: s0_def)
qed

text \<open>C38: A fabric that \<^verbatim>\<open>GenerateFabric\<close> makes works: making it does not fail, its stored form reads back
  as a fabric with the identifier that was asked for, the controller's own identity is one the fabric's
  members accept under its node identifier, and so is every certificate that \<^verbatim>\<open>IssueNOC\<close> signs for a
  key, under the node identifier it was issued for.\<close>

theorem generated_fabric:
  assumes "fabric_lib k" "draws_ok k d" "fabricID \<noteq> 0" "node \<noteq> 0" "length serial = 8" "keypair k (sk, pub)"
  shows "\<exists>s f noc. GenerateFabric k d fabricID node = Some (Inr s)
    \<and> StoredFabric_Fabric s = Some (Inr f) \<and> fabric_ok f \<and> fa_FabricID f = fabricID
    \<and> member k f (StoredFabric_Identity s) node
    \<and> IssueNOC k (Some serial) rnd s pub node' = Some (Inr noc)
    \<and> member k f \<lparr>id_NOC = noc, id_ICAC = [], id_OpKey = sk\<rparr> node'"
  using assms by (rule fabric_made)

lemma example_fabric_lib: "fabric_lib example_curve"
proof -
  have "length (SHA1 example_curve b) = 20" for b by (simp add: example_curve_def min_def)
  then show ?thesis by (simp add: fabric_lib_def example_case_ok)
qed

theorem generated_fabric_witness:
  "\<exists>s f noc. GenerateFabric example_curve
      \<lparr>dr_rootKey = Some (replicate 32 1), dr_rootID = Some (replicate 8 2), dr_now = 1700000000, dr_serial = Some (replicate 8 3),
       dr_rootSig = 0, dr_ctrlKey = Some (replicate 32 4), dr_IPK = Some (replicate 16 5), dr_nocSerial = Some (replicate 8 6),
       dr_nocSig = 1\<rparr> 9 5 = Some (Inr s)
    \<and> StoredFabric_Fabric s = Some (Inr f) \<and> fabric_ok f \<and> fa_FabricID f = 9
    \<and> member example_curve f (StoredFabric_Identity s) 5
    \<and> IssueNOC example_curve (Some (replicate 8 7)) 2 s (0x04 # replicate 32 8 @ replicate 32 0) 7 = Some (Inr noc)
    \<and> member example_curve f \<lparr>id_NOC = noc, id_ICAC = [], id_OpKey = replicate 32 8\<rparr> 7"
proof -
  have k: "keypair example_curve (replicate 32 x, 0x04 # replicate 32 x @ replicate 32 0)" for x
    by (simp add: keypair_def example_curve_def)
  show ?thesis
    by (rule generated_fabric [OF example_fabric_lib]) (use k [of 1] k [of 4] k [of 8] in \<open>auto simp: draws_ok_def\<close>)
qed

end
