(* ===== verification/Commission.thy ===== *)
theory Commission
  imports Fabric Exchange_Properties Cluster
begin

text \<open>
  Connecting to devices and bringing them onto the fabric, \<^verbatim>\<open>go-matter/controller\<close>: the CASE handshake over
  the transport (\<^verbatim>\<open>Controller.Connect\<close> in \<^verbatim>\<open>controller.go\<close>), the PASE handshake and the commissioning flow
  (\<^verbatim>\<open>commission.go\<close>).
\<close>

section \<open>Connecting\<close>

abbreviation SCPBKDFParamRequest :: byte where "SCPBKDFParamRequest \<equiv> 0x20"
abbreviation SCPBKDFParamResponse :: byte where "SCPBKDFParamResponse \<equiv> 0x21"
abbreviation SCPASEPake1 :: byte where "SCPASEPake1 \<equiv> 0x22"
abbreviation SCPASEPake2 :: byte where "SCPASEPake2 \<equiv> 0x23"
abbreviation SCPASEPake3 :: byte where "SCPASEPake3 \<equiv> 0x24"
abbreviation SCCASESigma1 :: byte where "SCCASESigma1 \<equiv> 0x30"
abbreviation SCCASESigma2 :: byte where "SCCASESigma2 \<equiv> 0x31"
abbreviation SCCASESigma3 :: byte where "SCCASESigma3 \<equiv> 0x32"
abbreviation SCStatusReport :: byte where "SCStatusReport \<equiv> 0x40"

text \<open>\<open>NilSession\<close> is the panic on a session that is nil.\<close>

datatype conn_error = ConnCtl ctl_error | ConnCase case_error | ConnPase pase_error | ConnStatus msg_error
  | Rejected StatusReport | Unexpected byte | ConnFabric fabric_error | ConnDecode derror | ConnRand
  | DeviceError u8 | DeviceStatus u8 | WrongResponse | NonceMismatch | BadCSR | NoNodeID | AddNOCFailed u8 | NilSession

definition statusReportError :: "bytes \<Rightarrow> conn_error option" where
  "statusReportError payload =
     (case DecodeStatusReport payload of
        Inl e \<Rightarrow> Some (ConnStatus e)
      | Inr sr \<Rightarrow> if StatusReport_IsSuccess sr then None else Some (Rejected sr))"

record Controller =
  co_fabric :: Fabric
  co_self :: Identity
  co_nextSession :: u16
  co_nextExchange :: u16

definition NewController :: "Fabric \<Rightarrow> Identity \<Rightarrow> Controller" where
  "NewController fabric self = \<lparr>co_fabric = fabric, co_self = self, co_nextSession = 1, co_nextExchange = 1\<rparr>"

definition nextIDs :: "Controller \<Rightarrow> (u16 \<times> u16) \<times> Controller" where
  "nextIDs c = ((co_nextSession c, co_nextExchange c),
     c\<lparr>co_nextSession := co_nextSession c + 1, co_nextExchange := co_nextExchange c + 1\<rparr>)"

text \<open>A reliable frame is sent and the answer awaited; the opcode decides what becomes of it.\<close>

definition ask :: "bytes \<Rightarrow> u32 set \<Rightarrow> Net \<Rightarrow> (conn_error + Header \<times> ProtoHeader \<times> bytes) \<times> u32 set \<times> Net" where
  "ask frame seen n =
     (case Net_Send n frame of
        (False, n) \<Rightarrow> (Inl (ConnCtl SendErr), seen, n)
      | (True, n) \<Rightarrow> (case awaitSC frame seen n of (r, seen, n) \<Rightarrow> (map_sum ConnCtl id r, seen, n)))"

text \<open>The result \<open>Inr None\<close> is a nil session without an error.\<close>

definition finish_case :: "curve \<Rightarrow> u16 \<Rightarrow> CaseInitiator \<Rightarrow> bytes \<Rightarrow> u32 set \<Rightarrow> Net
    \<Rightarrow> ((conn_error + Conversation option) \<times> Net) option" where
  "finish_case k exchangeID i sigma3Frame seen n =
     (case ask sigma3Frame seen n of
        (Inl e, _, n) \<Rightarrow> Some (Inl e, n)
      | (Inr (hdr4, proto4, sr), _, n) \<Rightarrow>
          if p_Opcode proto4 \<noteq> SCStatusReport then Some (Inl (Unexpected (p_Opcode proto4)), n)
          else case statusReportError sr of
            Some e \<Rightarrow> Some (Inl e, n)
          | None \<Rightarrow>
              (let n = snd (Net_Send n (frameUnsecuredAck 2 exchangeID True SCStandaloneAck [] (h_Counter hdr4) True)) in
               case CaseInitiator_SecureSession k i of
                 None \<Rightarrow> None
               | Some (Inl e) \<Rightarrow> Some (Inl (ConnCase e), n)
               | Some (Inr secure) \<Rightarrow>
                   Some (Inr (Some \<lparr>cv_secure = secure, cv_t = n, cv_exchange = exchangeID + 1\<rparr>), n)))"

definition case_handshake :: "curve \<Rightarrow> bytes option \<Rightarrow> (bytes \<times> bytes) option \<Rightarrow> nat \<Rightarrow> u16 \<Rightarrow> CaseInitiator \<Rightarrow> Net
    \<Rightarrow> ((conn_error + Conversation option) \<times> Net) option" where
  "case_handshake k rnd gen sigrnd exchangeID i n =
     (case Initiator_Sigma1 k rnd gen i of
        (Inl e, _) \<Rightarrow> Some (Inl (ConnCase e), n)
      | (Inr s1, i) \<Rightarrow>
          (case ask (frameUnsecured 0 exchangeID True SCCASESigma1 s1) {} n of
             (Inl e, _, n) \<Rightarrow> Some (Inl e, n)
           | (Inr (hdr2, proto2, sigma2), seen, n) \<Rightarrow>
               if p_Opcode proto2 = SCStatusReport then
                 Some (case statusReportError sigma2 of Some e \<Rightarrow> Inl e | None \<Rightarrow> Inr None, n)
               else if p_Opcode proto2 \<noteq> SCCASESigma2 then Some (Inl (Unexpected (p_Opcode proto2)), n)
               else case HandleSigma2 k sigrnd sigma2 i of
                 None \<Rightarrow> None
               | Some (Inl e, _) \<Rightarrow> Some (Inl (ConnCase e), n)
               | Some (Inr s3, i) \<Rightarrow>
                   finish_case k exchangeID i (frameUnsecuredAck 1 exchangeID True SCCASESigma3 s3 (h_Counter hdr2) True) seen n))"

definition Connect :: "curve \<Rightarrow> bytes option \<Rightarrow> (bytes \<times> bytes) option \<Rightarrow> nat \<Rightarrow> u64 \<Rightarrow> Controller \<Rightarrow> Net
    \<Rightarrow> ((conn_error + Conversation option) \<times> Net) option \<times> Controller" where
  "Connect k rnd gen sigrnd peerNodeID c n =
     (let ((localSessionID, exchangeID), c) = nextIDs c in
      (case NewCaseInitiator (co_fabric c) (co_self c) peerNodeID localSessionID of
         Inl e \<Rightarrow> Some (Inl (ConnCase e), n)
       | Inr i \<Rightarrow> case_handshake k rnd gen sigrnd exchangeID i n, c))"

section \<open>The handshake with the passcode\<close>

abbreviation paseSessionID :: u16 where "paseSessionID \<equiv> 1"
abbreviation paseExchangeID :: u16 where "paseExchangeID \<equiv> 1"

definition finish_pase :: "'p suite \<Rightarrow> 'p Initiator \<Rightarrow> bytes \<Rightarrow> u32 set \<Rightarrow> Net
    \<Rightarrow> (conn_error + Conversation option) \<times> Net" where
  "finish_pase c i pake3Frame seen n =
     (case ask pake3Frame seen n of
        (Inl e, _, n) \<Rightarrow> (Inl e, n)
      | (Inr (hdr, ph, payload), _, n) \<Rightarrow>
          if p_Opcode ph \<noteq> SCStatusReport then (Inl (Unexpected (p_Opcode ph)), n)
          else case statusReportError payload of
            Some e \<Rightarrow> (Inl e, n)
          | None \<Rightarrow>
              (let n = snd (Net_Send n (frameUnsecuredAck 3 paseExchangeID True SCStandaloneAck [] (h_Counter hdr) True)) in
               case Initiator_SecureSession c i of
                 Inl e \<Rightarrow> (Inl (ConnPase e), n)
               | Inr secure \<Rightarrow> (Inr (Some \<lparr>cv_secure = secure, cv_t = n, cv_exchange = paseExchangeID + 1\<rparr>), n)))"

definition pase_pake2 :: "'p suite \<Rightarrow> 'p Initiator \<Rightarrow> bytes \<Rightarrow> u32 set \<Rightarrow> Net
    \<Rightarrow> ((conn_error + Conversation option) \<times> Net) option" where
  "pase_pake2 c i pake1Frame seen n =
     (case ask pake1Frame seen n of
        (Inl e, _, n) \<Rightarrow> Some (Inl e, n)
      | (Inr (hdr, ph, payload), seen, n) \<Rightarrow>
          if p_Opcode ph = SCStatusReport then
            Some (case statusReportError payload of Some e \<Rightarrow> Inl e | None \<Rightarrow> Inr None, n)
          else if p_Opcode ph \<noteq> SCPASEPake2 then Some (Inl (Unexpected (p_Opcode ph)), n)
          else case HandlePake2 c payload i of
            None \<Rightarrow> None
          | Some (Inl e, _) \<Rightarrow> Some (Inl (ConnPase e), n)
          | Some (Inr pake3, i) \<Rightarrow>
              Some (finish_pase c i (frameUnsecuredAck 2 paseExchangeID True SCPASEPake3 pake3 (h_Counter hdr) True) seen n))"

definition paseHandshake :: "'p suite \<Rightarrow> bytes option \<Rightarrow> (nat \<Rightarrow> nat option) \<Rightarrow> u32 \<Rightarrow> Net
    \<Rightarrow> ((conn_error + Conversation option) \<times> Net) option" where
  "paseHandshake c rnd draws passcode n =
     (case ParamRequest rnd (NewInitiator passcode paseSessionID) of
        (Inl e, _) \<Rightarrow> Some (Inl (ConnPase e), n)
      | (Inr req, i) \<Rightarrow>
          (case ask (frameUnsecured 0 paseExchangeID True SCPBKDFParamRequest req) {} n of
             (Inl e, _, n) \<Rightarrow> Some (Inl e, n)
           | (Inr (hdr, ph, payload), seen, n) \<Rightarrow>
               if p_Opcode ph = SCStatusReport then
                 Some (case statusReportError payload of Some e \<Rightarrow> Inl e | None \<Rightarrow> Inr None, n)
               else if p_Opcode ph \<noteq> SCPBKDFParamResponse then Some (Inl (Unexpected (p_Opcode ph)), n)
               else case HandleParamResponse c draws payload i of
                 None \<Rightarrow> None
               | Some (Inl e, _) \<Rightarrow> Some (Inl (ConnPase e), n)
               | Some (Inr pake1, i) \<Rightarrow>
                   pase_pake2 c i (frameUnsecuredAck 1 paseExchangeID True SCPASEPake1 pake1 (h_Counter hdr) True) seen n))"

section \<open>Commissioning\<close>

text \<open>
  The flow after the handshake, over any way \<open>call\<close> of invoking a command (\<^verbatim>\<open>sess.Invoke\<close>) on a state;
  decoders that need no input beyond the message are total (\<open>ConnDecode\<close> is their error).
\<close>

type_synonym ('s, 'a) flow = "'s \<Rightarrow> (conn_error + 'a) \<times> 's"
type_synonym 's invoker = "InvokeCommand \<Rightarrow> 's \<Rightarrow> (ctl_error + InvokeResult) \<times> 's"

definition flow_bind :: "('s, 'a) flow \<Rightarrow> ('a \<Rightarrow> ('s, 'b) flow) \<Rightarrow> ('s, 'b) flow" where
  "flow_bind m f s = (case m s of (Inl e, s) \<Rightarrow> (Inl e, s) | (Inr a, s) \<Rightarrow> f a s)"

definition flow_of :: "conn_error + 'a \<Rightarrow> ('s, 'a) flow" where
  "flow_of r s = (r, s)"

definition flow_invoke :: "'s invoker \<Rightarrow> InvokeCommand \<Rightarrow> ('s, InvokeResult) flow" where
  "flow_invoke call cmd s = (case call cmd s of (r, s) \<Rightarrow> (map_sum ConnCtl id r, s))"

definition decoded :: "(derror + 'a) option \<Rightarrow> conn_error + 'a" where
  "decoded r = (case r of None \<Rightarrow> Inl (ConnDecode (Msg ''no result'')) | Some x \<Rightarrow> map_sum ConnDecode id x)"

definition cmd_fields :: "InvokeCommand \<Rightarrow> bytes" where
  "cmd_fields c = (case ic_Fields c of None \<Rightarrow> [] | Some b \<Rightarrow> b)"

abbreviation CmdArmFailSafeResponse :: u32 where "CmdArmFailSafeResponse \<equiv> 0x01"
abbreviation CmdCommissioningCompleteResponse :: u32 where "CmdCommissioningCompleteResponse \<equiv> 0x05"
abbreviation CmdCSRResponse :: u32 where "CmdCSRResponse \<equiv> 0x05"
abbreviation CmdNOCResponse :: u32 where "CmdNOCResponse \<equiv> 0x08"

text \<open>The command of a result when it is the one that is wanted.\<close>

definition answer_of :: "InvokeResult \<Rightarrow> u32 \<Rightarrow> InvokeCommand option" where
  "answer_of res want = (case ir_Command res of None \<Rightarrow> None | Some c \<Rightarrow> if cp_Command (ic_Path c) = want then Some c else None)"

definition status_check :: "InvokeResult \<Rightarrow> conn_error + unit" where
  "status_check res =
     (case ir_Status res of None \<Rightarrow> Inr () | Some st \<Rightarrow> if cs_Status st \<noteq> 0 then Inl (DeviceStatus (cs_Status st)) else Inr ())"

definition commissioning_result :: "InvokeResult \<Rightarrow> u32 \<Rightarrow> conn_error + unit" where
  "commissioning_result res want =
     (case answer_of res want of
        Some c \<Rightarrow>
          (case decoded (DecodeCommissioningError (cmd_fields c)) of
             Inl e \<Rightarrow> Inl e
           | Inr code \<Rightarrow> if code \<noteq> 0 then Inl (DeviceError code) else Inr ())
      | None \<Rightarrow> status_check res)"

definition invokeCommissioning :: "'s invoker \<Rightarrow> InvokeCommand \<Rightarrow> u32 \<Rightarrow> ('s, unit) flow" where
  "invokeCommissioning call cmd wantResponse =
     flow_bind (flow_invoke call cmd) (\<lambda>res. flow_of (commissioning_result res wantResponse))"

definition controllerNodeID :: "StoredFabric \<Rightarrow> conn_error + u64" where
  "controllerNodeID store =
     (case decoded (Cert_Decode (sf_ControllerNOC store)) of
        Inl e \<Rightarrow> Inl e
      | Inr noc \<Rightarrow>
          (case NodeID (ce_Subject noc) of
             None \<Rightarrow> Inl NoNodeID
           | Some node \<Rightarrow> if node = 0 then Inl NoNodeID else Inr node))"

text \<open>\<open>csrKey\<close> stands for \<^verbatim>\<open>crypto/x509\<close>: the coordinates of a P-256 key whose request is signed with it.\<close>

definition publicKeyFromCSR :: "(bytes \<Rightarrow> (256 word \<times> 256 word) option) \<Rightarrow> bytes \<Rightarrow> conn_error + bytes" where
  "publicKeyFromCSR csrKey der =
     (case csrKey der of None \<Rightarrow> Inl BadCSR | Some (x, y) \<Rightarrow> Inr (0x04 # rev (le_bytes 32 x) @ rev (le_bytes 32 y)))"

definition csr_key :: "(bytes \<Rightarrow> (256 word \<times> 256 word) option) \<Rightarrow> bytes \<Rightarrow> InvokeResult \<Rightarrow> conn_error + bytes" where
  "csr_key csrKey csrNonce res =
     (case answer_of res CmdCSRResponse of
        None \<Rightarrow> Inl WrongResponse
      | Some c \<Rightarrow>
          (case decoded (DecodeCSRResponse (cmd_fields c)) of
             Inl e \<Rightarrow> Inl e
           | Inr csrResp \<Rightarrow>
               (case decoded (ParseNOCSRElements (case csr_NOCSRElements csrResp of None \<Rightarrow> [] | Some b \<Rightarrow> b)) of
                  Inl e \<Rightarrow> Inl e
                | Inr (csrDER, echoedNonce) \<Rightarrow>
                    if (case echoedNonce of None \<Rightarrow> [] | Some b \<Rightarrow> b) \<noteq> csrNonce then Inl NonceMismatch
                    else publicKeyFromCSR csrKey csrDER)))"

definition noc_answer :: "InvokeResult \<Rightarrow> conn_error + unit" where
  "noc_answer res =
     (case answer_of res CmdNOCResponse of
        None \<Rightarrow> Inl WrongResponse
      | Some c \<Rightarrow>
          (case decoded (DecodeNOCResponse (cmd_fields c)) of
             Inl e \<Rightarrow> Inl e
           | Inr nocResp \<Rightarrow> if noc_Status nocResp \<noteq> 0 then Inl (AddNOCFailed (noc_Status nocResp)) else Inr ()))"

abbreviation failSafeExpirySeconds :: u16 where "failSafeExpirySeconds \<equiv> 60"

definition issued_noc :: "(fabric_error + bytes) option \<Rightarrow> conn_error + bytes" where
  "issued_noc r = (case r of None \<Rightarrow> Inl (ConnDecode (Msg ''no result'')) | Some x \<Rightarrow> map_sum ConnFabric id x)"

definition commission_flow :: "'s invoker \<Rightarrow> curve \<Rightarrow> (bytes \<Rightarrow> (256 word \<times> 256 word) option) \<Rightarrow> bytes option
    \<Rightarrow> bytes option \<Rightarrow> nat \<Rightarrow> StoredFabric \<Rightarrow> u64 \<Rightarrow> u16 \<Rightarrow> ('s, unit) flow" where
  "commission_flow call k csrKey csrNonce serial sigrnd store newNodeID adminVendorID =
     flow_bind (flow_of (map_sum ConnDecode id (ArmFailSafe failSafeExpirySeconds))) (\<lambda>arm.
     flow_bind (invokeCommissioning call arm CmdArmFailSafeResponse) (\<lambda>_.
     flow_bind (flow_of (case csrNonce of None \<Rightarrow> Inl ConnRand | Some b \<Rightarrow> Inr b)) (\<lambda>csrNonce.
     flow_bind (flow_of (map_sum ConnDecode id (CSRRequest csrNonce))) (\<lambda>csrReq.
     flow_bind (flow_invoke call csrReq) (\<lambda>res.
     flow_bind (flow_of (csr_key csrKey csrNonce res)) (\<lambda>devicePub.
     flow_bind (flow_of (issued_noc (IssueNOC k serial sigrnd store devicePub newNodeID))) (\<lambda>noc.
     flow_bind (flow_of (map_sum ConnDecode id (AddTrustedRootCert (sf_RCAC store)))) (\<lambda>addRoot.
     flow_bind (flow_invoke call addRoot) (\<lambda>res.
     flow_bind (flow_of (status_check res)) (\<lambda>_.
     flow_bind (flow_of (controllerNodeID store)) (\<lambda>adminSubject.
     flow_bind (flow_of (map_sum ConnDecode id (AddNOC noc (sf_IPK store) adminSubject adminVendorID))) (\<lambda>addNOC.
     flow_bind (flow_invoke call addNOC) (\<lambda>res.
     flow_of (noc_answer res))))))))))))))"

definition Commission :: "'p suite \<Rightarrow> curve \<Rightarrow> (bytes \<Rightarrow> (256 word \<times> 256 word) option) \<Rightarrow> bytes option \<Rightarrow> (nat \<Rightarrow> nat option)
    \<Rightarrow> bytes option \<Rightarrow> bytes option \<Rightarrow> nat \<Rightarrow> u32 \<Rightarrow> StoredFabric \<Rightarrow> u64 \<Rightarrow> u16 \<Rightarrow> Net \<Rightarrow> ((conn_error + unit) \<times> Net) option" where
  "Commission c k csrKey rnd draws csrNonce serial sigrnd passcode store newNodeID adminVendorID n =
     (if length (sf_RootKey store) = 0 then Some (Inl (ConnFabric NoCAKey), n)
      else case paseHandshake c rnd draws passcode n of
        None \<Rightarrow> None
      | Some (Inl e, n) \<Rightarrow> Some (Inl e, n)
      | Some (Inr None, n) \<Rightarrow> Some (Inl NilSession, n)
      | Some (Inr (Some sess), n) \<Rightarrow>
          (case commission_flow Invoke k csrKey csrNonce serial sigrnd store newNodeID adminVendorID sess of
             (r, sess) \<Rightarrow> Some (r, cv_t sess)))"

definition CompleteCommissioning :: "'s invoker \<Rightarrow> ('s, unit) flow" where
  "CompleteCommissioning call =
     flow_bind (flow_invoke call CommissioningComplete) (\<lambda>res.
     flow_of (commissioning_result res CmdCommissioningCompleteResponse))"

end
