(* ===== verification/Commission_Properties.thy ===== *)
theory Commission_Properties
  imports Commission
begin

text \<open>
  What commissioning does to a device, in which order, and what an unauthenticated answer to the first
  message of a handshake brings about.
\<close>

section \<open>The order of the commands\<close>

text \<open>The conversation with the device: every command given to \<^verbatim>\<open>Invoke\<close>, with what it returned.\<close>

type_synonym device_answer = "ctl_error + InvokeResult"

definition logged :: "'s invoker \<Rightarrow> ((InvokeCommand \<times> device_answer) list \<times> 's) invoker" where
  "logged call cmd st = (case st of (log, s) \<Rightarrow> (case call cmd s of (r, s) \<Rightarrow> (r, (log @ [(cmd, r)], s))))"

text \<open>The outcome of a flow satisfies a postcondition; the rules go through a flow from its front.\<close>

definition gives :: "('s, 'a) flow \<Rightarrow> (conn_error + 'a \<Rightarrow> 's \<Rightarrow> bool) \<Rightarrow> 's \<Rightarrow> bool" where
  "gives m Q st \<longleftrightarrow> (case m st of (r, st') \<Rightarrow> Q r st')"

lemma gives_bind_of:
  assumes "\<And>e. x = Inl e \<Longrightarrow> Q (Inl e) st" "\<And>a. x = Inr a \<Longrightarrow> gives (f a) Q st"
  shows "gives (flow_bind (flow_of x) f) Q st"
  using assms by (cases x) (simp_all add: gives_def flow_bind_def flow_of_def)

lemma gives_of: "Q x st \<Longrightarrow> gives (flow_of x) Q st"
  by (simp add: gives_def flow_of_def)

lemma gives_bind_invoke:
  assumes "\<And>e s'. Q (Inl (ConnCtl e)) (log @ [(cmd, Inl e)], s')"
    "\<And>res s'. gives (f res) Q (log @ [(cmd, Inr res)], s')"
  shows "gives (flow_bind (flow_invoke (logged call) cmd) f) Q (log, s)"
proof -
  obtain r s' where c: "call cmd s = (r, s')" by fastforce
  show ?thesis
  proof (cases r)
    case (Inl e)
    with c assms(1) show ?thesis by (simp add: gives_def flow_bind_def flow_invoke_def logged_def)
  next
    case (Inr res)
    with c assms(2) [of res s'] show ?thesis by (simp add: gives_def flow_bind_def flow_invoke_def logged_def)
  qed
qed

lemma gives_bind_commissioning:
  assumes "\<And>e s'. Q (Inl (ConnCtl e)) (log @ [(cmd, Inl e)], s')"
    "\<And>res e s'. Q (Inl e) (log @ [(cmd, Inr res)], s')"
    "\<And>res s'. commissioning_result res want = Inr () \<Longrightarrow> gives (f ()) Q (log @ [(cmd, Inr res)], s')"
  shows "gives (flow_bind (invokeCommissioning (logged call) cmd want) f) Q (log, s)"
proof -
  obtain r s' where c: "call cmd s = (r, s')" by fastforce
  show ?thesis
  proof (cases r)
    case (Inl e)
    with c assms(1) show ?thesis
      by (simp add: gives_def flow_bind_def flow_invoke_def logged_def invokeCommissioning_def)
  next
    case (Inr res)
    with c assms(2,3) show ?thesis
      by (cases "commissioning_result res want")
        (simp_all add: gives_def flow_bind_def flow_invoke_def flow_of_def logged_def invokeCommissioning_def)
  qed
qed

lemmas gives_rules = gives_bind_of gives_bind_commissioning gives_bind_invoke

text \<open>
  What the answers must be, in terms of the bytes in them. The answer to the fail-safe carries error code
  0, or is a status that is not a failure; a CSR answer proves the key \<open>pub\<close> if it is a CSRResponse whose
  elements return the nonce and hold a request that the signature check gives the key for; the answer to
  AddNOC accepts if it is a NOCResponse with status 0.
\<close>

definition no_failure :: "device_answer \<Rightarrow> bool" where
  "no_failure a \<longleftrightarrow> (\<exists>res. a = Inr res \<and> (\<forall>st. ir_Status res = Some st \<longrightarrow> cs_Status st = 0))"

definition answers_with :: "u32 \<Rightarrow> device_answer \<Rightarrow> bytes \<Rightarrow> bool" where
  "answers_with cmd a b \<longleftrightarrow> (\<exists>res c. a = Inr res \<and> ir_Command res = Some c
     \<and> cp_Command (ic_Path c) = cmd \<and> b = (case ic_Fields c of None \<Rightarrow> [] | Some x \<Rightarrow> x))"

definition armed :: "device_answer \<Rightarrow> bool" where
  "armed a \<longleftrightarrow> (if \<exists>b. answers_with 0x01 a b
     then \<exists>b. answers_with 0x01 a b \<and> DecodeCommissioningError b = Some (Inr 0) else no_failure a)"

definition proves_key :: "(bytes \<Rightarrow> (256 word \<times> 256 word) option) \<Rightarrow> bytes \<Rightarrow> device_answer \<Rightarrow> bytes \<Rightarrow> bool" where
  "proves_key csrKey n a pub \<longleftrightarrow> (\<exists>b csr elems der x y. answers_with 0x05 a b
     \<and> DecodeCSRResponse b = Some (Inr csr) \<and> csr_NOCSRElements csr = Some elems
     \<and> ParseNOCSRElements elems = Some (Inr (der, Some n))
     \<and> csrKey der = Some (x, y) \<and> pub = 0x04 # rev (le_bytes 32 x) @ rev (le_bytes 32 y))"

definition noc_accepted :: "device_answer \<Rightarrow> bool" where
  "noc_accepted a \<longleftrightarrow> (\<exists>b out. answers_with 0x08 a b \<and> DecodeNOCResponse b = Some (Inr out) \<and> noc_Status out = 0)"

text \<open>The four commands, with the endpoint, cluster and command they go to and their fields.\<close>

definition commission_command :: "u32 \<Rightarrow> u32 \<Rightarrow> elem list \<Rightarrow> InvokeCommand" where
  "commission_command cl cmd fs = \<lparr>ic_Path = \<lparr>cp_Endpoint = 0, cp_Cluster = cl, cp_Command = cmd\<rparr>, ic_Fields = Some (encs fs)\<rparr>"

definition plan :: "StoredFabric \<Rightarrow> u16 \<Rightarrow> bytes \<Rightarrow> bytes \<Rightarrow> u64 \<Rightarrow> InvokeCommand list" where
  "plan store vendor csrNonce noc admin =
     [commission_command 0x30 0x00 [ctx_uint 0 60, ctx_uint 1 0],
      commission_command 0x3E 0x04 [Prim (Context 0) (PBytes csrNonce)],
      commission_command 0x3E 0x0B [Prim (Context 0) (PBytes (sf_RCAC store))],
      commission_command 0x3E 0x06 [Prim (Context 0) (PBytes noc), Prim (Context 2) (PBytes (sf_IPK store)),
        ctx_uint 3 admin, ctx_uint 4 (ucast vendor)]]"

definition follows :: "curve \<Rightarrow> (bytes \<Rightarrow> (256 word \<times> 256 word) option) \<Rightarrow> bytes option \<Rightarrow> bytes option \<Rightarrow> nat \<Rightarrow> StoredFabric
    \<Rightarrow> u64 \<Rightarrow> u16 \<Rightarrow> conn_error + unit \<Rightarrow> (InvokeCommand \<times> device_answer) list \<Rightarrow> bool" where
  "follows k csrKey csrNonce serial sigrnd store node vendor r log \<longleftrightarrow>
     (\<exists>n pub noc admin. map fst log = take (length log) (plan store vendor n noc admin)
        \<and> (length log \<ge> 2 \<longrightarrow> armed (snd (log ! 0)) \<and> csrNonce = Some n \<and> length n = 32)
        \<and> (length log \<ge> 3 \<longrightarrow> proves_key csrKey n (snd (log ! 1)) pub
             \<and> IssueNOC k serial sigrnd store pub node = Some (Inr noc))
        \<and> (length log \<ge> 4 \<longrightarrow> no_failure (snd (log ! 2)) \<and> controllerNodeID store = Inr admin)
        \<and> (r = Inr () \<longleftrightarrow> length log = 4 \<and> noc_accepted (snd (log ! 3))))"

text \<open>The code's checks imply what the specification asks of the answers.\<close>

lemma decoded_Inr: "decoded x = Inr a \<longleftrightarrow> x = Some (Inr a)"
  by (cases x) (auto simp: decoded_def map_sum_def split: sum.splits)

lemma answers_with_Inr:
  "answers_with cmd (Inr res) b \<longleftrightarrow> (\<exists>c. answer_of res cmd = Some c \<and> b = cmd_fields c)"
  by (auto simp: answers_with_def answer_of_def cmd_fields_def split: option.splits if_splits)

lemma status_check_ok: "status_check res = Inr () \<longleftrightarrow> no_failure (Inr res)"
  by (auto simp: status_check_def no_failure_def split: option.splits)

lemma commissioning_ok: "commissioning_result res CmdArmFailSafeResponse = Inr () \<longleftrightarrow> armed (Inr res)"
proof (cases "answer_of res CmdArmFailSafeResponse")
  case None
  then show ?thesis by (simp add: commissioning_result_def armed_def answers_with_Inr status_check_ok)
next
  case (Some c)
  then have "commissioning_result res CmdArmFailSafeResponse = Inr () \<longleftrightarrow> decoded (DecodeCommissioningError (cmd_fields c)) = Inr 0"
    by (auto simp: commissioning_result_def split: sum.splits)
  with Some show ?thesis by (simp add: armed_def answers_with_Inr decoded_Inr)
qed

lemma noc_answer_ok: "noc_answer res = Inr () \<longleftrightarrow> noc_accepted (Inr res)"
proof (cases "answer_of res CmdNOCResponse")
  case None
  then show ?thesis by (simp add: noc_answer_def noc_accepted_def answers_with_Inr)
next
  case (Some c)
  then have "noc_answer res = Inr () \<longleftrightarrow> (\<exists>out. decoded (DecodeNOCResponse (cmd_fields c)) = Inr out \<and> noc_Status out = 0)"
    by (auto simp: noc_answer_def split: sum.splits)
  with Some show ?thesis by (simp add: noc_accepted_def answers_with_Inr decoded_Inr)
qed

lemma csr_key_proves:
  assumes "csr_key csrKey n res = Inr pub" "length n = 32"
  shows "proves_key csrKey n (Inr res) pub"
proof -
  obtain c where c: "answer_of res CmdCSRResponse = Some c"
    using assms(1) by (auto simp: csr_key_def split: option.splits)
  then obtain csr where csr: "DecodeCSRResponse (cmd_fields c) = Some (Inr csr)"
    using assms(1) by (auto simp: csr_key_def decoded_Inr [symmetric] split: sum.splits)
  then obtain elems where elems: "csr_NOCSRElements csr = Some elems"
    by (auto simp: DecodeCSRResponse_def split: option.splits sum.splits if_splits)
  have d: "decoded (DecodeCSRResponse (cmd_fields c)) = Inr csr" using csr by (simp add: decoded_Inr)
  obtain der nonce where p: "decoded (ParseNOCSRElements elems) = Inr (der, nonce)"
    using assms(1) c d elems by (auto simp: csr_key_def split: sum.splits)
  then have k: "(case nonce of None \<Rightarrow> [] | Some b \<Rightarrow> b) = n" "publicKeyFromCSR csrKey der = Inr pub"
    using assms(1) c d elems by (auto simp: csr_key_def split: if_splits)
  then have "nonce = Some n" using assms(2) by (cases nonce) auto
  moreover obtain x y where "csrKey der = Some (x, y)" "pub = 0x04 # rev (le_bytes 32 x) @ rev (le_bytes 32 y)"
    using k(2) by (auto simp: publicKeyFromCSR_def split: option.splits)
  moreover have "answers_with 0x05 (Inr res) (cmd_fields c)" using c by (simp add: answers_with_Inr)
  ultimately show ?thesis using csr elems p unfolding proves_key_def decoded_Inr by blast
qed

lemma map_Inr: "map_sum f id x = Inr a \<longleftrightarrow> x = Inr a"
  by (cases x) simp_all

lemma issued_Inr: "issued_noc x = Inr a \<longleftrightarrow> x = Some (Inr a)"
  by (simp add: issued_noc_def map_Inr split: option.splits)

lemma csrNonce_Inr: "(case n of None \<Rightarrow> Inl e | Some b \<Rightarrow> Inr b) = Inr a \<longleftrightarrow> n = Some a"
  by (cases n) simp_all

lemma commands_planned:
  "ArmFailSafe failSafeExpirySeconds = Inr arm \<Longrightarrow> arm = commission_command 0x30 0x00 [ctx_uint 0 60, ctx_uint 1 0]"
  "CSRRequest n = Inr csr \<Longrightarrow> length n = 32 \<and> csr = commission_command 0x3E 0x04 [Prim (Context 0) (PBytes n)]"
  "AddTrustedRootCert rc = Inr root \<Longrightarrow> root = commission_command 0x3E 0x0B [Prim (Context 0) (PBytes rc)]"
  "AddNOC noc ipk admin vendor = Inr add \<Longrightarrow> add = commission_command 0x3E 0x06 [Prim (Context 0) (PBytes noc),
     Prim (Context 2) (PBytes ipk), ctx_uint 3 admin, ctx_uint 4 (ucast vendor)]"
proof -
  show "ArmFailSafe failSafeExpirySeconds = Inr arm \<Longrightarrow> arm = commission_command 0x30 0x00 [ctx_uint 0 60, ctx_uint 1 0]"
    by (simp add: builder_fields commission_command_def bare_command_def)
  show "AddTrustedRootCert rc = Inr root \<Longrightarrow> root = commission_command 0x3E 0x0B [Prim (Context 0) (PBytes rc)]"
    by (simp add: builder_fields commission_command_def bare_command_def)
  show "AddNOC noc ipk admin vendor = Inr add \<Longrightarrow> add = commission_command 0x3E 0x06 [Prim (Context 0) (PBytes noc),
     Prim (Context 2) (PBytes ipk), ctx_uint 3 admin, ctx_uint 4 (ucast vendor)]"
    by (simp add: builder_fields commission_command_def bare_command_def)
  assume csr: "CSRRequest n = Inr csr"
  then have "length n = 32" by (auto simp: CSRRequest_def split: if_splits)
  with csr show "length n = 32 \<and> csr = commission_command 0x3E 0x04 [Prim (Context 0) (PBytes n)]"
    by (simp add: builder_fields commission_command_def bare_command_def)
qed

text \<open>The log after one command, two, three and all four.\<close>

lemma follows_none: "follows k csrKey n serial rnd store node vendor (Inl e) []"
  by (simp add: follows_def)

lemma follows_one:
  "ArmFailSafe failSafeExpirySeconds = Inr arm \<Longrightarrow> follows k csrKey n serial rnd store node vendor (Inl e) [(arm, a)]"
  by (auto simp: follows_def plan_def dest!: commands_planned)

lemma follows_two:
  assumes "ArmFailSafe failSafeExpirySeconds = Inr arm" "armed a1" "n = Some b" "CSRRequest b = Inr csr"
  shows "follows k csrKey n serial rnd store node vendor (Inl e) [(arm, a1), (csr, a2)]"
  using assms unfolding follows_def
  by (intro exI [of _ b]) (auto simp: plan_def dest!: commands_planned)

lemma follows_three:
  assumes "ArmFailSafe failSafeExpirySeconds = Inr arm" "armed a1" "n = Some b" "CSRRequest b = Inr csr"
    "csr_key csrKey b res = Inr pub" "IssueNOC k serial rnd store pub node = Some (Inr noc)"
    "AddTrustedRootCert (sf_RCAC store) = Inr root"
  shows "follows k csrKey n serial rnd store node vendor (Inl e) [(arm, a1), (csr, Inr res), (root, a3)]"
proof -
  have "length b = 32" using commands_planned(2) [OF assms(4)] by simp
  note p = csr_key_proves [OF assms(5) this]
  show ?thesis
    using assms p unfolding follows_def
    by (intro exI [of _ b] exI [of _ pub] exI [of _ noc]) (auto simp: plan_def dest!: commands_planned)
qed

lemma follows_four:
  assumes "ArmFailSafe failSafeExpirySeconds = Inr arm" "armed a1" "n = Some b" "CSRRequest b = Inr csr"
    "csr_key csrKey b res = Inr pub" "IssueNOC k serial rnd store pub node = Some (Inr noc)"
    "AddTrustedRootCert (sf_RCAC store) = Inr root" "no_failure a3" "controllerNodeID store = Inr admin"
    "AddNOC noc (sf_IPK store) admin vendor = Inr add" "r = Inr () \<longleftrightarrow> noc_accepted a4"
  shows "follows k csrKey n serial rnd store node vendor r [(arm, a1), (csr, Inr res), (root, a3), (add, a4)]"
proof -
  have "length b = 32" using commands_planned(2) [OF assms(4)] by simp
  note p = csr_key_proves [OF assms(5) this]
  show ?thesis
    using assms p unfolding follows_def
    by (intro exI [of _ b] exI [of _ pub] exI [of _ noc] exI [of _ admin]) (auto simp: plan_def dest!: commands_planned)
qed

lemma not_accepted: "\<not> noc_accepted (Inl e)"
  by (simp add: noc_accepted_def answers_with_def)

text \<open>C39: Commissioning gives a device the commands of the flow in their order and stops at the first
  answer that is not as it must be. The fail-safe is armed before anything else; the key is asked for with
  a fresh nonce of 32 bytes only when the device has armed it; the root certificate and the node
  certificate are given only to a device whose CSRResponse returned that nonce with a request signed by
  the key, and the node certificate is one that the fabric issued for that key under the new node's
  identifier; the node certificate follows only when the root was not rejected. The flow succeeds exactly
  when all four commands were given and the device answered the last with a NOCResponse of status 0.\<close>

theorem commission_in_order:
  assumes "commission_flow (logged call) k csrKey n serial rnd store node vendor ([], s) = (r, (log, s'))"
  shows "follows k csrKey n serial rnd store node vendor r log"
proof -
  let ?Q = "\<lambda>r st. follows k csrKey n serial rnd store node vendor r (fst st)"
  have "gives (commission_flow (logged call) k csrKey n serial rnd store node vendor) ?Q ([], s)"
    unfolding commission_flow_def
    by (intro gives_rules gives_of;
        simp only: map_Inr issued_Inr csrNonce_Inr append.simps fst_conv commissioning_ok status_check_ok;
        (rule follows_none follows_one follows_two follows_three follows_four; (assumption | simp add: noc_answer_ok not_accepted status_check_ok))?)
  with assms show ?thesis by (simp add: gives_def)
qed

text \<open>A device that answers from a list.\<close>

definition answers :: "InvokeResult list invoker" where
  "answers cmd rs = (case rs of [] \<Rightarrow> (Inl NoResponse, []) | r # rs \<Rightarrow> (Inr r, rs))"

definition example_status :: InvokeResult where
  "example_status = \<lparr>ir_Command = None, ir_Status = Some \<lparr>cs_Path = zeroCommandPath, cs_Status = 0\<rparr>\<rparr>"

definition example_answer :: "u32 \<Rightarrow> bytes \<Rightarrow> InvokeResult" where
  "example_answer c b = \<lparr>ir_Command = Some \<lparr>ic_Path = \<lparr>cp_Endpoint = 0, cp_Cluster = OperationalCredentialsID, cp_Command = c\<rparr>,
     ic_Fields = Some b\<rparr>, ir_Status = None\<rparr>"

definition example_csr :: bytes where
  "example_csr = [0x30, 0x00, 41] @ [0x15, 0x30, 0x01, 0x01, 0xAA, 0x30, 0x02, 32] @ replicate 32 9 @ [0x18]"

lemma example_csr_key:
  "csr_key (\<lambda>_. Some (1, 0)) (replicate 32 9) (example_answer CmdCSRResponse example_csr)
     = Inr (0x04 # rev (le_bytes 32 (1 :: 256 word)) @ replicate 32 0)"
  by code_simp

lemma example_noc_answer: "noc_answer (example_answer CmdNOCResponse [0x24, 0x00, 0x00, 0x24, 0x01, 0x01]) = Inr ()"
  by code_simp

lemma example_status_ok: "commissioning_result example_status w = Inr ()" "status_check example_status = Inr ()"
  by (simp_all add: commissioning_result_def answer_of_def status_check_def example_status_def)

theorem commission_in_order_witness:
  "\<exists>store log s'. commission_flow (logged answers) example_curve (\<lambda>_. Some (1, 0)) (Some (replicate 32 9))
      (Some (replicate 8 7)) 2 store 7 0xFFF1 ([], [example_status, example_answer CmdCSRResponse example_csr, example_status,
        example_answer CmdNOCResponse [0x24, 0x00, 0x00, 0x24, 0x01, 0x01]]) = (Inr (), (log, s'))
    \<and> follows example_curve (\<lambda>_. Some (1, 0)) (Some (replicate 32 9)) (Some (replicate 8 7)) 2 store 7 0xFFF1 (Inr ()) log
    \<and> length log = 4"
proof -
  let ?pub = "0x04 # rev (le_bytes 32 (1 :: 256 word)) @ replicate 32 0"
  let ?d = "\<lparr>dr_rootKey = Some (replicate 32 1), dr_rootID = Some (replicate 8 2), dr_now = 1700000000,
    dr_serial = Some (replicate 8 3), dr_rootSig = 0, dr_ctrlKey = Some (replicate 32 4), dr_IPK = Some (replicate 16 5),
    dr_nocSerial = Some (replicate 8 6), dr_nocSig = 1\<rparr>"
  have k: "keypair example_curve (replicate 32 x, 0x04 # replicate 32 x @ replicate 32 0)" for x
    by (simp add: keypair_def example_curve_def)
  have kd: "keypair example_curve (rev (le_bytes 32 (1 :: 256 word)), ?pub)"
    by (simp add: keypair_def example_curve_def)
  have "draws_ok example_curve ?d" using k [of 1] k [of 4] by (auto simp: draws_ok_def)
  from fabric_made [OF example_fabric_lib this, of 9 5 "replicate 8 7" "rev (le_bytes 32 (1 :: 256 word))" ?pub 2 7] kd
  obtain store f noc where st: "member example_curve f (StoredFabric_Identity store) 5"
    "IssueNOC example_curve (Some (replicate 8 7)) 2 store ?pub 7 = Some (Inr noc)"
    by auto
  then have admin: "controllerNodeID store = Inr 5"
    by (auto simp: member_def StoredFabric_Identity_def controllerNodeID_def decoded_def)
  let ?s = "[example_status, example_answer CmdCSRResponse example_csr, example_status,
    example_answer CmdNOCResponse [0x24, 0x00, 0x00, 0x24, 0x01, 0x01]]"
  have "\<exists>log s'. commission_flow (logged answers) example_curve (\<lambda>_. Some (1, 0)) (Some (replicate 32 9))
      (Some (replicate 8 7)) 2 store 7 0xFFF1 ([], ?s) = (Inr (), (log, s'))"
    using st(2) admin example_csr_key example_noc_answer example_status_ok
    by (simp add: commission_flow_def flow_bind_def flow_of_def flow_invoke_def invokeCommissioning_def logged_def answers_def
        builder_fields issued_noc_def)
  then obtain log s' where r: "commission_flow (logged answers) example_curve (\<lambda>_. Some (1, 0)) (Some (replicate 32 9))
      (Some (replicate 8 7)) 2 store 7 0xFFF1 ([], ?s) = (Inr (), (log, s'))" by blast
  from commission_in_order [OF r] have "follows example_curve (\<lambda>_. Some (1, 0)) (Some (replicate 32 9)) (Some (replicate 8 7)) 2
      store 7 0xFFF1 (Inr ()) log" .
  moreover from this have "length log = 4" unfolding follows_def by blast
  ultimately show ?thesis using r by blast
qed

section \<open>A report of success in place of an answer\<close>

lemma ask_first:
  assumes "\<not> failing n (length (sent n))" "ticks n = t # ts" "\<not> ctx_before t" "arrival t = Inr frame"
    and "parseUnsecuredMsg frame = Inr (hdr, ph, payload)" "\<not> isStandaloneAck ph"
  shows "ask f {} n = (Inr (hdr, ph, payload), {h_Counter hdr}, n\<lparr>ticks := ts, sent := sent n @ [f]\<rparr>)"
  using assms
  by (simp add: ask_def Net_Send_def awaitSC_def this_tick_def past_tick_def await_step_def await_loop.simps [of 0])

lemma status_success:
  "StatusReport_IsSuccess sr \<Longrightarrow> statusReportError (StatusReport_Encode sr @ rest) = None"
  by (simp add: statusReportError_def DecodeStatusReport_Encode)

lemma Sigma1_made:
  assumes "fabric_ok f" "NewCaseInitiator f self peer sid = Inr i" "length ri = 32"
  shows "\<exists>s1 i'. Initiator_Sigma1 k (Some ri) (Some eph) i = (Inr s1, i')"
  using assms by (auto simp: fabric_ok_def NewCaseInitiator_def Initiator_Sigma1_def GenerateDestinationID_def
      Sigma1_Encode_elem Let_def simp del: enc.simps)

lemma ParamRequest_made: "\<exists>req i'. ParamRequest (Some r) i = (Inr req, i')"
  by (simp add: ParamRequest_def encodeParamRequest_elem del: enc.simps)

text \<open>C40: Whoever can answer the first message of a handshake can make the controller go on without a
  session: when the first datagram that arrives is an unsecured report of success, \<^verbatim>\<open>Connect\<close> returns
  no session and no error, and \<^verbatim>\<open>Commission\<close> goes on with a session that is nil, where the code
  panics. Nothing in the datagram is authenticated, neither its exchange nor its counter.\<close>

theorem success_without_session:
  fixes c :: "'p suite"
  assumes "\<not> failing n (length (sent n))" "ticks n = t # ts" "\<not> ctx_before t" "arrival t = Inr frame"
    and "parseUnsecuredMsg frame = Inr (hdr, ph, StatusReport_Encode sr @ rest)" "p_Opcode ph = SCStatusReport"
      "StatusReport_IsSuccess sr"
    and "fabric_ok (co_fabric ctl)" "length ri = 32" "sf_RootKey store \<noteq> []"
  shows "(\<exists>n'. fst (Connect k (Some ri) (Some eph) sigrnd peer ctl n) = Some (Inr None, n'))
    \<and> (\<exists>n'. Commission c k csrKey (Some rp) draws csrNonce serial sigrnd passcode store node vendor n = Some (Inl NilSession, n'))"
proof -
  have "\<not> isStandaloneAck ph" using assms(6) by (simp add: isStandaloneAck_def)
  then have a: "ask f {} n = (Inr (hdr, ph, StatusReport_Encode sr @ rest), {h_Counter hdr}, n\<lparr>ticks := ts, sent := sent n @ [f]\<rparr>)" for f
    by (rule ask_first [OF assms(1-5)])
  obtain i where i: "NewCaseInitiator (co_fabric ctl) (co_self ctl) peer (co_nextSession ctl) = Inr i"
    using assms(8) by (auto simp: fabric_ok_def NewCaseInitiator_def)
  from Sigma1_made [OF assms(8) i assms(9)]
  obtain s1 i' where s1: "Initiator_Sigma1 k (Some ri) (Some eph) i = (Inr s1, i')" by blast
  from ParamRequest_made obtain req and j :: "'p Initiator"
    where rq: "ParamRequest (Some rp) (NewInitiator passcode paseSessionID) = (Inr req, j)"
    by blast
  show ?thesis
    using i s1 rq assms(6,10)
    by (simp add: Connect_def nextIDs_def case_handshake_def Commission_def paseHandshake_def a status_success [OF assms(7)])
qed

text \<open>The forged datagram is 28 bytes that anyone can send.\<close>

definition forged :: bytes where
  "forged = frameUnsecuredAck 0 0 False SCStatusReport
     (StatusReport_Encode \<lparr>sr_GeneralCode = 0, sr_ProtocolID = 0, sr_ProtocolCode = 0\<rparr>) 0 False"

definition one_tick :: "bytes \<Rightarrow> Net" where
  "one_tick b = \<lparr>ticks = [\<lparr>ctx_before = False, arrival = Inr b, ctx_after = False\<rparr>], failing = (\<lambda>_. False), sent = []\<rparr>"

definition example_store :: StoredFabric where
  "example_store = \<lparr>sf_FabricID = 9, sf_IPK = [], sf_RootPublicKey = [], sf_RCAC = [], sf_ControllerNOC = [],
     sf_ControllerKey = [], sf_RootKey = [1]\<rparr>"

theorem success_without_session_witness:
  "\<exists>n' n''. fst (Connect example_curve (Some (replicate 32 3)) (Some ([], [])) 0 7
      (NewController example_fabric (example_identity 5 1))
      (one_tick forged))
        = Some (Inr None, n')
    \<and> Commission example_suite example_curve (\<lambda>_. None) (Some []) (\<lambda>_. None) None None 0 20202021
      example_store 7 0xFFF1
      (one_tick forged)
        = Some (Inl NilSession, n'')"
proof -
  obtain hdr ph where "parseUnsecuredMsg forged = Inr (hdr, ph,
      StatusReport_Encode \<lparr>sr_GeneralCode = 0, sr_ProtocolID = 0, sr_ProtocolCode = 0\<rparr> @ [])"
    "p_Opcode ph = SCStatusReport"
    using parse_frame [of False 0 0 0 False SCStatusReport
        "StatusReport_Encode \<lparr>sr_GeneralCode = 0, sr_ProtocolID = 0, sr_ProtocolCode = 0\<rparr>"]
    unfolding forged_def by auto
  moreover have "fabric_ok (co_fabric (NewController example_fabric (example_identity 5 1)))"
    by (simp add: NewController_def fabric_ok_def example_fabric_def example_root_def)
  ultimately show ?thesis
    using success_without_session [where ?n = "one_tick forged" and ctl = "NewController example_fabric (example_identity 5 1)"
      and ri = "replicate 32 3" and store = example_store and k = example_curve and eph = "([], [])" and sigrnd = 0
      and peer = 7 and c = example_suite and csrKey = "\<lambda>_. None" and rp = "[]" and draws = "\<lambda>_. None"
      and csrNonce = None and serial = None and passcode = 20202021 and node = 7 and vendor = "0xFFF1"
      and frame = forged and hdr = hdr and ph = ph and rest = "[]"
      and sr = "\<lparr>sr_GeneralCode = 0, sr_ProtocolID = 0, sr_ProtocolCode = 0\<rparr>"]
    by (simp add: StatusReport_IsSuccess_def one_tick_def example_store_def)
qed

end
