(* ===== verification/Login.thy ===== *)
theory Login
  imports Dates
begin

text \<open>
  Accounts of the planner: the throttle of login attempts (\<^verbatim>\<open>planner/internal/store/login.go\<close>), users and
  sessions (\<^verbatim>\<open>store/users.go\<close>, \<^verbatim>\<open>internal/auth/auth.go\<close>) and the handlers that rest on them
  (\<^verbatim>\<open>internal/api/auth_handlers.go\<close>, \<^verbatim>\<open>bcryptlimit.go\<close>). The tables are maps and lists; every statement
  succeeds, but for the look-up whose failure the code answers itself. Times are seconds.
\<close>

section \<open>The table of attempts\<close>

record Attempt =
  at_fails :: nat
  at_windowStart :: int
  at_windowCount :: nat
  at_lockedUntil :: int

type_synonym Attempts = "bytes \<rightharpoonup> Attempt"

definition lockSteps :: "int list" where
  "lockSteps = [60, 5 * 60, 15 * 60, 60 * 60]"

abbreviation accountThreshold :: nat where "accountThreshold \<equiv> 5"
abbreviation ipWindow :: int where "ipWindow \<equiv> 15 * 60"
abbreviation ipMax :: nat where "ipMax \<equiv> 20"
abbreviation unknownThreshold :: nat where "unknownThreshold \<equiv> 3"
abbreviation unknownLock :: int where "unknownLock \<equiv> 60 * 60"

definition user_key :: "bytes \<Rightarrow> bytes" where "user_key account = ascii ''user:'' @ account"
definition ip_key :: "bytes \<Rightarrow> bytes" where "ip_key ip = ascii ''ip:'' @ ip"

definition isIPKey :: "bytes \<Rightarrow> bool" where
  "isIPKey k \<longleftrightarrow> length k > 3 \<and> take 3 k = ascii ''ip:''"

definition keysFor :: "bytes \<Rightarrow> bytes \<Rightarrow> bytes list" where
  "keysFor account ip = (if account \<noteq> [] then [user_key account] else []) @ (if ip \<noteq> [] then [ip_key ip] else [])"

record LoginGate =
  lg_Allowed :: bool
  lg_Retry :: int

fun gate_of :: "Attempts \<Rightarrow> int \<Rightarrow> bytes list \<Rightarrow> LoginGate" where
  "gate_of t now [] = \<lparr>lg_Allowed = True, lg_Retry = 0\<rparr>"
| "gate_of t now (key # keys) =
     (case t key of
        None \<Rightarrow> gate_of t now keys
      | Some r \<Rightarrow>
          if at_lockedUntil r > now then \<lparr>lg_Allowed = False, lg_Retry = at_lockedUntil r - now\<rparr>
          else if isIPKey key \<and> now - at_windowStart r < ipWindow \<and> at_windowCount r \<ge> ipMax then
            \<lparr>lg_Allowed = False, lg_Retry = ipWindow - (now - at_windowStart r)\<rparr>
          else gate_of t now keys)"

definition CheckLogin :: "Attempts \<Rightarrow> bytes \<Rightarrow> bytes \<Rightarrow> int \<Rightarrow> LoginGate" where
  "CheckLogin t account ip now = gate_of t now (keysFor account ip)"

datatype AttemptOutcome = AttemptSuccess | AttemptWrongPass | AttemptUnknownUser

definition bumpWindow :: "Attempts \<Rightarrow> bytes \<Rightarrow> int \<Rightarrow> Attempts" where
  "bumpWindow t key now =
     (let (start, count) =
        (case t key of
           None \<Rightarrow> (now, 0)
         | Some r \<Rightarrow> if now - at_windowStart r \<ge> ipWindow then (now, 0) else (at_windowStart r, at_windowCount r)) in
      t(key \<mapsto>
        (case t key of
           None \<Rightarrow> \<lparr>at_fails = 0, at_windowStart = start, at_windowCount = count + 1, at_lockedUntil = 0\<rparr>
         | Some r \<Rightarrow> r\<lparr>at_windowStart := start, at_windowCount := count + 1\<rparr>)))"

definition bumpUnknown :: "Attempts \<Rightarrow> bytes \<Rightarrow> int \<Rightarrow> Attempts" where
  "bumpUnknown t key now =
     (let fails = (case t key of None \<Rightarrow> 0 | Some r \<Rightarrow> at_fails r) + 1;
          lockedUntil = (if fails \<ge> unknownThreshold then now + unknownLock else 0) in
      case t key of
        None \<Rightarrow> t
      | Some r \<Rightarrow> t(key \<mapsto> r\<lparr>at_fails := fails, at_lockedUntil := lockedUntil\<rparr>))"

definition lock_until :: "nat \<Rightarrow> int \<Rightarrow> int" where
  "lock_until fails now =
     (if fails \<ge> accountThreshold then now + lockSteps ! min (fails - accountThreshold) (length lockSteps - 1) else 0)"

definition account_fail :: "Attempts \<Rightarrow> bytes \<Rightarrow> int \<Rightarrow> Attempts" where
  "account_fail t key now =
     (let fails = (case t key of None \<Rightarrow> 0 | Some r \<Rightarrow> at_fails r) + 1 in
      t(key \<mapsto>
        (case t key of
           None \<Rightarrow> \<lparr>at_fails = fails, at_windowStart = now, at_windowCount = 0, at_lockedUntil = lock_until fails now\<rparr>
         | Some r \<Rightarrow> r\<lparr>at_fails := fails, at_lockedUntil := lock_until fails now\<rparr>)))"

definition RecordAttempt :: "Attempts \<Rightarrow> bytes \<Rightarrow> bytes \<Rightarrow> AttemptOutcome \<Rightarrow> int \<Rightarrow> Attempts" where
  "RecordAttempt t account ip outcome now =
     (let t = (if ip \<noteq> [] then
                 let t = bumpWindow t (ip_key ip) now in
                 if outcome = AttemptUnknownUser then bumpUnknown t (ip_key ip) now else t
               else t) in
      if account \<noteq> [] then
        if outcome = AttemptSuccess then t(user_key account := None) else account_fail t (user_key account) now
      else t)"

definition PurgeLoginAttempts :: "Attempts \<Rightarrow> int \<Rightarrow> Attempts" where
  "PurgeLoginAttempts t now = (\<lambda>key. case t key of
     None \<Rightarrow> None
   | Some r \<Rightarrow> if at_lockedUntil r \<le> now \<and> at_windowStart r < now - ipWindow then None else Some r)"

section \<open>Users\<close>

record UserRow =
  ur_ID :: int
  ur_Name :: bytes
  ur_Hash :: bytes
  ur_BirthDate :: "bytes option"
  ur_CreatedAt :: int

record User =
  us_ID :: int
  us_Name :: bytes
  us_BirthDate :: "bytes option"
  us_CreatedAt :: int

text \<open>A session is the user and the time it expires.\<close>

record Db =
  db_users :: "UserRow list"
  db_sessions :: "bytes \<rightharpoonup> int \<times> int"
  db_attempts :: Attempts

text \<open>\<^verbatim>\<open>golang.org/x/crypto/bcrypt\<close> is a parameter; the salt of a call is part of it.\<close>

record bcrypt =
  Generate :: "bytes \<Rightarrow> bytes option"
  Compare :: "bytes \<Rightarrow> bytes \<Rightarrow> bool"

datatype user_error = EmptyName | ShortPassword | HashFailed | Conflict | NotFound | Referenced | BadBirthDate
  | TokenFailed | SessionRefused

abbreviation MinPasswordLen :: nat where "MinPasswordLen \<equiv> 8"

definition row_by_name :: "Db \<Rightarrow> bytes \<Rightarrow> UserRow option" where
  "row_by_name db name = find (\<lambda>r. ur_Name r = name) (db_users db)"

definition row_by_id :: "Db \<Rightarrow> int \<Rightarrow> UserRow option" where
  "row_by_id db i = find (\<lambda>r. ur_ID r = i) (db_users db)"

definition CreateUser :: "bcrypt \<Rightarrow> int \<Rightarrow> bytes \<Rightarrow> bytes \<Rightarrow> Db \<Rightarrow> (user_error + User) \<times> Db" where
  "CreateUser c now name password db =
     (let name = TrimSpace name in
      if name = [] then (Inl EmptyName, db)
      else if length password < MinPasswordLen then (Inl ShortPassword, db)
      else case Generate c password of
        None \<Rightarrow> (Inl HashFailed, db)
      | Some hash \<Rightarrow>
          if row_by_name db name \<noteq> None then (Inl Conflict, db)
          else let i = fold max (List.map ur_ID (db_users db)) 0 + 1 in
            (Inr \<lparr>us_ID = i, us_Name = name, us_BirthDate = None, us_CreatedAt = now\<rparr>,
             db\<lparr>db_users := db_users db @ [\<lparr>ur_ID = i, ur_Name = name, ur_Hash = hash, ur_BirthDate = None,
               ur_CreatedAt = now\<rparr>]\<rparr>))"

definition SetPassword :: "bcrypt \<Rightarrow> bytes \<Rightarrow> bytes \<Rightarrow> Db \<Rightarrow> user_error option \<times> Db" where
  "SetPassword c name password db =
     (if length password < MinPasswordLen then (Some ShortPassword, db)
      else case Generate c password of
        None \<Rightarrow> (Some HashFailed, db)
      | Some hash \<Rightarrow>
          if row_by_name db name = None then (Some NotFound, db)
          else (None, db\<lparr>db_users := List.map (\<lambda>r. if ur_Name r = name then r\<lparr>ur_Hash := hash\<rparr> else r) (db_users db)\<rparr>))"

definition drop_sessions :: "int \<Rightarrow> (bytes \<rightharpoonup> int \<times> int) \<Rightarrow> (bytes \<rightharpoonup> int \<times> int)" where
  "drop_sessions i ss = (\<lambda>k. case ss k of None \<Rightarrow> None | Some (u, e) \<Rightarrow> if u = i then None else Some (u, e))"

text \<open>\<open>referenced\<close>: other tables have rows the user created; sessions go with their user.\<close>

definition DeleteUser :: "(int \<Rightarrow> bool) \<Rightarrow> bytes \<Rightarrow> Db \<Rightarrow> user_error option \<times> Db" where
  "DeleteUser referenced name db =
     (case row_by_name db name of
        None \<Rightarrow> (Some NotFound, db)
      | Some r \<Rightarrow>
          if referenced (ur_ID r) then (Some Referenced, db)
          else (None, db\<lparr>db_users := filter (\<lambda>x. ur_Name x \<noteq> name) (db_users db),
            db_sessions := drop_sessions (ur_ID r) (db_sessions db)\<rparr>))"

text \<open>A look-up that fails is answered with false.\<close>

definition UserExists :: "bool \<Rightarrow> bytes \<Rightarrow> Db \<Rightarrow> bool" where
  "UserExists works name db \<longleftrightarrow> works \<and> row_by_name db (TrimSpace name) \<noteq> None"

definition SetPasswordByID :: "bcrypt \<Rightarrow> int \<Rightarrow> bytes \<Rightarrow> Db \<Rightarrow> (user_error + User) \<times> Db" where
  "SetPasswordByID c i password db =
     (if length password < MinPasswordLen then (Inl ShortPassword, db)
      else case Generate c password of
        None \<Rightarrow> (Inl HashFailed, db)
      | Some hash \<Rightarrow>
          (case row_by_id db i of
             None \<Rightarrow> (Inl NotFound, db)
           | Some r \<Rightarrow>
               (Inr \<lparr>us_ID = ur_ID r, us_Name = ur_Name r, us_BirthDate = None, us_CreatedAt = ur_CreatedAt r\<rparr>,
                db\<lparr>db_users := List.map (\<lambda>x. if ur_ID x = i then x\<lparr>ur_Hash := hash\<rparr> else x) (db_users db),
                  db_sessions := drop_sessions i (db_sessions db),
                  db_attempts := (db_attempts db)(user_key (ur_Name r) := None)\<rparr>)))"

definition Authenticate :: "bcrypt \<Rightarrow> bytes \<Rightarrow> bytes \<Rightarrow> Db \<Rightarrow> User option" where
  "Authenticate c name password db =
     (case row_by_name db (TrimSpace name) of
        None \<Rightarrow> None
      | Some r \<Rightarrow>
          if \<not> Compare c (ur_Hash r) password then None
          else Some \<lparr>us_ID = ur_ID r, us_Name = ur_Name r, us_BirthDate = None, us_CreatedAt = ur_CreatedAt r\<rparr>)"

definition SetBirthDate :: "int \<Rightarrow> bytes \<Rightarrow> Db \<Rightarrow> (user_error + User) \<times> Db" where
  "SetBirthDate i date db =
     (let date = TrimSpace date in
      if date \<noteq> [] \<and> Parse_date date = None then (Inl BadBirthDate, db)
      else let v = (if date \<noteq> [] then Some date else None) in
        case row_by_id db i of
          None \<Rightarrow> (Inl NotFound, db)
        | Some r \<Rightarrow>
            (Inr \<lparr>us_ID = ur_ID r, us_Name = ur_Name r, us_BirthDate = v, us_CreatedAt = ur_CreatedAt r\<rparr>,
             db\<lparr>db_users := List.map (\<lambda>x. if ur_ID x = i then x\<lparr>ur_BirthDate := v\<rparr> else x) (db_users db)\<rparr>))"

section \<open>Sessions\<close>

abbreviation SessionTTL :: int where "SessionTTL \<equiv> 30 * 24 * 60 * 60"

definition hex_byte :: "byte \<Rightarrow> bytes" where
  "hex_byte b = List.map (\<lambda>d. if d < 10 then 0x30 + d else 0x61 + (d - 10)) [drop_bit 4 b, take_bit 4 b]"

definition NewToken :: "bytes option \<Rightarrow> bytes option" where
  "NewToken rnd = map_option (\<lambda>b. concat (List.map hex_byte b)) rnd"

text \<open>The token is the primary key and the user a foreign one.\<close>

definition CreateSession :: "bytes option \<Rightarrow> int \<Rightarrow> int \<Rightarrow> Db \<Rightarrow> (user_error + bytes) \<times> Db" where
  "CreateSession rnd now userID db =
     (case NewToken rnd of
        None \<Rightarrow> (Inl TokenFailed, db)
      | Some token \<Rightarrow>
          if db_sessions db token \<noteq> None \<or> row_by_id db userID = None then (Inl SessionRefused, db)
          else (Inr token, db\<lparr>db_sessions := (db_sessions db)(token \<mapsto> (userID, now + SessionTTL))\<rparr>))"

definition DeleteSession :: "bytes \<Rightarrow> Db \<Rightarrow> Db" where
  "DeleteSession token db = db\<lparr>db_sessions := (db_sessions db)(token := None)\<rparr>"

definition UserBySession :: "bytes \<Rightarrow> int \<Rightarrow> Db \<Rightarrow> (int \<times> bytes) option" where
  "UserBySession token now db =
     (case db_sessions db token of
        None \<Rightarrow> None
      | Some (u, expires) \<Rightarrow>
          if expires > now then map_option (\<lambda>r. (ur_ID r, ur_Name r)) (row_by_id db u) else None)"

definition PurgeExpiredSessions :: "int \<Rightarrow> Db \<Rightarrow> Db" where
  "PurgeExpiredSessions now db = db\<lparr>db_sessions := (\<lambda>k. case db_sessions db k of
     None \<Rightarrow> None | Some (u, e) \<Rightarrow> if e \<le> now then None else Some (u, e))\<rparr>"

text \<open>The handler behind the middleware gets the user of the cookie, or the request is refused.\<close>

definition Middleware :: "bytes option \<Rightarrow> int \<Rightarrow> Db \<Rightarrow> (int \<times> bytes) option" where
  "Middleware cookie now db =
     (case cookie of None \<Rightarrow> None | Some v \<Rightarrow> if v = [] then None else UserBySession v now db)"

section \<open>The handlers\<close>

datatype reply = TooMany int | Unauthorized | SessionFailed | Welcome bytes User | Forbidden
  | SetFailed user_error | PasswordSet "bytes option"

definition record_outcome :: "bytes \<Rightarrow> bytes \<Rightarrow> AttemptOutcome \<Rightarrow> int \<Rightarrow> Db \<Rightarrow> Db" where
  "record_outcome account ip outcome now db = db\<lparr>db_attempts := RecordAttempt (db_attempts db) account ip outcome now\<rparr>"

definition loginLocked :: "bcrypt \<Rightarrow> bool \<Rightarrow> bytes option \<Rightarrow> int \<Rightarrow> int \<Rightarrow> bytes \<Rightarrow> bytes \<Rightarrow> bytes \<Rightarrow> Db \<Rightarrow> reply \<times> Db" where
  "loginLocked c works rnd now later ip name password db =
     (let gate = CheckLogin (db_attempts db) name ip now; u = Authenticate c name password db in
      if \<not> lg_Allowed gate then (TooMany (lg_Retry gate), db)
      else
        let outcome = (if u \<noteq> None then AttemptSuccess
          else if \<not> UserExists works name db then AttemptUnknownUser else AttemptWrongPass);
          db = record_outcome name ip outcome now db in
        case u of
          None \<Rightarrow> (Unauthorized, db)
        | Some u \<Rightarrow>
            (case CreateSession rnd later (us_ID u) db of
               (Inl _, db) \<Rightarrow> (SessionFailed, db)
             | (Inr token, db) \<Rightarrow> (Welcome token u, db)))"

definition setPasswordLocked :: "bcrypt \<Rightarrow> bytes option \<Rightarrow> int \<Rightarrow> int \<Rightarrow> bytes \<Rightarrow> int \<times> bytes \<Rightarrow> int \<Rightarrow> bytes \<Rightarrow> bytes \<Rightarrow> Db \<Rightarrow> reply \<times> Db" where
  "setPasswordLocked c rnd now later ip actor targetID current new db =
     (let gate = CheckLogin (db_attempts db) (snd actor) ip now; verified = Authenticate c (snd actor) current db \<noteq> None in
      if \<not> lg_Allowed gate then (TooMany (lg_Retry gate), db)
      else
        let db = record_outcome (snd actor) ip (if verified then AttemptSuccess else AttemptWrongPass) now db in
        if \<not> verified then (Forbidden, db)
        else case SetPasswordByID c targetID new db of
          (Inl e, db) \<Rightarrow> (SetFailed e, db)
        | (Inr target, db) \<Rightarrow>
            if us_ID target = fst actor then
              (case CreateSession rnd later (fst actor) db of
                 (Inl _, db) \<Rightarrow> (SessionFailed, db)
               | (Inr token, db) \<Rightarrow> (PasswordSet (Some token), db))
            else (PasswordSet None, db))"

definition logout :: "bytes option \<Rightarrow> Db \<Rightarrow> Db" where
  "logout cookie db = (case cookie of None \<Rightarrow> db | Some v \<Rightarrow> if v \<noteq> [] then DeleteSession v db else db)"

text \<open>What the handler writes, in order; a request that gets no slot is answered twice.\<close>

datatype answer = Busy | Created User | ConflictName | BadRequest user_error

definition zeroUser :: User where
  "zeroUser = \<lparr>us_ID = 0, us_Name = [], us_BirthDate = None, us_CreatedAt = 0\<rparr>"

definition createUser :: "bcrypt \<Rightarrow> bool \<Rightarrow> int \<Rightarrow> bytes \<Rightarrow> bytes \<Rightarrow> Db \<Rightarrow> answer list \<times> Db" where
  "createUser c acquired now name password db =
     (if acquired then
        (case CreateUser c now name password db of
           (Inl Conflict, db) \<Rightarrow> ([ConflictName], db)
         | (Inl e, db) \<Rightarrow> ([BadRequest e], db)
         | (Inr u, db) \<Rightarrow> ([Created u], db))
      else ([Busy, Created zeroUser], db))"

datatype duration_text = Shortly | Minutes int | Hours int

definition humanDuration :: "int \<Rightarrow> duration_text" where
  "humanDuration sec =
     (if sec \<le> 0 then Shortly
      else let m = (sec + 59) div 60 in if m < 60 then Minutes m else Hours ((m + 59) div 60))"

section \<open>Requests side by side\<close>

text \<open>
  A slot of \<^verbatim>\<open>bcryptlimit.go\<close> is held from before the attempt is checked until it is answered. The request
  that holds it is checked, then compares the password, which takes a second, then is recorded; steps of
  other requests, the hourly purge and the unlocking by a new password come between. The outcome and the
  clock of each request are any. \<open>Working\<close> is a slot held for creating a user.
\<close>

abbreviation bcryptSlots :: nat where "bcryptSlots \<equiv> 2"

record Pending =
  pd_account :: bytes
  pd_ip :: bytes
  pd_now :: int

datatype slot = Checked Pending | Answered | Working

inductive throttle :: "Attempts \<times> slot list \<Rightarrow> Attempts \<times> slot list \<Rightarrow> bool" where
  check_open: "length ss < bcryptSlots \<Longrightarrow> lg_Allowed (CheckLogin t (pd_account p) (pd_ip p) (pd_now p)) \<Longrightarrow>
    throttle (t, ss) (t, Checked p # ss)"
| check_shut: "length ss < bcryptSlots \<Longrightarrow> \<not> lg_Allowed (CheckLogin t account ip now) \<Longrightarrow>
    throttle (t, ss) (t, Answered # ss)"
| record_it: "throttle (t, l @ Checked p # r) (RecordAttempt t (pd_account p) (pd_ip p) outcome (pd_now p), l @ Answered # r)"
| work: "length ss < bcryptSlots \<Longrightarrow> throttle (t, ss) (t, Working # ss)"
| release: "x = Answered \<or> x = Working \<Longrightarrow> throttle (t, l @ x # r) (t, l @ r)"
| purge: "throttle (t, ss) (PurgeLoginAttempts t now, ss)"
| unlock: "throttle (t, ss) (t(user_key name := None), ss)"

inductive throttled :: "Attempts \<times> slot list \<Rightarrow> bool" where
  start: "throttled (\<lambda>_. None, [])"
| step: "throttled s \<Longrightarrow> throttle s s' \<Longrightarrow> throttled s'"

end
