(* ===== verification/Login_Properties.thy ===== *)
theory Login_Properties
  imports Login
begin

text \<open>
  What the throttle guarantees and what it does not, and the well-formedness of users and sessions.
\<close>

section \<open>Rows after an attempt\<close>

lemma keys_apart [simp]:
  "user_key a \<noteq> ip_key b" "ip_key b \<noteq> user_key a" "user_key a = user_key b \<longleftrightarrow> a = b" "ip_key a = ip_key b \<longleftrightarrow> a = b"
  by (simp_all add: user_key_def ip_key_def)

lemma isIPKey_keys [simp]: "\<not> isIPKey (user_key a)" "isIPKey (ip_key b) \<longleftrightarrow> b \<noteq> []"
  by (simp_all add: isIPKey_def user_key_def ip_key_def)

lemma record_user_row:
  "RecordAttempt t account ip outcome now (user_key a) =
     (if account = a \<and> a \<noteq> [] then
        if outcome = AttemptSuccess then None
        else (case t (user_key a) of
           None \<Rightarrow> Some \<lparr>at_fails = 1, at_windowStart = now, at_windowCount = 0, at_lockedUntil = lock_until 1 now\<rparr>
         | Some r \<Rightarrow> Some (r\<lparr>at_fails := at_fails r + 1, at_lockedUntil := lock_until (at_fails r + 1) now\<rparr>))
      else t (user_key a))"
  by (auto simp: RecordAttempt_def bumpWindow_def bumpUnknown_def account_fail_def Let_def split: option.splits prod.splits)

definition window_after :: "Attempt option \<Rightarrow> int \<Rightarrow> int \<times> nat" where
  "window_after row now = (case row of
     None \<Rightarrow> (now, 1)
   | Some r \<Rightarrow> if now - at_windowStart r \<ge> ipWindow then (now, 1) else (at_windowStart r, at_windowCount r + 1))"

lemma record_ip_other:
  "ip \<noteq> ip' \<or> ip = [] \<Longrightarrow> RecordAttempt t account ip outcome now (ip_key ip') = t (ip_key ip')"
  by (auto simp: RecordAttempt_def bumpWindow_def bumpUnknown_def account_fail_def Let_def split: option.splits prod.splits)

lemma record_ip_row:
  assumes "ip \<noteq> []"
  obtains r where "RecordAttempt t account ip outcome now (ip_key ip) = Some r"
    and "(at_windowStart r, at_windowCount r) = window_after (t (ip_key ip)) now"
    and "outcome \<noteq> AttemptUnknownUser \<Longrightarrow> at_lockedUntil r = (case t (ip_key ip) of None \<Rightarrow> 0 | Some r \<Rightarrow> at_lockedUntil r)"
proof -
  have "\<exists>r. RecordAttempt t account ip outcome now (ip_key ip) = Some r
    \<and> (at_windowStart r, at_windowCount r) = window_after (t (ip_key ip)) now
    \<and> (outcome \<noteq> AttemptUnknownUser \<longrightarrow> at_lockedUntil r = (case t (ip_key ip) of None \<Rightarrow> 0 | Some r \<Rightarrow> at_lockedUntil r))"
    using assms by (auto simp: RecordAttempt_def bumpWindow_def bumpUnknown_def account_fail_def window_after_def Let_def
        split: option.splits)
  then show ?thesis using that by blast
qed

section \<open>The window of an address\<close>

definition open_in :: "Attempt \<Rightarrow> bytes \<Rightarrow> slot \<Rightarrow> bool" where
  "open_in r ip x = (case x of Checked p \<Rightarrow> pd_ip p = ip \<and> pd_now p - at_windowStart r < ipWindow | _ \<Rightarrow> False)"

definition window_ok :: "Attempts \<Rightarrow> slot list \<Rightarrow> bytes \<Rightarrow> bool" where
  "window_ok t ss ip \<longleftrightarrow> (case t (ip_key ip) of None \<Rightarrow> True
     | Some r \<Rightarrow> ip \<noteq> [] \<and> at_windowCount r + length (filter (open_in r ip) ss) \<le> ipMax + bcryptSlots - 1)"

lemma filter_le: "length (filter P xs) \<le> length xs" by simp

lemma open_in_window: "at_windowStart r = at_windowStart r' \<Longrightarrow> open_in r = open_in r'"
  by (simp add: open_in_def [abs_def])

lemma check_open_count:
  assumes "lg_Allowed (CheckLogin t account ip now)" "t (ip_key ip) = Some r" "ip \<noteq> []" "now - at_windowStart r < ipWindow"
  shows "at_windowCount r < ipMax"
  using assms by (cases "t (user_key account)") (auto simp: CheckLogin_def keysFor_def split: if_splits)

lemma window_record:
  assumes ok: "window_ok t (l @ Checked p # r) ip" and len: "length (l @ Checked p # r) \<le> bcryptSlots"
  shows "window_ok (RecordAttempt t (pd_account p) (pd_ip p) outcome (pd_now p)) (l @ Answered # r) ip"
proof (cases "pd_ip p = ip \<and> ip \<noteq> []")
  case False
  then have same: "RecordAttempt t (pd_account p) (pd_ip p) outcome (pd_now p) (ip_key ip) = t (ip_key ip)"
    using record_ip_other by metis
  show ?thesis
  proof (cases "t (ip_key ip)")
    case None
    then show ?thesis by (simp add: window_ok_def same)
  next
    case (Some x)
    have "length (filter (open_in x ip) (l @ Answered # r)) \<le> length (filter (open_in x ip) (l @ Checked p # r))"
      by (simp add: open_in_def)
    then show ?thesis using ok Some by (simp add: window_ok_def same)
  qed
next
  case True
  then obtain r' where r': "RecordAttempt t (pd_account p) (pd_ip p) outcome (pd_now p) (ip_key ip) = Some r'"
    "(at_windowStart r', at_windowCount r') = window_after (t (ip_key ip)) (pd_now p)"
    by (metis record_ip_row)
  have few: "length (filter (open_in r' ip) (l @ Answered # r)) \<le> 1"
  proof -
    have "length (filter (open_in r' ip) (l @ Answered # r)) \<le> length l + length r"
      using filter_le [of "open_in r' ip" l] filter_le [of "open_in r' ip" r] by (simp add: open_in_def add_mono)
    then show ?thesis using len by simp
  qed
  show ?thesis
  proof (cases "\<exists>x. t (ip_key ip) = Some x \<and> pd_now p - at_windowStart x < ipWindow")
    case True
    then obtain x where x: "t (ip_key ip) = Some x" "pd_now p - at_windowStart x < ipWindow" by blast
    then have w: "at_windowStart r' = at_windowStart x" "at_windowCount r' = at_windowCount x + 1"
      using r'(2) by (simp_all add: window_after_def)
    have "open_in x ip (Checked p)" using x(2) \<open>pd_ip p = ip \<and> ip \<noteq> []\<close> by (simp add: open_in_def)
    then have "at_windowCount x + (length (filter (open_in x ip) l) + Suc (length (filter (open_in x ip) r))) \<le> ipMax + bcryptSlots - 1"
      using ok x(1) by (simp add: window_ok_def)
    then show ?thesis
      using r'(1) w \<open>pd_ip p = ip \<and> ip \<noteq> []\<close> by (simp add: window_ok_def open_in_window [OF w(1)]) (simp add: open_in_def)
  next
    case False
    then have "at_windowCount r' = 1" using r'(2) by (auto simp: window_after_def split: option.splits if_splits)
    then show ?thesis using r'(1) few True by (simp add: window_ok_def)
  qed
qed

lemma throttle_window:
  assumes "throttle s s'" "length (snd s) \<le> bcryptSlots" "window_ok (fst s) (snd s) ip"
  shows "length (snd s') \<le> bcryptSlots \<and> window_ok (fst s') (snd s') ip"
  using assms
proof (cases rule: throttle.cases)
  case (check_open ss t p)
  have "window_ok t (Checked p # ss) ip"
  proof (cases "t (ip_key ip)")
    case (Some r)
    show ?thesis
    proof (cases "open_in r ip (Checked p)")
      case True
      then have "pd_ip p = ip" "pd_now p - at_windowStart r < ipWindow" by (simp_all add: open_in_def)
      moreover have "ip \<noteq> []" using assms(3) check_open(1) Some by (simp add: window_ok_def)
      ultimately have "at_windowCount r < ipMax" using check_open_count check_open(4) Some by blast
      moreover have "length (filter (open_in r ip) (Checked p # ss)) \<le> bcryptSlots"
        using filter_le [of "open_in r ip" "Checked p # ss"] check_open(3) by simp
      ultimately show ?thesis using Some \<open>ip \<noteq> []\<close> unfolding window_ok_def by simp
    next
      case False
      then show ?thesis using assms(3) check_open(1) Some by (simp add: window_ok_def)
    qed
  qed (simp add: window_ok_def)
  then show ?thesis using check_open(2,3) by simp
next
  case (record_it t l p r outcome)
  then show ?thesis using window_record [of t l p r ip outcome] assms(2,3) by simp
next
  case (release x t l r)
  then have "filter (open_in y ip) (l @ x # r) = filter (open_in y ip) (l @ r)" for y by (auto simp: open_in_def)
  then show ?thesis using release assms(2,3) by (simp add: window_ok_def split: option.splits)
next
  case (purge t ss now)
  then show ?thesis using assms(2,3) by (auto simp: window_ok_def PurgeLoginAttempts_def split: option.splits if_splits)
qed (auto simp: window_ok_def open_in_def split: option.splits)

lemma throttled_window: "throttled s \<Longrightarrow> length (snd s) \<le> bcryptSlots \<and> window_ok (fst s) (snd s) ip"
proof (induction rule: throttled.induct)
  case start
  show ?case by (simp add: window_ok_def)
next
  case (step s s')
  then show ?case using throttle_window by blast
qed

text \<open>However requests run side by side, with any clocks, purges and unlockings between, the attempts
  counted in a window of an address never exceed the limit by more than the one request that can hold the
  second slot.\<close>

theorem ip_window_bounded:
  assumes "throttled (t, ss)" "t (ip_key ip) = Some r"
  shows "at_windowCount r \<le> ipMax + bcryptSlots - 1"
  using throttled_window [OF assms(1), of ip] assms(2) by (simp add: window_ok_def)

theorem ip_window_bounded_witness:
  "at_windowCount (the (RecordAttempt (\<lambda>_. None) [0x61] [0x31] AttemptWrongPass 5 (ip_key [0x31]))) \<le> 21"
proof -
  let ?p = "\<lparr>pd_account = [0x61], pd_ip = [0x31], pd_now = 5\<rparr>"
  have "throttle (\<lambda>_. None, []) (\<lambda>_. None, [Checked ?p])"
    by (rule throttle.check_open) (simp_all add: CheckLogin_def keysFor_def)
  moreover have "throttle (\<lambda>_. None, [Checked ?p]) (RecordAttempt (\<lambda>_. None) [0x61] [0x31] AttemptWrongPass 5, [Answered])"
    using throttle.record_it [of "\<lambda>_. None" "[]" ?p "[]" AttemptWrongPass] by simp
  ultimately have t: "throttled (RecordAttempt (\<lambda>_. None) [0x61] [0x31] AttemptWrongPass 5, [Answered])"
    by (blast intro: throttled.intros)
  obtain r where "RecordAttempt (\<lambda>_. None) [0x61] [0x31] AttemptWrongPass 5 (ip_key [0x31]) = Some r"
    using record_ip_row [of "[0x31]"] by (metis list.discI)
  with ip_window_bounded [OF t this] show ?thesis by simp
qed

section \<open>The lock of an account\<close>

text \<open>Attempts one after another; those that are refused leave no trace.\<close>

record Try =
  tr_now :: int
  tr_account :: bytes
  tr_ip :: bytes
  tr_outcome :: AttemptOutcome

fun answered :: "Attempts \<Rightarrow> Try list \<Rightarrow> Try list" where
  "answered t [] = []"
| "answered t (a # as) =
     (if lg_Allowed (CheckLogin t (tr_account a) (tr_ip a) (tr_now a))
      then a # answered (RecordAttempt t (tr_account a) (tr_ip a) (tr_outcome a) (tr_now a)) as
      else answered t as)"

fun apart :: "nat \<Rightarrow> int \<Rightarrow> int list \<Rightarrow> bool" where
  "apart n lock [] = True"
| "apart n lock (x # xs) = (lock \<le> x \<and> apart (n + 1) (lock_until (n + 1) x) xs)"

lemma check_lock:
  assumes "lg_Allowed (CheckLogin t a ip now)" "a \<noteq> []" "t (user_key a) = Some r"
  shows "at_lockedUntil r \<le> now"
  using assms by (auto simp: CheckLogin_def keysFor_def split: if_splits)

definition row_is :: "Attempts \<Rightarrow> bytes \<Rightarrow> nat \<Rightarrow> int \<Rightarrow> bool" where
  "row_is t a n lock \<longleftrightarrow> (case t (user_key a) of None \<Rightarrow> n = 0 | Some r \<Rightarrow> at_fails r = n \<and> at_lockedUntil r = lock)"

lemma answered_apart:
  assumes "a \<noteq> []" "row_is t a n lock" "n = 0 \<longrightarrow> (\<forall>x\<in>set as. lock \<le> tr_now x)"
    and "\<forall>x\<in>set as. tr_account x = a \<longrightarrow> tr_outcome x \<noteq> AttemptSuccess"
  shows "apart n lock (List.map tr_now (filter (\<lambda>x. tr_account x = a) (answered t as)))"
  using assms(2-4)
proof (induction as arbitrary: t n lock)
  case (Cons x as)
  let ?t = "RecordAttempt t (tr_account x) (tr_ip x) (tr_outcome x) (tr_now x)"
  show ?case
  proof (cases "lg_Allowed (CheckLogin t (tr_account x) (tr_ip x) (tr_now x))")
    case True
    show ?thesis
    proof (cases "tr_account x = a")
      case mine: True
      have "lock \<le> tr_now x"
        using Cons.prems(1,2) check_lock [OF True] mine assms(1) by (auto simp: row_is_def split: option.splits)
      moreover have "row_is ?t a (n + 1) (lock_until (n + 1) (tr_now x))"
        using Cons.prems(1,3) mine assms(1) by (auto simp: row_is_def record_user_row split: option.splits)
      ultimately show ?thesis using Cons.IH [of ?t "n + 1"] Cons.prems(3) True mine by simp
    next
      case False
      then have "row_is ?t a n lock" using Cons.prems(1) by (simp add: row_is_def record_user_row)
      then show ?thesis using Cons.IH [of ?t n lock] Cons.prems(2,3) True False by simp
    qed
  next
    case False
    then show ?thesis using Cons by simp
  qed
qed simp

lemma apart_nth:
  "apart n lock xs \<Longrightarrow> Suc i < length xs \<Longrightarrow> lock_until (n + i + 1) (xs ! i) \<le> xs ! Suc i"
proof (induction xs arbitrary: n lock i)
  case (Cons x xs)
  show ?case
  proof (cases i)
    case 0
    with Cons.prems show ?thesis by (cases xs) simp_all
  next
    case (Suc j)
    with Cons.IH [of "n + 1" "lock_until (n + 1) x" j] Cons.prems show ?thesis by simp
  qed
qed simp

text \<open>An account that has no row in the table is locked step by step: between two answered attempts
  under its name, from the fifth wrong one on, lie one minute, then five, fifteen and sixty minutes,
  whatever other accounts and addresses do in between.\<close>

theorem account_locks:
  assumes "a \<noteq> []" "t (user_key a) = None" "\<forall>x\<in>set tries. tr_account x = a \<longrightarrow> tr_outcome x \<noteq> AttemptSuccess"
    and "ts = List.map tr_now (filter (\<lambda>x. tr_account x = a) (answered t tries))" "4 \<le> i" "Suc i < length ts"
  shows "ts ! i + [60, 300, 900, 3600] ! min (i - 4) 3 \<le> ts ! Suc i"
proof -
  have "\<exists>lock. \<forall>x\<in>set tries. lock \<le> tr_now x"
    by (rule exI [of _ "Min (insert 0 (tr_now ` set tries))"]) simp
  then obtain lock where "\<forall>x\<in>set tries. lock \<le> tr_now x" by blast
  then have "apart 0 lock ts"
    unfolding assms(4) using assms(1-3) by (intro answered_apart) (simp_all add: row_is_def)
  from apart_nth [OF this assms(6)] show ?thesis
    using assms(5) by (simp add: lock_until_def lockSteps_def numeral_3_eq_3)
qed

definition example_tries :: "Try list" where
  "example_tries = List.map (\<lambda>n. \<lparr>tr_now = n, tr_account = [0x61], tr_ip = [], tr_outcome = AttemptWrongPass\<rparr>)
     [0, 1, 2, 3, 4, 5, 64]"

theorem account_locks_witness:
  "List.map tr_now (filter (\<lambda>x. tr_account x = [0x61]) (answered (\<lambda>_. None) example_tries)) = [0, 1, 2, 3, 4, 64]
   \<and> (4 :: int) + [60, 300, 900, 3600] ! min (4 - 4) 3 \<le> 64"
proof -
  have e: "List.map tr_now (filter (\<lambda>x. tr_account x = [0x61]) (answered (\<lambda>_. None) example_tries)) = [0, 1, 2, 3, 4, 64]"
    by code_simp
  have "[0, 1, 2, 3, 4, 64 :: int] ! 4 + [60, 300, 900, 3600] ! min (4 - 4) 3 \<le> [0, 1, 2, 3, 4, 64] ! Suc 4"
    by (rule account_locks [of "[0x61]" "\<lambda>_. None" example_tries]) (simp_all only: e, auto simp: example_tries_def)
  with e show ?thesis by simp
qed

section \<open>Names with white space\<close>

lemma TrimSpace_blanks: "set w \<subseteq> set blanks \<Longrightarrow> TrimSpace (w @ name) = TrimSpace name"
  by (simp only: TrimSpace_def trim_left_blanks(1))

text \<open>A series of guesses from one address at one instant.\<close>

fun guesses :: "bcrypt \<Rightarrow> int \<Rightarrow> bytes \<Rightarrow> (bytes \<times> bytes) list \<Rightarrow> Db \<Rightarrow> reply list" where
  "guesses c now ip [] db = []"
| "guesses c now ip ((name, password) # gs) db =
     (case loginLocked c True None now now ip name password db of (r, db) \<Rightarrow> r # guesses c now ip gs db)"

fun padded :: "nat \<Rightarrow> bytes \<Rightarrow> bytes list \<Rightarrow> (bytes \<times> bytes) list" where
  "padded i name [] = []"
| "padded i name (pw # pws) = (replicate i 0x20 @ name, pw) # padded (Suc i) name pws"

lemma wrong_guess:
  assumes "row_by_name db (TrimSpace name) = Some r" "\<not> Compare c (ur_Hash r) pw"
  shows "loginLocked c True rnd now later ip name pw db =
    (if lg_Allowed (CheckLogin (db_attempts db) name ip now) then (Unauthorized, record_outcome name ip AttemptWrongPass now db)
     else (TooMany (lg_Retry (CheckLogin (db_attempts db) name ip now)), db))"
  using assms by (simp add: loginLocked_def Authenticate_def UserExists_def Let_def)

definition ip_count :: "Attempts \<Rightarrow> bytes \<Rightarrow> int \<Rightarrow> nat \<Rightarrow> bool" where
  "ip_count t ip now k \<longleftrightarrow> (case t (ip_key ip) of None \<Rightarrow> k = 0
     | Some r \<Rightarrow> at_windowStart r = now \<and> at_windowCount r = k \<and> at_lockedUntil r = 0)"

lemma ip_count_next:
  assumes "ip_count t ip now k" "ip \<noteq> []"
  shows "ip_count (RecordAttempt t a ip AttemptWrongPass now) ip now (k + 1)"
proof -
  obtain r where r: "RecordAttempt t a ip AttemptWrongPass now (ip_key ip) = Some r"
    "(at_windowStart r, at_windowCount r) = window_after (t (ip_key ip)) now"
    "at_lockedUntil r = (case t (ip_key ip) of None \<Rightarrow> 0 | Some r \<Rightarrow> at_lockedUntil r)"
    using record_ip_row [OF assms(2)] by (metis AttemptOutcome.distinct(5))
  with assms(1) show ?thesis by (auto simp: ip_count_def window_after_def split: option.splits)
qed

lemma gate_user:
  assumes "ip_count t ip now k" "k < ipMax" "0 \<le> now" "ip \<noteq> []" "a \<noteq> []"
  shows "CheckLogin t a ip now =
    (case t (user_key a) of None \<Rightarrow> \<lparr>lg_Allowed = True, lg_Retry = 0\<rparr>
     | Some r \<Rightarrow> if at_lockedUntil r > now then \<lparr>lg_Allowed = False, lg_Retry = at_lockedUntil r - now\<rparr>
         else \<lparr>lg_Allowed = True, lg_Retry = 0\<rparr>)"
  using assms by (auto simp: CheckLogin_def keysFor_def ip_count_def split: option.splits)

lemma row_after_record: "row_by_name (record_outcome a ip out now db) n = row_by_name db n"
  by (simp add: record_outcome_def row_by_name_def)

lemma attempts_after_record: "db_attempts (record_outcome a ip out now db) = RecordAttempt (db_attempts db) a ip out now"
  by (simp add: record_outcome_def)

lemma padded_guesses:
  assumes "row_by_name db (TrimSpace name) = Some r" "\<forall>pw\<in>set pws. \<not> Compare c (ur_Hash r) pw"
    and "name \<noteq> []" "ip \<noteq> []" "0 \<le> now" "ip_count (db_attempts db) ip now k" "k + length pws \<le> ipMax"
    and "\<And>j. i \<le> j \<Longrightarrow> db_attempts db (user_key (replicate j 0x20 @ name)) = None"
  shows "guesses c now ip (padded i name pws) db = replicate (length pws) Unauthorized"
  using assms
proof (induction pws arbitrary: i k db)
  case (Cons pw pws)
  let ?n = "replicate i 0x20 @ name"
  have t: "TrimSpace ?n = TrimSpace name" by (rule TrimSpace_blanks) (auto split: if_splits)
  have "lg_Allowed (CheckLogin (db_attempts db) ?n ip now)"
    using gate_user [OF Cons.prems(6), of ?n] Cons.prems(3,4,5,7,8) by simp
  then have l: "loginLocked c True None now now ip ?n pw db = (Unauthorized, record_outcome ?n ip AttemptWrongPass now db)"
    using wrong_guess [of db ?n r c pw] t Cons.prems(1,2) by simp
  have fresh: "RecordAttempt (db_attempts db) ?n ip AttemptWrongPass now (user_key (replicate j 0x20 @ name)) = None" if "Suc i \<le> j" for j
    using Cons.prems(8) [of j] that by (auto simp: record_user_row)
  have "guesses c now ip (padded (Suc i) name pws) (record_outcome ?n ip AttemptWrongPass now db) = replicate (length pws) Unauthorized"
    using Cons.prems ip_count_next [OF Cons.prems(6,4)] fresh
    by (intro Cons.IH [where k = "k + 1"]) (simp_all add: row_after_record attempts_after_record)
  with l show ?case by simp
qed simp

lemma straight_guesses:
  assumes "row_by_name db (TrimSpace name) = Some r" "\<forall>pw\<in>set pws. \<not> Compare c (ur_Hash r) pw"
    and "name \<noteq> []" "ip \<noteq> []" "0 \<le> now" "ip_count (db_attempts db) ip now k" "k \<le> 5"
    and "row_is (db_attempts db) name k (lock_until k now)"
  shows "guesses c now ip (List.map (Pair name) pws) db =
    replicate (min (5 - k) (length pws)) Unauthorized @ replicate (length pws - (5 - k)) (TooMany 60)"
  using assms
proof (induction pws arbitrary: k db)
  case (Cons pw pws)
  note gate = gate_user [OF Cons.prems(6) _ Cons.prems(5,4,3)]
  show ?case
  proof (cases "k = 5")
    case True
    then have "CheckLogin (db_attempts db) name ip now = \<lparr>lg_Allowed = False, lg_Retry = 60\<rparr>"
      using gate Cons.prems(8) by (auto simp: row_is_def lock_until_def lockSteps_def split: option.splits)
    then have "loginLocked c True None now now ip name pw db = (TooMany 60, db)"
      using wrong_guess [OF Cons.prems(1)] Cons.prems(2) by simp
    then show ?thesis using Cons.IH [of db k] Cons.prems True by simp
  next
    case False
    then have "lg_Allowed (CheckLogin (db_attempts db) name ip now)"
      using gate Cons.prems(5,7,8) by (auto simp: row_is_def lock_until_def split: option.splits)
    then have l: "loginLocked c True None now now ip name pw db = (Unauthorized, record_outcome name ip AttemptWrongPass now db)"
      using wrong_guess [OF Cons.prems(1)] Cons.prems(2) by simp
    have "row_is (RecordAttempt (db_attempts db) name ip AttemptWrongPass now) name (k + 1) (lock_until (k + 1) now)"
      using Cons.prems(3,8) by (auto simp: row_is_def record_user_row split: option.splits)
    then have "guesses c now ip (List.map (Pair name) pws) (record_outcome name ip AttemptWrongPass now db) =
      replicate (min (5 - (k + 1)) (length pws)) Unauthorized @ replicate (length pws - (5 - (k + 1))) (TooMany 60)"
      using Cons.prems False ip_count_next [OF Cons.prems(6,4)]
      by (intro Cons.IH) (simp_all add: row_after_record attempts_after_record)
    moreover have "min (5 - k) (Suc (length pws)) = Suc (min (5 - (k + 1)) (length pws))"
      "Suc (length pws) - (5 - k) = length pws - (5 - (k + 1))"
      using False Cons.prems(7) by auto
    ultimately show ?thesis using l by simp
  qed
qed simp

text \<open>The lock of an account is evaded by white space: the table counts attempts under the name as it
  was typed, while the password is compared for the trimmed name. Of up to twenty wrong guesses for one
  user, all are answered if each is made with one more space in front of the name, where only five are
  answered under the name itself.\<close>

theorem padded_name_evades:
  assumes "row_by_name db (TrimSpace name) = Some r" "\<forall>pw\<in>set pws. \<not> Compare c (ur_Hash r) pw"
    and "name \<noteq> []" "ip \<noteq> []" "0 \<le> now" "db_attempts db = (\<lambda>_. None)" "length pws \<le> ipMax" "5 \<le> length pws"
  shows "guesses c now ip (padded 0 name pws) db = replicate (length pws) Unauthorized
    \<and> guesses c now ip (List.map (Pair name) pws) db = replicate 5 Unauthorized @ replicate (length pws - 5) (TooMany 60)"
proof -
  have k: "ip_count (db_attempts db) ip now 0" "row_is (db_attempts db) name 0 (lock_until 0 now)"
    by (simp_all add: assms(6) ip_count_def row_is_def)
  show ?thesis
    using padded_guesses [OF assms(1-5) k(1), of 0] straight_guesses [OF assms(1-5) k(1) _ k(2)] assms(6-8) by simp
qed

definition example_bcrypt :: bcrypt where
  "example_bcrypt = \<lparr>Generate = Some, Compare = (=)\<rparr>"

definition example_row :: UserRow where
  "example_row = \<lparr>ur_ID = 1, ur_Name = [0x61], ur_Hash = replicate 8 7, ur_BirthDate = None, ur_CreatedAt = 0\<rparr>"

lemma trimmed_a: "TrimSpace [0x61] = [0x61]"
  by (rule TrimSpace_tight) (simp add: tight_def)

theorem padded_name_evades_witness:
  "guesses example_bcrypt 0 [0x31] (padded 0 [0x61] (replicate 7 [])) \<lparr>db_users = [example_row], db_sessions = (\<lambda>_. None), db_attempts = (\<lambda>_. None)\<rparr>
     = replicate 7 Unauthorized
   \<and> guesses example_bcrypt 0 [0x31] (List.map (Pair [0x61]) (replicate 7 [])) \<lparr>db_users = [example_row], db_sessions = (\<lambda>_. None), db_attempts = (\<lambda>_. None)\<rparr>
     = replicate 5 Unauthorized @ replicate 2 (TooMany 60)"
  using padded_name_evades [of "\<lparr>db_users = [example_row], db_sessions = (\<lambda>_. None), db_attempts = (\<lambda>_. None)\<rparr>" "[0x61]" example_row
      "replicate 7 []" example_bcrypt "[0x31]" 0]
  by (simp add: trimmed_a row_by_name_def example_row_def example_bcrypt_def)

section \<open>Users and sessions\<close>

lemma trim_left_done: "w \<in> set ws \<Longrightarrow> w \<noteq> [] \<Longrightarrow> take (length w) (trim_left ws s) \<noteq> w"
proof (induction ws s rule: trim_left.induct)
  case (1 ws s)
  let ?f = "find (\<lambda>w. w \<noteq> [] \<and> take (length w) s = w) ws"
  show ?case
  proof (cases ?f)
    case None
    then have "trim_left ws s = s" by (subst trim_left.simps) simp
    then show ?thesis using None 1(2,3) by (auto simp: find_None_iff)
  next
    case (Some v)
    then show ?thesis using 1 by (subst trim_left.simps) simp
  qed
qed

lemma trim_left_fixed: "(\<And>w. w \<in> set ws \<Longrightarrow> w \<noteq> [] \<Longrightarrow> take (length w) s \<noteq> w) \<Longrightarrow> trim_left ws s = s"
proof -
  assume a: "\<And>w. w \<in> set ws \<Longrightarrow> w \<noteq> [] \<Longrightarrow> take (length w) s \<noteq> w"
  then have "find (\<lambda>w. w \<noteq> [] \<and> take (length w) s = w) ws = None" by (auto simp: find_None_iff)
  then show ?thesis by (subst trim_left.simps) simp
qed

lemma trim_left_suffix: "\<exists>k. trim_left ws s = drop k s"
proof (induction ws s rule: trim_left.induct)
  case (1 ws s)
  show ?case
  proof (cases "find (\<lambda>w. w \<noteq> [] \<and> take (length w) s = w) ws")
    case None
    then have "trim_left ws s = drop 0 s" by (subst trim_left.simps) simp
    then show ?thesis by blast
  next
    case (Some v)
    with 1 obtain k where "trim_left ws (drop (length v) s) = drop k (drop (length v) s)" by blast
    then have "trim_left ws s = drop (k + length v) s" using Some by (subst trim_left.simps) simp
    then show ?thesis by blast
  qed
qed

lemma TrimSpace_idem: "TrimSpace (TrimSpace s) = TrimSpace s"
proof -
  let ?a = "trim_left spaces s" and ?b = "trim_left (List.map rev spaces) (rev (trim_left spaces s))"
  obtain k where k: "?b = drop k (rev ?a)" using trim_left_suffix by blast
  have "rev ?b = take (length ?a - k) ?a" unfolding k by (simp add: rev_drop)
  moreover have "take (length w) (take n ?a) \<noteq> w" if "w \<in> set spaces" "w \<noteq> []" for w n
    using trim_left_done [OF that, of s] by (metis min_def take_all_iff take_take length_take nat_le_linear)
  ultimately have "trim_left spaces (rev ?b) = rev ?b" by (intro trim_left_fixed) simp
  moreover have "trim_left (List.map rev spaces) ?b = ?b" using trim_left_done by (intro trim_left_fixed) blast
  ultimately show ?thesis by (simp add: TrimSpace_def)
qed

definition db_ok :: "bcrypt \<Rightarrow> Db \<Rightarrow> bool" where
  "db_ok c db \<longleftrightarrow> distinct (List.map ur_ID (db_users db)) \<and> distinct (List.map ur_Name (db_users db))
     \<and> (\<forall>r\<in>set (db_users db). ur_Name r \<noteq> [] \<and> TrimSpace (ur_Name r) = ur_Name r
          \<and> (\<exists>pw. MinPasswordLen \<le> length pw \<and> Generate c pw = Some (ur_Hash r)))
     \<and> (\<forall>k u e. db_sessions db k = Some (u, e) \<longrightarrow> u \<in> ur_ID ` set (db_users db))"

inductive accounts :: "bcrypt \<Rightarrow> Db \<Rightarrow> bool" for c where
  empty: "accounts c \<lparr>db_users = [], db_sessions = (\<lambda>_. None), db_attempts = (\<lambda>_. None)\<rparr>"
| create: "accounts c db \<Longrightarrow> accounts c (snd (createUser c acquired now name pw db))"
| set_password: "accounts c db \<Longrightarrow> accounts c (snd (SetPassword c name pw db))"
| delete: "accounts c db \<Longrightarrow> accounts c (snd (DeleteUser referenced name db))"
| birth: "accounts c db \<Longrightarrow> accounts c (snd (SetBirthDate i date db))"
| login: "accounts c db \<Longrightarrow> accounts c (snd (loginLocked c works rnd now later ip name pw db))"
| reset: "accounts c db \<Longrightarrow> accounts c (snd (setPasswordLocked c rnd now later ip actor target current new db))"
| logout: "accounts c db \<Longrightarrow> accounts c (logout cookie db)"
| expire: "accounts c db \<Longrightarrow> accounts c (PurgeExpiredSessions now db)"
| purge: "accounts c db \<Longrightarrow> accounts c (db\<lparr>db_attempts := PurgeLoginAttempts (db_attempts db) now\<rparr>)"

lemma db_okD:
  assumes "db_ok c db" "r \<in> set (db_users db)"
  shows "row_by_id db (ur_ID r) = Some r" "row_by_name db (ur_Name r) = Some r" "TrimSpace (ur_Name r) = ur_Name r"
proof -
  have d: "distinct (List.map f xs) \<Longrightarrow> r \<in> set xs \<Longrightarrow> find (\<lambda>x. f x = f r) xs = Some r" for f :: "UserRow \<Rightarrow> 'b" and xs
    by (induction xs) (auto simp: rev_image_eqI)
  show "row_by_id db (ur_ID r) = Some r" "row_by_name db (ur_Name r) = Some r" "TrimSpace (ur_Name r) = ur_Name r"
    using assms by (auto simp: db_ok_def row_by_id_def row_by_name_def intro: d)
qed

lemma row_found:
  "row_by_id db i = Some r \<Longrightarrow> r \<in> set (db_users db) \<and> ur_ID r = i"
  "row_by_name db n = Some r \<Longrightarrow> r \<in> set (db_users db) \<and> ur_Name r = n"
  by (auto simp: row_by_id_def row_by_name_def find_Some_iff)

text \<open>Changing the hash of rows keeps the rest of them.\<close>

lemma rehash_ok:
  assumes "db_ok c db" "MinPasswordLen \<le> length pw" "Generate c pw = Some h"
  shows "db_ok c (db\<lparr>db_users := List.map (\<lambda>r. if P r then r\<lparr>ur_Hash := h\<rparr> else r) (db_users db)\<rparr>)"
proof -
  let ?f = "\<lambda>r. if P r then r\<lparr>ur_Hash := h\<rparr> else r"
  obtain us where us: "us = List.map ?f (db_users db)" by blast
  have "ur_ID \<circ> ?f = ur_ID" "ur_Name \<circ> ?f = ur_Name" by (auto simp: fun_eq_iff)
  then have m: "List.map ur_ID us = List.map ur_ID (db_users db)" "List.map ur_Name us = List.map ur_Name (db_users db)"
    by (simp_all add: us)
  have i: "ur_ID ` set us = ur_ID ` set (db_users db)" using m(1) by (metis list.set_map)
  have "\<forall>r\<in>set us. ur_Name r \<noteq> [] \<and> TrimSpace (ur_Name r) = ur_Name r
      \<and> (\<exists>pw. MinPasswordLen \<le> length pw \<and> Generate c pw = Some (ur_Hash r))"
    using assms unfolding us by (auto simp: db_ok_def)
  then show ?thesis
    using assms(1) m i unfolding us [symmetric] by (simp add: db_ok_def)
qed

lemma attempts_ok: "db_ok c db \<Longrightarrow> db_ok c (db\<lparr>db_attempts := x\<rparr>)"
  by (simp add: db_ok_def)

lemma fewer_sessions_ok: "db_ok c db \<Longrightarrow> ss \<subseteq>\<^sub>m db_sessions db \<Longrightarrow> db_ok c (db\<lparr>db_sessions := ss\<rparr>)"
  unfolding db_ok_def by (simp add: map_le_def) (metis domI)

lemma record_ok: "db_ok c db \<Longrightarrow> db_ok c (record_outcome a ip out now db)"
  by (simp add: record_outcome_def attempts_ok)

lemma max_start: "a \<le> fold max xs (a :: int)"
proof (induction xs arbitrary: a)
  case (Cons x xs)
  then show ?case using order_trans [OF max.cobounded2 Cons.IH [of "max x a"]] by simp
qed simp

lemma max_id: "x \<in> set xs \<Longrightarrow> x \<le> fold max xs (a :: int)"
proof (induction xs arbitrary: a)
  case (Cons y xs)
  then show ?case using order_trans [OF max.cobounded1 max_start [of "max y a" xs]] by auto
qed simp

lemma CreateUser_ok: "db_ok c db \<Longrightarrow> db_ok c (snd (CreateUser c now name pw db))"
proof -
  assume ok: "db_ok c db"
  let ?n = "TrimSpace name" and ?i = "fold max (List.map ur_ID (db_users db)) 0 + 1"
  show ?thesis
  proof (cases "?n = [] \<or> length pw < MinPasswordLen \<or> Generate c pw = None \<or> row_by_name db ?n \<noteq> None")
    case True
    with ok show ?thesis by (auto simp: CreateUser_def Let_def split: option.splits)
  next
    case False
    then obtain h where h: "Generate c pw = Some h" by (cases "Generate c pw") auto
    have "?i \<notin> ur_ID ` set (db_users db)"
      using max_id [of _ "List.map ur_ID (db_users db)" 0] by (metis image_eqI list.set_map zless_add1_eq less_irrefl not_less)
    moreover have "?n \<notin> ur_Name ` set (db_users db)" using False by (auto simp: row_by_name_def find_None_iff)
    ultimately show ?thesis
      using False h ok by (auto simp: CreateUser_def Let_def db_ok_def TrimSpace_idem)
  qed
qed

lemma CreateSession_ok: "db_ok c db \<Longrightarrow> db_ok c (snd (CreateSession rnd now u db))"
  by (auto simp: CreateSession_def db_ok_def row_by_id_def find_None_iff split: option.splits)

lemma drop_le: "drop_sessions i ss \<subseteq>\<^sub>m ss"
  by (auto simp: drop_sessions_def map_le_def dom_def split: option.splits if_splits)

lemma SetPasswordByID_ok: "db_ok c db \<Longrightarrow> db_ok c (snd (SetPasswordByID c i pw db))"
proof -
  assume ok: "db_ok c db"
  show ?thesis
  proof (cases "length pw < MinPasswordLen \<or> Generate c pw = None \<or> row_by_id db i = None")
    case True
    with ok show ?thesis by (auto simp: SetPasswordByID_def split: option.splits)
  next
    case False
    then obtain h r where h: "Generate c pw = Some h" "row_by_id db i = Some r" "MinPasswordLen \<le> length pw" by auto
    let ?d = "db\<lparr>db_users := List.map (\<lambda>x. if ur_ID x = i then x\<lparr>ur_Hash := h\<rparr> else x) (db_users db)\<rparr>"
    have "db_ok c (?d\<lparr>db_sessions := drop_sessions i (db_sessions db), db_attempts := (db_attempts db)(user_key (ur_Name r) := None)\<rparr>)"
      using attempts_ok [OF fewer_sessions_ok [OF rehash_ok [OF ok h(3,1)]]] drop_le by simp
    with h show ?thesis by (simp add: SetPasswordByID_def)
  qed
qed

lemma SetPassword_ok: "db_ok c db \<Longrightarrow> db_ok c (snd (SetPassword c name pw db))"
  using rehash_ok [of c db pw] by (simp add: SetPassword_def split: option.splits)

lemma DeleteUser_ok: "db_ok c db \<Longrightarrow> db_ok c (snd (DeleteUser referenced name db))"
proof -
  assume ok: "db_ok c db"
  show ?thesis
  proof (cases "row_by_name db name")
    case (Some r)
    then have r: "r \<in> set (db_users db)" "ur_Name r = name" using row_found by blast+
    have keeps: "u \<in> ur_ID ` {x \<in> set (db_users db). ur_Name x \<noteq> name}" if "u \<in> ur_ID ` set (db_users db)" "u \<noteq> ur_ID r" for u
    proof -
      from that(1) obtain x where x: "x \<in> set (db_users db)" "u = ur_ID x" by blast
      have "ur_Name x \<noteq> name"
      proof
        assume "ur_Name x = name"
        then have "x = r" using db_okD(2) [OF ok x(1)] Some by simp
        with x that(2) show False by simp
      qed
      with x show ?thesis by blast
    qed
    have "distinct (List.map ur_ID (filter (\<lambda>x. ur_Name x \<noteq> name) (db_users db)))"
      "distinct (List.map ur_Name (filter (\<lambda>x. ur_Name x \<noteq> name) (db_users db)))"
      using ok by (simp_all add: db_ok_def distinct_map_filter)
    moreover have "u \<in> ur_ID ` {x \<in> set (db_users db). ur_Name x \<noteq> name}"
      if "drop_sessions (ur_ID r) (db_sessions db) k = Some (u, e)" for k u e
    proof (rule keeps)
      have "db_sessions db k = Some (u, e)" "u \<noteq> ur_ID r"
        using that by (simp_all add: drop_sessions_def split: option.splits prod.splits if_splits)
      then show "u \<in> ur_ID ` set (db_users db)" "u \<noteq> ur_ID r" using ok unfolding db_ok_def by blast+
    qed
    ultimately have "db_ok c (db\<lparr>db_users := filter (\<lambda>x. ur_Name x \<noteq> name) (db_users db),
        db_sessions := drop_sessions (ur_ID r) (db_sessions db)\<rparr>)"
      using ok by (simp add: db_ok_def)
    then show ?thesis using ok Some by (simp add: DeleteUser_def)
  qed (use ok in \<open>simp add: DeleteUser_def\<close>)
qed

lemma SetBirthDate_ok: "db_ok c db \<Longrightarrow> db_ok c (snd (SetBirthDate i date db))"
proof -
  assume ok: "db_ok c db"
  have "db_ok c (db\<lparr>db_users := List.map (\<lambda>x. if ur_ID x = i then x\<lparr>ur_BirthDate := v\<rparr> else x) (db_users db)\<rparr>)" for v
  proof -
    let ?f = "\<lambda>x. if ur_ID x = i then x\<lparr>ur_BirthDate := v\<rparr> else x"
    obtain us where us: "us = List.map ?f (db_users db)" by blast
    have "ur_ID \<circ> ?f = ur_ID" "ur_Name \<circ> ?f = ur_Name" by (auto simp: fun_eq_iff)
    then have m: "List.map ur_ID us = List.map ur_ID (db_users db)" "List.map ur_Name us = List.map ur_Name (db_users db)"
      by (simp_all add: us)
    have i: "ur_ID ` set us = ur_ID ` set (db_users db)" using m(1) by (metis list.set_map)
    have "\<forall>r\<in>set us. ur_Name r \<noteq> [] \<and> TrimSpace (ur_Name r) = ur_Name r
        \<and> (\<exists>pw. MinPasswordLen \<le> length pw \<and> Generate c pw = Some (ur_Hash r))"
      using ok unfolding us by (auto simp: db_ok_def)
    then show ?thesis using ok m i unfolding us [symmetric] by (simp add: db_ok_def)
  qed
  with ok show ?thesis by (simp add: SetBirthDate_def Let_def split: option.splits)
qed

lemma createUser_ok: "db_ok c db \<Longrightarrow> db_ok c (snd (createUser c acquired now name pw db))"
  using CreateUser_ok [of c db now name pw]
  by (cases "CreateUser c now name pw db") (auto simp: createUser_def split: sum.splits user_error.splits)

lemma loginLocked_ok: "db_ok c db \<Longrightarrow> db_ok c (snd (loginLocked c works rnd now later ip name pw db))"
proof -
  assume "db_ok c db"
  then have "db_ok c (snd (CreateSession rnd later u (record_outcome a ip out now db)))" "db_ok c (record_outcome a ip out now db)" for u a out
    by (simp_all add: CreateSession_ok record_ok)
  with \<open>db_ok c db\<close> show ?thesis
    by (simp add: loginLocked_def Let_def split: option.splits prod.splits sum.splits) (metis snd_conv)
qed

lemma setPasswordLocked_ok:
  "db_ok c db \<Longrightarrow> db_ok c (snd (setPasswordLocked c rnd now later ip actor target current new db))"
proof -
  assume ok: "db_ok c db"
  then have a: "db_ok c (record_outcome a ip out now db)" for a out by (rule record_ok)
  have b: "db_ok c (snd (SetPasswordByID c target new (record_outcome a ip out now db)))" for a out
    by (rule SetPasswordByID_ok [OF a])
  obtain x db1 where s: "SetPasswordByID c target new (record_outcome (snd actor) ip AttemptSuccess now db) = (x, db1)" by fastforce
  obtain y db2 where t: "CreateSession rnd later (fst actor) db1 = (y, db2)" by fastforce
  have "db_ok c db1" using b s by (metis snd_conv)
  moreover from this have "db_ok c db2" using CreateSession_ok t by (metis snd_conv)
  ultimately show ?thesis using ok a s t by (cases x; cases y) (simp_all add: setPasswordLocked_def Let_def)
qed

lemma accounts_ok: "accounts c db \<Longrightarrow> db_ok c db"
proof (induction rule: accounts.induct)
  case (expire db now)
  show ?case
    unfolding PurgeExpiredSessions_def by (rule fewer_sessions_ok [OF expire.IH]) (auto simp: map_le_def dom_def split: option.splits if_splits)
next
  case (logout db cookie)
  moreover have "(db_sessions db)(v := None) \<subseteq>\<^sub>m db_sessions db" for v by (auto simp: map_le_def)
  ultimately show ?case by (auto simp: logout_def DeleteSession_def fewer_sessions_ok split: option.splits)
qed (simp_all add: createUser_ok SetPassword_ok DeleteUser_ok SetBirthDate_ok loginLocked_ok setPasswordLocked_ok attempts_ok,
    simp add: db_ok_def)

text \<open>What a new password brings about.\<close>

definition sessions_of :: "Db \<Rightarrow> int \<Rightarrow> bytes set" where
  "sessions_of db i = {k. \<exists>e. db_sessions db k = Some (i, e)}"

lemma SetPasswordByID_effect:
  assumes "db_ok c db" "SetPasswordByID c i new db = (Inr u, db')"
  obtains r h where "row_by_id db i = Some r" "Generate c new = Some h" "us_ID u = i" "sessions_of db' i = {}"
    "row_by_name db' (ur_Name r) = Some (r\<lparr>ur_Hash := h\<rparr>)" "TrimSpace (ur_Name r) = ur_Name r" "row_by_id db' i \<noteq> None"
    "db_attempts db' (user_key (ur_Name r)) = None" "MinPasswordLen \<le> length new"
proof -
  obtain h r where h: "Generate c new = Some h" "row_by_id db i = Some r" "MinPasswordLen \<le> length new"
    using assms(2) by (auto simp: SetPasswordByID_def split: if_splits option.splits)
  let ?f = "\<lambda>x. if ur_ID x = i then x\<lparr>ur_Hash := h\<rparr> else x"
  have db': "db' = db\<lparr>db_users := List.map ?f (db_users db), db_sessions := drop_sessions i (db_sessions db),
      db_attempts := (db_attempts db)(user_key (ur_Name r) := None)\<rparr>" and u: "us_ID u = i"
    using assms(2) h row_found(1) [OF h(2)] by (auto simp: SetPasswordByID_def)
  have r: "r \<in> set (db_users db)" "ur_ID r = i" using row_found(1) [OF h(2)] by blast+
  have ok': "db_ok c db'" using SetPasswordByID_ok [OF assms(1), of i new] assms(2) by simp
  have m: "r\<lparr>ur_Hash := h\<rparr> \<in> set (db_users db')" using r by (auto simp: db' image_iff intro!: bexI [of _ r])
  show ?thesis
    using that [of r h] h u m db_okD [OF ok' m] db_okD [OF assms(1) r(1)] r(2)
    by (simp add: sessions_of_def db' drop_sessions_def split: option.splits)
qed

lemma session_added:
  assumes "CreateSession rnd now i db = (Inr token, db')"
  shows "sessions_of db' i = insert token (sessions_of db i)" "db_users db' = db_users db" "db_attempts db' = db_attempts db"
  using assms by (auto simp: CreateSession_def sessions_of_def split: option.splits if_splits)

text \<open>In every reachable database a password is set only for an actor who passed the throttle and proved
  their own password; afterwards exactly the new password opens the account, its lock is gone, and no
  session of the user is left but the new one of an actor who changed their own.\<close>

theorem reset_revokes:
  assumes "accounts c db" "setPasswordLocked c rnd now later ip actor target current new db = (PasswordSet tok, db')"
  shows "lg_Allowed (CheckLogin (db_attempts db) (snd actor) ip now) \<and> Authenticate c (snd actor) current db \<noteq> None
    \<and> sessions_of db' target = set_option tok
    \<and> (\<exists>r h. row_by_id db target = Some r \<and> Generate c new = Some h \<and> MinPasswordLen \<le> length new
         \<and> (\<forall>pw. (Authenticate c (ur_Name r) pw db' \<noteq> None) = Compare c h pw)
         \<and> db_attempts db' (user_key (ur_Name r)) = None)"
proof -
  have ok: "db_ok c db" by (rule accounts_ok [OF assms(1)])
  let ?db = "record_outcome (snd actor) ip AttemptSuccess now db"
  have g: "lg_Allowed (CheckLogin (db_attempts db) (snd actor) ip now)" "Authenticate c (snd actor) current db \<noteq> None"
    using assms(2) by (auto simp: setPasswordLocked_def Let_def split: if_splits)
  obtain x db1 where x: "SetPasswordByID c target new ?db = (x, db1)" by fastforce
  obtain u where "x = Inr u" using assms(2) g x by (cases x) (auto simp: setPasswordLocked_def Let_def)
  with x have s: "SetPasswordByID c target new ?db = (Inr u, db1)" by simp
  have rest: "(if us_ID u = fst actor then
       (case CreateSession rnd later (fst actor) db1 of (Inl _, d) \<Rightarrow> (SessionFailed, d) | (Inr t, d) \<Rightarrow> (PasswordSet (Some t), d))
       else (PasswordSet None, db1)) = (PasswordSet tok, db')"
    using assms(2) g s by (simp add: setPasswordLocked_def Let_def)
  obtain r h where e: "row_by_id ?db target = Some r" "Generate c new = Some h" "us_ID u = target" "sessions_of db1 target = {}"
    "row_by_name db1 (ur_Name r) = Some (r\<lparr>ur_Hash := h\<rparr>)" "TrimSpace (ur_Name r) = ur_Name r"
    "db_attempts db1 (user_key (ur_Name r)) = None" "MinPasswordLen \<le> length new"
    by (rule SetPasswordByID_effect [OF record_ok [OF ok] s])
  have "db_users db' = db_users db1 \<and> db_attempts db' = db_attempts db1 \<and> sessions_of db' target = set_option tok"
  proof (cases "us_ID u = fst actor")
    case False
    with rest e(4) show ?thesis by simp
  next
    case True
    obtain y db2 where y: "CreateSession rnd later (fst actor) db1 = (y, db2)" by fastforce
    with rest True obtain t where "y = Inr t" "tok = Some t" "db' = db2" by (cases y) simp_all
    with session_added [of rnd later "fst actor" db1 t db2] y True e(3,4) show ?thesis by simp
  qed
  then have f: "row_by_name db' (ur_Name r) = Some (r\<lparr>ur_Hash := h\<rparr>)" "db_attempts db' = db_attempts db1"
      "sessions_of db' target = set_option tok"
    using e(5) by (simp_all add: row_by_name_def)
  have "(Authenticate c (ur_Name r) pw db' \<noteq> None) = Compare c h pw" for pw
    by (simp add: Authenticate_def e(6) f(1))
  moreover have "row_by_id db target = Some r" using e(1) by (simp add: row_by_id_def record_outcome_def)
  ultimately show ?thesis using g f(2,3) e(2,7,8) by auto
qed

definition example_db :: Db where
  "example_db = snd (createUser example_bcrypt True 0 [0x61] (replicate 8 7)
     \<lparr>db_users = [], db_sessions = (\<lambda>_. None), db_attempts = (\<lambda>_. None)\<rparr>)"

lemma example_db_users: "example_db = \<lparr>db_users = [example_row], db_sessions = (\<lambda>_. None), db_attempts = (\<lambda>_. None)\<rparr>"
  by (simp add: example_db_def createUser_def CreateUser_def Let_def trimmed_a example_bcrypt_def row_by_name_def example_row_def)

theorem reset_revokes_witness:
  "\<exists>db'. setPasswordLocked example_bcrypt (Some []) 0 0 [0x31] (1, [0x61]) 1 (replicate 8 7) (replicate 8 9) example_db = (PasswordSet (Some []), db')
    \<and> sessions_of db' 1 = {[]}"
proof -
  have a: "accounts example_bcrypt example_db" unfolding example_db_def by (intro accounts.intros)
  obtain db' where r: "setPasswordLocked example_bcrypt (Some []) 0 0 [0x31] (1, [0x61]) 1 (replicate 8 7) (replicate 8 9) example_db
      = (PasswordSet (Some []), db')"
    by (simp add: example_db_users setPasswordLocked_def CheckLogin_def keysFor_def Authenticate_def trimmed_a row_by_name_def
        example_row_def example_bcrypt_def record_outcome_def SetPasswordByID_def row_by_id_def CreateSession_def NewToken_def
        drop_sessions_def Let_def)
  with reset_revokes [OF a r] show ?thesis by simp
qed

end
