(* ===== verification/Finance.thy ===== *)
theory Finance
  imports Login
begin

text \<open>
  Importing the transactions of an account-book file (\<^verbatim>\<open>planner/internal/store/finance_import.go\<close>): what an
  import stores, and the pairs of transfers between own accounts. Reading the spreadsheet is not modelled:
  a parsed file is the input. Amounts are the code's int64, as integers; no sum of a household overflows.
\<close>

section \<open>Transactions\<close>

record FinItem =
  it_Group :: bytes
  it_Category :: bytes
  it_Institution :: bytes
  it_Name :: bytes
  it_Amount :: int
  it_Principal :: "int option"
  it_Rate :: "64 word option"

record FinTx =
  tx_At :: bytes
  tx_Type :: bytes
  tx_Cat1 :: bytes
  tx_Cat2 :: bytes
  tx_Content :: bytes
  tx_Amount :: int
  tx_Method :: bytes
  tx_Memo :: bytes

record FinParsed =
  fp_TakenAt :: bytes
  fp_Items :: "FinItem list"
  fp_Tx :: "FinTx list"

text \<open>The word for a transfer, in UTF-8.\<close>

abbreviation transfer :: bytes where "transfer \<equiv> [0xEC, 0x9D, 0xB4, 0xEC, 0xB2, 0xB4]"
abbreviation bar :: byte where "bar \<equiv> 0x7C"

section \<open>Pairs of transfers\<close>

text \<open>Minutes since 1970; a time that does not parse counts as 0. Rows have the times that the import writes.\<close>

definition at_minutes :: "bytes \<Rightarrow> int" where
  "at_minutes at =
     (if length at \<noteq> 16 then 0
      else case (Parse_date (take 10 at), Parse_clock (drop 10 at)) of
        (Some d, Some (h, mi)) \<Rightarrow> (day_number d - day_number (1970, 1, 1)) * 1440 + int h * 60 + int mi
      | _ \<Rightarrow> 0)"

definition outs_of :: "FinTx list \<Rightarrow> int \<Rightarrow> nat list" where
  "outs_of tx amount = filter (\<lambda>j. tx_Type (tx ! j) = transfer \<and> tx_Amount (tx ! j) < 0 \<and> - tx_Amount (tx ! j) = amount) [0..<length tx]"

definition pair_step :: "FinTx list \<Rightarrow> nat \<Rightarrow> (nat \<rightharpoonup> nat) \<Rightarrow> (nat \<rightharpoonup> nat)" where
  "pair_step tx i paired =
     (let t = tx ! i in
      if tx_Type t \<noteq> transfer \<or> tx_Amount t \<le> 0 then paired
      else let m = at_minutes (tx_At t) in
        case find (\<lambda>j. paired j = None \<and> (let d = at_minutes (tx_At (tx ! j)) - m in - 10 \<le> d \<and> d \<le> 10)) (outs_of tx (tx_Amount t)) of
          None \<Rightarrow> paired
        | Some j \<Rightarrow> paired(i \<mapsto> j, j \<mapsto> i))"

definition finPairs :: "FinTx list \<Rightarrow> (nat \<rightharpoonup> nat)" where
  "finPairs tx = fold (pair_step tx) [0..<length tx] (\<lambda>_. None)"

definition finPairTransfers :: "FinTx list \<Rightarrow> nat set" where
  "finPairTransfers tx = dom (finPairs tx)"

section \<open>The import\<close>

definition tx_key :: "FinTx \<Rightarrow> bytes" where
  "tx_key t = tx_At t @ bar # tx_Type t @ bar # tx_Content t @ bar # Itoa (tx_Amount t) @ bar # tx_Method t"

definition hash_input :: "bytes \<Rightarrow> nat \<Rightarrow> bytes" where
  "hash_input k n = k @ bar # Itoa (int n)"

text \<open>\<open>sha\<close> stands for SHA-256.\<close>

definition short_hash :: "(bytes \<Rightarrow> bytes) \<Rightarrow> bytes \<Rightarrow> bytes" where
  "short_hash sha s = concat (List.map hex_byte (take 12 (sha s)))"

definition finTxHash :: "(bytes \<Rightarrow> bytes) \<Rightarrow> FinTx \<Rightarrow> nat \<Rightarrow> bytes" where
  "finTxHash sha t n = short_hash sha (hash_input (tx_key t) n)"

fun numbered :: "(bytes \<Rightarrow> nat) \<Rightarrow> FinTx list \<Rightarrow> (FinTx \<times> nat) list" where
  "numbered seen [] = []"
| "numbered seen (t # ts) = (let n = seen (tx_key t) + 1 in (t, n) # numbered (seen(tx_key t := n)) ts)"

fun less_bytes :: "bytes \<Rightarrow> bytes \<Rightarrow> bool" where
  "less_bytes xs [] = False"
| "less_bytes [] (y # ys) = True"
| "less_bytes (x # xs) (y # ys) = (x < y \<or> x = y \<and> less_bytes xs ys)"

record FinRow =
  fr_Owner :: int
  fr_Tx :: FinTx
  fr_Hash :: bytes

record FinSnapshot =
  fs_Owner :: int
  fs_TakenAt :: bytes
  fs_TotalAsset :: int
  fs_TotalDebt :: int
  fs_Items :: "FinItem list"

record FinDb =
  fd_tx :: "FinRow list"
  fd_snapshots :: "FinSnapshot list"

record FinImportResult =
  fi_TakenAt :: bytes
  fi_Items :: nat
  fi_Groups :: "bytes \<Rightarrow> int"
  fi_TotalAsset :: int
  fi_TotalDebt :: int
  fi_TxTotal :: nat
  fi_TxNew :: nat
  fi_TxFrom :: bytes
  fi_TxTo :: bytes
  fi_ReplaceSnap :: bool

abbreviation debt :: bytes where "debt \<equiv> ascii ''debt''"

definition add_item :: "FinItem \<Rightarrow> FinImportResult \<Rightarrow> FinImportResult" where
  "add_item it res =
     (let res = (if it_Group it = debt then res\<lparr>fi_TotalDebt := fi_TotalDebt res + it_Amount it\<rparr>
                 else res\<lparr>fi_TotalAsset := fi_TotalAsset res + it_Amount it\<rparr>) in
      res\<lparr>fi_Groups := (fi_Groups res)(it_Group it := fi_Groups res (it_Group it) + it_Amount it)\<rparr>)"

definition add_time :: "FinTx \<Rightarrow> FinImportResult \<Rightarrow> FinImportResult" where
  "add_time t res =
     (let res = (if fi_TxFrom res = [] \<or> less_bytes (tx_At t) (fi_TxFrom res) then res\<lparr>fi_TxFrom := tx_At t\<rparr> else res) in
      if less_bytes (fi_TxTo res) (tx_At t) then res\<lparr>fi_TxTo := tx_At t\<rparr> else res)"

definition row_hashes :: "int \<Rightarrow> FinRow list \<Rightarrow> bytes set" where
  "row_hashes owner rows = {fr_Hash r | r. r \<in> set rows \<and> fr_Owner r = owner}"

text \<open>The statement of the insertion does nothing when the owner has a row with the hash.\<close>

definition insert_tx :: "bytes set \<Rightarrow> int \<Rightarrow> FinTx \<times> bytes \<Rightarrow> FinRow list \<Rightarrow> FinRow list" where
  "insert_tx existing owner th rows =
     (case th of (t, h) \<Rightarrow>
        if h \<in> existing \<or> h \<in> row_hashes owner rows then rows
        else rows @ [\<lparr>fr_Owner = owner, fr_Tx = t, fr_Hash = h\<rparr>])"

definition FinanceImport :: "(bytes \<Rightarrow> bytes) \<Rightarrow> int \<Rightarrow> FinParsed \<Rightarrow> bool \<Rightarrow> FinDb \<Rightarrow> FinImportResult \<times> FinDb" where
  "FinanceImport sha owner p apply_it db =
     (let res = \<lparr>fi_TakenAt = fp_TakenAt p, fi_Items = length (fp_Items p), fi_Groups = (\<lambda>_. 0), fi_TotalAsset = 0,
            fi_TotalDebt = 0, fi_TxTotal = length (fp_Tx p), fi_TxNew = 0, fi_TxFrom = [], fi_TxTo = [], fi_ReplaceSnap = False\<rparr>;
          res = fold add_item (fp_Items p) res;
          res = fold add_time (fp_Tx p) res;
          hashed = List.map (\<lambda>(t, n). (t, finTxHash sha t n)) (numbered (\<lambda>_. 0) (fp_Tx p));
          existing = row_hashes owner (fd_tx db);
          res = res\<lparr>fi_TxNew := length (filter (\<lambda>(t, h). h \<notin> existing) hashed),
            fi_ReplaceSnap := \<exists>s\<in>set (fd_snapshots db). fs_Owner s = owner \<and> fs_TakenAt s = fp_TakenAt p\<rparr> in
      if \<not> apply_it then (res, db)
      else
        let db = (if fp_Items p \<noteq> [] then
               db\<lparr>fd_snapshots := filter (\<lambda>s. \<not> (fs_Owner s = owner \<and> fs_TakenAt s = fp_TakenAt p)) (fd_snapshots db)
                 @ [\<lparr>fs_Owner = owner, fs_TakenAt = fp_TakenAt p, fs_TotalAsset = fi_TotalAsset res,
                     fs_TotalDebt = fi_TotalDebt res, fs_Items = fp_Items p\<rparr>]\<rparr>
             else db) in
        (res, db\<lparr>fd_tx := fold (insert_tx existing owner) hashed (fd_tx db)\<rparr>))"

definition import_all :: "(bytes \<Rightarrow> bytes) \<Rightarrow> int \<Rightarrow> FinParsed list \<Rightarrow> FinDb \<Rightarrow> FinDb" where
  "import_all sha owner ps db = fold (\<lambda>p db. snd (FinanceImport sha owner p True db)) ps db"

end
