(* ===== verification/Finance_Properties.thy ===== *)
theory Finance_Properties
  imports Finance
begin

text \<open>
  Pairs of transfers cancel; importing overlapping files keeps every transaction as often as the file that
  has it most often.
\<close>

section \<open>Pairs cancel\<close>

definition pairs_ok :: "FinTx list \<Rightarrow> (nat \<rightharpoonup> nat) \<Rightarrow> bool" where
  "pairs_ok tx p \<longleftrightarrow> (\<forall>i j. p i = Some j \<longrightarrow> p j = Some i \<and> i < length tx \<and> tx_Type (tx ! i) = transfer
     \<and> tx_Amount (tx ! i) \<noteq> 0 \<and> tx_Amount (tx ! j) = - tx_Amount (tx ! i)
     \<and> \<bar>at_minutes (tx_At (tx ! j)) - at_minutes (tx_At (tx ! i))\<bar> \<le> 10)"

lemma pairs_okD:
  assumes "pairs_ok tx p" "p i = Some j"
  shows "p j = Some i" "i < length tx" "tx_Type (tx ! i) = transfer" "tx_Amount (tx ! i) \<noteq> 0"
    "tx_Amount (tx ! j) = - tx_Amount (tx ! i)" "\<bar>at_minutes (tx_At (tx ! j)) - at_minutes (tx_At (tx ! i))\<bar> \<le> 10"
  using assms unfolding pairs_ok_def by blast+

definition could_pair :: "FinTx list \<Rightarrow> nat \<Rightarrow> nat \<Rightarrow> bool" where
  "could_pair tx i j \<longleftrightarrow> tx_Type (tx ! i) = transfer \<and> tx_Type (tx ! j) = transfer \<and> tx_Amount (tx ! i) > 0
     \<and> tx_Amount (tx ! j) = - tx_Amount (tx ! i) \<and> \<bar>at_minutes (tx_At (tx ! j)) - at_minutes (tx_At (tx ! i))\<bar> \<le> 10"

lemma pair_step_cases:
  assumes "i < length tx" "pairs_ok tx p" "p i = None"
  shows "pairs_ok tx (pair_step tx i p) \<and> dom p \<subseteq> dom (pair_step tx i p)
    \<and> dom (pair_step tx i p) \<subseteq> dom p \<union> {i} \<union> {j. tx_Amount (tx ! j) < 0}
    \<and> (\<forall>j<length tx. could_pair tx i j \<longrightarrow> i \<in> dom (pair_step tx i p) \<or> j \<in> dom (pair_step tx i p))"
proof (cases "tx_Type (tx ! i) \<noteq> transfer \<or> tx_Amount (tx ! i) \<le> 0")
  case True
  then have "pair_step tx i p = p" by (simp add: pair_step_def)
  with assms True show ?thesis by (auto simp: could_pair_def)
next
  case False
  let ?P = "\<lambda>j. p j = None \<and> - 10 \<le> at_minutes (tx_At (tx ! j)) - at_minutes (tx_At (tx ! i))
    \<and> at_minutes (tx_At (tx ! j)) - at_minutes (tx_At (tx ! i)) \<le> 10"
  show ?thesis
  proof (cases "find ?P (outs_of tx (tx_Amount (tx ! i)))")
    case None
    then have s: "pair_step tx i p = p" using False by (simp add: pair_step_def Let_def)
    have "j \<in> dom p" if "j < length tx" "could_pair tx i j" for j
    proof -
      have "j \<in> set (outs_of tx (tx_Amount (tx ! i)))" using that False by (auto simp: could_pair_def outs_of_def)
      with None have "\<not> ?P j" by (auto simp: find_None_iff)
      with that show ?thesis by (auto simp: could_pair_def)
    qed
    with s assms(2) show ?thesis by auto
  next
    case (Some j)
    then have s: "pair_step tx i p = p(i \<mapsto> j, j \<mapsto> i)" using False by (simp add: pair_step_def Let_def)
    from Some have j: "?P j" "j \<in> set (outs_of tx (tx_Amount (tx ! i)))" by (auto simp: find_Some_iff)
    then have a: "j < length tx" "tx_Type (tx ! j) = transfer" "tx_Amount (tx ! j) < 0" "tx_Amount (tx ! i) = - tx_Amount (tx ! j)"
      by (auto simp: outs_of_def)
    have fresh: "p k \<noteq> Some i \<and> p k \<noteq> Some j" for k
      using assms(2,3) j(1) unfolding pairs_ok_def by (metis option.distinct(1))
    have "i \<noteq> j" using a by auto
    have "pairs_ok tx (p(i \<mapsto> j, j \<mapsto> i))"
      unfolding pairs_ok_def
    proof (intro allI impI)
      fix x y assume xy: "(p(i \<mapsto> j, j \<mapsto> i)) x = Some y"
      consider "x = j" "y = i" | "x = i" "y = j" "x \<noteq> j" | "p x = Some y" "x \<noteq> i" "x \<noteq> j"
        using xy by (cases "x = j"; cases "x = i") (simp_all add: eq_commute)
      then show "(p(i \<mapsto> j, j \<mapsto> i)) y = Some x \<and> x < length tx \<and> tx_Type (tx ! x) = transfer \<and> tx_Amount (tx ! x) \<noteq> 0
        \<and> tx_Amount (tx ! y) = - tx_Amount (tx ! x) \<and> \<bar>at_minutes (tx_At (tx ! y)) - at_minutes (tx_At (tx ! x))\<bar> \<le> 10"
      proof cases
        case 3
        have "y \<noteq> i" "y \<noteq> j" using fresh [of x] 3(1) by simp_all
        then have "(p(i \<mapsto> j, j \<mapsto> i)) y = p y" by simp
        then show ?thesis by (simp only: pairs_okD [OF assms(2) 3(1)] simp_thms)
      next
        case 1
        then show ?thesis using a j(1) \<open>i \<noteq> j\<close> by (simp add: abs_le_iff)
      next
        case 2
        then show ?thesis using a j(1) False assms(1) by (simp add: abs_le_iff)
      qed
    qed
    with s a show ?thesis by auto
  qed
qed

lemma pairs_fold:
  "n \<le> length tx \<Longrightarrow> pairs_ok tx (fold (pair_step tx) [0..<n] (\<lambda>_. None))
     \<and> dom (fold (pair_step tx) [0..<n] (\<lambda>_. None)) \<subseteq> {..<n} \<union> {j. tx_Amount (tx ! j) < 0}
     \<and> (\<forall>i<n. \<forall>j<length tx. could_pair tx i j \<longrightarrow>
          i \<in> dom (fold (pair_step tx) [0..<n] (\<lambda>_. None)) \<or> j \<in> dom (fold (pair_step tx) [0..<n] (\<lambda>_. None)))"
proof (induction n)
  case (Suc n)
  obtain p where p: "p = fold (pair_step tx) [0..<n] (\<lambda>_. None)" by blast
  have f: "fold (pair_step tx) [0..<Suc n] (\<lambda>_. None) = pair_step tx n p" by (simp add: p)
  have IH: "pairs_ok tx p" "dom p \<subseteq> {..<n} \<union> {j. tx_Amount (tx ! j) < 0}"
    "\<And>i j. i < n \<Longrightarrow> j < length tx \<Longrightarrow> could_pair tx i j \<Longrightarrow> i \<in> dom p \<or> j \<in> dom p"
    using Suc unfolding p by auto
  show ?case
  proof (cases "tx_Amount (tx ! n) \<le> 0")
    case True
    then have "pair_step tx n p = p" by (simp add: pair_step_def)
    moreover have "\<not> could_pair tx n j" for j using True by (simp add: could_pair_def)
    ultimately show ?thesis unfolding f using IH by (auto simp: less_Suc_eq)
  next
    case False
    then have "p n = None" using IH(2) by auto
    from pair_step_cases [OF _ IH(1) this] Suc.prems
    have s: "pairs_ok tx (pair_step tx n p)" "dom p \<subseteq> dom (pair_step tx n p)"
      "dom (pair_step tx n p) \<subseteq> dom p \<union> {n} \<union> {j. tx_Amount (tx ! j) < 0}"
      "\<And>j. j < length tx \<Longrightarrow> could_pair tx n j \<Longrightarrow> n \<in> dom (pair_step tx n p) \<or> j \<in> dom (pair_step tx n p)"
      by auto
    have "i \<in> dom (pair_step tx n p) \<or> j \<in> dom (pair_step tx n p)" if "i < Suc n" "j < length tx" "could_pair tx i j" for i j
    proof (cases "i = n")
      case True
      with s(4) that show ?thesis by blast
    next
      case False
      with IH(3) [OF _ that(2,3)] that(1) s(2) show ?thesis by (auto simp only: less_Suc_eq)
    qed
    then show ?thesis unfolding f using s(1,3) IH(2) by fastforce
  qed
qed (simp add: pairs_ok_def)

lemma involution_sum:
  assumes "finite (dom p)" "\<And>i j. p i = Some j \<Longrightarrow> p j = Some i \<and> f j = - f i"
  shows "(\<Sum>i\<in>dom p. f i) = (0 :: int)"
proof -
  let ?g = "\<lambda>i. the (p i)"
  have g: "?g i \<in> dom p" "?g (?g i) = i" "f (?g i) = - f i" if "i \<in> dom p" for i
  proof -
    from that obtain j where j: "p i = Some j" by blast
    with assms(2) [OF j] show "?g i \<in> dom p" "?g (?g i) = i" "f (?g i) = - f i" by auto
  qed
  have "(\<Sum>i\<in>dom p. f i) = (\<Sum>i\<in>dom p. f (?g i))"
    by (rule sum.reindex_bij_witness [of _ ?g ?g]) (simp_all only: g)
  also have "\<dots> = (\<Sum>i\<in>dom p. - f i)" by (rule sum.cong) (simp_all only: g)
  finally show ?thesis by (simp add: sum_negf)
qed

text \<open>The transfers that are taken for moves between own accounts come in pairs, of opposite amounts and
  at most ten minutes apart, so that together they cancel; and no two transfers are left that could be
  paired.\<close>

theorem transfers_cancel:
  "(\<Sum>i\<in>finPairTransfers tx. tx_Amount (tx ! i)) = 0
   \<and> pairs_ok tx (finPairs tx)
   \<and> {(i, j). i < length tx \<and> j < length tx \<and> could_pair tx i j \<and> i \<notin> finPairTransfers tx \<and> j \<notin> finPairTransfers tx} = {}"
proof -
  have p: "pairs_ok tx (finPairs tx)" "\<And>i j. i < length tx \<Longrightarrow> j < length tx \<Longrightarrow> could_pair tx i j \<Longrightarrow>
      i \<in> dom (finPairs tx) \<or> j \<in> dom (finPairs tx)"
    using pairs_fold [of "length tx" tx] unfolding finPairs_def by auto
  have "dom (finPairs tx) \<subseteq> {..<length tx}" using pairs_okD(2) [OF p(1)] by auto
  then have "finite (dom (finPairs tx))" by (rule finite_subset) simp
  then have "(\<Sum>i\<in>dom (finPairs tx). tx_Amount (tx ! i)) = 0"
    using pairs_okD(1,5) [OF p(1)] by (intro involution_sum) blast+
  then show ?thesis unfolding finPairTransfers_def using p by blast
qed

section \<open>Importing overlapping files\<close>

lemma last_bar:
  assumes "a @ bar # b = c @ bar # d" "bar \<notin> set b" "bar \<notin> set d"
  shows "a = c \<and> b = d"
proof -
  have "rev b @ bar # rev a = rev d @ bar # rev c"
    using arg_cong [OF assms(1), of rev] by simp
  then have "takeWhile (\<lambda>x. x \<noteq> bar) (rev b @ bar # rev a) = takeWhile (\<lambda>x. x \<noteq> bar) (rev d @ bar # rev c)" by simp
  moreover have "takeWhile (\<lambda>x. x \<noteq> bar) (rev x @ bar # y) = rev x" if "bar \<notin> set x" for x y
    using that by (subst takeWhile_append2) auto
  ultimately have "rev b = rev d" using assms(2,3) by simp
  then have "b = d" by simp
  with assms(1) show ?thesis by simp
qed

lemma no_bar: "bar \<notin> set (Itoa (int n))"
proof -
  have "\<not> is_digit bar" by (simp add: is_digit_def)
  then show ?thesis using set_nat_digits [of n] by (auto simp: Itoa_def)
qed

lemma hash_input_inj: "hash_input k n = hash_input k' n' \<longleftrightarrow> k = k' \<and> n = n'"
proof
  assume "hash_input k n = hash_input k' n'"
  then have "k = k' \<and> Itoa (int n) = Itoa (int n')" unfolding hash_input_def by (rule last_bar [OF _ no_bar no_bar])
  moreover from this have "digits_value 0 (nat_digits n) = digits_value 0 (nat_digits n')" by (simp add: Itoa_def)
  ultimately show "k = k' \<and> n = n'" by (simp add: digits_value_nat)
qed simp

definition count_key :: "bytes \<Rightarrow> FinTx list \<Rightarrow> nat" where
  "count_key k ts = length (filter (\<lambda>t. tx_key t = k) ts)"

lemma count_key_Cons: "count_key k (t # ts) = (if tx_key t = k then 1 else 0) + count_key k ts"
  by (simp add: count_key_def)

definition upto_counts :: "(bytes \<Rightarrow> nat) \<Rightarrow> (bytes \<Rightarrow> nat) \<Rightarrow> (bytes \<times> nat) set" where
  "upto_counts a b = {(k, n). a k < n \<and> n \<le> b k}"

lemma numbered_keys:
  "(\<lambda>(t, n). (tx_key t, n)) ` set (numbered seen ts) = upto_counts seen (\<lambda>k. seen k + count_key k ts)"
proof (induction ts arbitrary: seen)
  case (Cons t ts)
  have "upto_counts seen (\<lambda>k. seen k + count_key k (t # ts)) = insert (tx_key t, seen (tx_key t) + 1)
      (upto_counts (seen(tx_key t := seen (tx_key t) + 1))
        (\<lambda>k. (seen(tx_key t := seen (tx_key t) + 1)) k + count_key k ts))"
    by (auto simp: upto_counts_def count_key_Cons split: if_splits)
  with Cons.IH show ?case by (simp add: Let_def fun_upd_def)
qed (simp add: upto_counts_def count_key_def)

text \<open>The rows of an owner hold the numbered keys of a set.\<close>

definition holds :: "(bytes \<Rightarrow> bytes) \<Rightarrow> int \<Rightarrow> (bytes \<times> nat) set \<Rightarrow> FinRow list \<Rightarrow> bool" where
  "holds sha owner S rows \<longleftrightarrow> distinct (List.map fr_Hash (filter (\<lambda>r. fr_Owner r = owner) rows))
     \<and> (\<lambda>r. (tx_key (fr_Tx r), fr_Hash r)) ` set (filter (\<lambda>r. fr_Owner r = owner) rows)
       = (\<lambda>(k, n). (k, short_hash sha (hash_input k n))) ` S"

lemma holds_hashes: "holds sha owner S rows \<Longrightarrow> row_hashes owner rows = (\<lambda>(k, n). short_hash sha (hash_input k n)) ` S"
proof -
  assume "holds sha owner S rows"
  then have "snd ` (\<lambda>r. (tx_key (fr_Tx r), fr_Hash r)) ` set (filter (\<lambda>r. fr_Owner r = owner) rows)
      = snd ` (\<lambda>(k, n). (k, short_hash sha (hash_input k n))) ` S"
    by (simp only: holds_def)
  then have "fr_Hash ` {r \<in> set rows. fr_Owner r = owner} = (\<lambda>(k, n). short_hash sha (hash_input k n)) ` S"
    by (simp add: image_image case_prod_unfold)
  moreover have "row_hashes owner rows = fr_Hash ` {r \<in> set rows. fr_Owner r = owner}" by (auto simp: row_hashes_def)
  ultimately show ?thesis by simp
qed

definition no_collision :: "(bytes \<Rightarrow> bytes) \<Rightarrow> (bytes \<times> nat) set \<Rightarrow> bool" where
  "no_collision sha U \<longleftrightarrow> inj_on (short_hash sha) ((\<lambda>(k, n). hash_input k n) ` U)"

lemma no_collisionD:
  "no_collision sha U \<Longrightarrow> (k, n) \<in> U \<Longrightarrow> (k', n') \<in> U \<Longrightarrow>
     short_hash sha (hash_input k n) = short_hash sha (hash_input k' n') \<longleftrightarrow> k = k' \<and> n = n'"
  unfolding no_collision_def inj_on_def by (metis (no_types, lifting) case_prod_conv hash_input_inj image_eqI)

lemma insert_holds:
  assumes "holds sha owner S rows" "no_collision sha U" "S \<subseteq> U" "(tx_key t, n) \<in> U" "existing \<subseteq> row_hashes owner rows"
  shows "holds sha owner (insert (tx_key t, n) S) (insert_tx existing owner (t, finTxHash sha t n) rows)
    \<and> row_hashes owner rows \<subseteq> row_hashes owner (insert_tx existing owner (t, finTxHash sha t n) rows)"
proof (cases "finTxHash sha t n \<in> row_hashes owner rows")
  case True
  then obtain k m where km: "(k, m) \<in> S" "short_hash sha (hash_input (tx_key t) n) = short_hash sha (hash_input k m)"
    unfolding holds_hashes [OF assms(1)] finTxHash_def by auto
  then have "(tx_key t, n) \<in> S" using no_collisionD [OF assms(2,4)] assms(3) by blast
  then have "insert (tx_key t, n) S = S" by blast
  with True assms(1) show ?thesis by (simp add: insert_tx_def)
next
  case False
  then have i: "insert_tx existing owner (t, finTxHash sha t n) rows = rows @ [\<lparr>fr_Owner = owner, fr_Tx = t, fr_Hash = finTxHash sha t n\<rparr>]"
    using assms(5) by (auto simp: insert_tx_def)
  have "finTxHash sha t n \<notin> fr_Hash ` {r \<in> set rows. fr_Owner r = owner}" using False by (auto simp: row_hashes_def)
  then show ?thesis
    using assms(1) unfolding i by (auto simp: holds_def finTxHash_def row_hashes_def)
qed

lemma insert_all_holds:
  assumes "holds sha owner S rows" "no_collision sha U" "S \<subseteq> U" "(\<lambda>(t, n). (tx_key t, n)) ` set ts \<subseteq> U"
    and "existing \<subseteq> row_hashes owner rows"
  shows "holds sha owner (S \<union> (\<lambda>(t, n). (tx_key t, n)) ` set ts)
    (fold (insert_tx existing owner) (List.map (\<lambda>(t, n). (t, finTxHash sha t n)) ts) rows)"
  using assms
proof (induction ts arbitrary: S rows)
  case (Cons x ts)
  obtain t n where x: "x = (t, n)" by fastforce
  let ?rows = "insert_tx existing owner (t, finTxHash sha t n) rows"
  have "(tx_key t, n) \<in> U" using Cons.prems(4) x by simp
  note s = insert_holds [OF Cons.prems(1-3) this Cons.prems(5)]
  have "holds sha owner (insert (tx_key t, n) S \<union> (\<lambda>(t, n). (tx_key t, n)) ` set ts)
    (fold (insert_tx existing owner) (List.map (\<lambda>(t, n). (t, finTxHash sha t n)) ts) ?rows)"
    using s Cons.prems(2-5) x by (intro Cons.IH) auto
  then show ?case by (simp add: x)
qed simp

lemma import_holds:
  assumes "holds sha owner (upto_counts (\<lambda>_. 0) b) (fd_tx db)" "no_collision sha U"
    and "upto_counts (\<lambda>_. 0) b \<subseteq> U" "upto_counts (\<lambda>_. 0) (\<lambda>k. count_key k (fp_Tx p)) \<subseteq> U"
  shows "holds sha owner (upto_counts (\<lambda>_. 0) (\<lambda>k. max (count_key k (fp_Tx p)) (b k))) (fd_tx (snd (FinanceImport sha owner p True db)))"
proof -
  have k: "(\<lambda>(t, n). (tx_key t, n)) ` set (numbered (\<lambda>_. 0) (fp_Tx p)) = upto_counts (\<lambda>_. 0) (\<lambda>k. count_key k (fp_Tx p))"
    using numbered_keys [of "\<lambda>_. 0" "fp_Tx p"] by simp
  have u: "upto_counts (\<lambda>_. 0) b \<union> upto_counts (\<lambda>_. 0) (\<lambda>k. count_key k (fp_Tx p))
      = upto_counts (\<lambda>_. 0) (\<lambda>k. max (count_key k (fp_Tx p)) (b k))"
    by (auto simp: upto_counts_def)
  have "fd_tx (snd (FinanceImport sha owner p True db)) = fold (insert_tx (row_hashes owner (fd_tx db)) owner)
      (List.map (\<lambda>(t, n). (t, finTxHash sha t n)) (numbered (\<lambda>_. 0) (fp_Tx p))) (fd_tx db)"
    by (simp add: FinanceImport_def Let_def)
  with insert_all_holds [OF assms(1-3), of "numbered (\<lambda>_. 0) (fp_Tx p)" "row_hashes owner (fd_tx db)"] assms(4)
  show ?thesis by (simp add: k u)
qed

lemma import_all_holds:
  assumes "holds sha owner (upto_counts (\<lambda>_. 0) b) (fd_tx db)" "no_collision sha U" "upto_counts (\<lambda>_. 0) b \<subseteq> U"
    and "\<forall>p\<in>set ps. upto_counts (\<lambda>_. 0) (\<lambda>k. count_key k (fp_Tx p)) \<subseteq> U"
  shows "holds sha owner (upto_counts (\<lambda>_. 0) (\<lambda>k. fold max (List.map (\<lambda>p. count_key k (fp_Tx p)) ps) (b k)))
    (fd_tx (import_all sha owner ps db))"
  using assms
proof (induction ps arbitrary: b db)
  case (Cons p ps)
  let ?b = "\<lambda>k. max (count_key k (fp_Tx p)) (b k)"
  have "upto_counts (\<lambda>_. 0) ?b \<subseteq> U" using Cons.prems(3,4) by (auto simp: upto_counts_def max_def split: if_splits)
  then show ?case
    using Cons.IH [OF import_holds [OF Cons.prems(1-3)]] Cons.prems(2,4) by (simp add: import_all_def)
qed (simp add: import_all_def)

lemma holds_count:
  assumes "holds sha owner (upto_counts (\<lambda>_. 0) b) rows" "no_collision sha (upto_counts (\<lambda>_. 0) b)"
  shows "length (filter (\<lambda>r. fr_Owner r = owner \<and> tx_key (fr_Tx r) = k) rows) = b k"
proof -
  let ?mine = "filter (\<lambda>r. fr_Owner r = owner) rows"
  let ?f = "\<lambda>n. short_hash sha (hash_input k n)"
  have d: "distinct (List.map fr_Hash ?mine)"
    and e: "(\<lambda>r. (tx_key (fr_Tx r), fr_Hash r)) ` set ?mine = (\<lambda>(k, n). (k, short_hash sha (hash_input k n))) ` upto_counts (\<lambda>_. 0) b"
    using assms(1) by (simp_all add: holds_def)
  have "length (filter (\<lambda>r. tx_key (fr_Tx r) = k) ?mine) = card (set (List.map fr_Hash (filter (\<lambda>r. tx_key (fr_Tx r) = k) ?mine)))"
    using distinct_card [OF distinct_map_filter [OF d, of "\<lambda>r. tx_key (fr_Tx r) = k"]] by (simp only: length_map)
  also have "set (List.map fr_Hash (filter (\<lambda>r. tx_key (fr_Tx r) = k) ?mine)) = {h. (k, h) \<in> (\<lambda>r. (tx_key (fr_Tx r), fr_Hash r)) ` set ?mine}"
    by auto
  also have "\<dots> = ?f ` {1..b k}" unfolding e by (auto simp: upto_counts_def)
  also have "card \<dots> = b k"
    using no_collisionD [OF assms(2), of k _ k] by (subst card_image) (auto simp: inj_on_def upto_counts_def)
  finally show ?thesis by (simp add: conj_commute)
qed

lemma le_fold_max: "(n :: nat) \<le> fold max xs a \<longleftrightarrow> n \<le> a \<or> (\<exists>x\<in>set xs. n \<le> x)"
  by (induction xs arbitrary: a) (auto simp: le_max_iff_disj)

text \<open>Files of an owner may overlap in any way: after importing them one after another, a transaction is
  kept as often as the file that has it most often, unless the shortened hashes of two inputs collide.
  Importing a file again changes nothing, and equal transactions of one file are all kept.\<close>

theorem import_keeps_most:
  assumes "filter (\<lambda>r. fr_Owner r = owner) (fd_tx db) = []"
    and "inj_on (short_hash sha) {hash_input (tx_key t) n | p t n. p \<in> set ps \<and> t \<in> set (fp_Tx p) \<and> n \<le> length (fp_Tx p)}"
  shows "length (filter (\<lambda>r. fr_Owner r = owner \<and> tx_key (fr_Tx r) = k) (fd_tx (import_all sha owner ps db)))
    = fold max (List.map (\<lambda>p. count_key k (fp_Tx p)) ps) 0"
proof -
  let ?U = "\<Union>p\<in>set ps. upto_counts (\<lambda>_. 0) (\<lambda>k. count_key k (fp_Tx p))"
  let ?b = "\<lambda>k. fold max (List.map (\<lambda>p. count_key k (fp_Tx p)) ps) 0"
  have c: "n \<le> length ts \<and> (\<exists>t\<in>set ts. tx_key t = k)" if "0 < n" "n \<le> count_key k ts" for n k ts
  proof -
    have "filter (\<lambda>t. tx_key t = k) ts \<noteq> []" using that by (auto simp: count_key_def)
    then obtain t where "t \<in> set (filter (\<lambda>t. tx_key t = k) ts)" by (metis last_in_set)
    moreover have "count_key k ts \<le> length ts" unfolding count_key_def by (rule length_filter_le)
    then have "n \<le> length ts" using that(2) by (rule order_trans [rotated])
    ultimately show ?thesis by auto
  qed
  have "(\<lambda>(k, n). hash_input k n) ` ?U \<subseteq> {hash_input (tx_key t) n | p t n. p \<in> set ps \<and> t \<in> set (fp_Tx p) \<and> n \<le> length (fp_Tx p)}"
  proof
    fix s assume "s \<in> (\<lambda>(k, n). hash_input k n) ` ?U"
    then obtain k n p where s: "s = hash_input k n" "p \<in> set ps" "0 < n" "n \<le> count_key k (fp_Tx p)"
      by (auto simp: upto_counts_def)
    then show "s \<in> {hash_input (tx_key t) n | p t n. p \<in> set ps \<and> t \<in> set (fp_Tx p) \<and> n \<le> length (fp_Tx p)}"
      using c [OF s(3,4)] by blast
  qed
  then have nc: "no_collision sha ?U" unfolding no_collision_def by (rule inj_on_subset [OF assms(2)])
  have b: "\<exists>p\<in>set ps. n \<le> count_key k (fp_Tx p)" if "0 < n" "n \<le> ?b k" for n k
    using that by (auto simp: le_fold_max)
  have "upto_counts (\<lambda>_. 0) ?b \<subseteq> ?U" 
  proof
    fix q assume q: "q \<in> upto_counts (\<lambda>_. 0) ?b"
    obtain k n where kn: "q = (k, n)" by fastforce
    then have "0 < n" "n \<le> ?b k" using q by (auto simp: upto_counts_def)
    from b [OF this] kn \<open>0 < n\<close> show "q \<in> ?U" by (auto simp: upto_counts_def)
  qed
  then have nb: "no_collision sha (upto_counts (\<lambda>_. 0) ?b)" using nc unfolding no_collision_def by (rule inj_on_subset [OF _ image_mono, rotated])
  have "holds sha owner (upto_counts (\<lambda>_. 0) (\<lambda>_. 0)) (fd_tx db)"
    using assms(1) by (auto simp: holds_def upto_counts_def)
  from import_all_holds [OF this nc] have "holds sha owner (upto_counts (\<lambda>_. 0) ?b) (fd_tx (import_all sha owner ps db))"
    by (auto simp: upto_counts_def)
  from holds_count [OF this nb] show ?thesis .
qed

end
