(* ===== verification/Spec2Isabelle.thy ===== *)
theory Spec2Isabelle
  imports Tlv_Properties Im_Properties Session_Properties Ash Cluster Onboarding_Properties Hub_System Recur_Properties
    Exchange_Reports Pase_Properties Zigbee_Properties Mqtt Matter_Driver Ezsp_Properties Commission_Properties
    Login_Properties Finance_Properties
begin

text \<open>
  A verification development for home-hub: a home-automation hub in Go (\<^verbatim>\<open>cmd/hub\<close>,
  \<^verbatim>\<open>internal/\<close>), a Matter controller library (\<^verbatim>\<open>go-matter/\<close>), and a family planner
  (\<^verbatim>\<open>planner/\<close>). Every definition is translated from the Go source; the comments beside the
  definitions name the functions they model.

  \<^bold>\<open>The program.\<close> The hub loads a configuration of devices and rules, fills a registry, and starts
  one adapter for each protocol. Adapters publish events on a bus; the automation engine turns events
  into commands on the bus; a dispatcher takes the commands to the adapter of their device. A Matter
  device is reached through \<^verbatim>\<open>go-matter\<close>: commands and attribute reports of the interaction model are
  TLV structures, carried in message frames that a secure session seals with AES-CCM, and exchanged
  over an unreliable transport with acknowledgements and retransmissions. A session comes from the
  PASE handshake, with the passcode of a new device, or from the CASE handshake, with the certificates
  of the fabric; commissioning takes a device from the first to the second. Zigbee devices are reached
  through a serial dongle, over the ASH link protocol or over the zstack library; covers and fans with
  radio remotes through a bridge that the RF adapter commands over MQTT. The planner keeps cards with
  due dates that recur, imports account books, and guards its pages with accounts.

  \<^bold>\<open>Theories.\<close> Shared: Prelude (words and byte layouts), Go_Strings (the string functions of Go's
  library that the code uses), Dates (its calendar dates).

  \<^item> TLV, \<^verbatim>\<open>go-matter/tlv\<close>. Tlv_Writer and Tlv_Reader are \<^verbatim>\<open>writer.go\<close>, \<^verbatim>\<open>tag.go\<close> and
    \<^verbatim>\<open>reader.go\<close>: writer and reader are records, a method returns the new one. Tlv_Decode is the shape
    of all decoders (a loop over the members of a structure). Tlv_Codec is the specification, a tree
    of elements and its bytes; Tlv_Laws and Tlv_Members prove that the reader walks that tree;
    Tlv_Properties states the results.
  \<^item> Interaction model, \<^verbatim>\<open>go-matter/im\<close>: Im (encoders and decoders), Im_Correct, Im_Properties
    (every decoder returns on every input and inverts its encoder). Cluster is \<^verbatim>\<open>go-matter/cluster\<close>.
  \<^item> Messages and sessions: Message is \<^verbatim>\<open>go-matter/message\<close> (with the locale of prefix codecs), Ccm is
    \<^verbatim>\<open>crypto/ccm.go\<close> over an arbitrary block cipher (with the locale of authenticated encryption),
    Session and Session_Properties are \<^verbatim>\<open>go-matter/session\<close>: replay window against its set
    specification, the nonces that \<^verbatim>\<open>Seal\<close> gets, authenticity, delivery. Ccm states the formatting of
    SP 800-38C from the standard and shows the code's tag to be the CBC-MAC over it.
  \<^item> Exchanges, \<^verbatim>\<open>go-matter/controller\<close>: Exchange models \<^verbatim>\<open>mrp.go\<close>, \<^verbatim>\<open>frame.go\<close>, \<^verbatim>\<open>subscribe.go\<close> and the
    requests and the handshake's wait of \<^verbatim>\<open>controller.go\<close>. Exchange_Properties bounds an exchange,
    shows its reply authentic and fresh, and carries a command end to end over a lossy network, with
    the copies of the request that every timeout causes; Exchange_Reports shows that a subscription passes reports on exactly once.
  \<^item> Handshakes: Spake2 is \<^verbatim>\<open>go-matter/spake2\<close> over an arbitrary group, Pase and Pase_Properties the two
    state machines of \<^verbatim>\<open>go-matter/pase\<close>, Case and Case_Properties those of \<^verbatim>\<open>go-matter/casesession\<close>:
    two honest sides end with sessions that decrypt each other, and what a side accepts binds the other.
  \<^item> Certificates and fabrics: Cert, Cert_Properties, Cert_Signed and Cert_Chain are \<^verbatim>\<open>go-matter/cert\<close>
    (TLV form and its round trip, DER form, signing, verification of a chain); Fabric is
    \<^verbatim>\<open>controller/fabric.go\<close> and \<^verbatim>\<open>store.go\<close>.
  \<^item> Commissioning: Commission is \<^verbatim>\<open>controller/commission.go\<close> and \<^verbatim>\<open>Connect\<close>; Commission_Properties says
    which command is sent after which answers, and what an unauthenticated report of success does.
  \<^item> Onboarding codes, \<^verbatim>\<open>go-matter/pase/onboarding.go\<close>: Onboarding (manual codes and the Verhoeff
    check) and Onboarding_Properties (base 38 and bit fields of the QR code).
  \<^item> ASH, \<^verbatim>\<open>internal/zigbee/ezsp/ash\<close>: Ash (frames, CRC, byte stuffing, the read loop, and the
    connection as a step relation with its invariant).
  \<^item> EmberZNet, \<^verbatim>\<open>internal/zigbee/ezsp\<close>: Ezsp (frames, the demultiplexer of responses and callbacks,
    bringing the network up) and Ezsp_Properties (what the bring-up sends for every report of the dongle).
  \<^item> Adapters: Adapter holds what they share. Rf and Rf_Properties are \<^verbatim>\<open>internal/rf\<close> with its transmit
    loop as a step relation; Zigbee_Driver and Zigbee_Properties \<^verbatim>\<open>internal/zigbee\<close>, up to the way of a
    press from a switch to a blind; Mqtt is \<^verbatim>\<open>internal/mqtt\<close>; Matter_Driver \<^verbatim>\<open>internal/matter\<close>.
  \<^item> The hub: Hub models \<^verbatim>\<open>internal/domain\<close>, \<^verbatim>\<open>registry\<close>, \<^verbatim>\<open>bus\<close>, \<^verbatim>\<open>automation\<close> and the routing of
    \<^verbatim>\<open>cmd/hub/main.go\<close>; Config is \<^verbatim>\<open>internal/config\<close>; Hub_Bus has the locale of bounded channels and its
    interpretation on the bus; Hub_Rules shows what the rules mean over a sequence of events;
    Hub_System is the step relation of the goroutines, its invariant and the delivery of commands.
  \<^item> Planner, \<^verbatim>\<open>planner/internal/store/recur.go\<close>: Recur (the rules of recurring cards) and
    Recur_Properties (their meaning, the first next date, termination). Login and Login_Properties are
    \<^verbatim>\<open>store/login.go\<close>, \<^verbatim>\<open>users.go\<close>, \<^verbatim>\<open>internal/auth\<close> and the handlers over them, with the throttle as a
    step relation of requests side by side; Finance and Finance_Properties are the import of
    \<^verbatim>\<open>store/finance_import.go\<close> and its pairs of transfers.

  \<^bold>\<open>Modelling.\<close> Machine integers are words of their width, Go's \<^verbatim>\<open>int\<close> is \<^verbatim>\<open>int\<close> where it cannot
  overflow; strings and byte slices are lists of bytes; an error result is the left of a sum; pointers
  that may be nil are options; a method that changes its receiver returns the new receiver. A loop
  that is bounded by its input is structural, or has fuel that the proofs show to be enough: a member
  loop gets one more than the unread bytes, \<^verbatim>\<open>writeElement\<close> one more than \<^verbatim>\<open>maxDepth\<close>, an exchange
  makes at most 65 rounds by its own count. A loop without a bound of its own is a partial function
  whose result None is not returning. Channels are lists with the capacity of the code; the operations
  on the bus, the registry and a session are atomic, and goroutines interleave as the steps of a
  relation. The transport of an exchange is the list of what each attempt to receive meets, with the
  sends that fail; time is only whether a deadline passed. What is not in this repository is a
  parameter: the block cipher, the hashes and key derivations, the curve library, the certificate
  requests of \<^verbatim>\<open>crypto/x509\<close>, bcrypt, JSON, the MQTT broker, the zstack library, random bytes.

  \<^bold>\<open>Not modelled.\<close> File, socket and serial input and output, YAML decoding, logging, timers, the
  SQL of the planner apart from accounts and imports and most of its HTTP handlers, the HomeKit bridge,
  discovery over mDNS, the web client and the firmware of the bridge. Mutexes are represented by
  atomicity. The manifest lists each part with its reason.
\<close>

end
